(* ===== verification/Prelude.thy ===== *)
theory Prelude
  imports Main "HOL-Library.Word" "HOL-Library.Monad_Syntax"
begin

text \<open>
  Shared vocabulary of the development: the machine types of the C sources, the error
  numbers they return, NUL-terminated strings seen through the arrays that hold them, the
  conversions between C integer types, and the generic list facts the component theories
  use.  A C expression whose value the language leaves undefined (a read or write outside
  an object, a null pointer dereference) is modelled by \<^const>\<open>None\<close>; every function
  that can reach one returns an option and the memory-safety lemmas state when it is
  \<^const>\<open>Some\<close>.
\<close>

section \<open>Collections\<close>

named_theorems cstring_simps \<open>rewrite rules for C strings held in arrays\<close>
named_theorems fault_simps \<open>when a model returns a value and not a fault\<close>

section \<open>Machine types\<close>

type_synonym u8 = "8 word"
type_synonym u16 = "16 word"
type_synonym u32 = "32 word"

abbreviation NUL :: char where "NUL \<equiv> CHR 0x00"
abbreviation CR :: char where "CR \<equiv> CHR 0x0D"
abbreviation LF :: char where "LF \<equiv> CHR 0x0A"
abbreviation DQ :: char where "DQ \<equiv> CHR 0x22"

text \<open>Conversion to a signed 32-bit \<open>int\<close>, as gcc defines it.\<close>

definition to_int32 :: "int \<Rightarrow> int" where
  "to_int32 x = (x + 2147483648) mod 4294967296 - 2147483648"

definition to_u32 :: "int \<Rightarrow> int" where
  "to_u32 x = x mod 4294967296"

lemma to_int32_id: "- 2147483648 \<le> x \<Longrightarrow> x < 2147483648 \<Longrightarrow> to_int32 x = x"
  by (simp add: to_int32_def)

lemma to_u32_small: "0 \<le> i \<Longrightarrow> i < 4294967296 \<Longrightarrow> to_u32 i = i"
  by (simp add: to_u32_def)

lemma to_int32_bounds: "- 2147483648 \<le> to_int32 x \<and> to_int32 x < 2147483648"
proof -
  have "0 \<le> (x + 2147483648) mod 4294967296" "(x + 2147483648) mod 4294967296 < 4294967296"
    by simp_all
  then show ?thesis unfolding to_int32_def by linarith
qed

section \<open>Error numbers (Linux values)\<close>

abbreviation (input) ENOENT :: int where "ENOENT \<equiv> 2"
abbreviation (input) EIO :: int where "EIO \<equiv> 5"
abbreviation (input) EAGAIN :: int where "EAGAIN \<equiv> 11"
abbreviation (input) ENOMEM :: int where "ENOMEM \<equiv> 12"
abbreviation (input) EINVAL :: int where "EINVAL \<equiv> 22"
abbreviation (input) EFBIG :: int where "EFBIG \<equiv> 27"
abbreviation (input) ENOSYS :: int where "ENOSYS \<equiv> 38"
abbreviation (input) ESHUTDOWN :: int where "ESHUTDOWN \<equiv> 108"

section \<open>C strings\<close>

text \<open>
  A pointer to a NUL-terminated string is a HOL string without its terminator.
  \<open>c_at\<close> reads one character of it, the terminator included; \<open>cstr\<close> is the string
  an array holds, and reading it is only defined when the array has a terminator.
\<close>

definition c_at :: "string \<Rightarrow> nat \<Rightarrow> char" where
  "c_at s i = (if i < length s then s ! i else NUL)"

definition cstr :: "char list \<Rightarrow> string" where
  "cstr a = takeWhile (\<lambda>c. c \<noteq> NUL) a"

definition cstr_of_array :: "char list \<Rightarrow> string option" where
  "cstr_of_array a = (if NUL \<in> set a then Some (cstr a) else None)"

lemma c_at_nth [cstring_simps]: "i < length s \<Longrightarrow> c_at s i = s ! i"
  by (simp add: c_at_def)

lemma c_at_end [cstring_simps]: "length s \<le> i \<Longrightarrow> c_at s i = NUL"
  by (simp add: c_at_def)

lemma c_at_Cons_0 [simp]: "c_at (x # xs) 0 = x"
  by (simp add: c_at_def)

lemma c_at_Nil [simp]: "c_at [] i = NUL"
  by (simp add: c_at_def)

lemma c_at_Cons_Suc [simp]: "c_at (x # xs) (Suc i) = c_at xs i"
  by (simp add: c_at_def)

lemma cstr_id [cstring_simps]: "NUL \<notin> set s \<Longrightarrow> cstr s = s"
  by (auto simp: cstr_def takeWhile_eq_all_conv)

lemma cstr_append_NUL [cstring_simps]:
  "NUL \<notin> set s \<Longrightarrow> cstr (s @ NUL # rest) = s"
  unfolding cstr_def by (induction s) auto

lemma NUL_notin_cstr [simp]: "NUL \<notin> set (cstr a)"
  by (auto simp: cstr_def dest: set_takeWhileD)

lemma cstr_less: "NUL \<in> set s \<Longrightarrow> length (cstr s) < length s"
  by (induction s) (auto simp: cstr_def)

lemma cstr_of_array_padded [cstring_simps]:
  assumes "NUL \<notin> set s" and "0 < n"
  shows "cstr_of_array (s @ replicate n NUL) = Some s"
proof -
  from assms(2) obtain m where "n = Suc m" by (cases n) auto
  with assms(1) show ?thesis
    by (simp add: cstr_of_array_def cstr_append_NUL)
qed

section \<open>Lists\<close>

lemma list_update_append_replicate:
  "i = length xs \<Longrightarrow> 0 < n \<Longrightarrow> (xs @ replicate n a)[i := b] = (xs @ [b]) @ replicate (n - 1) a"
  by (cases n) (auto simp: list_update_append)

lemma distinct_map_filter: "distinct (map f xs) \<Longrightarrow> distinct (map f (filter P xs))"
  by (induction xs) auto

lemma option_bind_Some_iff:
  "Option.bind m f = Some y \<longleftrightarrow> (\<exists>x. m = Some x \<and> f x = Some y)"
  by (cases m) auto

lemmas option_bind_SomeE = option_bind_Some_iff [THEN iffD1, THEN exE]

end
