(* ===== verification/Llparse.thy ===== *)
theory Llparse
  imports Prelude
begin

text \<open>
  The low-level line parser of the AT channel, \<open>struct llparser\<close> of
  \<open>include/gsmd/gsmd.h\<close> and the functions \<open>llparse_append\<close>, \<open>llparse_endline\<close>,
  \<open>llparse_byte\<close>, \<open>llparse_string\<close> and \<open>llparse_init\<close> of \<open>src/gsmd/atcmd.c\<close>.
\<close>

unbundle bit_operations_syntax

section \<open>State\<close>

datatype llparse_state =
    LLPARSE_STATE_IDLE
  | LLPARSE_STATE_IDLE_CR
  | LLPARSE_STATE_IDLE_LF
  | LLPARSE_STATE_RESULT
  | LLPARSE_STATE_RESULT_CR
  | LLPARSE_STATE_RESULT_LF
  | LLPARSE_STATE_PROMPT
  | LLPARSE_STATE_PROMPT_SPC
  | LLPARSE_STATE_ERROR

definition LLPARSE_BUF_SIZE :: nat where "LLPARSE_BUF_SIZE = 1024"

definition LGSM_ATCMD_F_EXTENDED :: u32 where "LGSM_ATCMD_F_EXTENDED = 0x01"
definition LGSM_ATCMD_F_PARAM :: u32 where "LGSM_ATCMD_F_PARAM = 0x02"
definition LGSM_ATCMD_F_LFCR :: u32 where "LGSM_ATCMD_F_LFCR = 0x04"

text \<open>
  \<open>ll_cur\<close> is the pointer \<open>llp->cur\<close> as an offset into \<open>llp->buf\<close>.  The callbacks
  and their context are arguments of \<open>llparse_string\<close>.
\<close>

record llparser =
  ll_state :: llparse_state
  ll_len :: nat
  ll_flags :: u32
  ll_cur :: nat
  ll_buf :: "char list"

definition flag :: "u32 \<Rightarrow> u32 \<Rightarrow> bool" where
  "flag w m \<longleftrightarrow> w AND m \<noteq> 0"

section \<open>Operations\<close>

definition llparse_append :: "llparser \<Rightarrow> char \<Rightarrow> int \<times> llparser" where
  "llparse_append llp byte =
     (if ll_cur llp < ll_len llp
      then (0, llp\<lparr>ll_buf := (ll_buf llp)[ll_cur llp := byte], ll_cur := ll_cur llp + 1\<rparr>)
      else (- EFBIG, llp))"

definition llparse_endline :: "llparser \<Rightarrow> llparser" where
  "llparse_endline llp =
     llp\<lparr>ll_cur := 0, ll_state := LLPARSE_STATE_IDLE,
         ll_buf := replicate LLPARSE_BUF_SIZE NUL @ drop LLPARSE_BUF_SIZE (ll_buf llp)\<rparr>"

text \<open>The build without \<open>STRICT\<close>, which the build files never define.\<close>

definition llparse_byte :: "llparser \<Rightarrow> char \<Rightarrow> int \<times> llparser" where
  "llparse_byte llp byte =
    (case ll_state llp of
       LLPARSE_STATE_IDLE \<Rightarrow>
         (if flag (ll_flags llp) LGSM_ATCMD_F_EXTENDED then
            if byte = CR then (0, llp\<lparr>ll_state := LLPARSE_STATE_IDLE_CR\<rparr>)
            else if byte = CHR ''>'' then (0, llp\<lparr>ll_state := LLPARSE_STATE_PROMPT\<rparr>)
            else llparse_append (llp\<lparr>ll_state := LLPARSE_STATE_RESULT\<rparr>) byte
          else llparse_append (llp\<lparr>ll_state := LLPARSE_STATE_RESULT\<rparr>) byte)
     | LLPARSE_STATE_PROMPT_SPC \<Rightarrow>
         (if flag (ll_flags llp) LGSM_ATCMD_F_EXTENDED then
            if byte = CR then (0, llp\<lparr>ll_state := LLPARSE_STATE_IDLE_CR\<rparr>)
            else if byte = CHR ''>'' then (0, llp\<lparr>ll_state := LLPARSE_STATE_PROMPT\<rparr>)
            else llparse_append (llp\<lparr>ll_state := LLPARSE_STATE_RESULT\<rparr>) byte
          else llparse_append (llp\<lparr>ll_state := LLPARSE_STATE_RESULT\<rparr>) byte)
     | LLPARSE_STATE_IDLE_CR \<Rightarrow>
         (if byte = LF then (0, llp\<lparr>ll_state := LLPARSE_STATE_IDLE_LF\<rparr>)
          else if byte \<noteq> CR then (0, llp\<lparr>ll_state := LLPARSE_STATE_ERROR\<rparr>)
          else (0, llp))
     | LLPARSE_STATE_IDLE_LF \<Rightarrow>
         (if byte = CR then (0, llp\<lparr>ll_state := LLPARSE_STATE_RESULT_CR\<rparr>)
          else if byte = CHR ''>'' then (0, llp\<lparr>ll_state := LLPARSE_STATE_PROMPT\<rparr>)
          else llparse_append (llp\<lparr>ll_state := LLPARSE_STATE_RESULT\<rparr>) byte)
     | LLPARSE_STATE_RESULT \<Rightarrow>
         (if byte = CR then (0, llp\<lparr>ll_state := LLPARSE_STATE_RESULT_CR\<rparr>)
          else if flag (ll_flags llp) LGSM_ATCMD_F_LFCR \<and> byte = LF
               then (0, llp\<lparr>ll_state := LLPARSE_STATE_RESULT_LF\<rparr>)
          else llparse_append llp byte)
     | LLPARSE_STATE_RESULT_CR \<Rightarrow>
         (if byte = LF then (0, llparse_endline llp) else (0, llp))
     | LLPARSE_STATE_RESULT_LF \<Rightarrow>
         (if byte = CR then (0, llparse_endline llp) else (0, llp))
     | LLPARSE_STATE_PROMPT \<Rightarrow>
         (if byte = CHR '' '' then (0, llp\<lparr>ll_state := LLPARSE_STATE_PROMPT_SPC\<rparr>)
          else let llp1 = snd (llparse_append llp (CHR ''>''));
                   (ret, llp2) = llparse_append llp1 byte
               in (ret, llp2\<lparr>ll_state := LLPARSE_STATE_RESULT\<rparr>))
     | LLPARSE_STATE_ERROR \<Rightarrow> (0, llp))"

text \<open>
  \<open>llparse_string\<close> feeds a chunk of received bytes.  The callbacks \<open>cb\<close> (a complete
  line, called with the whole array and the number of bytes collected) and \<open>prompt_cb\<close>
  run on the parser together with its context, because the context of gsmd contains the
  parser; they may fault.
\<close>

type_synonym 'c ll_cb = "char list \<Rightarrow> nat \<Rightarrow> llparser \<times> 'c \<Rightarrow> (llparser \<times> 'c) option"
type_synonym 'c ll_prompt_cb = "llparser \<times> 'c \<Rightarrow> (llparser \<times> 'c) option"

fun llparse_string ::
  "'c ll_cb \<Rightarrow> 'c ll_prompt_cb \<Rightarrow> llparser \<times> 'c \<Rightarrow> char list \<Rightarrow> (int \<times> llparser \<times> 'c) option" where
  "llparse_string cb prompt_cb (llp, c) [] = Some (0, llp, c)"
| "llparse_string cb prompt_cb (llp, c) (b # bs) =
     (case llparse_byte llp b of (rc, llp1) \<Rightarrow>
        if rc < 0 then Some (rc, llp1, c)
        else do {
          (llp2, c2) \<leftarrow> (if ll_state llp1 = LLPARSE_STATE_RESULT_CR
                         then cb (ll_buf llp1) (ll_cur llp1) (llp1, c) else Some (llp1, c));
          (llp3, c3) \<leftarrow> (if ll_state llp2 = LLPARSE_STATE_PROMPT_SPC
                         then prompt_cb (llp2, c2) else Some (llp2, c2));
          llparse_string cb prompt_cb (llp3, c3) bs
        })"

definition llparse_init :: "llparser \<Rightarrow> int \<times> llparser" where
  "llparse_init llp = (0, llp\<lparr>ll_state := LLPARSE_STATE_IDLE\<rparr>)"


section \<open>Well-formed parsers\<close>

text \<open>
  \<open>pad s\<close> is the array that holds the bytes \<open>s\<close> and zeros behind them; \<open>ll_put\<close> is
  a parser that has collected \<open>s\<close>.  A well-formed parser is always of this shape, and
  has collected nothing outside a result.
\<close>

definition pad :: "string \<Rightarrow> char list" where
  "pad s = s @ replicate (LLPARSE_BUF_SIZE - length s) NUL"

definition ll_put :: "llparse_state \<Rightarrow> string \<Rightarrow> llparser \<Rightarrow> llparser" where
  "ll_put st s llp = llp\<lparr>ll_state := st, ll_cur := length s, ll_buf := pad s\<rparr>"

definition ll_content :: "llparser \<Rightarrow> string" where
  "ll_content llp = take (ll_cur llp) (ll_buf llp)"

definition llp_wf :: "llparser \<Rightarrow> bool" where
  "llp_wf llp \<longleftrightarrow>
     ll_len llp = LLPARSE_BUF_SIZE \<and> ll_cur llp \<le> ll_len llp \<and>
     ll_buf llp = pad (ll_content llp) \<and>
     (ll_state llp \<notin> {LLPARSE_STATE_RESULT, LLPARSE_STATE_RESULT_CR, LLPARSE_STATE_RESULT_LF}
        \<longrightarrow> ll_cur llp = 0)"

lemma length_pad [simp]: "length s \<le> LLPARSE_BUF_SIZE \<Longrightarrow> length (pad s) = LLPARSE_BUF_SIZE"
  by (simp add: pad_def)

lemma take_pad [simp]: "take (length s) (pad s) = s"
  by (simp add: pad_def)

lemma pad_snoc:
  "length s < LLPARSE_BUF_SIZE \<Longrightarrow> (pad s)[length s := b] = pad (s @ [b])"
  unfolding pad_def by (subst list_update_append_replicate) auto

lemma ll_put_sel [simp]:
  "ll_state (ll_put st s llp) = st" "ll_cur (ll_put st s llp) = length s"
  "ll_buf (ll_put st s llp) = pad s" "ll_len (ll_put st s llp) = ll_len llp"
  "ll_flags (ll_put st s llp) = ll_flags llp" "ll_content (ll_put st s llp) = s"
  by (simp_all add: ll_put_def ll_content_def)

lemma ll_put_state [simp]: "(ll_put st s llp)\<lparr>ll_state := st'\<rparr> = ll_put st' s llp"
  by (simp add: ll_put_def)

lemma ll_put_flags [simp]:
  "(ll_put st s llp)\<lparr>ll_flags := fl\<rparr> = ll_put st s (llp\<lparr>ll_flags := fl\<rparr>)"
  by (simp add: ll_put_def)

lemma llparser_flags_ex [simp]: "\<exists>fl. llp = llp\<lparr>ll_flags := fl\<rparr>"
  by (rule exI [of _ "ll_flags llp"]) simp

lemma ll_put_ll_put [simp]: "ll_put st s (ll_put st' s' llp) = ll_put st s llp"
  by (simp add: ll_put_def)

lemma ll_put_self:
  "ll_state llp = st \<Longrightarrow> ll_cur llp = length s \<Longrightarrow> ll_buf llp = pad s \<Longrightarrow> ll_put st s llp = llp"
  by (simp add: ll_put_def)

lemma llp_wf_ll_put:
  "llp_wf llp \<Longrightarrow> ll_put (ll_state llp) (ll_content llp) llp = llp"
  by (rule ll_put_self) (auto simp: llp_wf_def ll_content_def pad_def)

lemma llp_wf_len: "llp_wf llp \<Longrightarrow> ll_len llp = LLPARSE_BUF_SIZE"
  by (simp add: llp_wf_def)

lemma llp_wf_length_content: "llp_wf llp \<Longrightarrow> length (ll_content llp) = ll_cur llp"
proof -
  assume wf: "llp_wf llp"
  then have "ll_put (ll_state llp) (ll_content llp) llp = llp" by (rule llp_wf_ll_put)
  then show ?thesis by (metis ll_put_sel(2))
qed

lemma llp_wf_putI:
  "ll_len llp = LLPARSE_BUF_SIZE \<Longrightarrow> length s \<le> LLPARSE_BUF_SIZE \<Longrightarrow>
   st \<in> {LLPARSE_STATE_RESULT, LLPARSE_STATE_RESULT_CR, LLPARSE_STATE_RESULT_LF} \<or> s = [] \<Longrightarrow>
   llp_wf (ll_put st s llp)"
  by (auto simp: llp_wf_def)

lemma llparse_append_put [simp]:
  "ll_len llp = LLPARSE_BUF_SIZE \<Longrightarrow>
   llparse_append (ll_put st s llp) b =
     (if length s < LLPARSE_BUF_SIZE then (0, ll_put st (s @ [b]) llp)
      else (- EFBIG, ll_put st s llp))"
  by (simp add: llparse_append_def) (simp add: ll_put_def pad_snoc)

lemma llparse_endline_put [simp]:
  assumes "length s \<le> LLPARSE_BUF_SIZE"
  shows "llparse_endline (ll_put st s llp) = ll_put LLPARSE_STATE_IDLE [] llp"
  using assms by (simp add: llparse_endline_def ll_put_def) (simp add: pad_def)

text \<open>Every byte keeps the parser well-formed, whatever the modem sends.\<close>

lemma llparse_byte_put_wf:
  assumes "ll_len llp = LLPARSE_BUF_SIZE" and "length s \<le> LLPARSE_BUF_SIZE"
    and "st \<in> {LLPARSE_STATE_RESULT, LLPARSE_STATE_RESULT_CR, LLPARSE_STATE_RESULT_LF} \<or> s = []"
  shows "llp_wf (snd (llparse_byte (ll_put st s llp) b))"
  using assms
  by (cases st) (auto simp: llparse_byte_def LLPARSE_BUF_SIZE_def intro!: llp_wf_putI)

lemma llparse_byte_wf:
  assumes "llp_wf llp"
  shows "llp_wf (snd (llparse_byte llp b))"
proof -
  have "llp_wf (snd (llparse_byte (ll_put (ll_state llp) (ll_content llp) llp) b))"
    using assms
    by (intro llparse_byte_put_wf)
      (use assms llp_wf_length_content [OF assms] in \<open>auto simp: llp_wf_def\<close>)
  then show ?thesis by (simp add: llp_wf_ll_put [OF assms])
qed

lemma llparse_byte_flags [simp]: "ll_flags (snd (llparse_byte llp b)) = ll_flags llp"
  by (auto simp: llparse_byte_def llparse_append_def llparse_endline_def Let_def
      split: llparse_state.splits)

text \<open>A byte is refused only when the buffer is full.\<close>

lemma llparse_byte_error:
  assumes "llp_wf llp" and "fst (llparse_byte llp b) < 0"
  shows "fst (llparse_byte llp b) = - EFBIG \<and> ll_cur llp = LLPARSE_BUF_SIZE"
  using assms
  by (auto simp: llparse_byte_def llparse_append_def llp_wf_def Let_def LLPARSE_BUF_SIZE_def
      split: llparse_state.splits if_splits)


section \<open>Framing\<close>

text \<open>
  The TA answers in the V1 format: every line is sent as \<open>CR LF line CR LF\<close>.  A line
  is transparent when it has no CR or LF, fits the buffer and is not mistaken for the
  \<open>"> "\<close> prompt.
\<close>

definition v1_frame :: "string \<Rightarrow> char list" where
  "v1_frame l = [CR, LF] @ l @ [CR, LF]"

definition line_ok :: "string \<Rightarrow> bool" where
  "line_ok l \<longleftrightarrow> length l \<le> LLPARSE_BUF_SIZE \<and> CR \<notin> set l \<and> LF \<notin> set l \<and>
     (l \<noteq> [] \<and> hd l = CHR ''>'' \<longrightarrow> tl l \<noteq> [] \<and> hd (tl l) \<noteq> CHR '' '')"

text \<open>
  What a client of the line parser promises: its line callback leaves the parser alone
  but for the flags, where it keeps the V1 bit (the Broadcom plugin sets
  \<open>LGSM_ATCMD_F_LFCR\<close> from inside a callback).
\<close>

locale line_sink =
  fixes cb :: "'c ll_cb" and prompt_cb :: "'c ll_prompt_cb"
  assumes cb_keeps_parser: "cb b n (llp, c) = Some (llp', c') \<Longrightarrow>
      \<exists>fl. llp' = llp\<lparr>ll_flags := fl\<rparr>"
    and cb_keeps_extended: "cb b n (llp, c) = Some (llp', c') \<Longrightarrow>
      flag (ll_flags llp) LGSM_ATCMD_F_EXTENDED \<Longrightarrow> flag (ll_flags llp') LGSM_ATCMD_F_EXTENDED"
    and prompt_keeps_parser: "prompt_cb (llp, c) = Some (llp', c') \<Longrightarrow> llp' = llp"
begin

definition deliver :: "string \<Rightarrow> llparser \<times> 'c \<Rightarrow> (llparser \<times> 'c) option" where
  "deliver l = (\<lambda>(llp, c). do {
     (llp', c') \<leftarrow> cb (pad l) (length l) (ll_put LLPARSE_STATE_RESULT_CR l llp, c);
     Some (ll_put LLPARSE_STATE_IDLE [] llp', c') })"

fun deliver_all :: "string list \<Rightarrow> llparser \<times> 'c \<Rightarrow> (llparser \<times> 'c) option" where
  "deliver_all [] s = Some s"
| "deliver_all (l # ls) s = Option.bind (deliver l s) (deliver_all ls)"

lemma result_run:
  assumes "ll_len llp = LLPARSE_BUF_SIZE" and "CR \<notin> set t" and "LF \<notin> set t"
    and "length (s @ t) \<le> LLPARSE_BUF_SIZE"
  shows "llparse_string cb prompt_cb (ll_put LLPARSE_STATE_RESULT s llp, c) (t @ rest) =
         llparse_string cb prompt_cb (ll_put LLPARSE_STATE_RESULT (s @ t) llp, c) rest"
  using assms
proof (induction t arbitrary: s)
  case Nil
  then show ?case by simp
next
  case (Cons b t)
  then have "llparse_byte (ll_put LLPARSE_STATE_RESULT s llp) b =
             (0, ll_put LLPARSE_STATE_RESULT (s @ [b]) llp)"
    by (auto simp: llparse_byte_def)
  with Cons.IH [of "s @ [b]"] Cons.prems show ?case by simp
qed

lemma opening_run:
  assumes "ll_len llp = LLPARSE_BUF_SIZE" and "flag (ll_flags llp) LGSM_ATCMD_F_EXTENDED"
  shows "llparse_string cb prompt_cb (ll_put LLPARSE_STATE_IDLE [] llp, c) ([CR, LF] @ rest) =
         llparse_string cb prompt_cb (ll_put LLPARSE_STATE_IDLE_LF [] llp, c) rest"
  using assms by (simp add: llparse_byte_def)

lemma line_run:
  assumes "ll_len llp = LLPARSE_BUF_SIZE" and "line_ok l" and "l \<noteq> []"
  shows "llparse_string cb prompt_cb (ll_put LLPARSE_STATE_IDLE_LF [] llp, c) (l @ rest) =
         llparse_string cb prompt_cb (ll_put LLPARSE_STATE_RESULT l llp, c) rest"
proof (cases "hd l = CHR ''>''")
  case True
  with assms(2,3) obtain b t where l: "l = CHR ''>'' # b # t" and b: "b \<noteq> CHR '' ''"
    by (cases l; cases "tl l") (auto simp: line_ok_def)
  then show ?thesis
    using assms(1,2) result_run [of llp t "CHR ''>'' # [b]" c rest]
    by (auto simp: line_ok_def llparse_byte_def LLPARSE_BUF_SIZE_def)
next
  case False
  with assms(3) obtain b t where l: "l = b # t" by (cases l) auto
  then show ?thesis
    using assms(1,2) False result_run [of llp t "[b]" c rest]
    by (auto simp: line_ok_def llparse_byte_def LLPARSE_BUF_SIZE_def)
qed

lemma closing_run:
  assumes len: "ll_len llp = LLPARSE_BUF_SIZE" and l: "length l \<le> LLPARSE_BUF_SIZE"
    and st: "st = LLPARSE_STATE_RESULT \<or> st = LLPARSE_STATE_IDLE_LF"
  shows "llparse_string cb prompt_cb (ll_put st l llp, c) ([CR, LF] @ rest) =
         Option.bind (deliver l (llp, c)) (\<lambda>s. llparse_string cb prompt_cb s rest)"
proof -
  have byte: "llparse_byte (ll_put st l llp) CR = (0, ll_put LLPARSE_STATE_RESULT_CR l llp)"
    using st by (auto simp: llparse_byte_def)
  show ?thesis
  proof (cases "cb (pad l) (length l) (ll_put LLPARSE_STATE_RESULT_CR l llp, c)")
    case None
    with byte show ?thesis by (simp add: deliver_def)
  next
    case (Some r)
    then obtain llp' c' where r: "r = (llp', c')"
      and cb: "cb (pad l) (length l) (ll_put LLPARSE_STATE_RESULT_CR l llp, c) = Some (llp', c')"
      by (cases r) auto
    from cb_keeps_parser [OF cb] obtain fl
      where eq: "llp' = ll_put LLPARSE_STATE_RESULT_CR l (llp\<lparr>ll_flags := fl\<rparr>)"
      by auto
    have lf: "llparse_byte llp' LF = (0, ll_put LLPARSE_STATE_IDLE [] llp')"
      using l by (simp add: eq llparse_byte_def)
    have st': "ll_state llp' = LLPARSE_STATE_RESULT_CR" by (simp add: eq)
    show ?thesis
      using byte cb r lf st' by (simp add: deliver_def)
  qed
qed


lemma deliver_keeps:
  assumes "deliver l (llp, c) = Some (llp', c')"
  shows "\<exists>fl. llp' = ll_put LLPARSE_STATE_IDLE [] (llp\<lparr>ll_flags := fl\<rparr>)"
    and "flag (ll_flags llp) LGSM_ATCMD_F_EXTENDED \<Longrightarrow> flag (ll_flags llp') LGSM_ATCMD_F_EXTENDED"
proof -
  from assms obtain q where
    cb: "cb (pad l) (length l) (ll_put LLPARSE_STATE_RESULT_CR l llp, c) = Some (q, c')"
    and llp': "llp' = ll_put LLPARSE_STATE_IDLE [] q"
    by (auto simp: deliver_def option_bind_Some_iff)
  from cb_keeps_parser [OF cb] llp'
  show "\<exists>fl. llp' = ll_put LLPARSE_STATE_IDLE [] (llp\<lparr>ll_flags := fl\<rparr>)"
    by auto
  show "flag (ll_flags llp') LGSM_ATCMD_F_EXTENDED" if "flag (ll_flags llp) LGSM_ATCMD_F_EXTENDED"
    using cb_keeps_extended [OF cb] llp' that by simp
qed

text \<open>One framed line is one call of the line callback.\<close>

lemma frame_run:
  assumes "ll_len llp = LLPARSE_BUF_SIZE" and "flag (ll_flags llp) LGSM_ATCMD_F_EXTENDED"
    and "line_ok l"
  shows "llparse_string cb prompt_cb (ll_put LLPARSE_STATE_IDLE [] llp, c) (v1_frame l @ rest) =
         Option.bind (deliver l (llp, c)) (\<lambda>s. llparse_string cb prompt_cb s rest)"
proof (cases "l = []")
  case True
  with assms opening_run closing_run [of llp "[]" LLPARSE_STATE_IDLE_LF c rest]
  show ?thesis by (simp add: v1_frame_def)
next
  case False
  with assms opening_run line_run [of llp l c "[CR, LF] @ rest"]
    closing_run [of llp l LLPARSE_STATE_RESULT c rest]
  show ?thesis by (simp add: v1_frame_def line_ok_def)
qed

text \<open>
  A whole conversation of framed lines is the sequence of its lines, delivered in order,
  one callback each, and leaves the parser idle.
\<close>

lemma frames_run:
  assumes "ll_len llp = LLPARSE_BUF_SIZE" and "flag (ll_flags llp) LGSM_ATCMD_F_EXTENDED"
    and "\<forall>l \<in> set ls. line_ok l"
  shows "llparse_string cb prompt_cb (ll_put LLPARSE_STATE_IDLE [] llp, c)
           (concat (map v1_frame ls)) =
         map_option (\<lambda>s. (0, s)) (deliver_all ls (ll_put LLPARSE_STATE_IDLE [] llp, c))"
  using assms
proof (induction ls arbitrary: llp c)
  case Nil
  then show ?case by simp
next
  case (Cons l ls)
  let ?i = "ll_put LLPARSE_STATE_IDLE [] llp"
  have d: "deliver l (llp, c) = deliver l (?i, c)" by (simp add: deliver_def)
  show ?case
  proof (cases "deliver l (llp, c)")
    case None
    with Cons.prems d frame_run [of llp l c "concat (map v1_frame ls)"] show ?thesis by simp
  next
    case (Some r)
    then obtain llp' c' where r: "r = (llp', c')" and dl: "deliver l (llp, c) = Some (llp', c')"
      by (cases r) auto
    from deliver_keeps [OF dl] obtain fl
      where p: "llp' = ll_put LLPARSE_STATE_IDLE [] (llp\<lparr>ll_flags := fl\<rparr>)"
      and x: "flag (ll_flags llp') LGSM_ATCMD_F_EXTENDED"
      using Cons.prems(2) by blast
    have id: "ll_put LLPARSE_STATE_IDLE [] llp' = llp'" by (simp add: p)
    have len: "ll_len llp' = LLPARSE_BUF_SIZE" using Cons.prems(1) by (simp add: p)
    from Cons.IH [OF len x] Cons.prems(3) id
    have "llparse_string cb prompt_cb (llp', c') (concat (map v1_frame ls)) =
          map_option (\<lambda>s. (0, s)) (deliver_all ls (llp', c'))" by simp
    moreover have "deliver l (?i, c) = Some (llp', c')" using d dl by simp
    ultimately show ?thesis
      using Cons.prems frame_run [of llp l c "concat (map v1_frame ls)"] dl by simp
  qed
qed


text \<open>
  Memory safety of the receive path: whatever bytes arrive, in whatever chunks, the
  cursor stays inside the buffer and the only error is a full buffer.
\<close>

lemma string_wf:
  assumes "llp_wf llp" and "llparse_string cb prompt_cb (llp, c) bs = Some (rc, llp', c')"
  shows "llp_wf llp' \<and> (rc = 0 \<or> rc = - EFBIG)"
  using assms
proof (induction bs arbitrary: llp c)
  case Nil
  then show ?case by simp
next
  case (Cons b bs)
  obtain r llp1 where byte: "llparse_byte llp b = (r, llp1)" by fastforce
  have wf1: "llp_wf llp1" using llparse_byte_wf [OF Cons.prems(1), of b] byte by simp
  show ?case
  proof (cases "r < 0")
    case True
    with Cons.prems byte wf1 llparse_byte_error [OF Cons.prems(1), of b] show ?thesis by auto
  next
    case False
    with Cons.prems(2) byte obtain llp2 c2 llp3 c3 where
      s2: "(if ll_state llp1 = LLPARSE_STATE_RESULT_CR
            then cb (ll_buf llp1) (ll_cur llp1) (llp1, c) else Some (llp1, c)) = Some (llp2, c2)"
      and s3: "(if ll_state llp2 = LLPARSE_STATE_PROMPT_SPC
            then prompt_cb (llp2, c2) else Some (llp2, c2)) = Some (llp3, c3)"
      and rest: "llparse_string cb prompt_cb (llp3, c3) bs = Some (rc, llp', c')"
      by (auto simp: option_bind_Some_iff)
    have "\<exists>fl. llp2 = llp1\<lparr>ll_flags := fl\<rparr>"
    proof (cases "ll_state llp1 = LLPARSE_STATE_RESULT_CR")
      case True
      with s2 have "cb (ll_buf llp1) (ll_cur llp1) (llp1, c) = Some (llp2, c2)" by simp
      then show ?thesis by (rule cb_keeps_parser)
    next
      case False
      with s2 have "llp2 = llp1" by simp
      then show ?thesis by simp
    qed
    then have "llp_wf llp2" using wf1 by (auto simp: llp_wf_def ll_content_def)
    moreover have "llp3 = llp2"
      using s3 prompt_keeps_parser by (auto split: if_splits)
    ultimately show ?thesis using Cons.IH rest by blast
  qed
qed

text \<open>A result that ends in CR CR LF is delivered twice.\<close>

lemma double_cr_run:
  assumes len: "ll_len llp = LLPARSE_BUF_SIZE" and l: "length l \<le> LLPARSE_BUF_SIZE"
  shows "llparse_string cb prompt_cb (ll_put LLPARSE_STATE_RESULT l llp, c) ([CR, CR, LF] @ rest) =
         Option.bind (deliver l (llp, c)) (\<lambda>(llp', c').
           Option.bind (deliver l (llp', c')) (\<lambda>s. llparse_string cb prompt_cb s rest))"
proof (cases "cb (pad l) (length l) (ll_put LLPARSE_STATE_RESULT_CR l llp, c)")
  case None
  then show ?thesis by (simp add: deliver_def llparse_byte_def)
next
  case (Some r)
  then obtain llp' c' where r: "r = (llp', c')"
    and cb: "cb (pad l) (length l) (ll_put LLPARSE_STATE_RESULT_CR l llp, c) = Some (llp', c')"
    by (cases r) auto
  from cb_keeps_parser [OF cb] obtain fl
    where eq: "llp' = ll_put LLPARSE_STATE_RESULT_CR l (llp\<lparr>ll_flags := fl\<rparr>)" by auto
  have "llparse_string cb prompt_cb (llp', c') ([CR, LF] @ rest) =
        Option.bind (deliver l (llp', c')) (\<lambda>s. llparse_string cb prompt_cb s rest)"
  proof -
    have "llparse_string cb prompt_cb (llp', c') ([CR, LF] @ rest) =
          llparse_string cb prompt_cb (ll_put LLPARSE_STATE_RESULT l llp', c') ([CR, LF] @ rest)"
      by (simp add: eq llparse_byte_def)
    also have "\<dots> = Option.bind (deliver l (llp', c')) (\<lambda>s. llparse_string cb prompt_cb s rest)"
      by (rule closing_run) (use len l in \<open>auto simp: eq\<close>)
    finally show ?thesis .
  qed
  moreover have "deliver l (ll_put LLPARSE_STATE_IDLE [] llp', c') = deliver l (llp', c')"
    by (simp add: deliver_def)
  ultimately show ?thesis
    using cb r by (simp add: deliver_def [of l] llparse_byte_def) (simp add: eq)
qed

end

section \<open>Chunks, errors, and the parser gsmd starts with\<close>

text \<open>
  The bytes of one transmission may arrive split over any number of reads: feeding the
  pieces one after the other is feeding the whole.
\<close>

lemma llparse_string_append:
  "llparse_string cb prompt_cb s (xs @ ys) =
     Option.bind (llparse_string cb prompt_cb s xs)
       (\<lambda>(rc, s'). if rc < 0 then Some (rc, s') else llparse_string cb prompt_cb s' ys)"
proof (induction cb prompt_cb s xs rule: llparse_string.induct)
  case (1 cb prompt_cb llp c)
  then show ?case by simp
next
  case (2 cb prompt_cb llp c b bs)
  obtain r llp1 where byte: "llparse_byte llp b = (r, llp1)" by fastforce
  show ?case
  proof (cases "r < 0")
    case True
    with byte show ?thesis by simp
  next
    case False
    with 2 [OF byte [symmetric]] byte show ?thesis
      by (auto simp: Option.bind_assoc split: prod.splits intro!: Option.bind_cong)
  qed
qed

text \<open>The parser \<open>atcmd_init\<close> sets up in the zero-initialised \<open>struct gsmd\<close>.\<close>

definition llparser_new :: llparser where
  "llparser_new = snd (llparse_init
     \<lparr>ll_state = LLPARSE_STATE_IDLE, ll_len = LLPARSE_BUF_SIZE, ll_flags = LGSM_ATCMD_F_EXTENDED,
      ll_cur = 0, ll_buf = replicate LLPARSE_BUF_SIZE NUL\<rparr>)"

lemma llparser_new_put: "llparser_new = ll_put LLPARSE_STATE_IDLE [] llparser_new"
  by (simp add: llparser_new_def llparse_init_def ll_put_def pad_def)

lemma llparser_new_wf: "llp_wf llparser_new"
  by (subst llparser_new_put, rule llp_wf_putI) (simp_all add: llparser_new_def llparse_init_def)

lemma llparser_new_sel [simp]:
  "ll_len llparser_new = LLPARSE_BUF_SIZE" "ll_state llparser_new = LLPARSE_STATE_IDLE"
  "flag (ll_flags llparser_new) LGSM_ATCMD_F_EXTENDED"
  by (simp_all add: llparser_new_def llparse_init_def flag_def LGSM_ATCMD_F_EXTENDED_def)

text \<open>A client that records the lines it gets: the observable behaviour of the parser.\<close>

definition collect_cb :: "string list ll_cb" where
  "collect_cb b n = (\<lambda>(llp, ls). Some (llp, ls @ [take n b]))"

definition collect_prompt :: "string list ll_prompt_cb" where
  "collect_prompt s = Some s"

interpretation collect: line_sink collect_cb collect_prompt
  by unfold_locales (auto simp: collect_cb_def collect_prompt_def)

lemma collect_deliver_all:
  "collect.deliver_all ls (ll_put LLPARSE_STATE_IDLE [] llp, acc) =
     Some (ll_put LLPARSE_STATE_IDLE [] llp, acc @ ls)"
  by (induction ls arbitrary: acc) (simp_all add: collect.deliver_def collect_cb_def)

lemma error_absorbs:
  "ll_state llp = LLPARSE_STATE_ERROR \<Longrightarrow>
   llparse_string cb prompt_cb (llp, c) bs = Some (0, llp, c)"
  by (induction bs) (simp_all add: llparse_byte_def)


lemma collect_total: "\<exists>rc llp' ls'. llparse_string collect_cb collect_prompt (llp, ls) bs = Some (rc, llp', ls')"
proof (induction bs arbitrary: llp ls)
  case Nil
  then show ?case by simp
next
  case (Cons b bs)
  then show ?case
    by (cases "llparse_byte llp b") (auto simp: collect_cb_def collect_prompt_def)
qed

lemma overlong_run:
  assumes "ll_len llp = LLPARSE_BUF_SIZE" and "CR \<notin> set t" and "LF \<notin> set t"
    and "length s \<le> LLPARSE_BUF_SIZE" and "LLPARSE_BUF_SIZE < length (s @ t)"
  shows "llparse_string cb prompt_cb (ll_put LLPARSE_STATE_RESULT s llp, c) (t @ rest) =
         Some (- EFBIG, ll_put LLPARSE_STATE_RESULT (take LLPARSE_BUF_SIZE (s @ t)) llp, c)"
  using assms
proof (induction t arbitrary: s)
  case Nil
  then show ?case by simp
next
  case (Cons b t)
  show ?case
  proof (cases "length s = LLPARSE_BUF_SIZE")
    case True
    with Cons.prems show ?thesis by (auto simp: llparse_byte_def)
  next
    case False
    with Cons.prems have "length s < LLPARSE_BUF_SIZE" by simp
    with Cons.prems have "llparse_byte (ll_put LLPARSE_STATE_RESULT s llp) b =
             (0, ll_put LLPARSE_STATE_RESULT (s @ [b]) llp)"
      by (auto simp: llparse_byte_def)
    with Cons.IH [of "s @ [b]"] Cons.prems \<open>length s < LLPARSE_BUF_SIZE\<close> show ?thesis by simp
  qed
qed

section \<open>Properties\<close>

text \<open>C8.
  Framing round trip.  Every list of transparent lines, sent by the TA in the V1 format
  (CR LF line CR LF each), is delivered to the line callback as exactly those lines, in
  order, once each, without an error, and leaves the parser as \<open>atcmd_init\<close> set it up.
\<close>

theorem llparse_frames_roundtrip:
  assumes "\<forall>l \<in> set ls. line_ok l"
  shows "llparse_string collect_cb collect_prompt (llparser_new, []) (concat (map v1_frame ls)) =
         Some (0, llparser_new, ls)"
  using collect.frames_run [of llparser_new ls "[]"] assms
    collect_deliver_all [of ls llparser_new "[]"]
  by (simp add: llparser_new_put [symmetric])

lemma llparse_frames_roundtrip_witness:
  "line_ok ''+CSQ: 21,99'' \<and> line_ok ''OK'' \<and>
   llparse_string collect_cb collect_prompt (llparser_new, [])
     (concat (map v1_frame [''+CSQ: 21,99'', ''OK''])) =
     Some (0, llparser_new, [''+CSQ: 21,99'', ''OK''])"
proof -
  have ok: "line_ok ''+CSQ: 21,99''" "line_ok ''OK''"
    by (simp_all add: line_ok_def LLPARSE_BUF_SIZE_def)
  then show ?thesis using llparse_frames_roundtrip [of "[''+CSQ: 21,99'', ''OK'']"] by simp
qed

text \<open>C34.
  Memory safety of the receive path.  For every sequence of bytes the modem can send, the
  parser never writes outside its 1024-byte buffer: the cursor stays within it, the bytes
  behind the cursor are zero, and the only error ever returned is \<open>-EFBIG\<close>.
\<close>

theorem llparse_memory_safe:
  "\<exists>rc llp' ls. llparse_string collect_cb collect_prompt (llparser_new, []) bs = Some (rc, llp', ls) \<and>
     length (ll_buf llp') = 1024 \<and> ll_cur llp' \<le> 1024 \<and>
     drop (ll_cur llp') (ll_buf llp') = replicate (1024 - ll_cur llp') NUL \<and>
     (rc = 0 \<or> rc = - EFBIG)"
proof -
  obtain rc llp' ls where
    run: "llparse_string collect_cb collect_prompt (llparser_new, []) bs = Some (rc, llp', ls)"
    using collect_total by blast
  from collect.string_wf [OF llparser_new_wf run] have wf: "llp_wf llp'"
    and rc: "rc = 0 \<or> rc = - EFBIG" by auto
  let ?s = "ll_content llp'"
  have buf: "ll_buf llp' = pad ?s" and cur: "ll_cur llp' = length ?s"
    using wf llp_wf_length_content [OF wf] by (simp_all add: llp_wf_def)
  have "length ?s \<le> LLPARSE_BUF_SIZE" using wf cur by (simp add: llp_wf_def)
  then have "length (ll_buf llp') = 1024" "ll_cur llp' \<le> 1024"
    "drop (ll_cur llp') (ll_buf llp') = replicate (1024 - ll_cur llp') NUL"
    by (simp_all add: buf cur pad_def LLPARSE_BUF_SIZE_def)
  with run rc show ?thesis by blast
qed

text \<open>
  Reads do not matter.  \<open>atcmd_select_cb\<close> passes whatever one \<open>read\<close> returned to
  \<open>llparse_string\<close>; for every client and every split of the byte stream into two reads,
  parsing the pieces in turn (stopping at an error) is parsing the whole stream.
\<close>

lemma llparse_string_chunks:
  "llparse_string cb prompt_cb s (xs @ ys) =
     (case llparse_string cb prompt_cb s xs of
        None \<Rightarrow> None
      | Some (rc, s') \<Rightarrow> if rc < 0 then Some (rc, s') else llparse_string cb prompt_cb s' ys)"
  by (simp add: llparse_string_append split: option.split)

text \<open>
  A line longer than the buffer is refused with \<open>-EFBIG\<close> and not delivered; the parser
  keeps its first 1024 bytes.
\<close>

lemma llparse_overlong_line:
  assumes "CR \<notin> set l" and "LF \<notin> set l" and "hd l \<noteq> CHR ''>''" and "1024 < length l"
  shows "llparse_string collect_cb collect_prompt (llparser_new, []) (v1_frame l) =
         Some (- EFBIG, ll_put LLPARSE_STATE_RESULT (take 1024 l) llparser_new, [])"
proof -
  from assms(4) obtain b t where l: "l = b # t" by (cases l) auto
  have "llparse_string collect_cb collect_prompt (llparser_new, []) (v1_frame l) =
        llparse_string collect_cb collect_prompt (ll_put LLPARSE_STATE_IDLE_LF [] llparser_new, [])
          (l @ [CR, LF])"
    using collect.opening_run [of llparser_new "[]" "l @ [CR, LF]"]
    unfolding llparser_new_put [symmetric] v1_frame_def by simp
  also have "\<dots> =
        llparse_string collect_cb collect_prompt (ll_put LLPARSE_STATE_RESULT [b] llparser_new, [])
          (t @ [CR, LF])"
    using assms by (auto simp: l llparse_byte_def LLPARSE_BUF_SIZE_def)
  also have "\<dots> = Some (- EFBIG, ll_put LLPARSE_STATE_RESULT (take 1024 l) llparser_new, [])"
    using assms overlong_run [of llparser_new t "[b]" collect_cb collect_prompt "[]" "[CR, LF]"]
    by (simp add: l LLPARSE_BUF_SIZE_def)
  finally show ?thesis .
qed

lemma llparse_overlong_line_witness:
  "llparse_string collect_cb collect_prompt (llparser_new, []) (v1_frame (replicate 1025 CHR ''x'')) =
     Some (- EFBIG, ll_put LLPARSE_STATE_RESULT (take 1024 (replicate 1025 CHR ''x'')) llparser_new, [])"
  by (rule llparse_overlong_line) simp_all

text \<open>
  The error state has no exit.  After a CR that is followed by neither CR nor LF, the
  parser swallows everything the modem sends from then on: no line is delivered and no
  error is reported, whatever follows.
\<close>

lemma llparse_error_is_final:
  assumes "b \<noteq> CR" and "b \<noteq> LF"
  shows "\<exists>llp'. ll_state llp' = LLPARSE_STATE_ERROR \<and>
     llparse_string collect_cb collect_prompt (llparser_new, []) (CR # b # bs) = Some (0, llp', [])"
  using assms
  by (intro exI [of _ "llparser_new\<lparr>ll_state := LLPARSE_STATE_ERROR\<rparr>"])
    (simp add: llparse_byte_def error_absorbs)

lemma llparse_error_is_final_witness:
  "\<exists>llp'. ll_state llp' = LLPARSE_STATE_ERROR \<and>
     llparse_string collect_cb collect_prompt (llparser_new, [])
       (CR # CHR ''A'' # concat (map v1_frame [''OK''])) = Some (0, llp', [])"
  by (rule llparse_error_is_final) simp_all

text \<open>
  A result terminated by CR CR LF, as some TAs send it, is handed to the client twice.
\<close>

lemma llparse_double_cr_duplicates:
  assumes "line_ok l" and "l \<noteq> []"
  shows "llparse_string collect_cb collect_prompt (llparser_new, []) ([CR, LF] @ l @ [CR, CR, LF]) =
         Some (0, llparser_new, [l, l])"
proof -
  have "llparse_string collect_cb collect_prompt (llparser_new, []) ([CR, LF] @ l @ [CR, CR, LF]) =
        llparse_string collect_cb collect_prompt (ll_put LLPARSE_STATE_RESULT l llparser_new, [])
          ([CR, CR, LF] @ [])"
    using assms collect.opening_run [of llparser_new "[]" "l @ [CR, CR, LF]"]
      collect.line_run [of llparser_new l "[]" "[CR, CR, LF]"]
    by (simp add: llparser_new_put [symmetric])
  also have "\<dots> = Some (0, llparser_new, [l, l])"
    using assms
    by (subst collect.double_cr_run)
      (simp_all add: line_ok_def collect.deliver_def collect_cb_def llparser_new_put [symmetric])
  finally show ?thesis .
qed

lemma llparse_double_cr_duplicates_witness:
  "llparse_string collect_cb collect_prompt (llparser_new, []) ([CR, LF] @ ''RING'' @ [CR, CR, LF]) =
     Some (0, llparser_new, [''RING'', ''RING''])"
  by (rule llparse_double_cr_duplicates) (simp_all add: line_ok_def LLPARSE_BUF_SIZE_def)

end
