(* ===== verification/CLib.thy ===== *)
theory CLib
  imports Prelude
begin

text \<open>
  The parts of the C library the modelled sources call, on the string model of
  \<open>Prelude\<close>: character classes, \<open>strchr\<close>, \<open>strncmp\<close>, the \<open>strtol\<close> family and
  \<open>atoi\<close>, and the conversions of \<open>sprintf\<close> for integers and bytes.  The target is
  ILP32 (the ARM of the phone), so \<open>long\<close> has 32 bits and \<open>strtol\<close> saturates there.
\<close>

section \<open>Characters\<close>

definition ord_c :: "char \<Rightarrow> nat" where
  "ord_c c = of_char c"

definition isspace :: "char \<Rightarrow> bool" where
  "isspace c \<longleftrightarrow> ord_c c = 32 \<or> 9 \<le> ord_c c \<and> ord_c c \<le> 13"

definition isblank :: "char \<Rightarrow> bool" where
  "isblank c \<longleftrightarrow> ord_c c = 32 \<or> ord_c c = 9"

definition isdigit :: "char \<Rightarrow> bool" where
  "isdigit c \<longleftrightarrow> 48 \<le> ord_c c \<and> ord_c c \<le> 57"

text \<open>The value of a digit in bases up to 16.\<close>

definition hexval :: "char \<Rightarrow> nat option" where
  "hexval c =
     (if 48 \<le> ord_c c \<and> ord_c c \<le> 57 then Some (ord_c c - 48)
      else if 97 \<le> ord_c c \<and> ord_c c \<le> 102 then Some (ord_c c - 87)
      else if 65 \<le> ord_c c \<and> ord_c c \<le> 70 then Some (ord_c c - 55)
      else None)"

definition is_digit_in :: "nat \<Rightarrow> char \<Rightarrow> bool" where
  "is_digit_in base c \<longleftrightarrow> (case hexval c of None \<Rightarrow> False | Some d \<Rightarrow> d < base)"

section \<open>Searching and comparing\<close>

text \<open>\<open>strchr\<close> as an offset; the terminator counts as a character of the string.\<close>

fun strchr :: "string \<Rightarrow> char \<Rightarrow> nat option" where
  "strchr [] c = (if c = NUL then Some 0 else None)"
| "strchr (x # xs) c = (if x = c then Some 0 else map_option Suc (strchr xs c))"

text \<open>\<open>!strncmp (s, t, n)\<close> on NUL-terminated strings.\<close>

definition strncmp_eq :: "string \<Rightarrow> string \<Rightarrow> nat \<Rightarrow> bool" where
  "strncmp_eq s t n \<longleftrightarrow> take n s = take n t"

text \<open>\<open>strrchr\<close>, \<open>strpbrk\<close> and \<open>strstr\<close> as offsets.\<close>

fun strrchr :: "string \<Rightarrow> char \<Rightarrow> nat option" where
  "strrchr [] c = (if c = NUL then Some 0 else None)"
| "strrchr (x # xs) c = (case strrchr xs c of Some i \<Rightarrow> Some (Suc i) | None \<Rightarrow> if x = c then Some 0 else None)"

fun strpbrk :: "string \<Rightarrow> string \<Rightarrow> nat option" where
  "strpbrk [] cs = None"
| "strpbrk (x # xs) cs = (if List.member cs x then Some 0 else map_option Suc (strpbrk xs cs))"

fun strstr :: "string \<Rightarrow> string \<Rightarrow> nat option" where
  "strstr [] t = (if t = [] then Some 0 else None)"
| "strstr (x # xs) t = (if take (length t) (x # xs) = t then Some 0 else map_option Suc (strstr xs t))"

section \<open>Reading numbers\<close>

definition digits_num :: "nat \<Rightarrow> string \<Rightarrow> nat" where
  "digits_num base ds = foldl (\<lambda>n c. n * base + the (hexval c)) 0 ds"

text \<open>
  The subject sequence of \<open>strtol\<close> and \<open>strtoul\<close>: white space, a sign, the base
  prefix, digits.  The result is the sign, the magnitude and the number of characters
  consumed; \<^const>\<open>None\<close> when there are no digits.
\<close>

definition strto :: "nat \<Rightarrow> string \<Rightarrow> (bool \<times> nat \<times> nat) option" where
  "strto base s =
     (let ws = length (takeWhile isspace s);
          s1 = drop ws s;
          neg = (c_at s1 0 = CHR ''-'');
          sg = (if neg \<or> c_at s1 0 = CHR ''+'' then 1 else 0);
          s2 = drop sg s1;
          hex = ((base = 16 \<or> base = 0) \<and> c_at s2 0 = CHR ''0'' \<and>
                 (c_at s2 1 = CHR ''x'' \<or> c_at s2 1 = CHR ''X'') \<and> is_digit_in 16 (c_at s2 2));
          base' = (if base = 0 then if hex then 16 else if c_at s2 0 = CHR ''0'' then 8 else 10
                   else base);
          px = (if hex then 2 else 0);
          ds = takeWhile (is_digit_in base') (drop px s2)
      in if ds = [] then None else Some (neg, digits_num base' ds, ws + sg + px + length ds))"

definition strtol :: "nat \<Rightarrow> string \<Rightarrow> int \<times> nat" where
  "strtol base s =
     (case strto base s of
        None \<Rightarrow> (0, 0)
      | Some (neg, m, k) \<Rightarrow>
          (if neg then max (- 2147483648) (- int m) else min 2147483647 (int m), k))"

definition strtoul :: "nat \<Rightarrow> string \<Rightarrow> int \<times> nat" where
  "strtoul base s =
     (case strto base s of
        None \<Rightarrow> (0, 0)
      | Some (neg, m, k) \<Rightarrow>
          (if 4294967295 < int m then 4294967295
           else if neg then to_u32 (- int m) else int m, k))"

definition atoi :: "string \<Rightarrow> int" where
  "atoi s = to_int32 (fst (strtol 10 s))"

section \<open>Printing numbers\<close>

definition digit_char :: "nat \<Rightarrow> char" where
  "digit_char d = char_of (48 + d)"

fun show_nat :: "nat \<Rightarrow> string" where
  "show_nat n = (if n < 10 then [digit_char n] else show_nat (n div 10) @ [digit_char (n mod 10)])"

declare show_nat.simps [simp del]

text \<open>\<open>%d\<close> and \<open>%i\<close>.\<close>

definition show_int :: "int \<Rightarrow> string" where
  "show_int i = (if i < 0 then CHR ''-'' # show_nat (nat (- i)) else show_nat (nat i))"

text \<open>\<open>%02X\<close>.\<close>

definition hex_char :: "nat \<Rightarrow> char" where
  "hex_char d = (if d < 10 then char_of (48 + d) else char_of (55 + d))"

definition show_hex2 :: "u8 \<Rightarrow> string" where
  "show_hex2 b = [hex_char (unat b div 16), hex_char (unat b mod 16)]"

section \<open>Lemmas\<close>

lemma ord_c_NUL [simp]: "ord_c NUL = 0"
  by (simp add: ord_c_def)

lemma ord_c_less: "ord_c c < 256"
  unfolding ord_c_def by (rule nat_of_char_less_256)

lemma strchr_Some: "strchr s c = Some i \<Longrightarrow> i \<le> length s \<and> c_at s i = c \<and> c \<notin> set (take i s)"
  by (induction s c arbitrary: i rule: strchr.induct) (auto split: if_splits)

lemma strchr_None: "strchr s c = None \<longleftrightarrow> c \<notin> set s \<and> c \<noteq> NUL"
  by (induction s c rule: strchr.induct) auto


lemma ord_c_char_of [simp]: "n < 256 \<Longrightarrow> ord_c (char_of n) = n"
  by (simp add: ord_c_def of_char_of)

lemma ord_c_inject: "ord_c a = ord_c b \<Longrightarrow> a = b"
  unfolding ord_c_def by (metis char_of_char)

lemma is_digit_in_10: "is_digit_in 10 c \<longleftrightarrow> isdigit c"
  by (auto simp: is_digit_in_def isdigit_def hexval_def)

lemma is_digit_in_10_fun: "is_digit_in 10 = isdigit"
  by (rule ext) (rule is_digit_in_10)

lemma isdigit_NUL [simp]: "\<not> isdigit NUL"
  by (simp add: isdigit_def)

lemma isdigit_not_isspace: "isdigit c \<Longrightarrow> \<not> isspace c"
  by (auto simp: isdigit_def isspace_def)

lemma isdigit_not_sign: "isdigit c \<Longrightarrow> c \<noteq> CHR ''-'' \<and> c \<noteq> CHR ''+''"
  by (auto simp: isdigit_def ord_c_def)

lemma isdigit_digit_char [simp]: "d < 10 \<Longrightarrow> isdigit (digit_char d)"
  by (simp add: isdigit_def digit_char_def)

lemma hexval_digit_char [simp]: "d < 10 \<Longrightarrow> hexval (digit_char d) = Some d"
  by (simp add: hexval_def digit_char_def)

lemma digits_num_Nil [simp]: "digits_num base [] = 0"
  by (simp add: digits_num_def)

lemma digits_num_snoc [simp]:
  "digits_num base (ds @ [c]) = digits_num base ds * base + the (hexval c)"
  by (simp add: digits_num_def)

lemma digits_num_bound: "\<forall>c \<in> set ds. isdigit c \<Longrightarrow> length ds \<le> n \<Longrightarrow> digits_num 10 ds < 10 ^ n"
proof (induction ds arbitrary: n rule: rev_induct)
  case (snoc d ds)
  then obtain m where n: "n = Suc m" by (cases n) auto
  have "digits_num 10 ds < 10 ^ m" using snoc n by auto
  moreover have "the (hexval d) < 10" using snoc.prems(1) by (auto simp: hexval_def isdigit_def)
  ultimately show ?case using n by simp
qed simp

lemma strto_digits:
  assumes "ds \<noteq> []" and "\<forall>c \<in> set ds. isdigit c" and "\<not> isdigit (c_at rest 0)"
  shows "strto 10 (ds @ rest) = Some (False, digits_num 10 ds, length ds)"
proof -
  from assms(1) obtain d ds' where ds: "ds = d # ds'" by (cases ds) auto
  have d: "isdigit d" using assms(2) ds by simp
  have ws: "takeWhile isspace (ds @ rest) = []" using d ds isdigit_not_isspace by simp
  have tw: "takeWhile isdigit (ds @ rest) = ds"
    using assms(2,3) by (cases rest) (auto simp: takeWhile_append)
  show ?thesis
    using ws tw d assms(1) isdigit_not_sign [OF d]
    by (simp add: strto_def Let_def is_digit_in_10_fun) (simp add: ds)
qed

lemma strtol_digits:
  assumes "ds \<noteq> []" and "\<forall>c \<in> set ds. isdigit c" and "\<not> isdigit (c_at rest 0)"
  shows "strtol 10 (ds @ rest) = (min 2147483647 (int (digits_num 10 ds)), length ds)"
  by (simp add: strtol_def strto_digits [OF assms])

lemma strtoul_digits:
  assumes "ds \<noteq> []" and "\<forall>c \<in> set ds. isdigit c" and "\<not> isdigit (c_at rest 0)"
  shows "strtoul 10 (ds @ rest) = (min 4294967295 (int (digits_num 10 ds)), length ds)"
  by (simp add: strtoul_def strto_digits [OF assms])

lemma atoi_digits:
  assumes "ds \<noteq> []" and "\<forall>c \<in> set ds. isdigit c"
  shows "atoi ds = min 2147483647 (int (digits_num 10 ds))"
  using strtol_digits [OF assms, of "[]"] by (simp add: atoi_def to_int32_id)

lemma atoi_Nil [simp]: "atoi [] = 0"
  by (simp add: atoi_def strtol_def strto_def Let_def to_int32_def)

text \<open>Printing and reading back.\<close>

lemma show_nat_nonempty [simp]: "show_nat n \<noteq> []"
  by (subst show_nat.simps) simp

lemma show_nat_isdigit: "c \<in> set (show_nat n) \<Longrightarrow> isdigit c"
proof (induction n rule: show_nat.induct)
  case (1 n)
  then show ?case by (subst (asm) show_nat.simps) (auto split: if_splits)
qed

lemma digits_num_show_nat [simp]: "digits_num 10 (show_nat n) = n"
proof (induction n rule: show_nat.induct)
  case (1 n)
  show ?case
  proof (cases "n < 10")
    case True
    then show ?thesis
      by (subst show_nat.simps) (simp add: digits_num_def)
  next
    case False
    with 1 show ?thesis by (subst show_nat.simps) simp
  qed
qed

lemma atoi_show_nat: "n \<le> 2147483647 \<Longrightarrow> atoi (show_nat n) = int n"
  by (simp add: atoi_digits show_nat_isdigit)

lemma length_show_nat: "n < 10 ^ Suc k \<Longrightarrow> length (show_nat n) \<le> Suc k"
proof (induction k arbitrary: n)
  case 0
  then show ?case by (subst show_nat.simps) simp
next
  case (Suc k)
  from Suc.prems have "n div 10 < 10 ^ Suc k" by (simp add: div_less_iff_less_mult)
  with Suc.IH show ?case by (subst show_nat.simps) simp
qed

lemma length_show_nat_32: "n \<le> 4294967295 \<Longrightarrow> length (show_nat n) \<le> 10"
  using length_show_nat [of n 9] by simp

lemma hexval_hex_char [simp]: "d < 16 \<Longrightarrow> hexval (hex_char d) = Some d"
  by (simp add: hexval_def hex_char_def)

end
