(* ===== verification/Strl.thy ===== *)
theory Strl
  imports CLib
begin

text \<open>
  The bounded string copies of \<open>src/gsmd/strl.c\<close>.  A destination is the array the
  pointer refers to; a copy that would leave the array is a fault (\<^const>\<open>None\<close>).
\<close>

definition memcpy :: "'a list \<Rightarrow> nat \<Rightarrow> 'a list \<Rightarrow> 'a list option" where
  "memcpy dest off src =
     (if off + length src \<le> length dest
      then Some (take off dest @ src @ drop (off + length src) dest) else None)"

definition strlcpy :: "char list \<Rightarrow> string \<Rightarrow> nat \<Rightarrow> (nat \<times> char list) option" where
  "strlcpy dest src sz =
     (let ret = length src in
      if sz \<noteq> 0 then
        let len = (if sz \<le> ret then sz - 1 else ret) in
        map_option (\<lambda>d. (ret, d)) (memcpy dest 0 (take len src @ [NUL]))
      else Some (ret, dest))"

definition strlcat :: "char list \<Rightarrow> string \<Rightarrow> nat \<Rightarrow> (nat \<times> char list) option" where
  "strlcat dest src count = do {
     d \<leftarrow> cstr_of_array dest;
     let dsize = length d;
     let len = length src;
     let res = dsize + len;
     if count \<le> dsize then Some (0, dest)
     else let len' = (if count - dsize \<le> len then count - dsize - 1 else len)
          in map_option (\<lambda>d. (res, d)) (memcpy dest dsize (take len' src @ [NUL])) }"

lemma length_memcpy: "memcpy dest off src = Some d \<Longrightarrow> length d = length dest"
  by (auto simp: memcpy_def split: if_splits)

lemma length_strlcpy: "strlcpy dest src sz = Some (n, d) \<Longrightarrow> length d = length dest"
  by (auto simp: strlcpy_def Let_def length_memcpy split: if_splits)

lemma cstr_append_cstring: "NUL \<notin> set s \<Longrightarrow> cstr ((s @ [NUL]) @ r) = s"
  by (simp add: cstr_append_NUL)

lemma take_length_cstr: "take (length (cstr a)) a = cstr a"
  unfolding cstr_def by (metis takeWhile_eq_take)

lemma length_cstr_le: "length (cstr a) \<le> length a"
  by (simp add: cstr_def length_takeWhile_le)

lemma NUL_notin_take: "NUL \<notin> set s \<Longrightarrow> NUL \<notin> set (take n s)"
  by (meson in_set_takeD)

lemma strlcpy_eval:
  assumes "sz \<le> length dest" and "0 < sz"
  shows "strlcpy dest src sz =
     Some (length src, take (sz - 1) src @ NUL # drop (min (length src) (sz - 1) + 1) dest)"
  using assms by (auto simp: strlcpy_def memcpy_def Let_def min_def)

lemma strlcpy_cstr:
  assumes "sz \<le> length dest" and "0 < sz" and "NUL \<notin> set src"
  shows "\<exists>d. strlcpy dest src sz = Some (length src, d) \<and> length d = length dest \<and>
             cstr_of_array d = Some (take (sz - 1) src)"
proof -
  let ?d = "take (sz - 1) src @ NUL # drop (min (length src) (sz - 1) + 1) dest"
  have "cstr ?d = take (sz - 1) src"
    by (rule cstr_append_NUL) (rule NUL_notin_take [OF assms(3)])
  moreover have "length ?d = length dest" using assms(1,2) by (auto simp: min_def)
  ultimately show ?thesis using strlcpy_eval [OF assms(1,2)] by (simp add: cstr_of_array_def)
qed

section \<open>Properties\<close>

text \<open>
  \<open>strlcpy\<close> keeps its contract for every source string and every destination of at
  least \<open>sz > 0\<close> bytes: no byte outside the first \<open>sz\<close> is written, the result is a
  terminated string, the longest prefix of the source that fits, and the returned value
  is the length of the source, so a caller detects truncation by comparing it with
  \<open>sz\<close>.
\<close>

lemma strlcpy_contract:
  assumes "sz \<le> length dest" and "0 < sz" and "NUL \<notin> set src"
  shows "\<exists>d. strlcpy dest src sz = Some (length src, d) \<and> length d = length dest \<and>
     drop sz d = drop sz dest \<and> cstr_of_array d = Some (take (sz - 1) src)"
proof -
  let ?n = "min (length src) (sz - 1)"
  let ?d = "take (sz - 1) src @ NUL # drop (?n + 1) dest"
  have "drop sz ?d = drop sz dest"
    using assms(1,2) by (auto simp: min_def drop_Cons')
  moreover obtain d where "strlcpy dest src sz = Some (length src, d)"
    "length d = length dest" "cstr_of_array d = Some (take (sz - 1) src)"
    using strlcpy_cstr [OF assms] by blast
  moreover have "d = ?d" using calculation(2) strlcpy_eval [OF assms(1,2), of src] by simp
  ultimately show ?thesis by blast
qed

lemma strlcpy_contract_witness:
  "\<exists>d. strlcpy (replicate 4 CHR ''x'') ''OpenMoko'' 4 = Some (length ''OpenMoko'', d) \<and>
     length d = length (replicate 4 CHR ''x'') \<and>
     drop 4 d = drop 4 (replicate 4 CHR ''x'') \<and> cstr_of_array d = Some (take (4 - 1) ''OpenMoko'')"
  by (rule strlcpy_contract) simp_all

text \<open>
  \<open>strlcat\<close> appends as much as fits: when the destination holds a terminated string
  shorter than \<open>count\<close>, the result is the longest prefix of the concatenation that fits
  in \<open>count\<close> bytes, terminated, and the value returned is the length it tried to create.
\<close>

lemma strlcat_contract:
  assumes "cstr_of_array dest = Some d0" and "length d0 < count" and "count \<le> length dest"
    and "NUL \<notin> set src"
  shows "\<exists>d. strlcat dest src count = Some (length d0 + length src, d) \<and>
     length d = length dest \<and> cstr_of_array d = Some (take (count - 1) (d0 @ src))"
proof -
  have d0: "d0 = cstr dest" and nul: "NUL \<in> set dest"
    using assms(1) by (auto simp: cstr_of_array_def split: if_splits)
  define k where
    "k = (if count - length d0 \<le> length src then count - length d0 - 1 else length src)"
  let ?d = "take (length d0) dest @ (take k src @ [NUL]) @ drop (length d0 + (k + 1)) dest"
  have k: "length (take k src) = k" by (auto simp: k_def)
  have fits: "length d0 + (k + 1) \<le> length dest" using assms(2,3) by (auto simp: k_def)
  have run: "strlcat dest src count = Some (length d0 + length src, ?d)"
    using assms(1,2) k fits by (simp add: strlcat_def memcpy_def Let_def k_def [symmetric])
  have "length ?d = length dest" using fits k by simp
  have "cstr ?d = d0 @ take k src"
  proof -
    have "take (length d0) dest = d0" by (simp add: d0 take_length_cstr)
    moreover have "NUL \<notin> set (d0 @ take k src)"
      using NUL_notin_take [OF assms(4)] by (simp add: d0)
    ultimately show ?thesis
      using cstr_append_cstring [of "d0 @ take k src" "drop (length d0 + (k + 1)) dest"] by simp
  qed
  moreover have "d0 @ take k src = take (count - 1) (d0 @ src)"
    using assms(2) by (auto simp: k_def)
  moreover have "NUL \<in> set ?d" by simp
  ultimately have "cstr_of_array ?d = Some (take (count - 1) (d0 @ src))"
    by (simp add: cstr_of_array_def)
  with run \<open>length ?d = length dest\<close> show ?thesis by blast
qed

lemma strlcat_contract_witness:
  "\<exists>d. strlcat (''ab'' @ replicate 4 NUL) ''cdefgh'' 6 = Some (length ''ab'' + length ''cdefgh'', d) \<and>
     length d = length (''ab'' @ replicate 4 NUL) \<and>
     cstr_of_array d = Some (take (6 - 1) (''ab'' @ ''cdefgh''))"
  by (rule strlcat_contract) (use cstr_of_array_padded [of "''ab''" 4] in simp_all)

end
