(* ===== verification/OpCache.thy ===== *)
theory OpCache
  imports Strl
begin

text \<open>
  The cache of operator names (\<open>src/gsmd/operator_cache.c\<close>): a list of entries keyed by
  mobile country and network code.  Its interface, a map from codes to names that an
  insertion updates at one key, is the locale \<open>name_store\<close>; the list of the code is
  shown to provide it.
\<close>

section \<open>Data\<close>

record opname =
  op_mcc :: u16
  op_mnc :: u8
  op_alnum_long :: "char list"

definition ALNUM_LONG_SIZE :: nat where "ALNUM_LONG_SIZE = 17"

section \<open>Operations\<close>

text \<open>The traversal deletes every entry with the same codes, then appends.\<close>

definition opname_add :: "opname list \<Rightarrow> opname \<Rightarrow> int \<times> opname list" where
  "opname_add operators op =
     (0, filter (\<lambda>cur. \<not> (op_mcc op = op_mcc cur \<and> op_mnc op = op_mnc cur)) operators @ [op])"

text \<open>
  \<open>alloc\<close> tells whether \<open>talloc\<close> succeeds and \<open>junk\<close> is what the new object's array holds.
\<close>

definition gsmd_opname_add ::
  "bool \<Rightarrow> char list \<Rightarrow> opname list \<Rightarrow> string \<Rightarrow> string \<Rightarrow> (int \<times> opname list) option" where
  "gsmd_opname_add alloc junk operators numeric_bcd_string alnum_long =
     (if length numeric_bcd_string \<noteq> 5 then Some (- EINVAL, operators)
      else if \<not> alloc then Some (- ENOMEM, operators)
      else do {
        let mcc = take 3 numeric_bcd_string;
        let mnc = take 2 (drop 3 numeric_bcd_string);
        (_, name) \<leftarrow> strlcpy junk alnum_long ALNUM_LONG_SIZE;
        Some (opname_add operators
          \<lparr>op_mcc = of_int (atoi mcc), op_mnc = of_int (atoi mnc), op_alnum_long = name\<rparr>) })"

definition gsmd_opname_init :: "opname list" where
  "gsmd_opname_init = []"

section \<open>The interface\<close>

locale name_store =
  fixes inv :: "'s \<Rightarrow> bool"
    and key :: "'v \<Rightarrow> 'k"
    and look :: "'s \<Rightarrow> 'k \<Rightarrow> 'v option"
    and put :: "'s \<Rightarrow> 'v \<Rightarrow> 's"
  assumes inv_put: "inv s \<Longrightarrow> inv (put s v)"
    and look_put: "inv s \<Longrightarrow> look (put s v) k = (if k = key v then Some v else look s k)"
begin

lemma inv_puts: "inv s \<Longrightarrow> inv (foldl put s vs)"
  by (induction vs arbitrary: s) (auto intro: inv_put)

lemma look_puts:
  "inv s \<Longrightarrow> look (foldl put s vs) k =
     (case filter (\<lambda>v. key v = k) (rev vs) of [] \<Rightarrow> look s k | v # _ \<Rightarrow> Some v)"
proof (induction vs rule: rev_induct)
  case (snoc v vs)
  then show ?case by (simp add: look_put inv_puts)
qed simp

lemma look_put_put: "inv s \<Longrightarrow> key v = key w \<Longrightarrow> look (put (put s v) w) = look (put s w)"
  by (auto simp: look_put inv_put fun_eq_iff)

end

section \<open>The list provides it\<close>

definition op_key :: "opname \<Rightarrow> u16 \<times> u8" where
  "op_key op = (op_mcc op, op_mnc op)"

definition op_inv :: "opname list \<Rightarrow> bool" where
  "op_inv ops \<longleftrightarrow> distinct (map op_key ops)"

definition op_look :: "opname list \<Rightarrow> u16 \<times> u8 \<Rightarrow> opname option" where
  "op_look ops k = find (\<lambda>op. op_key op = k) ops"

lemma opname_add_eq: "snd (opname_add ops op) = filter (\<lambda>cur. op_key cur \<noteq> op_key op) ops @ [op]"
  by (simp add: opname_add_def op_key_def) (rule filter_cong, auto)

lemma find_filter_snoc:
  "find (\<lambda>y. f y = k) (filter (\<lambda>y. f y \<noteq> f x) xs @ [x]) =
     (if k = f x then Some x else find (\<lambda>y. f y = k) xs)"
  by (induction xs) auto

interpretation ops: name_store op_inv op_key op_look "\<lambda>s v. snd (opname_add s v)"
proof
  show "op_inv (snd (opname_add s v))" if "op_inv s" for s v
    using that by (auto simp: op_inv_def opname_add_eq distinct_map_filter)
  show "op_look (snd (opname_add s v)) k = (if k = op_key v then Some v else op_look s k)" for s v k
    unfolding op_look_def opname_add_eq by (rule find_filter_snoc)
qed

section \<open>Properties\<close>

text \<open>
  C22. The operator cache refines a map from network codes to names. Adding a name for a
  five-digit code succeeds, keeps at most one entry per code, makes the entry of that code
  the name cut to the 16 characters an entry holds, and leaves every other code as it was;
  a code of another length is refused and changes nothing.
\<close>

theorem opname_cache_map:
  assumes "op_inv ops" and "length junk = ALNUM_LONG_SIZE" and "NUL \<notin> set name"
    and "length code = 5" and "\<forall>c \<in> set code. isdigit c"
    and "k = (of_nat (digits_num 10 (take 3 code)), of_nat (digits_num 10 (drop 3 code)))"
  shows "\<exists>ops' op. gsmd_opname_add True junk ops code name = Some (0, ops') \<and> op_inv ops' \<and>
    op_look ops' k = Some op \<and> cstr_of_array (op_alnum_long op) = Some (take 16 name) \<and>
    (\<forall>k'. k' \<noteq> k \<longrightarrow> op_look ops' k' = op_look ops k') \<and>
    (\<forall>bad. length bad \<noteq> 5 \<longrightarrow> gsmd_opname_add True junk ops bad name = Some (- EINVAL, ops))"
proof -
  have dig: "\<forall>c \<in> set (take 3 code). isdigit c" "\<forall>c \<in> set (drop 3 code). isdigit c"
    using assms(5) by (auto dest: in_set_takeD in_set_dropD)
  have "digits_num 10 (take 3 code) < 10 ^ 3" "digits_num 10 (drop 3 code) < 10 ^ 2"
    by (rule digits_num_bound; use dig assms(4) in simp)+
  moreover have "take 3 code \<noteq> []" "drop 3 code \<noteq> []" using assms(4) by auto
  ultimately have d3: "atoi (take 3 code) = int (digits_num 10 (take 3 code))"
    and d2: "atoi (drop 3 code) = int (digits_num 10 (drop 3 code))"
    using dig by (simp_all add: atoi_digits)
  obtain d where d: "strlcpy junk name ALNUM_LONG_SIZE = Some (length name, d)"
    "cstr_of_array d = Some (take 16 name)"
    using strlcpy_cstr[of ALNUM_LONG_SIZE junk name] assms(2,3) by (auto simp: ALNUM_LONG_SIZE_def)
  let ?op = "\<lparr>op_mcc = of_nat (digits_num 10 (take 3 code)), op_mnc = of_nat (digits_num 10 (drop 3 code)),
    op_alnum_long = d\<rparr>"
  have key: "op_key ?op = k" by (simp add: op_key_def assms(6))
  have "gsmd_opname_add True junk ops code name = Some (0, snd (opname_add ops ?op))"
    using assms(4) d(1) d2 d3 by (simp add: gsmd_opname_add_def Let_def opname_add_def)
  moreover have "op_inv (snd (opname_add ops ?op))" by (rule ops.inv_put[OF assms(1)])
  ultimately show ?thesis
    using d(2) key ops.look_put[OF assms(1), of ?op] by (simp add: gsmd_opname_add_def)
qed

lemma opname_cache_map_witness:
  "\<exists>ops' op. gsmd_opname_add True (replicate 17 NUL) [] ''26201'' ''T-Mobile'' = Some (0, ops') \<and>
     op_look ops' (262, 1) = Some op \<and> cstr_of_array (op_alnum_long op) = Some ''T-Mobile''"
proof -
  have digits: "digits_num 10 ''262'' = 262" "digits_num 10 ''01'' = 1"
    by code_simp+
  have "\<forall>c \<in> set ''26201''. isdigit c" by code_simp
  from opname_cache_map[OF _ _ _ _ this refl, of "[]" "replicate 17 NUL" "''T-Mobile''"] show ?thesis
    by (auto simp: op_inv_def ALNUM_LONG_SIZE_def digits)
qed

end
