(* ===== verification/Timer.thy ===== *)
theory Timer
  imports Prelude
begin

text \<open>
  The timer queue of \<open>src/gsmd/timer.c\<close>: relative expiration times are made absolute,
  timers wait in registration order in one list, the kernel interval timer is set to the
  earliest of them, and \<open>gsmd_timer_check_n_run\<close>, called on \<open>SIGALRM\<close>, runs the
  callbacks of those that have expired.  Times are unbounded integers; the clock is a
  function from the number of the reading to its value.  A timer is known by its address.
\<close>

section \<open>Data\<close>

record timeval =
  tv_sec :: int
  tv_usec :: int

abbreviation tv :: "int \<Rightarrow> int \<Rightarrow> timeval" where
  "tv s u \<equiv> \<lparr>tv_sec = s, tv_usec = u\<rparr>"

text \<open>The functions that the daemon installs as timer callbacks.\<close>

datatype tmr_cb = Discard_timeout | Alive_tmr_cb | Alive_interval_tmr_cb | State_ringing_timeout
  | Wakeup_timeout | Poweroff_timeout

record gsmd_timer =
  tmr_addr :: nat
  tmr_expires :: timeval
  tmr_cb :: tmr_cb

text \<open>
  The list \<open>gsmd_timers\<close>, the value of the kernel timer (zero when it is disarmed), the
  clock, how often it has been read, and the address of the next timer to be allocated.
\<close>

record timer_state =
  ts_timers :: "gsmd_timer list"
  ts_itimer :: timeval
  ts_clock :: "nat \<Rightarrow> timeval"
  ts_reads :: nat
  ts_next :: nat

section \<open>Arithmetic on times\<close>

function tv_borrow :: "int \<Rightarrow> int \<Rightarrow> timeval" where
  "tv_borrow s u = (if u < 0 then tv_borrow (s - 1) (u + 1000000) else tv s u)"
  by pat_completeness auto
termination
  by (relation "measure (\<lambda>(s, u). nat (- u))") auto

declare tv_borrow.simps [simp del]

definition tv_sub :: "timeval \<Rightarrow> timeval \<Rightarrow> int \<times> timeval" where
  "tv_sub from sub = (0, tv_borrow (tv_sec from - tv_sec sub) (tv_usec from - tv_usec sub))"

definition tv_later :: "timeval \<Rightarrow> timeval \<Rightarrow> bool" where
  "tv_later expires now =
     (if tv_sec expires < tv_sec now then False
      else if tv_sec now < tv_sec expires then True
      else tv_usec now \<le> tv_usec expires)"

definition tv_smaller :: "timeval \<Rightarrow> timeval \<Rightarrow> bool" where
  "tv_smaller t1 t2 = tv_later t2 t1"

section \<open>System calls\<close>

definition gettimeofday :: "timer_state \<Rightarrow> timeval \<times> timer_state" where
  "gettimeofday s = (ts_clock s (ts_reads s), s\<lparr>ts_reads := ts_reads s + 1\<rparr>)"

text \<open>\<open>setitimer\<close> refuses a value that is not a canonical time (\<open>EINVAL\<close>).\<close>

definition tv_canonical :: "timeval \<Rightarrow> bool" where
  "tv_canonical t \<longleftrightarrow> 0 \<le> tv_sec t \<and> 0 \<le> tv_usec t \<and> tv_usec t < 1000000"

definition setitimer :: "timeval \<Rightarrow> timer_state \<Rightarrow> int \<times> timer_state" where
  "setitimer v s = (if tv_canonical v then (0, s\<lparr>ts_itimer := v\<rparr>) else (- 1, s))"

section \<open>Operations\<close>

fun min_expires :: "timeval \<Rightarrow> gsmd_timer list \<Rightarrow> timeval" where
  "min_expires m [] = m"
| "min_expires m (cur # rest) =
     min_expires (if tv_smaller (tmr_expires cur) m then tmr_expires cur else m) rest"

text \<open>\<open>tv_sub\<close> never returns a negative value, so the jump back to \<open>retry\<close> is not taken.\<close>

definition calc_next_expiration :: "timer_state \<Rightarrow> int \<times> timer_state" where
  "calc_next_expiration s0 =
     (let (now, s) = gettimeofday s0 in
      case ts_timers s of
        [] \<Rightarrow> (0, s)
      | first # _ \<Rightarrow>
          let m = min_expires (tmr_expires first) (ts_timers s);
              (_, diff) = tv_sub m now;
              (ret, s') = setitimer diff s
          in if ret < 0 then (ret, s') else (0, s'))"

definition gsmd_timer_register :: "gsmd_timer \<Rightarrow> timer_state \<Rightarrow> int \<times> timer_state" where
  "gsmd_timer_register timer s0 =
     (let (now, s) = gettimeofday s0;
          timer' = timer\<lparr>tmr_expires := tv (tv_sec (tmr_expires timer) + tv_sec now)
                                             (tv_usec (tmr_expires timer) + tv_usec now)\<rparr>;
          (_, s') = calc_next_expiration (s\<lparr>ts_timers := ts_timers s @ [timer']\<rparr>)
      in (0, s'))"

text \<open>\<open>alloc\<close> tells whether \<open>talloc_size\<close> succeeds; the result is the timer's address.\<close>

definition gsmd_timer_create :: "bool \<Rightarrow> timeval \<Rightarrow> tmr_cb \<Rightarrow> timer_state \<Rightarrow> nat option \<times> timer_state" where
  "gsmd_timer_create alloc expires cb s =
     (if \<not> alloc then (None, s)
      else let a = ts_next s;
               (rc, s') = gsmd_timer_register \<lparr>tmr_addr = a, tmr_expires = expires, tmr_cb = cb\<rparr>
                            (s\<lparr>ts_next := a + 1\<rparr>)
           in if rc < 0 then (None, s') else (Some a, s'))"

text \<open>\<open>llist_del\<close> of a timer that is not in the list follows poisoned pointers.\<close>

definition timer_del :: "nat \<Rightarrow> timer_state \<Rightarrow> timer_state option" where
  "timer_del a s =
     (if a \<in> tmr_addr ` set (ts_timers s)
      then Some (s\<lparr>ts_timers := filter (\<lambda>t. tmr_addr t \<noteq> a) (ts_timers s)\<rparr>) else None)"

definition gsmd_timer_unregister :: "nat \<Rightarrow> timer_state \<Rightarrow> timer_state option" where
  "gsmd_timer_unregister a s = map_option (\<lambda>s'. snd (calc_next_expiration s')) (timer_del a s)"

text \<open>
  The traversal of \<open>gsmd_timer_check_n_run\<close>.  It keeps a pointer to the entry behind the
  current one while the callback runs; \<open>None\<close> stands for the list head.  A callback sees
  and changes the whole state of the daemon, the timers first.
\<close>

type_synonym 'c timer_cb = "gsmd_timer \<Rightarrow> timer_state \<times> 'c \<Rightarrow> (timer_state \<times> 'c) option"

definition timer_at :: "nat \<Rightarrow> gsmd_timer list \<Rightarrow> (gsmd_timer \<times> nat option) option" where
  "timer_at a ts =
     (case dropWhile (\<lambda>t. tmr_addr t \<noteq> a) ts of
        [] \<Rightarrow> None
      | t # [] \<Rightarrow> Some (t, None)
      | t # t' # _ \<Rightarrow> Some (t, Some (tmr_addr t')))"

partial_function (option) check_loop ::
  "'c timer_cb \<Rightarrow> timeval \<Rightarrow> nat option \<Rightarrow> timer_state \<times> 'c \<Rightarrow> (timer_state \<times> 'c) option" where
  "check_loop cb now pos s =
     (case pos of
        None \<Rightarrow> Some s
      | Some a \<Rightarrow>
          (case timer_at a (ts_timers (fst s)) of
             None \<Rightarrow> None
           | Some (cur, nxt) \<Rightarrow>
               if tv_later now (tmr_expires cur) then do {
                 s1 \<leftarrow> timer_del a (fst s);
                 s2 \<leftarrow> cb cur (s1, snd s);
                 check_loop cb now nxt s2 }
               else check_loop cb now nxt s))"

definition gsmd_timer_check_n_run :: "'c timer_cb \<Rightarrow> timer_state \<times> 'c \<Rightarrow> (timer_state \<times> 'c) option" where
  "gsmd_timer_check_n_run cb s0 = do {
     let (now, s) = gettimeofday (fst s0);
     (s1, c1) \<leftarrow> check_loop cb now (case ts_timers s of [] \<Rightarrow> None | t # _ \<Rightarrow> Some (tmr_addr t)) (s, snd s0);
     Some (snd (calc_next_expiration s1), c1) }"


section \<open>Times as numbers of microseconds\<close>

definition tv_val :: "timeval \<Rightarrow> int" where
  "tv_val t = tv_sec t * 1000000 + tv_usec t"

definition usec_ok :: "timeval \<Rightarrow> bool" where
  "usec_ok t \<longleftrightarrow> 0 \<le> tv_usec t \<and> tv_usec t < 1000000"

lemma tv_borrow_val: "tv_val (tv_borrow s u) = s * 1000000 + u"
proof (induction s u rule: tv_borrow.induct)
  case (1 s u)
  then show ?case by (cases "u < 0") (subst tv_borrow.simps, simp add: tv_val_def)+
qed

lemma tv_borrow_usec: "u < 1000000 \<Longrightarrow> usec_ok (tv_borrow s u)"
proof (induction s u rule: tv_borrow.induct)
  case (1 s u)
  then show ?case by (cases "u < 0") (subst tv_borrow.simps, simp add: usec_ok_def)+
qed

lemma tv_sub_val: "tv_val (snd (tv_sub a b)) = tv_val a - tv_val b"
  by (simp add: tv_sub_def tv_borrow_val) (simp add: tv_val_def algebra_simps)

lemma tv_sub_usec: "usec_ok a \<Longrightarrow> usec_ok b \<Longrightarrow> usec_ok (snd (tv_sub a b))"
  unfolding tv_sub_def by (simp, rule tv_borrow_usec) (simp add: usec_ok_def)

lemma usec_ok_canonical: "usec_ok t \<Longrightarrow> 0 \<le> tv_val t \<Longrightarrow> tv_canonical t"
  by (auto simp: usec_ok_def tv_val_def tv_canonical_def)

lemma tv_later_val: "usec_ok a \<Longrightarrow> usec_ok b \<Longrightarrow> tv_later a b \<longleftrightarrow> tv_val b \<le> tv_val a"
  by (auto simp: usec_ok_def tv_later_def tv_val_def)

lemma min_expires_min:
  assumes "usec_ok m" and "\<forall>t \<in> set ts. usec_ok (tmr_expires t)"
  shows "usec_ok (min_expires m ts) \<and>
     min_expires m ts \<in> insert m (tmr_expires ` set ts) \<and>
     tv_val (min_expires m ts) \<le> tv_val m \<and>
     (\<forall>t \<in> set ts. tv_val (min_expires m ts) \<le> tv_val (tmr_expires t))"
  using assms
proof (induction ts arbitrary: m)
  case (Cons c ts)
  let ?m = "if tv_smaller (tmr_expires c) m then tmr_expires c else m"
  have ok: "usec_ok ?m" "\<forall>t \<in> set ts. usec_ok (tmr_expires t)" using Cons.prems by auto
  have le: "tv_val ?m \<le> tv_val m" "tv_val ?m \<le> tv_val (tmr_expires c)"
    using Cons.prems by (auto simp: tv_smaller_def tv_later_val)
  from Cons.IH[OF ok] le show ?case by (auto split: if_splits)
qed simp

section \<open>How the operations change the list\<close>

lemma calc_next_expiration_frame [simp]:
  "ts_timers (snd (calc_next_expiration s)) = ts_timers s"
  "ts_clock (snd (calc_next_expiration s)) = ts_clock s"
  "ts_next (snd (calc_next_expiration s)) = ts_next s"
  by (auto simp: calc_next_expiration_def gettimeofday_def setitimer_def Let_def split_beta split: list.split)

lemma gsmd_timer_create_Some:
  "gsmd_timer_create True e cb s = (a, s') \<Longrightarrow>
     a = Some (ts_next s) \<and> ts_next s' = ts_next s + 1 \<and> ts_clock s' = ts_clock s \<and>
     (\<exists>t. ts_timers s' = ts_timers s @ [t] \<and> tmr_addr t = ts_next s \<and> tmr_cb t = cb)"
  by (auto simp: gsmd_timer_create_def gsmd_timer_register_def gettimeofday_def Let_def split_beta)

lemma gsmd_timer_create_fail: "gsmd_timer_create False e cb s = (None, s)"
  by (simp add: gsmd_timer_create_def)

lemma gsmd_timer_unregister_Some:
  "gsmd_timer_unregister a s = Some s' \<Longrightarrow>
     ts_timers s' = filter (\<lambda>t. tmr_addr t \<noteq> a) (ts_timers s) \<and> ts_next s' = ts_next s \<and> ts_clock s' = ts_clock s"
  by (auto simp: gsmd_timer_unregister_def timer_del_def split: if_splits)

lemma gsmd_timer_unregister_defined:
  "a \<in> tmr_addr ` set (ts_timers s) \<Longrightarrow> \<exists>s'. gsmd_timer_unregister a s = Some s'"
  by (simp add: gsmd_timer_unregister_def timer_del_def)

definition timers_wf :: "timer_state \<Rightarrow> bool" where
  "timers_wf s \<longleftrightarrow> distinct (map tmr_addr (ts_timers s)) \<and> (\<forall>t \<in> set (ts_timers s). tmr_addr t < ts_next s)"

lemma timers_wf_create: "timers_wf s \<Longrightarrow> gsmd_timer_create ok e cb s = (a, s') \<Longrightarrow> timers_wf s'"
  by (cases ok) (force dest!: gsmd_timer_create_Some simp: timers_wf_def gsmd_timer_create_fail)+

lemma timers_wf_unregister: "timers_wf s \<Longrightarrow> gsmd_timer_unregister a s = Some s' \<Longrightarrow> timers_wf s'"
  by (auto dest!: gsmd_timer_unregister_Some simp: timers_wf_def distinct_map_filter)

section \<open>Running the expired timers\<close>

fun run_expired :: "'c timer_cb \<Rightarrow> gsmd_timer list \<Rightarrow> timer_state \<times> 'c \<Rightarrow> (timer_state \<times> 'c) option" where
  "run_expired cb [] s = Some s"
| "run_expired cb (t # ts) s = do {
     s1 \<leftarrow> timer_del (tmr_addr t) (fst s);
     s2 \<leftarrow> cb t (s1, snd s);
     run_expired cb ts s2 }"

lemma dropWhile_addr:
  assumes "distinct (map tmr_addr (pre @ t # rest))"
  shows "dropWhile (\<lambda>x. tmr_addr x \<noteq> tmr_addr t) (pre @ t # rest) = t # rest"
  using assms by (induction pre) auto

lemma filter_addr:
  assumes "distinct (map tmr_addr (pre @ t # rest))"
  shows "filter (\<lambda>x. tmr_addr x \<noteq> tmr_addr t) (pre @ t # rest) = pre @ rest"
proof -
  have "tmr_addr t \<notin> tmr_addr ` set pre" "tmr_addr t \<notin> tmr_addr ` set rest" using assms by auto
  then have "filter (\<lambda>x. tmr_addr x \<noteq> tmr_addr t) pre = pre" "filter (\<lambda>x. tmr_addr x \<noteq> tmr_addr t) rest = rest"
    by (auto simp: filter_id_conv image_iff)
  then show ?thesis by simp
qed

text \<open>
  What the queue asks of the callbacks: with its timer taken out of the list, a callback
  returns, keeps the invariant, and changes the list only by appending timers that have
  not expired.
\<close>

locale timer_client =
  fixes cb :: "'c timer_cb" and now :: timeval and inv :: "timer_state \<times> 'c \<Rightarrow> bool"
  assumes inv_distinct: "inv (s, c) \<Longrightarrow> distinct (map tmr_addr (ts_timers s))"
    and cb_step: "inv (s, c) \<Longrightarrow> t \<in> set (ts_timers s) \<Longrightarrow> tv_later now (tmr_expires t) \<Longrightarrow>
      \<exists>s' c' new. cb t (s\<lparr>ts_timers := filter (\<lambda>x. tmr_addr x \<noteq> tmr_addr t) (ts_timers s)\<rparr>, c) = Some (s', c') \<and>
        inv (s', c') \<and> ts_timers s' = filter (\<lambda>x. tmr_addr x \<noteq> tmr_addr t) (ts_timers s) @ new \<and>
        (\<forall>x \<in> set new. \<not> tv_later now (tmr_expires x))"
begin

abbreviation expired :: "gsmd_timer list \<Rightarrow> gsmd_timer list" where
  "expired \<equiv> filter (\<lambda>t. tv_later now (tmr_expires t))"

lemma timer_at_suffix:
  assumes "inv (s, c)" and "ts_timers s = pre @ t # rest"
  shows "timer_at (tmr_addr t) (ts_timers s) =
    Some (t, case rest of [] \<Rightarrow> None | t' # _ \<Rightarrow> Some (tmr_addr t'))"
  using inv_distinct[OF assms(1)] assms(2)
  by (simp add: timer_at_def dropWhile_addr split: list.split)

lemma run_one:
  assumes "inv (s, c)" and "ts_timers s = pre @ t # rest" and "tv_later now (tmr_expires t)"
  obtains s' c' new where "timer_del (tmr_addr t) s = Some (s\<lparr>ts_timers := pre @ rest\<rparr>)"
    and "cb t (s\<lparr>ts_timers := pre @ rest\<rparr>, c) = Some (s', c')" and "inv (s', c')"
    and "ts_timers s' = pre @ rest @ new" and "expired new = []"
proof -
  have f: "filter (\<lambda>x. tmr_addr x \<noteq> tmr_addr t) (ts_timers s) = pre @ rest"
    using filter_addr inv_distinct[OF assms(1)] assms(2) by simp
  have mem: "t \<in> set (ts_timers s)" using assms(2) by simp
  then have del: "timer_del (tmr_addr t) s = Some (s\<lparr>ts_timers := pre @ rest\<rparr>)"
    by (simp add: timer_del_def f)
  from cb_step[OF assms(1) mem assms(3), unfolded f] obtain s' c' new
    where "cb t (s\<lparr>ts_timers := pre @ rest\<rparr>, c) = Some (s', c')" "inv (s', c')"
      "ts_timers s' = (pre @ rest) @ new" "\<forall>x \<in> set new. \<not> tv_later now (tmr_expires x)"
    by blast
  with del show thesis by (intro that[of s' c' new]) (simp_all add: filter_empty_conv)
qed

lemma check_loop_runs:
  "inv (s, c) \<Longrightarrow> ts_timers s = pre @ suf \<Longrightarrow>
   pos = (case suf of [] \<Rightarrow> None | t # _ \<Rightarrow> Some (tmr_addr t)) \<Longrightarrow>
   check_loop cb now pos (s, c) = run_expired cb (expired suf) (s, c)"
proof (induction suf arbitrary: s c pre pos rule: wf_induct_rule[OF wf_measures[of "[\<lambda>xs. length (expired xs), length]"]])
  case (1 suf)
  show ?case
  proof (cases suf)
    case Nil
    then show ?thesis using 1 by (subst check_loop.simps) simp
  next
    case (Cons t rest)
    let ?nxt = "case rest of [] \<Rightarrow> None | t' # _ \<Rightarrow> Some (tmr_addr t')"
    have list: "ts_timers s = pre @ t # rest" using 1 Cons by simp
    have at: "timer_at (tmr_addr t) (ts_timers s) = Some (t, ?nxt)"
      by (rule timer_at_suffix[OF 1(2) list])
    show ?thesis
    proof (cases "tv_later now (tmr_expires t)")
      case True
      obtain s' c' new where step: "timer_del (tmr_addr t) s = Some (s\<lparr>ts_timers := pre @ rest\<rparr>)"
        "cb t (s\<lparr>ts_timers := pre @ rest\<rparr>, c) = Some (s', c')" "inv (s', c')"
        "ts_timers s' = pre @ rest @ new" "expired new = []"
        using run_one[OF 1(2) list True] by metis
      have "check_loop cb now ?nxt (s', c') = run_expired cb (expired rest) (s', c')"
      proof (cases rest)
        case Nil
        then show ?thesis by (subst check_loop.simps) simp
      next
        case (Cons r rs)
        have "check_loop cb now ?nxt (s', c') = run_expired cb (expired (rest @ new)) (s', c')"
          by (rule 1(1)[of "rest @ new" s' c' pre])
            (use step True Cons \<open>suf = t # rest\<close> in \<open>auto simp: in_measures\<close>)
        then show ?thesis using step(5) by simp
      qed
      then show ?thesis using 1(4) Cons at True step(1,2)
        by (subst check_loop.simps) simp
    next
      case False
      have "check_loop cb now ?nxt (s, c) = run_expired cb (expired rest) (s, c)"
        by (rule 1(1)[of rest s c "pre @ [t]"]) (use 1(2) list False Cons in \<open>auto simp: in_measures\<close>)
      then show ?thesis using 1(4) Cons at False
        by (subst check_loop.simps) simp
    qed
  qed
qed

lemma run_expired_total:
  "inv (s, c) \<Longrightarrow> ts_timers s = pre @ suf @ post \<Longrightarrow> expired post = [] \<Longrightarrow>
   \<exists>s' c' new. run_expired cb (expired suf) (s, c) = Some (s', c') \<and> inv (s', c') \<and>
     ts_timers s' = pre @ filter (\<lambda>t. \<not> tv_later now (tmr_expires t)) suf @ new \<and> expired new = []"
proof (induction suf arbitrary: s c pre post)
  case Nil
  then show ?case by auto
next
  case (Cons t rest)
  have list: "ts_timers s = pre @ t # (rest @ post)" using Cons.prems(2) by simp
  show ?case
  proof (cases "tv_later now (tmr_expires t)")
    case True
    obtain s1 c1 new where step: "timer_del (tmr_addr t) s = Some (s\<lparr>ts_timers := pre @ rest @ post\<rparr>)"
      "cb t (s\<lparr>ts_timers := pre @ rest @ post\<rparr>, c) = Some (s1, c1)" "inv (s1, c1)"
      "ts_timers s1 = pre @ rest @ post @ new" "expired new = []"
      using run_one[OF Cons.prems(1) list True] by (metis append.assoc)
    then show ?thesis using Cons.IH[of s1 c1 pre "post @ new"] Cons.prems(3) True by simp
  next
    case False
    then show ?thesis using Cons.IH[of s c "pre @ [t]" post] Cons.prems by auto
  qed
qed

end

section \<open>Properties\<close>

text \<open>
  C37. The kernel timer is set to the earliest expiration. When the pending expiration times
  and the clock are canonical and none of these times is before the clock, \<open>calc_next_expiration\<close> succeeds and
  sets the kernel timer to exactly the time that is left until the earliest of them. (When one of them is
  the time of the clock itself nothing is left, and the value 0 does not start the kernel timer.)
\<close>

theorem kernel_timer_armed:
  assumes "ts_timers s \<noteq> []" and "\<forall>t \<in> set (ts_timers s). usec_ok (tmr_expires t)"
    and "usec_ok (ts_clock s (ts_reads s))"
    and "\<forall>t \<in> set (ts_timers s). tv_val (ts_clock s (ts_reads s)) \<le> tv_val (tmr_expires t)"
  shows "\<exists>s'. calc_next_expiration s = (0, s') \<and> ts_timers s' = ts_timers s \<and> tv_canonical (ts_itimer s') \<and>
    tv_val (ts_itimer s') =
      Min (tv_val ` tmr_expires ` set (ts_timers s)) - tv_val (ts_clock s (ts_reads s))"
proof -
  obtain first rest where ts: "ts_timers s = first # rest" using assms(1) by (cases "ts_timers s") auto
  let ?now = "ts_clock s (ts_reads s)" and ?m = "min_expires (tmr_expires first) (ts_timers s)"
  have mm: "usec_ok ?m" "?m \<in> tmr_expires ` set (ts_timers s)"
    "\<forall>t \<in> set (ts_timers s). tv_val ?m \<le> tv_val (tmr_expires t)"
    using min_expires_min[of "tmr_expires first" "ts_timers s"] assms(2) ts by auto
  have min: "Min (tv_val ` tmr_expires ` set (ts_timers s)) = tv_val ?m"
    using mm(2,3) by (intro Min_eqI) auto
  have "tv_val ?now \<le> tv_val ?m" using mm(2) assms(4) by auto
  then have can: "tv_canonical (snd (tv_sub ?m ?now))"
    using mm(1) assms(3) by (intro usec_ok_canonical tv_sub_usec) (simp_all add: tv_sub_val)
  have "calc_next_expiration s = (0, s\<lparr>ts_reads := ts_reads s + 1, ts_itimer := snd (tv_sub ?m ?now)\<rparr>)"
    using can ts by (simp add: calc_next_expiration_def gettimeofday_def setitimer_def split_beta Let_def)
  then show ?thesis using can min by (simp add: tv_sub_val)
qed

lemma kernel_timer_armed_witness:
  "\<exists>s'. calc_next_expiration
      \<lparr>ts_timers = [\<lparr>tmr_addr = 0, tmr_expires = tv 9 5, tmr_cb = Discard_timeout\<rparr>,
                    \<lparr>tmr_addr = 1, tmr_expires = tv 7 300000, tmr_cb = Alive_tmr_cb\<rparr>],
       ts_itimer = tv 0 0, ts_clock = \<lambda>n. tv 6 900000, ts_reads = 0, ts_next = 2\<rparr> = (0, s') \<and>
     tv_val (ts_itimer s') = 400000"
  using kernel_timer_armed[of "\<lparr>ts_timers = [\<lparr>tmr_addr = 0, tmr_expires = tv 9 5, tmr_cb = Discard_timeout\<rparr>,
                    \<lparr>tmr_addr = 1, tmr_expires = tv 7 300000, tmr_cb = Alive_tmr_cb\<rparr>],
       ts_itimer = tv 0 0, ts_clock = \<lambda>n. tv 6 900000, ts_reads = 0, ts_next = 2\<rparr>"]
  by (auto simp: usec_ok_def tv_val_def)

text \<open>
  Expiration times are not made canonical, and the kernel refuses to wait for them. A
  timer registered at a clock of 0.9 s to expire after the 1.2 s of the ring check holds
  1 s and 1100000 us. If the queue is recalculated once the clock is at 1.05 s, for
  instance because another timer is removed, \<open>setitimer\<close> fails and the kernel timer is
  left as it was.
\<close>

lemma ring_timer_not_rearmed:
  "let clock = (\<lambda>n. if n < 2 then tv 0 900000 else tv 1 50000);
       s0 = \<lparr>ts_timers = [], ts_itimer = tv 0 0, ts_clock = clock, ts_reads = 0, ts_next = 0\<rparr>;
       (a, s1) = gsmd_timer_create True (tv 1 200000) State_ringing_timeout s0
   in a = Some 0 \<and> ts_itimer s1 = tv 1 200000 \<and>
      (let (rc, s2) = calc_next_expiration (s1\<lparr>ts_itimer := tv 0 0\<rparr>) in rc = - 1 \<and> ts_itimer s2 = tv 0 0)"
  by (simp add: gsmd_timer_create_def gsmd_timer_register_def gettimeofday_def calc_next_expiration_def
      tv_sub_def tv_borrow.simps setitimer_def tv_canonical_def tv_smaller_def tv_later_def)

end
