(* ===== verification/SmsPdu.thy ===== *)
theory SmsPdu
  imports Strl
begin

text \<open>
  SMS and cell broadcast PDUs: the message structures of \<open>include/gsmd/usock.h\<close> and
  the coders of \<open>src/gsmd/sms_pdu.c\<close>.  A PDU is the list of its initialised octets; a
  read behind them is a fault.  Values of enum type that the code computes from octets
  are kept as the octet they are computed from.
\<close>

unbundle bit_operations_syntax

section \<open>Data\<close>

definition GSMD_ADDR_MAXLEN :: nat where "GSMD_ADDR_MAXLEN = 32"
definition GSMD_SMS_DATA_MAXLEN :: nat where "GSMD_SMS_DATA_MAXLEN = 164"
definition CBM_MAX_PDU_SIZE :: nat where "CBM_MAX_PDU_SIZE = 88"

abbreviation (input) ALPHABET_DEFAULT :: u8 where "ALPHABET_DEFAULT \<equiv> 0"
abbreviation (input) ALPHABET_8BIT :: u8 where "ALPHABET_8BIT \<equiv> 4"
abbreviation (input) ALPHABET_UCS2 :: u8 where "ALPHABET_UCS2 \<equiv> 8"

abbreviation (input) GSMD_TOA_TON_ALPHANUMERIC :: u8 where "GSMD_TOA_TON_ALPHANUMERIC \<equiv> 0x50"
abbreviation (input) GSMD_TOA_TON_MASK :: u8 where "GSMD_TOA_TON_MASK \<equiv> 0x70"

text \<open>\<open>struct gsmd_addr\<close>; \<open>ga_number\<close> is the array \<open>number[GSMD_ADDR_MAXLEN+1]\<close>.\<close>

record gsmd_addr =
  ga_type :: u8
  ga_number :: "char list"

record gsmd_sms_datacodingscheme =
  dcs_msg_class :: u8
  dcs_alphabet :: u8
  dcs_is_compressed :: u8
  dcs_mwi_group :: u8
  dcs_mwi_active :: u8
  dcs_mwi_kind :: u8
  dcs_raw :: u8

datatype gsmd_sms_tp_mti =
    GSMD_SMS_TP_MTI_DELIVER | GSMD_SMS_TP_MTI_SUBMIT | GSMD_SMS_TP_MTI_STATUS_REPORT
  | GSMD_SMS_TP_MTI_RESERVED

text \<open>\<open>struct gsmd_sms\<close>; \<open>sms_data\<close> is the array \<open>data[GSMD_SMS_DATA_MAXLEN+1]\<close>.\<close>

record gsmd_sms =
  sms_length :: u8
  sms_coding_scheme :: u8
  sms_has_header :: bool
  sms_is_voicemail :: bool
  sms_dcs :: gsmd_sms_datacodingscheme
  sms_tp_mti :: gsmd_sms_tp_mti
  sms_data :: "u8 list"

record gsmd_sms_submit =
  sub_addr :: gsmd_addr
  sub_payload :: gsmd_sms
  sub_ask_ds :: bool

record gsmd_sms_list =
  sl_index :: u8
  sl_stat :: int
  sl_time_stamp :: "u8 list"
  sl_addr :: gsmd_addr
  sl_payload :: gsmd_sms
  sl_is_last :: bool

record gsmd_cbm =
  cbm_scope :: nat
  cbm_msg_code :: nat
  cbm_update_num :: nat
  cbm_msg_id :: u16
  cbm_language :: nat
  cbm_coding_scheme :: u8
  cbm_pages :: nat
  cbm_page :: nat
  cbm_data :: "u8 list"

section \<open>Lengths\<close>

definition rd :: "'a list \<Rightarrow> nat \<Rightarrow> 'a option" where
  "rd xs i = (if i < length xs then Some (xs ! i) else None)"

definition sms_number_bytelen :: "u8 \<Rightarrow> u8 \<Rightarrow> nat" where
  "sms_number_bytelen ty len =
     (if ty AND GSMD_TOA_TON_MASK = GSMD_TOA_TON_ALPHANUMERIC then (unat len + 1) div 2
      else (unat len + 1) div 2)"

definition sms_data_bytelen :: "u8 \<Rightarrow> u8 \<Rightarrow> nat" where
  "sms_data_bytelen data_coding_scheme len =
     (if data_coding_scheme = ALPHABET_DEFAULT then (unat len * 7 + 7) div 8
      else if data_coding_scheme = ALPHABET_8BIT then unat len
      else if data_coding_scheme = ALPHABET_UCS2 then unat len
      else 0)"

section \<open>Addresses\<close>

text \<open>The two loops of \<open>sms_address2ascii\<close>, from index \<open>i\<close>.\<close>

function addr_alnum :: "nat \<Rightarrow> nat \<Rightarrow> u8 list \<Rightarrow> string option" where
  "addr_alnum i n src =
     (if (i * 7 + 3) div 4 < n then do {
        hi \<leftarrow> rd src (2 + (i * 7 + 7) div 8);
        lo \<leftarrow> rd src (2 + (i * 7) div 8);
        cs \<leftarrow> addr_alnum (i + 1) n src;
        Some (char_of ((push_bit (7 - (i * 7 + 7) mod 8) (unat hi) OR
                        drop_bit ((i * 7) mod 8) (unat lo)) AND 0x7f) # cs) }
      else Some [])"
  by pat_completeness auto
termination
  by (relation "measure (\<lambda>(i, n, src). 4 * n - 7 * i)") auto

function addr_digits :: "nat \<Rightarrow> nat \<Rightarrow> u8 list \<Rightarrow> string option" where
  "addr_digits i n src =
     (if i < n then do {
        b \<leftarrow> rd src (2 + i div 2);
        cs \<leftarrow> addr_digits (i + 1) n src;
        Some (char_of (48 + (drop_bit ((i * 4) mod 8) (unat b)) mod 16) # cs) }
      else Some [])"
  by pat_completeness auto
termination
  by (relation "measure (\<lambda>(i, n, src). n - i)") auto

declare addr_alnum.simps [simp del] addr_digits.simps [simp del]

definition sms_address2ascii :: "gsmd_addr \<Rightarrow> u8 list \<Rightarrow> (int \<times> gsmd_addr) option" where
  "sms_address2ascii dst src = do {
     n \<leftarrow> rd src 0;
     if GSMD_ADDR_MAXLEN < unat n then Some (1, dst)
     else do {
       ty \<leftarrow> rd src 1;
       cs \<leftarrow> (if ty AND GSMD_TOA_TON_MASK = GSMD_TOA_TON_ALPHANUMERIC
              then addr_alnum 0 (unat n) src else addr_digits 0 (unat n) src);
       num \<leftarrow> memcpy (ga_number dst) 0 (cs @ [NUL]);
       Some (0, dst\<lparr>ga_type := ty, ga_number := num\<rparr>) } }"

section \<open>TP-DCS\<close>

definition sms_pdu_decode_dcs :: "gsmd_sms_datacodingscheme \<Rightarrow> u8 \<Rightarrow> gsmd_sms_datacodingscheme" where
  "sms_pdu_decode_dcs dcs0 d =
     (let dcs = dcs0\<lparr>dcs_mwi_active := 0, dcs_mwi_kind := 3\<rparr>;
          i = drop_bit 6 (d AND 0xC0);
          dcs1 =
            (if i = 0 then
               dcs\<lparr>dcs_is_compressed := d AND 0x20,
                   dcs_msg_class := (if d AND 0x10 \<noteq> 0 then d AND 0x03 else 4),
                   dcs_alphabet := drop_bit 2 (d AND 0x0C),
                   dcs_mwi_group := 0\<rparr>
             else if i = 3 then
               if d AND 0x30 = 0x30 then
                 dcs\<lparr>dcs_alphabet := (if d AND 0x04 \<noteq> 0 then 1 else 0),
                     dcs_msg_class := d AND 0x03,
                     dcs_is_compressed := 0,
                     dcs_mwi_group := 3\<rparr>
               else
                 let dcs2 = dcs\<lparr>dcs_is_compressed := 0, dcs_msg_class := 4\<rparr>;
                     dcs3 = (if d AND 0x30 = 0x00 then dcs2\<lparr>dcs_mwi_group := 1, dcs_alphabet := 0\<rparr>
                             else if d AND 0x30 = 0x10 then dcs2\<lparr>dcs_mwi_group := 2, dcs_alphabet := 0\<rparr>
                             else dcs2\<lparr>dcs_mwi_group := 2, dcs_alphabet := 2\<rparr>)
                 in dcs3\<lparr>dcs_mwi_active := (if d AND 0x08 \<noteq> 0 then 1 else 0),
                         dcs_mwi_kind := d AND 0x03\<rparr>
             else
               dcs\<lparr>dcs_msg_class := 4, dcs_alphabet := 0, dcs_is_compressed := 0,
                   dcs_mwi_group := 0, dcs_mwi_active := 0, dcs_mwi_kind := 3\<rparr>);
          dcs4 = (if 2 < dcs_alphabet dcs1 then dcs1\<lparr>dcs_alphabet := 0\<rparr> else dcs1)
      in dcs4\<lparr>dcs_raw := d\<rparr>)"

text \<open>The \<open>switch\<close> that both message decoders apply to the octet; \<open>None\<close> is its default.\<close>

definition dcs_coding_scheme :: "u8 \<Rightarrow> u8 option" where
  "dcs_coding_scheme d =
     (let g = drop_bit 4 d in
      if g \<le> 3 \<or> g = 0xc then Some (d AND 0xc)
      else if g = 0xd then Some ALPHABET_DEFAULT
      else if g = 0xe then Some ALPHABET_UCS2
      else if g = 0xf then Some (if d AND 4 \<noteq> 0 then ALPHABET_8BIT else ALPHABET_DEFAULT)
      else None)"


section \<open>Decoding a message\<close>

definition rd_n :: "'a list \<Rightarrow> nat \<Rightarrow> nat \<Rightarrow> 'a list option" where
  "rd_n xs off n = (if off + n \<le> length xs then Some (take n (drop off xs)) else None)"

text \<open>
  The three branches of the \<open>switch (src[0] & 3)\<close>, with \<open>src\<close> and \<open>len\<close> as they are
  there.  The result is the return value and the message as it has been filled so far.
\<close>

definition sms_pdu_tp_ud :: "gsmd_sms_list \<Rightarrow> u8 list \<Rightarrow> int \<Rightarrow> (int \<times> gsmd_sms_list) option" where
  "sms_pdu_tp_ud msg src len = do {
     udl \<leftarrow> rd src 0;
     let pl = (sl_payload msg)\<lparr>sms_length := udl\<rparr>;
     let i = sms_data_bytelen (sms_coding_scheme pl) udl;
     let msg1 = msg\<lparr>sl_payload := pl\<rparr>;
     if len < 1 + int i \<or> GSMD_SMS_DATA_MAXLEN < i then Some (1, msg1)
     else do {
       ud \<leftarrow> rd_n src 1 i;
       d \<leftarrow> memcpy (sms_data pl) 0 (ud @ [0]);
       Some (0, msg\<lparr>sl_payload := pl\<lparr>sms_data := d\<rparr>\<rparr>) } }"

definition sms_pdu_deliver :: "gsmd_sms_list \<Rightarrow> u8 list \<Rightarrow> int \<Rightarrow> (int \<times> gsmd_sms_list) option" where
  "sms_pdu_deliver msg0 src len =
     (let msg = msg0\<lparr>sl_payload := (sl_payload msg0)\<lparr>sms_tp_mti := GSMD_SMS_TP_MTI_DELIVER\<rparr>\<rparr> in
      if len < 3 then Some (1, msg)
      else do {
        ty \<leftarrow> rd src 2;
        al \<leftarrow> rd src 1;
        let i = sms_number_bytelen ty al;
        if len < 13 + int i then Some (1, msg)
        else do {
          (r, a) \<leftarrow> sms_address2ascii (sl_addr msg) (drop 1 src);
          if r \<noteq> 0 then Some (1, msg)
          else do {
            let msg1 = msg\<lparr>sl_addr := a\<rparr>;
            let src1 = drop (3 + i) src;
            let len1 = len - (3 + int i);
            pid \<leftarrow> rd src1 0;
            dcso \<leftarrow> rd src1 1;
            let dcs = sms_pdu_decode_dcs (sms_dcs (sl_payload msg1)) dcso;
            let vm = (pid = 0x5f \<or> sms_is_voicemail (sl_payload msg1) \<or>
                      dcs_mwi_kind dcs = 0 \<and> (dcs_mwi_group dcs = 1 \<or> dcs_mwi_group dcs = 2));
            let msg2 = msg1\<lparr>sl_payload := (sl_payload msg1)\<lparr>sms_is_voicemail := vm, sms_dcs := dcs\<rparr>\<rparr>;
            case dcs_coding_scheme dcso of
              None \<Rightarrow> Some (1, msg2)
            | Some cs \<Rightarrow> do {
                ts \<leftarrow> rd_n src1 2 7;
                let msg3 = msg2\<lparr>sl_payload := (sl_payload msg2)\<lparr>sms_coding_scheme := cs\<rparr>,
                                sl_time_stamp := ts\<rparr>;
                sms_pdu_tp_ud msg3 (drop 9 src1) (len1 - 9) } } } })"

definition sms_pdu_submit :: "gsmd_sms_list \<Rightarrow> u8 list \<Rightarrow> int \<Rightarrow> nat \<Rightarrow> (int \<times> gsmd_sms_list) option" where
  "sms_pdu_submit msg0 src len vpf =
     (let msg = msg0\<lparr>sl_payload := (sl_payload msg0)\<lparr>sms_tp_mti := GSMD_SMS_TP_MTI_SUBMIT\<rparr>\<rparr> in
      if len < 4 then Some (1, msg)
      else do {
        ty \<leftarrow> rd src 3;
        al \<leftarrow> rd src 2;
        let i = sms_number_bytelen ty al;
        if len < 8 + int i then Some (1, msg)
        else do {
          (r, a) \<leftarrow> sms_address2ascii (sl_addr msg) (drop 2 src);
          if r \<noteq> 0 then Some (1, msg)
          else do {
            let msg1 = msg\<lparr>sl_addr := a\<rparr>;
            let src1 = drop (4 + i) src;
            let len1 = len - (4 + int i);
            dcso \<leftarrow> rd src1 1;
            case dcs_coding_scheme dcso of
              None \<Rightarrow> Some (1, msg1)
            | Some cs \<Rightarrow> do {
                let k = (if vpf \<noteq> 0 then 3 else 2);
                let msg2 = msg1\<lparr>sl_payload := (sl_payload msg1)\<lparr>sms_coding_scheme := cs\<rparr>,
                                sl_time_stamp := replicate 7 0\<rparr>;
                sms_pdu_tp_ud msg2 (drop k src1) (len1 - int k) } } } })"

definition sms_pdu_status_report :: "gsmd_sms_list \<Rightarrow> u8 list \<Rightarrow> int \<Rightarrow> (int \<times> gsmd_sms_list) option" where
  "sms_pdu_status_report msg0 src len =
     (let msg = msg0\<lparr>sl_payload := (sl_payload msg0)\<lparr>sms_tp_mti := GSMD_SMS_TP_MTI_STATUS_REPORT\<rparr>\<rparr> in
      if len < 3 then Some (1, msg)
      else do {
        mr \<leftarrow> rd src 1;
        st \<leftarrow> rd src (nat (len - 1));
        let msg1 = msg\<lparr>sl_index := mr, sl_payload := (sl_payload msg)\<lparr>sms_coding_scheme := st\<rparr>\<rparr>;
        ty \<leftarrow> rd src 3;
        al \<leftarrow> rd src 2;
        let i = sms_number_bytelen ty al;
        if len < 13 + int i then Some (1, msg1)
        else do {
          (r, a) \<leftarrow> sms_address2ascii (sl_addr msg1) (drop 2 src);
          if r \<noteq> 0 then Some (1, msg1)
          else do {
            let src1 = drop (4 + i) src;
            ts \<leftarrow> rd_n src1 0 7;
            d \<leftarrow> memcpy (sms_data (sl_payload msg1)) 0 [0];
            Some (0, msg1\<lparr>sl_addr := a, sl_time_stamp := ts,
                          sl_payload := (sl_payload msg1)\<lparr>sms_length := 0, sms_data := d\<rparr>\<rparr>) } } })"

text \<open>
  \<open>sms_pdu_to_msg\<close>.  \<open>pdulen\<close> is an \<open>int\<close> that callers take from the modem, so the sum in
  the length check is computed in 32 bits.
\<close>

definition sms_pdu_to_msg :: "gsmd_sms_list \<Rightarrow> u8 list \<Rightarrow> int \<Rightarrow> int \<Rightarrow> (int \<times> gsmd_sms_list) option" where
  "sms_pdu_to_msg dst src pdulen len =
     (if len < 1 then Some (1, dst)
      else do {
        smsc \<leftarrow> rd src 0;
        if len < to_int32 (1 + uint smsc + pdulen) \<or> pdulen < 1 then Some (1, dst)
        else do {
          let len1 = len - (1 + uint smsc);
          let src1 = drop (1 + unat smsc) src;
          fo \<leftarrow> rd src1 0;
          let msg = dst\<lparr>sl_payload := (sl_payload dst)\<lparr>sms_is_voicemail := False,
                          sms_has_header := (fo AND 0x40 \<noteq> 0)\<rparr>\<rparr>;
          let vpf = unat (drop_bit 3 fo AND 3);
          if fo AND 3 = 0 then sms_pdu_deliver msg src1 len1
          else if fo AND 3 = 1 then sms_pdu_submit msg src1 len1 vpf
          else if fo AND 3 = 2 then sms_pdu_status_report msg src1 len1
          else Some (1, msg) } })"

section \<open>Encoding a message\<close>

text \<open>
  The address octets of an SMS-SUBMIT, two digits each; arithmetic on \<open>u_int8_t\<close>.
\<close>

fun submit_digits :: "string \<Rightarrow> u8 list" where
  "submit_digits [] = []"
| "submit_digits [a] = [(of_nat (ord_c a) - 48) OR 0xf0]"
| "submit_digits (a # b # cs) =
     ((of_nat (ord_c a) - 48) OR push_bit 4 (of_nat (ord_c b) - 48)) # submit_digits cs"

text \<open>
  \<open>sms_pdu_make_smssubmit\<close>: the header is built in an array of \<open>15 + GSMD_ADDR_MAXLEN\<close>
  octets, the user data is read from the message; the return value is the number of
  octets and the text written to \<open>dest\<close> their hexadecimal form.
\<close>

definition smssubmit_header :: "gsmd_sms_submit \<Rightarrow> string \<Rightarrow> u8 list" where
  "smssubmit_header src number =
     [0x00,
      0x01 OR (if sub_ask_ds src then 0x20 else 0) OR
        (if sms_has_header (sub_payload src) then 0x40 else 0),
      0x00,
      of_nat (length number),
      ga_type (sub_addr src)] @
     submit_digits number @
     [0x00, sms_coding_scheme (sub_payload src), sms_length (sub_payload src)]"

definition smssubmit_octets :: "gsmd_sms_submit \<Rightarrow> u8 list option" where
  "smssubmit_octets src = do {
     number \<leftarrow> cstr_of_array (ga_number (sub_addr src));
     let header = smssubmit_header src number;
     if 15 + GSMD_ADDR_MAXLEN < length header then None
     else do {
       let len = sms_data_bytelen (sms_coding_scheme (sub_payload src)) (sms_length (sub_payload src));
       ud \<leftarrow> rd_n (sms_data (sub_payload src)) 0 len;
       Some (header @ ud) } }"

definition sms_pdu_make_smssubmit :: "gsmd_sms_submit \<Rightarrow> (int \<times> string) option" where
  "sms_pdu_make_smssubmit src = do {
     octets \<leftarrow> smssubmit_octets src;
     Some (int (length octets), concat (map show_hex2 octets)) }"

section \<open>Cell broadcast\<close>

definition cbs_pdu_to_msg :: "gsmd_cbm \<Rightarrow> u8 list \<Rightarrow> int \<Rightarrow> int \<Rightarrow> (int \<times> gsmd_cbm) option" where
  "cbs_pdu_to_msg dst src pdulen len =
     (if len \<noteq> pdulen \<or> len \<noteq> int CBM_MAX_PDU_SIZE then Some (1, dst)
      else do {
        s0 \<leftarrow> rd src 0; s1 \<leftarrow> rd src 1; s2 \<leftarrow> rd src 2; s3 \<leftarrow> rd src 3; s4 \<leftarrow> rd src 4; s5 \<leftarrow> rd src 5;
        body \<leftarrow> rd_n src 6 (nat (len - 6));
        d \<leftarrow> memcpy (cbm_data dst) 0 body;
        Some (0, dst\<lparr>cbm_scope := drop_bit 6 (unat s0) AND 3,
                     cbm_msg_code := (push_bit 4 (unat s0) OR drop_bit 4 (unat s1)) AND 0x3ff,
                     cbm_update_num := unat s1 AND 0xf,
                     cbm_msg_id := push_bit 8 (ucast s2) OR ucast s3,
                     cbm_language := unat s4 AND 0xf,
                     cbm_coding_scheme := push_bit 2 (drop_bit 4 s4 AND 3),
                     cbm_pages := unat s5 AND 0xf,
                     cbm_page := drop_bit 4 (unat s5),
                     cbm_data := d\<rparr>) })"


section \<open>Reading inside the octets\<close>

lemma rd_Some [simp, fault_simps]: "i < length xs \<Longrightarrow> rd xs i = Some (xs ! i)"
  by (simp add: rd_def)

lemma rd_n_Some [simp, fault_simps]: "off + n \<le> length xs \<Longrightarrow> rd_n xs off n = Some (take n (drop off xs))"
  by (simp add: rd_n_def)

lemma memcpy_Some [simp, fault_simps]:
  "off + length src \<le> length dest \<Longrightarrow>
   memcpy dest off src = Some (take off dest @ src @ drop (off + length src) dest)"
  by (simp add: memcpy_def)

definition digit_at :: "u8 list \<Rightarrow> nat \<Rightarrow> char" where
  "digit_at src i = char_of (48 + (drop_bit ((i * 4) mod 8) (unat (src ! (2 + i div 2)))) mod 16)"

lemma addr_digits_map:
  "2 + (n + 1) div 2 \<le> length src \<Longrightarrow> addr_digits i n src = Some (map (digit_at src) [i..<n])"
proof (induction i n src rule: addr_digits.induct)
  case (1 i n src)
  show ?case
  proof (cases "i < n")
    case True
    then have "i div 2 < (n + 1) div 2" by linarith
    with 1(2) have *: "2 + i div 2 < length src" by linarith
    have rest: "addr_digits (i + 1) n src = Some (map (digit_at src) [i + 1..<n])"
      using 1(1)[OF True rd_Some[OF *]] 1(2) by simp
    show ?thesis
      by (subst addr_digits.simps)
        (use True * rest in \<open>simp add: digit_at_def upt_conv_Cons\<close>)
  next
    case False
    then show ?thesis by (subst addr_digits.simps) simp
  qed
qed

lemma addr_alnum_length:
  "2 + (n + 1) div 2 < length src \<Longrightarrow>
   \<exists>cs. addr_alnum i n src = Some cs \<and> 7 * length cs \<le> 4 * n + 6 - 7 * i"
proof (induction i n src rule: addr_alnum.induct)
  case (1 i n src)
  show ?case
  proof (cases "(i * 7 + 3) div 4 < n")
    case True
    then have hi: "2 + (i * 7 + 7) div 8 < length src" and lo: "2 + (i * 7) div 8 < length src"
      using 1(2) by linarith+
    obtain cs where cs: "addr_alnum (i + 1) n src = Some cs" "7 * length cs \<le> 4 * n + 6 - 7 * (i + 1)"
      using 1(1)[OF True rd_Some[OF hi] rd_Some[OF lo] 1(2)] by blast
    have "7 * i + 3 < 4 * n" using True by linarith
    with cs(2) have "7 * Suc (length cs) \<le> 4 * n + 6 - 7 * i" by simp
    then show ?thesis by (subst addr_alnum.simps) (use True hi lo cs(1) in simp)
  next
    case False
    then show ?thesis by (subst addr_alnum.simps) simp
  qed
qed

section \<open>The decoder stays inside its buffers\<close>

definition addr_wf :: "gsmd_addr \<Rightarrow> bool" where
  "addr_wf a \<longleftrightarrow> length (ga_number a) = GSMD_ADDR_MAXLEN + 1"

definition msg_wf :: "gsmd_sms_list \<Rightarrow> bool" where
  "msg_wf m \<longleftrightarrow> addr_wf (sl_addr m) \<and> length (sms_data (sl_payload m)) = GSMD_SMS_DATA_MAXLEN + 1 \<and>
     length (sl_time_stamp m) = 7"

definition decoded :: "(int \<times> gsmd_sms_list) option \<Rightarrow> bool" where
  "decoded x \<longleftrightarrow> (\<exists>r m. x = Some (r, m) \<and> r \<in> {0, 1} \<and> msg_wf m)"

lemma decodedI: "r = 0 \<or> r = 1 \<Longrightarrow> msg_wf m \<Longrightarrow> decoded (Some (r, m))"
  by (auto simp: decoded_def)

lemma sms_number_bytelen_eq: "sms_number_bytelen ty n = (unat n + 1) div 2"
  by (simp add: sms_number_bytelen_def)

lemma sms_address2ascii_safe:
  assumes "addr_wf dst" and "2 + (unat (src ! 0) + 1) div 2 < length src"
  shows "\<exists>r a. sms_address2ascii dst src = Some (r, a) \<and> addr_wf a"
proof (cases "GSMD_ADDR_MAXLEN < unat (src ! 0)")
  case True
  have "0 < length src" using assms(2) by linarith
  with True show ?thesis using assms(1) by (simp add: sms_address2ascii_def)
next
  case False
  have rds: "rd src 0 = Some (src ! 0)" "rd src 1 = Some (src ! 1)"
    by (rule rd_Some, use assms(2) in linarith)+
  let ?n = "unat (src ! 0)"
  obtain al where al: "addr_alnum 0 ?n src = Some al" "7 * length al \<le> 4 * ?n + 6"
    using addr_alnum_length[OF assms(2), of 0] by auto
  have "length al \<le> 32" using al(2) False by (simp add: GSMD_ADDR_MAXLEN_def)
  moreover have "addr_digits 0 ?n src = Some (map (digit_at src) [0..<?n])"
    by (rule addr_digits_map) (use assms(2) in linarith)
  ultimately show ?thesis
    using assms False al(1)
    by (auto simp: sms_address2ascii_def rds addr_wf_def GSMD_ADDR_MAXLEN_def)
qed

lemma sms_address2ascii_drop:
  assumes "addr_wf dst" and "k \<le> 2" and "5 + (unat (src ! k) + 1) div 2 \<le> length src"
  obtains r a where "sms_address2ascii dst (drop k src) = Some (r, a)" and "addr_wf a"
proof -
  have "drop k src ! 0 = src ! k" using assms(2,3) by simp
  then have "2 + (unat (drop k src ! 0) + 1) div 2 < length (drop k src)"
    using assms(2,3) by simp
  then show thesis using sms_address2ascii_safe[OF assms(1)] that by blast
qed

lemma sms_pdu_tp_ud_safe:
  assumes "msg_wf msg" and "len = int (length src)" and "1 \<le> len"
  shows "decoded (sms_pdu_tp_ud msg src len)"
proof -
  have "rd src 0 = Some (src ! 0)" by (rule rd_Some) (use assms in linarith)
  then show ?thesis
    using assms
    by (auto simp: sms_pdu_tp_ud_def Let_def decoded_def msg_wf_def GSMD_SMS_DATA_MAXLEN_def)
qed

lemma sms_pdu_deliver_safe:
  assumes wf: "msg_wf msg" and len: "len = int (length src)"
  shows "decoded (sms_pdu_deliver msg src len)"
proof (cases "len < 13 + int (sms_number_bytelen (src ! 2) (src ! 1))")
  case True
  then show ?thesis using wf len
    by (auto simp: sms_pdu_deliver_def Let_def decoded_def msg_wf_def)
next
  case False
  let ?m = "msg\<lparr>sl_payload := (sl_payload msg)\<lparr>sms_tp_mti := GSMD_SMS_TP_MTI_DELIVER\<rparr>\<rparr>"
  have l13: "13 + sms_number_bytelen (src ! 2) (src ! 1) \<le> length src" using False len by linarith
  then have "5 + (unat (src ! 1) + 1) div 2 \<le> length src"
    unfolding sms_number_bytelen_eq by linarith
  then obtain r a where a: "sms_address2ascii (sl_addr msg) (drop 1 src) = Some (r, a)" "addr_wf a"
    using wf by (auto simp: msg_wf_def elim: sms_address2ascii_drop[of "sl_addr msg" 1 src])
  show ?thesis
    using False l13 a len wf
    by (auto simp: sms_pdu_deliver_def Let_def msg_wf_def algebra_simps
        intro!: decodedI sms_pdu_tp_ud_safe split: option.split)
qed

lemma sms_pdu_submit_safe:
  assumes wf: "msg_wf msg" and len: "len = int (length src)"
  shows "decoded (sms_pdu_submit msg src len vpf)"
proof (cases "len < 8 + int (sms_number_bytelen (src ! 3) (src ! 2))")
  case True
  then show ?thesis using wf len
    by (auto simp: sms_pdu_submit_def Let_def decoded_def msg_wf_def)
next
  case False
  have l8: "8 + sms_number_bytelen (src ! 3) (src ! 2) \<le> length src" using False len by linarith
  then have "5 + (unat (src ! 2) + 1) div 2 \<le> length src"
    unfolding sms_number_bytelen_eq by linarith
  then obtain r a where a: "sms_address2ascii (sl_addr msg) (drop 2 src) = Some (r, a)" "addr_wf a"
    using wf by (auto simp: msg_wf_def elim: sms_address2ascii_drop[of "sl_addr msg" 2 src])
  show ?thesis
    using False l8 a len wf
    by (auto simp: sms_pdu_submit_def Let_def msg_wf_def algebra_simps
        intro!: decodedI sms_pdu_tp_ud_safe split: option.split)
qed

lemma sms_pdu_status_report_safe:
  assumes wf: "msg_wf msg" and len: "len = int (length src)" and "4 \<le> len"
  shows "decoded (sms_pdu_status_report msg src len)"
proof (cases "len < 13 + int (sms_number_bytelen (src ! 3) (src ! 2))")
  case True
  then show ?thesis using assms
    by (auto simp: sms_pdu_status_report_def Let_def decoded_def msg_wf_def)
next
  case False
  have l13: "13 + sms_number_bytelen (src ! 3) (src ! 2) \<le> length src" using False len by linarith
  then have "5 + (unat (src ! 2) + 1) div 2 \<le> length src"
    unfolding sms_number_bytelen_eq by linarith
  then obtain r a where a: "sms_address2ascii (sl_addr msg) (drop 2 src) = Some (r, a)" "addr_wf a"
    using wf by (auto simp: msg_wf_def elim: sms_address2ascii_drop[of "sl_addr msg" 2 src])
  show ?thesis
    using False l13 a assms
    by (auto simp: sms_pdu_status_report_def Let_def msg_wf_def GSMD_SMS_DATA_MAXLEN_def intro!: decodedI)
qed


section \<open>The encoder's octets\<close>

lemma length_submit_digits [simp]: "length (submit_digits s) = (length s + 1) div 2"
  by (induction s rule: submit_digits.induct) auto

lemma nibbles_check:
  "list_all (\<lambda>x. list_all (\<lambda>y.
      unat ((of_nat (48 + x) - 48 :: u8) OR push_bit 4 (of_nat (48 + y) - 48)) = x + 16 * y)
      [0..<10]) [0..<10] \<and>
   list_all (\<lambda>x. unat ((of_nat (48 + x) - 48 :: u8) OR 0xf0) = x + 240) [0..<10]"
  by code_simp

lemma isdigit_ord_c: "isdigit c \<longleftrightarrow> (\<exists>d < 10. ord_c c = 48 + d)"
  unfolding isdigit_def by presburger

lemma submit_octet:
  assumes "isdigit a" and "isdigit b"
  shows "unat ((of_nat (ord_c a) - 48 :: u8) OR push_bit 4 (of_nat (ord_c b) - 48)) =
    (ord_c a - 48) + 16 * (ord_c b - 48)"
  using assms nibbles_check by (auto simp: isdigit_ord_c list_all_iff)

lemma submit_octet_last:
  assumes "isdigit a"
  shows "unat ((of_nat (ord_c a) - 48 :: u8) OR 0xf0) = (ord_c a - 48) + 240"
  using assms nibbles_check by (auto simp: isdigit_ord_c list_all_iff)

lemma char_of_digit: "isdigit c \<Longrightarrow> char_of (48 + (ord_c c - 48) mod 16) = c"
  by (auto simp: isdigit_ord_c intro!: ord_c_inject)

lemma char_of_digit_nat: "isdigit c \<Longrightarrow> char_of (48 + (ord_c c - 48)) = c"
  by (auto simp: isdigit_ord_c intro!: ord_c_inject)

lemma submit_digits_nibble:
  assumes "\<forall>c \<in> set s. isdigit c" and "i < length s"
  shows "char_of (48 + (drop_bit ((i * 4) mod 8) (unat (submit_digits s ! (i div 2)))) mod 16) = s ! i"
  using assms
proof (induction s arbitrary: i rule: submit_digits.induct)
  case 1
  then show ?case by simp
next
  case (2 a)
  then have "isdigit a" and "i = 0" by auto
  then have "((ord_c a - 48) + 240) mod 16 = (ord_c a - 48) mod 16" by (simp add: mod_add_eq [symmetric])
  with \<open>isdigit a\<close> \<open>i = 0\<close> show ?case
    by (simp add: submit_octet_last char_of_digit)
next
  case (3 a b cs)
  have d: "isdigit a" "isdigit b" using 3 by auto
  have small: "ord_c a - 48 < 16" "ord_c b - 48 < 16" using d by (auto simp: isdigit_ord_c)
  consider "i = 0" | "i = 1" | j where "i = j + 2" by (metis add_2_eq_Suc' not0_implies_Suc One_nat_def)
  then show ?case
  proof cases
    case 1
    with d small show ?thesis by (simp add: submit_octet char_of_digit_nat)
  next
    case 2
    with d small show ?thesis
      by (simp add: submit_octet char_of_digit_nat drop_bit_eq_div)
  next
    case (3 j)
    have "i * 4 mod 8 = j * 4 mod 8" "i div 2 = Suc (j div 2)" using 3 by simp_all
    then show ?thesis using "3.IH" "3.prems" 3 by simp
  qed
qed

text \<open>Decoding the address field that the encoder writes.\<close>

lemma submit_address_roundtrip:
  assumes "addr_wf dst" and "\<forall>c \<in> set num. isdigit c" and "length num \<le> GSMD_ADDR_MAXLEN"
    and "ty AND GSMD_TOA_TON_MASK \<noteq> GSMD_TOA_TON_ALPHANUMERIC"
  shows "sms_address2ascii dst (of_nat (length num) # ty # submit_digits num @ rest) =
    Some (0, dst\<lparr>ga_type := ty, ga_number := num @ NUL # drop (length num + 1) (ga_number dst)\<rparr>)"
proof -
  have n: "unat (of_nat (length num) :: u8) = length num"
    using assms(3) by (simp add: GSMD_ADDR_MAXLEN_def unat_of_nat)
  let ?src = "of_nat (length num) # ty # submit_digits num @ rest"
  have "digit_at ?src i = num ! i" if "i < length num" for i
  proof -
    have "i div 2 < length (submit_digits num)" using that by simp
    then have "?src ! (2 + i div 2) = submit_digits num ! (i div 2)" by (simp add: nth_append)
    then show ?thesis unfolding digit_at_def using submit_digits_nibble[OF assms(2) that] by simp
  qed
  then have "map (digit_at ?src) [0..<length num] = num"
    by (intro nth_equalityI) auto
  moreover have "2 + (length num + 1) div 2 \<le> length ?src" by simp
  ultimately have "addr_digits 0 (length num) ?src = Some num" by (simp only: addr_digits_map)
  then show ?thesis
    using assms n by (simp add: sms_address2ascii_def rd_def addr_wf_def)
qed


text \<open>The first octet of an SMS-SUBMIT as the decoder takes it apart.\<close>

lemma submit_first_octet:
  fixes h d :: bool
  defines "fo \<equiv> (0x01 OR (if d then 0x20 else 0) OR (if h then 0x40 else 0) :: u8)"
  shows "fo AND 3 = 1" and "(fo AND 0x40 \<noteq> 0) = h" and "unat (drop_bit 3 fo AND 3) = 0"
  unfolding fo_def by (cases d; cases h; simp; code_simp)+

lemma dcs_coding_scheme_plain: "cs \<in> {0, 4, 8} \<Longrightarrow> dcs_coding_scheme cs = Some cs"
  by (auto simp: dcs_coding_scheme_def)

lemma sms_data_bytelen_pos: "cs \<in> {0, 4, 8} \<Longrightarrow> n \<noteq> 0 \<Longrightarrow> 0 < sms_data_bytelen cs n"
proof -
  assume *: "cs \<in> {0, 4, 8}" "n \<noteq> 0"
  then have "0 < unat n" by (simp add: unat_gt_0)
  with * show ?thesis by (auto simp: sms_data_bytelen_def)
qed

lemma submit_body_roundtrip:
  assumes wf: "msg_wf dst" and num: "\<forall>c \<in> set num. isdigit c" "length num \<le> GSMD_ADDR_MAXLEN"
    and ty: "ty AND GSMD_TOA_TON_MASK \<noteq> GSMD_TOA_TON_ALPHANUMERIC"
    and cs: "cs \<in> {0, 4, 8}" and udl: "udl \<noteq> 0"
    and ud: "length ud = sms_data_bytelen cs udl" "length ud \<le> GSMD_SMS_DATA_MAXLEN"
    and src: "src = fo # mr # of_nat (length num) # ty # submit_digits num @ [0x00, cs, udl] @ ud"
  shows "sms_pdu_submit dst src (int (length src)) 0 =
    Some (0, dst\<lparr>sl_addr := (sl_addr dst)\<lparr>ga_type := ty,
                    ga_number := num @ NUL # drop (length num + 1) (ga_number (sl_addr dst))\<rparr>,
                  sl_payload := (sl_payload dst)\<lparr>sms_tp_mti := GSMD_SMS_TP_MTI_SUBMIT,
                    sms_coding_scheme := cs, sms_length := udl,
                    sms_data := ud @ 0 # drop (length ud + 1) (sms_data (sl_payload dst))\<rparr>,
                  sl_time_stamp := replicate 7 0\<rparr>)"
proof -
  have n: "unat (of_nat (length num) :: u8) = length num"
    using num(2) by (simp add: GSMD_ADDR_MAXLEN_def unat_of_nat)
  have i: "sms_number_bytelen (src ! 3) (src ! 2) = (length num + 1) div 2"
    using n by (simp add: sms_number_bytelen_eq src)
  have pos: "0 < length ud" using sms_data_bytelen_pos[OF cs udl] ud(1) by simp
  have addr: "sms_address2ascii (sl_addr dst) (drop 2 src) = Some (0, (sl_addr dst)\<lparr>ga_type := ty,
       ga_number := num @ NUL # drop (length num + 1) (ga_number (sl_addr dst))\<rparr>)"
    using submit_address_roundtrip[OF _ num ty, of "sl_addr dst" "[0x00, cs, udl] @ ud"] wf
    by (simp add: src msg_wf_def)
  have body: "drop (4 + (length num + 1) div 2) src = [0x00, cs, udl] @ ud"
  proof -
    have "drop (4 + (length num + 1) div 2) src = drop ((length num + 1) div 2) (drop 4 src)"
      by (simp add: add.commute)
    then show ?thesis by (simp add: src)
  qed
  have tp: "sms_pdu_tp_ud msg (udl # ud) (1 + int (length ud)) =
    Some (0, msg\<lparr>sl_payload := (sl_payload msg)\<lparr>sms_length := udl,
       sms_data := ud @ 0 # drop (length ud + 1) (sms_data (sl_payload msg))\<rparr>\<rparr>)"
    if "sms_coding_scheme (sl_payload msg) = cs" "length (sms_data (sl_payload msg)) = GSMD_SMS_DATA_MAXLEN + 1"
    for msg
    using that ud by (simp add: sms_pdu_tp_ud_def Let_def rd_def)
  have len: "length src = 7 + (length num + 1) div 2 + length ud" by (simp add: src)
  have rds: "rd src 3 = Some (src ! 3)" "rd src 2 = Some (src ! 2)"
    using len by simp_all
  show ?thesis
    using addr body pos wf dcs_coding_scheme_plain[OF cs]
    by (simp add: sms_pdu_submit_def Let_def i rds len rd_def tp msg_wf_def)
qed

lemma submit_without_smsc:
  assumes "fo AND 3 = 1" and "unat (drop_bit 3 fo AND 3) = 0" and "length rest < 1000"
  shows "sms_pdu_to_msg dst (0 # fo # rest) (int (length (fo # rest))) (1 + int (length (fo # rest))) =
    sms_pdu_submit (dst\<lparr>sl_payload := (sl_payload dst)\<lparr>sms_is_voicemail := False,
      sms_has_header := (fo AND 0x40 \<noteq> 0)\<rparr>\<rparr>) (fo # rest) (int (length (fo # rest))) 0"
proof -
  have "to_int32 (1 + int (length (fo # rest))) = 1 + int (length (fo # rest))"
    using assms(3) by (intro to_int32_id) auto
  then show ?thesis using assms(1,2) by (simp add: sms_pdu_to_msg_def rd_def Let_def)
qed

section \<open>Bit fields\<close>

lemma nat_and_low:
  fixes x :: nat
  shows "x AND 3 = x mod 4" and "x AND 15 = x mod 16" and "x AND 1023 = x mod 1024"
proof -
  have m: "x AND mask n = x mod 2 ^ n" for n by (simp flip: take_bit_eq_mask add: take_bit_eq_mod)
  show "x AND 3 = x mod 4" "x AND 15 = x mod 16" "x AND 1023 = x mod 1024"
    using m[of 2] m[of 4] m[of 10] by (simp_all add: mask_eq_exp_minus_1)
qed

lemma nat_or_shift:
  fixes x y :: nat
  assumes "y < 2 ^ n"
  shows "push_bit n x OR y = x * 2 ^ n + y"
proof -
  have "y = take_bit n y" using assms by (simp add: take_bit_nat_eq_self)
  then have "push_bit n x AND y = push_bit n x AND take_bit n y" by simp
  also have "\<dots> = 0" by (auto simp: bit_eq_iff bit_simps)
  finally show ?thesis by (simp add: push_bit_eq_mult flip: disjunctive_add_eq_or)
qed

lemma unat_u8_less: "unat (w :: u8) < 256"
  using unsigned_less[of w] by simp

lemma unat_msg_id: "unat (push_bit 8 (ucast a) OR ucast b :: u16) = unat (a :: u8) * 256 + unat (b :: u8)"
proof -
  have "unat (push_bit 8 (ucast a) :: u16) = push_bit 8 (unat a)"
    using unat_u8_less[of a]
    by (simp add: unsigned_push_bit_eq unsigned_ucast_eq take_bit_push_bit take_bit_nat_eq_self del: push_bit_numeral_minus_1)
  moreover have "unat (ucast b :: u16) = unat b"
    using unat_u8_less[of b] by (simp add: unsigned_ucast_eq take_bit_nat_eq_self)
  ultimately have "unat (push_bit 8 (ucast a) OR ucast b :: u16) = push_bit 8 (unat a) OR unat b"
    by (simp only: unsigned_or_eq)
  then show ?thesis using nat_or_shift[of "unat b" 8] unat_u8_less[of b] by simp
qed

section \<open>Message buffers\<close>

text \<open>A zero-filled message buffer, as the callers of the decoder allocate it.\<close>

definition sms_zero :: gsmd_sms where
  "sms_zero = \<lparr>sms_length = 0, sms_coding_scheme = 0, sms_has_header = False, sms_is_voicemail = False,
     sms_dcs = \<lparr>dcs_msg_class = 0, dcs_alphabet = 0, dcs_is_compressed = 0, dcs_mwi_group = 0,
                dcs_mwi_active = 0, dcs_mwi_kind = 0, dcs_raw = 0\<rparr>,
     sms_tp_mti = GSMD_SMS_TP_MTI_DELIVER, sms_data = replicate (GSMD_SMS_DATA_MAXLEN + 1) 0\<rparr>"

definition sms_list_zero :: gsmd_sms_list where
  "sms_list_zero = \<lparr>sl_index = 0, sl_stat = 0, sl_time_stamp = replicate 7 0,
     sl_addr = \<lparr>ga_type = 0, ga_number = replicate (GSMD_ADDR_MAXLEN + 1) NUL\<rparr>,
     sl_payload = sms_zero, sl_is_last = False\<rparr>"

lemma msg_wf_zero [simp]: "msg_wf sms_list_zero"
  by (simp add: msg_wf_def addr_wf_def sms_list_zero_def sms_zero_def)

section \<open>Theorems\<close>

text \<open>
  The PDUs that are read behind their end, when the modem announces \<open>pdulen\<close> octets behind the address
  of the service centre: the length check, a sum in 32 bits, passes; and there is nothing behind that address,
  or there is a status report of three octets, of which the fourth is read.
\<close>

definition pdu_overread :: "u8 list \<Rightarrow> int \<Rightarrow> bool" where
  "pdu_overread src pdulen \<longleftrightarrow> src \<noteq> [] \<and> 1 \<le> pdulen \<and> to_int32 (1 + uint (src ! 0) + pdulen) \<le> int (length src) \<and>
     (length src \<le> 1 + unat (src ! 0) \<or> src ! (1 + unat (src ! 0)) AND 3 = 2 \<and> length src = 4 + unat (src ! 0))"

lemma pdu_overread_bound:
  assumes "pdulen < 1 \<or> 4 \<le> pdulen \<and> pdulen \<le> 2147483391"
  shows "\<not> pdu_overread src pdulen"
proof
  assume o: "pdu_overread src pdulen"
  have b: "uint (src ! 0) < 256" "0 \<le> uint (src ! 0)" using uint_lt2p[of "src ! 0"] by simp_all
  have p: "4 \<le> pdulen" "pdulen \<le> 2147483391" using o assms by (auto simp: pdu_overread_def)
  then have "to_int32 (1 + uint (src ! 0) + pdulen) = 1 + uint (src ! 0) + pdulen" using b by (intro to_int32_id) linarith+
  then have "5 + uint (src ! 0) \<le> int (length src)" using o p by (simp add: pdu_overread_def)
  moreover have "uint (src ! 0) = int (unat (src ! 0))" by simp
  ultimately have "5 + unat (src ! 0) \<le> length src" by linarith
  then show False using o by (auto simp: pdu_overread_def)
qed

lemma status_report_of_three: "length src = 3 \<Longrightarrow> sms_pdu_status_report msg src 3 = None"
  by (simp add: sms_pdu_status_report_def rd_def Let_def)

lemma to_msg_checked:
  assumes "src \<noteq> []" and "1 \<le> pdulen" and "to_int32 (1 + uint (src ! 0) + pdulen) \<le> int (length src)" and "1 + unat (src ! 0) < length src"
  defines "s \<equiv> drop (1 + unat (src ! 0)) src"
  shows "sms_pdu_to_msg dst src pdulen (int (length src)) =
    (let msg = dst\<lparr>sl_payload := (sl_payload dst)\<lparr>sms_is_voicemail := False, sms_has_header := (s ! 0 AND 0x40 \<noteq> 0)\<rparr>\<rparr> in
     if s ! 0 AND 3 = 0 then sms_pdu_deliver msg s (int (length s))
     else if s ! 0 AND 3 = 1 then sms_pdu_submit msg s (int (length s)) (unat (drop_bit 3 (s ! 0) AND 3))
     else if s ! 0 AND 3 = 2 then sms_pdu_status_report msg s (int (length s))
     else Some (1, msg))"
proof -
  have "int (length s) = int (length src) - (1 + uint (src ! 0))" using assms(4) by (simp add: s_def)
  moreover have "rd s 0 = Some (s ! 0)" using assms(4) by (simp add: s_def)
  moreover have "drop (Suc (unat (src ! 0))) src = s" by (simp add: s_def)
  ultimately show ?thesis using assms(1-3) by (simp add: sms_pdu_to_msg_def Let_def del: length_drop)
qed

lemma to_msg_overread:
  assumes "pdu_overread src pdulen"
  shows "sms_pdu_to_msg dst src pdulen (int (length src)) = None"
proof (cases "length src \<le> 1 + unat (src ! 0)")
  case True
  then show ?thesis using assms by (simp add: pdu_overread_def sms_pdu_to_msg_def rd_def Let_def)
next
  case False
  let ?s = "drop (1 + unat (src ! 0)) src"
  have s: "length ?s = 3" "?s ! 0 AND 3 = 2" and c: "src \<noteq> []" "1 \<le> pdulen" "to_int32 (1 + uint (src ! 0) + pdulen) \<le> int (length src)"
    "1 + unat (src ! 0) < length src"
    using assms False by (auto simp: pdu_overread_def)
  show ?thesis unfolding to_msg_checked[OF c] Let_def using s status_report_of_three[OF s(1)] by simp
qed

lemma to_msg_decoded:
  assumes "msg_wf dst" and "\<not> pdu_overread src pdulen"
  shows "decoded (sms_pdu_to_msg dst src pdulen (int (length src)))"
proof (cases "src = [] \<or> pdulen < 1 \<or> int (length src) < to_int32 (1 + uint (src ! 0) + pdulen)")
  case True
  then show ?thesis using assms(1) by (auto simp: sms_pdu_to_msg_def decoded_def)
next
  case False
  let ?s = "drop (1 + unat (src ! 0)) src"
  have l: "1 + unat (src ! 0) < length src" "?s ! 0 AND 3 = 2 \<longrightarrow> length ?s \<noteq> 3" using assms(2) False by (auto simp: pdu_overread_def)
  have "decoded (sms_pdu_status_report msg ?s (int (length ?s)))" if "msg_wf msg" "?s ! 0 AND 3 = 2" for msg
  proof (cases "length ?s < 3")
    case True
    then show ?thesis using that(1) by (auto simp: sms_pdu_status_report_def Let_def msg_wf_def intro!: decodedI)
  next
    case False
    then have "4 \<le> int (length ?s)" using l(2) that(2) by linarith
    then show ?thesis by (rule sms_pdu_status_report_safe[OF that(1) refl])
  qed
  then show ?thesis using False assms(1) l(1)
    by (subst to_msg_checked) (auto simp: Let_def msg_wf_def simp del: length_drop intro!: sms_pdu_deliver_safe sms_pdu_submit_safe decodedI)
qed

text \<open>
  C36. Memory safety of the message decoder, exactly. For every string of octets and every length that
  the modem announces with it, \<open>sms_pdu_to_msg\<close> reads behind the octets if and only if \<open>pdu_overread\<close>: the
  length check passes, and nothing or a status report of three octets stands behind the address of
  the service centre. Otherwise it stays inside the octets and inside the address, time stamp and data
  arrays of the message, and returns 0 or 1. An announced length below 1, or from 4 to 2147483391, is never
  one that is read behind the end; above that the sum in the check can wrap.
\<close>

theorem sms_pdu_to_msg_safe:
  assumes "msg_wf dst"
  shows "(sms_pdu_to_msg dst src pdulen (int (length src)) = None \<longleftrightarrow> pdu_overread src pdulen) \<and>
    (\<not> pdu_overread src pdulen \<longrightarrow>
       (\<exists>r m. sms_pdu_to_msg dst src pdulen (int (length src)) = Some (r, m) \<and> r \<in> {0, 1} \<and> msg_wf m)) \<and>
    (pdulen < 1 \<or> 4 \<le> pdulen \<and> pdulen \<le> 2147483391 \<longrightarrow> \<not> pdu_overread src pdulen)"
proof -
  have "sms_pdu_to_msg dst src pdulen (int (length src)) = None \<longleftrightarrow> pdu_overread src pdulen"
    using to_msg_overread[of src pdulen dst] to_msg_decoded[OF assms, of src pdulen] by (cases "pdu_overread src pdulen") (auto simp: decoded_def)
  then show ?thesis using to_msg_decoded[OF assms, of src pdulen] pdu_overread_bound[of pdulen src] unfolding decoded_def by blast
qed

lemma sms_pdu_to_msg_safe_witness:
  "(\<exists>r m. sms_pdu_to_msg sms_list_zero [0, 4, 2, 0x91, 0x21] 4 5 = Some (r, m) \<and> r \<in> {0, 1} \<and> msg_wf m) \<and>
   sms_pdu_to_msg sms_list_zero [0, 2, 9, 8] 3 4 = None \<and> sms_pdu_to_msg sms_list_zero [7] 2147483647 1 = None"
  using sms_pdu_to_msg_safe[OF msg_wf_zero, of "[0, 4, 2, 0x91, 0x21]" 4] sms_pdu_to_msg_safe[OF msg_wf_zero, of "[0, 2, 9, 8]" 3]
    sms_pdu_to_msg_safe[OF msg_wf_zero, of "[7]" 2147483647]
  by (simp add: pdu_overread_def to_int32_def)

lemma submit_roundtrip:
  assumes "cstr_of_array (ga_number (sub_addr m)) = Some num" and "\<forall>c \<in> set num. isdigit c"
    and "length num \<le> GSMD_ADDR_MAXLEN"
    and "ga_type (sub_addr m) AND GSMD_TOA_TON_MASK \<noteq> GSMD_TOA_TON_ALPHANUMERIC"
    and "sms_coding_scheme (sub_payload m) \<in> {0, 4, 8}" and "sms_length (sub_payload m) \<noteq> 0"
    and "n = sms_data_bytelen (sms_coding_scheme (sub_payload m)) (sms_length (sub_payload m))"
    and "n \<le> GSMD_SMS_DATA_MAXLEN" and "n \<le> length (sms_data (sub_payload m))" and "msg_wf dst"
  shows "\<exists>octets m'. sms_pdu_make_smssubmit m = Some (int (length octets), concat (map show_hex2 octets)) \<and>
     sms_pdu_to_msg dst octets (int (length octets) - 1) (int (length octets)) = Some (0, m') \<and>
     ga_type (sl_addr m') = ga_type (sub_addr m) \<and>
     cstr_of_array (ga_number (sl_addr m')) = Some num \<and>
     sms_tp_mti (sl_payload m') = GSMD_SMS_TP_MTI_SUBMIT \<and>
     sms_has_header (sl_payload m') = sms_has_header (sub_payload m) \<and>
     sms_coding_scheme (sl_payload m') = sms_coding_scheme (sub_payload m) \<and>
     sms_length (sl_payload m') = sms_length (sub_payload m) \<and>
     take n (sms_data (sl_payload m')) = take n (sms_data (sub_payload m)) \<and>
     length (sms_data (sl_payload m')) = GSMD_SMS_DATA_MAXLEN + 1"
proof -
  let ?h = "smssubmit_header m num" and ?ud = "take n (sms_data (sub_payload m))"
  have nul: "NUL \<notin> set num" using assms(1) by (auto simp: cstr_of_array_def split: if_splits)
  have lh: "length ?h = 8 + (length num + 1) div 2" by (simp add: smssubmit_header_def)
  have oct: "smssubmit_octets m = Some (?h @ ?ud)"
    using assms lh by (simp add: smssubmit_octets_def Let_def GSMD_ADDR_MAXLEN_def)
  obtain fo where fo: "?h = 0 # fo # 0 # of_nat (length num) # ga_type (sub_addr m) # submit_digits num @
      [0x00, sms_coding_scheme (sub_payload m), sms_length (sub_payload m)]"
    and fo3: "fo AND 3 = 1" "(fo AND 0x40 \<noteq> 0) = sms_has_header (sub_payload m)"
      "unat (drop_bit 3 fo AND 3) = 0"
    using submit_first_octet[of "sub_ask_ds m" "sms_has_header (sub_payload m)"]
    by (simp add: smssubmit_header_def)
  let ?src = "fo # 0 # of_nat (length num) # ga_type (sub_addr m) # submit_digits num @
      [0x00, sms_coding_scheme (sub_payload m), sms_length (sub_payload m)] @ ?ud"
  let ?d = "dst\<lparr>sl_payload := (sl_payload dst)\<lparr>sms_is_voicemail := False,
                          sms_has_header := (fo AND 0x40 \<noteq> 0)\<rparr>\<rparr>"
  note body = submit_body_roundtrip[OF _ assms(2-6), of ?d ?ud ?src fo 0]
  have "sms_pdu_to_msg dst (0 # ?src) (int (length ?src)) (1 + int (length ?src)) =
      sms_pdu_submit ?d ?src (int (length ?src)) 0"
    using fo3 by (intro submit_without_smsc) (use assms(3,8) in \<open>simp_all add: GSMD_ADDR_MAXLEN_def GSMD_SMS_DATA_MAXLEN_def\<close>)
  moreover have "?h @ ?ud = 0 # ?src" by (simp add: fo)
  ultimately show ?thesis
    using assms body fo3(2) nul oct
    by (intro exI[of _ "0 # ?src"]) (simp add: sms_pdu_make_smssubmit_def msg_wf_def cstr_of_array_def cstr_append_NUL)
qed

text \<open>
  C18. Submit round trip. An outgoing message to a number of at most 32 digits, with a
  non-empty text in one of the three alphabets that fits the data array, is encoded by
  \<open>sms_pdu_make_smssubmit\<close> into octets from which \<open>sms_pdu_to_msg\<close> recovers the type of
  address, the number, the header flag, the coding scheme, the length and the text.
\<close>

theorem sms_submit_roundtrip:
  assumes "cstr_of_array (ga_number (sub_addr m)) = Some num" and "\<forall>c \<in> set num. isdigit c"
    and "length num \<le> GSMD_ADDR_MAXLEN"
    and "ga_type (sub_addr m) AND GSMD_TOA_TON_MASK \<noteq> GSMD_TOA_TON_ALPHANUMERIC"
    and "sms_coding_scheme (sub_payload m) \<in> {0, 4, 8}" and "sms_length (sub_payload m) \<noteq> 0"
    and "n = sms_data_bytelen (sms_coding_scheme (sub_payload m)) (sms_length (sub_payload m))"
    and "n \<le> GSMD_SMS_DATA_MAXLEN" and "n \<le> length (sms_data (sub_payload m))" and "msg_wf dst"
  shows "\<exists>octets m'. sms_pdu_make_smssubmit m = Some (int (length octets), concat (map show_hex2 octets)) \<and>
     sms_pdu_to_msg dst octets (int (length octets) - 1) (int (length octets)) = Some (0, m') \<and>
     ga_type (sl_addr m') = ga_type (sub_addr m) \<and>
     cstr_of_array (ga_number (sl_addr m')) = Some num \<and>
     sms_tp_mti (sl_payload m') = GSMD_SMS_TP_MTI_SUBMIT \<and>
     sms_has_header (sl_payload m') = sms_has_header (sub_payload m) \<and>
     sms_coding_scheme (sl_payload m') = sms_coding_scheme (sub_payload m) \<and>
     sms_length (sl_payload m') = sms_length (sub_payload m) \<and>
     take n (sms_data (sl_payload m')) = take n (sms_data (sub_payload m))"
  using submit_roundtrip[OF assms] by blast


lemma sms_submit_roundtrip_witness:
  "\<exists>octets m'.
     sms_pdu_make_smssubmit \<lparr>sub_addr = \<lparr>ga_type = 0x91, ga_number = ''12345'' @ replicate 28 NUL\<rparr>,
       sub_payload = sms_zero\<lparr>sms_length := 2, sms_coding_scheme := 4, sms_data := [7, 9]\<rparr>, sub_ask_ds = True\<rparr> =
       Some (int (length octets), concat (map show_hex2 octets)) \<and>
     sms_pdu_to_msg sms_list_zero octets (int (length octets) - 1) (int (length octets)) = Some (0, m') \<and>
     cstr_of_array (ga_number (sl_addr m')) = Some ''12345'' \<and> take 2 (sms_data (sl_payload m')) = [7, 9]"
proof -
  let ?m = "\<lparr>sub_addr = \<lparr>ga_type = 0x91, ga_number = ''12345'' @ replicate 28 NUL\<rparr>,
       sub_payload = sms_zero\<lparr>sms_length := 2, sms_coding_scheme := 4, sms_data := [7, 9]\<rparr>, sub_ask_ds = True\<rparr>"
  have pre: "cstr_of_array (ga_number (sub_addr ?m)) = Some ''12345''" "\<forall>c \<in> set ''12345''. isdigit c"
    "length ''12345'' \<le> GSMD_ADDR_MAXLEN" "ga_type (sub_addr ?m) AND 0x70 \<noteq> 0x50"
    "sms_coding_scheme (sub_payload ?m) \<in> {0, 4, 8}" "sms_length (sub_payload ?m) \<noteq> 0"
    "2 = sms_data_bytelen (sms_coding_scheme (sub_payload ?m)) (sms_length (sub_payload ?m))"
    "2 \<le> GSMD_SMS_DATA_MAXLEN" "2 \<le> length (sms_data (sub_payload ?m))"
    by (simp_all add: cstr_of_array_def cstr_def isdigit_def ord_c_def GSMD_ADDR_MAXLEN_def
        GSMD_SMS_DATA_MAXLEN_def sms_data_bytelen_def)
  obtain octets m' where o:
    "sms_pdu_make_smssubmit ?m = Some (int (length octets), concat (map show_hex2 octets))"
    "sms_pdu_to_msg sms_list_zero octets (int (length octets) - 1) (int (length octets)) = Some (0, m')"
    "cstr_of_array (ga_number (sl_addr m')) = Some ''12345''"
    "take 2 (sms_data (sl_payload m')) = take 2 (sms_data (sub_payload ?m))"
    using sms_submit_roundtrip[OF pre msg_wf_zero] by blast
  have "take 2 (sms_data (sl_payload m')) = [7, 9]" using o(4) by simp
  with o(1-3) show ?thesis by blast
qed

definition all_octets :: "u8 list" where
  "all_octets = map of_nat [0..<256]"

lemma all_octets_complete: "d \<in> set all_octets"
proof -
  have "unat d < 256" using unsigned_less[of d] by simp
  then show ?thesis unfolding all_octets_def by (auto intro!: image_eqI[of d _ "unat d"])
qed

lemma dcs_agree_check:
  "list_all (\<lambda>d. case dcs_coding_scheme d of None \<Rightarrow> True
     | Some cs \<Rightarrow> drop_bit 4 d = 0xc \<or> cs = 12 \<or>
         cs = push_bit 2 (dcs_alphabet (sms_pdu_decode_dcs (sms_dcs sms_zero) d))) all_octets"
  by code_simp

lemma decode_dcs_alphabet_indep: "dcs_alphabet (sms_pdu_decode_dcs x d) = dcs_alphabet (sms_pdu_decode_dcs y d)"
  by (simp add: sms_pdu_decode_dcs_def Let_def)

text \<open>
  The two readings of TP-DCS agree: outside the message-waiting group "discard" and the
  reserved alphabet, the alphabet recorded by \<open>sms_pdu_decode_dcs\<close> is the coding scheme
  by which the length of the text is computed.
\<close>

lemma dcs_alphabet_agrees:
  assumes "dcs_coding_scheme d = Some cs" and "drop_bit 4 d \<noteq> 0xc" and "cs \<noteq> 12"
  shows "cs = push_bit 2 (dcs_alphabet (sms_pdu_decode_dcs dcs d))"
  using assms dcs_agree_check all_octets_complete[of d] decode_dcs_alphabet_indep[of dcs d "sms_dcs sms_zero"]
  by (auto simp: list_all_iff)

lemma dcs_alphabet_agrees_witness:
  "(8 :: u8) = push_bit 2 (dcs_alphabet (sms_pdu_decode_dcs (sms_dcs sms_zero) 0x18))"
  by (rule dcs_alphabet_agrees) code_simp+

text \<open>
  In the group "discard" they do not: the active bit of the indication is read as part
  of an alphabet, so the text of a voice mail indication that switches the icon on (octet
  0xC8) is taken as UCS2 while \<open>sms_pdu_decode_dcs\<close> records the default alphabet.
\<close>

lemma dcs_discard_group_disagrees:
  "dcs_coding_scheme 0xC8 = Some ALPHABET_UCS2 \<and> dcs_alphabet (sms_pdu_decode_dcs dcs 0xC8) = 0 \<and>
   dcs_mwi_group (sms_pdu_decode_dcs dcs 0xC8) = 1 \<and> dcs_mwi_active (sms_pdu_decode_dcs dcs 0xC8) = 1"
  by (simp add: sms_pdu_decode_dcs_def dcs_coding_scheme_def Let_def)


text \<open>
  Cell broadcast fields. A page of 88 octets is taken apart as GSM 03.41 lays it out: the
  serial number into scope, message code and update number, then message identifier,
  language, alphabet and page numbers, and 82 octets of text; anything else is refused.
\<close>

lemma cbs_pdu_fields:
  assumes "length src = 88" and "length (cbm_data dst) = 82"
    and "serial = 256 * unat (src ! 0) + unat (src ! 1)"
  shows "\<exists>m. cbs_pdu_to_msg dst src 88 88 = Some (0, m) \<and>
    cbm_scope m = serial div 16384 \<and> cbm_msg_code m = serial div 16 mod 1024 \<and>
    cbm_update_num m = serial mod 16 \<and>
    unat (cbm_msg_id m) = 256 * unat (src ! 2) + unat (src ! 3) \<and>
    cbm_language m = unat (src ! 4) mod 16 \<and>
    cbm_pages m = unat (src ! 5) mod 16 \<and> cbm_page m = unat (src ! 5) div 16 \<and>
    cbm_data m = drop 6 src"
proof -
  note b = unat_u8_less[of "src ! 0"] unat_u8_less[of "src ! 1"]
  have ser: "serial div 16 = unat (src ! 0) * 16 + unat (src ! 1) div 16" using assms(3) by linarith
  have "drop_bit 4 (unat (src ! 1)) < 2 ^ 4" using b(2) by (simp add: drop_bit_eq_div)
  then have code: "(push_bit 4 (unat (src ! 0)) OR drop_bit 4 (unat (src ! 1))) AND 1023 = serial div 16 mod 1024"
    using ser by (simp add: nat_or_shift nat_and_low drop_bit_eq_div)
  have scope: "drop_bit 6 (unat (src ! 0)) AND 3 = serial div 16384"
    using assms(3) b by (simp add: nat_and_low drop_bit_eq_div)
  have "serial = unat (src ! 1) + 16 * (16 * unat (src ! 0))" using assms(3) by simp
  then have upd: "unat (src ! 1) AND 15 = serial mod 16" by (simp only: nat_and_low mod_mult_self2)
  have rds: "rd src 0 = Some (src ! 0)" "rd src 1 = Some (src ! 1)" "rd src 2 = Some (src ! 2)"
    "rd src 3 = Some (src ! 3)" "rd src 4 = Some (src ! 4)" "rd src 5 = Some (src ! 5)"
    "rd_n src 6 82 = Some (drop 6 src)" "memcpy (cbm_data dst) 0 (drop 6 src) = Some (drop 6 src)"
    using assms(1,2) by simp_all
  have page: "drop_bit 4 (unat (src ! 5)) = unat (src ! 5) div 16" by (simp add: drop_bit_eq_div)
  have id: "unat (push_bit 8 (ucast (src ! 2)) OR ucast (src ! 3) :: u16) = 256 * unat (src ! 2) + unat (src ! 3)"
    by (simp only: unat_msg_id mult.commute)
  show ?thesis
    by (rule exI, rule conjI, simp only: cbs_pdu_to_msg_def CBM_MAX_PDU_SIZE_def rds, simp add: rds)
      (simp add: code[unfolded One_nat_def] scope upd[unfolded One_nat_def] id page nat_and_low(2)[of "unat (src ! 4)"]
        nat_and_low(2)[of "unat (src ! 5)"])
qed

lemma cbs_pdu_fields_witness:
  "\<exists>m. cbs_pdu_to_msg \<lparr>cbm_scope = 0, cbm_msg_code = 0, cbm_update_num = 0, cbm_msg_id = 0, cbm_language = 0,
         cbm_coding_scheme = 0, cbm_pages = 0, cbm_page = 0, cbm_data = replicate 82 0\<rparr>
       (0x41 # 0x23 # replicate 86 0) 88 88 = Some (0, m) \<and> cbm_scope m = 1 \<and> cbm_msg_code m = 18 \<and>
     cbm_update_num m = 3"
  using cbs_pdu_fields[of "0x41 # 0x23 # replicate 86 0"
      "\<lparr>cbm_scope = 0, cbm_msg_code = 0, cbm_update_num = 0, cbm_msg_id = 0, cbm_language = 0,
         cbm_coding_scheme = 0, cbm_pages = 0, cbm_page = 0, cbm_data = replicate 82 0\<rparr>" 16675]
  by fastforce

end
