(* ===== verification/Gsmd.thy ===== *)
theory Gsmd
  imports Llparse OpCache Timer SmsPdu
begin

text \<open>
  The state of the daemon: \<open>struct gsmd\<close>, \<open>struct gsmd_user\<close> and \<open>struct gsmd_atcmd\<close> of
  \<open>include/gsmd/gsmd.h\<close>, \<open>struct gsmd_device_state\<close> of \<open>include/gsmd/state.h\<close> and the
  messages to clients of \<open>include/gsmd/usock.h\<close>.  Objects that the code refers to by
  pointer (users, commands, timers) carry an address; function pointers are constructors
  of a datatype with one constructor per function that the code installs.  The intrusive
  lists are lists of the objects themselves.  Sizes are those of the 32-bit ABI of the phone.
\<close>

section \<open>Commands\<close>

text \<open>The callbacks of AT commands.\<close>

datatype at_cb =
    Gsmd_alive_cb | Gsmd_test_atcb | Gsmd_get_imsi_cb | Firstcmd_atcb
  | Null_wakeup_cb | Cpi_detect_cb
  | Usock_cmd_cb | Usock_ringing_cb | Null_cmd_cb
  | Voicecall_get_stat_cb | Voicecall_ctrl_cb | Voicecall_fwd_stat_cb
  | Pin_cmd_cb | Get_cpin_cb
  | Phone_powerup_cb | Phone_powerdown_cb | Phone_power_status_cb | Phone_get_manuf_cb
  | Phone_get_model_cb | Phone_get_revision_cb | Phone_get_serial_cb | Phone_get_battery_cb
  | Phone_vibrator_enable_cb | Phone_vibrator_disable_cb
  | Network_query_reg_cb | Network_vmail_cb | Network_sigq_cb | Network_oper_cb | Network_oper_n_cb
  | Network_opers_cb | Network_pref_opers_cb | Network_pref_num_cb | Network_ownnumbers_cb
  | Phonebook_find_cb | Phonebook_read_cb | Phonebook_readrg_cb | Phonebook_write_cb
  | Phonebook_delete_cb | Phonebook_get_support_cb | Phonebook_list_storage_cb
  | Sms_list_cb | Sms_read_cb | Sms_send_cb | Sms_write_cb | Sms_delete_cb | Usock_cpms_cb
  | Usock_get_smsc_cb

text \<open>The \<open>void *ctx\<close> of a command: \<open>NULL\<close>, the daemon, or a user.\<close>

datatype at_ctx = Ctx_null | Ctx_gsmd | Ctx_user nat

text \<open>The functions that create the timer of a command (\<open>create_timer_t\<close>).\<close>

datatype tmr_func = Discard_timer | Alive_timer | Wakeup_timer | Poweroff_timer

record gsmd_atcmd =
  ac_addr :: nat
  ac_ctx :: at_ctx
  ac_cb :: "at_cb option"
  ac_ret :: int
  ac_buflen :: nat
  ac_id :: u16
  ac_flags :: u8
  ac_timeout :: "nat option"
  ac_create_timer :: tmr_func
  ac_cur :: nat
  ac_buf :: "char list"

text \<open>The parsers of unsolicited results (\<open>struct gsmd_unsolicit\<close>), by the file that has them.\<close>

datatype unsol_parse =
    Ring_parse | Cring_parse | Creg_parse | Ccwa_parse | Cusd_parse | Cccm_parse | Cgev_parse
  | Cgreg_parse | Clip_parse | Colp_parse | Ctzv_parse | Copn_parse
  | Cmti_parse | Cmt_parse | Cbmi_parse | Cbm_parse | Cdsi_parse | Cds_parse
  | Csq_parse | Cpri_parse | Cpi_parse | Ti_ctzv_parse | Htccsq_parse | Mrdy_parse | Mtsmenu_parse
  | Wcdma_parse

section \<open>Messages to clients\<close>

text \<open>The members of the union in \<open>struct gsmd_evt_auxdata\<close>.\<close>

datatype evt_aux =
    Aux_call nat
  | Aux_clip gsmd_addr
  | Aux_colp gsmd_addr
  | Aux_sms "char list" bool nat int
  | Aux_cbm bool nat int
  | Aux_ds bool nat int
  | Aux_pin nat
  | Aux_netreg int u16 u16
  | Aux_timezone u8
  | Aux_signal u8 u8
  | Aux_call_status int bool bool "nat option"
  | Aux_cipher u16
  | Aux_cme_err int
  | Aux_cms_err int
  | Aux_ccwa gsmd_addr u8 "char list" u8

text \<open>
  Structures of answers.  Members that the code leaves unset in some answers are \<open>None\<close>
  there: the client receives what the stack held.
\<close>

record gsmd_call_status =
  gcs_idx :: int
  gcs_dir :: "u8 option"
  gcs_stat :: "u8 option"
  gcs_mode :: "u8 option"
  gcs_mpty :: "u8 option"
  gcs_number :: "char list option"
  gcs_type :: "u8 option"
  gcs_alpha :: "char list option"
  gcs_is_last :: bool

record gsmd_call_fwd_stat =
  gcfs_status :: int
  gcfs_classx :: u8
  gcfs_number :: "char list"
  gcfs_addr_type :: "u8 option"
  gcfs_time :: "u8 option"
  gcfs_is_last :: bool

record gsmd_phonebook =
  pb_index :: int
  pb_numb :: "char list option"
  pb_type :: "u8 option"
  pb_text :: "char list option"

text \<open>An element of an array of \<open>struct gsmd_msg_oper\<close>: not set, an operator, the end mark.\<close>

datatype oper_slot = Oper_unset | Oper int "char list" "char list" "char list" | Oper_last

text \<open>
  What a message carries: an event, one followed by a message, text, a number, one of the
  structures of \<open>usock.h\<close>, or, where the code sends a variable it has not set, that many
  octets of stale memory.  Members that the code leaves unset are \<open>None\<close>.
\<close>

datatype ucmd_data =
    Ud_evt evt_aux
  | Ud_evt_sms evt_aux gsmd_sms_list
  | Ud_evt_cbm evt_aux gsmd_cbm
  | Ud_sms gsmd_sms_list
  | Ud_string string
  | Ud_int int
  | Ud_addr gsmd_addr
  | Ud_storage "(nat \<times> u16 \<times> u16) list"
  | Ud_call_status gsmd_call_status
  | Ud_call_fwd_stat gsmd_call_fwd_stat
  | Ud_battery int u8
  | Ud_voicemail u8 gsmd_addr
  | Ud_signal_quality u8 u8
  | Ud_opers "oper_slot list"
  | Ud_prefoper int bool "char list"
  | Ud_own_number bool int gsmd_addr "char list"
  | Ud_phonebook gsmd_phonebook
  | Ud_phonebooks gsmd_phonebook bool
  | Ud_phonebook_support u8 u8 u8
  | Ud_phonebook_storage "char list list"
  | Ud_garbage nat

text \<open>
  \<open>struct gsmd_ucmd\<close>.  \<open>uc_id\<close> is \<open>None\<close> while \<open>hdr.id\<close> has not been set; \<open>uc_valid\<close> is the
  number of payload octets that have been filled from \<open>uc_data\<close>.
\<close>

record gsmd_ucmd =
  uc_msg_type :: nat
  uc_msg_subtype :: nat
  uc_id :: "u16 option"
  uc_len :: nat
  uc_data :: ucmd_data
  uc_valid :: nat

definition sizeof_gsmd_msg_hdr :: nat where "sizeof_gsmd_msg_hdr = 8"
definition sizeof_gsmd_ucmd :: nat where "sizeof_gsmd_ucmd = 16"
definition sizeof_gsmd_evt_auxdata :: nat where "sizeof_gsmd_evt_auxdata = 60"
definition sizeof_gsmd_sms_list :: nat where "sizeof_gsmd_sms_list = 260"
definition sizeof_gsmd_cbm :: nat where "sizeof_gsmd_cbm = 116"
definition sizeof_gsmd_addr :: nat where "sizeof_gsmd_addr = 34"
definition sizeof_gsmd_call_status :: nat where "sizeof_gsmd_call_status = 64"
definition sizeof_gsmd_call_fwd_stat :: nat where "sizeof_gsmd_call_fwd_stat = 62"
definition sizeof_gsmd_battery_charge :: nat where "sizeof_gsmd_battery_charge = 5"
definition sizeof_gsmd_signal_quality :: nat where "sizeof_gsmd_signal_quality = 2"
definition sizeof_gsmd_voicemail :: nat where "sizeof_gsmd_voicemail = 35"
definition sizeof_gsmd_msg_oper :: nat where "sizeof_gsmd_msg_oper = 40"
definition sizeof_gsmd_msg_prefoper :: nat where "sizeof_gsmd_msg_prefoper = 24"
definition sizeof_gsmd_own_number :: nat where "sizeof_gsmd_own_number = 44"
definition sizeof_gsmd_phonebook :: nat where "sizeof_gsmd_phonebook = 62"
definition sizeof_gsmd_phonebooks :: nat where "sizeof_gsmd_phonebooks = 63"
definition sizeof_gsmd_phonebook_support :: nat where "sizeof_gsmd_phonebook_support = 3"
definition sizeof_gsmd_phonebook_storage :: nat where "sizeof_gsmd_phonebook_storage = 161"
definition sizeof_gsmd_sms_storage :: nat where "sizeof_gsmd_sms_storage = 24"

section \<open>Users\<close>

record gsmd_user =
  gu_addr :: nat
  gu_finished_ucmds :: "gsmd_ucmd list"
  gu_when :: u32
  gu_subscriptions :: u32

definition GSMD_FD_READ :: u32 where "GSMD_FD_READ = 0x0001"
definition GSMD_FD_WRITE :: u32 where "GSMD_FD_WRITE = 0x0002"
definition GSMD_FD_EXCEPT :: u32 where "GSMD_FD_EXCEPT = 0x0004"

section \<open>The daemon\<close>

datatype machine = Machine_generic | Machine_gta01 | Machine_telit | Machine_tihtc

datatype vendor = Vendor_ti | Vendor_tihtc | Vendor_bcm | Vendor_qc | Vendor_telit

record gsmd_device_state =
  ds_ciph_ind_flags :: u32
  ds_vibrator :: bool
  ds_on :: bool
  ds_registered :: bool
  ds_ringing :: bool
  ds_ring_check :: "nat option"

definition MLPARSE_BUF_SIZE :: nat where "MLPARSE_BUF_SIZE = 65535"
definition GSMD_FLAG_V0 :: u32 where "GSMD_FLAG_V0 = 0x0001"
definition GSMD_ATCMD_TIMEOUT :: int where "GSMD_ATCMD_TIMEOUT = 60"

text \<open>
  \<open>struct gsmd\<close>, followed by the state outside it: the timers of \<open>timer.c\<close>, the table of
  \<open>unsolicited.c\<close> as prefixes with their handlers' names, the octets written to the modem,
  the addresses given out so far, which of the coming allocations fail (no further one does
  when the list is used up), and the status the daemon has exited with.
\<close>

record gsmd =
  g_flags :: u32
  g_interpreter_ready :: bool
  g_uart_when :: u32
  g_llp :: llparser
  g_users :: "gsmd_user list"
  g_pending_atcmds :: "gsmd_atcmd list"
  g_busy_atcmds :: "gsmd_atcmd list"
  g_machinepl :: machine
  g_vendorpl :: vendor
  g_dev_state :: gsmd_device_state
  g_operators :: "opname list"
  g_unsolicit :: "(string \<times> unsol_parse) list"
  g_mlbuf :: "char list"
  g_mlbuf_len :: nat
  g_mlunsolicited :: bool
  g_alive_responded :: bool
  g_imsi :: "char list"
  g_timers :: timer_state
  g_uart_out :: "char list"
  g_next_addr :: nat
  g_talloc_fails :: "bool list"
  g_exit :: "int option"

definition talloc :: "gsmd \<Rightarrow> bool \<times> gsmd" where
  "talloc g = (case g_talloc_fails g of
      [] \<Rightarrow> (True, g)
    | f # fs \<Rightarrow> (\<not> f, g\<lparr>g_talloc_fails := fs\<rparr>))"

text \<open>The characters that start an extended response besides the plus sign.\<close>

fun ext_chars :: "vendor \<Rightarrow> string" where
  "ext_chars Vendor_ti = ''%@''"
| "ext_chars Vendor_tihtc = ''%''"
| "ext_chars Vendor_bcm = ''*''"
| "ext_chars Vendor_qc = ''@[''"
| "ext_chars Vendor_telit = ''%#$''"

section \<open>Updating one user\<close>

definition upd_user :: "nat \<Rightarrow> (gsmd_user \<Rightarrow> gsmd_user) \<Rightarrow> gsmd \<Rightarrow> gsmd option" where
  "upd_user a f g =
     (if a \<in> gu_addr ` set (g_users g)
      then Some (g\<lparr>g_users := map (\<lambda>u. if gu_addr u = a then f u else u) (g_users g)\<rparr>) else None)"

text \<open>\<open>talloc\<close> changes nothing but the list of failures to come.\<close>

lemma talloc_eq: "snd (talloc g) = g\<lparr>g_talloc_fails := tl (g_talloc_fails g)\<rparr>"
  by (simp add: talloc_def split: list.split)

lemma talloc_no_failure [simp]: "g_talloc_fails g = [] \<Longrightarrow> talloc g = (True, g)"
  by (simp add: talloc_def)

end
