(* ===== verification/Atcmd.thy ===== *)
theory Atcmd
  imports Gsmd
begin

text \<open>
  The command queues of \<open>src/gsmd/atcmd.c\<close>: filling and submitting a command, writing it
  to the modem line by line, completing it when the final result code, a timeout or a
  cancellation arrives, and dropping the commands of a client that has gone; and the
  wake-up commands that \<open>src/gsmd/machine_gta01.c\<close> puts in front of every command.  The
  callbacks of commands are reached through a dispatch function.
\<close>

unbundle bit_operations_syntax

section \<open>Waking the queue\<close>

definition atcmd_wake_pending_queue :: "gsmd \<Rightarrow> gsmd" where
  "atcmd_wake_pending_queue g = g\<lparr>g_uart_when := g_uart_when g OR GSMD_FD_WRITE\<rparr>"

definition atcmd_wait_pending_queue :: "gsmd \<Rightarrow> gsmd" where
  "atcmd_wait_pending_queue g = g\<lparr>g_uart_when := g_uart_when g AND NOT GSMD_FD_WRITE\<rparr>"

text \<open>The test that ends \<open>atcmd_submit\<close>, \<open>atcmd_done\<close> and the timeout functions.\<close>

definition wake_if_idle :: "gsmd \<Rightarrow> gsmd" where
  "wake_if_idle g =
     (if g_busy_atcmds g = [] \<and> g_pending_atcmds g \<noteq> [] then atcmd_wake_pending_queue g else g)"

section \<open>Timers of commands\<close>

definition create_timer :: "tmr_func \<Rightarrow> gsmd \<Rightarrow> nat option \<times> gsmd" where
  "create_timer f g =
     (let (ok, g1) = talloc g;
          poweroff = (case g_machinepl g of Machine_telit \<Rightarrow> 6 | _ \<Rightarrow> 3);
          (expires, cb) = (case f of
              Discard_timer \<Rightarrow> (tv GSMD_ATCMD_TIMEOUT 0, Discard_timeout)
            | Alive_timer \<Rightarrow> (tv 30 0, Alive_tmr_cb)
            | Wakeup_timer \<Rightarrow> (tv 3 0, Wakeup_timeout)
            | Poweroff_timer \<Rightarrow> (tv poweroff 0, Poweroff_timeout));
          (t, ts) = gsmd_timer_create ok expires cb (g_timers g1)
      in (t, g1\<lparr>g_timers := ts\<rparr>))"

text \<open>\<open>remove_timer\<close> as far as the timers go; the caller drops the command's pointer.\<close>

definition remove_timer :: "gsmd_atcmd \<Rightarrow> gsmd \<Rightarrow> gsmd option" where
  "remove_timer cmd g =
     (case ac_timeout cmd of
        None \<Rightarrow> Some g
      | Some t \<Rightarrow> map_option (\<lambda>ts. g\<lparr>g_timers := ts\<rparr>) (gsmd_timer_unregister t (g_timers g)))"

section \<open>Filling and submitting\<close>

text \<open>
  \<open>atcmd_fill\<close>: the buffer has \<open>buflen\<close> bytes, \<open>strncpy\<close> fills all but the last and pads
  with zeros.  A length of zero writes in front of the buffer.
\<close>

definition atcmd_fill ::
  "string \<Rightarrow> int \<Rightarrow> at_cb option \<Rightarrow> at_ctx \<Rightarrow> u16 \<Rightarrow> tmr_func \<Rightarrow> gsmd \<Rightarrow> (gsmd_atcmd option \<times> gsmd) option" where
  "atcmd_fill cmd rlen cb ctx cid ct g =
     (let buflen = (if rlen > int (length cmd) then nat rlen else length cmd);
          (ok, g1) = talloc g
      in if \<not> ok then Some (None, g1)
         else if buflen = 0 then None
         else let a = g_next_addr g1;
                  buf = take (buflen - 1) cmd @ replicate (buflen - min (length cmd) (buflen - 1)) NUL
              in Some (Some \<lparr>ac_addr = a, ac_ctx = ctx, ac_cb = cb, ac_ret = - 255, ac_buflen = buflen,
                             ac_id = cid, ac_flags = 0, ac_timeout = None, ac_create_timer = ct,
                             ac_cur = 0, ac_buf = buf\<rparr>,
                       g1\<lparr>g_next_addr := a + 1\<rparr>))"

definition add_pending_tail :: "gsmd_atcmd \<Rightarrow> gsmd \<Rightarrow> gsmd" where
  "add_pending_tail cmd g = g\<lparr>g_pending_atcmds := g_pending_atcmds g @ [cmd]\<rparr>"

text \<open>\<open>machine_gta01.c\<close>: the result of \<open>atcmd_fill\<close> is used without a test.\<close>

definition atcmd_wakeup_modem :: "gsmd \<Rightarrow> gsmd option" where
  "atcmd_wakeup_modem g = do {
     (c, g1) \<leftarrow> atcmd_fill ('' '' @ [CR]) 2 (Some Null_wakeup_cb) Ctx_gsmd 0 Wakeup_timer g;
     case c of None \<Rightarrow> None
     | Some cmd \<Rightarrow> Some (wake_if_idle (add_pending_tail cmd g1)) }"

definition ex_submit :: "gsmd \<Rightarrow> gsmd option" where
  "ex_submit g = (case g_machinepl g of Machine_gta01 \<Rightarrow> atcmd_wakeup_modem g | _ \<Rightarrow> Some g)"

definition atcmd_submit :: "gsmd_atcmd \<Rightarrow> gsmd \<Rightarrow> (int \<times> gsmd) option" where
  "atcmd_submit cmd g = do {
     g1 \<leftarrow> ex_submit g;
     Some (0, wake_if_idle (add_pending_tail cmd g1)) }"

section \<open>Completing\<close>

type_synonym at_dispatch = "at_cb \<Rightarrow> gsmd_atcmd \<Rightarrow> string \<Rightarrow> gsmd \<Rightarrow> (int \<times> gsmd) option"

definition del_busy :: "gsmd_atcmd \<Rightarrow> gsmd \<Rightarrow> gsmd" where
  "del_busy cmd g = g\<lparr>g_busy_atcmds := filter (\<lambda>c. ac_addr c \<noteq> ac_addr cmd) (g_busy_atcmds g)\<rparr>"

definition upd_busy :: "gsmd_atcmd \<Rightarrow> gsmd \<Rightarrow> gsmd" where
  "upd_busy cmd g =
     g\<lparr>g_busy_atcmds := map (\<lambda>c. if ac_addr c = ac_addr cmd then cmd else c) (g_busy_atcmds g)\<rparr>"

definition clear_mlbuf :: "gsmd \<Rightarrow> gsmd" where
  "clear_mlbuf g = g\<lparr>g_mlbuf := replicate MLPARSE_BUF_SIZE NUL, g_mlbuf_len := 0\<rparr>"

text \<open>
  The text handed to the callback: what has been collected in \<open>mlbuf\<close>, terminated there,
  or the final result code.
\<close>

definition final_resp :: "string \<Rightarrow> gsmd \<Rightarrow> (string \<times> gsmd) option" where
  "final_resp buf g =
     (if g_mlbuf_len g \<noteq> 0 then
        if g_mlbuf_len g < length (g_mlbuf g) then
          let ml = (g_mlbuf g)[g_mlbuf_len g := NUL] in Some (cstr ml, g\<lparr>g_mlbuf := ml\<rparr>)
        else None
      else Some (buf, g))"

definition atcmd_done :: "at_dispatch \<Rightarrow> gsmd_atcmd \<Rightarrow> string \<Rightarrow> gsmd \<Rightarrow> (int \<times> gsmd) option" where
  "atcmd_done disp cmd0 buf g = do {
     g0 \<leftarrow> remove_timer cmd0 g;
     let cmd = cmd0\<lparr>ac_timeout := None\<rparr>;
     let g1 = upd_busy cmd g0;
     (rc, g4) \<leftarrow> (case ac_cb cmd of
        None \<Rightarrow> Some (0, g1)
      | Some cb \<Rightarrow> do {
          (resp, g2) \<leftarrow> final_resp buf g1;
          (rc, g3) \<leftarrow> disp cb cmd resp g2;
          Some (rc, clear_mlbuf g3) });
     Some (rc, wake_if_idle (del_busy cmd g4)) }"

text \<open>
  \<open>discard_timeout\<close>.  The timer is already out of the list; a command that is not the
  first busy one, or has another timer, is left alone.
\<close>

definition discard_timeout :: "at_dispatch \<Rightarrow> nat \<Rightarrow> gsmd \<Rightarrow> gsmd option" where
  "discard_timeout disp tmr g =
     (case g_busy_atcmds g of
        [] \<Rightarrow> Some g
      | cmd0 # _ \<Rightarrow>
          if ac_timeout cmd0 \<noteq> Some tmr then Some g
          else do {
            let cmd = cmd0\<lparr>ac_timeout := None\<rparr>;
            let g1 = upd_busy cmd g;
            g2 \<leftarrow> (case ac_cb cmd of
               None \<Rightarrow> Some g1
             | Some cb \<Rightarrow> map_option snd (disp cb cmd ''Timeout'' g1));
            Some (wake_if_idle (del_busy cmd g2)) })"

definition wakeup_timeout :: "nat \<Rightarrow> gsmd \<Rightarrow> gsmd" where
  "wakeup_timeout tmr g =
     (case g_busy_atcmds g of
        [] \<Rightarrow> g
      | cmd0 # _ \<Rightarrow>
          if ac_timeout cmd0 \<noteq> Some tmr then g
          else let cmd = cmd0\<lparr>ac_timeout := None\<rparr>; g1 = upd_busy cmd g in
            if c_at (ac_buf cmd) 0 = CHR '' '' then wake_if_idle (del_busy cmd g1) else g1)"

definition cancel_atcmd :: "at_dispatch \<Rightarrow> gsmd_atcmd \<Rightarrow> gsmd \<Rightarrow> (int \<times> gsmd) option" where
  "cancel_atcmd disp cmd g =
     (case g_busy_atcmds g of
        [] \<Rightarrow> atcmd_submit cmd g
      | cur # _ \<Rightarrow>
          let g1 = g\<lparr>g_mlbuf_len := 0\<rparr>;
              g2 = g1\<lparr>g_pending_atcmds := cmd # g_pending_atcmds g1\<rparr>
          in atcmd_done disp cur ''ERROR'' g2)"


section \<open>Writing to the modem\<close>

text \<open>
  The part of \<open>atcmd_select_cb\<close> that runs when the device is writable.  \<open>w\<close> is what
  \<open>write\<close> returns for the command text, \<open>wcr\<close> whether the carriage return that follows,
  whose result is not looked at, is accepted.  The loop over the pending commands ends in
  its first round on every path.
\<close>

definition next_line :: "gsmd_atcmd \<Rightarrow> (nat option \<times> char list) option" where
  "next_line pos = do {
     s \<leftarrow> cstr_of_array (drop (ac_cur pos) (ac_buf pos));
     let cr = strchr s LF;
     if cr = None \<and> ac_buflen pos = 0 then None
     else let len = (case cr of Some k \<Rightarrow> k | None \<Rightarrow> ac_buflen pos - 1) in
       if ac_cur pos + len \<le> length (ac_buf pos)
       then Some (cr, take len (drop (ac_cur pos) (ac_buf pos))) else None }"

definition atcmd_write :: "int \<Rightarrow> bool \<Rightarrow> gsmd \<Rightarrow> (int \<times> gsmd) option" where
  "atcmd_write w wcr g =
     (case g_pending_atcmds g of
        [] \<Rightarrow> Some (0, atcmd_wait_pending_queue g)
      | pos # rest \<Rightarrow> do {
          (cr, line) \<leftarrow> next_line pos;
          if w = 0 then Some (0, atcmd_wait_pending_queue g)
          else if w < 0 then Some (w, g)
          else let rc = (if cr = None \<or> w = int (length line) then nat w + 1 else nat w);
                   pos' = pos\<lparr>ac_buflen := nat (to_u32 (int (ac_buflen pos) - int rc)),
                              ac_cur := ac_cur pos + rc\<rparr>;
                   g1 = g\<lparr>g_uart_out := g_uart_out g @ take (nat w) line @ (if wcr then [CR] else [])\<rparr>
               in if ac_buflen pos' = 0 then
                    let (t, g2) = create_timer (ac_create_timer pos') g1
                    in Some (0, atcmd_wait_pending_queue
                         (g2\<lparr>g_pending_atcmds := rest,
                             g_busy_atcmds := g_busy_atcmds g2 @ [pos'\<lparr>ac_timeout := t\<rparr>]\<rparr>))
                  else let g2 = g1\<lparr>g_pending_atcmds := pos' # rest\<rparr> in
                    if rc < length line then Some (0, g2) else Some (0, atcmd_wait_pending_queue g2) })"

definition atcmd_select_write :: "int \<Rightarrow> bool \<Rightarrow> gsmd \<Rightarrow> (int \<times> gsmd) option" where
  "atcmd_select_write w wcr g = (if g_interpreter_ready g then atcmd_write w wcr g else Some (0, g))"

text \<open>\<open>atcmd_prompt\<close>, called by the line parser for a complete \<open>"> "\<close>.\<close>

definition atcmd_prompt :: "gsmd \<Rightarrow> gsmd" where
  "atcmd_prompt g = atcmd_wake_pending_queue g"

section \<open>Initialisation and clients that go away\<close>

definition atcmd_init :: "gsmd \<Rightarrow> gsmd" where
  "atcmd_init g = g\<lparr>g_uart_when := GSMD_FD_READ, g_pending_atcmds := [], g_busy_atcmds := [],
     g_mlbuf_len := 0, g_mlunsolicited := False, g_alive_responded := False,
     g_llp := (snd (llparse_init (g_llp g)))\<lparr>ll_cur := 0, ll_len := LLPARSE_BUF_SIZE,
                 ll_flags := LGSM_ATCMD_F_EXTENDED\<rparr>\<rparr>"

text \<open>
  The busy commands of the client are told and detached but stay in the list, since the
  modem will still answer; the pending ones are told and removed.  The callback pointer is
  used without a test.
\<close>

fun terminate_busy :: "at_dispatch \<Rightarrow> at_ctx \<Rightarrow> gsmd_atcmd list \<Rightarrow> nat \<times> gsmd \<Rightarrow> (nat \<times> gsmd) option" where
  "terminate_busy disp ctx [] s = Some s"
| "terminate_busy disp ctx (cmd0 # cmds) (num, g) =
     (if ac_ctx cmd0 = ctx then do {
        let cmd = cmd0\<lparr>ac_ret := - ESHUTDOWN\<rparr>;
        cb \<leftarrow> ac_cb cmd;
        (_, g1) \<leftarrow> disp cb cmd ''ERROR'' (upd_busy cmd g);
        terminate_busy disp ctx cmds (num + 1, upd_busy (cmd\<lparr>ac_cb := None, ac_ctx := Ctx_null\<rparr>) g1) }
      else terminate_busy disp ctx cmds (num, g))"

definition cmd_at :: "nat \<Rightarrow> gsmd_atcmd list \<Rightarrow> (gsmd_atcmd \<times> nat option) option" where
  "cmd_at a cs =
     (case dropWhile (\<lambda>c. ac_addr c \<noteq> a) cs of
        [] \<Rightarrow> None
      | c # [] \<Rightarrow> Some (c, None)
      | c # c' # _ \<Rightarrow> Some (c, Some (ac_addr c')))"

partial_function (option) terminate_pending ::
  "at_dispatch \<Rightarrow> at_ctx \<Rightarrow> nat option \<Rightarrow> nat \<times> gsmd \<Rightarrow> (nat \<times> gsmd) option" where
  "terminate_pending disp ctx p s =
     (case p of
        None \<Rightarrow> Some s
      | Some a \<Rightarrow> do {
          (cmd0, nxt) \<leftarrow> cmd_at a (g_pending_atcmds (snd s));
          if ac_ctx cmd0 = ctx then do {
            let g1 = (snd s)\<lparr>g_pending_atcmds := filter (\<lambda>c. ac_addr c \<noteq> a) (g_pending_atcmds (snd s))\<rparr>;
            let cmd = cmd0\<lparr>ac_ret := - ESHUTDOWN\<rparr>;
            cb \<leftarrow> ac_cb cmd;
            (_, g2) \<leftarrow> disp cb cmd ''ERROR'' g1;
            terminate_pending disp ctx nxt (fst s + 1, g2) }
          else terminate_pending disp ctx nxt s })"

definition first_addr :: "gsmd_atcmd list \<Rightarrow> nat option" where
  "first_addr cs = (case cs of [] \<Rightarrow> None | c # _ \<Rightarrow> Some (ac_addr c))"

definition atcmd_terminate_matching :: "at_dispatch \<Rightarrow> at_ctx \<Rightarrow> gsmd \<Rightarrow> (nat \<times> gsmd) option" where
  "atcmd_terminate_matching disp ctx g = do {
     (num, g1) \<leftarrow> terminate_busy disp ctx (g_busy_atcmds g) (0, g);
     terminate_pending disp ctx (first_addr (g_pending_atcmds g1)) (num, g1) }"


section \<open>Well-formed queues\<close>

text \<open>A command that still has to be sent: what remains is the rest of its buffer.\<close>

definition cmd_wf :: "gsmd_atcmd \<Rightarrow> bool" where
  "cmd_wf c \<longleftrightarrow> length (ac_buf c) = ac_cur c + ac_buflen c \<and> 0 < ac_buflen c \<and>
     ac_buf c ! (length (ac_buf c) - 1) = NUL \<and> int (ac_buflen c) < 4294967296 \<and> ac_timeout c = None"

text \<open>
  The callbacks that answer a client take the client from the context of the command.  A
  command is live when its client, if it has one, is still there, has one when its callback
  needs it, and its text is long enough for the one callback that looks into it.
\<close>

definition user_cb :: "at_cb \<Rightarrow> bool" where
  "user_cb cb \<longleftrightarrow> cb \<notin> {Gsmd_alive_cb, Gsmd_test_atcb, Gsmd_get_imsi_cb, Firstcmd_atcb, Null_wakeup_cb,
     Cpi_detect_cb, Null_cmd_cb}"

definition live_for :: "nat list \<Rightarrow> gsmd_atcmd \<Rightarrow> bool" where
  "live_for us c \<longleftrightarrow> (\<forall>a. ac_ctx c = Ctx_user a \<longrightarrow> a \<in> set us) \<and>
     (\<forall>cb. ac_cb c = Some cb \<longrightarrow> user_cb cb \<longrightarrow> (\<exists>a. ac_ctx c = Ctx_user a)) \<and>
     (ac_cb c = Some Network_vmail_cb \<longrightarrow> 7 < length (ac_buf c)) \<and>
     (ac_cb c = Some Sms_read_cb \<longrightarrow> NUL \<in> set (ac_buf c))"

abbreviation user_addrs :: "gsmd \<Rightarrow> nat list" where
  "user_addrs g \<equiv> map gu_addr (g_users g)"

abbreviation cmd_live :: "gsmd \<Rightarrow> gsmd_atcmd \<Rightarrow> bool" where
  "cmd_live g c \<equiv> live_for (user_addrs g) c"

lemma live_for_cong [simp]:
  "live_for us (c\<lparr>ac_timeout := t\<rparr>) = live_for us c" "live_for us (c\<lparr>ac_ret := r\<rparr>) = live_for us c"
  "live_for us (c\<lparr>ac_buflen := n, ac_cur := m\<rparr>) = live_for us c"
  by (simp_all add: live_for_def)

lemma live_for_daemon: "ac_ctx c \<in> {Ctx_null, Ctx_gsmd} \<Longrightarrow> (\<forall>cb. ac_cb c = Some cb \<longrightarrow> \<not> user_cb cb) \<Longrightarrow> live_for us c"
  by (auto simp: live_for_def user_cb_def)

definition at_wf :: "gsmd \<Rightarrow> bool" where
  "at_wf g \<longleftrightarrow> distinct (map ac_addr (g_pending_atcmds g @ g_busy_atcmds g)) \<and>
     (\<forall>c \<in> set (g_pending_atcmds g @ g_busy_atcmds g). ac_addr c < g_next_addr g) \<and>
     (\<forall>c \<in> set (g_pending_atcmds g). cmd_wf c) \<and>
     (\<forall>c \<in> set (g_pending_atcmds g @ g_busy_atcmds g). cmd_live g c) \<and>
     timers_wf (g_timers g) \<and>
     (\<forall>c \<in> set (g_busy_atcmds g). \<forall>t. ac_timeout c = Some t \<longrightarrow> t \<in> tmr_addr ` set (ts_timers (g_timers g)))"

definition want_write :: "gsmd \<Rightarrow> bool" where
  "want_write g \<longleftrightarrow> g_uart_when g AND GSMD_FD_WRITE \<noteq> 0"

text \<open>At most one command is with the modem, and while one is, nothing is written.\<close>

definition single_flight :: "gsmd \<Rightarrow> bool" where
  "single_flight g \<longleftrightarrow> length (g_busy_atcmds g) \<le> 1 \<and> (want_write g \<longrightarrow> g_busy_atcmds g = [])"

definition llp_frame :: "llparser \<Rightarrow> llparser \<Rightarrow> bool" where
  "llp_frame l l' \<longleftrightarrow> l' = l\<lparr>ll_flags := ll_flags l'\<rparr> \<and>
     (flag (ll_flags l) LGSM_ATCMD_F_EXTENDED \<longrightarrow> flag (ll_flags l') LGSM_ATCMD_F_EXTENDED)"

lemma llp_frame_refl [simp]: "llp_frame l l"
  by (simp add: llp_frame_def)

lemma llp_frame_trans: "llp_frame a b \<Longrightarrow> llp_frame b c \<Longrightarrow> llp_frame a c"
  by (cases a, cases b, cases c) (simp add: llp_frame_def)

text \<open>
  What may happen to the queues: commands that are live are appended, nothing else; the
  step does not touch the collected response, the timers, the list of clients (but their
  messages), the pointer to the ring timer, or the state of the line parser except its
  flags.
\<close>

definition queue_frame :: "gsmd \<Rightarrow> gsmd \<Rightarrow> bool" where
  "queue_frame g g' \<longleftrightarrow> g_busy_atcmds g' = g_busy_atcmds g \<and> g_next_addr g \<le> g_next_addr g' \<and>
     (\<exists>new. g_pending_atcmds g' = g_pending_atcmds g @ new \<and> distinct (map ac_addr new) \<and>
        (\<forall>c \<in> set new. cmd_wf c \<and> cmd_live g c \<and> g_next_addr g \<le> ac_addr c \<and> ac_addr c < g_next_addr g')) \<and>
     user_addrs g' = user_addrs g \<and>
     g_timers g' = g_timers g \<and> g_mlbuf g' = g_mlbuf g \<and> g_mlbuf_len g' = g_mlbuf_len g \<and>
     (g_busy_atcmds g \<noteq> [] \<longrightarrow> g_uart_when g' = g_uart_when g) \<and>
     ds_ring_check (g_dev_state g') = ds_ring_check (g_dev_state g) \<and> g_exit g' = g_exit g \<and>
     length (g_imsi g') = length (g_imsi g) \<and> (g_talloc_fails g = [] \<longrightarrow> g_talloc_fails g' = []) \<and>
     llp_frame (g_llp g) (g_llp g')"

lemma queue_frame_refl [simp]: "queue_frame g g"
  by (auto simp: queue_frame_def)

lemma queue_frame_trans:
  assumes "queue_frame a b" and "queue_frame b c"
  shows "queue_frame a c"
proof -
  obtain n1 where n1: "g_pending_atcmds b = g_pending_atcmds a @ n1" "distinct (map ac_addr n1)"
    "\<forall>c \<in> set n1. cmd_wf c \<and> cmd_live a c \<and> g_next_addr a \<le> ac_addr c \<and> ac_addr c < g_next_addr b"
    using assms(1) by (auto simp: queue_frame_def)
  obtain n2 where n2: "g_pending_atcmds c = g_pending_atcmds b @ n2" "distinct (map ac_addr n2)"
    "\<forall>x \<in> set n2. cmd_wf x \<and> cmd_live b x \<and> g_next_addr b \<le> ac_addr x \<and> ac_addr x < g_next_addr c"
    using assms(2) by (auto simp: queue_frame_def)
  have le: "g_next_addr a \<le> g_next_addr b" "g_next_addr b \<le> g_next_addr c"
    and us: "map gu_addr (g_users b) = map gu_addr (g_users a)"
    using assms by (auto simp: queue_frame_def)
  have "distinct (map ac_addr (n1 @ n2))" using n1(2,3) n2(2,3) by fastforce
  moreover have "\<forall>x \<in> set (n1 @ n2). cmd_wf x \<and> cmd_live a x \<and> g_next_addr a \<le> ac_addr x \<and> ac_addr x < g_next_addr c"
    using n1(3) n2(3) le us by fastforce
  ultimately have "\<exists>new. g_pending_atcmds c = g_pending_atcmds a @ new \<and> distinct (map ac_addr new) \<and>
      (\<forall>x \<in> set new. cmd_wf x \<and> cmd_live a x \<and> g_next_addr a \<le> ac_addr x \<and> ac_addr x < g_next_addr c)"
    using n1(1) n2(1) by (intro exI[of _ "n1 @ n2"]) auto
  then show ?thesis using assms le by (auto simp: queue_frame_def intro: llp_frame_trans)
qed

lemma queue_frame_wf:
  assumes "queue_frame g g'" and "at_wf g"
  shows "at_wf g'"
proof -
  obtain new where new: "g_pending_atcmds g' = g_pending_atcmds g @ new" "distinct (map ac_addr new)"
    "\<forall>c \<in> set new. cmd_wf c \<and> cmd_live g c \<and> g_next_addr g \<le> ac_addr c \<and> ac_addr c < g_next_addr g'"
    and busy: "g_busy_atcmds g' = g_busy_atcmds g" and le: "g_next_addr g \<le> g_next_addr g'"
    and tm: "g_timers g' = g_timers g" and us: "user_addrs g' = user_addrs g"
    using assms(1) unfolding queue_frame_def by blast
  have old: "\<forall>c \<in> set (g_pending_atcmds g @ g_busy_atcmds g). ac_addr c < g_next_addr g"
    using assms(2) by (simp add: at_wf_def)
  then have "ac_addr ` set new \<inter> ac_addr ` set (g_pending_atcmds g @ g_busy_atcmds g) = {}"
    using new(3) by fastforce
  then have "distinct (map ac_addr (g_pending_atcmds g' @ g_busy_atcmds g'))"
    using assms(2) new(1,2) busy by (auto simp: at_wf_def)
  moreover have "\<forall>c \<in> set (g_pending_atcmds g' @ g_busy_atcmds g'). ac_addr c < g_next_addr g'"
    using old new(1,3) busy le by (auto dest: less_le_trans)
  ultimately show ?thesis using assms(2) new(1,3) busy tm us by (auto simp: at_wf_def)
qed

lemma queue_frame_busy: "queue_frame g g' \<Longrightarrow> g_busy_atcmds g' = g_busy_atcmds g"
  by (simp add: queue_frame_def)

lemma queue_frame_flight: "queue_frame g g' \<Longrightarrow> single_flight g \<Longrightarrow> single_flight g'"
  by (auto simp: queue_frame_def single_flight_def want_write_def)

section \<open>Submitting keeps the frame\<close>

lemma talloc_frame [simp]: "queue_frame g (snd (talloc g))"
  by (auto simp: talloc_eq queue_frame_def)

lemma wake_if_idle_frame [simp]: "queue_frame g (wake_if_idle g)"
  by (auto simp: queue_frame_def wake_if_idle_def atcmd_wake_pending_queue_def)

lemma fill_buf:
  fixes cs :: string and n :: nat
  defines "b \<equiv> take (n - 1) cs @ replicate (n - min (length cs) (n - 1)) NUL"
  assumes "0 < n"
  shows "length b = n" and "b ! (n - 1) = NUL"
proof -
  show len: "length b = n" using assms by (auto simp: b_def)
  obtain k where "n - min (length cs) (n - 1) = Suc k" using assms(2) by (cases "n - min (length cs) (n - 1)") auto
  then have "b \<noteq> []" "last b = NUL" by (simp_all add: b_def)
  then show "b ! (n - 1) = NUL" using len by (metis last_conv_nth)
qed

lemma atcmd_fill_Some:
  assumes "atcmd_fill cs rlen cb ctx cid ct g = Some (Some cmd, g')"
  shows "g' = (snd (talloc g))\<lparr>g_next_addr := g_next_addr g + 1\<rparr>"
    and "ac_addr cmd = g_next_addr g" and "ac_ctx cmd = ctx" and "ac_cb cmd = cb" and "ac_timeout cmd = None"
    and "rlen < 4294967296 \<Longrightarrow> int (length cs) < 4294967296 \<Longrightarrow> cmd_wf cmd"
  using assms fill_buf[of "ac_buflen cmd" cs]
  by (auto simp: atcmd_fill_def Let_def talloc_eq cmd_wf_def split_beta nth_append split: if_splits)

lemma queue_frame_alloc [simp]: "queue_frame g ((snd (talloc g))\<lparr>g_next_addr := g_next_addr g + 1\<rparr>)"
  by (simp add: talloc_eq queue_frame_def)

text \<open>A command just allocated, possibly rewritten by its creator, but not submitted yet.\<close>

definition fresh_cmd :: "gsmd \<Rightarrow> gsmd_atcmd \<Rightarrow> gsmd \<Rightarrow> bool" where
  "fresh_cmd g cmd g1 \<longleftrightarrow> cmd_wf cmd \<and> cmd_live g cmd \<and> ac_addr cmd = g_next_addr g \<and>
     g1 = (snd (talloc g))\<lparr>g_next_addr := g_next_addr g + 1\<rparr>"

lemma atcmd_fill_fresh:
  assumes "atcmd_fill cs rlen cb ctx cid ct g = Some (Some cmd, g1)"
    and "rlen < 4294967296" and "int (length cs) < 4294967296" and "cmd_live g cmd"
  shows "fresh_cmd g cmd g1"
  using atcmd_fill_Some[OF assms(1)] assms(2-4) by (simp add: fresh_cmd_def)

lemma atcmd_fill_fresh_daemon:
  assumes "atcmd_fill cs rlen cb ctx cid ct g = Some (Some cmd, g1)"
    and "rlen < 4294967296" and "int (length cs) < 4294967296"
    and "ctx \<in> {Ctx_null, Ctx_gsmd}" and "\<forall>x. cb = Some x \<longrightarrow> \<not> user_cb x"
  shows "fresh_cmd g cmd g1"
  using assms atcmd_fill_Some(3,4)[OF assms(1)] by (intro atcmd_fill_fresh[OF assms(1)] live_for_daemon) auto

lemma add_pending_frame:
  assumes "fresh_cmd g cmd g1" and "queue_frame g1 g2"
  shows "queue_frame g (add_pending_tail cmd g2)"
proof -
  have g1: "queue_frame g g1" "g_next_addr g1 = g_next_addr g + 1" "g_pending_atcmds g1 = g_pending_atcmds g"
    "g_busy_atcmds g1 = g_busy_atcmds g"
    and us: "map gu_addr (g_users g1) = map gu_addr (g_users g)"
    using assms(1) by (auto simp: fresh_cmd_def talloc_eq queue_frame_def)
  obtain new where new: "g_pending_atcmds g2 = g_pending_atcmds g1 @ new" "distinct (map ac_addr new)"
    "\<forall>c \<in> set new. cmd_wf c \<and> cmd_live g1 c \<and> g_next_addr g1 \<le> ac_addr c \<and> ac_addr c < g_next_addr g2"
    and le: "g_next_addr g1 \<le> g_next_addr g2"
    using assms(2) unfolding queue_frame_def by blast
  let ?n = "new @ [cmd]"
  have "distinct (map ac_addr ?n)" using new(2,3) assms(1) g1(2) by (fastforce simp: fresh_cmd_def)
  moreover have "\<forall>c \<in> set ?n. cmd_wf c \<and> cmd_live g c \<and> g_next_addr g \<le> ac_addr c \<and> ac_addr c < g_next_addr g2"
    using new(3) assms(1) g1(2) le us by (auto simp: fresh_cmd_def)
  ultimately show ?thesis
    using queue_frame_trans[OF g1(1) assms(2)] new(1) g1(3)
    unfolding queue_frame_def add_pending_tail_def by (intro conjI exI[of _ ?n]) auto
qed

lemma ex_submit_frame: "ex_submit g = Some g' \<Longrightarrow> queue_frame g g'"
proof -
  assume ex: "ex_submit g = Some g'"
  show ?thesis
  proof (cases "g_machinepl g = Machine_gta01")
    case False
    then have "g' = g" using ex by (auto simp: ex_submit_def split: machine.splits)
    then show ?thesis by simp
  next
    case True
    then obtain cmd g1 where fill: "atcmd_fill ('' '' @ [CR]) 2 (Some Null_wakeup_cb) Ctx_gsmd 0 Wakeup_timer g = Some (Some cmd, g1)"
      and g': "g' = wake_if_idle (add_pending_tail cmd g1)"
      using ex by (auto simp: ex_submit_def atcmd_wakeup_modem_def option_bind_Some_iff split: option.splits)
    have "fresh_cmd g cmd g1" by (rule atcmd_fill_fresh_daemon[OF fill]) (simp_all add: user_cb_def)
    from add_pending_frame[OF this queue_frame_refl] show ?thesis
      unfolding g' by (rule queue_frame_trans[OF _ wake_if_idle_frame])
  qed
qed

lemma atcmd_submit_frame:
  assumes "fresh_cmd g cmd g1" and "atcmd_submit cmd g1 = Some (rc, g')"
  shows "queue_frame g g'" and "rc = 0"
proof -
  obtain g2 where g2: "ex_submit g1 = Some g2" "g' = wake_if_idle (add_pending_tail cmd g2)" and rc: "rc = 0"
    using assms(2) by (auto simp: atcmd_submit_def option_bind_Some_iff)
  show "rc = 0" by (rule rc)
  show "queue_frame g g'" unfolding g2(2)
    by (rule queue_frame_trans[OF add_pending_frame[OF assms(1) ex_submit_frame[OF g2(1)]] wake_if_idle_frame])
qed

section \<open>The contract of callbacks\<close>

text \<open>Queue, timers and flags together.\<close>

definition at_inv :: "gsmd \<Rightarrow> bool" where
  "at_inv g \<longleftrightarrow> at_wf g \<and> single_flight g"

lemma at_inv_queue: "queue_frame g g' \<Longrightarrow> at_inv g \<Longrightarrow> at_inv g'"
  by (simp add: at_inv_def queue_frame_wf queue_frame_flight)

text \<open>
  What a callback may do: the same, and the commands it appends are the daemon's own, not
  those of a client.
\<close>

definition of_user :: "gsmd_atcmd \<Rightarrow> bool" where
  "of_user c \<longleftrightarrow> (case ac_ctx c of Ctx_user _ \<Rightarrow> True | _ \<Rightarrow> False)"

definition user_cmds :: "gsmd \<Rightarrow> gsmd_atcmd list" where
  "user_cmds g = filter of_user (g_pending_atcmds g)"

definition cb_frame :: "gsmd \<Rightarrow> gsmd \<Rightarrow> bool" where
  "cb_frame g g' \<longleftrightarrow> queue_frame g g' \<and> user_cmds g' = user_cmds g"

lemmas cb_frame_defs = cb_frame_def queue_frame_def user_cmds_def

lemma cb_frame_queue: "cb_frame g g' \<Longrightarrow> queue_frame g g'"
  by (simp add: cb_frame_def)

lemma cb_frame_refl [simp]: "cb_frame g g"
  by (simp add: cb_frame_def)

lemma cb_frame_trans: "cb_frame a b \<Longrightarrow> cb_frame b c \<Longrightarrow> cb_frame a c"
  by (auto simp: cb_frame_def intro: queue_frame_trans)

lemmas cb_frame_wf = queue_frame_wf[OF cb_frame_queue]
  and cb_frame_busy = queue_frame_busy[OF cb_frame_queue]
  and at_inv_frame = at_inv_queue[OF cb_frame_queue]

lemma user_cmds_simps [simp]:
  "user_cmds (snd (talloc g)) = user_cmds g" "user_cmds (wake_if_idle g) = user_cmds g"
  "user_cmds (g\<lparr>g_next_addr := n\<rparr>) = user_cmds g"
  "\<not> of_user cmd \<Longrightarrow> user_cmds (add_pending_tail cmd g) = user_cmds g"
  by (simp_all add: user_cmds_def talloc_eq wake_if_idle_def atcmd_wake_pending_queue_def add_pending_tail_def)

lemma cb_frame_talloc [simp]: "cb_frame g (snd (talloc g))"
  and cb_frame_wake [simp]: "cb_frame g (wake_if_idle g)"
  by (simp_all add: cb_frame_def)

lemma atcmd_fill_user:
  "atcmd_fill cs rlen cb ctx cid ct g = Some (Some cmd, g') \<Longrightarrow> user_cmds g' = user_cmds g \<and> ac_ctx cmd = ctx"
  using atcmd_fill_Some(1,3)[of cs rlen cb ctx cid ct g cmd g'] by simp

lemma ex_submit_user_cmds: "ex_submit g = Some g' \<Longrightarrow> user_cmds g' = user_cmds g"
  by (auto simp: ex_submit_def atcmd_wakeup_modem_def option_bind_Some_iff of_user_def
      dest!: atcmd_fill_user split: machine.splits option.splits)

lemma atcmd_submit_cb_frame:
  assumes "fresh_cmd g cmd g1" and "\<not> of_user cmd" and "atcmd_submit cmd g1 = Some (rc, g')"
  shows "cb_frame g g'"
proof -
  have "user_cmds g1 = user_cmds g" using assms(1) by (simp add: fresh_cmd_def)
  then have "user_cmds g' = user_cmds g"
    using assms(2,3) by (auto simp: atcmd_submit_def option_bind_Some_iff dest!: ex_submit_user_cmds)
  with atcmd_submit_frame(1)[OF assms(1,3)] show ?thesis by (simp add: cb_frame_def)
qed


lemma at_inv_busy: "at_inv g \<Longrightarrow> g_busy_atcmds g = cmd # rest \<Longrightarrow> rest = [] \<and> \<not> want_write g"
  by (auto simp: at_inv_def single_flight_def)

lemma want_write_simps [simp]:
  "want_write (atcmd_wake_pending_queue g)" "\<not> want_write (atcmd_wait_pending_queue g)"
  by (simp_all add: want_write_def atcmd_wake_pending_queue_def atcmd_wait_pending_queue_def
      GSMD_FD_WRITE_def bit.conj_disj_distrib2 and.assoc)

lemma at_wf_when [simp]:
  "at_wf (atcmd_wake_pending_queue g) = at_wf g" "at_wf (atcmd_wait_pending_queue g) = at_wf g"
  by (simp_all add: at_wf_def atcmd_wake_pending_queue_def atcmd_wait_pending_queue_def)

lemma g_busy_when [simp]:
  "g_busy_atcmds (atcmd_wake_pending_queue g) = g_busy_atcmds g"
  "g_busy_atcmds (atcmd_wait_pending_queue g) = g_busy_atcmds g"
  "g_pending_atcmds (atcmd_wake_pending_queue g) = g_pending_atcmds g"
  "g_pending_atcmds (atcmd_wait_pending_queue g) = g_pending_atcmds g"
  "g_uart_out (atcmd_wake_pending_queue g) = g_uart_out g"
  "g_uart_out (atcmd_wait_pending_queue g) = g_uart_out g"
  by (simp_all add: atcmd_wake_pending_queue_def atcmd_wait_pending_queue_def)

lemma at_inv_wake: "at_wf g \<Longrightarrow> g_busy_atcmds g = [] \<Longrightarrow> at_inv (wake_if_idle g)"
  by (auto simp: at_inv_def single_flight_def wake_if_idle_def)

text \<open>Completing the only busy command, once its timer is gone and the callback has run.\<close>

lemma at_inv_finish:
  assumes "g_busy_atcmds g = [cmd']" and "ac_addr cmd' = ac_addr cmd" and "at_wf g"
  shows "at_inv (wake_if_idle (del_busy cmd g))"
  by (rule at_inv_wake) (use assms in \<open>auto simp: del_busy_def at_wf_def\<close>)

lemma at_wf_mlbuf [simp]: "at_wf (g\<lparr>g_mlbuf := m\<rparr>) = at_wf g" "at_wf (g\<lparr>g_mlbuf_len := n\<rparr>) = at_wf g"
  "at_wf (clear_mlbuf g) = at_wf g"
  by (simp_all add: at_wf_def clear_mlbuf_def)

lemma clear_mlbuf_busy [simp]: "g_busy_atcmds (clear_mlbuf g) = g_busy_atcmds g"
  by (simp add: clear_mlbuf_def)

text \<open>Dropping the timer of the only busy command.\<close>

lemma at_wf_drop_timer:
  assumes "at_wf g" and "g_busy_atcmds g = [cmd]" and "timers_wf ts"
  shows "at_wf (upd_busy (cmd\<lparr>ac_timeout := None\<rparr>) (g\<lparr>g_timers := ts\<rparr>))"
  using assms by (auto simp: at_wf_def upd_busy_def)

lemma remove_timer_wf:
  assumes "at_wf g" and "g_busy_atcmds g = [cmd]" and "remove_timer cmd g = Some g0"
  shows "at_wf (upd_busy (cmd\<lparr>ac_timeout := None\<rparr>) g0)" and "g_busy_atcmds g0 = [cmd]"
proof -
  have "\<exists>ts. timers_wf ts \<and> g0 = g\<lparr>g_timers := ts\<rparr>"
  proof (cases "ac_timeout cmd")
    case None
    then show ?thesis using assms(1,3) by (intro exI[of _ "g_timers g"]) (simp add: remove_timer_def at_wf_def)
  next
    case (Some t)
    then obtain ts where "gsmd_timer_unregister t (g_timers g) = Some ts" "g0 = g\<lparr>g_timers := ts\<rparr>"
      using assms(3) by (auto simp: remove_timer_def)
    then show ?thesis using timers_wf_unregister assms(1) by (auto simp: at_wf_def)
  qed
  then obtain ts where ts: "timers_wf ts" "g0 = g\<lparr>g_timers := ts\<rparr>" by blast
  show "at_wf (upd_busy (cmd\<lparr>ac_timeout := None\<rparr>) g0)" unfolding ts(2) by (rule at_wf_drop_timer[OF assms(1,2) ts(1)])
  show "g_busy_atcmds g0 = [cmd]" using assms(2) ts(2) by simp
qed

lemma remove_timer_defined:
  assumes "at_wf g" and "cmd \<in> set (g_busy_atcmds g)"
  shows "\<exists>g0. remove_timer cmd g = Some g0"
proof (cases "ac_timeout cmd")
  case (Some t)
  then have "t \<in> tmr_addr ` set (ts_timers (g_timers g))" using assms unfolding at_wf_def by blast
  from gsmd_timer_unregister_defined[OF this] show ?thesis using Some by (auto simp: remove_timer_def)
qed (simp add: remove_timer_def)

section \<open>Writing keeps the queues well-formed\<close>

lemma cstr_of_array_last:
  assumes "a \<noteq> []" and "a ! (length a - 1) = NUL"
  shows "cstr_of_array a = Some (cstr a)" and "length (cstr a) < length a"
proof -
  have "last a = NUL" using assms by (simp add: last_conv_nth)
  then have "NUL \<in> set a" using assms(1) last_in_set by metis
  then show "cstr_of_array a = Some (cstr a)" by (simp add: cstr_of_array_def)
  from \<open>NUL \<in> set a\<close> show "length (cstr a) < length a"
    unfolding cstr_def by (induction a) auto
qed

lemma next_line_wf:
  assumes "cmd_wf pos"
  obtains cr line where "next_line pos = Some (cr, line)"
    and "line = take (length line) (drop (ac_cur pos) (ac_buf pos))"
    and "cr = None \<Longrightarrow> length line + 1 = ac_buflen pos"
    and "\<And>k. cr = Some k \<Longrightarrow> k = length line \<and> length line + 1 < ac_buflen pos"
proof -
  let ?a = "drop (ac_cur pos) (ac_buf pos)"
  have len: "length ?a = ac_buflen pos" and pos: "0 < ac_buflen pos" using assms by (simp_all add: cmd_wf_def)
  have "?a ! (length ?a - 1) = NUL" using assms by (auto simp: cmd_wf_def)
  moreover have "?a \<noteq> []" using assms by (simp add: cmd_wf_def)
  ultimately have c: "cstr_of_array ?a = Some (cstr ?a)" "length (cstr ?a) < length ?a"
    using cstr_of_array_last[of ?a] by blast+
  show thesis
  proof (cases "strchr (cstr ?a) LF")
    case None
    let ?l = "take (ac_buflen pos - 1) ?a"
    have "next_line pos = Some (None, ?l)"
      using c(1) None pos assms by (simp add: next_line_def cmd_wf_def)
    moreover have "length ?l + 1 = ac_buflen pos" using len pos by simp
    ultimately show thesis using len by (intro that[of None ?l]) simp_all
  next
    case (Some k)
    let ?l = "take k ?a"
    have "k < length (cstr ?a)" using strchr_Some[OF Some] by (auto simp: c_at_def split: if_splits)
    then have k: "k + 1 < ac_buflen pos" using c(2) len by linarith
    then have "next_line pos = Some (Some k, ?l)"
      using c(1) Some assms by (simp add: next_line_def cmd_wf_def)
    moreover have "length ?l = k" using k len by simp
    ultimately show thesis using k by (intro that[of "Some k" ?l]) simp_all
  qed
qed

text \<open>The command after a write that consumed \<open>rc\<close> octets.\<close>

definition advance :: "nat \<Rightarrow> gsmd_atcmd \<Rightarrow> gsmd_atcmd" where
  "advance rc pos = pos\<lparr>ac_buflen := nat (to_u32 (int (ac_buflen pos) - int rc)), ac_cur := ac_cur pos + rc\<rparr>"

lemma advance_sel [simp]:
  "ac_addr (advance rc pos) = ac_addr pos" "ac_create_timer (advance rc pos) = ac_create_timer pos"
  "live_for us (advance rc pos) = live_for us pos"
  by (simp_all add: advance_def)

lemma advance_wf:
  assumes "cmd_wf pos" and "rc < ac_buflen pos"
  shows "cmd_wf (advance rc pos)" and "ac_buflen (advance rc pos) \<noteq> 0"
  using assms by (auto simp: cmd_wf_def to_u32_def advance_def)

lemma advance_end: "ac_buflen (advance (ac_buflen pos) pos) = 0"
  by (simp add: advance_def to_u32_def)

lemma create_timer_wf:
  assumes "create_timer f g = (t, g')" and "timers_wf (g_timers g)"
  obtains ts where "g' = g\<lparr>g_talloc_fails := tl (g_talloc_fails g), g_timers := ts\<rparr>" and "timers_wf ts"
    and "\<And>a. t = Some a \<Longrightarrow> a \<in> tmr_addr ` set (ts_timers ts)"
proof -
  obtain ok g1 where tg: "talloc g = (ok, g1)" by (cases "talloc g")
  have g1: "g1 = g\<lparr>g_talloc_fails := tl (g_talloc_fails g)\<rparr>" using tg talloc_eq[of g] by simp
  obtain e cb ts where c: "gsmd_timer_create ok e cb (g_timers g1) = (t, ts)" and g': "g' = g1\<lparr>g_timers := ts\<rparr>"
    using assms(1) tg by (auto simp: create_timer_def Let_def split: prod.splits)
  have "timers_wf ts" using timers_wf_create[OF _ c] assms(2) g1 by simp
  moreover have "a \<in> tmr_addr ` set (ts_timers ts)" if "t = Some a" for a
    using c that by (cases ok) (auto dest!: gsmd_timer_create_Some simp: gsmd_timer_create_fail)
  ultimately show thesis using g' g1 by (intro that[of ts]) simp_all
qed

text \<open>A write result that the system call can return for the line that is offered.\<close>

definition write_ok :: "int \<Rightarrow> gsmd \<Rightarrow> bool" where
  "write_ok w g \<longleftrightarrow>
     (case g_pending_atcmds g of [] \<Rightarrow> True
      | pos # _ \<Rightarrow> (case next_line pos of None \<Rightarrow> True | Some (_, line) \<Rightarrow> w \<le> int (length line)))"

text \<open>A positive write: the command goes to the modem completely or stays in front.\<close>

lemma atcmd_write_pos:
  assumes "g_pending_atcmds g = pos # rest" and "next_line pos = Some (cr, line)" and "0 < w"
    and "rc = (if cr = None \<or> w = int (length line) then nat w + 1 else nat w)"
    and "g1 = g\<lparr>g_uart_out := g_uart_out g @ take (nat w) line @ (if wcr then [CR] else [])\<rparr>"
    and "create_timer (ac_create_timer pos) g1 = (t, g2)"
  shows "atcmd_write w wcr g = Some (0,
    if ac_buflen (advance rc pos) = 0 then
      atcmd_wait_pending_queue (g2\<lparr>g_pending_atcmds := rest,
        g_busy_atcmds := g_busy_atcmds g2 @ [(advance rc pos)\<lparr>ac_timeout := t\<rparr>]\<rparr>)
    else if rc < length line then g1\<lparr>g_pending_atcmds := advance rc pos # rest\<rparr>
    else atcmd_wait_pending_queue (g1\<lparr>g_pending_atcmds := advance rc pos # rest\<rparr>))"
  using assms by (simp add: atcmd_write_def advance_def Let_def)

lemma at_wf_advance:
  assumes "at_wf g" and "g_pending_atcmds g = pos # rest" and "cmd_wf pos'" and "ac_addr pos' = ac_addr pos"
    and "cmd_live g pos' = cmd_live g pos"
  shows "at_wf (g\<lparr>g_uart_out := out, g_pending_atcmds := pos' # rest\<rparr>)"
  using assms by (simp add: at_wf_def)

lemma at_wf_to_busy:
  assumes "at_wf g" and "g_pending_atcmds g = pos # rest" and "g_busy_atcmds g = []"
    and "ac_addr pos' = ac_addr pos" and "timers_wf ts" and "cmd_live g pos' = cmd_live g pos"
    and "\<And>a. ac_timeout pos' = Some a \<Longrightarrow> a \<in> tmr_addr ` set (ts_timers ts)"
  shows "at_wf (g\<lparr>g_uart_out := out, g_talloc_fails := fs, g_timers := ts, g_pending_atcmds := rest,
    g_busy_atcmds := [pos']\<rparr>)"
  using assms by (auto simp: at_wf_def)

lemma atcmd_write_inv:
  assumes wf: "at_wf g" and busy: "g_busy_atcmds g = []" and w: "write_ok w g"
  shows "\<exists>rc g'. atcmd_write w wcr g = Some (rc, g') \<and> at_inv g'"
proof (cases "g_pending_atcmds g")
  case Nil
  then show ?thesis using wf busy by (simp add: atcmd_write_def at_inv_def single_flight_def)
next
  case (Cons pos rest)
  have pwf: "cmd_wf pos" using wf Cons by (simp add: at_wf_def)
  from next_line_wf[OF pwf] obtain cr line where nl: "next_line pos = Some (cr, line)"
    and none: "cr = None \<Longrightarrow> length line + 1 = ac_buflen pos"
    and some: "\<And>k. cr = Some k \<Longrightarrow> k = length line \<and> length line + 1 < ac_buflen pos"
    by metis
  have wl: "w \<le> int (length line)" using w Cons nl by (simp add: write_ok_def)
  show ?thesis
  proof (cases "0 < w")
    case False
    then show ?thesis using Cons nl wf busy by (auto simp: atcmd_write_def at_inv_def single_flight_def)
  next
    case True
    define rc where "rc = (if cr = None \<or> w = int (length line) then nat w + 1 else nat w)"
    define g1 where "g1 = g\<lparr>g_uart_out := g_uart_out g @ take (nat w) line @ (if wcr then [CR] else [])\<rparr>"
    obtain t g2 where t: "create_timer (ac_create_timer pos) g1 = (t, g2)" by (cases "create_timer (ac_create_timer pos) g1")
    note wr = atcmd_write_pos[OF Cons nl True rc_def g1_def t]
    have le: "rc \<le> ac_buflen pos" using wl none some True by (cases cr) (auto simp: rc_def)
    have "timers_wf (g_timers g1)" using wf by (simp add: g1_def at_wf_def)
    then obtain ts where ts: "g2 = g1\<lparr>g_talloc_fails := tl (g_talloc_fails g1), g_timers := ts\<rparr>" "timers_wf ts"
      "\<And>a. t = Some a \<Longrightarrow> a \<in> tmr_addr ` set (ts_timers ts)"
      using create_timer_wf[OF t] by metis
    show ?thesis
    proof (cases "rc = ac_buflen pos")
      case all: True
      have "at_wf (g2\<lparr>g_pending_atcmds := rest, g_busy_atcmds := g_busy_atcmds g2 @ [(advance rc pos)\<lparr>ac_timeout := t\<rparr>]\<rparr>)"
        using at_wf_to_busy[OF wf Cons busy, of "(advance rc pos)\<lparr>ac_timeout := t\<rparr>" ts] ts(2,3) busy
        by (simp add: ts(1) g1_def)
      moreover have "g_busy_atcmds g2 = []" using busy by (simp add: ts(1) g1_def)
      ultimately show ?thesis using wr all by (simp add: advance_end at_inv_def single_flight_def)
    next
      case False
      then have "rc < ac_buflen pos" using le by simp
      note adv = advance_wf[OF pwf this]
      have "at_wf (g1\<lparr>g_pending_atcmds := advance rc pos # rest\<rparr>)"
        unfolding g1_def by (rule at_wf_advance[OF wf Cons adv(1)]) simp_all
      then show ?thesis using wr adv(2) busy by (simp add: at_inv_def single_flight_def g1_def)
    qed
  qed
qed

section \<open>Sending a command line by line\<close>

text \<open>The device accepts whatever is offered, as often as the queue is woken.\<close>

definition offered :: "gsmd \<Rightarrow> nat" where
  "offered g = (case g_pending_atcmds g of [] \<Rightarrow> 0
     | pos # _ \<Rightarrow> (case next_line pos of None \<Rightarrow> 0 | Some (_, line) \<Rightarrow> length line))"

fun write_lines :: "nat \<Rightarrow> gsmd \<Rightarrow> gsmd option" where
  "write_lines 0 g = Some g"
| "write_lines (Suc n) g = do {
     (_, g1) \<leftarrow> atcmd_write (int (offered g)) True g;
     write_lines n g1 }"

fun join_lines :: "string list \<Rightarrow> string" where
  "join_lines [] = []"
| "join_lines [l] = l"
| "join_lines (l # l' # ls) = l @ LF # join_lines (l' # ls)"

definition cmd_line :: "string \<Rightarrow> bool" where
  "cmd_line l \<longleftrightarrow> l \<noteq> [] \<and> LF \<notin> set l \<and> NUL \<notin> set l"

lemma join_lines_NUL: "\<forall>l \<in> set ls. cmd_line l \<Longrightarrow> NUL \<notin> set (join_lines ls)"
  by (induction ls rule: join_lines.induct) (auto simp: cmd_line_def)

lemma strchr_absent: "c \<notin> set s \<Longrightarrow> c \<noteq> NUL \<Longrightarrow> strchr s c = None"
  by (simp add: strchr_None)

lemma strchr_skip: "c \<notin> set s \<Longrightarrow> strchr (s @ c # r) c = Some (length s)"
  by (induction s) auto

text \<open>What is left of a command: a position behind some text, the rest being lines.\<close>

definition cmd_left :: "gsmd_atcmd \<Rightarrow> string list \<Rightarrow> bool" where
  "cmd_left pos ls \<longleftrightarrow> cmd_wf pos \<and> drop (ac_cur pos) (ac_buf pos) = join_lines ls @ [NUL]"

lemma cmd_left_buflen: "cmd_left pos ls \<Longrightarrow> ac_buflen pos = length (join_lines ls) + 1"
  by (auto simp: cmd_left_def cmd_wf_def dest!: arg_cong[of _ _ length])

lemma next_line_last:
  assumes "cmd_left pos [l]" and "cmd_line l"
  shows "next_line pos = Some (None, l)"
proof -
  have "cstr_of_array (l @ [NUL]) = Some l" using assms(2) by (simp add: cstr_of_array_def cstr_append_NUL cmd_line_def)
  then show ?thesis using assms cmd_left_buflen[OF assms(1)]
    by (auto simp: next_line_def cmd_left_def cmd_line_def strchr_absent cmd_wf_def)
qed

lemma next_line_more:
  assumes "cmd_left pos (l # l' # ls)" and "\<forall>x \<in> set (l # l' # ls). cmd_line x"
  shows "next_line pos = Some (Some (length l), l)"
proof -
  let ?s = "l @ LF # join_lines (l' # ls)"
  have "NUL \<notin> set ?s" using assms(2) join_lines_NUL[of "l' # ls"] by (auto simp: cmd_line_def)
  then have c: "cstr_of_array (?s @ [NUL]) = Some ?s"
    unfolding cstr_of_array_def by (subst cstr_append_NUL) simp_all
  moreover have "strchr ?s LF = Some (length l)" using assms(2) by (intro strchr_skip) (simp add: cmd_line_def)
  ultimately show ?thesis using assms(1) cmd_left_buflen[OF assms(1)]
    by (simp add: next_line_def cmd_left_def cmd_wf_def)
qed

lemma write_line_more:
  assumes "g_pending_atcmds g = pos # rest" and "cmd_left pos (l # l' # ls)" and "\<forall>x \<in> set (l # l' # ls). cmd_line x"
  shows "atcmd_write (int (offered g)) True g = Some (0, atcmd_wait_pending_queue
     (g\<lparr>g_uart_out := g_uart_out g @ l @ [CR], g_pending_atcmds := advance (length l + 1) pos # rest\<rparr>))"
    and "cmd_left (advance (length l + 1) pos) (l' # ls)"
proof -
  note nl = next_line_more[OF assms(2,3)]
  have off: "offered g = length l" using assms(1) nl by (simp add: offered_def)
  have lt: "length l + 1 < ac_buflen pos" using cmd_left_buflen[OF assms(2)] by simp
  have wf: "cmd_wf pos" using assms(2) by (simp add: cmd_left_def)
  have pos: "0 < int (length l)" using assms(3) by (simp add: cmd_line_def)
  obtain t g2 where t: "create_timer (ac_create_timer pos) (g\<lparr>g_uart_out := g_uart_out g @ take (nat (int (length l))) l @ (if True then [CR] else [])\<rparr>) = (t, g2)"
    by fastforce
  show "atcmd_write (int (offered g)) True g = Some (0, atcmd_wait_pending_queue
     (g\<lparr>g_uart_out := g_uart_out g @ l @ [CR], g_pending_atcmds := advance (length l + 1) pos # rest\<rparr>))"
    unfolding off
    using atcmd_write_pos[OF assms(1) nl pos refl refl t] advance_wf(2)[OF wf lt] by simp
  show "cmd_left (advance (length l + 1) pos) (l' # ls)"
  proof -
    have "drop (ac_cur pos + (length l + 1)) (ac_buf pos) = drop (length l + 1) (drop (ac_cur pos) (ac_buf pos))"
      by (simp add: add.commute)
    also have "\<dots> = join_lines (l' # ls) @ [NUL]" using assms(2) by (simp add: cmd_left_def)
    finally show ?thesis using advance_wf(1)[OF wf lt] by (simp add: cmd_left_def) (simp add: advance_def)
  qed
qed

lemma write_line_last:
  assumes "g_pending_atcmds g = pos # rest" and "cmd_left pos [l]" and "cmd_line l"
  shows "\<exists>g' c. atcmd_write (int (offered g)) True g = Some (0, g') \<and> g_uart_out g' = g_uart_out g @ l @ [CR] \<and>
    g_pending_atcmds g' = rest \<and> g_busy_atcmds g' = g_busy_atcmds g @ [c] \<and> ac_addr c = ac_addr pos \<and> \<not> want_write g'"
proof -
  note nl = next_line_last[OF assms(2,3)]
  have off: "offered g = length l" using assms(1) nl by (simp add: offered_def)
  have len: "ac_buflen pos = length l + 1" using cmd_left_buflen[OF assms(2)] by simp
  have pos: "0 < int (length l)" using assms(3) by (simp add: cmd_line_def)
  let ?g1 = "g\<lparr>g_uart_out := g_uart_out g @ take (nat (int (length l))) l @ (if True then [CR] else [])\<rparr>"
  obtain t g2 where t: "create_timer (ac_create_timer pos) ?g1 = (t, g2)" by fastforce
  have g2: "g_uart_out g2 = g_uart_out g @ l @ [CR]" "g_busy_atcmds g2 = g_busy_atcmds g"
    using t by (auto simp: create_timer_def talloc_def Let_def split: prod.splits list.splits)
  have "ac_buflen (advance (Suc (length l)) pos) = 0" using advance_end[of pos] len by simp
  then show ?thesis
    unfolding off using atcmd_write_pos[OF assms(1) nl pos refl refl t] g2 by simp
qed

lemma write_lines_all:
  assumes "g_pending_atcmds g = pos # rest" and "cmd_left pos ls" and "ls \<noteq> []" and "\<forall>l \<in> set ls. cmd_line l"
  shows "\<exists>g' c. write_lines (length ls) g = Some g' \<and>
    g_uart_out g' = g_uart_out g @ concat (map (\<lambda>l. l @ [CR]) ls) \<and>
    g_pending_atcmds g' = rest \<and> g_busy_atcmds g' = g_busy_atcmds g @ [c] \<and> ac_addr c = ac_addr pos \<and> \<not> want_write g'"
  using assms
proof (induction ls arbitrary: g pos rule: join_lines.induct)
  case 1
  then show ?case by simp
next
  case (2 l)
  then show ?case using write_line_last[of g pos rest l] by fastforce
next
  case (3 l l' ls)
  note step = write_line_more[OF 3(2,3,5)]
  let ?g1 = "atcmd_wait_pending_queue
     (g\<lparr>g_uart_out := g_uart_out g @ l @ [CR], g_pending_atcmds := advance (length l + 1) pos # rest\<rparr>)"
  have "g_pending_atcmds ?g1 = advance (length l + 1) pos # rest" "g_uart_out ?g1 = g_uart_out g @ l @ [CR]"
    "g_busy_atcmds ?g1 = g_busy_atcmds g"
    by (simp_all add: atcmd_wait_pending_queue_def)
  with 3(1)[of ?g1 "advance (length l + 1) pos"] step 3(5) show ?case by simp
qed

section \<open>A daemon at rest\<close>

text \<open>
  The state that \<open>main\<close> sets up, with the generic machine and the TI vendor plugin, a clock
  that stands still, and nothing to do; and two commands for it.
\<close>

definition gsmd_zero :: gsmd where
  "gsmd_zero = \<lparr>g_flags = 0, g_interpreter_ready = True, g_uart_when = GSMD_FD_READ, g_llp = llparser_new,
     g_users = [], g_pending_atcmds = [], g_busy_atcmds = [], g_machinepl = Machine_generic, g_vendorpl = Vendor_ti,
     g_dev_state = \<lparr>ds_ciph_ind_flags = 0, ds_vibrator = False, ds_on = False, ds_registered = False,
       ds_ringing = False, ds_ring_check = None\<rparr>,
     g_operators = [], g_unsolicit = [], g_mlbuf = replicate MLPARSE_BUF_SIZE NUL, g_mlbuf_len = 0, g_mlunsolicited = False,
     g_alive_responded = False, g_imsi = replicate 16 NUL,
     g_timers = \<lparr>ts_timers = [], ts_itimer = tv 0 0, ts_clock = \<lambda>n. tv 0 0, ts_reads = 0, ts_next = 0\<rparr>,
     g_uart_out = [], g_next_addr = 0, g_talloc_fails = [], g_exit = None\<rparr>"

lemma gsmd_zero_sel [simp]:
  "g_uart_out gsmd_zero = []" "g_busy_atcmds gsmd_zero = []" "g_pending_atcmds gsmd_zero = []"
  "g_talloc_fails gsmd_zero = []" "g_machinepl gsmd_zero = Machine_generic" "g_next_addr gsmd_zero = 0"
  "g_mlbuf_len gsmd_zero = 0" "g_users gsmd_zero = []" "g_flags gsmd_zero = 0" "g_vendorpl gsmd_zero = Vendor_ti"
  by (simp_all add: gsmd_zero_def)

definition example_cmd :: gsmd_atcmd where
  "example_cmd = \<lparr>ac_addr = 0, ac_ctx = Ctx_user 0, ac_cb = Some Usock_cmd_cb, ac_ret = - 255, ac_buflen = 8, ac_id = 0,
     ac_flags = 0, ac_timeout = None, ac_create_timer = Discard_timer, ac_cur = 0, ac_buf = ''ATD123;'' @ [NUL]\<rparr>"

definition example_sms_cmd :: gsmd_atcmd where
  "example_sms_cmd = \<lparr>ac_addr = 0, ac_ctx = Ctx_gsmd, ac_cb = None, ac_ret = - 255, ac_buflen = 17, ac_id = 0,
     ac_flags = 0, ac_timeout = None, ac_create_timer = Discard_timer, ac_cur = 0,
     ac_buf = ''AT+CMGS=3'' @ [LF] @ ''0011AB'' @ [NUL]\<rparr>"

section \<open>What happens to the queues\<close>

text \<open>
  The events of the main loop that reach the queues, one handler each: a client or the
  daemon itself submits or cancels, the device is writable, a final result code arrives, a
  timer fires (\<open>gsmd_timer_check_n_run\<close> has taken it out of the list), the modem asks for
  the next line of a command that is being sent.
\<close>

inductive at_step :: "at_dispatch \<Rightarrow> gsmd \<Rightarrow> gsmd \<Rightarrow> bool" for disp where
  submit: "fresh_cmd g cmd g1 \<Longrightarrow> atcmd_submit cmd g1 = Some (rc, g') \<Longrightarrow> at_step disp g g'"
| cancel: "fresh_cmd g cmd g1 \<Longrightarrow> cancel_atcmd disp cmd g1 = Some (rc, g') \<Longrightarrow> at_step disp g g'"
| writable: "want_write g \<Longrightarrow> write_ok w g \<Longrightarrow> atcmd_select_write w wcr g = Some (rc, g') \<Longrightarrow> at_step disp g g'"
| final: "g_busy_atcmds g = cmd # rest \<Longrightarrow> atcmd_done disp (cmd\<lparr>ac_ret := r\<rparr>) buf (upd_busy (cmd\<lparr>ac_ret := r\<rparr>) g) = Some (rc, g') \<Longrightarrow>
    at_step disp g g'"
| discard: "timer_del t (g_timers g) = Some ts \<Longrightarrow> discard_timeout disp t (g\<lparr>g_timers := ts\<rparr>) = Some g' \<Longrightarrow>
    at_step disp g g'"
| wakeup: "timer_del t (g_timers g) = Some ts \<Longrightarrow> g' = wakeup_timeout t (g\<lparr>g_timers := ts\<rparr>) \<Longrightarrow> at_step disp g g'"
| prompt: "g_busy_atcmds g = [] \<Longrightarrow> at_step disp g (atcmd_prompt g)"

inductive at_reach :: "at_dispatch \<Rightarrow> gsmd \<Rightarrow> gsmd \<Rightarrow> bool" for disp g0 where
  init: "at_reach disp g0 g0"
| step: "at_reach disp g0 g \<Longrightarrow> at_step disp g g' \<Longrightarrow> at_reach disp g0 g'"

lemma timer_del_wf: "timers_wf s \<Longrightarrow> timer_del t s = Some s' \<Longrightarrow> timers_wf s'"
  by (auto simp: timers_wf_def timer_del_def distinct_map_filter split: if_splits)

text \<open>A timer that fires and does not belong to the busy command leaves the queues intact.\<close>

lemma at_inv_other_timer:
  assumes "at_inv g" and "timer_del t (g_timers g) = Some ts"
    and "g_busy_atcmds g = [] \<or> ac_timeout (hd (g_busy_atcmds g)) \<noteq> Some t"
  shows "at_inv (g\<lparr>g_timers := ts\<rparr>)"
proof -
  have "g_busy_atcmds g = [] \<or> (\<exists>c. g_busy_atcmds g = [c] \<and> ac_timeout c \<noteq> Some t)"
    using assms(1,3) by (cases "g_busy_atcmds g") (auto simp: at_inv_def single_flight_def)
  then show ?thesis
    using assms(1,2) timer_del_wf[of "g_timers g" t ts]
    by (auto simp: at_inv_def at_wf_def single_flight_def want_write_def timer_del_def split: if_splits)
qed

lemma at_inv_own_timer:
  assumes "at_inv g" and "timer_del t (g_timers g) = Some ts" and "g_busy_atcmds g = cmd # rest"
  shows "at_wf (upd_busy (cmd\<lparr>ac_timeout := None\<rparr>) (g\<lparr>g_timers := ts\<rparr>))"
    and "g_busy_atcmds (upd_busy (cmd\<lparr>ac_timeout := None\<rparr>) (g\<lparr>g_timers := ts\<rparr>)) = [cmd\<lparr>ac_timeout := None\<rparr>]"
    and "\<not> want_write g"
proof -
  have b: "g_busy_atcmds g = [cmd]" "\<not> want_write g" using at_inv_busy[OF assms(1,3)] assms(3) by simp_all
  have "at_wf g" using assms(1) by (simp add: at_inv_def)
  then show "at_wf (upd_busy (cmd\<lparr>ac_timeout := None\<rparr>) (g\<lparr>g_timers := ts\<rparr>))"
    using timer_del_wf[OF _ assms(2)] by (intro at_wf_drop_timer) (simp_all add: at_wf_def b)
  show "g_busy_atcmds (upd_busy (cmd\<lparr>ac_timeout := None\<rparr>) (g\<lparr>g_timers := ts\<rparr>)) = [cmd\<lparr>ac_timeout := None\<rparr>]"
    by (simp add: upd_busy_def b)
  show "\<not> want_write g" by (rule b)
qed

lemma wakeup_inv:
  assumes inv: "at_inv g" and del: "timer_del t (g_timers g) = Some ts"
  shows "at_inv (wakeup_timeout t (g\<lparr>g_timers := ts\<rparr>))"
proof (cases "g_busy_atcmds g = [] \<or> ac_timeout (hd (g_busy_atcmds g)) \<noteq> Some t")
  case True
  with at_inv_other_timer[OF inv del] show ?thesis
    by (cases "g_busy_atcmds g") (auto simp: wakeup_timeout_def)
next
  case False
  then obtain cmd rest where busy: "g_busy_atcmds g = cmd # rest" "ac_timeout cmd = Some t"
    by (cases "g_busy_atcmds g") auto
  note own = at_inv_own_timer[OF inv del busy(1)]
  let ?g1 = "upd_busy (cmd\<lparr>ac_timeout := None\<rparr>) (g\<lparr>g_timers := ts\<rparr>)"
  have "at_inv (wake_if_idle (del_busy (cmd\<lparr>ac_timeout := None\<rparr>) ?g1))"
    by (rule at_inv_finish[OF own(2) _ own(1)]) simp
  moreover have "at_inv ?g1" using own by (simp add: at_inv_def single_flight_def want_write_def upd_busy_def)
  ultimately show ?thesis using busy by (simp add: wakeup_timeout_def Let_def)
qed

text \<open>Putting a new command in front of the queue and dropping what has been collected.\<close>

lemma at_inv_push:
  assumes inv: "at_inv g" and fresh: "fresh_cmd g cmd g1"
  shows "at_inv (g1\<lparr>g_mlbuf_len := 0, g_pending_atcmds := cmd # g_pending_atcmds g1\<rparr>)" (is "at_inv ?g2")
proof -
  have g1: "g_pending_atcmds g1 = g_pending_atcmds g" "g_busy_atcmds g1 = g_busy_atcmds g"
    "g_timers g1 = g_timers g" "g_next_addr g1 = g_next_addr g + 1" "g_uart_when g1 = g_uart_when g"
    "g_users g1 = g_users g"
    using fresh by (auto simp: fresh_cmd_def talloc_eq)
  have wf: "at_wf g" using inv by (simp add: at_inv_def)
  then have "\<forall>c \<in> set (g_pending_atcmds g @ g_busy_atcmds g). ac_addr c < ac_addr cmd"
    using fresh by (simp add: at_wf_def fresh_cmd_def)
  then have "ac_addr cmd \<notin> ac_addr ` set (g_pending_atcmds g @ g_busy_atcmds g)"
    and "\<forall>c \<in> set (g_pending_atcmds g @ g_busy_atcmds g). ac_addr c < g_next_addr g + 1"
    using fresh by (auto simp: fresh_cmd_def less_Suc_eq)
  then have "at_wf ?g2" using wf fresh g1 by (simp add: at_wf_def fresh_cmd_def image_Un)
  moreover have "single_flight ?g2" using inv g1 by (simp add: at_inv_def single_flight_def want_write_def)
  ultimately show ?thesis by (simp add: at_inv_def)
qed

locale atcmd_client =
  fixes disp :: at_dispatch
  assumes disp_frame: "disp cb cmd resp g = Some (rc, g') \<Longrightarrow> cb_frame g g'"
begin

lemma done_steps:
  assumes "atcmd_done disp cmd buf g = Some (rc, g')"
  obtains g0 g4 where "remove_timer cmd g = Some g0"
    and "cb_frame (upd_busy (cmd\<lparr>ac_timeout := None\<rparr>) g0) g4 \<or>
         (\<exists>ml g3. cb_frame ((upd_busy (cmd\<lparr>ac_timeout := None\<rparr>) g0)\<lparr>g_mlbuf := ml\<rparr>) g3 \<and> g4 = clear_mlbuf g3)"
    and "g' = wake_if_idle (del_busy cmd g4)"
proof -
  obtain g0 where g0: "remove_timer cmd g = Some g0" using assms by (auto simp: atcmd_done_def option_bind_Some_iff)
  let ?c = "cmd\<lparr>ac_timeout := None\<rparr>" and ?g1 = "upd_busy (cmd\<lparr>ac_timeout := None\<rparr>) g0"
  show thesis
  proof (cases "ac_cb cmd")
    case None
    then show thesis using assms g0 by (intro that[OF g0, of ?g1]) (auto simp: atcmd_done_def del_busy_def Let_def)
  next
    case (Some cb)
    then obtain resp g2 rc3 g3 where r: "final_resp buf ?g1 = Some (resp, g2)" "disp cb ?c resp g2 = Some (rc3, g3)"
      "g' = wake_if_idle (del_busy cmd (clear_mlbuf g3))"
      using assms g0 by (auto simp: atcmd_done_def del_busy_def Let_def option_bind_Some_iff)
    have "\<exists>ml. g2 = ?g1\<lparr>g_mlbuf := ml\<rparr>"
      using r(1) by (auto simp: final_resp_def Let_def split: if_splits intro: exI[of _ "g_mlbuf ?g1"])
    then show thesis using disp_frame[OF r(2)] r(3) by (intro that[OF g0, of "clear_mlbuf g3"]) auto
  qed
qed

lemma done_inv:
  assumes inv: "at_inv g" and busy: "g_busy_atcmds g = cmd # rest" and d: "atcmd_done disp cmd buf g = Some (rc, g')"
  shows "at_inv g'"
proof -
  have b1: "g_busy_atcmds g = [cmd]" and wf: "at_wf g"
    using at_inv_busy[OF inv busy] busy inv by (auto simp: at_inv_def)
  obtain g0 g4 where g0: "remove_timer cmd g = Some g0"
    and g4: "cb_frame (upd_busy (cmd\<lparr>ac_timeout := None\<rparr>) g0) g4 \<or>
         (\<exists>ml g3. cb_frame ((upd_busy (cmd\<lparr>ac_timeout := None\<rparr>) g0)\<lparr>g_mlbuf := ml\<rparr>) g3 \<and> g4 = clear_mlbuf g3)"
    and g': "g' = wake_if_idle (del_busy cmd g4)"
    using done_steps[OF d] by blast
  note w = remove_timer_wf[OF wf b1 g0]
  have "at_wf g4" "g_busy_atcmds g4 = [cmd\<lparr>ac_timeout := None\<rparr>]"
    using g4 w cb_frame_wf by (auto dest: cb_frame_busy simp: upd_busy_def)
  then show ?thesis unfolding g' by (intro at_inv_finish[of _ "cmd\<lparr>ac_timeout := None\<rparr>"]) simp_all
qed

lemma cancel_inv:
  assumes inv: "at_inv g" and fresh: "fresh_cmd g cmd g1" and d: "cancel_atcmd disp cmd g1 = Some (rc, g')"
  shows "at_inv g'"
proof (cases "g_busy_atcmds g1")
  case Nil
  then have "atcmd_submit cmd g1 = Some (rc, g')" using d by (simp add: cancel_atcmd_def)
  from atcmd_submit_frame(1)[OF fresh this] show ?thesis by (rule at_inv_queue[OF _ inv])
next
  case (Cons cur rest)
  then have "atcmd_done disp cur ''ERROR'' (g1\<lparr>g_mlbuf_len := 0, g_pending_atcmds := cmd # g_pending_atcmds g1\<rparr>) = Some (rc, g')"
    using d by (simp add: cancel_atcmd_def Let_def)
  with at_inv_push[OF inv fresh] done_inv[of _ cur rest] Cons show ?thesis by simp
qed

lemma discard_inv:
  assumes inv: "at_inv g" and del: "timer_del t (g_timers g) = Some ts"
    and d: "discard_timeout disp t (g\<lparr>g_timers := ts\<rparr>) = Some g'"
  shows "at_inv g'"
proof (cases "g_busy_atcmds g = [] \<or> ac_timeout (hd (g_busy_atcmds g)) \<noteq> Some t")
  case True
  then have "g' = g\<lparr>g_timers := ts\<rparr>"
    using d by (cases "g_busy_atcmds g") (auto simp: discard_timeout_def)
  with at_inv_other_timer[OF inv del True] show ?thesis by simp
next
  case False
  then obtain cmd rest where busy: "g_busy_atcmds g = cmd # rest" "ac_timeout cmd = Some t"
    by (cases "g_busy_atcmds g") auto
  note own = at_inv_own_timer[OF inv del busy(1)]
  let ?c = "cmd\<lparr>ac_timeout := None\<rparr>"
  let ?g1 = "upd_busy ?c (g\<lparr>g_timers := ts\<rparr>)"
  obtain g2 where g': "g' = wake_if_idle (del_busy ?c g2)"
    and cb: "(case ac_cb cmd of None \<Rightarrow> Some ?g1 | Some cb \<Rightarrow> map_option snd (disp cb ?c ''Timeout'' ?g1)) = Some g2"
    using d busy by (auto simp: discard_timeout_def Let_def option_bind_Some_iff)
  have "cb_frame ?g1 g2" using cb disp_frame by (cases "ac_cb cmd") auto
  note g2 = this g'
  have "g_busy_atcmds g2 = [?c]" "at_wf g2" using cb_frame_busy[OF g2(1)] cb_frame_wf[OF g2(1)] own by simp_all
  then show ?thesis unfolding g2(2) by (intro at_inv_finish[of _ ?c]) simp_all
qed

lemma at_inv_set_ret:
  assumes "at_inv g" and "g_busy_atcmds g = cmd # rest"
  shows "at_inv (upd_busy (cmd\<lparr>ac_ret := r\<rparr>) g)"
    and "g_busy_atcmds (upd_busy (cmd\<lparr>ac_ret := r\<rparr>) g) = [cmd\<lparr>ac_ret := r\<rparr>]"
  using assms at_inv_busy[OF assms]
  by (auto simp: at_inv_def at_wf_def upd_busy_def single_flight_def want_write_def)

lemma at_step_inv: "at_step disp g g' \<Longrightarrow> at_inv g \<Longrightarrow> at_inv g'"
proof (induction rule: at_step.induct)
  case (submit g cmd g1 rc g')
  then show ?case using atcmd_submit_frame at_inv_queue by blast
next
  case (cancel g cmd g1 rc g')
  then show ?case using cancel_inv by blast
next
  case (writable g w wcr rc g')
  have "g_busy_atcmds g = []" "at_wf g" using writable by (auto simp: at_inv_def single_flight_def)
  from atcmd_write_inv[OF this(2,1) writable(2), of wcr] writable(3,4) show ?case
    by (auto simp: atcmd_select_write_def split: if_splits)
next
  case (final g cmd rest r buf rc g')
  from done_inv[OF at_inv_set_ret[OF final(3) final(1)] final(2)] show ?case .
next
  case (discard t g ts g')
  then show ?case using discard_inv by blast
next
  case (wakeup t g ts g')
  then show ?case using wakeup_inv by blast
next
  case (prompt g)
  then show ?case by (simp add: at_inv_def single_flight_def atcmd_prompt_def)
qed

lemma at_reach_inv: "at_reach disp g0 g \<Longrightarrow> at_inv g0 \<Longrightarrow> at_inv g"
  by (induction rule: at_reach.induct) (auto intro: at_step_inv)

end

section \<open>Properties\<close>

text \<open>
  C16. A command reaches the modem line by line. A command built from non-empty lines by
  \<open>atcmd_fill\<close> with the length its callers pass, standing in front of the queue, is sent in
  as many writes as it has lines, if the device accepts them, each line followed by a
  carriage return and nothing else; with the last one it moves to the busy queue and
  writing stops.
\<close>

theorem atcmd_transmit:
  assumes "ls \<noteq> []" and "\<forall>l \<in> set ls. cmd_line l" and "int (length (join_lines ls)) < 4294967295"
    and "atcmd_fill (join_lines ls) (int (length (join_lines ls)) + 1) cb ctx cid ct g0 = Some (Some cmd, g1)"
    and "g_pending_atcmds g = cmd # rest"
  shows "\<exists>g' c. write_lines (length ls) g = Some g' \<and>
    g_uart_out g' = g_uart_out g @ concat (map (\<lambda>l. l @ [CR]) ls) \<and>
    g_pending_atcmds g' = rest \<and> g_busy_atcmds g' = g_busy_atcmds g @ [c] \<and>
    ac_addr c = ac_addr cmd \<and> \<not> want_write g'"
proof -
  have wf: "cmd_wf cmd" using atcmd_fill_Some(6)[OF assms(4)] assms(3) by simp
  have "ac_cur cmd = 0" "ac_buf cmd = join_lines ls @ [NUL]"
    using assms(4) by (auto simp: atcmd_fill_def Let_def nat_add_distrib split_beta split: if_splits)
  with wf have "cmd_left cmd ls" by (simp add: cmd_left_def)
  from write_lines_all[OF assms(5) this assms(1,2)] show ?thesis .
qed

lemma atcmd_transmit_witness:
  "\<exists>g' c. write_lines (Suc (Suc 0)) (gsmd_zero\<lparr>g_pending_atcmds := [example_sms_cmd]\<rparr>) = Some g' \<and>
     g_uart_out g' = ''AT+CMGS=3'' @ [CR] @ ''0011AB'' @ [CR] \<and> g_busy_atcmds g' = [c]"
proof -
  let ?ls = "[''AT+CMGS=3'', ''0011AB'']"
  have fill: "atcmd_fill (join_lines ?ls) (int (length (join_lines ?ls)) + 1) None Ctx_gsmd 0 Discard_timer gsmd_zero =
      Some (Some example_sms_cmd, gsmd_zero\<lparr>g_next_addr := 1\<rparr>)"
    by (simp add: atcmd_fill_def example_sms_cmd_def Let_def)
  have "\<forall>l \<in> set ?ls. cmd_line l" by (simp add: cmd_line_def)
  from atcmd_transmit[OF _ this _ fill, of "gsmd_zero\<lparr>g_pending_atcmds := [example_sms_cmd]\<rparr>" "[]"] show ?thesis
    by (auto simp del: write_lines.simps)
qed

text \<open>
  A short write of the last line loses a character. When the device takes only part of
  it, the position is moved one octet too far (the terminator is skipped although it has
  not been reached) and a carriage return is sent in the middle: the next write offers the
  rest of the line without the character in between.
\<close>

lemma atcmd_short_write_drops_char:
  assumes "g_pending_atcmds g = pos # rest" and "cmd_left pos [l]" and "cmd_line l"
    and "0 < w" and "w + 1 < int (length l)"
  shows "\<exists>g' pos'. atcmd_write w True g = Some (0, g') \<and> g_uart_out g' = g_uart_out g @ take (nat w) l @ [CR] \<and>
    g_pending_atcmds g' = pos' # rest \<and> next_line pos' = Some (None, drop (nat w + 1) l)"
proof -
  note nl = next_line_last[OF assms(2,3)]
  let ?g1 = "g\<lparr>g_uart_out := g_uart_out g @ take (nat w) l @ (if True then [CR] else [])\<rparr>"
  obtain t g2 where t: "create_timer (ac_create_timer pos) ?g1 = (t, g2)" by fastforce
  have len: "ac_buflen pos = length l + 1" using cmd_left_buflen[OF assms(2)] by simp
  have wf: "cmd_wf pos" using assms(2) by (simp add: cmd_left_def)
  have lt: "nat w + 1 < ac_buflen pos" using assms(4,5) len by linarith
  have "drop (ac_cur pos + (nat w + 1)) (ac_buf pos) = drop (nat w + 1) (drop (ac_cur pos) (ac_buf pos))"
    by (simp add: add.commute)
  also have "\<dots> = drop (nat w + 1) l @ [NUL]" using assms(2,4,5) by (simp add: cmd_left_def)
  finally have "cmd_left (advance (nat w + 1) pos) [drop (nat w + 1) l]"
    using advance_wf(1)[OF wf lt] by (simp add: cmd_left_def) (simp add: advance_def)
  moreover have "cmd_line (drop (nat w + 1) l)" using assms(3-5) by (auto simp: cmd_line_def dest: in_set_dropD)
  ultimately have "next_line (advance (nat w + 1) pos) = Some (None, drop (nat w + 1) l)" by (rule next_line_last)
  then show ?thesis using atcmd_write_pos[OF assms(1) nl assms(4) refl refl t] advance_wf(2)[OF wf lt]
    by (simp split: if_splits)
qed

lemma atcmd_short_write_drops_char_witness:
  "\<exists>g' pos'. atcmd_write 3 True (gsmd_zero\<lparr>g_pending_atcmds := [example_cmd]\<rparr>) = Some (0, g') \<and>
     g_uart_out g' = ''ATD'' @ [CR] \<and> g_pending_atcmds g' = [pos'] \<and> next_line pos' = Some (None, ''23;'')"
proof -
  have "cmd_left example_cmd [''ATD123;'']" by (simp add: cmd_left_def cmd_wf_def example_cmd_def)
  from atcmd_short_write_drops_char[OF _ this, of "gsmd_zero\<lparr>g_pending_atcmds := [example_cmd]\<rparr>" "[]" 3] show ?thesis
    by (auto simp: cmd_line_def)
qed

text \<open>
  A command can be sent into a prompt that has not come. While the first line of a
  two-line command (a short message) has been sent and the daemon waits for the prompt of
  the modem, another command that is submitted wakes the queue, because no command is busy;
  the next line of the first command is then written without the prompt.
\<close>

lemma submit_overtakes_prompt:
  assumes "g_pending_atcmds g = pos # rest" and "cmd_left pos [l]" and "cmd_line l"
    and "g_busy_atcmds g = []" and "g_machinepl g \<noteq> Machine_gta01"
  shows "\<exists>g1 g2. atcmd_submit cmd g = Some (0, g1) \<and> want_write g1 \<and>
    atcmd_write (int (length l)) True g1 = Some (0, g2) \<and> g_uart_out g2 = g_uart_out g @ l @ [CR]"
proof -
  let ?g1 = "wake_if_idle (add_pending_tail cmd g)"
  have "ex_submit g = Some g" using assms(5) by (simp add: ex_submit_def split: machine.split)
  then have sub: "atcmd_submit cmd g = Some (0, ?g1)" by (simp add: atcmd_submit_def)
  have g1: "want_write ?g1" "g_pending_atcmds ?g1 = pos # (rest @ [cmd])" "g_uart_out ?g1 = g_uart_out g"
    using assms(1,4) by (simp_all add: wake_if_idle_def add_pending_tail_def)
  from write_line_last[OF g1(2) assms(2,3)] g1 sub next_line_last[OF assms(2,3)] show ?thesis
    by (auto simp: offered_def)
qed

lemma submit_overtakes_prompt_witness:
  "\<exists>g1 g2. atcmd_submit example_sms_cmd (gsmd_zero\<lparr>g_pending_atcmds := [example_cmd]\<rparr>) = Some (0, g1) \<and> want_write g1 \<and>
     atcmd_write 7 True g1 = Some (0, g2) \<and> g_uart_out g2 = ''ATD123;'' @ [CR]"
proof -
  have "cmd_left example_cmd [''ATD123;'']" by (simp add: cmd_left_def cmd_wf_def example_cmd_def)
  from submit_overtakes_prompt[OF _ this, of "gsmd_zero\<lparr>g_pending_atcmds := [example_cmd]\<rparr>" "[]" example_sms_cmd] show ?thesis
    by (auto simp: cmd_line_def)
qed

text \<open>
  An empty command stops the daemon from sending. A command of length zero, which a
  client can submit, offers no octet to \<open>write\<close>; whatever \<open>write\<close> can return for that, the
  command stays in front of the queue and nothing is sent, now and at every later attempt.
\<close>

lemma empty_command_blocks_queue:
  assumes "atcmd_fill '''' 1 cb ctx cid ct g0 = Some (Some cmd, g1)" and "g_pending_atcmds g = cmd # rest"
    and "write_ok w g"
  shows "\<exists>rc g'. atcmd_write w wcr g = Some (rc, g') \<and> g_pending_atcmds g' = cmd # rest \<and>
    g_uart_out g' = g_uart_out g \<and> g_busy_atcmds g' = g_busy_atcmds g"
proof -
  have "ac_cur cmd = 0" "ac_buf cmd = [NUL]" "ac_buflen cmd = 1"
    using assms(1) by (auto simp: atcmd_fill_def Let_def split_beta split: if_splits)
  then have nl: "next_line cmd = Some (None, [])" by (simp add: next_line_def cstr_of_array_def cstr_def)
  then have "w \<le> 0" using assms(2,3) by (simp add: write_ok_def)
  then show ?thesis using assms(2) nl by (auto simp: atcmd_write_def)
qed

lemma empty_command_blocks_queue_witness:
  "\<exists>rc g'. atcmd_write 0 True (gsmd_zero\<lparr>g_pending_atcmds := [example_cmd\<lparr>ac_buf := [NUL], ac_buflen := 1\<rparr>, example_cmd]\<rparr>) =
     Some (rc, g') \<and> g_pending_atcmds g' = [example_cmd\<lparr>ac_buf := [NUL], ac_buflen := 1\<rparr>, example_cmd]"
proof -
  let ?c = "example_cmd\<lparr>ac_buf := [NUL], ac_buflen := 1\<rparr>"
  have fill: "atcmd_fill '''' 1 (Some Usock_cmd_cb) (Ctx_user 0) 0 Discard_timer gsmd_zero = Some (Some ?c, gsmd_zero\<lparr>g_next_addr := 1\<rparr>)"
    by (simp add: atcmd_fill_def example_cmd_def Let_def)
  show ?thesis
    using empty_command_blocks_queue[OF fill, of "gsmd_zero\<lparr>g_pending_atcmds := [?c, example_cmd]\<rparr>" "[example_cmd]" 0 True]
    by (auto simp: write_ok_def example_cmd_def next_line_def cstr_of_array_def cstr_def)
qed

text \<open>
  A client that leaves can take the daemon down. Ending the commands of a client calls
  their callbacks without looking whether there is one; a busy command submitted without a
  callback, as some requests for short messages are, is a call through a null pointer.
\<close>

lemma terminate_without_callback_faults:
  assumes "g_busy_atcmds g = cmd # rest" and "ac_ctx cmd = ctx" and "ac_cb cmd = None"
  shows "atcmd_terminate_matching disp ctx g = None"
  using assms by (simp add: atcmd_terminate_matching_def)

lemma terminate_without_callback_faults_witness:
  "atcmd_terminate_matching (\<lambda>cb cmd resp g. Some (0, g)) (Ctx_user 0) (gsmd_zero\<lparr>g_busy_atcmds := [example_cmd\<lparr>ac_cb := None\<rparr>]\<rparr>) = None"
  by (rule terminate_without_callback_faults[of _ "example_cmd\<lparr>ac_cb := None\<rparr>" "[]"]) (simp_all add: example_cmd_def)

end
