(* ===== verification/Scanf.thy ===== *)
theory Scanf
  imports CLib
begin

text \<open>
  \<open>sscanf\<close> for the conversions that the sources use: literal characters, white space,
  \<open>%i\<close> with the length modifiers \<open>h\<close> and \<open>hh\<close>, \<open>%*i\<close>, character sets with a width,
  \<open>%*[...]\<close>, \<open>%c\<close> and \<open>%n\<close>.  The result lists the values assigned before the first directive
  that fails; \<open>%n\<close> assigns a position.
\<close>

datatype scan_dir =
    Lit char
  | Ws
  | Int_i nat
  | Skip_i
  | Set "char \<Rightarrow> bool" "nat option"
  | Skip_set "char \<Rightarrow> bool"
  | Chr_c
  | Count

datatype scan_val = VInt int | VStr string | VPos nat

text \<open>A string of literal characters; white space in a format matches any white space.\<close>

definition lits :: "string \<Rightarrow> scan_dir list" where
  "lits = map (\<lambda>c. if isspace c then Ws else Lit c)"

text \<open>Storing a number in a signed object of the given width.\<close>

definition store_signed :: "nat \<Rightarrow> int \<Rightarrow> int" where
  "store_signed w x = (x + 2 ^ (w - 1)) mod 2 ^ w - 2 ^ (w - 1)"

fun sscanf :: "scan_dir list \<Rightarrow> string \<Rightarrow> nat \<Rightarrow> scan_val list" where
  "sscanf [] s p = []"
| "sscanf (Lit c # fs) s p = (if p < length s \<and> s ! p = c then sscanf fs s (p + 1) else [])"
| "sscanf (Ws # fs) s p = sscanf fs s (p + length (takeWhile isspace (drop p s)))"
| "sscanf (Int_i w # fs) s p =
     (case strto 0 (drop p s) of
        None \<Rightarrow> []
      | Some (neg, m, k) \<Rightarrow>
          VInt (store_signed w (fst (strtol 0 (drop p s)))) # sscanf fs s (p + k))"
| "sscanf (Skip_i # fs) s p =
     (case strto 0 (drop p s) of None \<Rightarrow> [] | Some (neg, m, k) \<Rightarrow> sscanf fs s (p + k))"
| "sscanf (Set f w # fs) s p =
     (let t = takeWhile f (case w of None \<Rightarrow> drop p s | Some n \<Rightarrow> take n (drop p s))
      in if t = [] then [] else VStr t # sscanf fs s (p + length t))"
| "sscanf (Skip_set f # fs) s p =
     (let t = takeWhile f (drop p s) in if t = [] then [] else sscanf fs s (p + length t))"
| "sscanf (Chr_c # fs) s p = (if p < length s then VStr [s ! p] # sscanf fs s (p + 1) else [])"
| "sscanf (Count # fs) s p = VPos p # sscanf fs s p"

text \<open>How many items a call reports as assigned: positions do not count.\<close>

definition assigned :: "scan_val list \<Rightarrow> nat" where
  "assigned vs = length (filter (\<lambda>v. case v of VPos _ \<Rightarrow> False | _ \<Rightarrow> True) vs)"

definition upper :: "char \<Rightarrow> bool" where
  "upper c \<longleftrightarrow> 65 \<le> ord_c c \<and> ord_c c \<le> 90"

text \<open>
  \<open>%2hhX\<close> at the start of a string whose first two characters are not below \<open>'0'\<close>.
\<close>

definition scan_hex2 :: "char \<Rightarrow> char \<Rightarrow> u8 option" where
  "scan_hex2 a b =
     (case hexval a of
        None \<Rightarrow> None
      | Some x \<Rightarrow> Some (case hexval b of None \<Rightarrow> of_nat x | Some y \<Rightarrow> of_nat (16 * x + y)))"

text \<open>
  The loop that reads the octets of a PDU: at most \<open>n\<close> pairs, until one of the next two
  characters is below \<open>'0'\<close>; \<open>None\<close> when a pair does not start with a digit.  Plain \<open>char\<close> is
  unsigned on the phone's ABI.
\<close>

fun hex_octets :: "nat \<Rightarrow> string \<Rightarrow> u8 list option" where
  "hex_octets 0 s = Some []"
| "hex_octets (Suc n) (a # b # s) =
     (if 48 \<le> ord_c a \<and> 48 \<le> ord_c b then
        (case scan_hex2 a b of
           None \<Rightarrow> None
         | Some o1 \<Rightarrow> map_option ((#) o1) (hex_octets n s))
      else Some [])"
| "hex_octets (Suc n) s = Some []"

text \<open>Reading back what \<open>%02X\<close> prints.\<close>

lemma ord_hex_char: "d < 16 \<Longrightarrow> 48 \<le> ord_c (hex_char d)"
  by (auto simp: hex_char_def)

lemma scan_hex2_show: "scan_hex2 (hex_char (unat b div 16)) (hex_char (unat b mod 16)) = Some (b :: u8)"
proof -
  have "unat b < 256" using unsigned_less[of b] by simp
  then have "unat b div 16 < 16" by simp
  then show ?thesis by (simp add: scan_hex2_def)
qed

lemma hex_octets_show:
  assumes "length os \<le> n" and "rest = [] \<or> ord_c (hd rest) < 48"
  shows "hex_octets n (concat (map show_hex2 os) @ rest) = Some os"
  using assms(1)
proof (induction os arbitrary: n)
  case Nil
  then show ?case using assms(2)
    by (cases "(n, rest)" rule: hex_octets.cases) auto
next
  case (Cons b os)
  then obtain m where n: "n = Suc m" by (cases n) auto
  have "unat b < 256" using unsigned_less[of b] by simp
  then have "unat b div 16 < 16" by simp
  then show ?case using Cons n by (simp add: show_hex2_def ord_hex_char scan_hex2_show)
qed

lemma hex_octets_length: "hex_octets n s = Some os \<Longrightarrow> length os \<le> n"
  by (induction n s arbitrary: os rule: hex_octets.induct) (auto split: if_splits option.splits)

end
