(* ===== verification/Events.thy ===== *)
theory Events
  imports Atcmd Scanf
begin

text \<open>
  Messages to clients: building, queueing and broadcasting them
  (\<open>src/gsmd/unsolicited.c\<close>, \<open>src/gsmd/usock.c\<close>), and the ring timer.
\<close>

unbundle bit_operations_syntax

section \<open>Message types (\<open>include/gsmd/usock.h\<close>, \<open>include/gsmd/event.h\<close>)\<close>

abbreviation (input) GSMD_MSG_EVENT :: nat where "GSMD_MSG_EVENT \<equiv> 1"
abbreviation (input) GSMD_MSG_PASSTHROUGH :: nat where "GSMD_MSG_PASSTHROUGH \<equiv> 2"
abbreviation (input) GSMD_MSG_VOICECALL :: nat where "GSMD_MSG_VOICECALL \<equiv> 3"
abbreviation (input) GSMD_MSG_PHONEBOOK :: nat where "GSMD_MSG_PHONEBOOK \<equiv> 5"
abbreviation (input) GSMD_MSG_NETWORK :: nat where "GSMD_MSG_NETWORK \<equiv> 6"
abbreviation (input) GSMD_MSG_PHONE :: nat where "GSMD_MSG_PHONE \<equiv> 7"
abbreviation (input) GSMD_MSG_PIN :: nat where "GSMD_MSG_PIN \<equiv> 8"
abbreviation (input) GSMD_MSG_SMS :: nat where "GSMD_MSG_SMS \<equiv> 9"

abbreviation (input) GSMD_EVT_IN_CALL :: nat where "GSMD_EVT_IN_CALL \<equiv> 1"
abbreviation (input) GSMD_EVT_IN_SMS :: nat where "GSMD_EVT_IN_SMS \<equiv> 2"
abbreviation (input) GSMD_EVT_IN_CLIP :: nat where "GSMD_EVT_IN_CLIP \<equiv> 4"
abbreviation (input) GSMD_EVT_NETREG :: nat where "GSMD_EVT_NETREG \<equiv> 5"
abbreviation (input) GSMD_EVT_SIGNAL :: nat where "GSMD_EVT_SIGNAL \<equiv> 6"
abbreviation (input) GSMD_EVT_PIN :: nat where "GSMD_EVT_PIN \<equiv> 7"
abbreviation (input) GSMD_EVT_OUT_STATUS :: nat where "GSMD_EVT_OUT_STATUS \<equiv> 8"
abbreviation (input) GSMD_EVT_OUT_COLP :: nat where "GSMD_EVT_OUT_COLP \<equiv> 9"
abbreviation (input) GSMD_EVT_CALL_WAIT :: nat where "GSMD_EVT_CALL_WAIT \<equiv> 10"
abbreviation (input) GSMD_EVT_TIMEZONE :: nat where "GSMD_EVT_TIMEZONE \<equiv> 11"
abbreviation (input) GSMD_EVT_CIPHER :: nat where "GSMD_EVT_CIPHER \<equiv> 13"
abbreviation (input) GSMD_EVT_IN_CBM :: nat where "GSMD_EVT_IN_CBM \<equiv> 14"
abbreviation (input) GSMD_EVT_IN_DS :: nat where "GSMD_EVT_IN_DS \<equiv> 15"
abbreviation (input) GSMD_EVT_IN_ERROR :: nat where "GSMD_EVT_IN_ERROR \<equiv> 16"

section \<open>Queueing a message for a user\<close>

definition enqueue_user :: "gsmd_ucmd \<Rightarrow> gsmd_user \<Rightarrow> gsmd_user" where
  "enqueue_user ucmd gu = gu\<lparr>gu_finished_ucmds := gu_finished_ucmds gu @ [ucmd],
     gu_when := gu_when gu OR GSMD_FD_WRITE\<rparr>"

definition usock_cmd_enqueue :: "gsmd_ucmd \<Rightarrow> nat \<Rightarrow> gsmd \<Rightarrow> gsmd option" where
  "usock_cmd_enqueue ucmd gu g = upd_user gu (enqueue_user ucmd) g"

definition gsmd_ucmd_submit ::
  "nat \<Rightarrow> nat \<Rightarrow> nat \<Rightarrow> u16 \<Rightarrow> nat \<Rightarrow> ucmd_data \<Rightarrow> gsmd \<Rightarrow> (int \<times> gsmd) option" where
  "gsmd_ucmd_submit gu msg_type msg_subtype cid len d g =
     (let (ok, g1) = talloc g in
      if \<not> ok then Some (- ENOMEM, g1)
      else map_option (\<lambda>g2. (0, g2)) (usock_cmd_enqueue
        \<lparr>uc_msg_type = msg_type, uc_msg_subtype = msg_subtype, uc_id = Some cid, uc_len = len mod 65536, uc_data = d,
         uc_valid = len\<rparr> gu g1))"

section \<open>Events\<close>

text \<open>The data is what the caller writes into the message before it sends it.\<close>

definition usock_build_event :: "nat \<Rightarrow> nat \<Rightarrow> nat \<Rightarrow> ucmd_data \<Rightarrow> gsmd_ucmd" where
  "usock_build_event type subtype len d =
     \<lparr>uc_msg_type = type, uc_msg_subtype = subtype, uc_id = None, uc_len = len, uc_data = d, uc_valid = len\<rparr>"

text \<open>
  \<open>ucmd_copy\<close> copies \<open>hdr.len\<close> octets of the whole object, list pointers and header
  included, so the payload is short by the size of these.
\<close>

definition ucmd_copy :: "gsmd_ucmd \<Rightarrow> gsmd_ucmd" where
  "ucmd_copy orig = orig\<lparr>uc_valid := min (uc_valid orig) (uc_len orig - sizeof_gsmd_ucmd)\<rparr>"

definition subscribed :: "nat \<Rightarrow> gsmd_user \<Rightarrow> bool" where
  "subscribed evt gu \<longleftrightarrow> gu_subscriptions gu AND push_bit evt 1 \<noteq> 0"

text \<open>The loop over the users; \<open>fs\<close> are the allocation failures to come.\<close>

fun evt_send_users ::
  "gsmd_ucmd \<Rightarrow> nat \<Rightarrow> gsmd_user list \<Rightarrow> nat \<Rightarrow> bool list \<Rightarrow> gsmd_user list \<times> nat \<times> bool list" where
  "evt_send_users ucmd evt [] n fs = ([], n, fs)"
| "evt_send_users ucmd evt (gu # gus) n fs =
     (if \<not> subscribed evt gu then
        let (us, n', fs') = evt_send_users ucmd evt gus n fs in (gu # us, n', fs')
      else if n = 0 then
        let (us, n', fs') = evt_send_users ucmd evt gus 1 fs in (enqueue_user ucmd gu # us, n', fs')
      else if fs \<noteq> [] \<and> hd fs then (gu # gus, n, tl fs)
      else let (us, n', fs') = evt_send_users ucmd evt gus (n + 1) (tl fs)
           in (enqueue_user (ucmd_copy ucmd) gu # us, n', fs'))"

definition usock_evt_send :: "gsmd_ucmd \<Rightarrow> nat \<Rightarrow> gsmd \<Rightarrow> int \<times> gsmd" where
  "usock_evt_send ucmd evt g =
     (let (us, n, fs) = evt_send_users ucmd evt (g_users g) 0 (g_talloc_fails g)
      in (int n, g\<lparr>g_users := us, g_talloc_fails := fs\<rparr>))"

text \<open>Building an event and sending it at once; \<open>err\<close> is what a failed allocation returns.\<close>

definition send_event :: "int \<Rightarrow> nat \<Rightarrow> nat \<Rightarrow> ucmd_data \<Rightarrow> gsmd \<Rightarrow> int \<times> gsmd" where
  "send_event err evt len d g =
     (let (ok, g1) = talloc g in
      if \<not> ok then (err, g1) else usock_evt_send (usock_build_event GSMD_MSG_EVENT evt len d) evt g1)"

section \<open>The ring timer\<close>

definition GSMD_RING_MAX_JITTER :: int where "GSMD_RING_MAX_JITTER = 200 * 1000"

definition state_ringing_timeout :: "gsmd \<Rightarrow> gsmd" where
  "state_ringing_timeout g =
     (let g1 = g\<lparr>g_dev_state := (g_dev_state g)\<lparr>ds_ring_check := None\<rparr>\<rparr> in
      if \<not> ds_ringing (g_dev_state g1) then g1
      else let g2 = g1\<lparr>g_dev_state := (g_dev_state g1)\<lparr>ds_ringing := False\<rparr>\<rparr>
           in snd (send_event (- 1) GSMD_EVT_IN_CALL sizeof_gsmd_evt_auxdata (Ud_evt (Aux_call 8)) g2))"

text \<open>A ring check that is pending is taken out and registered again with a new time.\<close>

definition state_ringing_update :: "gsmd \<Rightarrow> gsmd option" where
  "state_ringing_update g =
     (let t = tv 1 GSMD_RING_MAX_JITTER in
      case ds_ring_check (g_dev_state g) of
        Some a \<Rightarrow> do {
          ts \<leftarrow> gsmd_timer_unregister a (g_timers g);
          let g1 = g\<lparr>g_timers := ts, g_dev_state := (g_dev_state g)\<lparr>ds_ringing := True\<rparr>\<rparr>;
          let (_, ts') = gsmd_timer_register \<lparr>tmr_addr = a, tmr_expires = t, tmr_cb = State_ringing_timeout\<rparr> ts;
          Some (g1\<lparr>g_timers := ts'\<rparr>) }
      | None \<Rightarrow>
          let (ok, g1) = talloc g;
              (a, ts) = gsmd_timer_create ok t State_ringing_timeout (g_timers g1)
          in Some (g1\<lparr>g_timers := ts,
                      g_dev_state := (g_dev_state g1)\<lparr>ds_ringing := True, ds_ring_check := a\<rparr>\<rparr>))"

section \<open>Who receives an event\<close>

lemma evt_send_users_ok:
  assumes "fs = []"
  shows "evt_send_users ucmd evt gus n fs =
    (let subs = filter (subscribed evt) gus in
     (map (\<lambda>(gu, k). if subscribed evt gu then enqueue_user (if k = 0 then ucmd else ucmd_copy ucmd) gu else gu)
        (zip gus (map (\<lambda>i. n + length (filter (subscribed evt) (take i gus))) [0..<length gus])),
      n + length subs, []))"
proof -
  have "evt_send_users ucmd evt gus n [] =
    (map (\<lambda>(gu, k). if subscribed evt gu then enqueue_user (if k = 0 then ucmd else ucmd_copy ucmd) gu else gu)
        (zip gus (map (\<lambda>i. n + length (filter (subscribed evt) (take i gus))) [0..<length gus])),
      n + length (filter (subscribed evt) gus), [])"
  proof (induction gus arbitrary: n)
    case Nil
    then show ?case by simp
  next
    case (Cons gu gus)
    have "map (\<lambda>i. n + length (filter (subscribed evt) (take i (gu # gus)))) [0..<length (gu # gus)] =
      n # map (\<lambda>i. (n + (if subscribed evt gu then 1 else 0)) + length (filter (subscribed evt) (take i gus))) [0..<length gus]"
      by (simp add: upt_conv_Cons map_Suc_upt [symmetric] del: upt_Suc)
    then show ?case using Cons[of n] Cons[of 1] Cons[of "n + 1"] by (auto simp: Let_def split_beta)
  qed
  then show ?thesis using assms by (simp add: Let_def)
qed

lemma enqueue_user_addr [simp]: "gu_addr (enqueue_user u gu) = gu_addr gu"
  by (simp add: enqueue_user_def)

lemma evt_send_users_addrs: "map gu_addr (fst (evt_send_users ucmd evt gus n fs)) = map gu_addr gus"
  by (induction ucmd evt gus n fs rule: evt_send_users.induct) (auto simp: split_beta Let_def)

lemma evt_send_users_fails: "snd (snd (evt_send_users ucmd evt gus n [])) = []"
  by (induction gus arbitrary: n) (auto simp: split_beta Let_def)

lemma usock_evt_send_frame [simp]: "cb_frame g (snd (usock_evt_send ucmd evt g))"
  using evt_send_users_addrs[of ucmd evt "g_users g" 0 "g_talloc_fails g"]
    evt_send_users_fails[of ucmd evt "g_users g" 0]
  by (simp add: usock_evt_send_def split_beta Let_def cb_frame_defs)

lemma send_event_frame [simp]: "cb_frame g (snd (send_event err evt len d g))"
proof -
  obtain ok g1 where t: "talloc g = (ok, g1)" by (cases "talloc g")
  have "cb_frame g g1" using cb_frame_talloc[of g] t by simp
  then show ?thesis using cb_frame_trans[OF _ usock_evt_send_frame] t by (simp add: send_event_def)
qed

lemma upd_user_frame: "upd_user a f g = Some g' \<Longrightarrow> (\<And>u. gu_addr (f u) = gu_addr u) \<Longrightarrow> cb_frame g g'"
  by (auto simp: upd_user_def cb_frame_defs split: if_splits)

lemma usock_cmd_enqueue_frame: "usock_cmd_enqueue ucmd gu g = Some g' \<Longrightarrow> cb_frame g g'"
  unfolding usock_cmd_enqueue_def by (erule upd_user_frame) simp

lemma gsmd_ucmd_submit_frame: "gsmd_ucmd_submit gu ty sub cid len d g = Some (rc, g') \<Longrightarrow> cb_frame g g'"
proof -
  assume s: "gsmd_ucmd_submit gu ty sub cid len d g = Some (rc, g')"
  obtain ok g1 where t: "talloc g = (ok, g1)" by (cases "talloc g")
  have "cb_frame g g1" using cb_frame_talloc[of g] t by simp
  then show ?thesis using s t usock_cmd_enqueue_frame cb_frame_trans
    by (auto simp: gsmd_ucmd_submit_def split: if_splits)
qed

end
