(* ===== verification/Extrsp.thy ===== *)
theory Extrsp
  imports Strl
begin

text \<open>
  The tokenizer for extended responses: \<open>struct gsm_extrsp\<close> of
  \<open>include/gsmd/extrsp.h\<close> and \<open>extrsp_parse\<close>, \<open>extrsp_supports\<close> of
  \<open>src/gsmd/ext_response.c\<close>.
\<close>

section \<open>Data\<close>

definition GSM_EXTRSP_MAX_TOKENS :: nat where "GSM_EXTRSP_MAX_TOKENS = 16"
definition GSM_EXTRSP_MAX_RANGES :: nat where "GSM_EXTRSP_MAX_RANGES = 16"
definition GSM_EXTRSP_MAX_STRBUF :: nat where "GSM_EXTRSP_MAX_STRBUF = 64"

datatype gsm_extrsp_tok_type =
    GSMD_ECMD_RTT_NONE
  | GSMD_ECMD_RTT_EMPTY
  | GSMD_ECMD_RTT_NUMERIC
  | GSMD_ECMD_RTT_STRING
  | GSMD_ECMD_RTT_RANGE

text \<open>
  The members of the union are fields of their own: the tokenizer writes a token's type
  before anything else and then only the member that belongs to the type.
\<close>

record gsm_extrsp_tok =
  tok_type :: gsm_extrsp_tok_type
  tok_item :: "(int \<times> int) list"
  tok_num_items :: nat
  tok_string :: "char list"
  tok_numeric :: int

record gsm_extrsp =
  num_tokens :: nat
  tokens :: "gsm_extrsp_tok list"

definition tok_zero :: gsm_extrsp_tok where
  "tok_zero = \<lparr>tok_type = GSMD_ECMD_RTT_NONE,
     tok_item = replicate GSM_EXTRSP_MAX_RANGES (0, 0), tok_num_items = 0,
     tok_string = replicate GSM_EXTRSP_MAX_STRBUF NUL, tok_numeric = 0\<rparr>"

definition extrsp_zero :: gsm_extrsp where
  "extrsp_zero = \<lparr>num_tokens = 0, tokens = replicate GSM_EXTRSP_MAX_TOKENS tok_zero\<rparr>"

section \<open>The support query\<close>

text \<open>\<open>index\<close> is compared with an unsigned count, so a negative one is out of range.\<close>

fun range_has :: "(int \<times> int) list \<Rightarrow> int \<Rightarrow> bool" where
  "range_has [] v = False"
| "range_has ((mi, ma) # ris) v = (if mi \<le> v \<and> v \<le> ma then True else range_has ris v)"

definition extrsp_supports :: "gsm_extrsp \<Rightarrow> int \<Rightarrow> int \<Rightarrow> int" where
  "extrsp_supports er index v =
     (if index < 0 \<or> int (num_tokens er) \<le> index then - EINVAL
      else let tok = tokens er ! nat index in
           if tok_type tok \<noteq> GSMD_ECMD_RTT_RANGE then - EINVAL
           else if range_has (take (tok_num_items tok) (tok_item tok)) v then 1 else 0)"

section \<open>The tokenizer\<close>

datatype parser_state = IDLE | TOKEN_STRING | TOKEN_STRING_LASTQUOTE | TOKEN_NUMERIC | TOKEN_RANGE

text \<open>
  \<open>p_buf\<close> is what lies in \<open>char buf[512]\<close> before \<open>cur_buf\<close>; everything behind is
  zero.  Writing a 513th character and reading an unterminated buffer are faults, and so
  is touching a token or a range item outside its array.
\<close>

record extrsp_pst =
  p_er :: gsm_extrsp
  p_state :: parser_state
  p_buf :: string

definition put_buf :: "extrsp_pst \<Rightarrow> char \<Rightarrow> extrsp_pst option" where
  "put_buf s c = (if length (p_buf s) < 512 then Some (s\<lparr>p_buf := p_buf s @ [c]\<rparr>) else None)"

definition get_buf :: "extrsp_pst \<Rightarrow> string option" where
  "get_buf s = (if length (p_buf s) < 512 then Some (p_buf s) else None)"

definition upd_token :: "(gsm_extrsp_tok \<Rightarrow> gsm_extrsp_tok option) \<Rightarrow> extrsp_pst \<Rightarrow> extrsp_pst option" where
  "upd_token f s =
     (let er = p_er s; n = num_tokens er in
      if n < length (tokens er)
      then map_option (\<lambda>t. s\<lparr>p_er := er\<lparr>tokens := (tokens er)[n := t]\<rparr>\<rparr>) (f (tokens er ! n))
      else None)"

definition next_token :: "extrsp_pst \<Rightarrow> extrsp_pst" where
  "next_token s = s\<lparr>p_er := (p_er s)\<lparr>num_tokens := num_tokens (p_er s) + 1\<rparr>\<rparr>"

definition set_type :: "gsm_extrsp_tok_type \<Rightarrow> gsm_extrsp_tok \<Rightarrow> gsm_extrsp_tok option" where
  "set_type ty t = Some (t\<lparr>tok_type := ty\<rparr>)"

definition set_numeric :: "int \<Rightarrow> gsm_extrsp_tok \<Rightarrow> gsm_extrsp_tok option" where
  "set_numeric n t = Some (t\<lparr>tok_numeric := n\<rparr>)"

definition set_string :: "string \<Rightarrow> gsm_extrsp_tok \<Rightarrow> gsm_extrsp_tok option" where
  "set_string b t =
     map_option (\<lambda>r. t\<lparr>tok_string := snd r\<rparr>) (strlcpy (tok_string t) b GSM_EXTRSP_MAX_STRBUF)"

definition set_min :: "int \<Rightarrow> gsm_extrsp_tok \<Rightarrow> gsm_extrsp_tok option" where
  "set_min v t = (let n = tok_num_items t in
     if n < length (tok_item t) then Some (t\<lparr>tok_item := (tok_item t)[n := (v, snd (tok_item t ! n))]\<rparr>)
     else None)"

definition set_max_next :: "int \<Rightarrow> gsm_extrsp_tok \<Rightarrow> gsm_extrsp_tok option" where
  "set_max_next v t = (let n = tok_num_items t in
     if n < length (tok_item t)
     then Some (t\<lparr>tok_item := (tok_item t)[n := (fst (tok_item t ! n), v)], tok_num_items := n + 1\<rparr>)
     else None)"

text \<open>One turn of the \<open>while\<close> loop; a case per state, in the order of the source.\<close>

definition extrsp_idle :: "extrsp_pst \<Rightarrow> char \<Rightarrow> extrsp_pst option" where
  "extrsp_idle s0 c =
     (let s = s0\<lparr>p_buf := []\<rparr> in
      if isblank c then Some s
      else if c = DQ then map_option (p_state_update (\<lambda>_. TOKEN_STRING)) (upd_token (set_type GSMD_ECMD_RTT_STRING) s)
      else if c = CHR ''('' then map_option (p_state_update (\<lambda>_. TOKEN_RANGE)) (upd_token (set_type GSMD_ECMD_RTT_RANGE) s)
      else if isdigit c then do {
        s1 \<leftarrow> upd_token (set_type GSMD_ECMD_RTT_NUMERIC) s;
        s2 \<leftarrow> put_buf s1 c;
        Some (s2\<lparr>p_state := TOKEN_NUMERIC\<rparr>) }
      else if c = CHR '','' then do {
        s1 \<leftarrow> upd_token (set_type GSMD_ECMD_RTT_EMPTY) s;
        Some ((next_token s1)\<lparr>p_state := IDLE\<rparr>) }
      else Some s)"

definition extrsp_numeric :: "extrsp_pst \<Rightarrow> char \<Rightarrow> extrsp_pst option" where
  "extrsp_numeric s c =
     (if c = CHR '','' then do {
        b \<leftarrow> get_buf s;
        s1 \<leftarrow> upd_token (set_numeric (atoi b)) s;
        Some ((next_token s1)\<lparr>p_state := IDLE\<rparr>) }
      else if isdigit c then put_buf s c
      else Some s)"

definition extrsp_string :: "extrsp_pst \<Rightarrow> char \<Rightarrow> extrsp_pst option" where
  "extrsp_string s c =
     (if c = DQ then do {
        b \<leftarrow> get_buf s;
        s1 \<leftarrow> upd_token (set_string b) s;
        Some ((next_token s1)\<lparr>p_state := TOKEN_STRING_LASTQUOTE\<rparr>) }
      else put_buf s c)"

definition extrsp_lastquote :: "extrsp_pst \<Rightarrow> char \<Rightarrow> extrsp_pst option" where
  "extrsp_lastquote s c = Some (if c = CHR '','' then s\<lparr>p_state := IDLE\<rparr> else s)"

definition extrsp_range :: "extrsp_pst \<Rightarrow> char \<Rightarrow> extrsp_pst option" where
  "extrsp_range s c =
     (if isdigit c then put_buf s c
      else if c = CHR ''-'' then do {
        b \<leftarrow> get_buf s;
        s1 \<leftarrow> upd_token (set_min (atoi b)) s;
        Some (s1\<lparr>p_buf := []\<rparr>) }
      else if c = CHR '','' then do {
        b \<leftarrow> get_buf s;
        upd_token (set_max_next (atoi b)) s }
      else if c = CHR '')'' then do {
        b \<leftarrow> get_buf s;
        s1 \<leftarrow> upd_token (set_max_next (atoi b)) s;
        Some (next_token (s1\<lparr>p_state := TOKEN_STRING_LASTQUOTE\<rparr>)) }
      else Some s)"

definition extrsp_step :: "extrsp_pst \<Rightarrow> char \<Rightarrow> extrsp_pst option" where
  "extrsp_step s c =
     (case p_state s of
        IDLE \<Rightarrow> extrsp_idle s c
      | TOKEN_NUMERIC \<Rightarrow> extrsp_numeric s c
      | TOKEN_STRING \<Rightarrow> extrsp_string s c
      | TOKEN_STRING_LASTQUOTE \<Rightarrow> extrsp_lastquote s c
      | TOKEN_RANGE \<Rightarrow> extrsp_range s c)"

fun extrsp_loop :: "extrsp_pst \<Rightarrow> string \<Rightarrow> extrsp_pst option" where
  "extrsp_loop s [] = Some s"
| "extrsp_loop s (c # cs) = Option.bind (extrsp_step s c) (\<lambda>s'. extrsp_loop s' cs)"

definition extrsp_finish :: "extrsp_pst \<Rightarrow> extrsp_pst option" where
  "extrsp_finish s =
     (if p_state s = TOKEN_NUMERIC then do {
        b \<leftarrow> get_buf s;
        s1 \<leftarrow> upd_token (set_numeric (atoi b)) s;
        Some (next_token s1) }
      else Some s)"

text \<open>
  \<open>extrsp_parse\<close> returns NULL (\<open>Some None\<close>) for a null or empty input and when the
  allocation fails; \<open>alloc\<close> is the outcome of that allocation.
\<close>

definition extrsp_parse :: "bool \<Rightarrow> string option \<Rightarrow> gsm_extrsp option option" where
  "extrsp_parse alloc input =
     (case input of
        None \<Rightarrow> Some None
      | Some str \<Rightarrow>
          if str = [] \<or> \<not> alloc then Some None
          else do {
            s \<leftarrow> extrsp_loop \<lparr>p_er = extrsp_zero, p_state = IDLE, p_buf = []\<rparr> str;
            s' \<leftarrow> extrsp_finish s;
            Some (Some (p_er s')) })"


section \<open>Printing and parsing token lists\<close>

text \<open>
  The comma-separated lists a TA sends: an empty position, a number, a quoted string, a
  parenthesised range.  \<open>csv_render\<close> prints one, \<open>er_of\<close> is the token array it means.
\<close>

datatype csv_item = CsvEmpty | CsvNum nat | CsvStr string | CsvRange nat nat

fun csv_show :: "csv_item \<Rightarrow> string" where
  "csv_show CsvEmpty = []"
| "csv_show (CsvNum n) = show_nat n"
| "csv_show (CsvStr s) = DQ # s @ [DQ]"
| "csv_show (CsvRange a b) = CHR ''('' # show_nat a @ CHR ''-'' # show_nat b @ [CHR '')'']"

fun csv_render :: "csv_item list \<Rightarrow> string" where
  "csv_render [] = []"
| "csv_render [i] = csv_show i"
| "csv_render (i # is) = csv_show i @ CHR '','' # csv_render is"

fun csv_ok :: "csv_item \<Rightarrow> bool" where
  "csv_ok CsvEmpty = True"
| "csv_ok (CsvNum n) = (n \<le> 2147483647)"
| "csv_ok (CsvStr s) = (DQ \<notin> set s \<and> length s < 512)"
| "csv_ok (CsvRange a b) = (a \<le> 2147483647 \<and> b \<le> 2147483647)"

fun tok_of :: "csv_item \<Rightarrow> gsm_extrsp_tok" where
  "tok_of CsvEmpty = tok_zero\<lparr>tok_type := GSMD_ECMD_RTT_EMPTY\<rparr>"
| "tok_of (CsvNum n) = tok_zero\<lparr>tok_type := GSMD_ECMD_RTT_NUMERIC, tok_numeric := int n\<rparr>"
| "tok_of (CsvStr s) = tok_zero\<lparr>tok_type := GSMD_ECMD_RTT_STRING,
     tok_string := take 63 s @ replicate (64 - length (take 63 s)) NUL\<rparr>"
| "tok_of (CsvRange a b) = tok_zero\<lparr>tok_type := GSMD_ECMD_RTT_RANGE,
     tok_item := (int a, int b) # replicate 15 (0, 0), tok_num_items := 1\<rparr>"

definition er_of :: "csv_item list \<Rightarrow> gsm_extrsp" where
  "er_of is = \<lparr>num_tokens = length is,
     tokens = map tok_of is @ replicate (GSM_EXTRSP_MAX_TOKENS - length is) tok_zero\<rparr>"

text \<open>The array while the token behind \<open>is\<close> is being filled.\<close>

definition er_part :: "csv_item list \<Rightarrow> gsm_extrsp_tok \<Rightarrow> gsm_extrsp" where
  "er_part is t = \<lparr>num_tokens = length is,
     tokens = map tok_of is @ t # replicate (GSM_EXTRSP_MAX_TOKENS - Suc (length is)) tok_zero\<rparr>"

abbreviation "pst er st b \<equiv> \<lparr>p_er = er, p_state = st, p_buf = b\<rparr>"

lemma er_of_part: "length is < 16 \<Longrightarrow> er_of is = er_part is tok_zero"
  by (simp add: er_of_def er_part_def GSM_EXTRSP_MAX_TOKENS_def Suc_diff_Suc
      replicate_Suc [symmetric] del: replicate_Suc)

lemma er_zero: "extrsp_zero = er_of []"
  by (simp add: extrsp_zero_def er_of_def)

lemma upd_token_part [simp]:
  "upd_token f (pst (er_part is t) st b) = map_option (\<lambda>t'. pst (er_part is t') st b) (f t)"
  by (simp add: upd_token_def er_part_def Let_def list_update_append nth_append)

lemma next_token_part [simp]:
  "length is < 16 \<Longrightarrow> next_token (pst (er_part is (tok_of i)) st b) = pst (er_of (is @ [i])) st b"
  by (simp add: next_token_def er_part_def er_of_def GSM_EXTRSP_MAX_TOKENS_def)

lemma extrsp_loop_append:
  "extrsp_loop s (xs @ ys) = Option.bind (extrsp_loop s xs) (\<lambda>s'. extrsp_loop s' ys)"
  by (induction xs arbitrary: s) simp_all

lemma digit_run:
  assumes "st = TOKEN_NUMERIC \<or> st = TOKEN_RANGE" and "\<forall>c \<in> set ds. isdigit c"
    and "length (b @ ds) \<le> 512"
  shows "extrsp_loop (pst er st b) ds = Some (pst er st (b @ ds))"
  using assms
proof (induction ds arbitrary: b)
  case Nil
  then show ?case by simp
next
  case (Cons d ds)
  then have "extrsp_step (pst er st b) d = Some (pst er st (b @ [d]))"
    by (auto simp: extrsp_step_def extrsp_numeric_def extrsp_range_def put_buf_def isdigit_def ord_c_def)
  with Cons.IH [of "b @ [d]"] Cons.prems show ?case by simp
qed

lemma string_run:
  assumes "DQ \<notin> set t" and "length (b @ t) \<le> 512"
  shows "extrsp_loop (pst er TOKEN_STRING b) t = Some (pst er TOKEN_STRING (b @ t))"
  using assms
proof (induction t arbitrary: b)
  case Nil
  then show ?case by simp
next
  case (Cons d t)
  then have "extrsp_step (pst er TOKEN_STRING b) d = Some (pst er TOKEN_STRING (b @ [d]))"
    by (auto simp: extrsp_step_def extrsp_string_def put_buf_def)
  with Cons.IH [of "b @ [d]"] Cons.prems show ?case by simp
qed


lemma show_nat_Cons: "\<exists>d ds. show_nat n = d # ds \<and> isdigit d \<and> (\<forall>c \<in> set ds. isdigit c)"
proof (cases "show_nat n")
  case Nil
  then show ?thesis by simp
next
  case (Cons d ds)
  then show ?thesis using show_nat_isdigit [of _ n] by auto
qed

lemma isdigit_punct [simp]:
  "\<not> isdigit CHR '',''" "\<not> isdigit CHR ''-''" "\<not> isdigit CHR ''(''" "\<not> isdigit CHR '')''" "\<not> isdigit DQ"
  by (simp_all add: isdigit_def ord_c_def)

lemma isblank_punct [simp]:
  "\<not> isblank CHR '',''" "\<not> isblank CHR ''-''" "\<not> isblank CHR ''(''" "\<not> isblank CHR '')''" "\<not> isblank DQ"
  by (simp_all add: isblank_def ord_c_def)

lemma isdigit_not_punct:
  "isdigit c \<Longrightarrow> \<not> isblank c \<and> c \<noteq> DQ \<and> c \<noteq> CHR ''('' \<and> c \<noteq> CHR '',''"
  by (auto simp: isdigit_def isblank_def ord_c_def)

lemma numeric_run:
  assumes "n \<le> 2147483647" and "length is < 16"
  shows "extrsp_loop (pst (er_of is) IDLE b) (show_nat n) =
         Some (pst (er_part is (tok_zero\<lparr>tok_type := GSMD_ECMD_RTT_NUMERIC\<rparr>)) TOKEN_NUMERIC (show_nat n))"
proof -
  obtain d ds where n: "show_nat n = d # ds" and d: "isdigit d" and ds: "\<forall>c \<in> set ds. isdigit c"
    using show_nat_Cons by blast
  have "length (d # ds) \<le> 10" using length_show_nat_32 [of n] assms(1) n by simp
  then have "length ([d] @ ds) \<le> 512" by simp
  moreover have "extrsp_step (pst (er_of is) IDLE b) d =
    Some (pst (er_part is (tok_zero\<lparr>tok_type := GSMD_ECMD_RTT_NUMERIC\<rparr>)) TOKEN_NUMERIC [d])"
    using d isdigit_not_punct [OF d] assms(2)
    by (simp add: extrsp_step_def extrsp_idle_def er_of_part set_type_def put_buf_def)
  ultimately show ?thesis
    using ds digit_run [of TOKEN_NUMERIC ds "[d]"] n by simp
qed

lemma numeric_end:
  assumes "n \<le> 2147483647" and "length is < 16"
  shows "extrsp_loop (pst (er_of is) IDLE b) (show_nat n @ [CHR '','']) =
           Some (pst (er_of (is @ [CsvNum n])) IDLE (show_nat n))"
    and "Option.bind (extrsp_loop (pst (er_of is) IDLE b) (show_nat n)) extrsp_finish =
           Some (pst (er_of (is @ [CsvNum n])) TOKEN_NUMERIC (show_nat n))"
proof -
  have len: "length (show_nat n) < 512" using length_show_nat_32 [of n] assms(1) by simp
  have t: "tok_zero\<lparr>tok_type := GSMD_ECMD_RTT_NUMERIC, tok_numeric := int n\<rparr> = tok_of (CsvNum n)"
    by simp
  note [simp] = next_token_part [OF assms(2), of "CsvNum n", unfolded tok_of.simps]
  show "extrsp_loop (pst (er_of is) IDLE b) (show_nat n @ [CHR '','']) =
           Some (pst (er_of (is @ [CsvNum n])) IDLE (show_nat n))"
    using assms len
    by (simp add: extrsp_loop_append numeric_run extrsp_step_def extrsp_numeric_def get_buf_def
        set_numeric_def atoi_show_nat)
  show "Option.bind (extrsp_loop (pst (er_of is) IDLE b) (show_nat n)) extrsp_finish =
           Some (pst (er_of (is @ [CsvNum n])) TOKEN_NUMERIC (show_nat n))"
    using assms len
    by (simp add: numeric_run extrsp_finish_def get_buf_def set_numeric_def atoi_show_nat)
qed

lemma set_string_zero:
  "set_string s (tok_zero\<lparr>tok_type := GSMD_ECMD_RTT_STRING\<rparr>) = Some (tok_of (CsvStr s))"
proof -
  have "strlcpy (replicate 64 NUL) s 64 =
        Some (length s, take 63 s @ replicate (64 - length (take 63 s)) NUL)"
    using strlcpy_eval [of 64 "replicate 64 NUL" s]
    by (simp add: min_def) (auto simp: replicate_Suc [symmetric] Suc_diff_le simp del: replicate_Suc)
  then show ?thesis by (simp add: set_string_def tok_zero_def GSM_EXTRSP_MAX_STRBUF_def)
qed

lemma string_item:
  assumes "DQ \<notin> set s" and "length s < 512" and "length is < 16"
  shows "extrsp_loop (pst (er_of is) IDLE b) (DQ # s @ [DQ]) =
         Some (pst (er_of (is @ [CsvStr s])) TOKEN_STRING_LASTQUOTE s)"
proof -
  have "extrsp_loop (pst (er_part is (tok_zero\<lparr>tok_type := GSMD_ECMD_RTT_STRING\<rparr>)) TOKEN_STRING []) s =
        Some (pst (er_part is (tok_zero\<lparr>tok_type := GSMD_ECMD_RTT_STRING\<rparr>)) TOKEN_STRING s)"
    using string_run [of s "[]"] assms by simp
  then show ?thesis
    using assms
    by (simp add: extrsp_step_def extrsp_idle_def er_of_part set_type_def extrsp_loop_append
        extrsp_string_def get_buf_def set_string_zero del: tok_of.simps)
qed

lemma range_item:
  assumes "a \<le> 2147483647" and "c \<le> 2147483647" and "length is < 16"
  shows "extrsp_loop (pst (er_of is) IDLE b) (csv_show (CsvRange a c)) =
         Some (pst (er_of (is @ [CsvRange a c])) TOKEN_STRING_LASTQUOTE (show_nat c))"
proof -
  let ?t = "tok_zero\<lparr>tok_type := GSMD_ECMD_RTT_RANGE\<rparr>"
  have l: "length (show_nat a) < 512" "length (show_nat c) < 512"
    using length_show_nat_32 [of a] length_show_nat_32 [of c] assms(1,2) by simp_all
  have run: "extrsp_loop (pst er TOKEN_RANGE []) (show_nat n) = Some (pst er TOKEN_RANGE (show_nat n))"
    if "length (show_nat n) < 512" for er n
    using digit_run [of TOKEN_RANGE "show_nat n" "[]"] that by (auto simp: show_nat_isdigit)
  have 16: "replicate 16 (0::int, 0::int) = (0, 0) # replicate 15 (0, 0)"
    by (simp add: numeral_eq_Suc)
  have min: "set_min (int a) ?t = Some (?t\<lparr>tok_item := (int a, 0) # replicate 15 (0, 0)\<rparr>)"
    by (simp add: set_min_def tok_zero_def GSM_EXTRSP_MAX_RANGES_def 16)
  have max: "set_max_next (int c) (?t\<lparr>tok_item := (int a, 0) # replicate 15 (0, 0)\<rparr>) =
             Some (tok_of (CsvRange a c))"
    by (simp add: set_max_next_def tok_zero_def)
  show ?thesis
    using assms l min max
    by (simp add: extrsp_step_def extrsp_idle_def er_of_part set_type_def extrsp_loop_append
        extrsp_range_def get_buf_def run atoi_show_nat del: tok_of.simps)
qed


lemma lastquote_comma:
  "extrsp_loop s xs = Some (pst er TOKEN_STRING_LASTQUOTE b) \<Longrightarrow>
   extrsp_loop s (xs @ [CHR '','']) = Some (pst er IDLE b)"
  by (simp add: extrsp_loop_append extrsp_step_def extrsp_lastquote_def)

lemma item_comma:
  assumes "csv_ok i" and "length is < 16"
  shows "\<exists>b'. extrsp_loop (pst (er_of is) IDLE b) (csv_show i @ [CHR '','']) =
              Some (pst (er_of (is @ [i])) IDLE b')"
proof (cases i)
  case CsvEmpty
  have "next_token (pst (er_part is (tok_of CsvEmpty)) IDLE []) = pst (er_of (is @ [CsvEmpty])) IDLE []"
    using assms(2) by (rule next_token_part)
  with CsvEmpty assms(2) show ?thesis
    by (simp add: extrsp_step_def extrsp_idle_def er_of_part set_type_def)
next
  case (CsvNum n)
  with assms numeric_end(1) [of n "is" b] show ?thesis by auto
next
  case (CsvStr t)
  with assms lastquote_comma [OF string_item [of t "is" b]] show ?thesis by simp
next
  case (CsvRange a c)
  with assms lastquote_comma [OF range_item [of a c "is" b]] show ?thesis
    by (auto simp del: csv_show.simps)
qed

lemma item_last:
  assumes "csv_ok i" and "length is < 16" and "i \<noteq> CsvEmpty"
  shows "map_option p_er (Option.bind (extrsp_loop (pst (er_of is) IDLE b) (csv_show i)) extrsp_finish) =
         Some (er_of (is @ [i]))"
proof (cases i)
  case CsvEmpty
  with assms(3) show ?thesis by simp
next
  case (CsvNum n)
  with assms numeric_end(2) [of n "is" b] show ?thesis by simp
next
  case (CsvStr t)
  with assms string_item [of t "is" b] show ?thesis by (simp add: extrsp_finish_def)
next
  case (CsvRange a c)
  with assms range_item [of a c "is" b] show ?thesis
    by (simp add: extrsp_finish_def del: csv_show.simps)
qed

lemma render_run:
  assumes "items \<noteq> []" and "\<forall>i \<in> set items. csv_ok i" and "last items \<noteq> CsvEmpty"
    and "length is + length items \<le> 16"
  shows "map_option p_er (Option.bind (extrsp_loop (pst (er_of is) IDLE b) (csv_render items)) extrsp_finish) =
         Some (er_of (is @ items))"
  using assms
proof (induction items arbitrary: "is" b rule: csv_render.induct)
  case 1
  then show ?case by simp
next
  case (2 i)
  then show ?case using item_last [of i "is" b] by simp
next
  case (3 i j js)
  then have "csv_ok i" and "length is < 16" by auto
  then obtain b' where b': "extrsp_loop (pst (er_of is) IDLE b) (csv_show i @ [CHR '','']) =
      Some (pst (er_of (is @ [i])) IDLE b')" using item_comma by blast
  have "extrsp_loop (pst (er_of is) IDLE b) ((csv_show i @ [CHR '','']) @ csv_render (j # js)) =
        extrsp_loop (pst (er_of (is @ [i])) IDLE b') (csv_render (j # js))"
    using b' by (simp only: extrsp_loop_append [of _ "csv_show i @ [CHR '','']"] Option.bind.simps)
  with "3.IH" [of "is @ [i]" b'] "3.prems" show ?case by simp
qed

lemma csv_render_nonempty: "items \<noteq> [] \<Longrightarrow> last items \<noteq> CsvEmpty \<Longrightarrow> csv_render items \<noteq> []"
proof (induction items rule: csv_render.induct)
  case (2 i)
  then show ?case by (cases i) auto
qed auto

section \<open>Bounds\<close>

text \<open>
  What keeps the tokenizer inside its arrays: at most one token per comma and one more,
  at most one range item per comma and one more, and a token text no longer than the
  buffer.  \<open>k\<close> counts the commas, \<open>m\<close> the characters read so far.
\<close>

definition tok_wf :: "gsm_extrsp_tok \<Rightarrow> bool" where
  "tok_wf t \<longleftrightarrow> length (tok_item t) = 16 \<and> length (tok_string t) = 64"

definition pst_inv :: "nat \<Rightarrow> nat \<Rightarrow> extrsp_pst \<Rightarrow> bool" where
  "pst_inv k m s \<longleftrightarrow>
     length (tokens (p_er s)) = 16 \<and> list_all tok_wf (tokens (p_er s)) \<and> length (p_buf s) \<le> m \<and>
     num_tokens (p_er s) \<le> (if p_state s = TOKEN_STRING_LASTQUOTE then k + 1 else k) \<and>
     (\<forall>i < 16. num_tokens (p_er s) < i \<longrightarrow> tok_num_items (tokens (p_er s) ! i) = 0) \<and>
     (num_tokens (p_er s) < 16 \<longrightarrow> tok_num_items (tokens (p_er s) ! num_tokens (p_er s)) \<le>
        (if p_state s = TOKEN_RANGE then k else 0))"

abbreviation "rec_er n ts \<equiv> \<lparr>num_tokens = n, tokens = ts\<rparr>"

lemma pst_inv_rec:
  "pst_inv k m (pst (rec_er n ts) st b) \<longleftrightarrow>
     length ts = 16 \<and> list_all tok_wf ts \<and> length b \<le> m \<and>
     n \<le> (if st = TOKEN_STRING_LASTQUOTE then k + 1 else k) \<and>
     (\<forall>i < 16. n < i \<longrightarrow> tok_num_items (ts ! i) = 0) \<and>
     (n < 16 \<longrightarrow> tok_num_items (ts ! n) \<le> (if st = TOKEN_RANGE then k else 0))"
  by (simp add: pst_inv_def)

lemma list_all_list_update: "list_all P xs \<Longrightarrow> P x \<Longrightarrow> list_all P (xs[i := x])"
  by (auto simp: list_all_iff dest!: set_update_subset_insert [THEN subsetD])

text \<open>
  Replacing the current token by one of the same shape, and stepping behind it, keep the
  array facts.
\<close>

lemma upd_token_rec:
  "n < length ts \<Longrightarrow> upd_token f (pst (rec_er n ts) st b) =
     map_option (\<lambda>t'. pst (rec_er n (ts[n := t'])) st b) (f (ts ! n))"
  by (simp add: upd_token_def)

lemma next_token_rec [simp]:
  "next_token (pst (rec_er n ts) st b) = pst (rec_er (n + 1) ts) st b"
  by (simp add: next_token_def)

lemma pst_inv_upd:
  assumes "pst_inv k m (pst (rec_er n ts) st b)" and "n < 16" and "tok_wf t'"
    and "n \<le> (if st' = TOKEN_STRING_LASTQUOTE then k' + 1 else k')" and "length b' \<le> m'"
    and "tok_num_items t' \<le> (if st' = TOKEN_RANGE then k' else 0)"
  shows "pst_inv k' m' (pst (rec_er n (ts[n := t'])) st' b')"
  using assms by (auto simp: pst_inv_rec list_all_list_update)

lemma pst_inv_upd_next:
  assumes "pst_inv k m (pst (rec_er n ts) st b)" and "n < 16" and "tok_wf t'"
    and "n + 1 \<le> (if st' = TOKEN_STRING_LASTQUOTE then k' + 1 else k')" and "length b' \<le> m'"
  shows "pst_inv k' m' (pst (rec_er (n + 1) (ts[n := t'])) st' b')"
  using assms by (auto simp: pst_inv_rec list_all_list_update)

lemma set_string_wf:
  "tok_wf t \<Longrightarrow> \<exists>t'. set_string b t = Some t' \<and> tok_wf t' \<and> tok_num_items t' = tok_num_items t"
  by (auto simp: set_string_def tok_wf_def GSM_EXTRSP_MAX_STRBUF_def strlcpy_eval)

lemma pst_inv_tok_wf:
  "pst_inv k m (pst (rec_er n ts) st b) \<Longrightarrow> n < 16 \<Longrightarrow> tok_wf (ts ! n)"
  by (auto simp: pst_inv_rec list_all_length)

lemma idle_inv:
  assumes inv: "pst_inv k m (pst (rec_er n ts) IDLE b)" and k: "k \<le> 15"
  shows "\<exists>s'. extrsp_idle (pst (rec_er n ts) IDLE b) c = Some s' \<and>
              pst_inv (k + of_bool (c = CHR '','')) (m + 1) s'"
proof -
  have n: "n < 16" "n \<le> k" "n < length ts" using inv k by (auto simp: pst_inv_rec)
  have wf: "tok_wf (ts ! n)" using inv n(1) by (rule pst_inv_tok_wf)
  have it: "tok_num_items (ts ! n) = 0" using inv n by (auto simp: pst_inv_rec)
  have u: "pst_inv k' (m + 1) (pst (rec_er n (ts[n := (ts ! n)\<lparr>tok_type := ty\<rparr>])) st' b')"
    if "k \<le> k'" and "length b' \<le> m + 1" for k' st' b' ty
    using pst_inv_upd [OF inv n(1)] wf it n that by (auto simp: tok_wf_def)
  have v: "pst_inv (k + 1) (m + 1) (pst (rec_er (n + 1) (ts[n := (ts ! n)\<lparr>tok_type := ty\<rparr>])) st' [])"
    if "st' \<noteq> TOKEN_STRING_LASTQUOTE" for st' ty
    using pst_inv_upd_next [OF inv n(1)] wf n that by (auto simp: tok_wf_def)
  have id: "pst_inv k (m + 1) (pst (rec_er n ts) IDLE [])" using inv by (auto simp: pst_inv_rec)
  show ?thesis
    using n id u [of k] v
    by (auto simp: extrsp_idle_def Let_def upd_token_rec set_type_def put_buf_def)
qed

lemma numeric_inv:
  assumes inv: "pst_inv k m (pst (rec_er n ts) TOKEN_NUMERIC b)" and k: "k \<le> 15" and m: "m < 512"
  shows "\<exists>s'. extrsp_numeric (pst (rec_er n ts) TOKEN_NUMERIC b) c = Some s' \<and>
              pst_inv (k + of_bool (c = CHR '','')) (m + 1) s'"
proof -
  have n: "n < 16" "n \<le> k" "n < length ts" and b: "length b < 512"
    using inv k m by (auto simp: pst_inv_rec)
  have wf: "tok_wf (ts ! n)" using inv n(1) by (rule pst_inv_tok_wf)
  have v: "pst_inv (k + 1) (m + 1) (pst (rec_er (n + 1) (ts[n := (ts ! n)\<lparr>tok_numeric := x\<rparr>])) IDLE b)" for x
    by (rule pst_inv_upd_next [OF inv n(1)]) (use wf n inv in \<open>auto simp: tok_wf_def pst_inv_rec\<close>)
  have i: "pst_inv k (m + 1) (pst (rec_er n ts) TOKEN_NUMERIC b')" if "length b' \<le> m + 1" for b'
    using inv that by (auto simp: pst_inv_rec)
  show ?thesis
    using n b v i inv
    by (auto simp: extrsp_numeric_def upd_token_rec set_numeric_def put_buf_def get_buf_def pst_inv_rec)
qed

lemma string_inv:
  assumes inv: "pst_inv k m (pst (rec_er n ts) TOKEN_STRING b)" and k: "k \<le> 15" and m: "m < 512"
  shows "\<exists>s'. extrsp_string (pst (rec_er n ts) TOKEN_STRING b) c = Some s' \<and>
              pst_inv (k + of_bool (c = CHR '','')) (m + 1) s'"
proof -
  have n: "n < 16" "n \<le> k" "n < length ts" and b: "length b < 512"
    using inv k m by (auto simp: pst_inv_rec)
  have wf: "tok_wf (ts ! n)" using inv n(1) by (rule pst_inv_tok_wf)
  from set_string_wf [OF wf, of b] obtain t' where
    t': "set_string b (ts ! n) = Some t'" "tok_wf t'" by blast
  have v: "pst_inv k (m + 1) (pst (rec_er (n + 1) (ts[n := t'])) TOKEN_STRING_LASTQUOTE b)"
    by (rule pst_inv_upd_next [OF inv n(1) t'(2)]) (use n inv in \<open>auto simp: pst_inv_rec\<close>)
  have i: "pst_inv k' (m + 1) (pst (rec_er n ts) TOKEN_STRING b')" if "length b' \<le> m + 1" "k \<le> k'" for b' k'
    using inv that by (auto simp: pst_inv_rec)
  show ?thesis
    using n b v i inv t'
    by (auto simp: extrsp_string_def upd_token_rec put_buf_def get_buf_def pst_inv_rec)
qed

lemma range_inv:
  assumes inv: "pst_inv k m (pst (rec_er n ts) TOKEN_RANGE b)" and k: "k \<le> 15" and m: "m < 512"
  shows "\<exists>s'. extrsp_range (pst (rec_er n ts) TOKEN_RANGE b) c = Some s' \<and>
              pst_inv (k + of_bool (c = CHR '','')) (m + 1) s'"
proof -
  have n: "n < 16" "n \<le> k" "n < length ts" and b: "length b < 512" "length b \<le> m"
    using inv k m by (auto simp: pst_inv_rec)
  have wf: "tok_wf (ts ! n)" using inv n(1) by (rule pst_inv_tok_wf)
  have it: "tok_num_items (ts ! n) \<le> k" using inv n by (auto simp: pst_inv_rec)
  have sm: "\<exists>t'. set_min v (ts ! n) = Some t' \<and> tok_wf t' \<and> tok_num_items t' \<le> k" for v
    using wf it k by (auto simp: set_min_def tok_wf_def Let_def)
  have sx: "\<exists>t'. set_max_next v (ts ! n) = Some t' \<and> tok_wf t' \<and> tok_num_items t' \<le> k + 1" for v
    using wf it k by (auto simp: set_max_next_def tok_wf_def Let_def)
  have i: "pst_inv k (m + 1) (pst (rec_er n ts) TOKEN_RANGE b')" if "length b' \<le> m + 1" for b'
    using inv that by (auto simp: pst_inv_rec)
  consider "isdigit c" | "c = CHR ''-''" | "c = CHR '',''" | "c = CHR '')''"
    | "\<not> isdigit c" "c \<notin> {CHR ''-'', CHR '','', CHR '')''}" by blast
  then show ?thesis
  proof cases
    case 1
    with i b isdigit_not_punct [OF 1] show ?thesis by (auto simp: extrsp_range_def put_buf_def)
  next
    case 2
    with sm [of "atoi b"] pst_inv_upd [OF inv n(1), of _ TOKEN_RANGE k "[]" "m + 1"] n b
    show ?thesis by (auto simp: extrsp_range_def upd_token_rec get_buf_def)
  next
    case 3
    with sx [of "atoi b"] pst_inv_upd [OF inv n(1), of _ TOKEN_RANGE "k + 1" b "m + 1"] n b
    show ?thesis by (auto simp: extrsp_range_def upd_token_rec get_buf_def)
  next
    case 4
    with sx [of "atoi b"] pst_inv_upd_next [OF inv n(1), of _ TOKEN_STRING_LASTQUOTE k b "m + 1"] n b
    show ?thesis by (auto simp: extrsp_range_def upd_token_rec get_buf_def)
  next
    case 5
    with i b show ?thesis by (auto simp: extrsp_range_def)
  qed
qed


lemma step_inv:
  assumes "pst_inv k m s" and "k \<le> 15" and "m < 512"
  shows "\<exists>s'. extrsp_step s c = Some s' \<and> pst_inv (k + of_bool (c = CHR '','')) (m + 1) s'"
proof -
  obtain n ts st b where s: "s = pst (rec_er n ts) st b"
    by (metis extrsp_pst.cases gsm_extrsp.cases)
  show ?thesis
  proof (cases st)
    case TOKEN_STRING_LASTQUOTE
    with assms s show ?thesis by (auto simp: extrsp_step_def extrsp_lastquote_def pst_inv_rec)
  qed (use assms s idle_inv numeric_inv string_inv range_inv in \<open>auto simp: extrsp_step_def\<close>)
qed

lemma loop_inv:
  assumes "pst_inv k m s" and "k + count_list cs CHR '','' \<le> 15" and "m + length cs \<le> 512"
  shows "\<exists>s'. extrsp_loop s cs = Some s' \<and>
              pst_inv (k + count_list cs CHR '','') (m + length cs) s'"
  using assms
proof (induction cs arbitrary: k m s)
  case Nil
  then show ?case by simp
next
  case (Cons c cs)
  then have "k \<le> 15" "m < 512" by auto
  with Cons.prems(1) step_inv obtain s1 where s1: "extrsp_step s c = Some s1"
    "pst_inv (k + of_bool (c = CHR '','')) (m + 1) s1" by blast
  with Cons.IH [OF s1(2)] Cons.prems show ?case by auto
qed

lemma finish_inv:
  assumes "pst_inv k m s" and "k \<le> 15" and "m < 512"
  shows "\<exists>s'. extrsp_finish s = Some s' \<and> num_tokens (p_er s') \<le> k + 1"
proof -
  obtain n ts st b where s: "s = pst (rec_er n ts) st b"
    by (metis extrsp_pst.cases gsm_extrsp.cases)
  with assms show ?thesis
    by (cases st) (auto simp: extrsp_finish_def get_buf_def upd_token_rec set_numeric_def pst_inv_rec)
qed

lemma pst_inv_start: "pst_inv 0 0 (pst extrsp_zero IDLE [])"
  by (auto simp: pst_inv_def extrsp_zero_def tok_zero_def tok_wf_def list_all_iff
      GSM_EXTRSP_MAX_TOKENS_def GSM_EXTRSP_MAX_RANGES_def GSM_EXTRSP_MAX_STRBUF_def)

lemma comma_run:
  assumes "length is + n \<le> 16"
  shows "extrsp_loop (pst (er_of is) IDLE []) (replicate n CHR '','') =
         Some (pst (er_of (is @ replicate n CsvEmpty)) IDLE [])"
  using assms
proof (induction n arbitrary: "is")
  case 0
  then show ?case by simp
next
  case (Suc n)
  then have "next_token (pst (er_part is (tok_of CsvEmpty)) IDLE []) = pst (er_of (is @ [CsvEmpty])) IDLE []"
    by (intro next_token_part) simp
  with Suc.IH [of "is @ [CsvEmpty]"] Suc.prems show ?case
    by (simp add: extrsp_step_def extrsp_idle_def er_of_part set_type_def)
qed

text \<open>Tokenizing a printed list gives the fields back.\<close>

lemma extrsp_parse_render:
  assumes "items \<noteq> []" and "length items \<le> 16" and "\<forall>i \<in> set items. csv_ok i"
    and "last items \<noteq> CsvEmpty"
  shows "extrsp_parse True (Some (csv_render items)) = Some (Some (er_of items))"
  using render_run [of items "[]" "[]"] assms csv_render_nonempty [of items]
  by (auto simp: extrsp_parse_def er_zero option_bind_Some_iff)

section \<open>Properties\<close>

text \<open>C17.
  Round trip.  Printing up to 16 fields (numbers, quoted strings, ranges, empty
  positions; the last one not empty) as a comma-separated list and tokenizing it gives
  back exactly those fields, in order, with strings cut to the 63 characters a token can
  hold, and leaves the unused tokens zero.
\<close>

theorem extrsp_roundtrip:
  assumes "items \<noteq> []" and "length items \<le> 16" and "\<forall>i \<in> set items. csv_ok i"
    and "last items \<noteq> CsvEmpty"
  shows "extrsp_parse True (Some (csv_render items)) = Some (Some (er_of items))"
  using assms by (rule extrsp_parse_render)

lemma extrsp_roundtrip_witness:
  "csv_render [CsvStr ''+49301'', CsvNum 145, CsvEmpty, CsvRange 0 3] = DQ # ''+49301'' @ DQ # '',145,,(0-3)'' \<and>
   extrsp_parse True (Some (csv_render [CsvStr ''+49301'', CsvNum 145, CsvEmpty, CsvRange 0 3])) =
     Some (Some (er_of [CsvStr ''+49301'', CsvNum 145, CsvEmpty, CsvRange 0 3]))"
proof
  show "csv_render [CsvStr ''+49301'', CsvNum 145, CsvEmpty, CsvRange 0 3] = DQ # ''+49301'' @ DQ # '',145,,(0-3)''"
    by code_simp
  show "extrsp_parse True (Some (csv_render [CsvStr ''+49301'', CsvNum 145, CsvEmpty, CsvRange 0 3])) =
     Some (Some (er_of [CsvStr ''+49301'', CsvNum 145, CsvEmpty, CsvRange 0 3]))"
    by (rule extrsp_roundtrip) simp_all
qed

text \<open>C35.
  Memory safety.  A response of fewer than 512 characters with at most 15 commas, of
  whatever shape, is tokenized without touching anything outside the token array, the
  range arrays and the scratch buffer, and gives at most 16 tokens.
\<close>

theorem extrsp_parse_safe:
  assumes "str \<noteq> []" and "length str < 512" and "count_list str CHR '','' \<le> 15"
  shows "\<exists>er. extrsp_parse True (Some str) = Some (Some er) \<and> num_tokens er \<le> 16"
proof -
  obtain s where s: "extrsp_loop (pst extrsp_zero IDLE []) str = Some s"
    "pst_inv (0 + count_list str CHR '','') (0 + length str) s"
    using loop_inv [OF pst_inv_start] assms(2,3) by fastforce
  with finish_inv [OF s(2)] assms show ?thesis
    by (auto simp: extrsp_parse_def)
qed

lemma extrsp_parse_safe_witness:
  "\<exists>er. extrsp_parse True (Some ''(0,1),x'') = Some (Some er) \<and> num_tokens er \<le> 16"
  by (rule extrsp_parse_safe) simp_all

text \<open>
  The bound is needed: the tokenizer does not check it.  A response of 17 or more commas
  makes it write a token behind the 16-element array.
\<close>

lemma extrsp_parse_token_overflow:
  "extrsp_parse True (Some (replicate (17 + n) CHR '','')) = None"
proof -
  have split: "replicate (17 + n) CHR '','' = replicate 16 CHR '','' @ CHR '','' # replicate n CHR '',''"
    by (simp add: replicate_add numeral_eq_Suc)
  have "extrsp_loop (pst extrsp_zero IDLE []) (replicate 16 CHR '','') =
        Some (pst (er_of (replicate 16 CsvEmpty)) IDLE [])"
    using comma_run [of "[]" 16] by (simp add: er_zero)
  then have "extrsp_loop (pst extrsp_zero IDLE []) (replicate (17 + n) CHR '','') = None"
    unfolding split extrsp_loop_append
    by (simp add: extrsp_step_def extrsp_idle_def upd_token_def er_of_def GSM_EXTRSP_MAX_TOKENS_def)
  then show ?thesis by (simp add: extrsp_parse_def)
qed

text \<open>
  A list of single values in parentheses is read wrongly: each comma inside a range
  neither clears the digits read so far nor sets the lower bound, so \<open>(1,3)\<close> becomes the
  ranges 0-1 and 0-13, and 2 and 7 are reported as supported.
\<close>

lemma extrsp_range_list_misread:
  "\<exists>er. extrsp_parse True (Some ''(1,3)'') = Some (Some er) \<and>
        take 2 (tok_item (tokens er ! 0)) = [(0, 1), (0, 13)] \<and>
        extrsp_supports er 0 2 = 1 \<and> extrsp_supports er 0 7 = 1"
proof -
  define er where "er = the (the (extrsp_parse True (Some ''(1,3)'')))"
  have "extrsp_parse True (Some ''(1,3)'') = Some (Some er)"
    unfolding er_def by code_simp
  moreover have "take 2 (tok_item (tokens er ! 0)) = [(0, 1), (0, 13)]"
    unfolding er_def by code_simp
  moreover have "extrsp_supports er 0 2 = 1" "extrsp_supports er 0 7 = 1"
    unfolding er_def by code_simp+
  ultimately show ?thesis by blast
qed

end
