(* ===== verification/Unsolicited.thy ===== *)
theory Unsolicited
  imports Events Extrsp Strl
begin

text \<open>
  Unsolicited result codes: the parsers of \<open>src/gsmd/unsolicited.c\<close>, of the short message
  part \<open>src/gsmd/sms_cb.c\<close> and of the vendor plugins, the table that selects one by the
  prefix of the line, and the events that error codes cause.
\<close>

unbundle bit_operations_syntax

section \<open>Commands that the daemon submits itself\<close>

definition gsmd_simplecmd :: "string \<Rightarrow> gsmd \<Rightarrow> (int \<times> gsmd) option" where
  "gsmd_simplecmd cmdtxt g = do {
     (c, g1) \<leftarrow> atcmd_fill cmdtxt (int (length cmdtxt) + 1) (Some Gsmd_test_atcb) Ctx_null 0 Discard_timer g;
     case c of None \<Rightarrow> Some (- ENOMEM, g1) | Some cmd \<Rightarrow> atcmd_submit cmd g1 }"

text \<open>\<open>rc |= gsmd_simplecmd (g, ...)\<close> for several commands.\<close>

fun simplecmds :: "string list \<Rightarrow> int \<times> gsmd \<Rightarrow> (int \<times> gsmd) option" where
  "simplecmds [] s = Some s"
| "simplecmds (c # cs) (rc, g) = do { (r, g1) \<leftarrow> gsmd_simplecmd c g; simplecmds cs (rc OR r, g1) }"

definition sms_cb_network_init :: "gsmd \<Rightarrow> (int \<times> gsmd) option" where
  "sms_cb_network_init g = simplecmds [''AT+CSMS=0'', ''AT+CNMI=2,1,2,1,0''] (0, g)"

section \<open>Parameters\<close>

text \<open>
  The parameter pointer of a parser: \<open>NULL\<close>, the address 2 that results from a line without
  a colon, or a string.
\<close>

datatype uparam = P_null | P_wild | P_str string

fun deref :: "uparam \<Rightarrow> string option" where
  "deref (P_str s) = Some s"
| "deref _ = None"

text \<open>\<open>extrsp_parse\<close> with the allocation it makes; only \<open>NULL\<close> is recognised.\<close>

definition er_parse :: "uparam \<Rightarrow> gsmd \<Rightarrow> (gsm_extrsp option \<times> gsmd) option" where
  "er_parse p g =
     (case p of
        P_wild \<Rightarrow> None
      | P_null \<Rightarrow> Some (None, g)
      | P_str s \<Rightarrow>
          if s = [] then Some (None, g)
          else let (ok, g1) = talloc g in map_option (\<lambda>er. (er, g1)) (extrsp_parse ok (Some s)))"

definition tok_types :: "gsm_extrsp \<Rightarrow> nat \<Rightarrow> gsm_extrsp_tok_type list" where
  "tok_types er n = map tok_type (take n (tokens er))"

definition tok_str :: "gsm_extrsp \<Rightarrow> nat \<Rightarrow> string" where
  "tok_str er i = cstr (tok_string (tokens er ! i))"

definition tok_num :: "gsm_extrsp \<Rightarrow> nat \<Rightarrow> int" where
  "tok_num er i = tok_numeric (tokens er ! i)"

text \<open>\<open>strcpy\<close> into a new array of \<open>n\<close> characters; what it does not set is shown as zero.\<close>

definition strcpy_new :: "nat \<Rightarrow> string \<Rightarrow> char list option" where
  "strcpy_new n s = (if length s < n then Some (s @ replicate (n - length s) NUL) else None)"

definition GSMD_ALPHA_MAXLEN :: nat where "GSMD_ALPHA_MAXLEN = 20"

definition new_addr :: "string \<Rightarrow> int \<Rightarrow> gsmd_addr option" where
  "new_addr number ty = map_option (\<lambda>a. \<lparr>ga_type = of_int ty, ga_number = a\<rparr>) (strcpy_new (GSMD_ADDR_MAXLEN + 1) number)"

section \<open>Calls, registration, operators (\<open>unsolicited.c\<close>)\<close>

definition ring_parse :: "gsmd \<Rightarrow> (int \<times> gsmd) option" where
  "ring_parse g = map_option
     (send_event (- ENOMEM) GSMD_EVT_IN_CALL sizeof_gsmd_evt_auxdata (Ud_evt (Aux_call 1))) (state_ringing_update g)"

definition cring_type :: "string \<Rightarrow> nat option" where
  "cring_type param =
     (if param = ''VOICE'' then Some 2
      else if param = ''SYNC'' then Some 5
      else if param = ''REL ASYNC'' then Some 6
      else if param = ''REL SYNC'' then Some 7
      else if param = ''FAX'' then Some 4
      else if strncmp_eq param ''GPRS '' 5 then None
      else Some 1)"

definition cring_parse :: "uparam \<Rightarrow> gsmd \<Rightarrow> (int \<times> gsmd) option" where
  "cring_parse p g =
     (let (ok, g1) = talloc g in
      if \<not> ok then Some (- ENOMEM, g1)
      else do {
        param \<leftarrow> deref p;
        case cring_type param of
          None \<Rightarrow> Some (0, g1)
        | Some ty \<Rightarrow> Some (usock_evt_send (usock_build_event GSMD_MSG_EVENT GSMD_EVT_IN_CALL sizeof_gsmd_evt_auxdata
            (Ud_evt (Aux_call ty))) GSMD_EVT_IN_CALL g1) })"

text \<open>
  \<open>creg_parse\<close>.  The parameter lies in a buffer padded with zeros, so reading one or two
  characters behind a comma at its end finds an empty string.
\<close>

definition creg_parse :: "uparam \<Rightarrow> gsmd \<Rightarrow> (int \<times> gsmd) option" where
  "creg_parse p g = do {
     param \<leftarrow> deref p;
     let prev_registered = ds_registered (g_dev_state g);
     let (state, used) = strtol 10 param;
     if used = 0 then Some (- EINVAL, g)
     else do {
       let registered = (state = 1 \<or> state = 5);
       let g1 = g\<lparr>g_dev_state := (g_dev_state g)\<lparr>ds_registered := registered\<rparr>\<rparr>;
       (_, g2) \<leftarrow> (if registered \<and> \<not> prev_registered then sms_cb_network_init g1 else Some (0, g1));
       let (ok, g3) = talloc g2;
       if \<not> ok then Some (- ENOMEM, g3)
       else (case strchr param CHR '','' of
           None \<Rightarrow> Some (usock_evt_send (usock_build_event GSMD_MSG_EVENT GSMD_EVT_NETREG sizeof_gsmd_evt_auxdata
                     (Ud_evt (Aux_netreg (atoi param) 0 0))) GSMD_EVT_NETREG g3)
         | Some c \<Rightarrow>
             let lac = of_int (fst (strtoul 16 (drop (c + 2) param)));
                 r = drop (c + 1) param
             in (case strchr r CHR '','' of
                   None \<Rightarrow> Some (- EINVAL, g3)
                 | Some c2 \<Rightarrow>
                     let ci = of_int (fst (strtoul 16 (drop (c2 + 2) r)))
                     in Some (usock_evt_send (usock_build_event GSMD_MSG_EVENT GSMD_EVT_NETREG sizeof_gsmd_evt_auxdata
                          (Ud_evt (Aux_netreg (atoi param) lac ci))) GSMD_EVT_NETREG g3))) } }"

definition ccwa_parse :: "uparam \<Rightarrow> gsmd \<Rightarrow> (int \<times> gsmd) option" where
  "ccwa_parse p g =
     (let (ok, g1) = talloc g in
      if \<not> ok then Some (- ENOMEM, g1)
      else do {
        (ero, g2) \<leftarrow> er_parse p g1;
        case ero of
          None \<Rightarrow> Some (- ENOMEM, g2)
        | Some er \<Rightarrow>
            if num_tokens er = 5 \<and>
               (tok_types er 5 = [GSMD_ECMD_RTT_STRING, GSMD_ECMD_RTT_NUMERIC, GSMD_ECMD_RTT_NUMERIC,
                                  GSMD_ECMD_RTT_EMPTY, GSMD_ECMD_RTT_NUMERIC] \<or>
                tok_types er 5 = [GSMD_ECMD_RTT_STRING, GSMD_ECMD_RTT_NUMERIC, GSMD_ECMD_RTT_NUMERIC,
                                  GSMD_ECMD_RTT_STRING, GSMD_ECMD_RTT_NUMERIC]) then do {
              addr \<leftarrow> new_addr (tok_str er 0) (tok_num er 1);
              alpha \<leftarrow> strcpy_new (GSMD_ALPHA_MAXLEN + 1)
                 (if tok_type (tokens er ! 3) = GSMD_ECMD_RTT_EMPTY then [] else tok_str er 3);
              Some (usock_evt_send (usock_build_event GSMD_MSG_EVENT GSMD_EVT_CALL_WAIT sizeof_gsmd_evt_auxdata
                (Ud_evt (Aux_ccwa addr (of_int (tok_num er 2)) alpha (of_int (tok_num er 4))))) GSMD_EVT_CALL_WAIT g2) }
            else Some (- EINVAL, g2) })"

text \<open>\<open>clip_parse\<close> and \<open>colp_parse\<close> differ in the event only.\<close>

definition addr_parse :: "nat \<Rightarrow> (gsmd_addr \<Rightarrow> evt_aux) \<Rightarrow> uparam \<Rightarrow> gsmd \<Rightarrow> (int \<times> gsmd) option" where
  "addr_parse evt aux p g =
     (let (ok, g1) = talloc g in
      if \<not> ok then Some (- ENOMEM, g1)
      else do {
        (ero, g2) \<leftarrow> er_parse p g1;
        case ero of
          None \<Rightarrow> Some (- ENOMEM, g2)
        | Some er \<Rightarrow>
            if 2 \<le> num_tokens er \<and> tok_types er 2 = [GSMD_ECMD_RTT_STRING, GSMD_ECMD_RTT_NUMERIC] then do {
              addr \<leftarrow> new_addr (tok_str er 0) (tok_num er 1);
              Some (usock_evt_send (usock_build_event GSMD_MSG_EVENT evt sizeof_gsmd_evt_auxdata (Ud_evt (aux addr))) evt g2) }
            else Some (- EINVAL, g2) })"

definition clip_parse :: "uparam \<Rightarrow> gsmd \<Rightarrow> (int \<times> gsmd) option" where
  "clip_parse = addr_parse GSMD_EVT_IN_CLIP Aux_clip"

definition colp_parse :: "uparam \<Rightarrow> gsmd \<Rightarrow> (int \<times> gsmd) option" where
  "colp_parse = addr_parse GSMD_EVT_OUT_COLP Aux_colp"

definition ctzv_parse :: "uparam \<Rightarrow> gsmd \<Rightarrow> (int \<times> gsmd) option" where
  "ctzv_parse p g =
     (let (ok, g1) = talloc g in
      if \<not> ok then Some (- ENOMEM, g1)
      else do {
        param \<leftarrow> deref p;
        let tz = atoi param;
        if tz < - 48 \<or> 48 < tz then Some (- EINVAL, g1)
        else Some (usock_evt_send (usock_build_event GSMD_MSG_EVENT GSMD_EVT_TIMEZONE sizeof_gsmd_evt_auxdata
               (Ud_evt (Aux_timezone (of_int tz)))) GSMD_EVT_TIMEZONE g1) })"

definition copn_parse :: "uparam \<Rightarrow> gsmd \<Rightarrow> (int \<times> gsmd) option" where
  "copn_parse p g = do {
     (ero, g1) \<leftarrow> er_parse p g;
     case ero of
       None \<Rightarrow> Some (- ENOMEM, g1)
     | Some er \<Rightarrow>
         if num_tokens er = 2 \<and> tok_types er 2 = [GSMD_ECMD_RTT_STRING, GSMD_ECMD_RTT_STRING] then do {
           let (ok, g2) = (if length (tok_str er 0) = 5 then talloc g1 else (True, g1));
           (rc, ops) \<leftarrow> gsmd_opname_add ok (replicate ALNUM_LONG_SIZE NUL) (g_operators g2) (tok_str er 0) (tok_str er 1);
           Some (rc, g2\<lparr>g_operators := ops\<rparr>) }
         else Some (0, g1) }"

section \<open>Short messages and cell broadcast (\<open>sms_cb.c\<close>)\<close>

definition ts0705_memtype_name :: "string list" where
  "ts0705_memtype_name = [''NONE'', ''BM'', ''ME'', ''MT'', ''SM'', ''TA'', ''SR'']"

definition parse_memtype :: "string \<Rightarrow> nat" where
  "parse_memtype m =
     (case find (\<lambda>i. ts0705_memtype_name ! i = m) [0..<length ts0705_memtype_name] of None \<Rightarrow> 0 | Some i \<Rightarrow> i)"

definition SMS_MAX_PDU_SIZE :: nat where "SMS_MAX_PDU_SIZE = 180"

text \<open>\<open>cmti_parse\<close>, \<open>cbmi_parse\<close> and \<open>cdsi_parse\<close>: a message has been stored.\<close>

definition index_parse :: "nat \<Rightarrow> (nat \<Rightarrow> int \<Rightarrow> evt_aux) \<Rightarrow> uparam \<Rightarrow> gsmd \<Rightarrow> (int \<times> gsmd) option" where
  "index_parse evt aux p g =
     (let (ok, g1) = talloc g in
      if \<not> ok then Some (- ENOMEM, g1)
      else do {
        param \<leftarrow> deref p;
        case sscanf ([Lit DQ, Set upper (Some 2), Lit DQ, Lit CHR '','', Int_i 32]) param 0 of
          [VStr memstr, VInt i] \<Rightarrow>
            Some (usock_evt_send (usock_build_event GSMD_MSG_EVENT evt sizeof_gsmd_evt_auxdata
              (Ud_evt (aux (parse_memtype memstr) i))) evt g1)
        | _ \<Rightarrow> Some (- EINVAL, g1) })"

definition cmti_parse :: "uparam \<Rightarrow> gsmd \<Rightarrow> (int \<times> gsmd) option" where
  "cmti_parse = index_parse GSMD_EVT_IN_SMS (Aux_sms (replicate (GSMD_ALPHA_MAXLEN + 1) NUL) False)"

definition cbmi_parse :: "uparam \<Rightarrow> gsmd \<Rightarrow> (int \<times> gsmd) option" where
  "cbmi_parse = index_parse GSMD_EVT_IN_CBM (Aux_cbm False)"

definition cdsi_parse :: "uparam \<Rightarrow> gsmd \<Rightarrow> (int \<times> gsmd) option" where
  "cdsi_parse = index_parse GSMD_EVT_IN_DS (Aux_ds False)"

text \<open>\<open>cmt_parse\<close>: the header line is copied into \<open>tmp[64]\<close>, the PDU follows on the next line.\<close>

definition cmt_parse :: "uparam \<Rightarrow> gsmd \<Rightarrow> (int \<times> gsmd) option" where
  "cmt_parse p g =
     (let (ok, g1) = talloc g in
      if \<not> ok then Some (- ENOMEM, g1)
      else do {
        param \<leftarrow> deref p;
        case strchr param LF of
          None \<Rightarrow> Some (- EAGAIN, g1)
        | Some k \<Rightarrow>
            if 64 \<le> k then None
            else do {
              (ero, g2) \<leftarrow> er_parse (P_str (take k param)) g1;
              case ero of
                None \<Rightarrow> Some (- ENOMEM, g2)
              | Some er \<Rightarrow>
                  if num_tokens er = 2 \<and>
                     (tok_types er 2 = [GSMD_ECMD_RTT_EMPTY, GSMD_ECMD_RTT_NUMERIC] \<or>
                      tok_types er 2 = [GSMD_ECMD_RTT_STRING, GSMD_ECMD_RTT_NUMERIC]) then do {
                    alpha \<leftarrow> strcpy_new (GSMD_ALPHA_MAXLEN + 1)
                      (if tok_type (tokens er ! 0) = GSMD_ECMD_RTT_EMPTY then [] else tok_str er 0);
                    case hex_octets SMS_MAX_PDU_SIZE (drop (k + 1) param) of
                      None \<Rightarrow> Some (- EINVAL, g2)
                    | Some pdu \<Rightarrow> do {
                        (r, msg) \<leftarrow> sms_pdu_to_msg sms_list_zero pdu (tok_num er 1) (int (length pdu));
                        if r \<noteq> 0 then Some (- EINVAL, g2)
                        else Some (usock_evt_send (usock_build_event GSMD_MSG_EVENT GSMD_EVT_IN_SMS
                               (sizeof_gsmd_evt_auxdata + sizeof_gsmd_sms_list)
                               (Ud_evt_sms (Aux_sms alpha True 0 0) msg)) GSMD_EVT_IN_SMS g2) } }
                  else Some (- EINVAL, g2) } })"

text \<open>The length field of \<open>+CBM\<close> and \<open>+CDS\<close>, converted from \<open>unsigned long\<close> to \<open>int\<close>.\<close>

definition cbm_zero :: gsmd_cbm where
  "cbm_zero = \<lparr>cbm_scope = 0, cbm_msg_code = 0, cbm_update_num = 0, cbm_msg_id = 0, cbm_language = 0,
     cbm_coding_scheme = 0, cbm_pages = 0, cbm_page = 0, cbm_data = replicate 82 0\<rparr>"

definition cbm_parse :: "uparam \<Rightarrow> gsmd \<Rightarrow> (int \<times> gsmd) option" where
  "cbm_parse p g =
     (let (ok, g1) = talloc g in
      if \<not> ok then Some (- ENOMEM, g1)
      else do {
        param \<leftarrow> deref p;
        let (n, k) = strtoul 10 param;
        if c_at param k \<noteq> LF then Some (- EAGAIN, g1)
        else (case hex_octets CBM_MAX_PDU_SIZE (drop (k + 1) param) of
            None \<Rightarrow> Some (- EINVAL, g1)
          | Some pdu \<Rightarrow> do {
              (r, msg) \<leftarrow> cbs_pdu_to_msg cbm_zero pdu (to_int32 n) (int (length pdu));
              if r \<noteq> 0 then Some (- EINVAL, g1)
              else Some (usock_evt_send (usock_build_event GSMD_MSG_EVENT GSMD_EVT_IN_CBM
                     (sizeof_gsmd_evt_auxdata + sizeof_gsmd_cbm) (Ud_evt_cbm (Aux_cbm True 0 0) msg)) GSMD_EVT_IN_CBM g1) }) })"

definition cds_parse :: "uparam \<Rightarrow> gsmd \<Rightarrow> (int \<times> gsmd) option" where
  "cds_parse p g =
     (let (ok, g1) = talloc g in
      if \<not> ok then Some (- ENOMEM, g1)
      else do {
        param \<leftarrow> deref p;
        let (n, k) = strtoul 10 param;
        if c_at param k \<noteq> LF then Some (- EAGAIN, g1)
        else (case hex_octets SMS_MAX_PDU_SIZE (drop (k + 1) param) of
            None \<Rightarrow> Some (- EINVAL, g1)
          | Some pdu \<Rightarrow> do {
              (r, msg) \<leftarrow> sms_pdu_to_msg sms_list_zero pdu (to_int32 n) (int (length pdu));
              if r \<noteq> 0 then Some (- EINVAL, g1)
              else Some (usock_evt_send (usock_build_event GSMD_MSG_EVENT GSMD_EVT_IN_DS
                     (sizeof_gsmd_evt_auxdata + sizeof_gsmd_sms_list) (Ud_evt_sms (Aux_ds True 0 0) msg)) GSMD_EVT_IN_DS g1) }) })"

section \<open>Results of the vendor plugins\<close>

text \<open>The tokens that successive calls of \<open>strtok\<close> with one delimiter return.\<close>

fun strtok_from :: "char \<Rightarrow> string \<Rightarrow> string \<Rightarrow> string list" where
  "strtok_from d cur [] = (if cur = [] then [] else [cur])"
| "strtok_from d cur (c # s) =
     (if c \<noteq> d then strtok_from d (cur @ [c]) s
      else if cur = [] then strtok_from d [] s
      else cur # strtok_from d [] s)"

definition strtok :: "char \<Rightarrow> string \<Rightarrow> string list" where
  "strtok d s = strtok_from d [] s"

definition csq_parse :: "uparam \<Rightarrow> gsmd \<Rightarrow> (int \<times> gsmd) option" where
  "csq_parse p g =
     (let (ok, g1) = talloc g in
      if \<not> ok then Some (- EINVAL, g1)
      else do {
        param \<leftarrow> deref p;
        case sscanf [Ws, Int_i 8, Lit CHR '','', Ws, Int_i 8] param 0 of
          [VInt rssi, VInt ber] \<Rightarrow>
            Some (0, snd (usock_evt_send (usock_build_event GSMD_MSG_EVENT GSMD_EVT_SIGNAL sizeof_gsmd_evt_auxdata
              (Ud_evt (Aux_signal (of_int rssi) (of_int ber)))) GSMD_EVT_SIGNAL g1))
        | _ \<Rightarrow> Some (- EIO, g1) })"

definition GSMD_CIPHIND_DISABLED_SIM :: u32 where "GSMD_CIPHIND_DISABLED_SIM = 0x02"
definition GSMD_CIPHIND_ACTIVE :: u32 where "GSMD_CIPHIND_ACTIVE = 0x04"

text \<open>\<open>cpri_parse\<close> and \<open>cpi_parse\<close> work on the line, not on the parameter.\<close>

definition cpri_parse :: "string \<Rightarrow> gsmd \<Rightarrow> (int \<times> gsmd) option" where
  "cpri_parse buf g = do {
     (_, tx_buf) \<leftarrow> strlcpy (replicate 20 NUL) buf 20;
     case strtok CHR '','' (cstr tx_buf) of
       [] \<Rightarrow> Some (- EIO, g)
     | [tok1] \<Rightarrow>
         let ds = g_dev_state g; f = ds_ciph_ind_flags ds;
             f' = (if atoi tok1 = 0 then f AND NOT GSMD_CIPHIND_ACTIVE
                   else if atoi tok1 = 1 then f OR GSMD_CIPHIND_ACTIVE
                   else if atoi tok1 = 2 then f OR GSMD_CIPHIND_DISABLED_SIM else f)
         in Some (0, g\<lparr>g_dev_state := ds\<lparr>ds_ciph_ind_flags := f'\<rparr>\<rparr>)
     | tok1 # tok2 # _ \<Rightarrow>
         let (ok, g1) = talloc g in
         if \<not> ok then Some (- ENOMEM, g1)
         else Some (0, snd (usock_evt_send (usock_build_event GSMD_MSG_EVENT GSMD_EVT_CIPHER sizeof_gsmd_evt_auxdata
                (Ud_evt (Aux_cipher (of_int (atoi tok2))))) GSMD_EVT_CIPHER g1)) }"

definition cpi_dir :: "string list \<Rightarrow> nat option" where
  "cpi_dir toks =
     (case toks of
        tok # _ \<Rightarrow> if 48 \<le> ord_c (c_at tok 0) \<and> ord_c (c_at tok 0) \<le> 51 then Some (ord_c (c_at tok 0) - 48) else None
      | [] \<Rightarrow> None)"

definition cpi_parse :: "string \<Rightarrow> gsmd \<Rightarrow> (int \<times> gsmd) option" where
  "cpi_parse buf g =
     (let (ok, g1) = talloc g in do {
        (_, tx_buf) \<leftarrow> strlcpy (replicate 64 NUL) buf 64;
        if \<not> ok then Some (- EINVAL, g1)
        else (case strtok CHR '','' (cstr tx_buf) of
            _ # prog # ibt # tch # toks \<Rightarrow>
              Some (0, snd (usock_evt_send (usock_build_event GSMD_MSG_EVENT GSMD_EVT_OUT_STATUS sizeof_gsmd_evt_auxdata
                (Ud_evt (Aux_call_status (atoi prog) (c_at ibt 0 = CHR ''1'') (c_at tch 0 = CHR ''1'') (cpi_dir toks))))
                GSMD_EVT_OUT_STATUS g1))
          | _ \<Rightarrow> Some (- EIO, g1)) })"

definition rssi_table :: "int list" where "rssi_table = [0, 5, 10, 15, 20, 25, 99]"

definition htccsq_parse :: "string \<Rightarrow> gsmd \<Rightarrow> (int \<times> gsmd) option" where
  "htccsq_parse buf g =
     (let (ok, g1) = talloc g in
      if \<not> ok then Some (- EINVAL, g1)
      else if atoi buf < 0 \<or> int (length rssi_table) \<le> atoi buf then None
      else Some (0, snd (usock_evt_send (usock_build_event GSMD_MSG_EVENT GSMD_EVT_SIGNAL sizeof_gsmd_evt_auxdata
             (Ud_evt (Aux_signal (of_int (rssi_table ! nat (atoi buf))) 99))) GSMD_EVT_SIGNAL g1)))"

section \<open>The table of parsers\<close>

text \<open>Calling a parser: \<open>parse (buf, len, param, g)\<close>.\<close>

fun unsol_run :: "unsol_parse \<Rightarrow> string \<Rightarrow> uparam \<Rightarrow> gsmd \<Rightarrow> (int \<times> gsmd) option" where
  "unsol_run Ring_parse buf p g = ring_parse g"
| "unsol_run Cring_parse buf p g = cring_parse p g"
| "unsol_run Creg_parse buf p g = creg_parse p g"
| "unsol_run Ccwa_parse buf p g = ccwa_parse p g"
| "unsol_run Cusd_parse buf p g = Some (0, g)"
| "unsol_run Cccm_parse buf p g = Some (0, g)"
| "unsol_run Cgev_parse buf p g = Some (0, g)"
| "unsol_run Cgreg_parse buf p g = Some (0, g)"
| "unsol_run Clip_parse buf p g = clip_parse p g"
| "unsol_run Colp_parse buf p g = colp_parse p g"
| "unsol_run Ctzv_parse buf p g = ctzv_parse p g"
| "unsol_run Copn_parse buf p g = copn_parse p g"
| "unsol_run Cmti_parse buf p g = cmti_parse p g"
| "unsol_run Cmt_parse buf p g = cmt_parse p g"
| "unsol_run Cbmi_parse buf p g = cbmi_parse p g"
| "unsol_run Cbm_parse buf p g = cbm_parse p g"
| "unsol_run Cdsi_parse buf p g = cdsi_parse p g"
| "unsol_run Cds_parse buf p g = cds_parse p g"
| "unsol_run Csq_parse buf p g = csq_parse p g"
| "unsol_run Cpri_parse buf p g = cpri_parse buf g"
| "unsol_run Cpi_parse buf p g = cpi_parse buf g"
| "unsol_run Ti_ctzv_parse buf p g = Some (0, g)"
| "unsol_run Htccsq_parse buf p g = htccsq_parse buf g"
| "unsol_run Mrdy_parse buf p g = map_option (\<lambda>_. (0, g)) (deref p)"
| "unsol_run Mtsmenu_parse buf p g = Some (0, g)"
| "unsol_run Wcdma_parse buf p g = Some (0, g)"

definition gsm0707_unsolicit :: "(string \<times> unsol_parse) list" where
  "gsm0707_unsolicit =
     [(''RING'', Ring_parse), (''+CRING'', Cring_parse), (''+CREG'', Creg_parse), (''+CCWA'', Ccwa_parse),
      (''+CUSD'', Cusd_parse), (''+CCCM'', Cccm_parse), (''+CGEV'', Cgev_parse), (''+CGREG'', Cgreg_parse),
      (''+CLIP'', Clip_parse), (''+COLP'', Colp_parse), (''+CTZV'', Ctzv_parse), (''+COPN'', Copn_parse)]"

definition gsm0705_unsolicit :: "(string \<times> unsol_parse) list" where
  "gsm0705_unsolicit =
     [(''+CMTI'', Cmti_parse), (''+CMT'', Cmt_parse), (''+CBMI'', Cbmi_parse), (''+CBM'', Cbm_parse),
      (''+CDSI'', Cdsi_parse), (''+CDS'', Cds_parse)]"

fun vendor_unsolicit :: "vendor \<Rightarrow> (string \<times> unsol_parse) list" where
  "vendor_unsolicit Vendor_ti =
     [(''%CSQ'', Csq_parse), (''%CPRI'', Cpri_parse), (''%CPI'', Cpi_parse), (''%CTZV'', Ti_ctzv_parse)]"
| "vendor_unsolicit Vendor_tihtc = [(''%HTCCSQ'', Htccsq_parse), (''%CPRI'', Cpri_parse), (''%CPI'', Cpi_parse)]"
| "vendor_unsolicit Vendor_bcm = [(''*MRDY'', Mrdy_parse), (''*MTSMENU'', Mtsmenu_parse)]"
| "vendor_unsolicit Vendor_qc = [(''@HTCCSQ'', Htccsq_parse), (''[WCDMA]'', Wcdma_parse)]"
| "vendor_unsolicit Vendor_telit = [(''+CSQ'', Csq_parse)]"

text \<open>New entries go in front; one entry stays free for the end mark.\<close>

definition unsolicited_register_array :: "(string \<times> unsol_parse) list \<Rightarrow> gsmd \<Rightarrow> int \<times> gsmd" where
  "unsolicited_register_array arr g =
     (if 256 < length arr + (length (g_unsolicit g) + 1) then (- ENOMEM, g)
      else (0, g\<lparr>g_unsolicit := arr @ g_unsolicit g\<rparr>))"

definition unsolicited_init :: "gsmd \<Rightarrow> gsmd" where
  "unsolicited_init g =
     (let g1 = snd (unsolicited_register_array gsm0707_unsolicit g)
      in snd (unsolicited_register_array (vendor_unsolicit (g_vendorpl g1)) g1))"

text \<open>
  The parameter: \<open>strchr (buf, ':') + 2\<close>, or \<open>NULL\<close> behind the end.  Without a colon the
  address is 2, which is not above \<open>buf + len\<close>.
\<close>

definition colon_param :: "string \<Rightarrow> int \<Rightarrow> uparam" where
  "colon_param buf len =
     (case strchr buf CHR '':'' of
        None \<Rightarrow> P_wild
      | Some k \<Rightarrow> if len < int k + 2 then P_null else P_str (drop (k + 2) buf))"

definition find_unsol :: "string \<Rightarrow> (string \<times> unsol_parse) list \<Rightarrow> (string \<times> unsol_parse) option" where
  "find_unsol buf tab = find (\<lambda>(prefix, _). strncmp_eq buf prefix (length prefix)) tab"

definition unsolicited_parse :: "string \<Rightarrow> int \<Rightarrow> gsmd \<Rightarrow> (int \<times> gsmd) option" where
  "unsolicited_parse buf len g =
     (case find_unsol buf (g_unsolicit g) of
        None \<Rightarrow> Some (- ENOENT, g)
      | Some (_, f) \<Rightarrow> unsol_run f buf (colon_param buf len) g)"

section \<open>Events from error codes\<close>

definition errors_creating_events :: "nat list" where
  "errors_creating_events = [0, 1, 2, 5, 6, 7, 10, 11, 12, 17, 18, 40, 41, 42, 43, 44, 45, 46, 47]"

definition is_in_array :: "nat \<Rightarrow> nat list \<Rightarrow> bool" where
  "is_in_array val arr \<longleftrightarrow> list_ex (\<lambda>x. x = val) arr"

definition pintype_from_cme :: "nat list" where
  "pintype_from_cme =
     (replicate 100 0)[5 := 3, 6 := 4, 7 := 5, 11 := 1, 12 := 2, 17 := 6, 18 := 7, 40 := 8, 41 := 9,
                       42 := 10, 43 := 11, 44 := 12, 45 := 13, 46 := 14, 47 := 15]"

definition generate_event_from_cme :: "nat \<Rightarrow> gsmd \<Rightarrow> int \<times> gsmd" where
  "generate_event_from_cme cme_error g =
     (if \<not> is_in_array cme_error errors_creating_events then
        send_event (- 1) GSMD_EVT_IN_ERROR sizeof_gsmd_evt_auxdata (Ud_evt (Aux_cme_err (to_int32 (int cme_error)))) g
      else if 100 \<le> cme_error \<or> pintype_from_cme ! cme_error = 0 then (0, g)
      else send_event (- 1) GSMD_EVT_PIN sizeof_gsmd_evt_auxdata (Ud_evt (Aux_pin (pintype_from_cme ! cme_error))) g)"

definition generate_event_from_cms :: "nat \<Rightarrow> gsmd \<Rightarrow> int \<times> gsmd" where
  "generate_event_from_cms cms_error g =
     send_event (- 1) GSMD_EVT_IN_ERROR sizeof_gsmd_evt_auxdata (Ud_evt (Aux_cms_err (to_int32 (int cms_error)))) g"

end
