(* ===== verification/UsockCb.thy ===== *)
theory UsockCb
  imports Unsolicited
begin

text \<open>
  The callbacks of \<open>src/gsmd/usock.c\<close>: what the daemon tells a client when the modem has
  answered the command the client asked for.  \<open>resp\<close> is the text collected for the
  command or its final result code.  A response lies in a buffer with zeros behind it, so
  a few characters behind its end read as an empty string.
\<close>

unbundle bit_operations_syntax

section \<open>Helpers\<close>

text \<open>\<open>struct gsmd_user *gu = ctx\<close>.\<close>

definition ctx_user :: "gsmd_atcmd \<Rightarrow> nat option" where
  "ctx_user cmd = (case ac_ctx cmd of Ctx_user a \<Rightarrow> Some a | _ \<Rightarrow> None)"

definition reply :: "gsmd_atcmd \<Rightarrow> nat \<Rightarrow> nat \<Rightarrow> nat \<Rightarrow> ucmd_data \<Rightarrow> gsmd \<Rightarrow> (int \<times> gsmd) option" where
  "reply cmd ty sub len d g = do { gu \<leftarrow> ctx_user cmd; gsmd_ucmd_submit gu ty sub (ac_id cmd) len d g }"

text \<open>\<open>strlcpy\<close> into a new array of \<open>n\<close> characters; what it does not set is shown as zero.\<close>

definition strlcpy_new :: "nat \<Rightarrow> string \<Rightarrow> char list option" where
  "strlcpy_new n s = map_option snd (strlcpy (replicate n NUL) s n)"

text \<open>\<open>atoi (strpbrk (resp, "0123456789"))\<close>.\<close>

definition first_number :: "string \<Rightarrow> int option" where
  "first_number resp = map_option (\<lambda>i. atoi (drop i resp)) (strpbrk resp ''0123456789'')"

definition is_last :: "gsmd_atcmd \<Rightarrow> bool" where
  "is_last cmd \<longleftrightarrow> ac_ret cmd = 0 \<or> ac_ret cmd = 4"

definition skip_prefix :: "string \<Rightarrow> string \<Rightarrow> string" where
  "skip_prefix p resp = (if strncmp_eq resp p (length p) then drop (length p) resp else resp)"

section \<open>Pass-through and voice calls\<close>

definition usock_cmd_cb :: "gsmd_atcmd \<Rightarrow> string \<Rightarrow> gsmd \<Rightarrow> (int \<times> gsmd) option" where
  "usock_cmd_cb cmd resp g = reply cmd GSMD_MSG_PASSTHROUGH 2 (length resp + 1) (Ud_string resp) g"

text \<open>The tokens of a \<open>+CLCC\<close> line, with and without the name.\<close>

definition call_status_of :: "gsm_extrsp \<Rightarrow> bool \<Rightarrow> gsmd_call_status option" where
  "call_status_of er lst = do {
     number \<leftarrow> strlcpy_new (GSMD_ADDR_MAXLEN + 1) (tok_str er 5);
     alpha \<leftarrow> (if num_tokens er = 8 then map_option Some (strlcpy_new (GSMD_ALPHA_MAXLEN + 1) (tok_str er 7))
                else Some None);
     Some \<lparr>gcs_idx = store_signed 8 (tok_num er 0), gcs_dir = Some (of_int (tok_num er 1)),
           gcs_stat = Some (of_int (tok_num er 2)), gcs_mode = Some (of_int (tok_num er 3)),
           gcs_mpty = Some (of_int (tok_num er 4)), gcs_number = Some number,
           gcs_type = Some (of_int (tok_num er 6)), gcs_alpha = alpha, gcs_is_last = lst\<rparr> }"

definition clcc_types :: "gsm_extrsp_tok_type list" where
  "clcc_types = replicate 5 GSMD_ECMD_RTT_NUMERIC @ [GSMD_ECMD_RTT_STRING, GSMD_ECMD_RTT_NUMERIC]"

definition gcs_only :: "int \<Rightarrow> bool \<Rightarrow> gsmd_call_status" where
  "gcs_only idx lst = \<lparr>gcs_idx = store_signed 8 idx, gcs_dir = None, gcs_stat = None, gcs_mode = None,
     gcs_mpty = None, gcs_number = None, gcs_type = None, gcs_alpha = None, gcs_is_last = lst\<rparr>"

definition voicecall_get_stat_cb :: "gsmd_atcmd \<Rightarrow> string \<Rightarrow> gsmd \<Rightarrow> (int \<times> gsmd) option" where
  "voicecall_get_stat_cb cmd resp g = do {
     (ero, g1) \<leftarrow> er_parse (P_str resp) g;
     case ero of
       None \<Rightarrow> Some (- ENOMEM, g1)
     | Some er \<Rightarrow>
         let send = (\<lambda>gcs. reply cmd GSMD_MSG_VOICECALL 7 sizeof_gsmd_call_status (Ud_call_status gcs) g1) in
         if strncmp_eq resp ''OK'' 2 then send (gcs_only 0 (is_last cmd))
         else if strncmp_eq resp ''+CME'' 4 then
           Option.bind (first_number resp) (\<lambda>n. send (gcs_only (- n) (is_last cmd)))
         else if num_tokens er = 7 \<and> tok_types er 7 = clcc_types \<or>
                 num_tokens er = 8 \<and> tok_types er 8 = clcc_types @ [GSMD_ECMD_RTT_STRING] then
           Option.bind (call_status_of er (is_last cmd)) send
         else Some (- EINVAL, g1) }"

definition voicecall_ctrl_cb :: "gsmd_atcmd \<Rightarrow> string \<Rightarrow> gsmd \<Rightarrow> (int \<times> gsmd) option" where
  "voicecall_ctrl_cb cmd resp g = do {
     ret \<leftarrow> (if strncmp_eq resp ''+CME'' 4 then first_number resp else Some 0);
     reply cmd GSMD_MSG_VOICECALL 8 4 (Ud_int ret) g }"

definition fwd_stat_of :: "gsm_extrsp \<Rightarrow> bool \<Rightarrow> gsmd_call_fwd_stat option" where
  "fwd_stat_of er lst = do {
     number \<leftarrow> (if num_tokens er = 2 then Some (replicate (GSMD_ADDR_MAXLEN + 1) NUL)
                 else strlcpy_new (GSMD_ADDR_MAXLEN + 1) (tok_str er 2));
     Some \<lparr>gcfs_status = tok_num er 0, gcfs_classx = of_int (tok_num er 1), gcfs_number = number,
           gcfs_addr_type = (if num_tokens er = 2 then None else Some (of_int (tok_num er 3))),
           gcfs_time = (if num_tokens er = 7 then Some (of_int (tok_num er 6)) else None),
           gcfs_is_last = lst\<rparr> }"

definition ccfc_types :: "gsm_extrsp_tok_type list" where
  "ccfc_types = [GSMD_ECMD_RTT_NUMERIC, GSMD_ECMD_RTT_NUMERIC, GSMD_ECMD_RTT_STRING, GSMD_ECMD_RTT_NUMERIC]"

definition voicecall_fwd_stat_cb :: "gsmd_atcmd \<Rightarrow> string \<Rightarrow> gsmd \<Rightarrow> (int \<times> gsmd) option" where
  "voicecall_fwd_stat_cb cmd resp g = do {
     (ero, g1) \<leftarrow> er_parse (P_str resp) g;
     case ero of
       None \<Rightarrow> Some (- ENOMEM, g1)
     | Some er \<Rightarrow>
         if num_tokens er = 2 \<and> tok_types er 2 = take 2 ccfc_types \<or>
            num_tokens er = 4 \<and> tok_types er 4 = ccfc_types \<or>
            num_tokens er = 7 \<and> tok_types er 7 = ccfc_types @
              [GSMD_ECMD_RTT_EMPTY, GSMD_ECMD_RTT_EMPTY, GSMD_ECMD_RTT_NUMERIC] then
           Option.bind (fwd_stat_of er (is_last cmd))
             (\<lambda>gcfs. reply cmd GSMD_MSG_VOICECALL 11 sizeof_gsmd_call_fwd_stat (Ud_call_fwd_stat gcfs) g1)
         else Some (- EINVAL, g1) }"

definition usock_ringing_cb :: "gsmd_atcmd \<Rightarrow> string \<Rightarrow> gsmd \<Rightarrow> (int \<times> gsmd) option" where
  "usock_ringing_cb cmd resp g =
     usock_cmd_cb cmd resp
       (if ac_ret cmd = 0 then g\<lparr>g_dev_state := (g_dev_state g)\<lparr>ds_ringing := False\<rparr>\<rparr> else g)"

section \<open>PIN and phone\<close>

text \<open>An answer that is the result code of the command.\<close>

definition reply_ret :: "nat \<Rightarrow> nat \<Rightarrow> gsmd_atcmd \<Rightarrow> gsmd \<Rightarrow> (int \<times> gsmd) option" where
  "reply_ret ty sub cmd g = reply cmd ty sub 4 (Ud_int (ac_ret cmd)) g"

definition pin_cmd_cb :: "gsmd_atcmd \<Rightarrow> gsmd \<Rightarrow> (int \<times> gsmd) option" where
  "pin_cmd_cb cmd g = reply_ret GSMD_MSG_PIN 1 cmd g"

definition pin_type_names :: "string list" where
  "pin_type_names =
     [''READY'', ''SIM PIN'', ''SIM PUK'', ''Phone-to-SIM PIN'', ''Phone-to-very-first SIM PIN'',
      ''Phone-to-very-first SIM PUK'', ''SIM PIN2'', ''SIM PUK2'', ''Network personalization PIN'',
      ''Network personalizaiton PUK'', ''Network subset personalisation PIN'',
      ''Network subset personalisation PUK'', ''Service provider personalisation PIN'',
      ''Service provider personalisation PUK'', ''Corporate personalisation PIN'',
      ''Corporate personalisation PUK'']"

text \<open>Without a match the variable that is sent has not been set.\<close>

definition get_cpin_cb :: "gsmd_atcmd \<Rightarrow> string \<Rightarrow> gsmd \<Rightarrow> (int \<times> gsmd) option" where
  "get_cpin_cb cmd resp g =
     (let matches = (if strncmp_eq resp ''+CPIN: '' 7
                     then filter (\<lambda>i. pin_type_names ! i = drop 7 resp) [0..<length pin_type_names] else [])
      in reply cmd GSMD_MSG_PIN 2 4 (if matches = [] then Ud_garbage 4 else Ud_int (int (last matches))) g)"

definition phone_powerup_cb :: "gsmd_atcmd \<Rightarrow> gsmd \<Rightarrow> (int \<times> gsmd) option" where
  "phone_powerup_cb cmd g =
     reply_ret GSMD_MSG_PHONE 1 cmd
       (if ac_ret cmd = 0 then g\<lparr>g_dev_state := (g_dev_state g)\<lparr>ds_on := True\<rparr>\<rparr> else g)"

definition phone_powerdown_cb :: "gsmd_atcmd \<Rightarrow> gsmd \<Rightarrow> (int \<times> gsmd) option" where
  "phone_powerdown_cb cmd g = reply_ret GSMD_MSG_PHONE 2 cmd g"

text \<open>
  The callbacks that hand over the response without its prefix: \<open>phone_power_status_cb\<close>,
  \<open>phone_get_manuf_cb\<close>, \<open>phone_get_model_cb\<close>, \<open>phone_get_revision_cb\<close>, \<open>phone_get_serial_cb\<close>.
\<close>

definition reply_text :: "nat \<Rightarrow> nat \<Rightarrow> gsmd_atcmd \<Rightarrow> string \<Rightarrow> gsmd \<Rightarrow> (int \<times> gsmd) option" where
  "reply_text ty sub cmd resp g = reply cmd ty sub (length resp + 1) (Ud_string resp) g"

definition phone_power_status_cb :: "gsmd_atcmd \<Rightarrow> string \<Rightarrow> gsmd \<Rightarrow> (int \<times> gsmd) option" where
  "phone_power_status_cb cmd resp g = reply_text GSMD_MSG_PHONE 11 cmd (skip_prefix ''+CFUN: '' resp) g"

definition phone_get_manuf_cb :: "gsmd_atcmd \<Rightarrow> string \<Rightarrow> gsmd \<Rightarrow> (int \<times> gsmd) option" where
  "phone_get_manuf_cb cmd resp g = reply_text GSMD_MSG_PHONE 4 cmd (skip_prefix ''+CGMI: '' resp) g"

definition phone_get_model_cb :: "gsmd_atcmd \<Rightarrow> string \<Rightarrow> gsmd \<Rightarrow> (int \<times> gsmd) option" where
  "phone_get_model_cb cmd resp g = reply_text GSMD_MSG_PHONE 5 cmd (skip_prefix ''+CGMM: '' resp) g"

definition phone_get_revision_cb :: "gsmd_atcmd \<Rightarrow> string \<Rightarrow> gsmd \<Rightarrow> (int \<times> gsmd) option" where
  "phone_get_revision_cb cmd resp g = reply_text GSMD_MSG_PHONE 6 cmd (skip_prefix ''+CGMR: '' resp) g"

definition phone_get_serial_cb :: "gsmd_atcmd \<Rightarrow> string \<Rightarrow> gsmd \<Rightarrow> (int \<times> gsmd) option" where
  "phone_get_serial_cb cmd resp g = reply_text GSMD_MSG_PHONE 7 cmd (skip_prefix ''+CGSN: '' resp) g"

definition phone_get_battery_cb :: "gsmd_atcmd \<Rightarrow> string \<Rightarrow> gsmd \<Rightarrow> (int \<times> gsmd) option" where
  "phone_get_battery_cb cmd resp g = do {
     (ero, g1) \<leftarrow> er_parse (P_str resp) g;
     case ero of
       None \<Rightarrow> Some (- ENOMEM, g1)
     | Some er \<Rightarrow>
         reply cmd GSMD_MSG_PHONE 8 sizeof_gsmd_battery_charge
           (if num_tokens er = 2 \<and> tok_types er 2 = [GSMD_ECMD_RTT_NUMERIC, GSMD_ECMD_RTT_NUMERIC]
            then Ud_battery (tok_num er 0) (of_int (tok_num er 1))
            else Ud_garbage sizeof_gsmd_battery_charge) g1 }"

definition phone_vibrator_enable_cb :: "gsmd_atcmd \<Rightarrow> gsmd \<Rightarrow> (int \<times> gsmd) option" where
  "phone_vibrator_enable_cb cmd g =
     reply_ret GSMD_MSG_PHONE 9 cmd
       (if ac_ret cmd = 0 then g\<lparr>g_dev_state := (g_dev_state g)\<lparr>ds_vibrator := True\<rparr>\<rparr> else g)"

definition phone_vibrator_disable_cb :: "gsmd_atcmd \<Rightarrow> gsmd \<Rightarrow> (int \<times> gsmd) option" where
  "phone_vibrator_disable_cb cmd g = reply_ret GSMD_MSG_PHONE 10 cmd g"

section \<open>Network\<close>

definition network_query_reg_cb :: "gsmd_atcmd \<Rightarrow> string \<Rightarrow> gsmd \<Rightarrow> (int \<times> gsmd) option" where
  "network_query_reg_cb cmd resp g =
     (if \<not> strncmp_eq resp ''+CREG: '' 7 then Some (- EINVAL, g)
      else do {
        (ero, g1) \<leftarrow> er_parse (P_str resp) g;
        case ero of
          None \<Rightarrow> Some (- ENOMEM, g1)
        | Some er \<Rightarrow>
            reply cmd GSMD_MSG_NETWORK 15 4
              (if (num_tokens er = 4 \<or> num_tokens er = 2) \<and>
                  tok_types er 2 = [GSMD_ECMD_RTT_NUMERIC, GSMD_ECMD_RTT_NUMERIC]
               then Ud_int (tok_num er 1) else Ud_garbage 4) g1 })"

definition network_vmail_cb :: "gsmd_atcmd \<Rightarrow> string \<Rightarrow> gsmd \<Rightarrow> (int \<times> gsmd) option" where
  "network_vmail_cb cmd resp g = do {
     c \<leftarrow> rd (ac_buf cmd) 7;
     if c = CHR ''='' then reply_ret GSMD_MSG_NETWORK 4 cmd g
     else if \<not> strncmp_eq resp ''+CSVM: '' 7 then Some (- EINVAL, g)
     else do {
       (ero, g1) \<leftarrow> er_parse (P_str (drop 7 resp)) g;
       case ero of
         None \<Rightarrow> Some (- ENOMEM, g1)
       | Some er \<Rightarrow>
           if num_tokens er = 3 \<and>
              tok_types er 3 = [GSMD_ECMD_RTT_NUMERIC, GSMD_ECMD_RTT_STRING, GSMD_ECMD_RTT_NUMERIC] then do {
             number \<leftarrow> strlcpy_new (GSMD_ADDR_MAXLEN + 1) (tok_str er 1);
             reply cmd GSMD_MSG_NETWORK 3 sizeof_gsmd_voicemail
               (Ud_voicemail (of_int (tok_num er 0)) \<lparr>ga_type = of_int (tok_num er 2), ga_number = number\<rparr>) g1 }
           else reply cmd GSMD_MSG_NETWORK 3 sizeof_gsmd_voicemail (Ud_garbage sizeof_gsmd_voicemail) g1 } }"

definition network_sigq_cb :: "gsmd_atcmd \<Rightarrow> string \<Rightarrow> gsmd \<Rightarrow> (int \<times> gsmd) option" where
  "network_sigq_cb cmd resp g =
     (case strchr resp CHR '','' of
        None \<Rightarrow> Some (- EIO, g)
      | Some c \<Rightarrow>
          reply cmd GSMD_MSG_NETWORK 2 sizeof_gsmd_signal_quality
            (Ud_signal_quality (of_int (atoi (drop 6 resp))) (of_int (atoi (drop (c + 1) resp)))) g)"

text \<open>
  \<open>sscanf (resp, "+COPS: %*i,%i,\"%n", &format, &s)\<close>: a response with a format but no quote
  behind it leaves the offset unset.
\<close>

definition network_oper_cb :: "gsmd_atcmd \<Rightarrow> string \<Rightarrow> gsmd \<Rightarrow> (int \<times> gsmd) option" where
  "network_oper_cb cmd resp g = do {
     opname \<leftarrow> (case sscanf (lits ''+COPS: '' @ [Skip_i, Lit CHR '','', Int_i 32, Lit CHR '','', Lit DQ, Count]) resp 0 of
         [] \<Rightarrow> Some (Some [])
       | [VInt f, VPos s] \<Rightarrow> Some (map_option (\<lambda>k. take k (drop s resp)) (strchr (drop s resp) DQ))
       | _ \<Rightarrow> None);
     case opname of
       None \<Rightarrow> Some (- EINVAL, g)
     | Some name \<Rightarrow> reply cmd GSMD_MSG_NETWORK 5 (length name + 1) (Ud_string name) g }"

definition network_oper_n_cb :: "gsmd_atcmd \<Rightarrow> string \<Rightarrow> gsmd \<Rightarrow> (int \<times> gsmd) option" where
  "network_oper_n_cb cmd resp g = do {
     (ero, g1) \<leftarrow> er_parse (P_str resp) g;
     case ero of
       None \<Rightarrow> Some (- ENOMEM, g1)
     | Some er \<Rightarrow>
         if num_tokens er = 1 \<and> tok_types er 1 = [GSMD_ECMD_RTT_NUMERIC] then
           reply cmd GSMD_MSG_NETWORK 6 17 (Ud_string []) g1
         else if 3 \<le> num_tokens er \<and>
                 tok_types er 3 = [GSMD_ECMD_RTT_NUMERIC, GSMD_ECMD_RTT_NUMERIC, GSMD_ECMD_RTT_STRING] then do {
           buf \<leftarrow> strlcpy_new 17 (tok_str er 2);
           reply cmd GSMD_MSG_NETWORK 6 17 (Ud_string (cstr buf)) g1 }
         else Some (- EINVAL, g1) }"

text \<open>
  \<open>network_opers_parse\<close>.  The first loop counts the entries that start with a digit, the
  second one fills an array of one element more than that, one for every closing
  parenthesis; it does not test the end of the array, nor that the text of an entry fits
  its buffer of 64 characters, nor that an opening parenthesis came first.  The test of the
  allocation looks at the wrong pointer.  The cut at a double comma is in a buffer that is
  cleared when the callback returns.
\<close>

fun count_opers :: "string \<Rightarrow> nat" where
  "count_opers (a # b # s) = (if a = CHR ''('' \<and> isdigit b then count_opers s + 1 else count_opers (b # s))"
| "count_opers s = 0"

definition oper_entry :: "gsm_extrsp \<Rightarrow> oper_slot option" where
  "oper_entry er = do {
     long \<leftarrow> strlcpy_new 16 (tok_str er 1);
     short \<leftarrow> strlcpy_new 8 (tok_str er 2);
     num \<leftarrow> strlcpy_new 6 (tok_str er 3);
     Some (Oper (tok_num er 0) long short num) }"

fun fill_opers :: "string \<Rightarrow> string option \<Rightarrow> oper_slot list \<Rightarrow> nat \<Rightarrow> gsmd \<Rightarrow> (int \<times> oper_slot list \<times> gsmd) option" where
  "fill_opers [] head out k g =
     (if k < length out then Some (0, out[k := Oper_last], g) else None)"
| "fill_opers (c # s) head out k g =
     (if c = CHR ''('' then fill_opers s (Some []) out k g
      else if c = CHR '')'' then do {
        ent \<leftarrow> head;
        if 64 \<le> length ent then None
        else do {
          (ero, g1) \<leftarrow> er_parse (P_str ent) g;
          case ero of
            None \<Rightarrow> Some (- ENOMEM, out, g1)
          | Some er \<Rightarrow>
              if 4 \<le> num_tokens er \<and> tok_types er 4 =
                 [GSMD_ECMD_RTT_NUMERIC, GSMD_ECMD_RTT_STRING, GSMD_ECMD_RTT_STRING, GSMD_ECMD_RTT_STRING] then do {
                e \<leftarrow> oper_entry er;
                if k < length out then fill_opers s (Some (ent @ [c])) (out[k := e]) (k + 1) g1 else None }
              else Some (- EINVAL, out, g1) } }
      else fill_opers s (map_option (\<lambda>t. t @ [c]) head) out k g)"

definition network_opers_parse :: "string \<Rightarrow> gsmd \<Rightarrow> (int \<times> oper_slot list \<times> gsmd) option" where
  "network_opers_parse str g =
     (if \<not> strncmp_eq str ''+COPS: '' 7 then Some (- EINVAL, [], g)
      else let s = (case strstr str '',,'' of None \<Rightarrow> str | Some k \<Rightarrow> take k str);
               len = count_opers s;
               (ok, g1) = talloc g
           in if \<not> ok then None
              else map_option (\<lambda>(rc, out, g2). (if rc < 0 then rc else int len, out, g2))
                (fill_opers s None (replicate (len + 1) Oper_unset) 0 g1))"

definition network_opers_cb :: "gsmd_atcmd \<Rightarrow> string \<Rightarrow> gsmd \<Rightarrow> (int \<times> gsmd) option" where
  "network_opers_cb cmd resp g = do {
     (len, buf, g1) \<leftarrow> network_opers_parse resp g;
     if len < 0 then Some (len, g1)
     else reply cmd GSMD_MSG_NETWORK 7 (sizeof_gsmd_msg_oper * nat (len + 1)) (Ud_opers buf) g1 }"

definition network_pref_opers_cb :: "gsmd_atcmd \<Rightarrow> string \<Rightarrow> gsmd \<Rightarrow> (int \<times> gsmd) option" where
  "network_pref_opers_cb cmd resp g =
     (if ac_ret cmd \<noteq> 0 \<and> ac_ret cmd \<noteq> - 255 then Some (0, g)
      else (case sscanf (lits ''+CPOL: '' @ [Int_i 32, Lit CHR '','', Lit CHR ''0'', Lit CHR '','', Lit DQ,
                         Set (\<lambda>c. c \<noteq> DQ) (Some 16), Lit DQ]) resp 0 of
          [VInt i, VStr opname] \<Rightarrow>
            reply cmd GSMD_MSG_NETWORK 11 sizeof_gsmd_msg_prefoper
              (Ud_prefoper i (ac_ret cmd = 0) (take 16 (opname @ replicate 16 NUL))) g
        | _ \<Rightarrow> Some (- EINVAL, g)))"

definition network_pref_num_cb :: "gsmd_atcmd \<Rightarrow> string \<Rightarrow> gsmd \<Rightarrow> (int \<times> gsmd) option" where
  "network_pref_num_cb cmd resp g =
     (if ac_ret cmd \<noteq> 0 then Some (0, g)
      else (case sscanf (lits ''+CPOL: ('' @ [Int_i 32, Lit CHR ''-'', Int_i 32, Lit CHR '')'']) resp 0 of
          [VInt mn, VInt mx] \<Rightarrow>
            if to_int32 (mx - mn) \<noteq> mx - mn \<or> to_int32 (mx - mn + 1) \<noteq> mx - mn + 1 then None
            else reply cmd GSMD_MSG_NETWORK 14 4 (Ud_int (mx - mn + 1)) g
        | _ \<Rightarrow> Some (- EINVAL, g)))"

text \<open>
  \<open>network_ownnumbers_cb\<close>: a first scan finds the length of the name, a second one reads the
  fields.  \<open>num->service\<close> is unset when the second scan does not reach it, which the code
  replaces by \<open>GSMD_SERVICE_UNKNOWN\<close>.
\<close>

definition cnum_name :: "scan_dir list" where
  "cnum_name = lits ''+CNUM: '' @ [Lit DQ, Skip_set (\<lambda>c. c \<noteq> DQ), Lit DQ, Chr_c, Count]"

definition cnum_number :: "scan_dir list" where
  "cnum_number = [Lit CHR '','', Lit DQ, Set (\<lambda>c. c \<noteq> DQ) (Some 32), Lit DQ, Lit CHR '','', Int_i 32,
     Lit CHR '','', Skip_i, Lit CHR '','', Int_i 32, Lit CHR '','']"

definition own_number :: "string \<Rightarrow> scan_val list \<Rightarrow> (int \<times> gsmd_addr) option" where
  "own_number name vs =
     (case vs of
        VStr number # VInt ty # rest \<Rightarrow>
          Some (case rest of VInt service # _ \<Rightarrow> service | _ \<Rightarrow> - 1,
                \<lparr>ga_type = of_int ty, ga_number = number @ replicate (GSMD_ADDR_MAXLEN + 1 - length number) NUL\<rparr>)
      | _ \<Rightarrow> None)"

definition network_ownnumbers_cb :: "gsmd_atcmd \<Rightarrow> string \<Rightarrow> gsmd \<Rightarrow> (int \<times> gsmd) option" where
  "network_ownnumbers_cb cmd resp g =
     (if ac_ret cmd \<noteq> 0 \<and> ac_ret cmd \<noteq> - 255 then Some (0, g)
      else
        let len = (case sscanf cnum_name resp 0 of [VStr _, VPos n] \<Rightarrow> int n - 10 | _ \<Rightarrow> 0);
            (ok, g1) = talloc g;
            (name, fields) =
              (if len \<noteq> 0 then
                 (case sscanf (lits ''+CNUM: '' @ [Lit DQ, Set (\<lambda>c. c \<noteq> DQ) None, Lit DQ] @ cnum_number) resp 0 of
                    VStr nm # vs \<Rightarrow> (nm, vs) | _ \<Rightarrow> ([], []))
               else ([], sscanf (lits ''+CNUM: '' @ cnum_number) resp 0))
        in if \<not> ok then (if name = [] \<and> fields = [] then Some (- EINVAL, g1) else None)
           else if len < 0 \<or> sizeof_gsmd_own_number + nat len + 1 < 42 + length name + 1 then None
           else (case own_number name fields of
                None \<Rightarrow> Some (- EINVAL, g1)
              | Some (service, addr) \<Rightarrow>
                  reply cmd GSMD_MSG_NETWORK 10 (sizeof_gsmd_own_number + nat len + 1)
                    (Ud_own_number (ac_ret cmd = 0) service addr (take (nat len) name)) g1))"

section \<open>Phonebook\<close>

definition pb_entry :: "gsm_extrsp \<Rightarrow> gsmd_phonebook option" where
  "pb_entry er = do {
     numb \<leftarrow> strlcpy_new 45 (tok_str er 1);
     entry \<leftarrow> strlcpy_new 15 (tok_str er 3);
     Some \<lparr>pb_index = store_signed 8 (tok_num er 0), pb_numb = Some numb,
           pb_type = Some (of_int (tok_num er 2)), pb_text = Some entry\<rparr> }"

definition pb_only :: "int \<Rightarrow> gsmd_phonebook" where
  "pb_only i = \<lparr>pb_index = store_signed 8 i, pb_numb = None, pb_type = None, pb_text = None\<rparr>"

text \<open>\<open>phonebook_find_cb\<close>, \<open>phonebook_read_cb\<close> and \<open>phonebook_readrg_cb\<close> differ in the message they send.\<close>

definition phonebook_entry_cb ::
  "(gsmd_phonebook \<Rightarrow> gsmd \<Rightarrow> (int \<times> gsmd) option) \<Rightarrow> string \<Rightarrow> gsmd \<Rightarrow> (int \<times> gsmd) option" where
  "phonebook_entry_cb send resp g = do {
     (ero, g1) \<leftarrow> er_parse (P_str resp) g;
     case ero of
       None \<Rightarrow> Some (- ENOMEM, g1)
     | Some er \<Rightarrow>
         if strncmp_eq resp ''OK'' 2 then send (pb_only 0) g1
         else if strncmp_eq resp ''+CME'' 4 then
           Option.bind (first_number resp) (\<lambda>n. send (pb_only (- n)) g1)
         else if num_tokens er = 4 \<and> tok_types er 4 =
              [GSMD_ECMD_RTT_NUMERIC, GSMD_ECMD_RTT_STRING, GSMD_ECMD_RTT_NUMERIC, GSMD_ECMD_RTT_STRING] then
           Option.bind (pb_entry er) (\<lambda>gp. send gp g1)
         else Some (- EINVAL, g1) }"

definition phonebook_find_cb :: "gsmd_atcmd \<Rightarrow> string \<Rightarrow> gsmd \<Rightarrow> (int \<times> gsmd) option" where
  "phonebook_find_cb cmd resp g = phonebook_entry_cb
     (\<lambda>gp. reply cmd GSMD_MSG_PHONEBOOK 1 sizeof_gsmd_phonebooks (Ud_phonebooks gp (is_last cmd))) resp g"

definition phonebook_read_cb :: "gsmd_atcmd \<Rightarrow> string \<Rightarrow> gsmd \<Rightarrow> (int \<times> gsmd) option" where
  "phonebook_read_cb cmd resp g = phonebook_entry_cb
     (\<lambda>gp. reply cmd GSMD_MSG_PHONEBOOK 2 sizeof_gsmd_phonebook (Ud_phonebook gp)) resp g"

definition phonebook_readrg_cb :: "gsmd_atcmd \<Rightarrow> string \<Rightarrow> gsmd \<Rightarrow> (int \<times> gsmd) option" where
  "phonebook_readrg_cb cmd resp g = phonebook_entry_cb
     (\<lambda>gp. reply cmd GSMD_MSG_PHONEBOOK 3 sizeof_gsmd_phonebooks (Ud_phonebooks gp (is_last cmd))) resp g"

definition phonebook_write_cb :: "gsmd_atcmd \<Rightarrow> string \<Rightarrow> gsmd \<Rightarrow> (int \<times> gsmd) option" where
  "phonebook_write_cb cmd resp g = reply_text GSMD_MSG_PHONEBOOK 4 cmd resp g"

definition phonebook_delete_cb :: "gsmd_atcmd \<Rightarrow> string \<Rightarrow> gsmd \<Rightarrow> (int \<times> gsmd) option" where
  "phonebook_delete_cb cmd resp g = reply_text GSMD_MSG_PHONEBOOK 5 cmd resp g"

definition phonebook_get_support_cb :: "gsmd_atcmd \<Rightarrow> string \<Rightarrow> gsmd \<Rightarrow> (int \<times> gsmd) option" where
  "phonebook_get_support_cb cmd resp g =
     (case (strchr resp CHR ''-'', strchr resp CHR '','', strrchr resp CHR '','') of
        (Some dash, Some fcomma, Some lcomma) \<Rightarrow>
          reply cmd GSMD_MSG_PHONEBOOK 6 sizeof_gsmd_phonebook_support
            (Ud_phonebook_support (of_int (atoi (drop (dash + 1) resp))) (of_int (atoi (drop (fcomma + 1) resp)))
               (of_int (atoi (drop (lcomma + 1) resp)))) g
      | _ \<Rightarrow> Some (- EIO, g))"

text \<open>
  The storages of \<open>+CPBS: ("ME","SM",...)\<close>: the two characters behind the quote that
  follows each delimiter, in an array of 20 elements whose end is not tested.
\<close>

lemma strpbrk_less: "strpbrk s cs = Some i \<Longrightarrow> i < length s"
  by (induction s arbitrary: i) (auto split: if_splits)

function storages :: "string \<Rightarrow> char list list" where
  "storages s =
     (case strpbrk s ''(,'' of
        None \<Rightarrow> []
      | Some i \<Rightarrow> (take 2 (take 2 (drop (i + 2) s) @ [NUL, NUL]) @ [NUL]) # storages (drop (i + 2) s))"
  by pat_completeness auto
termination
  by (relation "measure length") (auto dest: strpbrk_less)

declare storages.simps [simp del]

definition phonebook_list_storage_cb :: "gsmd_atcmd \<Rightarrow> string \<Rightarrow> gsmd \<Rightarrow> (int \<times> gsmd) option" where
  "phonebook_list_storage_cb cmd resp g =
     (let mem = (if strncmp_eq resp ''+CPBS'' 5 then storages resp else []) in
      if 20 < length mem then None
      else reply cmd GSMD_MSG_PHONEBOOK 7 sizeof_gsmd_phonebook_storage (Ud_phonebook_storage mem) g)"

section \<open>What the callbacks leave alone\<close>

text \<open>
  \<open>framed g m\<close>: the computation \<open>m\<close>, run in the state \<open>g\<close>, keeps to the contract of
  callbacks.  The rules follow the structure of the callbacks.
\<close>

named_theorems frame_rules \<open>computations that keep to the contract of callbacks\<close>

definition framed :: "gsmd \<Rightarrow> (int \<times> gsmd) option \<Rightarrow> bool" where
  "framed g m \<longleftrightarrow> (\<forall>rc g'. m = Some (rc, g') \<longrightarrow> cb_frame g g')"

lemma framedD: "framed g m \<Longrightarrow> m = Some (rc, g') \<Longrightarrow> cb_frame g g'"
  by (simp add: framed_def)

lemma framed_ret [frame_rules]: "cb_frame g g' \<Longrightarrow> framed g (Some (rc, g'))"
  by (simp add: framed_def)

lemma framed_none [frame_rules]: "framed g None"
  by (simp add: framed_def)

lemma framed_bind: "(\<And>x. m = Some x \<Longrightarrow> framed g (f x)) \<Longrightarrow> framed g (Option.bind m f)"
  by (cases m) (auto simp: framed_def)

lemma framed_trans: "cb_frame g g1 \<Longrightarrow> framed g1 m \<Longrightarrow> framed g m"
  unfolding framed_def using cb_frame_trans by blast

lemma framed_dev_state:
  "framed (g\<lparr>g_dev_state := d\<rparr>) m \<Longrightarrow> ds_ring_check d = ds_ring_check (g_dev_state g) \<Longrightarrow> framed g m"
  by (rule framed_trans) (simp_all add: cb_frame_defs)

lemma framed_if [frame_rules]: "framed g m \<Longrightarrow> framed g m' \<Longrightarrow> framed g (if b then m else m')"
  by simp

text \<open>Case distinctions over the data the callbacks look at.\<close>

lemma framed_cases:
  "(\<And>a b. framed g (fp a b)) \<Longrightarrow> framed g (case p of (a, b) \<Rightarrow> fp a b)"
  "framed g e \<Longrightarrow> (\<And>a. framed g (fo a)) \<Longrightarrow> framed g (case m of None \<Rightarrow> e | Some a \<Rightarrow> fo a)"
  "framed g e \<Longrightarrow> (\<And>a as. framed g (fl a as)) \<Longrightarrow> framed g (case xs of [] \<Rightarrow> e | a # as \<Rightarrow> fl a as)"
  "(\<And>i. framed g (f1 i)) \<Longrightarrow> (\<And>t. framed g (f2 t)) \<Longrightarrow> (\<And>n. framed g (f3 n)) \<Longrightarrow>
     framed g (case v of VInt i \<Rightarrow> f1 i | VStr t \<Rightarrow> f2 t | VPos n \<Rightarrow> f3 n)"
  by (simp_all split: prod.split option.split list.split scan_val.split)

lemma framed_reply [frame_rules]: "framed g (reply cmd ty sub len d g)"
  by (auto simp: framed_def reply_def option_bind_Some_iff intro: gsmd_ucmd_submit_frame)

lemma er_parse_frame: "er_parse p g = Some (ero, g1) \<Longrightarrow> cb_frame g g1"
  using cb_frame_talloc[of g]
  by (auto simp: er_parse_def Let_def split_beta split: uparam.splits if_splits)

lemma framed_er:
  assumes "\<And>g1. framed g1 (f None g1)" and "\<And>er g1. framed g1 (f (Some er) g1)"
  shows "framed g (do { (ero, g1) \<leftarrow> er_parse p g; f ero g1 })"
proof (rule framed_bind)
  fix x assume "er_parse p g = Some x"
  then have "cb_frame g (snd x)" using er_parse_frame[of p g "fst x" "snd x"] by simp
  moreover have "framed (snd x) (f (fst x) (snd x))" using assms by (cases "fst x") auto
  ultimately show "framed g (case x of (ero, g1) \<Rightarrow> f ero g1)"
    by (simp add: split_beta framed_trans)
qed

lemma reply_frames [frame_rules]:
  "framed g (reply_ret ty sub cmd g)" "framed g (reply_text ty sub cmd resp g)"
  "framed g (usock_cmd_cb cmd resp g)"
  by (simp_all add: reply_ret_def reply_text_def usock_cmd_cb_def framed_reply)

lemma voicecall_frames [frame_rules]:
  "framed g (voicecall_get_stat_cb cmd resp g)" "framed g (voicecall_ctrl_cb cmd resp g)"
  "framed g (voicecall_fwd_stat_cb cmd resp g)" "framed g (usock_ringing_cb cmd resp g)"
proof -
  show "framed g (voicecall_get_stat_cb cmd resp g)" "framed g (voicecall_fwd_stat_cb cmd resp g)"
    unfolding voicecall_get_stat_cb_def voicecall_fwd_stat_cb_def Let_def
    by (rule framed_er; simp; intro frame_rules framed_bind cb_frame_refl impI conjI)+
  show "framed g (voicecall_ctrl_cb cmd resp g)"
    unfolding voicecall_ctrl_cb_def by (intro framed_bind framed_reply)
  show "framed g (usock_ringing_cb cmd resp g)"
    unfolding usock_ringing_cb_def
    by (cases "ac_ret cmd = 0") (auto intro: framed_dev_state reply_frames)
qed

lemma phone_frames [frame_rules]:
  "framed g (pin_cmd_cb cmd g)" "framed g (get_cpin_cb cmd resp g)" "framed g (phone_powerup_cb cmd g)"
  "framed g (phone_powerdown_cb cmd g)" "framed g (phone_power_status_cb cmd resp g)"
  "framed g (phone_get_manuf_cb cmd resp g)" "framed g (phone_get_model_cb cmd resp g)"
  "framed g (phone_get_revision_cb cmd resp g)" "framed g (phone_get_serial_cb cmd resp g)"
  "framed g (phone_vibrator_enable_cb cmd g)" "framed g (phone_vibrator_disable_cb cmd g)"
  by (simp_all add: pin_cmd_cb_def get_cpin_cb_def phone_powerup_cb_def phone_powerdown_cb_def
      phone_power_status_cb_def phone_get_manuf_cb_def phone_get_model_cb_def phone_get_revision_cb_def
      phone_get_serial_cb_def phone_vibrator_enable_cb_def phone_vibrator_disable_cb_def
      framed_reply reply_frames framed_dev_state[OF reply_frames(1)] Let_def)

lemma er_frames [frame_rules]:
  "framed g (phone_get_battery_cb cmd resp g)" "framed g (network_query_reg_cb cmd resp g)"
  "framed g (network_vmail_cb cmd resp g)" "framed g (network_oper_n_cb cmd resp g)"
proof -
  show "framed g (phone_get_battery_cb cmd resp g)" "framed g (network_oper_n_cb cmd resp g)"
    unfolding phone_get_battery_cb_def network_oper_n_cb_def
    by (rule framed_er; simp; intro frame_rules framed_bind cb_frame_refl impI conjI)+
  show "framed g (network_query_reg_cb cmd resp g)"
    unfolding network_query_reg_cb_def
    by (rule framed_if, simp add: framed_ret, rule framed_er; simp add: framed_ret framed_reply)
  show "framed g (network_vmail_cb cmd resp g)"
    unfolding network_vmail_cb_def
    by (rule framed_bind) (intro frame_rules framed_er cb_frame_refl; simp; intro frame_rules framed_bind cb_frame_refl conjI impI)
qed

lemma fill_opers_frame: "fill_opers s head out k g = Some (rc, out', g') \<Longrightarrow> cb_frame g g'"
proof (induction s arbitrary: head out k g)
  case (Cons c s)
  show ?case
  proof (cases "c = CHR '')''")
    case False
    then show ?thesis using Cons by (auto split: if_splits)
  next
    case True
    then obtain ent ero g1 where ent: "head = Some ent" "length ent < 64"
      and er: "er_parse (P_str ent) g = Some (ero, g1)"
      using Cons.prems by (auto simp: option_bind_Some_iff split: if_splits)
    have g1: "cb_frame g g1" by (rule er_parse_frame[OF er])
    then show ?thesis using Cons.prems True ent er
      by (auto simp: option_bind_Some_iff split: if_splits option.splits
          dest!: Cons.IH intro: cb_frame_trans)
  qed
qed (auto split: if_splits)

lemma network_opers_frame [frame_rules]: "framed g (network_opers_cb cmd resp g)"
proof -
  obtain ok g1 where t: "talloc g = (ok, g1)" by (cases "talloc g")
  have g1: "cb_frame g g1" using cb_frame_talloc[of g] t by simp
  have p: "cb_frame g g2" if "network_opers_parse resp g = Some (len, buf, g2)" for len buf g2
    using that t by (auto simp: network_opers_parse_def Let_def split: if_splits
        dest!: fill_opers_frame intro: cb_frame_trans[OF g1])
  show ?thesis unfolding network_opers_cb_def
  proof (rule framed_bind)
    fix x assume x: "network_opers_parse resp g = Some x"
    obtain len buf g2 where [simp]: "x = (len, buf, g2)" by (cases x) auto
    have "cb_frame g g2" using p x by simp
    then show "framed g (case x of (len, buf, g1) \<Rightarrow> if len < 0 then Some (len, g1)
      else reply cmd GSMD_MSG_NETWORK 7 (sizeof_gsmd_msg_oper * nat (len + 1)) (Ud_opers buf) g1)"
      using framed_trans[OF _ framed_reply] by (auto intro: framed_ret)
  qed
qed

lemma network_frames [frame_rules]:
  "framed g (network_sigq_cb cmd resp g)" "framed g (network_oper_cb cmd resp g)"
  "framed g (network_pref_opers_cb cmd resp g)" "framed g (network_pref_num_cb cmd resp g)"
proof -
  show "framed g (network_sigq_cb cmd resp g)"
    unfolding network_sigq_cb_def by (simp add: framed_ret framed_reply split: option.split)
  show "framed g (network_oper_cb cmd resp g)"
    unfolding network_oper_cb_def
    by (rule framed_bind) (simp add: framed_ret framed_reply split: option.split)
  show "framed g (network_pref_opers_cb cmd resp g)" "framed g (network_pref_num_cb cmd resp g)"
    unfolding network_pref_opers_cb_def network_pref_num_cb_def
    by (intro framed_cases frame_rules cb_frame_refl)+
qed

lemma network_ownnumbers_frame [frame_rules]: "framed g (network_ownnumbers_cb cmd resp g)"
proof -
  obtain ok g1 where t: "talloc g = (ok, g1)" by (cases "talloc g")
  have "cb_frame g g1" using cb_frame_talloc[of g] t by simp
  then show ?thesis unfolding network_ownnumbers_cb_def Let_def t prod.case
    by (intro framed_cases framed_if framed_ret framed_none cb_frame_refl framed_trans[OF _ framed_reply])
qed

lemma phonebook_entry_frame:
  assumes "\<And>gp g. framed g (send gp g)"
  shows "framed g (phonebook_entry_cb send resp g)"
  unfolding phonebook_entry_cb_def
  by (rule framed_er; simp; intro frame_rules framed_bind cb_frame_refl impI conjI assms)

lemma phonebook_frames [frame_rules]:
  "framed g (phonebook_find_cb cmd resp g)" "framed g (phonebook_read_cb cmd resp g)"
  "framed g (phonebook_readrg_cb cmd resp g)" "framed g (phonebook_write_cb cmd resp g)"
  "framed g (phonebook_delete_cb cmd resp g)" "framed g (phonebook_get_support_cb cmd resp g)"
  "framed g (phonebook_list_storage_cb cmd resp g)"
  by (auto simp: phonebook_find_cb_def phonebook_read_cb_def phonebook_readrg_cb_def phonebook_write_cb_def
      phonebook_delete_cb_def phonebook_get_support_cb_def phonebook_list_storage_cb_def Let_def
      intro!: phonebook_entry_frame frame_rules split: option.split)

end
