(* ===== verification/SmsCb.thy ===== *)
theory SmsCb
  imports UsockCb
begin

text \<open>
  Short messages: the callbacks of \<open>src/gsmd/sms_cb.c\<close> that turn the answers of the modem
  into messages for the client, and \<open>sms_cb_init\<close>.
\<close>

unbundle bit_operations_syntax

section \<open>Reading messages\<close>

text \<open>
  The header of a listed message: \<open>"+CMGL: %i,%i,,%i\n%n"\<close>, or with a name in quotes where
  the first form has nothing.
\<close>

definition cmgl_plain :: "scan_dir list" where
  "cmgl_plain = lits ''+CMGL: '' @ [Int_i 32, Lit CHR '','', Int_i 32, Lit CHR '','', Lit CHR '','', Int_i 32, Ws, Count]"

definition cmgl_alpha :: "scan_dir list" where
  "cmgl_alpha = lits ''+CMGL: '' @ [Int_i 32, Lit CHR '','', Int_i 32, Lit CHR '','', Lit DQ,
     Skip_set (\<lambda>c. c \<noteq> DQ), Lit DQ, Lit CHR '','', Int_i 32, Ws, Count]"

definition cmgr_plain :: "scan_dir list" where
  "cmgr_plain = lits ''+CMGR: '' @ [Int_i 32, Lit CHR '','', Lit CHR '','', Int_i 32, Ws, Count]"

definition cmgr_alpha :: "scan_dir list" where
  "cmgr_alpha = lits ''+CMGR: '' @ [Int_i 32, Lit CHR '','', Lit DQ, Skip_set (\<lambda>c. c \<noteq> DQ), Lit DQ,
     Lit CHR '','', Int_i 32, Ws, Count]"

text \<open>Both callbacks end alike: the octets behind the header are decoded and sent.\<close>

definition send_pdu ::
  "gsmd_atcmd \<Rightarrow> nat \<Rightarrow> gsmd_sms_list \<Rightarrow> int \<Rightarrow> string \<Rightarrow> gsmd \<Rightarrow> (int \<times> gsmd) option" where
  "send_pdu cmd sub msg0 len hex g =
     (case hex_octets SMS_MAX_PDU_SIZE hex of
        None \<Rightarrow> Some (- EINVAL, g)
      | Some pdu \<Rightarrow> do {
          (r, msg) \<leftarrow> sms_pdu_to_msg msg0 pdu len (int (length pdu));
          if r \<noteq> 0 then Some (- EINVAL, g)
          else reply cmd GSMD_MSG_SMS sub sizeof_gsmd_sms_list (Ud_sms msg) g })"

definition cmgl_fields :: "string \<Rightarrow> (int \<times> int \<times> int \<times> nat) option" where
  "cmgl_fields resp =
     (case sscanf cmgl_plain resp 0 of
        [VInt i, VInt stat, VInt len, VPos cr] \<Rightarrow> Some (i, stat, len, cr)
      | _ \<Rightarrow> (case sscanf cmgl_alpha resp 0 of
                [VInt i, VInt stat, VInt len, VPos cr] \<Rightarrow> Some (i, stat, len, cr)
              | _ \<Rightarrow> None))"

definition sms_list_cb :: "gsmd_atcmd \<Rightarrow> string \<Rightarrow> gsmd \<Rightarrow> (int \<times> gsmd) option" where
  "sms_list_cb cmd resp g =
     (if ac_ret cmd \<noteq> 0 \<and> ac_ret cmd \<noteq> - 255 then Some (0, g)
      else (case cmgl_fields resp of
          None \<Rightarrow> Some (- EINVAL, g)
        | Some (i, stat, len, cr) \<Rightarrow>
            if 164 < len then Some (- EINVAL, g)
            else send_pdu cmd 1 (sms_list_zero\<lparr>sl_index := of_int i, sl_stat := stat, sl_is_last := (ac_ret cmd = 0)\<rparr>)
                   len (drop cr resp) g))"

definition cmgr_fields :: "string \<Rightarrow> (int \<times> int \<times> nat) option" where
  "cmgr_fields resp =
     (case sscanf cmgr_plain resp 0 of
        [VInt stat, VInt len, VPos cr] \<Rightarrow> Some (stat, len, cr)
      | _ \<Rightarrow> (case sscanf cmgr_alpha resp 0 of
                [VInt stat, VInt len, VPos cr] \<Rightarrow> Some (stat, len, cr)
              | _ \<Rightarrow> None))"

text \<open>The index of the message is read back from the command.\<close>

definition cmgr_index :: "string \<Rightarrow> u8" where
  "cmgr_index buf =
     (case strchr buf CHR ''='' of
        Some k \<Rightarrow> if strncmp_eq buf ''AT+CMGR'' 7 then of_int (atoi (drop (k + 1) buf)) else 0
      | None \<Rightarrow> 0)"

definition sms_read_cb :: "gsmd_atcmd \<Rightarrow> string \<Rightarrow> gsmd \<Rightarrow> (int \<times> gsmd) option" where
  "sms_read_cb cmd resp g =
     (if ac_ret cmd \<noteq> 0 then Some (0, g)
      else (case cmgr_fields resp of
          None \<Rightarrow> Some (- EINVAL, g)
        | Some (stat, len, cr) \<Rightarrow>
            if 164 < len then Some (- EINVAL, g)
            else do {
              buf \<leftarrow> cstr_of_array (ac_buf cmd);
              send_pdu cmd 2 (sms_list_zero\<lparr>sl_index := cmgr_index buf, sl_stat := stat, sl_is_last := True\<rparr>)
                len (drop cr resp) g }))"

section \<open>Sending, writing, deleting\<close>

definition sms_send_cb :: "gsmd_atcmd \<Rightarrow> string \<Rightarrow> gsmd \<Rightarrow> (int \<times> gsmd) option" where
  "sms_send_cb cmd resp g =
     (let msgref = (if ac_ret cmd = 0 \<or> ac_ret cmd = - 255 then
                      (case sscanf (lits ''+CMGS: '' @ [Int_i 32]) resp 0 of VInt n # _ \<Rightarrow> n | _ \<Rightarrow> - EINVAL)
                    else - ac_ret cmd)
      in reply cmd GSMD_MSG_SMS 3 4 (Ud_int msgref) g)"

definition sms_write_cb :: "gsmd_atcmd \<Rightarrow> string \<Rightarrow> gsmd \<Rightarrow> (int \<times> gsmd) option" where
  "sms_write_cb cmd resp g =
     (let result = (if ac_ret cmd = 0 then
                      (case sscanf (lits ''+CMGW: '' @ [Int_i 32]) resp 0 of VInt n # _ \<Rightarrow> n | _ \<Rightarrow> - EINVAL)
                    else - ac_ret cmd)
      in reply cmd GSMD_MSG_SMS 4 4 (Ud_int result) g)"

definition sms_delete_cb :: "gsmd_atcmd \<Rightarrow> gsmd \<Rightarrow> (int \<times> gsmd) option" where
  "sms_delete_cb cmd g = reply_ret GSMD_MSG_SMS 5 cmd g"

section \<open>Storage and service centre\<close>

definition cpms_mem :: "scan_dir list" where
  "cpms_mem = [Lit DQ, Set upper (Some 2), Lit DQ, Lit CHR '','', Int_i 16, Lit CHR '','', Int_i 16]"

definition cpms_format :: "scan_dir list" where
  "cpms_format = lits ''+CPMS: '' @ cpms_mem @ [Lit CHR '',''] @ cpms_mem @ [Lit CHR '',''] @ cpms_mem"

text \<open>The message is allocated first; the test of the allocation comes in time.\<close>

definition usock_cpms_cb :: "gsmd_atcmd \<Rightarrow> string \<Rightarrow> gsmd \<Rightarrow> (int \<times> gsmd) option" where
  "usock_cpms_cb cmd resp g =
     (let (ok, g1) = talloc g in
      if \<not> ok then Some (- ENOMEM, g1)
      else (case sscanf cpms_format resp 0 of
          [VStr m0, VInt u0, VInt t0, VStr m1, VInt u1, VInt t1, VStr m2, VInt u2, VInt t2] \<Rightarrow> do {
            gu \<leftarrow> ctx_user cmd;
            g2 \<leftarrow> usock_cmd_enqueue \<lparr>uc_msg_type = GSMD_MSG_SMS, uc_msg_subtype = 6, uc_id = Some (ac_id cmd),
                uc_len = sizeof_gsmd_sms_storage,
                uc_data = Ud_storage [(parse_memtype m0, of_int u0, of_int t0), (parse_memtype m1, of_int u1, of_int t1),
                            (parse_memtype m2, of_int u2, of_int t2)],
                uc_valid = sizeof_gsmd_sms_storage\<rparr> gu g1;
            Some (0, g2) }
        | _ \<Rightarrow> Some (- EINVAL, g1)))"

definition usock_get_smsc_cb :: "gsmd_atcmd \<Rightarrow> string \<Rightarrow> gsmd \<Rightarrow> (int \<times> gsmd) option" where
  "usock_get_smsc_cb cmd resp g =
     (case sscanf (lits ''+CSCA: '' @ [Lit DQ, Set (\<lambda>c. c \<noteq> DQ) (Some 31), Lit DQ, Lit CHR '','', Int_i 8]) resp 0 of
        [VStr number, VInt ty] \<Rightarrow>
          reply cmd GSMD_MSG_SMS 8 sizeof_gsmd_addr
            (Ud_addr \<lparr>ga_type = of_int ty, ga_number = number @ replicate (GSMD_ADDR_MAXLEN + 1 - length number) NUL\<rparr>) g
      | _ \<Rightarrow> Some (- EINVAL, g))"

section \<open>Initialisation\<close>

definition GSMD_FLAG_SMS_FMT_TEXT :: u32 where "GSMD_FLAG_SMS_FMT_TEXT = 0x0002"

text \<open>Filling a command that lives as long as the daemon and submitting it.\<close>

definition submit_plain :: "string \<Rightarrow> at_cb option \<Rightarrow> gsmd \<Rightarrow> (int \<times> gsmd) option" where
  "submit_plain txt0 cb g = do {
     (c, g1) \<leftarrow> atcmd_fill txt0 (int (length txt0) + 1) cb Ctx_gsmd 0 Discard_timer g;
     case c of None \<Rightarrow> Some (- ENOMEM, g1) | Some cmd \<Rightarrow> atcmd_submit cmd g1 }"

definition sms_cb_init :: "gsmd \<Rightarrow> (int \<times> gsmd) option" where
  "sms_cb_init g =
     (let g1 = snd (unsolicited_register_array gsm0705_unsolicit g); is_text = flag (g_flags g) GSMD_FLAG_SMS_FMT_TEXT in do {
        (rc, g2) \<leftarrow> (if is_text then submit_plain (''AT+CSCS='' @ [DQ] @ ''IRA'' @ [DQ]) None g1 else Some (0, g1));
        if rc < 0 then Some (rc, g2)
        else submit_plain (''AT+CMGF='' @ show_nat (if is_text then 1 else 0)) None g2 })"

section \<open>What the callbacks leave alone\<close>

lemma framed_send_pdu [frame_rules]: "framed g (send_pdu cmd sub msg len hex g)"
  unfolding send_pdu_def by (intro framed_cases framed_bind frame_rules cb_frame_refl)

lemma sms_frames [frame_rules]:
  "framed g (sms_list_cb cmd resp g)" "framed g (sms_read_cb cmd resp g)" "framed g (sms_send_cb cmd resp g)"
  "framed g (sms_write_cb cmd resp g)" "framed g (sms_delete_cb cmd g)" "framed g (usock_get_smsc_cb cmd resp g)"
  unfolding sms_list_cb_def sms_read_cb_def sms_send_cb_def sms_write_cb_def sms_delete_cb_def
    usock_get_smsc_cb_def Let_def
  by (intro framed_cases framed_bind frame_rules cb_frame_refl)+

lemma usock_cpms_frame [frame_rules]: "framed g (usock_cpms_cb cmd resp g)"
proof -
  obtain ok g1 where t: "talloc g = (ok, g1)" by (cases "talloc g")
  have g1: "cb_frame g g1" using cb_frame_talloc[of g] t by simp
  have enq: "framed g (do { gu \<leftarrow> ctx_user cmd; g2 \<leftarrow> usock_cmd_enqueue u gu g1; Some (0, g2) })" for u
    by (intro framed_bind framed_ret) (auto intro: cb_frame_trans[OF g1] usock_cmd_enqueue_frame)
  show ?thesis unfolding usock_cpms_cb_def t Let_def prod.case
    by (intro framed_cases framed_if framed_ret g1 enq)
qed

end
