(* ===== verification/Daemon.thy ===== *)
theory Daemon
  imports SmsCb
begin

text \<open>
  The daemon's own commands and timers (\<open>src/gsmd/gsmd.c\<close>): initialising the modem, the
  settings of the vendor and machine plugins, the check that the modem is alive; the
  dispatch of command callbacks and of timer callbacks, which closes the loop to
  \<open>Atcmd\<close> and \<open>Timer\<close>.
\<close>

unbundle bit_operations_syntax

section \<open>Settings of the plugins\<close>

text \<open>The query that both TI plugins end with; its result is not looked at.\<close>

definition query_cpi :: "gsmd \<Rightarrow> gsmd option" where
  "query_cpi g = map_option snd (submit_plain ''AT%CPI=?'' (Some Cpi_detect_cb) g)"

definition with_cpi_query :: "string list \<Rightarrow> gsmd \<Rightarrow> (int \<times> gsmd) option" where
  "with_cpi_query cmds g = do {
     (rc, g1) \<leftarrow> simplecmds cmds (0, g);
     g2 \<leftarrow> query_cpi g1;
     Some (rc, g2) }"

definition ticalypso_initsettings :: "gsmd \<Rightarrow> (int \<times> gsmd) option" where
  "ticalypso_initsettings g =
     with_cpi_query [''AT+CTZR=1'', ''AT%CTZV=1'', ''AT%CPRI=1'', ''AT%CSQ=1'', ''AT%CUNS=0''] g"

definition tihtc_initsettings :: "gsmd \<Rightarrow> (int \<times> gsmd) option" where
  "tihtc_initsettings g = with_cpi_query [''AT%CPRI=1'', ''AT%HTCCSQ=1'', ''AT%CUNS=0''] g"

definition bcm_initsettings :: "gsmd \<Rightarrow> (int \<times> gsmd) option" where
  "bcm_initsettings g = Some (0, g\<lparr>g_llp := (g_llp g)\<lparr>ll_flags := ll_flags (g_llp g) OR LGSM_ATCMD_F_LFCR\<rparr>\<rparr>)"

definition qc_initsettings :: "gsmd \<Rightarrow> (int \<times> gsmd) option" where
  "qc_initsettings g = simplecmds [''AT@HTCCSQ=1''] (0, g)"

definition telit_initsettings :: "gsmd \<Rightarrow> (int \<times> gsmd) option" where
  "telit_initsettings g = simplecmds [''AT+CGREG=2'', ''AT+CLIP=1'', ''AT+CFUN=5''] (0, g)"

fun vendor_initsettings :: "vendor \<Rightarrow> gsmd \<Rightarrow> (int \<times> gsmd) option" where
  "vendor_initsettings Vendor_ti g = ticalypso_initsettings g"
| "vendor_initsettings Vendor_tihtc g = tihtc_initsettings g"
| "vendor_initsettings Vendor_bcm g = bcm_initsettings g"
| "vendor_initsettings Vendor_qc g = qc_initsettings g"
| "vendor_initsettings Vendor_telit g = telit_initsettings g"

definition gta01_initsettings :: "gsmd \<Rightarrow> (int \<times> gsmd) option" where
  "gta01_initsettings g =
     simplecmds [''AT@AUL='' @ [DQ] @ ''0'' @ [DQ], ''AT@ST='' @ [DQ] @ ''-26'' @ [DQ]] (0, g)"

definition machine_initsettings :: "machine \<Rightarrow> gsmd \<Rightarrow> (int \<times> gsmd) option" where
  "machine_initsettings m g = (case m of Machine_gta01 \<Rightarrow> gta01_initsettings g | _ \<Rightarrow> Some (0, g))"

section \<open>Initialising the modem\<close>

text \<open>The command for the IMSI is submitted without a test of the allocation.\<close>

definition submit_imsi :: "gsmd \<Rightarrow> gsmd option" where
  "submit_imsi g = do {
     (c, g1) \<leftarrow> atcmd_fill ''AT+CIMI'' 8 (Some Gsmd_get_imsi_cb) Ctx_gsmd 0 Discard_timer g;
     cmd \<leftarrow> c;
     map_option snd (atcmd_submit cmd g1) }"

definition gsmd_initsettings2 :: "gsmd \<Rightarrow> (int \<times> gsmd) option" where
  "gsmd_initsettings2 g = do {
     (rc, g1) \<leftarrow> simplecmds [''ATE0V1'', ''AT+CRC=1'', ''AT+CREG=2'', ''AT+CMEE=1'', ''AT+CLIP=1'', ''AT+COLP=0'',
       ''AT+CCWA=1,1'', ''AT+CMGF=0''] (0, g);
     g2 \<leftarrow> submit_imsi g1;
     (_, g3) \<leftarrow> sms_cb_init g2;
     (rv, g4) \<leftarrow> vendor_initsettings (g_vendorpl g3) g3;
     (rm, g5) \<leftarrow> machine_initsettings (g_machinepl g4) g4;
     Some (rc OR rv OR rm, g5) }"

text \<open>Seen from the process that stays: with \<open>-d\<close> the parent exits in the fork here.\<close>

definition firstcmd_atcb :: "string \<Rightarrow> gsmd \<Rightarrow> (int \<times> gsmd) option" where
  "firstcmd_atcb resp g = gsmd_initsettings2 g"

definition gsmd_initsettings :: "gsmd \<Rightarrow> (int \<times> gsmd) option" where
  "gsmd_initsettings g = submit_plain ''ATZ'' (Some Firstcmd_atcb) g"

definition gsmd_get_imsi_cb :: "string \<Rightarrow> gsmd \<Rightarrow> (int \<times> gsmd) option" where
  "gsmd_get_imsi_cb resp g =
     map_option (\<lambda>(_, a). (0, g\<lparr>g_imsi := a\<rparr>)) (strlcpy (g_imsi g) resp 16)"

text \<open>\<open>extrsp_supports\<close> also answers with an error code, which counts as true.\<close>

definition cpi_detect_cb :: "string \<Rightarrow> gsmd \<Rightarrow> (int \<times> gsmd) option" where
  "cpi_detect_cb resp g =
     (if \<not> strncmp_eq resp ''%CPI: '' 6 then Some (- EINVAL, g)
      else do {
        (ero, g1) \<leftarrow> er_parse (P_str (drop 6 resp)) g;
        case ero of
          None \<Rightarrow> Some (- EINVAL, g1)
        | Some er \<Rightarrow>
            if extrsp_supports er 0 3 \<noteq> 0 then gsmd_simplecmd ''AT%CPI=3'' g1
            else if extrsp_supports er 0 2 \<noteq> 0 then gsmd_simplecmd ''AT%CPI=2'' g1
            else Some (0, g1) })"

section \<open>Is the modem alive\<close>

definition gsmd_alive_cb :: "string \<Rightarrow> gsmd \<Rightarrow> (int \<times> gsmd) option" where
  "gsmd_alive_cb resp g =
     Some (0, if resp = ''OK'' \<or> resp = ''ERROR'' \<or> flag (g_flags g) GSMD_FLAG_V0 \<and> c_at resp 0 = CHR ''0''
              then g\<lparr>g_alive_responded := True\<rparr> else g)"

definition GSMD_ALIVE_INTERVAL :: int where "GSMD_ALIVE_INTERVAL = 5 * 60"

definition gsmd_modem_alive :: "gsmd \<Rightarrow> (int \<times> gsmd) option" where
  "gsmd_modem_alive g = do {
     (c, g1) \<leftarrow> atcmd_fill ''AT'' 3 (Some Gsmd_alive_cb) Ctx_gsmd 0 Alive_timer (g\<lparr>g_alive_responded := False\<rparr>);
     case c of None \<Rightarrow> Some (- ENOMEM, g1) | Some cmd \<Rightarrow> atcmd_submit cmd g1 }"

text \<open>\<open>exit (3)\<close> when there has been no answer in 30 seconds.\<close>

definition alive_tmr_cb :: "gsmd \<Rightarrow> gsmd" where
  "alive_tmr_cb g = (if g_alive_responded g then g else g\<lparr>g_exit := Some 3\<rparr>)"

definition alive_interval_tmr_cb :: "gsmd_timer \<Rightarrow> gsmd \<Rightarrow> gsmd option" where
  "alive_interval_tmr_cb tmr g = do {
     (_, g1) \<leftarrow> gsmd_modem_alive g;
     Some (g1\<lparr>g_timers := snd (gsmd_timer_register (tmr\<lparr>tmr_expires := tv GSMD_ALIVE_INTERVAL 0\<rparr>) (g_timers g1))\<rparr>) }"

definition gsmd_alive_start :: "gsmd \<Rightarrow> int \<times> gsmd" where
  "gsmd_alive_start g =
     (let (ok, g1) = talloc g;
          (t, ts) = gsmd_timer_create ok (tv GSMD_ALIVE_INTERVAL 0) Alive_interval_tmr_cb (g_timers g1)
      in (if t = None then - 1 else 0, g1\<lparr>g_timers := ts\<rparr>))"

section \<open>Dispatch\<close>

text \<open>Calling the callback of a command: \<open>cmd->cb (cmd, cmd->ctx, resp)\<close>.\<close>

fun run_cb :: at_dispatch where
  "run_cb Gsmd_alive_cb cmd resp g = gsmd_alive_cb resp g"
| "run_cb Gsmd_test_atcb cmd resp g = Some (0, g)"
| "run_cb Gsmd_get_imsi_cb cmd resp g = gsmd_get_imsi_cb resp g"
| "run_cb Firstcmd_atcb cmd resp g = firstcmd_atcb resp g"
| "run_cb Null_wakeup_cb cmd resp g = Some (0, g)"
| "run_cb Cpi_detect_cb cmd resp g = cpi_detect_cb resp g"
| "run_cb Usock_cmd_cb cmd resp g = usock_cmd_cb cmd resp g"
| "run_cb Usock_ringing_cb cmd resp g = usock_ringing_cb cmd resp g"
| "run_cb Null_cmd_cb cmd resp g = Some (0, g)"
| "run_cb Voicecall_get_stat_cb cmd resp g = voicecall_get_stat_cb cmd resp g"
| "run_cb Voicecall_ctrl_cb cmd resp g = voicecall_ctrl_cb cmd resp g"
| "run_cb Voicecall_fwd_stat_cb cmd resp g = voicecall_fwd_stat_cb cmd resp g"
| "run_cb Pin_cmd_cb cmd resp g = pin_cmd_cb cmd g"
| "run_cb Get_cpin_cb cmd resp g = get_cpin_cb cmd resp g"
| "run_cb Phone_powerup_cb cmd resp g = phone_powerup_cb cmd g"
| "run_cb Phone_powerdown_cb cmd resp g = phone_powerdown_cb cmd g"
| "run_cb Phone_power_status_cb cmd resp g = phone_power_status_cb cmd resp g"
| "run_cb Phone_get_manuf_cb cmd resp g = phone_get_manuf_cb cmd resp g"
| "run_cb Phone_get_model_cb cmd resp g = phone_get_model_cb cmd resp g"
| "run_cb Phone_get_revision_cb cmd resp g = phone_get_revision_cb cmd resp g"
| "run_cb Phone_get_serial_cb cmd resp g = phone_get_serial_cb cmd resp g"
| "run_cb Phone_get_battery_cb cmd resp g = phone_get_battery_cb cmd resp g"
| "run_cb Phone_vibrator_enable_cb cmd resp g = phone_vibrator_enable_cb cmd g"
| "run_cb Phone_vibrator_disable_cb cmd resp g = phone_vibrator_disable_cb cmd g"
| "run_cb Network_query_reg_cb cmd resp g = network_query_reg_cb cmd resp g"
| "run_cb Network_vmail_cb cmd resp g = network_vmail_cb cmd resp g"
| "run_cb Network_sigq_cb cmd resp g = network_sigq_cb cmd resp g"
| "run_cb Network_oper_cb cmd resp g = network_oper_cb cmd resp g"
| "run_cb Network_oper_n_cb cmd resp g = network_oper_n_cb cmd resp g"
| "run_cb Network_opers_cb cmd resp g = network_opers_cb cmd resp g"
| "run_cb Network_pref_opers_cb cmd resp g = network_pref_opers_cb cmd resp g"
| "run_cb Network_pref_num_cb cmd resp g = network_pref_num_cb cmd resp g"
| "run_cb Network_ownnumbers_cb cmd resp g = network_ownnumbers_cb cmd resp g"
| "run_cb Phonebook_find_cb cmd resp g = phonebook_find_cb cmd resp g"
| "run_cb Phonebook_read_cb cmd resp g = phonebook_read_cb cmd resp g"
| "run_cb Phonebook_readrg_cb cmd resp g = phonebook_readrg_cb cmd resp g"
| "run_cb Phonebook_write_cb cmd resp g = phonebook_write_cb cmd resp g"
| "run_cb Phonebook_delete_cb cmd resp g = phonebook_delete_cb cmd resp g"
| "run_cb Phonebook_get_support_cb cmd resp g = phonebook_get_support_cb cmd resp g"
| "run_cb Phonebook_list_storage_cb cmd resp g = phonebook_list_storage_cb cmd resp g"
| "run_cb Sms_list_cb cmd resp g = sms_list_cb cmd resp g"
| "run_cb Sms_read_cb cmd resp g = sms_read_cb cmd resp g"
| "run_cb Sms_send_cb cmd resp g = sms_send_cb cmd resp g"
| "run_cb Sms_write_cb cmd resp g = sms_write_cb cmd resp g"
| "run_cb Sms_delete_cb cmd resp g = sms_delete_cb cmd g"
| "run_cb Usock_cpms_cb cmd resp g = usock_cpms_cb cmd resp g"
| "run_cb Usock_get_smsc_cb cmd resp g = usock_get_smsc_cb cmd resp g"

section \<open>The daemon's callbacks keep to the contract\<close>

lemma framed_fill_submit [frame_rules]:
  assumes "rlen < 4294967296" and "int (length t) < 4294967296"
    and "ctx \<in> {Ctx_null, Ctx_gsmd}" and "\<forall>x. cb = Some x \<longrightarrow> \<not> user_cb x"
  shows "framed g (do {
     (c, g1) \<leftarrow> atcmd_fill t rlen cb ctx cid ct g;
     case c of None \<Rightarrow> Some (e, g1) | Some cmd \<Rightarrow> atcmd_submit cmd g1 })"
proof (rule framed_bind)
  fix x assume x: "atcmd_fill t rlen cb ctx cid ct g = Some x"
  show "framed g (case x of (c, g1) \<Rightarrow> case c of None \<Rightarrow> Some (e, g1) | Some cmd \<Rightarrow> atcmd_submit cmd g1)"
  proof (cases "fst x")
    case None
    then have "snd x = snd (talloc g)"
      using x by (auto simp: atcmd_fill_def Let_def split_beta split: if_splits)
    then show ?thesis using None by (simp add: split_beta framed_ret)
  next
    case (Some cmd)
    then have "x = (Some cmd, snd x)" by (simp add: prod_eq_iff)
    then have "fresh_cmd g cmd (snd x)" using x assms by (metis atcmd_fill_fresh_daemon)
    moreover have "\<not> of_user cmd" using atcmd_fill_Some(3)[of t rlen cb ctx cid ct g cmd "snd x"] x \<open>x = (Some cmd, snd x)\<close> assms(3)
      by (auto simp: of_user_def)
    ultimately show ?thesis using Some atcmd_submit_cb_frame by (auto simp: split_beta framed_def)
  qed
qed

lemma framed_simplecmd [frame_rules]: "int (length t) < 4294967295 \<Longrightarrow> framed g (gsmd_simplecmd t g)"
  unfolding gsmd_simplecmd_def by (rule framed_fill_submit) (simp_all add: user_cb_def)

lemma framed_submit_plain [frame_rules]:
  "int (length t) < 4294967295 \<Longrightarrow> \<forall>x. cb = Some x \<longrightarrow> \<not> user_cb x \<Longrightarrow> framed g (submit_plain t cb g)"
  unfolding submit_plain_def by (rule framed_fill_submit) simp_all

lemma framed_seq:
  assumes "framed g m" and "\<And>r g1. framed g1 (f r g1)"
  shows "framed g (do { (r, g1) \<leftarrow> m; f r g1 })"
  using assms by (cases m) (auto simp: framed_def intro: cb_frame_trans)

lemma framed_simplecmds [frame_rules]:
  "\<forall>t \<in> set cs. int (length t) < 4294967295 \<Longrightarrow> framed g (simplecmds cs (rc, g))"
  by (induction cs arbitrary: rc g) (auto intro!: frame_rules framed_seq)

lemma framed_cpi_query [frame_rules]:
  "\<forall>t \<in> set cs. int (length t) < 4294967295 \<Longrightarrow> framed g (with_cpi_query cs g)"
  unfolding with_cpi_query_def query_cpi_def
proof (intro framed_seq framed_simplecmds, assumption)
  fix rc g1
  have "framed g1 (submit_plain ''AT%CPI=?'' (Some Cpi_detect_cb) g1)" by (rule framed_submit_plain) (simp_all add: user_cb_def)
  then show "framed g1 (do { g2 \<leftarrow> map_option snd (submit_plain ''AT%CPI=?'' (Some Cpi_detect_cb) g1); Some (rc, g2) })"
    by (auto simp: framed_def option_bind_Some_iff)
qed

lemma framed_vendor [frame_rules]: "framed g (vendor_initsettings v g)"
proof (cases v)
  case Vendor_bcm
  have "flag (w OR m) x" if "flag w x" for w m x
    using that by (auto simp: flag_def bit_eq_iff bit_or_iff bit_and_iff)
  then show ?thesis using Vendor_bcm
    by (auto simp: bcm_initsettings_def framed_def cb_frame_defs llp_frame_def)
qed (auto simp: ticalypso_initsettings_def tihtc_initsettings_def qc_initsettings_def telit_initsettings_def
    simp del: simplecmds.simps intro!: frame_rules)

lemma framed_machine [frame_rules]: "framed g (machine_initsettings m g)"
  by (cases m) (auto simp: machine_initsettings_def gta01_initsettings_def simp del: simplecmds.simps intro!: frame_rules)

lemma framed_unsolicit: "framed (g\<lparr>g_unsolicit := t\<rparr>) m \<Longrightarrow> framed g m"
  by (rule framed_trans) (simp_all add: cb_frame_defs)

lemma framed_sms_cb_init [frame_rules]: "framed g (sms_cb_init g)"
proof -
  have s: "framed g1 (do {
      (rc, g2) \<leftarrow> (if b then submit_plain (''AT+CSCS='' @ [DQ] @ ''IRA'' @ [DQ]) None g1 else Some (0, g1));
      if rc < 0 then Some (rc, g2) else submit_plain (''AT+CMGF='' @ show_nat (if b then 1 else 0)) None g2 })" for g1 b
    using length_show_nat_32[of "if b then 1 else 0"] by (intro framed_seq frame_rules) auto
  show ?thesis
    by (cases "256 < length gsm0705_unsolicit + (length (g_unsolicit g) + 1)")
      (simp_all add: sms_cb_init_def unsolicited_register_array_def Let_def s[simplified] framed_unsolicit[OF s, simplified])
qed

lemma framed_initsettings2 [frame_rules]: "framed g (gsmd_initsettings2 g)"
proof -
  have imsi: "cb_frame g g'" if i: "submit_imsi g = Some g'" for g g'
  proof -
    obtain cmd g1 rc where f: "atcmd_fill ''AT+CIMI'' 8 (Some Gsmd_get_imsi_cb) Ctx_gsmd 0 Discard_timer g = Some (Some cmd, g1)"
      and s: "atcmd_submit cmd g1 = Some (rc, g')"
      using i unfolding submit_imsi_def by (auto simp: option_bind_Some_iff)
    have "fresh_cmd g cmd g1" by (rule atcmd_fill_fresh_daemon[OF f]) (simp_all add: user_cb_def)
    moreover have "\<not> of_user cmd" using atcmd_fill_Some(3)[OF f] by (simp add: of_user_def)
    ultimately show ?thesis by (rule atcmd_submit_cb_frame[OF _ _ s])
  qed
  have "framed g1 (do {
      g2 \<leftarrow> submit_imsi g1;
      (_, g3) \<leftarrow> sms_cb_init g2;
      (rv, g4) \<leftarrow> vendor_initsettings (g_vendorpl g3) g3;
      (rm, g5) \<leftarrow> machine_initsettings (g_machinepl g4) g4;
      Some (rc OR rv OR rm, g5) })" for g1 rc
    by (rule framed_bind, rule framed_trans, erule imsi) (intro framed_seq frame_rules cb_frame_refl)
  then show ?thesis unfolding gsmd_initsettings2_def by (intro framed_seq framed_simplecmds) auto
qed

lemma framed_daemon [frame_rules]:
  "framed g (gsmd_alive_cb resp g)" "framed g (gsmd_get_imsi_cb resp g)" "framed g (cpi_detect_cb resp g)"
proof -
  show "framed g (gsmd_alive_cb resp g)" by (auto simp: gsmd_alive_cb_def framed_def cb_frame_defs)
  show "framed g (gsmd_get_imsi_cb resp g)" by (auto simp: gsmd_get_imsi_cb_def framed_def cb_frame_defs length_strlcpy)
  show "framed g (cpi_detect_cb resp g)" unfolding cpi_detect_cb_def
    by (rule framed_if, simp add: framed_ret, rule framed_er; simp add: framed_ret framed_simplecmd)
qed

lemma run_cb_framed: "framed g (run_cb cb cmd resp g)"
  by (cases cb) (simp_all add: frame_rules firstcmd_atcb_def)

text \<open>Every callback that the daemon installs keeps to the contract of the command queues.\<close>

interpretation at: atcmd_client run_cb
  by unfold_locales (rule framedD[OF run_cb_framed])

end
