(* ===== verification/MlParse.thy ===== *)
theory MlParse
  imports Daemon
begin

text \<open>
  The middle layer of \<open>src/gsmd/atcmd.c\<close>: \<open>ml_parse\<close> takes a line from the line parser and
  decides whether it is part of the response to the command in flight, its final result
  code, or unsolicited; \<open>atcmd_select_cb\<close> feeds the line parser and writes commands.
\<close>

unbundle bit_operations_syntax

section \<open>Final results\<close>

datatype error_kind = No_error | Cme_error | Cms_error

text \<open>
  The label \<open>final_cb\<close>: \<open>ret\<close> is the value assigned to \<open>cmd->ret\<close> on the way there, if any.
\<close>

definition ml_final :: "gsmd_atcmd option \<Rightarrow> int option \<Rightarrow> error_kind \<Rightarrow> string \<Rightarrow> gsmd \<Rightarrow> (int \<times> gsmd) option" where
  "ml_final cmdp ret kind buf g =
     (case cmdp of
        None \<Rightarrow> Some (0, g)
      | Some cmd0 \<Rightarrow>
          let cmd = (case ret of None \<Rightarrow> cmd0 | Some r \<Rightarrow> cmd0\<lparr>ac_ret := r\<rparr>);
              g1 = upd_busy cmd g;
              err = nat (to_u32 (ac_ret cmd));
              g2 = (case kind of
                      No_error \<Rightarrow> g1
                    | Cme_error \<Rightarrow> snd (generate_event_from_cme err g1)
                    | Cms_error \<Rightarrow> snd (generate_event_from_cms err g1))
          in atcmd_done run_cb cmd buf g2)"

section \<open>Collecting a response\<close>

text \<open>
  Appending a line to \<open>mlbuf\<close>, behind a line feed when it is not empty.  \<open>rc\<close> is what has
  been computed so far.  While a parser waits for more lines, it is called again.
\<close>

definition ml_append :: "char list \<Rightarrow> nat \<Rightarrow> gsmd \<Rightarrow> gsmd option" where
  "ml_append arr len g = do {
     (ml, n) \<leftarrow> (if g_mlbuf_len g \<noteq> 0 then
         if g_mlbuf_len g < length (g_mlbuf g) then Some ((g_mlbuf g)[g_mlbuf_len g := LF], g_mlbuf_len g + 1) else None
       else Some (g_mlbuf g, 0));
     let len' = nat (min (int len) (to_u32 (int MLPARSE_BUF_SIZE - int n)));
     ml' \<leftarrow> memcpy ml n (take len' arr);
     Some (g\<lparr>g_mlbuf := ml', g_mlbuf_len := n + len'\<rparr>) }"

definition ml_collect :: "int \<Rightarrow> char list \<Rightarrow> nat \<Rightarrow> gsmd \<Rightarrow> (int \<times> gsmd) option" where
  "ml_collect rc arr len g = do {
     g1 \<leftarrow> ml_append arr len g;
     if \<not> g_mlunsolicited g1 then Some (rc, g1)
     else do {
       s \<leftarrow> cstr_of_array (g_mlbuf g1);
       (r, g2) \<leftarrow> unsolicited_parse s (int (g_mlbuf_len g1)) g1;
       if r = - EAGAIN then Some (0, g2)
       else Some (r, g2\<lparr>g_mlunsolicited := False, g_mlbuf_len := 0\<rparr>) } }"

section \<open>Extended responses\<close>

definition is_ext :: "vendor \<Rightarrow> char \<Rightarrow> bool" where
  "is_ext v c \<longleftrightarrow> c = CHR ''+'' \<or> strchr (ext_chars v) c \<noteq> None"

text \<open>
  A valid response to an extended command: what has been collected before goes to the
  callback first.  \<open>mlbuf\<close> is not terminated at its length here.
\<close>

definition ml_flush :: "gsmd_atcmd \<Rightarrow> int \<Rightarrow> gsmd \<Rightarrow> (int \<times> gsmd) option" where
  "ml_flush cmd rc g =
     (if g_mlbuf_len g = 0 then Some (rc, g)
      else (case ac_cb cmd of
          None \<Rightarrow> Some (rc, g\<lparr>g_mlbuf_len := 0\<rparr>)
        | Some cb \<Rightarrow> do {
            resp \<leftarrow> cstr_of_array (g_mlbuf g);
            (r, g1) \<leftarrow> run_cb cb cmd resp g;
            Some (r, clear_mlbuf g1) }))"

definition ml_response :: "gsmd_atcmd option \<Rightarrow> int \<Rightarrow> char list \<Rightarrow> nat \<Rightarrow> gsmd \<Rightarrow> (int \<times> gsmd) option" where
  "ml_response cmdp rc arr len g =
     (case cmdp of
        None \<Rightarrow> ml_collect rc arr len g
      | Some cmd \<Rightarrow> do {
          c \<leftarrow> rd (ac_buf cmd) 2;
          if \<not> is_ext (g_vendorpl g) c then Some (- EINVAL, g)
          else do {
            (rc1, g1) \<leftarrow> ml_flush cmd rc g;
            ml_collect rc1 arr len g1 } })"

text \<open>A line that does not belong to the command: \<open>strncmp (buf, &cmd->buf[2], colon - buf)\<close>.\<close>

definition answers :: "string \<Rightarrow> nat \<Rightarrow> gsmd_atcmd option \<Rightarrow> bool option" where
  "answers buf colon cmdp =
     (case cmdp of
        None \<Rightarrow> Some False
      | Some cmd \<Rightarrow> map_option (\<lambda>t. strncmp_eq buf t colon) (cstr_of_array (drop 2 (ac_buf cmd))))"

definition ml_extended :: "gsmd_atcmd option \<Rightarrow> char list \<Rightarrow> nat \<Rightarrow> string \<Rightarrow> gsmd \<Rightarrow> (int \<times> gsmd) option" where
  "ml_extended cmdp arr len buf g =
     (case strchr buf CHR '':'' of
        None \<Rightarrow> Some (- EINVAL, g)
      | Some colon \<Rightarrow>
          let err = to_int32 (fst (strtoul 10 (drop (colon + 1) buf))) in
          if strncmp_eq (drop 1 buf) ''CME ERROR'' 9 then ml_final cmdp (Some err) Cme_error buf g
          else if strncmp_eq (drop 1 buf) ''CMS ERROR'' 9 then ml_final cmdp (Some err) Cms_error buf g
          else do {
            own \<leftarrow> answers buf colon cmdp;
            if own then ml_response cmdp 0 arr len g
            else do {
              (rc, g1) \<leftarrow> unsolicited_parse buf (int len) g;
              if rc = - EAGAIN then do {
                ml \<leftarrow> memcpy (g_mlbuf g1) 0 (take len arr);
                Some (0, g1\<lparr>g_mlbuf_len := len, g_mlbuf := ml, g_mlunsolicited := True\<rparr>) }
              else if rc \<noteq> - ENOENT then Some (rc, g1)
              else ml_response cmdp rc arr len g1 } })"

section \<open>A line\<close>

definition v0 :: "gsmd \<Rightarrow> string \<Rightarrow> char \<Rightarrow> bool" where
  "v0 g buf c \<longleftrightarrow> flag (g_flags g) GSMD_FLAG_V0 \<and> c_at buf 0 = c"

definition ml_plain :: "gsmd_atcmd option \<Rightarrow> char list \<Rightarrow> nat \<Rightarrow> string \<Rightarrow> gsmd \<Rightarrow> (int \<times> gsmd) option" where
  "ml_plain cmdp arr len buf g =
     (if buf = ''RING'' \<or> v0 g buf CHR ''2'' then unsolicited_parse buf (int len) g
      else if buf = ''ERROR'' \<or> v0 g buf CHR ''4'' then ml_final cmdp (Some 4) No_error buf g
      else if strncmp_eq buf ''OK'' 2 \<or> v0 g buf CHR ''0'' then ml_final cmdp (Some 0) No_error buf g
      else if strncmp_eq buf ''NO CARRIER'' 10 \<or> v0 g buf CHR ''3'' then ml_final cmdp None No_error buf g
      else if strncmp_eq buf ''BUSY'' 4 \<or> v0 g buf CHR ''7'' then ml_final cmdp None No_error buf g
      else ml_collect 0 arr len g)"

definition ml_restart :: "gsmd \<Rightarrow> (int \<times> gsmd) option" where
  "ml_restart g = do {
     (_, g1) \<leftarrow> gsmd_initsettings (g\<lparr>g_interpreter_ready := True\<rparr>);
     Some (0, snd (gsmd_alive_start g1)) }"

definition first_busy :: "gsmd \<Rightarrow> gsmd_atcmd option" where
  "first_busy g = (case g_busy_atcmds g of [] \<Rightarrow> None | cmd # _ \<Rightarrow> Some cmd)"

definition is_echo :: "string \<Rightarrow> gsmd_atcmd option \<Rightarrow> bool option" where
  "is_echo buf cmdp =
     (case cmdp of None \<Rightarrow> Some False | Some cmd \<Rightarrow> map_option (\<lambda>t. t = buf) (cstr_of_array (ac_buf cmd)))"

definition ml_parse :: "char list \<Rightarrow> nat \<Rightarrow> gsmd \<Rightarrow> (int \<times> gsmd) option" where
  "ml_parse arr len g = do {
     buf \<leftarrow> cstr_of_array arr;
     if buf = [] \<or> buf = ''AT-Command Interpreter ready'' then ml_restart g
     else do {
       let cmdp = first_busy g;
       echo \<leftarrow> is_echo buf cmdp;
       if echo then Some (0, g)
       else if is_ext (g_vendorpl g) (c_at buf 0) then ml_extended cmdp arr len buf g
       else ml_plain cmdp arr len buf g } }"

section \<open>The device\<close>

text \<open>
  The callbacks of the line parser.  The parser is a member of the daemon's state, so the
  state is completed with it before \<open>ml_parse\<close> runs and taken out afterwards.
\<close>

definition ml_cb :: "gsmd ll_cb" where
  "ml_cb arr len = (\<lambda>(llp, g). map_option (\<lambda>(_, g'). (g_llp g', g')) (ml_parse arr len (g\<lparr>g_llp := llp\<rparr>)))"

definition prompt_cb :: "gsmd ll_prompt_cb" where
  "prompt_cb = (\<lambda>(llp, g). Some (llp, atcmd_prompt (g\<lparr>g_llp := llp\<rparr>)))"

definition gsmd_llparse :: "char list \<Rightarrow> gsmd \<Rightarrow> (int \<times> gsmd) option" where
  "gsmd_llparse bs g = map_option (\<lambda>(rc, llp, g'). (rc, g'\<lparr>g_llp := llp\<rparr>)) (llparse_string ml_cb prompt_cb (g_llp g, g) bs)"

text \<open>
  What \<open>read\<close> returns in one call of \<open>atcmd_select_cb\<close>: chunks of up to 1024 octets, and
  then the end of file, \<open>EAGAIN\<close> or another error.
\<close>

datatype read_end = Read_eof | Read_eagain | Read_error

text \<open>\<open>None\<close> as a return code stands for falling through to the part that writes.\<close>

fun uart_read :: "char list list \<Rightarrow> read_end \<Rightarrow> gsmd \<Rightarrow> (int option \<times> gsmd) option" where
  "uart_read [] e g =
     Some (case e of Read_eof \<Rightarrow> None | Read_eagain \<Rightarrow> Some 0 | Read_error \<Rightarrow> Some (- 1), g)"
| "uart_read (bs # bss) e g = do {
     (rc, g1) \<leftarrow> gsmd_llparse bs g;
     if rc < 0 then Some (Some rc, g1) else uart_read bss e g1 }"

definition atcmd_select_cb ::
  "u32 \<Rightarrow> char list list \<Rightarrow> read_end \<Rightarrow> int \<Rightarrow> bool \<Rightarrow> gsmd \<Rightarrow> (int \<times> gsmd) option" where
  "atcmd_select_cb what bss e w wcr g = do {
     (r, g1) \<leftarrow> (if flag what GSMD_FD_READ then uart_read bss e g else Some (None, g));
     case r of
       Some rc \<Rightarrow> Some (rc, g1)
     | None \<Rightarrow> if flag what GSMD_FD_WRITE then atcmd_select_write w wcr g1 else Some (0, g1) }"

end
