(* ===== verification/UnsolFrame.thy ===== *)
theory UnsolFrame
  imports MlParse
begin

text \<open>
  What the parsers of unsolicited results and \<open>ml_parse\<close> leave alone.  All parsers but the
  one for \<open>RING\<close>, which sets a timer, keep to the contract of callbacks.  The consequence
  for the line parser: a line that is delivered to \<open>ml_parse\<close> finds it as the modem left
  it, so the framing results of \<open>Llparse\<close> hold for the daemon.
\<close>

section \<open>Parsers\<close>

lemma framed_talloc: "(\<And>ok g1. framed g1 (f ok g1)) \<Longrightarrow> framed g (let (ok, g1) = talloc g in f ok g1)"
  using cb_frame_talloc[of g] by (cases "talloc g") (auto intro: framed_trans)

lemma framed_evt [frame_rules]:
  "framed g (Some (usock_evt_send u e g))" "framed g (Some (rc, snd (usock_evt_send u e g)))"
  "framed g (Some (send_event err e len d g))"
  using usock_evt_send_frame[of g u e] send_event_frame[of g err e len d]
  by (simp_all add: framed_def prod_eq_iff)

lemma unsol_frames [frame_rules]:
  "framed g (cring_parse p g)" "framed g (ccwa_parse p g)" "framed g (clip_parse p g)" "framed g (colp_parse p g)"
  "framed g (ctzv_parse p g)" "framed g (cmti_parse p g)" "framed g (cbmi_parse p g)" "framed g (cdsi_parse p g)"
  "framed g (csq_parse p g)" "framed g (cpi_parse b g)" "framed g (htccsq_parse b g)"
proof -
  show "framed g (cring_parse p g)" unfolding cring_parse_def
    by (rule framed_talloc) (intro frame_rules framed_bind framed_cases cb_frame_refl)
  show "framed g (ccwa_parse p g)" unfolding ccwa_parse_def
    by (rule framed_talloc) (intro frame_rules framed_er cb_frame_refl; simp; intro frame_rules framed_bind cb_frame_refl conjI impI)
  show "framed g (clip_parse p g)" "framed g (colp_parse p g)" unfolding clip_parse_def colp_parse_def addr_parse_def
    by (rule framed_talloc; intro frame_rules framed_er cb_frame_refl; simp; intro frame_rules framed_bind cb_frame_refl conjI impI)+
  show "framed g (ctzv_parse p g)" unfolding ctzv_parse_def Let_def
    by (rule framed_talloc[unfolded Let_def]) (intro frame_rules framed_bind framed_cases cb_frame_refl)
  show "framed g (cmti_parse p g)" "framed g (cbmi_parse p g)" "framed g (cdsi_parse p g)"
    unfolding cmti_parse_def cbmi_parse_def cdsi_parse_def index_parse_def
    by (rule framed_talloc; intro frame_rules framed_bind framed_cases cb_frame_refl)+
  show "framed g (csq_parse p g)" "framed g (htccsq_parse b g)" unfolding csq_parse_def htccsq_parse_def
    by (rule framed_talloc; intro frame_rules framed_bind framed_cases cb_frame_refl)+
  show "framed g (cpi_parse b g)" unfolding cpi_parse_def
    by (rule framed_talloc; intro frame_rules framed_bind framed_cases cb_frame_refl)+
qed

lemma framed_sms_network_init [frame_rules]: "framed g (sms_cb_network_init g)"
  unfolding sms_cb_network_init_def by (rule framed_simplecmds) simp

lemma cpri_frame [frame_rules]: "framed g (cpri_parse b g)"
  unfolding cpri_parse_def
  by (intro framed_bind framed_cases framed_talloc frame_rules cb_frame_refl)
    (auto simp: Let_def framed_def cb_frame_defs)

lemma copn_frame [frame_rules]: "framed g (copn_parse p g)"
  unfolding copn_parse_def
proof (rule framed_er; simp only: option.case; intro framed_if framed_ret cb_frame_refl)
  fix er and g1 :: gsmd
  have t: "cb_frame g1 (snd (if b then talloc g1 else (True, g1)))" for b by simp
  show "framed g1 (do {
      let (ok, g2) = (if length (tok_str er 0) = 5 then talloc g1 else (True, g1));
      (rc, ops) \<leftarrow> gsmd_opname_add ok (replicate ALNUM_LONG_SIZE NUL) (g_operators g2) (tok_str er 0) (tok_str er 1);
      Some (rc, g2\<lparr>g_operators := ops\<rparr>) })"
    using t[of "length (tok_str er 0) = 5"]
    by (auto simp: Let_def split_beta framed_def option_bind_Some_iff cb_frame_defs)
qed

lemma pdu_frames [frame_rules]:
  "framed g (cmt_parse p g)" "framed g (cbm_parse p g)" "framed g (cds_parse p g)"
proof -
  show "framed g (cbm_parse p g)" "framed g (cds_parse p g)" unfolding cbm_parse_def cds_parse_def
    by (rule framed_talloc; intro framed_if framed_ret framed_bind cb_frame_refl; simp only: Let_def;
        intro framed_cases framed_bind frame_rules cb_frame_refl)+
  show "framed g (cmt_parse p g)" unfolding cmt_parse_def
    by (rule framed_talloc, rule framed_if[OF framed_ret[OF cb_frame_refl]], rule framed_bind,
        rule framed_cases(2)[OF framed_ret[OF cb_frame_refl]], rule framed_if[OF framed_none], rule framed_er;
        simp only: option.case; intro framed_cases framed_bind frame_rules cb_frame_refl)
qed

lemma creg_frame [frame_rules]: "framed g (creg_parse p g)"
proof -
  have after: "framed g2 (let (ok, g3) = talloc g2 in if \<not> ok then Some (- ENOMEM, g3)
      else (case strchr param CHR '','' of None \<Rightarrow> Some (usock_evt_send u GSMD_EVT_NETREG g3)
        | Some c \<Rightarrow> (case strchr (drop (c + 1) param) CHR '','' of None \<Rightarrow> Some (- EINVAL, g3)
            | Some c2 \<Rightarrow> Some (usock_evt_send (v c c2) GSMD_EVT_NETREG g3))))" for g2 param u v
    by (rule framed_talloc) (intro framed_cases frame_rules cb_frame_refl)
  have init: "framed g1 (if b then sms_cb_network_init g1 else Some (0, g1))" for b g1
    by (intro frame_rules cb_frame_refl)
  show ?thesis
    unfolding creg_parse_def Let_def
    by (rule framed_bind, rule framed_cases(1), rule framed_if[OF framed_ret[OF cb_frame_refl]],
        rule framed_dev_state[OF framed_seq[OF init after[unfolded Let_def]]]) simp
qed

lemma unsol_run_framed: "f \<noteq> Ring_parse \<Longrightarrow> framed g (unsol_run f buf p g)"
  by (cases f) (simp_all add: frame_rules, auto simp: framed_def)

end
