(* ===== verification/DaemonInv.thy ===== *)
theory DaemonInv
  imports UnsolFrame
begin

text \<open>
  The invariant of the daemon: the command queues, the ring timer, the buffer that
  collects responses and the line parser.  Whatever line the modem sends, \<open>ml_parse\<close> keeps
  it.
\<close>

section \<open>The invariant\<close>

text \<open>The ring timer is in the list and belongs to no command.\<close>

definition ring_wf :: "gsmd \<Rightarrow> bool" where
  "ring_wf g \<longleftrightarrow> (\<forall>a. ds_ring_check (g_dev_state g) = Some a \<longrightarrow>
     a \<in> tmr_addr ` set (ts_timers (g_timers g)) \<and> (\<forall>c \<in> set (g_busy_atcmds g). ac_timeout c \<noteq> Some a))"

definition ml_wf :: "gsmd \<Rightarrow> bool" where
  "ml_wf g \<longleftrightarrow> length (g_mlbuf g) = MLPARSE_BUF_SIZE \<and> g_mlbuf_len g \<le> MLPARSE_BUF_SIZE"

definition daemon_inv :: "gsmd \<Rightarrow> bool" where
  "daemon_inv g \<longleftrightarrow> at_inv g \<and> ring_wf g \<and> ml_wf g \<and> llp_wf (g_llp g) \<and> length (g_imsi g) = 16"

lemmas daemon_invs = daemon_inv_def ring_wf_def ml_wf_def

lemma llp_wf_frame: "llp_frame l l' \<Longrightarrow> llp_wf l = llp_wf l'"
  by (cases l, cases l') (auto simp: llp_frame_def llp_wf_def ll_content_def)

lemma dinv_queue: "queue_frame g g' \<Longrightarrow> daemon_inv g \<Longrightarrow> daemon_inv g'"
  using at_inv_queue[of g g'] llp_wf_frame[of "g_llp g" "g_llp g'"]
  by (auto simp: queue_frame_def daemon_invs)

lemmas dinv_frame = dinv_queue[OF cb_frame_queue]

lemma dinv_framed: "framed g m \<Longrightarrow> m = Some (rc, g') \<Longrightarrow> daemon_inv g \<Longrightarrow> daemon_inv g'"
  using dinv_frame framedD by blast

text \<open>Fields that the invariant does not mention, and the buffer as long as it stays in bounds.\<close>

lemma dinv_fields [simp]:
  "daemon_inv (g\<lparr>g_interpreter_ready := b\<rparr>) = daemon_inv g" "daemon_inv (g\<lparr>g_mlunsolicited := b\<rparr>) = daemon_inv g"
  "daemon_inv (g\<lparr>g_alive_responded := b\<rparr>) = daemon_inv g" "daemon_inv (g\<lparr>g_exit := e\<rparr>) = daemon_inv g"
  by (simp_all add: daemon_invs at_inv_def at_wf_def single_flight_def want_write_def)

lemma dinv_mlbuf:
  "daemon_inv g \<Longrightarrow> length ml = MLPARSE_BUF_SIZE \<Longrightarrow> n \<le> MLPARSE_BUF_SIZE \<Longrightarrow> daemon_inv (g\<lparr>g_mlbuf := ml, g_mlbuf_len := n\<rparr>)"
  "daemon_inv g \<Longrightarrow> n \<le> MLPARSE_BUF_SIZE \<Longrightarrow> daemon_inv (g\<lparr>g_mlbuf_len := n\<rparr>)"
  "daemon_inv g \<Longrightarrow> daemon_inv (clear_mlbuf g)"
  by (simp_all add: daemon_invs at_inv_def at_wf_def single_flight_def want_write_def clear_mlbuf_def)

section \<open>Timers\<close>

lemma create_addrs:
  assumes "gsmd_timer_create ok e cb s = (t, ts)"
  shows "tmr_addr ` set (ts_timers s) \<subseteq> tmr_addr ` set (ts_timers ts)"
    and "t = Some a \<Longrightarrow> a = ts_next s \<and> a \<in> tmr_addr ` set (ts_timers ts)"
  using assms by (cases ok; auto dest!: gsmd_timer_create_Some simp: gsmd_timer_create_fail)+

lemma dinv_timer_add:
  assumes "daemon_inv g" and "gsmd_timer_create ok e cb (g_timers g) = (t, ts)"
  shows "daemon_inv (g\<lparr>g_timers := ts\<rparr>)"
  using assms create_addrs(1)[OF assms(2)] timers_wf_create[OF _ assms(2)]
  by (auto simp: daemon_invs at_inv_def at_wf_def single_flight_def want_write_def)

lemma dinv_talloc: "daemon_inv g \<Longrightarrow> daemon_inv (snd (talloc g))"
  by (rule dinv_frame[OF cb_frame_talloc])

lemma dinv_alive_start: "daemon_inv g \<Longrightarrow> daemon_inv (snd (gsmd_alive_start g))"
proof -
  assume inv: "daemon_inv g"
  obtain ok g1 where t: "talloc g = (ok, g1)" by (cases "talloc g")
  have "daemon_inv g1" using dinv_talloc[OF inv] t by simp
  then show ?thesis using t dinv_timer_add by (auto simp: gsmd_alive_start_def Let_def split: prod.split)
qed

section \<open>The ring timer\<close>

lemma register_timers:
  "gsmd_timer_register t s = (r, s') \<Longrightarrow>
     ts_next s' = ts_next s \<and> (\<exists>t'. ts_timers s' = ts_timers s @ [t'] \<and> tmr_addr t' = tmr_addr t \<and> tmr_cb t' = tmr_cb t)"
  by (auto simp: gsmd_timer_register_def gettimeofday_def Let_def split_beta)

lemma dinv_ring_set:
  assumes "daemon_inv g" and "timers_wf ts"
    and "\<And>c t. c \<in> set (g_busy_atcmds g) \<Longrightarrow> ac_timeout c = Some t \<Longrightarrow> t \<in> tmr_addr ` set (ts_timers ts)"
    and "\<And>a. ds_ring_check d = Some a \<Longrightarrow> a \<in> tmr_addr ` set (ts_timers ts) \<and> (\<forall>c \<in> set (g_busy_atcmds g). ac_timeout c \<noteq> Some a)"
  shows "daemon_inv (g\<lparr>g_timers := ts, g_dev_state := d\<rparr>)"
  using assms by (auto simp: daemon_invs at_inv_def at_wf_def single_flight_def want_write_def)

lemma busy_timer_known:
  assumes "daemon_inv g" and "c \<in> set (g_busy_atcmds g)" and "ac_timeout c = Some t"
  shows "t \<in> tmr_addr ` set (ts_timers (g_timers g))" and "t < ts_next (g_timers g)"
proof -
  show "t \<in> tmr_addr ` set (ts_timers (g_timers g))"
    using assms by (auto simp: daemon_inv_def at_inv_def at_wf_def)
  then show "t < ts_next (g_timers g)"
    using assms(1) by (auto simp: daemon_inv_def at_inv_def at_wf_def timers_wf_def)
qed

lemma ringing_update_inv:
  assumes inv: "daemon_inv g"
  shows "\<exists>g'. state_ringing_update g = Some g' \<and> daemon_inv g' \<and> g_busy_atcmds g' = g_busy_atcmds g \<and>
    g_mlbuf g' = g_mlbuf g \<and> g_mlbuf_len g' = g_mlbuf_len g \<and> g_llp g' = g_llp g"
proof (cases "ds_ring_check (g_dev_state g)")
  case (Some a)
  have ring: "a \<in> tmr_addr ` set (ts_timers (g_timers g))" "\<forall>c \<in> set (g_busy_atcmds g). ac_timeout c \<noteq> Some a"
    using inv Some by (auto simp: daemon_inv_def ring_wf_def)
  obtain ts where un: "gsmd_timer_unregister a (g_timers g) = Some ts"
    using gsmd_timer_unregister_defined[OF ring(1)] by blast
  let ?t = "\<lparr>tmr_addr = a, tmr_expires = tv 1 GSMD_RING_MAX_JITTER, tmr_cb = State_ringing_timeout\<rparr>"
  obtain r ts' where reg: "gsmd_timer_register ?t ts = (r, ts')" by (cases "gsmd_timer_register ?t ts")
  note u = gsmd_timer_unregister_Some[OF un] and r = register_timers[OF reg]
  have wf: "timers_wf (g_timers g)" using inv by (simp add: daemon_inv_def at_inv_def at_wf_def)
  have "timers_wf ts'" using wf u r ring(1) by (auto simp: timers_wf_def distinct_map_filter)
  moreover have "t \<in> tmr_addr ` set (ts_timers ts')" if "c \<in> set (g_busy_atcmds g)" "ac_timeout c = Some t" for c t
    using busy_timer_known(1)[OF inv that] u r by (auto simp: image_iff)
  moreover have "a \<in> tmr_addr ` set (ts_timers ts')" using r by auto
  ultimately have "daemon_inv (g\<lparr>g_timers := ts', g_dev_state := (g_dev_state g)\<lparr>ds_ringing := True\<rparr>\<rparr>)"
    (is "daemon_inv ?g'")
    using Some ring(2) by (intro dinv_ring_set[OF inv]) auto
  moreover have "state_ringing_update g = Some ?g'"
    using un reg Some by (simp add: state_ringing_update_def Let_def)
  ultimately show ?thesis by simp
next
  case None
  obtain ok g1 where t: "talloc g = (ok, g1)" by (cases "talloc g")
  have g1: "daemon_inv g1" "g_busy_atcmds g1 = g_busy_atcmds g" "g_mlbuf g1 = g_mlbuf g"
    "g_mlbuf_len g1 = g_mlbuf_len g" "g_llp g1 = g_llp g" "g_timers g1 = g_timers g"
    using dinv_talloc[OF inv] t talloc_eq[of g] by auto
  obtain a ts where c: "gsmd_timer_create ok (tv 1 GSMD_RING_MAX_JITTER) State_ringing_timeout (g_timers g1) = (a, ts)"
    by fastforce
  have wf: "timers_wf (g_timers g1)" using g1(1) by (simp add: daemon_inv_def at_inv_def at_wf_def)
  have "daemon_inv (g1\<lparr>g_timers := ts, g_dev_state := (g_dev_state g1)\<lparr>ds_ringing := True, ds_ring_check := a\<rparr>\<rparr>)"
  proof (rule dinv_ring_set[OF g1(1) timers_wf_create[OF wf c]])
    fix c t assume "c \<in> set (g_busy_atcmds g1)" "ac_timeout c = Some t"
    then show "t \<in> tmr_addr ` set (ts_timers ts)" using busy_timer_known(1)[OF g1(1)] create_addrs(1)[OF c] by blast
  next
    fix b assume "ds_ring_check ((g_dev_state g1)\<lparr>ds_ringing := True, ds_ring_check := a\<rparr>) = Some b"
    then have "b = ts_next (g_timers g1)" "b \<in> tmr_addr ` set (ts_timers ts)" using create_addrs(2)[OF c] by auto
    then show "b \<in> tmr_addr ` set (ts_timers ts) \<and> (\<forall>c \<in> set (g_busy_atcmds g1). ac_timeout c \<noteq> Some b)"
      using busy_timer_known(2)[OF g1(1)] by fastforce
  qed
  then show ?thesis using None t c g1 by (simp add: state_ringing_update_def Let_def)
qed

section \<open>Completing a command\<close>

lemma cb_frame_clear: "cb_frame (g\<lparr>g_mlbuf := ml\<rparr>) g' \<Longrightarrow> cb_frame (clear_mlbuf g) (clear_mlbuf g')"
  by (simp add: cb_frame_defs clear_mlbuf_def)

lemma dinv_remove_timer:
  assumes inv: "daemon_inv g" and busy: "g_busy_atcmds g = [cmd]" and rm: "remove_timer cmd g = Some g0"
  shows "daemon_inv (upd_busy (cmd\<lparr>ac_timeout := None\<rparr>) g0)" and "g_llp g0 = g_llp g"
proof -
  obtain ts where ts: "g0 = g\<lparr>g_timers := ts\<rparr>"
    and keep: "\<And>a. ac_timeout cmd \<noteq> Some a \<Longrightarrow> a \<in> tmr_addr ` set (ts_timers (g_timers g)) \<Longrightarrow> a \<in> tmr_addr ` set (ts_timers ts)"
  proof (cases "ac_timeout cmd")
    case None
    then show thesis using rm that[of "g_timers g"] by (simp add: remove_timer_def)
  next
    case (Some t)
    then show thesis using rm that by (fastforce simp: remove_timer_def dest: gsmd_timer_unregister_Some)
  qed
  show "g_llp g0 = g_llp g" by (simp add: ts)
  have "at_wf g" "\<not> want_write g" using inv busy by (auto simp: daemon_inv_def at_inv_def single_flight_def)
  with remove_timer_wf(1)[OF _ busy rm] have "at_inv (upd_busy (cmd\<lparr>ac_timeout := None\<rparr>) g0)"
    by (simp add: at_inv_def single_flight_def want_write_def upd_busy_def ts busy)
  moreover have "ring_wf (upd_busy (cmd\<lparr>ac_timeout := None\<rparr>) g0)"
    using inv busy keep by (auto simp: daemon_inv_def ring_wf_def upd_busy_def ts)
  ultimately show "daemon_inv (upd_busy (cmd\<lparr>ac_timeout := None\<rparr>) g0)"
    using inv by (simp add: daemon_inv_def ml_wf_def upd_busy_def ts)
qed

lemma dinv_finish:
  assumes "daemon_inv g" and "g_busy_atcmds g = [cmd']" and "ac_addr cmd' = ac_addr cmd"
  shows "daemon_inv (wake_if_idle (del_busy cmd g))"
proof -
  have "at_inv (wake_if_idle (del_busy cmd g))"
    using assms by (intro at_inv_finish[of _ cmd']) (simp_all add: daemon_inv_def at_inv_def)
  then show ?thesis using assms
    by (auto simp: daemon_invs wake_if_idle_def del_busy_def atcmd_wake_pending_queue_def)
qed

lemma llp_wake [simp]: "g_llp (wake_if_idle g) = g_llp g" "g_llp (del_busy c g) = g_llp g" "g_llp (upd_busy c g) = g_llp g"
  "g_llp (clear_mlbuf g) = g_llp g"
  by (simp_all add: wake_if_idle_def del_busy_def upd_busy_def clear_mlbuf_def atcmd_wake_pending_queue_def)

lemma dinv_done:
  assumes inv: "daemon_inv g" and busy: "g_busy_atcmds g = cmd # rest"
    and d: "atcmd_done run_cb cmd buf g = Some (rc, g')"
  shows "daemon_inv g'"
proof -
  have b1: "g_busy_atcmds g = [cmd]" using at_inv_busy[of g cmd rest] busy inv by (simp add: daemon_inv_def)
  let ?c = "cmd\<lparr>ac_timeout := None\<rparr>"
  obtain g0 g4 where g0: "remove_timer cmd g = Some g0"
    and g4: "cb_frame (upd_busy ?c g0) g4 \<or>
         (\<exists>ml g3. cb_frame ((upd_busy ?c g0)\<lparr>g_mlbuf := ml\<rparr>) g3 \<and> g4 = clear_mlbuf g3)"
    and g': "g' = wake_if_idle (del_busy cmd g4)"
    using at.done_steps[OF d] by blast
  note r = dinv_remove_timer[OF inv b1 g0]
  have "daemon_inv g4"
    using g4 r(1) dinv_frame[OF _ r(1)] dinv_frame[OF cb_frame_clear dinv_mlbuf(3)[OF r(1)]] by blast
  moreover have "g_busy_atcmds (upd_busy ?c g0) = [?c]"
    using remove_timer_wf(2)[OF _ b1 g0] inv by (simp add: upd_busy_def daemon_inv_def at_inv_def)
  then have "g_busy_atcmds g4 = [?c]" using g4 by (auto dest: cb_frame_busy)
  ultimately show ?thesis unfolding g' by (rule dinv_finish) simp
qed

lemma dinv_set_ret:
  assumes "daemon_inv g" and "g_busy_atcmds g = cmd # rest"
  shows "daemon_inv (upd_busy (cmd\<lparr>ac_ret := r\<rparr>) g)" and "g_busy_atcmds (upd_busy (cmd\<lparr>ac_ret := r\<rparr>) g) = [cmd\<lparr>ac_ret := r\<rparr>]"
proof -
  have inv: "at_inv g" using assms(1) by (simp add: daemon_inv_def)
  show "g_busy_atcmds (upd_busy (cmd\<lparr>ac_ret := r\<rparr>) g) = [cmd\<lparr>ac_ret := r\<rparr>]"
    by (rule at.at_inv_set_ret(2)[OF inv assms(2)])
  show "daemon_inv (upd_busy (cmd\<lparr>ac_ret := r\<rparr>) g)"
    using assms at.at_inv_set_ret(1)[OF inv assms(2)] by (auto simp: daemon_invs upd_busy_def)
qed

section \<open>What every step of \<open>ml_parse\<close> keeps\<close>

text \<open>
  The line parser up to its flags, always; and the invariant, where \<open>ok\<close> stands for what a
  step needs besides it.
\<close>

definition kept :: "bool \<Rightarrow> gsmd \<Rightarrow> (int \<times> gsmd) option \<Rightarrow> bool" where
  "kept ok g m \<longleftrightarrow> (\<forall>rc g'. m = Some (rc, g') \<longrightarrow>
     llp_frame (g_llp g) (g_llp g') \<and> (ok \<longrightarrow> daemon_inv g \<longrightarrow> daemon_inv g'))"

lemma keptD:
  "kept ok g m \<Longrightarrow> m = Some (rc, g') \<Longrightarrow> llp_frame (g_llp g) (g_llp g')"
  "kept ok g m \<Longrightarrow> m = Some (rc, g') \<Longrightarrow> ok \<Longrightarrow> daemon_inv g \<Longrightarrow> daemon_inv g'"
  by (simp_all add: kept_def)

lemma kept_framed: "framed g m \<Longrightarrow> kept ok g m"
  unfolding kept_def using dinv_framed[of g m] by (auto simp: framed_def cb_frame_defs)

lemma kept_ret: "llp_frame (g_llp g) (g_llp g') \<Longrightarrow> (ok \<Longrightarrow> daemon_inv g \<Longrightarrow> daemon_inv g') \<Longrightarrow> kept ok g (Some (rc, g'))"
  by (simp add: kept_def)

lemma kept_refl [simp]: "kept ok g (Some (rc, g))"
  by (simp add: kept_def)

lemma kept_bind: "(\<And>x. m = Some x \<Longrightarrow> kept ok g (f x)) \<Longrightarrow> kept ok g (Option.bind m f)"
  by (cases m) (auto simp: kept_def)

lemma kept_seq: "kept ok g m \<Longrightarrow> (\<And>r g1. kept ok g1 (f r g1)) \<Longrightarrow> kept ok g (do { (r, g1) \<leftarrow> m; f r g1 })"
  by (cases m) (auto simp: kept_def intro: llp_frame_trans)

lemma kept_from: "kept ok g1 m \<Longrightarrow> g_llp g1 = g_llp g \<Longrightarrow> (ok \<Longrightarrow> daemon_inv g \<Longrightarrow> daemon_inv g1) \<Longrightarrow> kept ok g m"
  by (auto simp: kept_def)

lemma ringing_update_llp: "state_ringing_update g = Some g' \<Longrightarrow> g_llp g' = g_llp g"
  by (auto simp: state_ringing_update_def Let_def talloc_eq split_beta option_bind_Some_iff split: option.splits)

lemma kept_unsol: "kept ok g (unsol_run f buf p g)"
proof (cases "f = Ring_parse")
  case True
  have "kept ok g (ring_parse g)"
  proof (cases "state_ringing_update g")
    case (Some g1)
    have "kept ok g1 (Some (send_event (- ENOMEM) GSMD_EVT_IN_CALL sizeof_gsmd_evt_auxdata (Ud_evt (Aux_call 1)) g1))"
      by (intro kept_framed frame_rules)
    from kept_from[OF this ringing_update_llp[OF Some]] ringing_update_inv[of g] Some
    show ?thesis by (auto simp: ring_parse_def)
  qed (simp add: ring_parse_def kept_def)
  with True show ?thesis by simp
qed (auto intro: kept_framed unsol_run_framed)

lemma kept_unsolicited: "kept ok g (unsolicited_parse buf len g)"
  by (cases "find_unsol buf (g_unsolicit g)") (auto simp: unsolicited_parse_def kept_unsol)

lemma framed_generate [frame_rules]:
  "framed g (Some (generate_event_from_cme e g))" "framed g (Some (generate_event_from_cms e g))"
  by (simp_all add: generate_event_from_cme_def generate_event_from_cms_def frame_rules)

lemma llp_frame_done:
  assumes "atcmd_done run_cb cmd buf g = Some (rc, g')"
  shows "llp_frame (g_llp g) (g_llp g')"
proof -
  let ?c = "cmd\<lparr>ac_timeout := None\<rparr>"
  obtain g0 g4 where g0: "remove_timer cmd g = Some g0"
    and g4: "cb_frame (upd_busy ?c g0) g4 \<or>
         (\<exists>ml g3. cb_frame ((upd_busy ?c g0)\<lparr>g_mlbuf := ml\<rparr>) g3 \<and> g4 = clear_mlbuf g3)"
    and g': "g' = wake_if_idle (del_busy cmd g4)"
    using at.done_steps[OF assms] by blast
  have "g_llp g0 = g_llp g" using g0 by (auto simp: remove_timer_def split: option.splits)
  then show ?thesis using g4 unfolding g' by (auto simp: cb_frame_defs)
qed

lemma kept_final: "kept ok g (ml_final (first_busy g) ret kind buf g)"
proof (cases "g_busy_atcmds g")
  case Nil
  then show ?thesis by (simp add: ml_final_def first_busy_def)
next
  case (Cons cmd0 rest)
  define cmd where "cmd = cmd0\<lparr>ac_ret := (case ret of None \<Rightarrow> ac_ret cmd0 | Some r \<Rightarrow> r)\<rparr>"
  define err where "err = nat (to_u32 (ac_ret cmd))"
  define g2 where "g2 = (case kind of No_error \<Rightarrow> upd_busy cmd g
     | Cme_error \<Rightarrow> snd (generate_event_from_cme err (upd_busy cmd g))
     | Cms_error \<Rightarrow> snd (generate_event_from_cms err (upd_busy cmd g)))"
  have fr: "cb_frame (upd_busy cmd g) g2"
    using framedD[OF framed_generate(1)[of "upd_busy cmd g" err]] framedD[OF framed_generate(2)[of "upd_busy cmd g" err]]
    by (cases kind) (simp_all add: g2_def prod_eq_iff)
  have eq: "ml_final (first_busy g) ret kind buf g = atcmd_done run_cb cmd buf g2"
    by (cases ret; cases kind) (simp_all add: ml_final_def first_busy_def Cons Let_def g2_def err_def cmd_def)
  have llp: "llp_frame (g_llp g) (g_llp g')" if "atcmd_done run_cb cmd buf g2 = Some (rc, g')" for rc g'
    using fr llp_frame_done[OF that] llp_frame_trans by (auto simp: cb_frame_defs)
  have "daemon_inv g'" if d: "atcmd_done run_cb cmd buf g2 = Some (rc, g')" and inv: "daemon_inv g" for rc g'
  proof -
    note r = dinv_set_ret[OF inv Cons, of "case ret of None \<Rightarrow> ac_ret cmd0 | Some r \<Rightarrow> r", folded cmd_def]
    from dinv_done[OF dinv_frame[OF fr r(1)] _ d, of "[]"] r(2) cb_frame_busy[OF fr] show "daemon_inv g'" by simp
  qed
  with llp show ?thesis unfolding eq kept_def by blast
qed

lemma memcpy_length: "memcpy a i b = Some a' \<Longrightarrow> length a' = length a \<and> i + length b \<le> length a"
  by (auto simp: memcpy_def split: if_splits)

lemma ml_append_llp: "ml_append arr len g = Some g' \<Longrightarrow> g_llp g' = g_llp g"
  by (auto simp: ml_append_def Let_def option_bind_Some_iff)

lemma dinv_append:
  assumes "daemon_inv g" and "ml_append arr len g = Some g'" and "len \<le> length arr"
  shows "daemon_inv g'"
proof -
  have ml: "length (g_mlbuf g) = MLPARSE_BUF_SIZE" "g_mlbuf_len g \<le> MLPARSE_BUF_SIZE"
    using assms(1) by (simp_all add: daemon_inv_def ml_wf_def)
  obtain a n ml' where an: "(if g_mlbuf_len g \<noteq> 0 then
         if g_mlbuf_len g < length (g_mlbuf g) then Some ((g_mlbuf g)[g_mlbuf_len g := LF], g_mlbuf_len g + 1) else None
       else Some (g_mlbuf g, 0)) = Some (a, n)"
    and cp: "memcpy a n (take (nat (min (int len) (to_u32 (int MLPARSE_BUF_SIZE - int n)))) arr) = Some ml'"
    and g': "g' = g\<lparr>g_mlbuf := ml', g_mlbuf_len := n + nat (min (int len) (to_u32 (int MLPARSE_BUF_SIZE - int n)))\<rparr>"
    using assms(2) unfolding ml_append_def Let_def by (auto simp: option_bind_Some_iff simp del: if_split)
  have n: "length a = MLPARSE_BUF_SIZE" "n \<le> MLPARSE_BUF_SIZE" using an ml by (auto split: if_splits)
  show ?thesis unfolding g'
    using memcpy_length[OF cp] n assms(3) by (intro dinv_mlbuf(1)[OF assms(1)]) (auto simp: min_def split: if_splits)
qed

lemma kept_collect:
  assumes "ok \<Longrightarrow> len \<le> length arr"
  shows "kept ok g (ml_collect rc arr len g)"
  unfolding ml_collect_def
proof (rule kept_bind)
  fix g1 assume a: "ml_append arr len g = Some g1"
  have zero: "kept ok g2 (if r = - EAGAIN then Some (0, g2) else Some (r, g2\<lparr>g_mlunsolicited := False, g_mlbuf_len := 0\<rparr>))" for r g2
    using dinv_mlbuf(2)[of "g2\<lparr>g_mlunsolicited := False\<rparr>" 0] by (auto intro: kept_ret)
  show "kept ok g (if \<not> g_mlunsolicited g1 then Some (rc, g1) else do {
       s \<leftarrow> cstr_of_array (g_mlbuf g1);
       (r, g2) \<leftarrow> unsolicited_parse s (int (g_mlbuf_len g1)) g1;
       if r = - EAGAIN then Some (0, g2) else Some (r, g2\<lparr>g_mlunsolicited := False, g_mlbuf_len := 0\<rparr>) })"
    using ml_append_llp[OF a] dinv_append[OF _ a] assms
    by (intro kept_from[of ok g1 _ g]) (auto intro!: kept_bind kept_seq[OF kept_unsolicited zero] split: if_split)
qed

lemma kept_flush: "kept ok g (ml_flush cmd rc g)"
proof -
  have "kept ok g (do { (r, g1) \<leftarrow> run_cb cb cmd resp g; Some (r, clear_mlbuf g1) })" for cb resp
    by (rule kept_seq[OF kept_framed[OF run_cb_framed]]) (rule kept_ret, simp, rule dinv_mlbuf(3))
  then show ?thesis
    by (cases "ac_cb cmd") (simp_all add: ml_flush_def kept_ret kept_bind dinv_mlbuf(2))
qed

lemma kept_response: "(ok \<Longrightarrow> len \<le> length arr) \<Longrightarrow> kept ok g (ml_response cmdp rc arr len g)"
  unfolding ml_response_def
  by (cases cmdp) (simp_all add: kept_collect kept_bind kept_seq[OF kept_flush])

lemma kept_unsolicited_more:
  assumes "ok \<Longrightarrow> len \<le> length arr"
  shows "kept ok g (if rc = - EAGAIN then do {
        ml \<leftarrow> memcpy (g_mlbuf g) 0 (take len arr);
        Some (0, g\<lparr>g_mlbuf_len := len, g_mlbuf := ml, g_mlunsolicited := True\<rparr>) }
      else if rc \<noteq> - ENOENT then Some (rc, g) else ml_response cmdp rc arr len g)"
proof -
  have "daemon_inv (g\<lparr>g_mlbuf_len := len, g_mlbuf := ml, g_mlunsolicited := True\<rparr>)"
    if "memcpy (g_mlbuf g) 0 (take len arr) = Some ml" "daemon_inv g" ok for ml
  proof -
    have "length ml = MLPARSE_BUF_SIZE" "len \<le> MLPARSE_BUF_SIZE"
      using memcpy_length[OF that(1)] that(2) assms[OF that(3)] by (simp_all add: daemon_inv_def ml_wf_def)
    from dinv_mlbuf(1)[OF that(2) this] show ?thesis
      by (simp add: daemon_invs at_inv_def at_wf_def single_flight_def want_write_def)
  qed
  then show ?thesis using assms by (auto intro!: kept_bind kept_ret kept_response)
qed

lemma kept_extended:
  assumes "ok \<Longrightarrow> len \<le> length arr"
  shows "kept ok g (ml_extended (first_busy g) arr len buf g)"
  unfolding ml_extended_def
  by (auto simp: Let_def intro!: kept_final kept_bind kept_response assms
      kept_seq[OF kept_unsolicited kept_unsolicited_more] split: option.split)

lemma kept_plain:
  assumes "ok \<Longrightarrow> len \<le> length arr"
  shows "kept ok g (ml_plain (first_busy g) arr len buf g)"
  unfolding ml_plain_def by (auto intro: kept_unsolicited kept_final kept_collect[OF assms])

lemma alive_start_llp [simp]: "g_llp (snd (gsmd_alive_start g)) = g_llp g"
  by (simp add: gsmd_alive_start_def Let_def talloc_eq split_beta)

lemma kept_restart: "kept ok g (ml_restart g)"
proof -
  let ?g = "g\<lparr>g_interpreter_ready := True\<rparr>"
  have init: "kept ok ?g (gsmd_initsettings ?g)"
    unfolding gsmd_initsettings_def by (rule kept_framed, rule framed_submit_plain) (simp_all add: user_cb_def)
  have start: "kept ok g1 (Some (0, snd (gsmd_alive_start g1)))" for g1
    by (rule kept_ret) (simp_all add: dinv_alive_start)
  show ?thesis unfolding ml_restart_def
    by (rule kept_from[OF kept_seq[OF init start]]) simp_all
qed

lemma kept_parse: "(ok \<Longrightarrow> len \<le> length arr) \<Longrightarrow> kept ok g (ml_parse arr len g)"
  unfolding ml_parse_def
  by (auto simp: Let_def intro!: kept_bind kept_restart kept_extended kept_plain split: if_split)

end
