(* ===== verification/Stream.thy ===== *)
theory Stream
  imports DaemonInv
begin

text \<open>
  The line parser and \<open>ml_parse\<close> put together: what happens to the daemon when the modem
  sends a conversation of framed lines.
\<close>

section \<open>The line callback keeps the parser\<close>

lemma ml_cb_parse:
  assumes "ml_cb b n (llp, g) = Some (llp', g')"
  obtains rc where "ml_parse b n (g\<lparr>g_llp := llp\<rparr>) = Some (rc, g')" and "llp' = g_llp g'" and "llp_frame llp llp'"
proof -
  obtain rc where p: "ml_parse b n (g\<lparr>g_llp := llp\<rparr>) = Some (rc, g')" and l: "llp' = g_llp g'"
    using assms by (auto simp: ml_cb_def)
  have "llp_frame llp llp'" using keptD(1)[OF kept_parse[of False] p] l by simp
  with p l show thesis by (rule that)
qed

interpretation dev: line_sink ml_cb prompt_cb
proof
  fix b n llp g llp' g'
  assume cb: "ml_cb b n (llp, g) = Some (llp', g')"
  have fr: "llp_frame llp llp'" by (rule ml_cb_parse[OF cb])
  then show "\<exists>fl. llp' = llp\<lparr>ll_flags := fl\<rparr>" by (auto simp: llp_frame_def)
  show "flag (ll_flags llp') LGSM_ATCMD_F_EXTENDED" if "flag (ll_flags llp) LGSM_ATCMD_F_EXTENDED"
    using fr that by (simp add: llp_frame_def)
next
  fix llp llp' and g g' :: gsmd
  assume "prompt_cb (llp, g) = Some (llp', g')"
  then show "llp' = llp" by (simp add: prompt_cb_def)
qed

section \<open>Lines one after the other\<close>

text \<open>The parser that has collected a line, and the one that waits for the next.\<close>

definition with_line :: "string \<Rightarrow> gsmd \<Rightarrow> gsmd" where
  "with_line l g = g\<lparr>g_llp := ll_put LLPARSE_STATE_RESULT_CR l (g_llp g)\<rparr>"

definition idle_line :: "gsmd \<Rightarrow> gsmd" where
  "idle_line g = g\<lparr>g_llp := ll_put LLPARSE_STATE_IDLE [] (g_llp g)\<rparr>"

fun ml_lines :: "string list \<Rightarrow> gsmd \<Rightarrow> gsmd option" where
  "ml_lines [] g = Some g"
| "ml_lines (l # ls) g = do {
     (_, g') \<leftarrow> ml_parse (pad l) (length l) (with_line l g);
     ml_lines ls (idle_line g') }"

lemma ml_lines_append: "ml_lines (ls @ ls') g = Option.bind (ml_lines ls g) (ml_lines ls')"
proof (induction ls arbitrary: g)
  case (Cons l ls)
  then show ?case by (cases "ml_parse (pad l) (length l) (with_line l g)") auto
qed simp

lemma deliver_lines:
  "map_option (\<lambda>(llp, g'). g'\<lparr>g_llp := llp\<rparr>) (dev.deliver_all ls (llp, g)) = ml_lines ls (g\<lparr>g_llp := llp\<rparr>)"
proof (induction ls arbitrary: llp g)
  case (Cons l ls)
  have d: "dev.deliver l (llp, g) = map_option (\<lambda>(_, g'). (ll_put LLPARSE_STATE_IDLE [] (g_llp g'), g'))
      (ml_parse (pad l) (length l) (with_line l (g\<lparr>g_llp := llp\<rparr>)))"
    by (cases "ml_parse (pad l) (length l) (with_line l (g\<lparr>g_llp := llp\<rparr>))")
      (auto simp: dev.deliver_def ml_cb_def with_line_def)
  show ?case
    using Cons by (cases "ml_parse (pad l) (length l) (with_line l (g\<lparr>g_llp := llp\<rparr>))") (auto simp: d idle_line_def)
qed simp

text \<open>An idle parser, as \<open>atcmd_init\<close> leaves it and every complete line does.\<close>

definition llp_idle :: "gsmd \<Rightarrow> bool" where
  "llp_idle g \<longleftrightarrow> ll_len (g_llp g) = LLPARSE_BUF_SIZE \<and> flag (ll_flags (g_llp g)) LGSM_ATCMD_F_EXTENDED \<and>
     g_llp g = ll_put LLPARSE_STATE_IDLE [] (g_llp g)"

lemma gsmd_llparse_frames:
  assumes "llp_idle g" and "\<forall>l \<in> set ls. line_ok l"
  shows "gsmd_llparse (concat (map v1_frame ls)) g = map_option (\<lambda>g'. (0, g')) (ml_lines ls g)"
proof -
  have idle: "g_llp g = ll_put LLPARSE_STATE_IDLE [] (g_llp g)" using assms(1) by (simp add: llp_idle_def)
  have "llparse_string ml_cb prompt_cb (g_llp g, g) (concat (map v1_frame ls)) =
      map_option (\<lambda>s. (0, s)) (dev.deliver_all ls (g_llp g, g))"
    using dev.frames_run[of "g_llp g" ls g] assms idle by (simp add: llp_idle_def)
  moreover have "ml_lines ls g = map_option (\<lambda>(llp, g'). g'\<lparr>g_llp := llp\<rparr>) (dev.deliver_all ls (g_llp g, g))"
    using deliver_lines[of ls "g_llp g" g] by simp
  ultimately show ?thesis
    by (cases "dev.deliver_all ls (g_llp g, g)") (auto simp: gsmd_llparse_def)
qed

section \<open>The invariant along a conversation\<close>

lemma dinv_llp: "daemon_inv g \<Longrightarrow> llp_wf l \<Longrightarrow> daemon_inv (g\<lparr>g_llp := l\<rparr>)"
  by (simp add: daemon_invs at_inv_def at_wf_def single_flight_def want_write_def)

lemma llp_wf_put_line: "llp_wf llp \<Longrightarrow> length l \<le> LLPARSE_BUF_SIZE \<Longrightarrow> llp_wf (ll_put LLPARSE_STATE_RESULT_CR l llp)"
  "llp_wf llp \<Longrightarrow> llp_wf (ll_put LLPARSE_STATE_IDLE [] llp)"
  by (auto intro!: llp_wf_putI simp: llp_wf_len)

lemma ml_lines_inv:
  assumes "daemon_inv g" and "\<forall>l \<in> set ls. line_ok l" and "ml_lines ls g = Some g'"
  shows "daemon_inv g'"
  using assms
proof (induction ls arbitrary: g)
  case (Cons l ls)
  obtain rc g1 where p: "ml_parse (pad l) (length l) (with_line l g) = Some (rc, g1)" and r: "ml_lines ls (idle_line g1) = Some g'"
    using Cons.prems by (auto simp: option_bind_Some_iff)
  have len: "length l \<le> LLPARSE_BUF_SIZE" using Cons.prems by (simp add: line_ok_def)
  have wf: "llp_wf (g_llp g)" using Cons.prems(1) by (simp add: daemon_inv_def)
  have "daemon_inv (with_line l g)"
    unfolding with_line_def by (rule dinv_llp[OF Cons.prems(1) llp_wf_put_line(1)[OF wf len]])
  then have g1: "daemon_inv g1" using keptD(2)[OF kept_parse[of True] p] len by simp
  then have "daemon_inv (idle_line g1)"
    unfolding idle_line_def by (intro dinv_llp llp_wf_put_line(2)) (simp_all add: daemon_inv_def)
  with Cons.IH r Cons.prems(2) show ?case by simp
qed simp

section \<open>A response of plain lines\<close>

definition mlpad :: "string \<Rightarrow> char list" where
  "mlpad t = t @ replicate (MLPARSE_BUF_SIZE - length t) NUL"

text \<open>What has been collected after another line.\<close>

definition ml_add :: "string \<Rightarrow> string \<Rightarrow> string" where
  "ml_add t l = (if t = [] then l else t @ LF # l)"

definition holding :: "string \<Rightarrow> gsmd \<Rightarrow> gsmd" where
  "holding t g = g\<lparr>g_mlbuf := mlpad t, g_mlbuf_len := length t\<rparr>"

lemma holding_sel [simp]:
  "g_mlbuf (holding t g) = mlpad t" "g_mlbuf_len (holding t g) = length t" "holding t (holding t' g) = holding t g"
  "g_busy_atcmds (holding t g) = g_busy_atcmds g" "g_flags (holding t g) = g_flags g" "g_vendorpl (holding t g) = g_vendorpl g"
  "g_mlunsolicited (holding t g) = g_mlunsolicited g" "g_llp (holding t g) = g_llp g" "g_users (holding t g) = g_users g"
  "g_talloc_fails (holding t g) = g_talloc_fails g" "g_pending_atcmds (holding t g) = g_pending_atcmds g"
  "g_timers (holding t g) = g_timers g"
  by (simp_all add: holding_def)

lemma holding_at [simp]: "at_inv (holding t g) = at_inv g"
  by (simp add: holding_def at_inv_def at_wf_def single_flight_def want_write_def)

lemma with_line_sel [simp]:
  "g_mlbuf (with_line l g) = g_mlbuf g" "g_mlbuf_len (with_line l g) = g_mlbuf_len g"
  "g_busy_atcmds (with_line l g) = g_busy_atcmds g" "g_flags (with_line l g) = g_flags g"
  "g_vendorpl (with_line l g) = g_vendorpl g" "g_mlunsolicited (with_line l g) = g_mlunsolicited g"
  "holding t (with_line l g) = with_line l (holding t g)"
  by (simp_all add: with_line_def holding_def)

lemma idle_with_line: "llp_idle g \<Longrightarrow> idle_line (with_line l g) = g"
  by (simp add: idle_line_def with_line_def llp_idle_def)

lemma mlpad_append:
  assumes "length t + length l \<le> MLPARSE_BUF_SIZE"
  shows "memcpy (mlpad t) (length t) l = Some (mlpad (t @ l))"
  using assms by (simp add: memcpy_def mlpad_def)

lemma mlpad_LF:
  assumes "length t < MLPARSE_BUF_SIZE"
  shows "(mlpad t)[length t := LF] = mlpad (t @ [LF])"
proof -
  obtain k where "MLPARSE_BUF_SIZE - length t = Suc k" using assms by (cases "MLPARSE_BUF_SIZE - length t") auto
  moreover from this have "MLPARSE_BUF_SIZE - Suc (length t) = k" by simp
  ultimately show ?thesis by (simp add: mlpad_def list_update_append)
qed

lemma length_mlpad [simp]: "length t \<le> MLPARSE_BUF_SIZE \<Longrightarrow> length (mlpad t) = MLPARSE_BUF_SIZE"
  by (simp add: mlpad_def)

lemma ml_append_holding:
  assumes "length (ml_add t l) \<le> MLPARSE_BUF_SIZE"
  shows "ml_append (pad l) (length l) (holding t g) = Some (holding (ml_add t l) g)"
proof (cases "t = []")
  case True
  then have "nat (min (int (length l)) (to_u32 (int MLPARSE_BUF_SIZE))) = length l"
    using assms by (simp add: to_u32_small MLPARSE_BUF_SIZE_def ml_add_def)
  then show ?thesis using True assms mlpad_append[of "[]" l] by (simp add: ml_append_def ml_add_def) (simp add: holding_def)
next
  case False
  have len: "length t + 1 + length l \<le> MLPARSE_BUF_SIZE" using assms False by (simp add: ml_add_def)
  then have "nat (min (int (length l)) (to_u32 (int MLPARSE_BUF_SIZE - (1 + int (length t))))) = length l"
    by (subst to_u32_small) (simp_all add: MLPARSE_BUF_SIZE_def)
  then show ?thesis using False len mlpad_append[of "t @ [LF]" l] mlpad_LF[of t]
    by (simp add: ml_append_def ml_add_def) (simp add: holding_def)
qed

text \<open>A line that is neither the end of the response, nor unsolicited, nor an echo.\<close>

definition plain_line :: "gsmd \<Rightarrow> gsmd_atcmd \<Rightarrow> string \<Rightarrow> bool" where
  "plain_line g cmd l \<longleftrightarrow> line_ok l \<and> l \<noteq> [] \<and> length l < LLPARSE_BUF_SIZE \<and> NUL \<notin> set l \<and>
     \<not> is_ext (g_vendorpl g) (hd l) \<and>
     l \<notin> {''RING'', ''ERROR'', ''AT-Command Interpreter ready''} \<and> cstr (ac_buf cmd) \<noteq> l \<and>
     \<not> strncmp_eq l ''OK'' 2 \<and> \<not> strncmp_eq l ''NO CARRIER'' 10 \<and> \<not> strncmp_eq l ''BUSY'' 4"

lemma cstr_of_pad: "NUL \<notin> set l \<Longrightarrow> length l < LLPARSE_BUF_SIZE \<Longrightarrow> cstr_of_array (pad l) = Some l"
proof -
  assume l: "NUL \<notin> set l" "length l < LLPARSE_BUF_SIZE"
  then obtain k where "LLPARSE_BUF_SIZE - length l = Suc k" by (cases "LLPARSE_BUF_SIZE - length l") auto
  then show ?thesis using l by (simp add: pad_def cstr_of_array_def cstr_append_NUL)
qed

lemma ml_parse_plain_line:
  assumes busy: "g_busy_atcmds g = [cmd]" and buf: "NUL \<in> set (ac_buf cmd)" and fl: "\<not> flag (g_flags g) GSMD_FLAG_V0"
    and un: "\<not> g_mlunsolicited g" and l: "plain_line g cmd l" and len: "length (ml_add t l) \<le> MLPARSE_BUF_SIZE"
  shows "ml_parse (pad l) (length l) (with_line l (holding t g)) = Some (0, with_line l (holding (ml_add t l) g))"
proof -
  have c: "cstr_of_array (pad l) = Some l" and ne: "l \<noteq> []" and b: "cstr_of_array (ac_buf cmd) = Some (cstr (ac_buf cmd))"
    using l buf by (simp_all add: plain_line_def cstr_of_pad cstr_of_array_def[of "ac_buf cmd"])
  have hd: "c_at l 0 = hd l" using ne by (cases l) (simp_all add: c_at_def)
  have "ml_plain (Some cmd) (pad l) (length l) l (with_line l (holding t g)) =
      ml_collect 0 (pad l) (length l) (holding t (with_line l g))"
    using l fl by (simp add: ml_plain_def plain_line_def v0_def)
  also have "\<dots> = Some (0, with_line l (holding (ml_add t l) g))"
    using ml_append_holding[OF len, of "with_line l g"] un by (simp add: ml_collect_def)
  finally show ?thesis
    using c ne b hd l busy by (simp add: ml_parse_def first_busy_def is_echo_def plain_line_def)
qed

lemma ml_lines_plain:
  assumes busy: "g_busy_atcmds g = [cmd]" and buf: "NUL \<in> set (ac_buf cmd)" and fl: "\<not> flag (g_flags g) GSMD_FLAG_V0"
    and un: "\<not> g_mlunsolicited g" and idle: "llp_idle g"
    and ls: "\<forall>l \<in> set ls. plain_line g cmd l" and len: "length (foldl ml_add t ls) \<le> MLPARSE_BUF_SIZE"
  shows "ml_lines ls (holding t g) = Some (holding (foldl ml_add t ls) g)"
  using ls len
proof (induction ls arbitrary: t)
  case (Cons l ls)
  have mono: "length t \<le> length (foldl ml_add t ls)" for t
  proof (induction ls arbitrary: t)
    case (Cons a ls)
    from Cons[of "ml_add t a"] show ?case by (auto simp: ml_add_def split: if_splits)
  qed simp
  have "ml_parse (pad l) (length l) (with_line l (holding t g)) = Some (0, with_line l (holding (ml_add t l) g))"
    using Cons.prems mono[of "ml_add t l"] by (intro ml_parse_plain_line[OF busy buf fl un]) auto
  moreover have "idle_line (with_line l (holding (ml_add t l) g)) = holding (ml_add t l) g"
    using idle by (intro idle_with_line) (simp add: llp_idle_def)
  ultimately show ?case using Cons by simp
qed simp

lemma foldl_ml_add_more:
  "t \<noteq> [] \<Longrightarrow> ls \<noteq> [] \<Longrightarrow> \<forall>l \<in> set ls. l \<noteq> [] \<Longrightarrow> foldl ml_add t ls = t @ LF # join_lines ls"
proof (induction ls arbitrary: t rule: join_lines.induct)
  case (3 l l' ls)
  then show ?case using 3(1)[of "t @ LF # l"] by (simp add: ml_add_def)
qed (simp_all add: ml_add_def)

lemma foldl_ml_add: "ls \<noteq> [] \<Longrightarrow> \<forall>l \<in> set ls. l \<noteq> [] \<Longrightarrow> foldl ml_add [] ls = join_lines ls"
proof (cases ls rule: join_lines.cases)
  case (3 l l' ls')
  assume "\<forall>l \<in> set ls. l \<noteq> []"
  then show ?thesis using foldl_ml_add_more[of l "l' # ls'"] 3 by (simp add: ml_add_def)
qed (simp_all add: ml_add_def)

section \<open>The final result code\<close>

text \<open>The text that the callback of a command is given for a response of the lines \<open>ls\<close>.\<close>

definition response_text :: "string list \<Rightarrow> string" where
  "response_text ls = (if ls = [] then ''OK'' else join_lines ls)"

lemma final_resp_holding:
  assumes "NUL \<notin> set t" and "length t < MLPARSE_BUF_SIZE"
  shows "final_resp ''OK'' (holding t g) = Some (if t = [] then ''OK'' else t, holding t g)"
proof (cases "t = []")
  case False
  obtain k where "MLPARSE_BUF_SIZE - length t = Suc k" using assms(2) by (cases "MLPARSE_BUF_SIZE - length t") auto
  then have "(mlpad t)[length t := NUL] = mlpad t" "cstr (mlpad t) = t"
    using assms(1) by (simp_all add: mlpad_def list_update_append cstr_append_NUL)
  then show ?thesis using False assms(2) by (simp add: final_resp_def Let_def holding_def)
qed (simp add: final_resp_def)

lemma ml_parse_OK:
  assumes busy: "g_busy_atcmds g = [cmd]" and buf: "NUL \<in> set (ac_buf cmd)" and fl: "\<not> flag (g_flags g) GSMD_FLAG_V0"
    and echo: "cstr (ac_buf cmd) \<noteq> ''OK''"
  shows "ml_parse (pad ''OK'') 2 (with_line ''OK'' g) =
    atcmd_done run_cb (cmd\<lparr>ac_ret := 0\<rparr>) ''OK'' (upd_busy (cmd\<lparr>ac_ret := 0\<rparr>) (with_line ''OK'' g))"
proof -
  have c: "cstr_of_array (pad ''OK'') = Some ''OK''" by (rule cstr_of_pad) (simp_all add: LLPARSE_BUF_SIZE_def)
  have b: "cstr_of_array (ac_buf cmd) = Some (cstr (ac_buf cmd))" using buf by (simp add: cstr_of_array_def)
  have "\<not> is_ext v CHR ''O''" for v by (cases v) (simp_all add: is_ext_def)
  then show ?thesis using c b busy echo fl
    by (simp add: ml_parse_def first_busy_def is_echo_def ml_plain_def ml_final_def v0_def c_at_def strncmp_eq_def Let_def)
qed

lemma upd_user_map:
  "a \<in> gu_addr ` set (g_users g) \<Longrightarrow>
   upd_user a f g = Some (g\<lparr>g_users := map (\<lambda>u. if gu_addr u = a then f u else u) (g_users g)\<rparr>)"
  by (simp add: upd_user_def)

lemma wake_if_idle_sel [simp]:
  "g_users (wake_if_idle g) = g_users g" "g_busy_atcmds (wake_if_idle g) = g_busy_atcmds g"
  "g_pending_atcmds (wake_if_idle g) = g_pending_atcmds g" "g_mlbuf_len (wake_if_idle g) = g_mlbuf_len g"
  by (simp_all add: wake_if_idle_def atcmd_wake_pending_queue_def)

lemma want_write_wake: "g_busy_atcmds g = [] \<Longrightarrow> g_pending_atcmds g \<noteq> [] \<Longrightarrow> want_write (wake_if_idle g)"
  by (simp add: wake_if_idle_def)

text \<open>Completing a command that a client passed through.\<close>

lemma done_passthrough:
  assumes inv: "at_inv g" and busy: "g_busy_atcmds g = [cmd]" and cb: "ac_cb cmd = Some Usock_cmd_cb"
    and ctx: "ac_ctx cmd = Ctx_user a" and u: "a \<in> set (user_addrs g)" and tf: "g_talloc_fails g = []"
    and t: "NUL \<notin> set t" "length t < MLPARSE_BUF_SIZE"
  shows "\<exists>g'. atcmd_done run_cb cmd ''OK'' (holding t g) = Some (0, g') \<and>
    g_users g' = map (\<lambda>u. if gu_addr u = a then enqueue_user
      \<lparr>uc_msg_type = GSMD_MSG_PASSTHROUGH, uc_msg_subtype = 2, uc_id = Some (ac_id cmd),
       uc_len = length (if t = [] then ''OK'' else t) + 1, uc_data = Ud_string (if t = [] then ''OK'' else t),
       uc_valid = length (if t = [] then ''OK'' else t) + 1\<rparr> u else u) (g_users g) \<and>
    g_busy_atcmds g' = [] \<and> g_pending_atcmds g' = g_pending_atcmds g \<and> g_mlbuf_len g' = 0 \<and>
    (g_pending_atcmds g \<noteq> [] \<longrightarrow> want_write g')"
proof -
  have wf: "at_wf (holding t g)" using inv holding_at[of t g] by (simp add: at_inv_def)
  obtain g0 where g0: "remove_timer cmd (holding t g) = Some g0"
    using remove_timer_defined[OF wf, of cmd] busy by auto
  then obtain ts where ts: "g0 = holding t (g\<lparr>g_timers := ts\<rparr>)"
  proof (cases "ac_timeout cmd")
    case None
    with g0 show thesis by (intro that[of "g_timers g"]) (simp add: remove_timer_def)
  next
    case (Some x)
    with g0 obtain ts where "gsmd_timer_unregister x (g_timers g) = Some ts" "g0 = (holding t g)\<lparr>g_timers := ts\<rparr>"
      by (auto simp: remove_timer_def)
    then show thesis by (intro that[of ts]) (simp add: holding_def)
  qed
  define c where "c = cmd\<lparr>ac_timeout := None\<rparr>"
  define r where "r = (if t = [] then ''OK'' else t)"
  have g1: "upd_busy c g0 = holding t (g\<lparr>g_timers := ts, g_busy_atcmds := [c]\<rparr>)"
    using busy by (simp add: upd_busy_def ts c_def) (simp add: holding_def)
  have len: "(length r + 1) mod 65536 = length r + 1" using t(2) by (simp add: r_def MLPARSE_BUF_SIZE_def)
  let ?f = "enqueue_user \<lparr>uc_msg_type = GSMD_MSG_PASSTHROUGH, uc_msg_subtype = 2, uc_id = Some (ac_id cmd),
       uc_len = length r + 1, uc_data = Ud_string r, uc_valid = length r + 1\<rparr>"
  let ?us = "map (\<lambda>u. if gu_addr u = a then ?f u else u) (g_users g)"
  have us: "g_users (upd_busy c g0) = g_users g" "g_talloc_fails (upd_busy c g0) = []" using tf by (simp_all add: g1)
  have "ac_ctx c = Ctx_user a" "ac_id c = ac_id cmd" using ctx by (simp_all add: c_def)
  then have "run_cb Usock_cmd_cb c r (upd_busy c g0) = Some (0, (upd_busy c g0)\<lparr>g_users := ?us\<rparr>)"
    using u len us by (simp add: usock_cmd_cb_def reply_def ctx_user_def gsmd_ucmd_submit_def usock_cmd_enqueue_def upd_user_map)
  moreover have resp: "final_resp ''OK'' (upd_busy c g0) = Some (r, upd_busy c g0)"
    using final_resp_holding[OF t] by (simp add: g1 r_def)
  moreover have cb_c: "ac_cb c = Some Usock_cmd_cb" using cb by (simp add: c_def)
  ultimately have "atcmd_done run_cb cmd ''OK'' (holding t g) =
      Some (0, wake_if_idle (del_busy c (clear_mlbuf ((upd_busy c g0)\<lparr>g_users := ?us\<rparr>))))"
    using g0 by (simp add: atcmd_done_def Let_def flip: c_def)
  moreover have "g_busy_atcmds (del_busy c (clear_mlbuf ((upd_busy c g0)\<lparr>g_users := ?us\<rparr>))) = []"
    by (simp add: del_busy_def g1)
  moreover have "g_pending_atcmds (del_busy c (clear_mlbuf ((upd_busy c g0)\<lparr>g_users := ?us\<rparr>))) = g_pending_atcmds g"
    "g_users (del_busy c (clear_mlbuf ((upd_busy c g0)\<lparr>g_users := ?us\<rparr>))) = ?us"
    "g_mlbuf_len (del_busy c (clear_mlbuf ((upd_busy c g0)\<lparr>g_users := ?us\<rparr>))) = 0"
    by (simp_all add: del_busy_def g1 clear_mlbuf_def)
  ultimately show ?thesis unfolding r_def[symmetric] using want_write_wake by auto
qed

section \<open>States for the examples\<close>

text \<open>A daemon at rest, and one with a client whose command is with the modem.\<close>

definition example_user :: gsmd_user where
  "example_user = \<lparr>gu_addr = 0, gu_finished_ucmds = [], gu_when = GSMD_FD_READ, gu_subscriptions = 0\<rparr>"

definition gsmd_busy :: gsmd where
  "gsmd_busy = gsmd_zero\<lparr>g_users := [example_user], g_busy_atcmds := [example_cmd], g_next_addr := 1\<rparr>"

lemma gsmd_zero_inv: "daemon_inv gsmd_zero"
  using llparser_new_wf
  by (simp add: daemon_invs at_inv_def at_wf_def single_flight_def want_write_def gsmd_zero_def timers_wf_def
      GSMD_FD_READ_def GSMD_FD_WRITE_def)

lemma gsmd_busy_inv: "daemon_inv gsmd_busy"
  using llparser_new_wf
  by (simp add: daemon_invs at_inv_def at_wf_def single_flight_def want_write_def gsmd_zero_def gsmd_busy_def timers_wf_def
      GSMD_FD_READ_def GSMD_FD_WRITE_def example_cmd_def example_user_def live_for_def)

lemma gsmd_zero_idle: "llp_idle gsmd_zero" "llp_idle gsmd_busy"
  using llparser_new_put by (simp_all add: llp_idle_def gsmd_zero_def gsmd_busy_def)

lemma gsmd_busy_holding: "holding [] gsmd_busy = gsmd_busy"
  by (simp add: holding_def gsmd_busy_def gsmd_zero_def mlpad_def)

section \<open>Properties\<close>

text \<open>
  C12. Whatever line the modem sends, the daemon's state stays well-formed. If \<open>ml_parse\<close>
  returns for a line that lies in its array, the invariant holds again afterwards: every
  queued command has an address of its own, is complete up to its terminator and belongs to a
  client that is still connected; at most one command is with the modem and nothing is
  written meanwhile; every timer that is referred to is in the list, the ring timer's and no
  command's at once; the collected response and the line parser are within their buffers.
\<close>

theorem ml_parse_keeps_invariant:
  assumes "daemon_inv g" and "len \<le> length arr" and "ml_parse arr len g = Some (rc, g')"
  shows "daemon_inv g'"
  using keptD(2)[OF kept_parse[of True] assms(3)] assms(1,2) by simp

lemma ml_parse_keeps_invariant_witness:
  "\<exists>g'. ml_parse (''OK'' @ [NUL]) 2 gsmd_zero = Some (0, g') \<and> daemon_inv g'"
proof -
  have "ml_parse (''OK'' @ [NUL]) 2 gsmd_zero = Some (0, gsmd_zero)"
    by (simp add: ml_parse_def cstr_of_array_def cstr_def is_ext_def first_busy_def is_echo_def ml_plain_def v0_def
        c_at_def strncmp_eq_def ml_final_def)
  with ml_parse_keeps_invariant[OF gsmd_zero_inv _ this] show ?thesis by simp
qed

text \<open>
  C15. A conversation of framed lines is the sequence of its lines. For every list of
  transparent lines in V1 format, reading the octets from the modem is calling \<open>ml_parse\<close> for
  each line in turn, on its own, with no error from the parser, and the invariant holds at
  the end.
\<close>

theorem conversation_is_its_lines:
  assumes "daemon_inv g" and "llp_idle g" and "\<forall>l \<in> set ls. line_ok l"
  shows "gsmd_llparse (concat (map v1_frame ls)) g = map_option (\<lambda>g'. (0, g')) (ml_lines ls g) \<and>
    (\<forall>g'. ml_lines ls g = Some g' \<longrightarrow> daemon_inv g')"
  using gsmd_llparse_frames[OF assms(2,3)] ml_lines_inv[OF assms(1,3)] by blast

lemma conversation_is_its_lines_witness:
  "gsmd_llparse (concat (map v1_frame [''RING'', ''OK''])) gsmd_zero = map_option (\<lambda>g'. (0, g')) (ml_lines [''RING'', ''OK''] gsmd_zero)"
  using conversation_is_its_lines[OF gsmd_zero_inv gsmd_zero_idle(1), of "[''RING'', ''OK'']"]
  by (simp add: line_ok_def LLPARSE_BUF_SIZE_def)

text \<open>
  C9. A client gets the answer to the command it passed through. When the command of a
  connected client is with the modem and the modem answers with any plain lines (shorter in
  all than the buffer for responses) and \<open>OK\<close>, then the client is sent one message, with the
  identification of its request and exactly these lines as text (or \<open>OK\<close>, if there are
  none), nobody else is sent anything, the command is completed, and the next pending
  command is woken.
\<close>

theorem passthrough_response:
  assumes inv: "daemon_inv g" and idle: "llp_idle g" and busy: "g_busy_atcmds g = [cmd]"
    and cb: "ac_cb cmd = Some Usock_cmd_cb" and ctx: "ac_ctx cmd = Ctx_user a"
    and buf: "NUL \<in> set (ac_buf cmd)" "cstr (ac_buf cmd) \<noteq> ''OK''"
    and st: "\<not> flag (g_flags g) GSMD_FLAG_V0" "\<not> g_mlunsolicited g" "holding [] g = g" "g_talloc_fails g = []"
    and ls: "\<forall>l \<in> set ls. plain_line g cmd l" and len: "length (join_lines ls) < MLPARSE_BUF_SIZE"
  shows "\<exists>g'. gsmd_llparse (concat (map v1_frame (ls @ [''OK'']))) g = Some (0, g') \<and>
    g_users g' = map (\<lambda>u. if gu_addr u = a then enqueue_user
      \<lparr>uc_msg_type = GSMD_MSG_PASSTHROUGH, uc_msg_subtype = 2, uc_id = Some (ac_id cmd),
       uc_len = length (response_text ls) + 1, uc_data = Ud_string (response_text ls),
       uc_valid = length (response_text ls) + 1\<rparr> u else u) (g_users g) \<and>
    g_busy_atcmds g' = [] \<and> g_pending_atcmds g' = g_pending_atcmds g \<and> g_mlbuf_len g' = 0 \<and>
    (g_pending_atcmds g \<noteq> [] \<longrightarrow> want_write g')"
proof -
  have ne: "\<forall>l \<in> set ls. l \<noteq> []" and nul: "\<forall>l \<in> set ls. NUL \<notin> set l" using ls by (auto simp: plain_line_def)
  have t: "foldl ml_add [] ls = join_lines ls" using foldl_ml_add[OF _ ne] by (cases "ls = []") simp_all
  have "NUL \<notin> set (join_lines ls)" using nul by (induction ls rule: join_lines.induct) auto
  note tn = this len
  have empty: "join_lines ls = [] \<longleftrightarrow> ls = []" using ne by (cases ls rule: join_lines.cases) auto
  have lines: "ml_lines ls g = Some (holding (join_lines ls) g)"
    using ml_lines_plain[OF busy buf(1) st(1,2) idle ls, of "[]"] len st(3) by (simp add: t)
  let ?c = "cmd\<lparr>ac_ret := 0\<rparr>"
  let ?g = "upd_busy ?c (with_line ''OK'' g)"
  have hold: "upd_busy ?c (with_line ''OK'' (holding (join_lines ls) g)) = holding (join_lines ls) ?g"
    by (simp add: upd_busy_def with_line_def holding_def)
  have ok: "ml_parse (pad ''OK'') 2 (with_line ''OK'' (holding (join_lines ls) g)) =
      atcmd_done run_cb ?c ''OK'' (holding (join_lines ls) ?g)"
    using ml_parse_OK[of "holding (join_lines ls) g" cmd] busy buf st(1) hold by simp
  have ati: "at_inv ?g" using dinv_set_ret(1)[OF inv, of cmd "[]" 0] busy
    by (simp add: daemon_inv_def at_inv_def at_wf_def single_flight_def want_write_def upd_busy_def with_line_def)
  have user: "a \<in> set (user_addrs ?g)" using inv busy ctx
    by (auto simp: daemon_inv_def at_inv_def at_wf_def live_for_def upd_busy_def with_line_def)
  have "g_busy_atcmds ?g = [?c]" "g_talloc_fails ?g = []" using busy st(4) by (simp_all add: upd_busy_def with_line_def)
  from done_passthrough[OF ati this(1) _ _ user this(2) tn] cb ctx obtain g1
    where g1: "atcmd_done run_cb ?c ''OK'' (holding (join_lines ls) ?g) = Some (0, g1)"
      and sent: "g_users g1 = map (\<lambda>u. if gu_addr u = a then enqueue_user
      \<lparr>uc_msg_type = GSMD_MSG_PASSTHROUGH, uc_msg_subtype = 2, uc_id = Some (ac_id cmd),
       uc_len = length (response_text ls) + 1, uc_data = Ud_string (response_text ls),
       uc_valid = length (response_text ls) + 1\<rparr> u else u) (g_users ?g)"
      and rest: "g_busy_atcmds g1 = []" "g_pending_atcmds g1 = g_pending_atcmds ?g" "g_mlbuf_len g1 = 0"
        "g_pending_atcmds ?g \<noteq> [] \<longrightarrow> want_write g1"
    by (auto simp: response_text_def empty)
  have "ml_lines (ls @ [''OK'']) g = Some (idle_line g1)" using lines ok g1 by (simp add: ml_lines_append numeral_2_eq_2)
  moreover have "\<forall>l \<in> set (ls @ [''OK'']). line_ok l" using ls by (auto simp: plain_line_def line_ok_def LLPARSE_BUF_SIZE_def)
  ultimately have "gsmd_llparse (concat (map v1_frame (ls @ [''OK'']))) g = Some (0, idle_line g1)"
    using gsmd_llparse_frames[OF idle, of "ls @ [''OK'']"] by (simp del: map_append)
  then show ?thesis using sent rest
    by (auto simp: idle_line_def want_write_def upd_busy_def with_line_def)
qed

lemma passthrough_response_witness:
  "\<exists>g'. gsmd_llparse (concat (map v1_frame [''1234567890'', ''OK''])) gsmd_busy = Some (0, g') \<and>
     map (map uc_data \<circ> gu_finished_ucmds) (g_users g') = [[Ud_string ''1234567890'']] \<and> g_busy_atcmds g' = []"
proof -
  have fields: "g_busy_atcmds gsmd_busy = [example_cmd]" "ac_cb example_cmd = Some Usock_cmd_cb"
    "ac_ctx example_cmd = Ctx_user 0" "NUL \<in> set (ac_buf example_cmd)" "cstr (ac_buf example_cmd) \<noteq> ''OK''"
    "\<not> flag (g_flags gsmd_busy) GSMD_FLAG_V0" "\<not> g_mlunsolicited gsmd_busy" "g_talloc_fails gsmd_busy = []"
    by (simp_all add: gsmd_busy_def gsmd_zero_def example_cmd_def cstr_def flag_def)
  have "plain_line gsmd_busy example_cmd ''1234567890''"
    by (simp add: plain_line_def line_ok_def LLPARSE_BUF_SIZE_def gsmd_busy_def example_cmd_def is_ext_def cstr_def strncmp_eq_def)
  then have "\<forall>l \<in> set [''1234567890'']. plain_line gsmd_busy example_cmd l" by simp
  from passthrough_response[OF gsmd_busy_inv gsmd_zero_idle(2) fields(1-7) gsmd_busy_holding fields(8) this]
  show ?thesis by (auto simp: MLPARSE_BUF_SIZE_def gsmd_busy_def example_user_def enqueue_user_def response_text_def)
qed

end
