(* ===== verification/Notify.thy ===== *)
theory Notify
  imports Stream
begin

text \<open>
  What the clients learn of unsolicited result codes: that the table of parsers selects the
  right one, that an event reaches exactly its subscribers, and the way of a caller's
  number from the modem to the clients.
\<close>

unbundle bit_operations_syntax

section \<open>Selecting a parser\<close>

text \<open>
  The table after the daemon's start and \<open>n\<close> initialisations of the modem, each of which
  registers the parsers of \<open>sms_cb.c\<close> again.
\<close>

definition register_sms :: "gsmd \<Rightarrow> gsmd" where
  "register_sms g = snd (unsolicited_register_array gsm0705_unsolicit g)"

definition started :: "nat \<Rightarrow> gsmd \<Rightarrow> gsmd" where
  "started n g = (register_sms ^^ n) (unsolicited_init (g\<lparr>g_unsolicit := []\<rparr>))"

definition sms_tables :: "nat \<Rightarrow> (string \<times> unsol_parse) list" where
  "sms_tables n = concat (replicate n gsm0705_unsolicit)"

lemma started_init: "g_unsolicit (unsolicited_init (g\<lparr>g_unsolicit := []\<rparr>)) = vendor_unsolicit (g_vendorpl g) @ gsm0707_unsolicit"
  by (cases "g_vendorpl g") (simp_all add: unsolicited_init_def unsolicited_register_array_def gsm0707_unsolicit_def Let_def)

lemma sms_tables_Suc: "sms_tables (Suc n) = gsm0705_unsolicit @ sms_tables n"
  by (simp add: sms_tables_def)

lemma started_table: "\<exists>m \<le> n. g_unsolicit (started n g) = sms_tables m @ vendor_unsolicit (g_vendorpl g) @ gsm0707_unsolicit \<and> (0 < n \<longrightarrow> 0 < m)"
proof (induction n)
  case 0
  then show ?case by (simp add: started_def started_init sms_tables_def)
next
  case (Suc n)
  then obtain m where m: "m \<le> n" "0 < n \<longrightarrow> 0 < m"
    "g_unsolicit (started n g) = sms_tables m @ vendor_unsolicit (g_vendorpl g) @ gsm0707_unsolicit" by blast
  have s: "started (Suc n) g = register_sms (started n g)" by (simp add: started_def)
  show ?case
  proof (cases "256 < length gsm0705_unsolicit + (length (g_unsolicit (started n g)) + 1)")
    case True
    have "length (vendor_unsolicit v) \<le> 4" for v by (cases v) simp_all
    from this[of "g_vendorpl g"] have "m \<noteq> 0" using True m(3)
      by (cases m) (simp_all add: sms_tables_def gsm0705_unsolicit_def gsm0707_unsolicit_def)
    then show ?thesis using m True by (intro exI[of _ m]) (simp add: s register_sms_def unsolicited_register_array_def)
  next
    case False
    then show ?thesis using m
      by (intro exI[of _ "Suc m"]) (simp add: s register_sms_def unsolicited_register_array_def sms_tables_Suc)
  qed
qed

text \<open>An entry is shadowed by an earlier one only if that is a prefix of it.\<close>

definition selects :: "(string \<times> unsol_parse) list \<Rightarrow> string \<times> unsol_parse \<Rightarrow> bool" where
  "selects tab e \<longleftrightarrow> (\<forall>r. find_unsol (fst e @ CHR '':'' # r) tab = Some e)"

lemma find_unsol_Cons:
  "find_unsol buf ((p, f) # tab) = (if take (length p) buf = p then Some (p, f) else find_unsol buf tab)"
  by (simp add: find_unsol_def strncmp_eq_def)

lemma find_unsol_append:
  "find_unsol buf (t1 @ t2) = (case find_unsol buf t1 of None \<Rightarrow> find_unsol buf t2 | Some e \<Rightarrow> Some e)"
  by (induction t1) (auto simp: find_unsol_def split_beta)

text \<open>No code has a colon in it, so what comes behind the colon does not matter.\<close>

definition shadow :: "(string \<times> unsol_parse) list \<Rightarrow> string \<Rightarrow> (string \<times> unsol_parse) option" where
  "shadow tab p = find (\<lambda>(p', _). take (length p') p = p') tab"

definition no_colon :: "(string \<times> unsol_parse) list \<Rightarrow> bool" where
  "no_colon tab \<longleftrightarrow> list_all (\<lambda>(p, _). list_all (\<lambda>c. c \<noteq> CHR '':'') p) tab"

lemma take_colon:
  assumes "CHR '':'' \<notin> set p'"
  shows "take (length p') (p @ CHR '':'' # r) = p' \<longleftrightarrow> take (length p') p = p'"
proof (cases "length p' \<le> length p")
  case False
  then have "CHR '':'' \<in> set (take (length p') (p @ CHR '':'' # r))" by (cases "length p' - length p") auto
  then have "take (length p') (p @ CHR '':'' # r) \<noteq> p'" using assms by metis
  moreover have "take (length p') p \<noteq> p'" using False by (metis length_take min.absorb_iff2 nat_le_linear)
  ultimately show ?thesis by simp
qed simp

lemma find_unsol_shadow: "no_colon tab \<Longrightarrow> find_unsol (p @ CHR '':'' # r) tab = shadow tab p"
proof (induction tab)
  case (Cons e tab)
  obtain p' f where e: "e = (p', f)" by (cases e)
  have "CHR '':'' \<notin> set p'" using Cons.prems by (auto simp: no_colon_def e list_all_iff)
  from take_colon[OF this, of p r] Cons show ?case
    by (simp add: e find_unsol_Cons no_colon_def) (simp add: shadow_def)
qed (simp add: find_unsol_def shadow_def)

lemma no_colon_tables: "no_colon gsm0705_unsolicit" "no_colon (vendor_unsolicit v @ gsm0707_unsolicit)"
proof -
  show "no_colon gsm0705_unsolicit" by code_simp
  show "no_colon (vendor_unsolicit v @ gsm0707_unsolicit)" by (cases v; hypsubst; code_simp)
qed

lemma shadow_tables:
  "list_all (\<lambda>e. shadow gsm0705_unsolicit (fst e) = Some e) gsm0705_unsolicit"
  "list_all (\<lambda>e. shadow (vendor_unsolicit v @ gsm0707_unsolicit) (fst e) = Some e \<and> shadow gsm0705_unsolicit (fst e) = None)
     (vendor_unsolicit v @ gsm0707_unsolicit)"
proof -
  show "list_all (\<lambda>e. shadow gsm0705_unsolicit (fst e) = Some e) gsm0705_unsolicit" by code_simp
  show "list_all (\<lambda>e. shadow (vendor_unsolicit v @ gsm0707_unsolicit) (fst e) = Some e \<and> shadow gsm0705_unsolicit (fst e) = None)
     (vendor_unsolicit v @ gsm0707_unsolicit)" by (cases v; hypsubst; code_simp)
qed

lemma selects_sms: "e \<in> set gsm0705_unsolicit \<Longrightarrow> selects (gsm0705_unsolicit @ tab) e"
  using shadow_tables(1) by (simp add: selects_def find_unsol_append find_unsol_shadow no_colon_tables list_all_iff)

lemma selects_other:
  "e \<in> set (vendor_unsolicit v @ gsm0707_unsolicit) \<Longrightarrow> selects (vendor_unsolicit v @ gsm0707_unsolicit) e \<and>
     (\<forall>r. find_unsol (fst e @ CHR '':'' # r) gsm0705_unsolicit = None)"
  using shadow_tables(2)[of v] by (simp add: selects_def find_unsol_shadow no_colon_tables list_all_iff)

lemma find_sms_tables: "find_unsol buf gsm0705_unsolicit = None \<Longrightarrow> find_unsol buf (sms_tables m @ tab) = find_unsol buf tab"
  by (induction m) (simp_all add: sms_tables_Suc find_unsol_append, simp add: sms_tables_def find_unsol_def)

lemma selects_started:
  assumes "e \<in> set (g_unsolicit (started n g))"
  shows "selects (g_unsolicit (started n g)) e"
proof -
  let ?t = "vendor_unsolicit (g_vendorpl g) @ gsm0707_unsolicit"
  obtain m where tab: "g_unsolicit (started n g) = sms_tables m @ ?t" using started_table by blast
  show ?thesis
  proof (cases "e \<in> set ?t")
    case True
    then show ?thesis using selects_other[OF True] tab find_sms_tables by (auto simp: selects_def)
  next
    case False
    then have sms: "e \<in> set gsm0705_unsolicit" "m \<noteq> 0" using assms tab by (auto simp: sms_tables_def)
    then obtain k where "m = Suc k" by (cases m) auto
    with tab selects_sms[OF sms(1)] show ?thesis by (simp add: sms_tables_Suc)
  qed
qed

lemma set_sms_tables: "set (sms_tables m) = (if m = 0 then {} else set gsm0705_unsolicit)"
  by (auto simp: sms_tables_def)

lemma table_colon: "e \<in> set (vendor_unsolicit v @ gsm0707_unsolicit) \<or> e \<in> set gsm0705_unsolicit \<Longrightarrow> CHR '':'' \<notin> set (fst e)"
proof -
  have free: "CHR '':'' \<notin> set (fst e)" if "no_colon tab" "e \<in> set tab" for tab
    using that by (cases e) (auto simp: no_colon_def list_all_iff)
  show "e \<in> set (vendor_unsolicit v @ gsm0707_unsolicit) \<or> e \<in> set gsm0705_unsolicit \<Longrightarrow> ?thesis"
    using free[OF no_colon_tables(1)] free[OF no_colon_tables(2)[of v]] by blast
qed

lemma parse_dispatch:
  assumes "(p, f) \<in> set (vendor_unsolicit (g_vendorpl g) @ gsm0707_unsolicit) \<or> 0 < n \<and> (p, f) \<in> set gsm0705_unsolicit"
    and "buf = p @ CHR '':'' # c # r"
  shows "unsolicited_parse buf (int (length buf)) (started n g) = unsol_run f buf (P_str r) (started n g)"
proof -
  have "(p, f) \<in> set (g_unsolicit (started n g))"
    using started_table[of n g] assms(1) by (auto simp: set_sms_tables split: if_splits)
  from selects_started[OF this] have "find_unsol buf (g_unsolicit (started n g)) = Some (p, f)"
    by (simp add: selects_def assms(2))
  moreover have "CHR '':'' \<notin> set p" using table_colon[of "(p, f)" "g_vendorpl g"] assms(1) by simp blast
  then have "strchr buf CHR '':'' = Some (length p)" using strchr_skip[of "CHR '':''" p] by (simp add: assms(2))
  then have "colon_param buf (int (length buf)) = P_str r" by (simp add: colon_param_def assms(2))
  ultimately show ?thesis by (simp add: unsolicited_parse_def)
qed

section \<open>Sending an event\<close>

text \<open>The first subscriber gets the message, the others a copy.\<close>

fun broadcast :: "gsmd_ucmd \<Rightarrow> nat \<Rightarrow> gsmd_user list \<Rightarrow> gsmd_user list" where
  "broadcast ucmd evt [] = []"
| "broadcast ucmd evt (gu # gus) =
     (if subscribed evt gu
      then enqueue_user ucmd gu # map (\<lambda>u. if subscribed evt u then enqueue_user (ucmd_copy ucmd) u else u) gus
      else gu # broadcast ucmd evt gus)"

lemma evt_send_users_copies:
  "0 < n \<Longrightarrow> evt_send_users ucmd evt gus n [] =
     (map (\<lambda>u. if subscribed evt u then enqueue_user (ucmd_copy ucmd) u else u) gus, n + length (filter (subscribed evt) gus), [])"
  by (induction gus arbitrary: n) simp_all

lemma evt_send_users_broadcast:
  "evt_send_users ucmd evt gus 0 [] = (broadcast ucmd evt gus, length (filter (subscribed evt) gus), [])"
  by (induction gus) (simp_all add: evt_send_users_copies)

lemma usock_evt_send_eq:
  "g_talloc_fails g = [] \<Longrightarrow> usock_evt_send ucmd evt g =
     (int (length (filter (subscribed evt) (g_users g))), g\<lparr>g_users := broadcast ucmd evt (g_users g)\<rparr>)"
  by (simp add: usock_evt_send_def evt_send_users_broadcast)

text \<open>
  What sending an event comes to, client by client.  A client whose bit \<open>evt\<close> is not set in the mask of
  subscriptions stays as it is.  Another gets one message behind those in its queue, and the write flag (bit 1)
  of its socket is set; the first of them gets the message itself, the others an object of which the last 16
  octets of the payload are not set.
\<close>

definition notified :: "gsmd_ucmd \<Rightarrow> nat \<Rightarrow> gsmd_user list \<Rightarrow> gsmd_user list \<Rightarrow> bool" where
  "notified m evt us us' \<longleftrightarrow> length us' = length us \<and>
     (\<forall>i < length us.
        if bit (gu_subscriptions (us ! i)) evt
        then us' ! i = (us ! i)\<lparr>gu_finished_ucmds := gu_finished_ucmds (us ! i) @
               [if \<exists>j < i. bit (gu_subscriptions (us ! j)) evt then m\<lparr>uc_valid := min (uc_valid m) (uc_len m - 16)\<rparr> else m],
             gu_when := set_bit 1 (gu_when (us ! i))\<rparr>
        else us' ! i = us ! i)"

abbreviation subscribers :: "nat \<Rightarrow> gsmd_user list \<Rightarrow> nat" where
  "subscribers evt us \<equiv> card {i. i < length us \<and> bit (gu_subscriptions (us ! i)) evt}"

lemma subscribed_bit: "subscribed evt u \<longleftrightarrow> bit (gu_subscriptions u) evt"
  by (simp add: subscribed_def bit_iff_and_push_bit_not_eq_0)

lemma enqueued: "enqueue_user m u = u\<lparr>gu_finished_ucmds := gu_finished_ucmds u @ [m], gu_when := set_bit 1 (gu_when u)\<rparr>"
  by (simp add: enqueue_user_def GSMD_FD_WRITE_def set_bit_eq_or push_bit_eq_mult)

lemma notified_broadcast: "notified m evt us (broadcast m evt us)"
proof (induction us)
  case (Cons u us)
  have head: "(\<exists>j < Suc k. bit (gu_subscriptions ((u # us) ! j)) evt) \<longleftrightarrow> subscribed evt u \<or> (\<exists>j < k. bit (gu_subscriptions (us ! j)) evt)" for k
    by (auto simp: less_Suc_eq_0_disj subscribed_bit)
  show ?case unfolding notified_def
  proof (intro conjI allI impI)
    show "length (broadcast m evt (u # us)) = length (u # us)" using Cons.IH by (simp add: notified_def)
  next
    fix i assume i: "i < length (u # us)"
    show "if bit (gu_subscriptions ((u # us) ! i)) evt
        then broadcast m evt (u # us) ! i = ((u # us) ! i)\<lparr>gu_finished_ucmds := gu_finished_ucmds ((u # us) ! i) @
               [if \<exists>j < i. bit (gu_subscriptions ((u # us) ! j)) evt then m\<lparr>uc_valid := min (uc_valid m) (uc_len m - 16)\<rparr> else m],
             gu_when := set_bit 1 (gu_when ((u # us) ! i))\<rparr>
        else broadcast m evt (u # us) ! i = (u # us) ! i"
    proof (cases i)
      case 0
      then show ?thesis by (simp add: subscribed_bit enqueued)
    next
      case (Suc k)
      then show ?thesis using Cons.IH i unfolding Suc head
        by (auto simp: notified_def subscribed_bit enqueued ucmd_copy_def sizeof_gsmd_ucmd_def)
    qed
  qed
qed (simp add: notified_def)

lemma subscribers_filter: "length (filter (subscribed evt) us) = subscribers evt us"
  by (simp add: length_filter_conv_card subscribed_bit)

lemma event_notified:
  "g_talloc_fails g = [] \<Longrightarrow> \<exists>us. usock_evt_send m evt g = (int (subscribers evt (g_users g)), g\<lparr>g_users := us\<rparr>) \<and> notified m evt (g_users g) us"
  using usock_evt_send_eq[of g m evt] notified_broadcast subscribers_filter by metis

section \<open>A caller's number\<close>

definition clip_line :: "string \<Rightarrow> nat \<Rightarrow> csv_item list \<Rightarrow> string" where
  "clip_line number ty fs = ''+CLIP: '' @ csv_render (CsvStr number # CsvNum ty # fs)"

lemma er_parse_render:
  assumes "items \<noteq> []" and "length items \<le> 16" and "\<forall>i \<in> set items. csv_ok i" and "last items \<noteq> CsvEmpty"
    and "g_talloc_fails g = []"
  shows "er_parse (P_str (csv_render items)) g = Some (Some (er_of items), g)"
  using extrsp_parse_render[OF assms(1-4)] csv_render_nonempty[OF assms(1,4)] assms(5) by (simp add: er_parse_def)

lemma cstr_drop2: "cstr_of_array a = Some (c # d # t) \<Longrightarrow> cstr_of_array (drop 2 a) = Some t"
  by (cases a; cases "tl a") (auto simp: cstr_of_array_def cstr_def split: if_splits)

text \<open>The line goes to the parsers of unsolicited codes when no command is in flight that asks for it.\<close>

lemma clip_unsolicited:
  assumes "cstr_of_array arr = Some (clip_line number ty fs)"
    and "\<forall>cmd \<in> set (g_busy_atcmds g). \<exists>t. cstr_of_array (ac_buf cmd) = Some (''AT'' @ t) \<and> take 5 t \<noteq> ''+CLIP''"
    and "unsolicited_parse (clip_line number ty fs) (int len) g = Some (rc, g')" and "rc \<noteq> - EAGAIN" and "rc \<noteq> - ENOENT"
  shows "ml_parse arr len g = Some (rc, g')"
proof -
  obtain r where line: "clip_line number ty fs = ''+CLIP:'' @ r" by (simp add: clip_line_def)
  have colon: "strchr (''+CLIP:'' @ r) CHR '':'' = Some 5" using strchr_skip[of "CHR '':''" "''+CLIP''" r] by simp
  have own: "is_echo (''+CLIP:'' @ r) (first_busy g) = Some False \<and> answers (''+CLIP:'' @ r) 5 (first_busy g) = Some False"
  proof (cases "g_busy_atcmds g")
    case (Cons cmd rest)
    then obtain t where t: "cstr_of_array (ac_buf cmd) = Some (''AT'' @ t)" "take 5 t \<noteq> ''+CLIP''" using assms(2) by auto
    have "cstr_of_array (drop 2 (ac_buf cmd)) = Some t" using t(1) by (simp add: cstr_drop2)
    then show ?thesis using t Cons by (auto simp: is_echo_def answers_def first_busy_def strncmp_eq_def)
  qed (simp_all add: is_echo_def answers_def first_busy_def)
  show ?thesis using assms(1,3-5) own colon unfolding line
    by (simp add: ml_parse_def ml_extended_def Let_def is_ext_def c_at_def strncmp_eq_def eval_nat_numeral)
qed

lemma tok_of_str: "NUL \<notin> set s \<Longrightarrow> length s \<le> 63 \<Longrightarrow> cstr (tok_string (tok_of (CsvStr s))) = s"
proof -
  assume s: "NUL \<notin> set s" "length s \<le> 63"
  then obtain k where "64 - length s = Suc k" by (cases "64 - length s") auto
  then show ?thesis using s by (simp add: cstr_append_NUL)
qed

section \<open>Properties\<close>

text \<open>
  C23. Every unsolicited result code reaches its own parser. With each vendor plugin, after
  the daemon's start and any number of initialisations of the modem (each registers the
  parsers for short messages once more, until the table is full), a line that is a
  registered code, a colon, a character and the rest is given to the parser registered for
  that code, with the rest as its parameter, although some codes are prefixes of others.
\<close>

theorem unsolicited_dispatch:
  assumes "(p, f) \<in> set (vendor_unsolicit (g_vendorpl g) @ gsm0707_unsolicit) \<or> 0 < n \<and> (p, f) \<in> set gsm0705_unsolicit"
    and "buf = p @ CHR '':'' # c # r"
  shows "unsolicited_parse buf (int (length buf)) (started n g) = unsol_run f buf (P_str r) (started n g)"
  using assms by (rule parse_dispatch)

lemma unsolicited_dispatch_witness:
  "unsolicited_parse ''+CMTI: x'' 8 (started 3 gsmd_zero) = unsol_run Cmti_parse ''+CMTI: x'' (P_str ''x'') (started 3 gsmd_zero)"
  using unsolicited_dispatch[of "''+CMTI''" Cmti_parse gsmd_zero 3 "''+CMTI: x''" "CHR '' ''" "''x''"]
  by (simp add: gsm0705_unsolicit_def)

text \<open>
  C24. An event goes to its subscribers, once each, and to nobody else. When no allocation fails,
  \<open>usock_evt_send\<close> appends one message to the queue of every client whose subscriptions have the bit of
  the event, sets the write flag of its socket, leaves every other client and the rest of the daemon as they are,
  and returns the number of these clients. The first of them gets the message
  itself; every further one gets a copy that is short: of its payload only what remains of the first \<open>len\<close> octets
  of the whole object, 16 fewer than the payload has, is copied, and the rest is not set.
\<close>

theorem event_broadcast:
  assumes "g_talloc_fails g = []"
  shows "\<exists>us. usock_evt_send ucmd evt g = (int (subscribers evt (g_users g)), g\<lparr>g_users := us\<rparr>) \<and> notified ucmd evt (g_users g) us"
  by (rule event_notified[OF assms])

lemma event_broadcast_witness:
  "\<exists>us. snd (usock_evt_send (usock_build_event 1 1 60 (Ud_evt (Aux_call 1))) 1
     (gsmd_zero\<lparr>g_users := [example_user, example_user\<lparr>gu_subscriptions := 2\<rparr>, example_user\<lparr>gu_subscriptions := 3\<rparr>]\<rparr>)) =
       gsmd_zero\<lparr>g_users := us\<rparr> \<and> length us = 3 \<and> uc_valid (last (gu_finished_ucmds (us ! 1))) = 60 \<and>
       uc_valid (last (gu_finished_ucmds (us ! 2))) = 44"
proof -
  let ?m = "usock_build_event 1 1 60 (Ud_evt (Aux_call 1))"
  let ?us = "[example_user, example_user\<lparr>gu_subscriptions := 2\<rparr>, example_user\<lparr>gu_subscriptions := 3\<rparr>]"
  have b: "bit (2 :: u32) 1" "bit (3 :: u32) 1" "\<not> bit (0 :: u32) 1" by (simp_all add: bit_numeral_rec)
  obtain us where us: "usock_evt_send ?m 1 (gsmd_zero\<lparr>g_users := ?us\<rparr>) =
      (int (subscribers 1 ?us), gsmd_zero\<lparr>g_users := us\<rparr>)" "notified ?m 1 ?us us"
    using event_broadcast[of "gsmd_zero\<lparr>g_users := ?us\<rparr>" ?m 1] by auto
  then have "length us = 3" by (simp add: notified_def)
  moreover have "us ! 1 = (?us ! 1)\<lparr>gu_finished_ucmds := [?m], gu_when := set_bit 1 (gu_when (?us ! 1))\<rparr>"
    using us(2)[unfolded notified_def, THEN conjunct2, THEN spec[of _ 1]] b by (simp add: example_user_def)
  moreover have "\<exists>j < 2. bit (gu_subscriptions (?us ! j)) 1" using b by (intro exI[of _ 1]) simp
  then have "us ! 2 = (?us ! 2)\<lparr>gu_finished_ucmds := [?m\<lparr>uc_valid := 44\<rparr>], gu_when := set_bit 1 (gu_when (?us ! 2))\<rparr>"
    using us(2)[unfolded notified_def, THEN conjunct2, THEN spec[of _ 2]] b by (simp add: example_user_def usock_build_event_def)
  ultimately show ?thesis using us(1) by (auto simp: usock_build_event_def)
qed

text \<open>
  C25. The number of a caller reaches the clients as the modem gave it. After
  the daemon's start and any number of initialisations, with no command in flight or one whose text is \<open>AT\<close> and
  something that does not begin with \<open>+CLIP\<close>, and no failing allocation, the line \<open>+CLIP: "number",type\<close> and further fields comes from the line parser to
  \<open>ml_parse\<close>, and the clients that subscribed to the event are sent, as \<open>notified\<close> says for any event, an event with
  that number and the type as an octet (modulo 256). The number has at most 32 characters, no quote and no NUL; the type is at most
  2147483647; there are at most 14 further fields, each of a form the response parser takes, and the last of them is not empty.
\<close>

theorem clip_notification:
  assumes "g_talloc_fails g = []" and "length number \<le> GSMD_ADDR_MAXLEN" and "NUL \<notin> set number" and "DQ \<notin> set number"
    and "ty \<le> 2147483647" and "length fs \<le> 14" and "\<forall>i \<in> set fs. csv_ok i" and "fs \<noteq> [] \<longrightarrow> last fs \<noteq> CsvEmpty"
    and "cstr_of_array arr = Some (clip_line number ty fs)"
    and "\<forall>cmd \<in> set (g_busy_atcmds g). \<exists>t. cstr_of_array (ac_buf cmd) = Some (''AT'' @ t) \<and> take 5 t \<noteq> ''+CLIP''"
  shows "\<exists>us. ml_parse arr (length (clip_line number ty fs)) (started n g) =
      Some (int (subscribers GSMD_EVT_IN_CLIP (g_users g)), (started n g)\<lparr>g_users := us\<rparr>) \<and>
    notified (usock_build_event GSMD_MSG_EVENT GSMD_EVT_IN_CLIP sizeof_gsmd_evt_auxdata
        (Ud_evt (Aux_clip \<lparr>ga_type = of_nat ty, ga_number = number @ replicate (33 - length number) NUL\<rparr>)))
      GSMD_EVT_IN_CLIP (g_users g) us"
proof -
  let ?items = "CsvStr number # CsvNum ty # fs" and ?line = "clip_line number ty fs"
  let ?m = "usock_build_event GSMD_MSG_EVENT GSMD_EVT_IN_CLIP sizeof_gsmd_evt_auxdata
        (Ud_evt (Aux_clip \<lparr>ga_type = of_nat ty, ga_number = number @ replicate (33 - length number) NUL\<rparr>))"
  have fr: "g_talloc_fails (started n g) = [] \<and> g_users (started n g) = g_users g \<and> g_busy_atcmds (started n g) = g_busy_atcmds g"
    using assms(1) by (induction n) (auto simp: started_def register_sms_def unsolicited_init_def unsolicited_register_array_def Let_def)
  have "(''+CLIP'', Clip_parse) \<in> set gsm0707_unsolicit" by (simp add: gsm0707_unsolicit_def)
  then have "unsolicited_parse ?line (int (length ?line)) (started n g) = clip_parse (P_str (csv_render ?items)) (started n g)"
    using parse_dispatch[of "''+CLIP''" Clip_parse g n ?line "CHR '' ''" "csv_render ?items"] by (simp add: clip_line_def)
  moreover have "er_parse (P_str (csv_render ?items)) (started n g) = Some (Some (er_of ?items), started n g)"
    using assms fr by (intro er_parse_render) (auto simp: GSMD_ADDR_MAXLEN_def)
  moreover have "tok_types (er_of ?items) 2 = [GSMD_ECMD_RTT_STRING, GSMD_ECMD_RTT_NUMERIC]"
    "tok_num (er_of ?items) 1 = int ty" "tok_str (er_of ?items) 0 = number"
    using tok_of_str[of number] assms(2,3) by (simp_all add: tok_types_def tok_num_def tok_str_def er_of_def GSMD_ADDR_MAXLEN_def)
  moreover have "new_addr number (int ty) = Some \<lparr>ga_type = of_nat ty, ga_number = number @ replicate (33 - length number) NUL\<rparr>"
    using assms(2) by (simp add: new_addr_def strcpy_new_def GSMD_ADDR_MAXLEN_def)
  ultimately have "unsolicited_parse ?line (int (length ?line)) (started n g) =
      Some (usock_evt_send ?m GSMD_EVT_IN_CLIP (started n g))"
    using fr by (simp add: clip_parse_def addr_parse_def er_of_def)
  moreover obtain us where us: "usock_evt_send ?m GSMD_EVT_IN_CLIP (started n g) =
      (int (subscribers GSMD_EVT_IN_CLIP (g_users g)), (started n g)\<lparr>g_users := us\<rparr>)" "notified ?m GSMD_EVT_IN_CLIP (g_users g) us"
    using event_notified[of "started n g" ?m GSMD_EVT_IN_CLIP] fr by auto
  ultimately have "ml_parse arr (length ?line) (started n g) =
      Some (int (subscribers GSMD_EVT_IN_CLIP (g_users g)), (started n g)\<lparr>g_users := us\<rparr>)"
    using clip_unsolicited[OF assms(9), of "started n g"] assms(10) fr by simp
  then show ?thesis using us(2) by blast
qed

lemma clip_notification_witness:
  "\<exists>us. ml_parse (clip_line ''+4930123'' 145 [] @ [NUL]) 21 (started 1 (gsmd_zero\<lparr>g_users := [example_user\<lparr>gu_subscriptions := 16\<rparr>]\<rparr>)) =
     Some (1, (started 1 (gsmd_zero\<lparr>g_users := [example_user\<lparr>gu_subscriptions := 16\<rparr>]\<rparr>))\<lparr>g_users := us\<rparr>) \<and>
     map uc_data (gu_finished_ucmds (us ! 0)) = [Ud_evt (Aux_clip \<lparr>ga_type = 145, ga_number = ''+4930123'' @ replicate 25 NUL\<rparr>)]"
proof -
  let ?g = "gsmd_zero\<lparr>g_users := [example_user\<lparr>gu_subscriptions := 16\<rparr>]\<rparr>"
  have l: "length (clip_line ''+4930123'' 145 []) = 21" "cstr_of_array (clip_line ''+4930123'' 145 [] @ [NUL]) = Some (clip_line ''+4930123'' 145 [])"
    unfolding clip_line_def by code_simp+
  have b: "bit (16 :: u32) 4" by (simp add: bit_numeral_rec)
  then have "subscribers 4 (g_users ?g) = 1" unfolding subscribers_filter[symmetric] by (simp add: example_user_def subscribed_bit)
  then show ?thesis
    using clip_notification[of ?g "''+4930123''" 145 "[]" "clip_line ''+4930123'' 145 [] @ [NUL]" 1] l b
    by (auto simp: GSMD_ADDR_MAXLEN_def gsmd_zero_def example_user_def notified_def usock_build_event_def)
qed

end
