(* ===== verification/Usock.thy ===== *)
theory Usock
  imports DaemonInv
begin

text \<open>
  The requests of clients: \<open>src/gsmd/usock.c\<close> and the two handlers of \<open>src/gsmd/sms_cb.c\<close>.
  A request is read into \<open>char buf[1024]\<close>; what has not been received is whatever the stack
  holds, so the model takes the whole array and the number of octets received.
\<close>

unbundle bit_operations_syntax

section \<open>Looking into a request\<close>

definition u8_at :: "char list \<Rightarrow> nat \<Rightarrow> nat" where
  "u8_at b i = ord_c (c_at b i)"

definition u16_at :: "char list \<Rightarrow> nat \<Rightarrow> nat" where
  "u16_at b i = u8_at b i + 256 * u8_at b (i + 1)"

definition u32_at :: "char list \<Rightarrow> nat \<Rightarrow> nat" where
  "u32_at b i = u16_at b i + 65536 * u16_at b (i + 2)"

definition int_at :: "char list \<Rightarrow> nat \<Rightarrow> int" where
  "int_at b i = to_int32 (int (u32_at b i))"

text \<open>A string in the request; one without an end in the array is read beyond it.\<close>

definition str_at :: "char list \<Rightarrow> nat \<Rightarrow> string option" where
  "str_at b i = cstr_of_array (drop i b)"

text \<open>The argument of \<open>%.*s\<close>.\<close>

definition prec_at :: "char list \<Rightarrow> nat \<Rightarrow> nat \<Rightarrow> string" where
  "prec_at b i n = cstr (take n (drop i b))"

text \<open>\<open>struct gsmd_msg_hdr\<close>: version, type, subtype, a pad, identification and length.\<close>

definition gph_version :: "char list \<Rightarrow> nat" where "gph_version b = u8_at b 0"
definition gph_msg_type :: "char list \<Rightarrow> nat" where "gph_msg_type b = u8_at b 1"
definition gph_msg_subtype :: "char list \<Rightarrow> nat" where "gph_msg_subtype b = u8_at b 2"
definition gph_id :: "char list \<Rightarrow> u16" where "gph_id b = of_nat (u16_at b 4)"
definition gph_len :: "char list \<Rightarrow> nat" where "gph_len b = u16_at b 6"

lemma u8_at_less: "u8_at b i < 256"
  by (simp add: u8_at_def ord_c_less)

lemma gph_len_less: "gph_len b < 65536"
  using u8_at_less[of b 6] u8_at_less[of b 7] by (simp add: gph_len_def u16_at_def)

abbreviation (input) GSMD_PROTO_VERSION :: nat where "GSMD_PROTO_VERSION \<equiv> 1"

section \<open>Submitting the command of a request\<close>

text \<open>\<open>sprintf\<close> into a local array of \<open>n\<close> characters.\<close>

definition sprintf_local :: "nat \<Rightarrow> string \<Rightarrow> string option" where
  "sprintf_local n s = (if length s < n then Some s else None)"

text \<open>\<open>sprintf\<close> into the buffer of a command.\<close>

definition sprintf_cmd :: "gsmd_atcmd \<Rightarrow> string \<Rightarrow> gsmd_atcmd option" where
  "sprintf_cmd cmd s = map_option (\<lambda>a. cmd\<lparr>ac_buf := a\<rparr>) (memcpy (ac_buf cmd) 0 (s @ [NUL]))"

text \<open>
  Most requests end in filling a command, perhaps printing into it, and submitting it.
  \<open>e\<close> is what is returned when there is no memory for it.
\<close>

definition fill_submit ::
  "int \<Rightarrow> string \<Rightarrow> nat \<Rightarrow> at_cb option \<Rightarrow> at_ctx \<Rightarrow> u16 \<Rightarrow> (gsmd_atcmd \<Rightarrow> gsmd_atcmd option) \<Rightarrow> gsmd \<Rightarrow> (int \<times> gsmd) option" where
  "fill_submit e t rlen cb ctx cid pr g = do {
     (c, g1) \<leftarrow> atcmd_fill t (int rlen) cb ctx cid Discard_timer g;
     case c of
       None \<Rightarrow> Some (e, g1)
     | Some cmd \<Rightarrow> do { cmd' \<leftarrow> pr cmd; atcmd_submit cmd' g1 } }"

abbreviation cmd_plain :: "string \<Rightarrow> nat \<Rightarrow> at_cb option \<Rightarrow> nat \<Rightarrow> u16 \<Rightarrow> gsmd \<Rightarrow> (int \<times> gsmd) option" where
  "cmd_plain t rlen cb gu cid \<equiv> fill_submit (- ENOMEM) t rlen cb (Ctx_user gu) cid Some"

abbreviation cmd_print :: "string \<Rightarrow> nat \<Rightarrow> string \<Rightarrow> at_cb option \<Rightarrow> nat \<Rightarrow> u16 \<Rightarrow> gsmd \<Rightarrow> (int \<times> gsmd) option" where
  "cmd_print t rlen s cb gu cid \<equiv> fill_submit (- ENOMEM) t rlen cb (Ctx_user gu) cid (\<lambda>cmd. sprintf_cmd cmd s)"

text \<open>\<open>atcmd_submit (g, atcmd_fill (...))\<close>, without a test.\<close>

definition submit_unchecked :: "string \<Rightarrow> nat \<Rightarrow> at_cb option \<Rightarrow> nat \<Rightarrow> u16 \<Rightarrow> gsmd \<Rightarrow> (int \<times> gsmd) option" where
  "submit_unchecked t rlen cb gu cid g = do {
     (c, g1) \<leftarrow> atcmd_fill t (int rlen) cb (Ctx_user gu) cid Discard_timer g;
     cmd \<leftarrow> c;
     atcmd_submit cmd g1 }"

section \<open>Pass-through, subscriptions, voice calls\<close>

definition usock_rcv_passthrough :: "nat \<Rightarrow> char list \<Rightarrow> int \<Rightarrow> gsmd \<Rightarrow> (int \<times> gsmd) option" where
  "usock_rcv_passthrough gu b len g = do {
     s \<leftarrow> str_at b 8;
     cmd_plain s (gph_len b) (Some Usock_cmd_cb) gu (gph_id b) g }"

definition usock_rcv_event :: "nat \<Rightarrow> char list \<Rightarrow> int \<Rightarrow> gsmd \<Rightarrow> (int \<times> gsmd) option" where
  "usock_rcv_event gu b len g =
     (if len < 8 + 4 then Some (- EINVAL, g)
      else if gph_msg_subtype b \<noteq> 12 then Some (- EINVAL, g)
      else map_option (\<lambda>g1. (0, g1)) (upd_user gu (\<lambda>u. u\<lparr>gu_subscriptions := of_nat (u32_at b 8)\<rparr>) g))"

text \<open>The text of \<open>AT+CHLD\<close>, by \<open>gcc->proc\<close> and \<open>gcc->idx\<close>.\<close>

definition chld_text :: "int \<Rightarrow> nat \<Rightarrow> string option" where
  "chld_text prc idx =
     (if prc = 0 \<or> prc = 1 then Some ''AT+CHLD=0''
      else if prc = 2 then Some ''AT+CHLD=1''
      else if prc = 3 then Some (''AT+CHLD=1'' @ show_nat idx)
      else if prc = 4 then Some ''AT+CHLD=2''
      else if prc = 5 then Some (''AT+CHLD=2'' @ show_nat idx)
      else if prc = 6 then Some ''AT+CHLD=3''
      else None)"

definition voicecall_dial :: "nat \<Rightarrow> char list \<Rightarrow> int \<Rightarrow> gsmd \<Rightarrow> (int \<times> gsmd) option" where
  "voicecall_dial gu b0 len g =
     (if len < 8 + int sizeof_gsmd_addr then Some (- EINVAL, g)
      else do {
        let b = b0[9 + GSMD_ADDR_MAXLEN := NUL];
        number \<leftarrow> str_at b 9;
        cmd_print ''ATD'' (5 + length number) (''ATD'' @ number @ '';'') (Some Usock_cmd_cb) gu (gph_id b) g })"

text \<open>Hanging up does not wait for the command that is with the modem.\<close>

definition voicecall_hangup :: "nat \<Rightarrow> char list \<Rightarrow> gsmd \<Rightarrow> (int \<times> gsmd) option" where
  "voicecall_hangup gu b g = do {
     let cb = (if ds_ringing (g_dev_state g) then Usock_ringing_cb else Usock_cmd_cb);
     (c, g1) \<leftarrow> atcmd_fill ''ATH'' 4 (Some cb) (Ctx_user gu) (gph_id b) Discard_timer g;
     case c of
       None \<Rightarrow> Some (- ENOMEM, g1)
     | Some cmd \<Rightarrow> cancel_atcmd run_cb cmd g1 }"

definition voicecall_dtmf :: "nat \<Rightarrow> char list \<Rightarrow> int \<Rightarrow> gsmd \<Rightarrow> (int \<times> gsmd) option" where
  "voicecall_dtmf gu b len g =
     (let n = u8_at b 8 in
      if len < 8 + 1 then Some (- EINVAL, g)
      else if len < 8 + 1 + int n then Some (- EINVAL, g)
      else if n \<noteq> 1 then Some (- EINVAL, g)
      else cmd_print ''AT+VTS='' (1 + 7 + n * 2) (''AT+VTS='' @ [c_at b 9] @ '';'') (Some Usock_cmd_cb) gu (gph_id b) g)"

text \<open>An unknown procedure leaves the command allocated.\<close>

definition voicecall_ctrl :: "nat \<Rightarrow> char list \<Rightarrow> int \<Rightarrow> gsmd \<Rightarrow> (int \<times> gsmd) option" where
  "voicecall_ctrl gu b len g =
     (if len < 8 + 5 then Some (- EINVAL, g)
      else do {
        (c, g1) \<leftarrow> atcmd_fill ''AT+CHLD='' (1 + 8 + 2) (Some Voicecall_ctrl_cb) (Ctx_user gu) (gph_id b) Discard_timer g;
        case c of
          None \<Rightarrow> Some (- ENOMEM, g1)
        | Some cmd \<Rightarrow> (case chld_text (int_at b 8) (u8_at b 12) of
              None \<Rightarrow> Some (- EINVAL, g1)
            | Some s \<Rightarrow> do { cmd' \<leftarrow> sprintf_cmd cmd s; atcmd_submit cmd' g1 }) })"

text \<open>Call forwarding: the argument is printed into \<open>char buf[64]\<close> first.\<close>

definition ccfc :: "at_cb \<Rightarrow> string \<Rightarrow> nat \<Rightarrow> char list \<Rightarrow> gsmd \<Rightarrow> (int \<times> gsmd) option" where
  "ccfc cb arg gu b g = do {
     s \<leftarrow> sprintf_local 64 arg;
     cmd_print ''AT+CCFC='' (1 + 8 + length s) (''AT+CCFC='' @ s) (Some cb) gu (gph_id b) g }"

definition voicecall_fwd :: "at_cb \<Rightarrow> string \<Rightarrow> nat \<Rightarrow> char list \<Rightarrow> int \<Rightarrow> gsmd \<Rightarrow> (int \<times> gsmd) option" where
  "voicecall_fwd cb mode gu b len g =
     (if len < 8 + 4 then Some (- EINVAL, g)
      else ccfc cb (show_int (int_at b 8) @ '','' @ mode) gu b g)"

definition voicecall_fwd_reg :: "nat \<Rightarrow> char list \<Rightarrow> int \<Rightarrow> gsmd \<Rightarrow> (int \<times> gsmd) option" where
  "voicecall_fwd_reg gu b len g =
     (if len < 8 + 4 then Some (- EINVAL, g)
      else do {
        number \<leftarrow> str_at b 13;
        ccfc Usock_cmd_cb (show_int (int_at b 8) @ '',3,'' @ [DQ] @ number @ [DQ]) gu b g })"

definition usock_rcv_voicecall :: "nat \<Rightarrow> char list \<Rightarrow> int \<Rightarrow> gsmd \<Rightarrow> (int \<times> gsmd) option" where
  "usock_rcv_voicecall gu b len g =
     (let sub = gph_msg_subtype b in
      if sub = 1 then voicecall_dial gu b len g
      else if sub = 2 then voicecall_hangup gu b g
      else if sub = 3 then cmd_plain ''ATA'' 4 (Some Usock_ringing_cb) gu (gph_id b) g
      else if sub = 4 then voicecall_dtmf gu b len g
      else if sub = 7 then cmd_plain ''AT+CLCC'' 8 (Some Voicecall_get_stat_cb) gu (gph_id b) g
      else if sub = 8 then voicecall_ctrl gu b len g
      else if sub = 9 then voicecall_fwd Usock_cmd_cb ''0'' gu b len g
      else if sub = 10 then voicecall_fwd Usock_cmd_cb ''1'' gu b len g
      else if sub = 11 then voicecall_fwd Voicecall_fwd_stat_cb ''2'' gu b len g
      else if sub = 12 then voicecall_fwd_reg gu b len g
      else if sub = 13 then voicecall_fwd Usock_cmd_cb ''4'' gu b len g
      else Some (- EINVAL, g))"

section \<open>PIN, phone and modem\<close>

definition GSMD_PIN_MAXLEN :: nat where "GSMD_PIN_MAXLEN = 8"
definition sizeof_gsmd_pin :: nat where "sizeof_gsmd_pin = 22"

definition strlcat_cmd :: "string \<Rightarrow> gsmd_atcmd \<Rightarrow> gsmd_atcmd option" where
  "strlcat_cmd s cmd = map_option (\<lambda>(_, a). cmd\<lparr>ac_buf := a\<rparr>) (strlcat (ac_buf cmd) s (ac_buflen cmd))"

definition pin_print :: "char list \<Rightarrow> gsmd_atcmd \<Rightarrow> gsmd_atcmd option" where
  "pin_print b cmd = do {
     pin \<leftarrow> str_at b 12;
     c1 \<leftarrow> strlcat_cmd pin cmd;
     c2 \<leftarrow> (if int_at b 8 = 2 \<or> int_at b 8 = 7 then do {
              newpin \<leftarrow> str_at b 21;
              c1' \<leftarrow> strlcat_cmd ([DQ] @ '','' @ [DQ]) c1;
              strlcat_cmd newpin c1' }
            else Some c1);
     strlcat_cmd [DQ] c2 }"

text \<open>The log prints both strings of the request before the command is made.\<close>

definition usock_rcv_pin :: "nat \<Rightarrow> char list \<Rightarrow> int \<Rightarrow> gsmd \<Rightarrow> (int \<times> gsmd) option" where
  "usock_rcv_pin gu b len g =
     (if gph_msg_subtype b = 1 then
        if gph_len b < sizeof_gsmd_pin \<or> len < int sizeof_gsmd_pin + 8 then Some (- EINVAL, g)
        else do {
          _ \<leftarrow> str_at b 12;
          _ \<leftarrow> str_at b 21;
          fill_submit (- ENOMEM) (''AT+CPIN='' @ [DQ]) (9 + GSMD_PIN_MAXLEN + 3 + GSMD_PIN_MAXLEN + 2)
            (Some Pin_cmd_cb) (Ctx_user gu) 0 (pin_print b) g }
      else if gph_msg_subtype b = 2 then submit_unchecked ''AT+CPIN?'' 9 (Some Get_cpin_cb) gu 0 g
      else Some (- EINVAL, g))"

definition usock_rcv_phone :: "nat \<Rightarrow> char list \<Rightarrow> int \<Rightarrow> gsmd \<Rightarrow> (int \<times> gsmd) option" where
  "usock_rcv_phone gu b len g =
     (let sub = gph_msg_subtype b in
      if sub = 1 then cmd_plain ''AT+CFUN=1'' 10 (Some Phone_powerup_cb) gu 0 g
      else if sub = 2 then
        cmd_plain ''AT+CFUN=0'' 10 (Some Phone_powerdown_cb) gu 0 (g\<lparr>g_dev_state := (g_dev_state g)\<lparr>ds_on := False\<rparr>\<rparr>)
      else if sub = 11 then cmd_plain ''AT+CFUN?'' 9 (Some Phone_power_status_cb) gu 0 g
      else if sub = 3 then do {
        imsi \<leftarrow> cstr_of_array (g_imsi g);
        gsmd_ucmd_submit gu GSMD_MSG_PHONE 3 0 (length imsi + 1) (Ud_string imsi) g }
      else if sub = 4 then cmd_plain ''AT+CGMI'' 8 (Some Phone_get_manuf_cb) gu 0 g
      else if sub = 5 then cmd_plain ''AT+CGMM'' 8 (Some Phone_get_model_cb) gu 0 g
      else if sub = 6 then cmd_plain ''AT+CGMR'' 8 (Some Phone_get_revision_cb) gu 0 g
      else if sub = 7 then cmd_plain ''AT+CGSN'' 8 (Some Phone_get_serial_cb) gu 0 g
      else if sub = 8 then cmd_plain ''AT+CBC'' 7 (Some Phone_get_battery_cb) gu 0 g
      else if sub = 9 then cmd_plain ''AT+CVIB=1'' 10 (Some Phone_vibrator_enable_cb) gu 0 g
      else if sub = 10 then
        cmd_plain ''AT+CVIB=0'' 10 (Some Phone_vibrator_disable_cb) gu 0 (g\<lparr>g_dev_state := (g_dev_state g)\<lparr>ds_vibrator := False\<rparr>\<rparr>)
      else Some (- EINVAL, g))"

text \<open>
  \<open>gta01_power\<close> and \<open>telit_power\<close>: switching the modem off is put into the queue without
  waking the modem first.
\<close>

definition power_off :: "string \<Rightarrow> nat \<Rightarrow> gsmd \<Rightarrow> (int \<times> gsmd) option" where
  "power_off t pw g =
     (if pw = 1 then Some (0, g)
      else if pw = 2 then do {
        (c, g1) \<leftarrow> atcmd_fill t 8 None Ctx_gsmd 0 Poweroff_timer g;
        case c of
          None \<Rightarrow> Some (- ENOMEM, g1)
        | Some cmd \<Rightarrow> Some (0, wake_if_idle (add_pending_tail cmd g1)) }
      else Some (- EINVAL, g))"

definition gta01_power :: "nat \<Rightarrow> gsmd \<Rightarrow> (int \<times> gsmd) option" where
  "gta01_power = power_off ''AT@POFF''"

definition telit_power :: "nat \<Rightarrow> gsmd \<Rightarrow> (int \<times> gsmd) option" where
  "telit_power = power_off ''AT#SHDN''"

definition usock_rcv_modem :: "nat \<Rightarrow> char list \<Rightarrow> int \<Rightarrow> gsmd \<Rightarrow> (int \<times> gsmd) option" where
  "usock_rcv_modem gu b len g = do {
     (_, g1) \<leftarrow> (case g_machinepl g of
        Machine_gta01 \<Rightarrow> gta01_power (gph_msg_subtype b) g
      | Machine_telit \<Rightarrow> telit_power (gph_msg_subtype b) g
      | _ \<Rightarrow> Some (0, g));
     Some (0, g1) }"

section \<open>Network\<close>

text \<open>\<open>char buffer[15 + sizeof (gsmd_oper_numeric)]\<close> and the command printed into it.\<close>

definition network_print :: "string \<Rightarrow> at_cb \<Rightarrow> nat \<Rightarrow> gsmd \<Rightarrow> (int \<times> gsmd) option" where
  "network_print t cb gu g = do {
     s \<leftarrow> sprintf_local (15 + 6) t;
     cmd_plain s (length s + 1) (Some cb) gu 0 g }"

definition network_format :: "string \<Rightarrow> string \<Rightarrow> at_cb \<Rightarrow> nat \<Rightarrow> gsmd \<Rightarrow> (int \<times> gsmd) option" where
  "network_format fmt t cb gu g = do {
     (_, g1) \<leftarrow> submit_unchecked fmt (length fmt + 1) (Some Null_cmd_cb) gu 0 g;
     cmd_plain t (length t + 1) (Some cb) gu 0 g1 }"

definition usock_rcv_network :: "nat \<Rightarrow> char list \<Rightarrow> int \<Rightarrow> gsmd \<Rightarrow> (int \<times> gsmd) option" where
  "usock_rcv_network gu b len g =
     (let sub = gph_msg_subtype b; oper = prec_at b 8 6 in
      if sub = 1 then
        network_print (if c_at b 8 \<noteq> NUL then ''AT+COPS=1,2,'' @ [DQ] @ oper @ [DQ] else ''AT+COPS=0'') Null_cmd_cb gu g
      else if sub = 9 then cmd_plain ''AT+COPS=2'' 10 (Some Null_cmd_cb) gu 0 g
      else if sub = 15 then cmd_plain ''AT+CREG?'' 9 (Some Network_query_reg_cb) gu 0 g
      else if sub = 3 then cmd_plain ''AT+CSVM?'' 9 (Some Network_vmail_cb) gu 0 g
      else if sub = 4 then do {
        number \<leftarrow> str_at b 10;
        network_print (''AT+CSVM=1,'' @ [DQ] @ number @ [DQ] @ '','' @ show_nat (u8_at b 9)) Network_vmail_cb gu g }
      else if sub = 2 then cmd_plain ''AT+CSQ'' 7 (Some Network_sigq_cb) gu 0 g
      else if sub = 5 then network_format ''AT+COPS=3,0'' ''AT+COPS?'' Network_oper_cb gu g
      else if sub = 6 then network_format ''AT+COPS=3,2'' ''AT+COPS?'' Network_oper_n_cb gu g
      else if sub = 7 then cmd_plain ''AT+COPS=?'' 10 (Some Network_opers_cb) gu 0 g
      else if sub = 11 then network_format ''AT+CPOL=,0'' ''AT+CPOL?'' Network_pref_opers_cb gu g
      else if sub = 12 then network_print (''AT+CPOL='' @ show_int (int_at b 8)) Null_cmd_cb gu g
      else if sub = 13 then network_print (''AT+CPOL=,2,'' @ [DQ] @ oper @ [DQ]) Null_cmd_cb gu g
      else if sub = 14 then cmd_plain ''AT+CPOL=?'' 10 (Some Network_pref_num_cb) gu 0 g
      else if sub = 10 then cmd_plain ''AT+CNUM'' 8 (Some Network_ownnumbers_cb) gu 0 g
      else Some (- EINVAL, g))"

section \<open>Phone book\<close>

text \<open>An argument printed into \<open>char buf[1024]\<close>, and from there behind the command.\<close>

definition phonebook_print :: "string \<Rightarrow> string \<Rightarrow> at_cb \<Rightarrow> nat \<Rightarrow> char list \<Rightarrow> gsmd \<Rightarrow> (int \<times> gsmd) option" where
  "phonebook_print t arg cb gu b g = do {
     s \<leftarrow> sprintf_local 1024 arg;
     cmd_print t (1 + length t + length s) (t @ s) (Some cb) gu (gph_id b) g }"

definition phonebook_write :: "nat \<Rightarrow> char list \<Rightarrow> gsmd \<Rightarrow> (int \<times> gsmd) option" where
  "phonebook_write gu b g = do {
     numb \<leftarrow> str_at b 9;
     t \<leftarrow> str_at b 55;
     phonebook_print ''AT+CPBW='' (show_int (store_signed 8 (int (u8_at b 8))) @ '','' @ [DQ] @ numb @ [DQ] @ '','' @
       show_nat (u8_at b 54) @ '','' @ [DQ] @ t @ [DQ]) Phonebook_write_cb gu b g }"

definition usock_rcv_phonebook :: "nat \<Rightarrow> char list \<Rightarrow> int \<Rightarrow> gsmd \<Rightarrow> (int \<times> gsmd) option" where
  "usock_rcv_phonebook gu b len g =
     (let sub = gph_msg_subtype b in
      if sub = 7 then fill_submit 0 ''AT+CPBS=?'' 10 (Some Phonebook_list_storage_cb) (Ctx_user gu) (gph_id b) Some g
      else if sub = 8 then
        if len < 8 + 3 then Some (- EINVAL, g)
        else do {
          storage \<leftarrow> str_at b 8;
          cmd_print (''AT+CPBS='' @ [DQ]) (1 + 9 + 2 + 1) (''AT+CPBS='' @ [DQ] @ storage @ [DQ]) (Some Usock_cmd_cb) gu (gph_id b) g }
      else if sub = 1 then
        if len < 8 + 15 then Some (- EINVAL, g)
        else do {
          findtext \<leftarrow> str_at b 8;
          cmd_print (''AT+CPBF='' @ [DQ]) (1 + 9 + length findtext + 1) (''AT+CPBF='' @ [DQ] @ findtext @ [DQ])
            (Some Phonebook_find_cb) gu (gph_id b) g }
      else if sub = 2 then
        if len < 8 + 4 then Some (- EINVAL, g)
        else phonebook_print ''AT+CPBR='' (show_int (int_at b 8)) Phonebook_read_cb gu b g
      else if sub = 3 then
        if len < 8 + 2 then Some (- EINVAL, g)
        else phonebook_print ''AT+CPBR='' (show_nat (u8_at b 8) @ '','' @ show_nat (u8_at b 9)) Phonebook_readrg_cb gu b g
      else if sub = 4 then if len < 8 + int sizeof_gsmd_phonebook then Some (- EINVAL, g) else phonebook_write gu b g
      else if sub = 5 then
        if len < 8 + 4 then Some (- EINVAL, g)
        else phonebook_print ''AT+CPBW='' (show_int (int_at b 8)) Phonebook_delete_cb gu b g
      else if sub = 6 then fill_submit 0 ''AT+CPBR=?'' 10 (Some Phonebook_get_support_cb) (Ctx_user gu) (gph_id b) Some g
      else Some (- EINVAL, g))"

section \<open>Short messages and cell broadcast (\<open>sms_cb.c\<close>)\<close>

definition gsmd_cmgl_stat :: "string list" where
  "gsmd_cmgl_stat = [''REC UNREAD'', ''REC READ'', ''STO UNSENT'', ''STO SENT'', ''ALL'']"

definition sizeof_gsmd_sms_submit :: nat where "sizeof_gsmd_sms_submit = 244"

text \<open>
  \<open>struct gsmd_sms_submit\<close> at position \<open>i\<close> of the request: an address of 34 octets, the
  message of 204 and, aligned, \<open>ask_ds\<close>.  The members of the message that
  \<open>sms_pdu_make_smssubmit\<close> does not read are left at zero.
\<close>

definition submit_at :: "char list \<Rightarrow> nat \<Rightarrow> gsmd_sms_submit" where
  "submit_at b i =
     \<lparr>sub_addr = \<lparr>ga_type = of_nat (u8_at b i), ga_number = take (GSMD_ADDR_MAXLEN + 1) (drop (i + 1) b)\<rparr>,
      sub_payload = \<lparr>sms_length = of_nat (u8_at b (i + 34)), sms_coding_scheme = of_nat (u8_at b (i + 35)),
        sms_has_header = (u32_at b (i + 36) \<noteq> 0), sms_is_voicemail = (u32_at b (i + 40) \<noteq> 0),
        sms_dcs = \<lparr>dcs_msg_class = 0, dcs_alphabet = 0, dcs_is_compressed = 0, dcs_mwi_group = 0, dcs_mwi_active = 0,
          dcs_mwi_kind = 0, dcs_raw = 0\<rparr>,
        sms_tp_mti = GSMD_SMS_TP_MTI_SUBMIT,
        sms_data = map (\<lambda>c. of_nat (ord_c c)) (take (GSMD_SMS_DATA_MAXLEN + 1) (drop (i + 73) b))\<rparr>,
      sub_ask_ds = (u32_at b (i + 240) \<noteq> 0)\<rparr>"

text \<open>\<open>sprintf\<close> into \<open>char buf[1024]\<close> and the command filled from it; \<open>cb\<close> may be missing.\<close>

definition sms_print :: "string \<Rightarrow> at_cb option \<Rightarrow> nat \<Rightarrow> char list \<Rightarrow> gsmd \<Rightarrow> (int \<times> gsmd) option" where
  "sms_print t cb gu b g = do {
     s \<leftarrow> sprintf_local 1024 t;
     cmd_plain s (length s + 1) cb gu (gph_id b) g }"

text \<open>
  The text of a message to send or store: \<open>cmd\<close> is the command, \<open>arg\<close> what follows the
  length in PDU mode, \<open>i\<close> the position of the message.  It ends with the character 26.
\<close>

definition submit_text :: "bool \<Rightarrow> string \<Rightarrow> string \<Rightarrow> char list \<Rightarrow> nat \<Rightarrow> string option" where
  "submit_text is_text cmd arg b i =
     (if is_text then do {
        number \<leftarrow> str_at b (i + 1);
        Some (cmd @ [DQ] @ number @ [DQ] @ [LF] @ prec_at b (i + 73) (u8_at b (i + 34)) @ [CHR 0x1A]) }
      else do {
        (n, hex) \<leftarrow> sms_pdu_make_smssubmit (submit_at b i);
        Some (cmd @ show_int (n - 1) @ arg @ [LF] @ hex @ [CHR 0x1A]) })"

definition usock_rcv_sms :: "nat \<Rightarrow> char list \<Rightarrow> int \<Rightarrow> gsmd \<Rightarrow> (int \<times> gsmd) option" where
  "usock_rcv_sms gu b len g =
     (let sub = gph_msg_subtype b; is_text = flag (g_flags g) GSMD_FLAG_SMS_FMT_TEXT in
      if sub = 1 then
        let stat = int_at b 8 in
        if len < 8 + 4 then Some (- EINVAL, g)
        else if stat < 0 \<or> 4 < stat then Some (- EINVAL, g)
        else sms_print (if is_text then ''AT+CMGL='' @ [DQ] @ gsmd_cmgl_stat ! nat stat @ [DQ] else ''AT+CMGL='' @ show_int stat)
               (Some Sms_list_cb) gu b g
      else if sub = 2 then
        if len < 8 + 4 then Some (- EINVAL, g)
        else sms_print (''AT+CMGR='' @ show_int (int_at b 8)) (Some Sms_read_cb) gu b g
      else if sub = 3 then
        if len < 8 + int sizeof_gsmd_sms_submit then Some (- EINVAL, g)
        else do {
          t \<leftarrow> submit_text is_text ''AT+CMGS='' [] b 8;
          sms_print t (Some Sms_send_cb) gu b g }
      else if sub = 4 then
        if len < 8 + 1 + int sizeof_gsmd_sms_submit then Some (- EINVAL, g)
        else if 4 < u8_at b 8 then Some (- EINVAL, g)
        else do {
          t \<leftarrow> submit_text is_text ''AT+CMGW='' ('','' @ show_nat (u8_at b 8)) b 9;
          sms_print t (Some Sms_write_cb) gu b g }
      else if sub = 5 then
        if len < 8 + 2 then Some (- EINVAL, g)
        else sms_print (''AT+CMGD='' @ show_nat (u8_at b 8) @ '','' @ show_nat (u8_at b 9)) (Some Sms_delete_cb) gu b g
      else if sub = 6 then cmd_plain ''AT+CPMS?'' 9 (Some Usock_cpms_cb) gu 0 g
      else if sub = 7 then
        if len < 8 + 12 then Some (- EINVAL, g)
        else do {
          m0 \<leftarrow> rd ts0705_memtype_name (u32_at b 8);
          m1 \<leftarrow> rd ts0705_memtype_name (u32_at b 12);
          m2 \<leftarrow> rd ts0705_memtype_name (u32_at b 16);
          sms_print (''AT+CPMS='' @ [DQ] @ m0 @ [DQ] @ '','' @ [DQ] @ m1 @ [DQ] @ '','' @ [DQ] @ m2 @ [DQ]) None gu b g }
      else if sub = 8 then cmd_plain ''AT+CSCA?'' 9 (Some Usock_get_smsc_cb) gu 0 g
      else if sub = 9 then
        if len < 8 + int sizeof_gsmd_addr then Some (- EINVAL, g)
        else do {
          number \<leftarrow> str_at b 9;
          sms_print (''AT+CSCA='' @ [DQ] @ number @ [DQ] @ '','' @ show_nat (u8_at b 8)) None gu b g }
      else Some (- ENOSYS, g))"

definition usock_rcv_cb :: "nat \<Rightarrow> char list \<Rightarrow> int \<Rightarrow> gsmd \<Rightarrow> (int \<times> gsmd) option" where
  "usock_rcv_cb gu b len g =
     (if gph_msg_subtype b = 1 then fill_submit (- ENOMEM) ''AT+CSCB=1'' 10 None Ctx_gsmd 0 Some g
      else if gph_msg_subtype b = 2 then fill_submit (- ENOMEM) ''AT+CSCB=0'' 10 None Ctx_gsmd 0 Some g
      else Some (- ENOSYS, g))"

section \<open>Dispatch\<close>

text \<open>The table \<open>pcmd_type_handlers\<close>; data calls have no handler.\<close>

definition usock_rcv_pcmd :: "nat \<Rightarrow> char list \<Rightarrow> int \<Rightarrow> gsmd \<Rightarrow> (int \<times> gsmd) option" where
  "usock_rcv_pcmd gu b len g =
     (let ty = gph_msg_type b in
      if gph_version b \<noteq> GSMD_PROTO_VERSION then Some (- EINVAL, g)
      else if 12 \<le> ty then Some (- EINVAL, g)
      else if ty = 1 then usock_rcv_event gu b len g
      else if ty = 2 then usock_rcv_passthrough gu b len g
      else if ty = 3 then usock_rcv_voicecall gu b len g
      else if ty = 5 then usock_rcv_phonebook gu b len g
      else if ty = 6 then usock_rcv_network gu b len g
      else if ty = 7 then usock_rcv_phone gu b len g
      else if ty = 8 then usock_rcv_pin gu b len g
      else if ty = 9 then usock_rcv_sms gu b len g
      else if ty = 10 then usock_rcv_cb gu b len g
      else if ty = 11 then usock_rcv_modem gu b len g
      else Some (- EINVAL, g))"

section \<open>The socket of a client\<close>

text \<open>The client has closed its socket: its commands are ended, then it is forgotten.\<close>

definition user_vanished :: "nat \<Rightarrow> gsmd \<Rightarrow> gsmd option" where
  "user_vanished gu g = do {
     (_, g1) \<leftarrow> atcmd_terminate_matching run_cb (Ctx_user gu) g;
     Some (g1\<lparr>g_users := filter (\<lambda>u. gu_addr u \<noteq> gu) (g_users g1)\<rparr>) }"

text \<open>
  Sending what has been queued for a client; \<open>ws\<close> are the results of \<open>write\<close>, one for each
  message until it stops.  The result is the return code, the messages left, and whether
  the loop returned early.
\<close>

fun user_write :: "gsmd_ucmd list \<Rightarrow> int list \<Rightarrow> int \<times> gsmd_ucmd list \<times> bool" where
  "user_write [] ws = (0, [], False)"
| "user_write (u # us) [] = (0, u # us, False)"
| "user_write (u # us) (w # ws) =
     (if w < 0 then (w, u # us, True)
      else if w \<noteq> int (sizeof_gsmd_msg_hdr + uc_len u) then (0, u # us, False)
      else user_write us ws)"

definition after_write :: "gsmd_ucmd list \<Rightarrow> bool \<Rightarrow> gsmd_user \<Rightarrow> gsmd_user" where
  "after_write left early u = u\<lparr>gu_finished_ucmds := left,
     gu_when := (if \<not> early \<and> left = [] then gu_when u AND NOT GSMD_FD_WRITE else gu_when u)\<rparr>"

text \<open>\<open>rcvlen\<close> is the result of \<open>read\<close>, \<open>b\<close> the buffer afterwards.\<close>

definition gsmd_usock_user_cb ::
  "u32 \<Rightarrow> int \<Rightarrow> char list \<Rightarrow> int list \<Rightarrow> nat \<Rightarrow> gsmd \<Rightarrow> (int \<times> gsmd) option" where
  "gsmd_usock_user_cb what rcvlen b ws gu g =
     (if flag what GSMD_FD_READ then
        if rcvlen = 0 then map_option (\<lambda>g1. (0, g1)) (user_vanished gu g)
        else if rcvlen < 0 then Some (rcvlen, g)
        else usock_rcv_pcmd gu b rcvlen g
      else if flag what GSMD_FD_WRITE then do {
        u \<leftarrow> find (\<lambda>u. gu_addr u = gu) (g_users g);
        let (rc, left, early) = user_write (gu_finished_ucmds u) ws;
        map_option (\<lambda>g1. (rc, g1)) (upd_user gu (after_write left early) g) }
      else Some (0, g))"

text \<open>A new client.  When \<open>accept\<close> fails its structure is freed and used all the same.\<close>

definition gsmd_usock_cb :: "u32 \<Rightarrow> int \<Rightarrow> gsmd \<Rightarrow> (int \<times> gsmd) option" where
  "gsmd_usock_cb what fd g =
     (if flag what GSMD_FD_READ then
        let (ok, g1) = talloc g in
        if \<not> ok then Some (- ENOMEM, g1)
        else if fd < 0 then None
        else Some (0, g1\<lparr>g_next_addr := g_next_addr g1 + 1,
               g_users := \<lparr>gu_addr = g_next_addr g1, gu_finished_ucmds = [], gu_when = GSMD_FD_READ,
                           gu_subscriptions = 0xffffffff\<rparr> # g_users g1\<rparr>)
      else Some (0, g))"

end
