(* ===== verification/UsockInv.thy ===== *)
theory UsockInv
  imports Usock
begin

text \<open>
  What the requests of clients keep: whatever a client sends, the daemon's state stays
  well-formed; and a client that goes away leaves no command behind that refers to it.
\<close>

unbundle bit_operations_syntax

section \<open>Submitting the command of a request\<close>

text \<open>\<open>req g m\<close>: the request \<open>m\<close> appends live commands to the queue and nothing else.\<close>

definition req :: "gsmd \<Rightarrow> (int \<times> gsmd) option \<Rightarrow> bool" where
  "req g m \<longleftrightarrow> (\<forall>rc g'. m = Some (rc, g') \<longrightarrow> queue_frame g g')"

named_theorems req_rules \<open>what requests keep, by the structure of the computation\<close>

lemma reqD: "req g m \<Longrightarrow> m = Some (rc, g') \<Longrightarrow> queue_frame g g'"
  by (simp add: req_def)

lemma req_framed: "framed g m \<Longrightarrow> req g m"
  by (auto simp: req_def framed_def cb_frame_def)

lemma req_ret [req_rules]: "req g (Some (rc, g))"
  by (simp add: req_def)

lemma req_bind [req_rules]: "(\<And>x. m = Some x \<Longrightarrow> req g (f x)) \<Longrightarrow> req g (Option.bind m f)"
  by (cases m) (auto simp: req_def)

lemma req_if [req_rules]: "(b \<Longrightarrow> req g m) \<Longrightarrow> (\<not> b \<Longrightarrow> req g m') \<Longrightarrow> req g (if b then m else m')"
  by simp

lemma req_seq:
  assumes "req g m" and "\<And>r g1. user_addrs g1 = user_addrs g \<Longrightarrow> req g1 (f r g1)"
  shows "req g (do { (r, g1) \<leftarrow> m; f r g1 })"
proof (rule req_bind)
  fix x assume x: "m = Some x"
  have q: "queue_frame g (snd x)" using reqD[OF assms(1), of "fst x" "snd x"] x by simp
  then have "user_addrs (snd x) = user_addrs g" by (simp add: queue_frame_def)
  from assms(2)[OF this, of "fst x"] show "req g (case x of (r, g1) \<Rightarrow> f r g1)"
    using queue_frame_trans[OF q] by (auto simp: req_def split_beta)
qed

text \<open>How a command may be printed into: the buffer keeps its length and its terminator.\<close>

definition terminated :: "char list \<Rightarrow> bool" where
  "terminated a \<longleftrightarrow> a \<noteq> [] \<and> last a = NUL"

definition printed :: "gsmd_atcmd \<Rightarrow> gsmd_atcmd \<Rightarrow> bool" where
  "printed cmd cmd' \<longleftrightarrow> (\<exists>a. cmd' = cmd\<lparr>ac_buf := a\<rparr> \<and> length a = length (ac_buf cmd) \<and>
     (terminated (ac_buf cmd) \<longrightarrow> terminated a))"

lemma printed_refl [simp]: "printed cmd cmd"
  unfolding printed_def by (rule exI[of _ "ac_buf cmd"]) simp

lemma printed_trans:
  assumes "printed a b" and "printed b c"
  shows "printed a c"
proof -
  obtain x y where "b = a\<lparr>ac_buf := x\<rparr>" "c = b\<lparr>ac_buf := y\<rparr>" "length x = length (ac_buf a)" "length y = length (ac_buf b)"
    "terminated (ac_buf a) \<longrightarrow> terminated x" "terminated (ac_buf b) \<longrightarrow> terminated y"
    using assms unfolding printed_def by blast
  then show ?thesis unfolding printed_def by (intro exI[of _ y]) simp
qed

lemma memcpy_terminated:
  assumes "memcpy a i (s @ [NUL]) = Some a'"
  shows "length a' = length a" and "terminated a \<Longrightarrow> terminated a'"
proof -
  have len: "i + Suc (length s) \<le> length a" and a': "a' = take i a @ s @ NUL # drop (i + Suc (length s)) a"
    using assms by (auto simp: memcpy_def split: if_splits)
  show "length a' = length a" using len a' by simp
  show "terminated a'" if "terminated a"
    using that len a' by (cases "i + Suc (length s) = length a") (auto simp: terminated_def last_append)
qed

lemma printed_buf: "length a = length (ac_buf cmd) \<Longrightarrow> (terminated (ac_buf cmd) \<Longrightarrow> terminated a) \<Longrightarrow> printed cmd (cmd\<lparr>ac_buf := a\<rparr>)"
  unfolding printed_def by blast

lemma sprintf_printed: "sprintf_cmd cmd s = Some cmd' \<Longrightarrow> printed cmd cmd'"
proof -
  assume "sprintf_cmd cmd s = Some cmd'"
  then obtain a where a: "memcpy (ac_buf cmd) 0 (s @ [NUL]) = Some a" "cmd' = cmd\<lparr>ac_buf := a\<rparr>"
    by (auto simp: sprintf_cmd_def)
  show ?thesis unfolding a(2) by (rule printed_buf[OF memcpy_terminated(1)[OF a(1)] memcpy_terminated(2)[OF a(1)]])
qed

lemma strlcat_printed: "strlcat_cmd s cmd = Some cmd' \<Longrightarrow> printed cmd cmd'"
proof -
  assume c: "strlcat_cmd s cmd = Some cmd'"
  then obtain n a where a: "strlcat (ac_buf cmd) s (ac_buflen cmd) = Some (n, a)" "cmd' = cmd\<lparr>ac_buf := a\<rparr>"
    by (auto simp: strlcat_cmd_def)
  have "a = ac_buf cmd \<or> (\<exists>i t. memcpy (ac_buf cmd) i (t @ [NUL]) = Some a)"
    using a(1) by (auto simp: strlcat_def Let_def option_bind_Some_iff split: if_split_asm simp del: take_append)
  then have "length a = length (ac_buf cmd)" "terminated (ac_buf cmd) \<Longrightarrow> terminated a" using memcpy_terminated by blast+
  then show ?thesis unfolding a(2) by (rule printed_buf)
qed

lemma pin_printed: "pin_print b cmd = Some cmd' \<Longrightarrow> printed cmd cmd'"
proof -
  assume "pin_print b cmd = Some cmd'"
  then obtain pin c1 c2 where c: "strlcat_cmd pin cmd = Some c1" "strlcat_cmd [DQ] c2 = Some cmd'"
    and m: "(if int_at b 8 = 2 \<or> int_at b 8 = 7 then do {
              newpin \<leftarrow> str_at b 21;
              c1' \<leftarrow> strlcat_cmd ([DQ] @ '','' @ [DQ]) c1;
              strlcat_cmd newpin c1' }
            else Some c1) = Some c2"
    unfolding pin_print_def option_bind_Some_iff by blast
  have "printed c1 c2"
  proof (cases "int_at b 8 = 2 \<or> int_at b 8 = 7")
    case True
    then obtain newpin c1' where "strlcat_cmd ([DQ] @ '','' @ [DQ]) c1 = Some c1'" "strlcat_cmd newpin c1' = Some c2"
      using m by (auto simp: option_bind_Some_iff simp del: append.simps)
    then show ?thesis using strlcat_printed printed_trans by blast
  next
    case False
    then show ?thesis using m by simp
  qed
  with c show ?thesis using strlcat_printed printed_trans by blast
qed

text \<open>The command of a request is live and ready to be sent.\<close>

lemma filled:
  assumes "atcmd_fill t rlen cb ctx cid ct g = Some (Some cmd, g1)"
  shows "terminated (ac_buf cmd)" and "length (ac_buf cmd) = (if rlen > int (length t) then nat rlen else length t)"
proof -
  define n where "n = (if rlen > int (length t) then nat rlen else length t)"
  have "n \<noteq> 0" and buf: "ac_buf cmd = take (n - 1) t @ replicate (n - min (length t) (n - 1)) NUL"
    using assms unfolding atcmd_fill_def Let_def split_beta n_def[symmetric] by (auto split: if_splits)
  then have "length (ac_buf cmd) = n" "ac_buf cmd ! (n - 1) = NUL" using fill_buf[of n t] by simp_all
  then show "terminated (ac_buf cmd)" "length (ac_buf cmd) = (if rlen > int (length t) then nat rlen else length t)"
    using \<open>n \<noteq> 0\<close> unfolding n_def[symmetric] by (auto simp: terminated_def last_conv_nth)
qed

lemma printed_wf:
  assumes "printed cmd cmd'" and "cmd_wf cmd"
  shows "cmd_wf cmd'" and "terminated (ac_buf cmd')" and "length (ac_buf cmd') = length (ac_buf cmd)"
    and "ac_ctx cmd' = ac_ctx cmd" and "ac_cb cmd' = ac_cb cmd" and "ac_addr cmd' = ac_addr cmd"
proof -
  obtain a where a: "cmd' = cmd\<lparr>ac_buf := a\<rparr>" "length a = length (ac_buf cmd)" "terminated (ac_buf cmd) \<longrightarrow> terminated a"
    using assms(1) unfolding printed_def by blast
  have ne: "length (ac_buf cmd) \<noteq> 0" "ac_buf cmd ! (length (ac_buf cmd) - 1) = NUL" using assms(2) by (auto simp: cmd_wf_def)
  then have "terminated a" using a(3) by (auto simp: terminated_def last_conv_nth)
  then show "cmd_wf cmd'" "terminated (ac_buf cmd')" using a(1,2) assms(2) by (auto simp: cmd_wf_def terminated_def last_conv_nth)
  show "length (ac_buf cmd') = length (ac_buf cmd)" "ac_ctx cmd' = ac_ctx cmd" "ac_cb cmd' = ac_cb cmd" "ac_addr cmd' = ac_addr cmd"
    using a(1,2) by simp_all
qed

text \<open>Which callback and context a request may give its command.\<close>

definition req_ctx :: "gsmd \<Rightarrow> at_cb option \<Rightarrow> at_ctx \<Rightarrow> nat \<Rightarrow> bool" where
  "req_ctx g cb ctx n \<longleftrightarrow> ((\<exists>a \<in> set (user_addrs g). ctx = Ctx_user a) \<or> ctx = Ctx_gsmd \<and> cb = None) \<and>
     (cb = Some Network_vmail_cb \<longrightarrow> 7 < n)"

lemma req_live:
  assumes "req_ctx g (ac_cb cmd) (ac_ctx cmd) (length (ac_buf cmd))" and "terminated (ac_buf cmd)"
  shows "cmd_live g cmd"
proof -
  have "NUL \<in> set (ac_buf cmd)" using assms(2) last_in_set by (force simp: terminated_def)
  then show ?thesis using assms(1) by (auto simp: req_ctx_def live_for_def)
qed

lemma fresh_printed:
  assumes "atcmd_fill t (int rlen) cb ctx cid ct g = Some (Some cmd, g1)" and "printed cmd cmd'"
    and "rlen < 4294967296" and "length t < 4294967296" and "req_ctx g cb ctx (max rlen (length t))"
  shows "fresh_cmd g cmd' g1"
proof -
  note f = atcmd_fill_Some[OF assms(1)] filled[OF assms(1)]
  have wf: "cmd_wf cmd" using f(6) assms(3,4) by simp
  note p = printed_wf[OF assms(2) wf]
  have "length (ac_buf cmd') = max rlen (length t)" using p(3) f(8) by simp
  then have "cmd_live g cmd'" using assms(5) p f(3,4) by (intro req_live) simp_all
  then show ?thesis using p f(1,2) by (simp add: fresh_cmd_def)
qed

lemma fill_submit_req:
  assumes "\<And>cmd cmd'. pr cmd = Some cmd' \<Longrightarrow> printed cmd cmd'"
    and "rlen < 4294967296" and "length t < 4294967296" and "req_ctx g cb ctx (max rlen (length t))"
  shows "req g (fill_submit e t rlen cb ctx cid pr g)"
proof -
  have "queue_frame g g1" if "atcmd_fill t (int rlen) cb ctx cid Discard_timer g = Some (None, g1)" for g1
    using that by (auto simp: atcmd_fill_def Let_def split_beta talloc_eq queue_frame_def split: if_splits)
  moreover have "queue_frame g g'" if "atcmd_fill t (int rlen) cb ctx cid Discard_timer g = Some (Some cmd, g1)"
    "pr cmd = Some cmd'" "atcmd_submit cmd' g1 = Some (rc, g')" for cmd g1 cmd' rc g'
    using atcmd_submit_frame(1)[OF fresh_printed[OF that(1) assms(1)[OF that(2)] assms(2-4)] that(3)] .
  ultimately show ?thesis
    by (auto simp: req_def fill_submit_def option_bind_Some_iff split: option.splits)
qed

lemma submit_unchecked_req:
  assumes "rlen < 4294967296" and "length t < 4294967296" and "req_ctx g cb (Ctx_user gu) (max rlen (length t))"
  shows "req g (submit_unchecked t rlen cb gu cid g)"
  using atcmd_submit_frame(1)[OF fresh_printed[OF _ printed_refl assms]]
  by (auto simp: req_def submit_unchecked_def option_bind_Some_iff)

section \<open>The requests\<close>

lemma str_at_length: "str_at b i = Some s \<Longrightarrow> length b = 1024 \<Longrightarrow> length s \<le> 1024"
  using length_cstr_le[of "drop i b"] by (auto simp: str_at_def cstr_of_array_def split: if_splits)

lemma sprintf_local_length: "sprintf_local n t = Some s \<Longrightarrow> s = t \<and> length t < n"
  by (simp add: sprintf_local_def split: if_splits)

text \<open>A request of the client \<open>gu\<close>, which is connected.\<close>

lemma cmd_plain_req [req_rules]:
  assumes "gu \<in> set (user_addrs g)" and "rlen < 4294967296" and "length t < 4294967296"
    and "cb = Some Network_vmail_cb \<Longrightarrow> 7 < max rlen (length t)"
  shows "req g (fill_submit e t rlen cb (Ctx_user gu) cid Some g)"
  using assms by (intro fill_submit_req) (auto simp: req_ctx_def)

lemma cmd_print_req [req_rules]:
  assumes "gu \<in> set (user_addrs g)" and "rlen < 4294967296" and "length t < 4294967296" and "cb \<noteq> Some Network_vmail_cb"
  shows "req g (cmd_print t rlen s cb gu cid g)"
  using assms by (intro fill_submit_req sprintf_printed) (auto simp: req_ctx_def)

lemma unchecked_req [req_rules]:
  assumes "gu \<in> set (user_addrs g)" and "rlen < 4294967296" and "length t < 4294967296" and "cb \<noteq> Some Network_vmail_cb"
  shows "req g (submit_unchecked t rlen cb gu cid g)"
  using assms by (intro submit_unchecked_req) (auto simp: req_ctx_def)

lemma network_print_req [req_rules]:
  "gu \<in> set (user_addrs g) \<Longrightarrow> (cb = Network_vmail_cb \<Longrightarrow> 7 < length t) \<Longrightarrow> req g (network_print t cb gu g)"
  unfolding network_print_def by (intro req_rules) (auto dest!: sprintf_local_length)

lemma network_format_req [req_rules]:
  "gu \<in> set (user_addrs g) \<Longrightarrow> length fmt < 100 \<Longrightarrow> length t < 100 \<Longrightarrow> cb \<noteq> Network_vmail_cb \<Longrightarrow> req g (network_format fmt t cb gu g)"
  unfolding network_format_def by (intro req_seq req_rules) auto

lemma ccfc_req [req_rules]: "gu \<in> set (user_addrs g) \<Longrightarrow> cb \<noteq> Network_vmail_cb \<Longrightarrow> req g (ccfc cb arg gu b g)"
  unfolding ccfc_def by (intro req_rules) (auto dest!: sprintf_local_length)

lemma phonebook_print_req [req_rules]:
  "gu \<in> set (user_addrs g) \<Longrightarrow> length t < 100 \<Longrightarrow> cb \<noteq> Network_vmail_cb \<Longrightarrow> req g (phonebook_print t arg cb gu b g)"
  unfolding phonebook_print_def by (intro req_rules) (auto dest!: sprintf_local_length)

lemma sms_print_req [req_rules]:
  "gu \<in> set (user_addrs g) \<Longrightarrow> cb \<noteq> Some Network_vmail_cb \<Longrightarrow> req g (sms_print t cb gu b g)"
  unfolding sms_print_def by (intro req_rules) (auto dest!: sprintf_local_length)

lemma passthrough_req [req_rules]:
  "gu \<in> set (user_addrs g) \<Longrightarrow> length b = 1024 \<Longrightarrow> req g (usock_rcv_passthrough gu b len g)"
  unfolding usock_rcv_passthrough_def using gph_len_less[of b]
  by (intro req_rules) (auto dest: str_at_length)

lemma event_req [req_rules]: "req g (usock_rcv_event gu b len g)"
proof -
  have "queue_frame g g'" if "upd_user gu (\<lambda>u. u\<lparr>gu_subscriptions := x\<rparr>) g = Some g'" for x g'
    using upd_user_frame[OF that] cb_frame_queue by simp
  then show ?thesis by (auto simp: usock_rcv_event_def req_def)
qed

lemma network_req [req_rules]: "gu \<in> set (user_addrs g) \<Longrightarrow> req g (usock_rcv_network gu b len g)"
  unfolding usock_rcv_network_def Let_def by (intro req_rules) auto

lemma phonebook_req [req_rules]:
  "gu \<in> set (user_addrs g) \<Longrightarrow> length b = 1024 \<Longrightarrow> req g (usock_rcv_phonebook gu b len g)"
  unfolding usock_rcv_phonebook_def phonebook_write_def Let_def by (intro req_rules) (auto dest: str_at_length)

lemma sms_req [req_rules]: "gu \<in> set (user_addrs g) \<Longrightarrow> req g (usock_rcv_sms gu b len g)"
  unfolding usock_rcv_sms_def Let_def by (intro req_rules) auto

lemma cb_req [req_rules]: "req g (usock_rcv_cb gu b len g)"
  unfolding usock_rcv_cb_def by (intro req_rules fill_submit_req) (auto simp: req_ctx_def)

lemma pin_req [req_rules]: "gu \<in> set (user_addrs g) \<Longrightarrow> req g (usock_rcv_pin gu b len g)"
  unfolding usock_rcv_pin_def
  by (intro req_rules fill_submit_req pin_printed) (auto simp: req_ctx_def GSMD_PIN_MAXLEN_def)

lemma req_dev_state:
  "req (g\<lparr>g_dev_state := d\<rparr>) m \<Longrightarrow> ds_ring_check d = ds_ring_check (g_dev_state g) \<Longrightarrow> req g m"
  by (auto simp: req_def queue_frame_def)

lemma phone_req [req_rules]: "gu \<in> set (user_addrs g) \<Longrightarrow> req g (usock_rcv_phone gu b len g)"
proof -
  assume u: "gu \<in> set (user_addrs g)"
  have imsi: "req g (gsmd_ucmd_submit gu ty sub cid n d g)" for ty sub cid n d
    using gsmd_ucmd_submit_frame cb_frame_queue by (auto simp: req_def)
  have off: "req g (cmd_plain t rlen cb gu cid (g\<lparr>g_dev_state := d\<rparr>))"
    if "ds_ring_check d = ds_ring_check (g_dev_state g)" "rlen < 100" "length t < 100" "cb \<noteq> Some Network_vmail_cb" for t rlen cb cid d
    using u that by (intro req_dev_state[where d = d and g = g] req_rules) auto
  show ?thesis unfolding usock_rcv_phone_def Let_def
    by (intro req_rules imsi off u) auto
qed

lemma modem_req [req_rules]: "req g (usock_rcv_modem gu b len g)"
proof -
  have "req g (power_off t n g)" if "length t < 100" for t n
  proof -
    have "queue_frame g (wake_if_idle (add_pending_tail cmd g1))"
      if "atcmd_fill t 8 None Ctx_gsmd 0 Poweroff_timer g = Some (Some cmd, g1)" for cmd g1
    proof -
      have "fresh_cmd g cmd g1" using that \<open>length t < 100\<close> by (intro atcmd_fill_fresh_daemon[OF that]) auto
      from queue_frame_trans[OF add_pending_frame[OF this queue_frame_refl] wake_if_idle_frame] show ?thesis .
    qed
    moreover have "queue_frame g g1" if "atcmd_fill t 8 None Ctx_gsmd 0 Poweroff_timer g = Some (None, g1)" for g1
      using that by (auto simp: atcmd_fill_def Let_def split_beta talloc_eq queue_frame_def split: if_splits)
    ultimately show ?thesis by (auto simp: power_off_def req_def option_bind_Some_iff split: option.splits)
  qed
  then have "req g (case g_machinepl g of Machine_gta01 \<Rightarrow> gta01_power n g | Machine_telit \<Rightarrow> telit_power n g | _ \<Rightarrow> Some (0, g))" for n
    by (simp add: gta01_power_def telit_power_def req_ret split: machine.split)
  then show ?thesis unfolding usock_rcv_modem_def by (intro req_seq req_rules)
qed

text \<open>Everything a client can say about calls, but hanging up.\<close>

lemma voicecall_req [req_rules]:
  assumes "gu \<in> set (user_addrs g)" and "length b = 1024" and "gph_msg_subtype b \<noteq> 2"
  shows "req g (usock_rcv_voicecall gu b len g)"
proof -
  have dial: "req g (voicecall_dial gu b len g)"
    unfolding voicecall_dial_def Let_def using assms(1,2) by (intro req_rules) (auto dest: str_at_length)
  have ctrl: "req g (voicecall_ctrl gu b len g)"
  proof -
    have "req g (do {
        (c, g1) \<leftarrow> atcmd_fill ''AT+CHLD='' 11 (Some Voicecall_ctrl_cb) (Ctx_user gu) (gph_id b) Discard_timer g;
        case c of None \<Rightarrow> Some (- ENOMEM, g1)
        | Some cmd \<Rightarrow> (case t of None \<Rightarrow> Some (- EINVAL, g1)
            | Some s \<Rightarrow> do { cmd' \<leftarrow> sprintf_cmd cmd s; atcmd_submit cmd' g1 }) })" for t
    proof (cases t)
      case None
      have "queue_frame g g1" if "atcmd_fill ''AT+CHLD='' 11 (Some Voicecall_ctrl_cb) (Ctx_user gu) (gph_id b) Discard_timer g = Some (c, g1)" for c g1
        using that by (auto simp: atcmd_fill_def Let_def split_beta talloc_eq queue_frame_def split: if_splits)
      then show ?thesis using None by (auto simp: req_def option_bind_Some_iff split: option.splits)
    next
      case (Some s)
      from cmd_print_req[OF assms(1), of 11 "''AT+CHLD=''" "Some Voicecall_ctrl_cb" "gph_id b" s]
      show ?thesis unfolding Some option.case by (simp add: fill_submit_def)
    qed
    then show ?thesis unfolding voicecall_ctrl_def by (intro req_rules) simp
  qed
  show ?thesis
    unfolding usock_rcv_voicecall_def voicecall_fwd_def voicecall_fwd_reg_def voicecall_dtmf_def Let_def
    using assms by (intro req_rules dial ctrl) auto
qed

section \<open>Any request keeps the invariant\<close>

lemma dinv_cancel:
  assumes inv: "daemon_inv g" and fresh: "fresh_cmd g cmd g1" and d: "cancel_atcmd run_cb cmd g1 = Some (rc, g')"
  shows "daemon_inv g'"
proof (cases "g_busy_atcmds g1")
  case Nil
  then have "atcmd_submit cmd g1 = Some (rc, g')" using d by (simp add: cancel_atcmd_def)
  from dinv_queue[OF atcmd_submit_frame(1)[OF fresh this] inv] show ?thesis .
next
  case (Cons cur rest)
  let ?g2 = "g1\<lparr>g_mlbuf_len := 0, g_pending_atcmds := cmd # g_pending_atcmds g1\<rparr>"
  have g1: "g1 = g\<lparr>g_talloc_fails := tl (g_talloc_fails g), g_next_addr := g_next_addr g + 1\<rparr>"
    using fresh by (simp add: fresh_cmd_def talloc_eq)
  have "at_inv g" using inv by (simp add: daemon_inv_def)
  from at_inv_push[OF this fresh] have "daemon_inv ?g2"
    using inv by (simp add: daemon_invs) (simp add: g1)
  moreover have "atcmd_done run_cb cur ''ERROR'' ?g2 = Some (rc, g')" using d Cons by (simp add: cancel_atcmd_def Let_def)
  ultimately show ?thesis using dinv_done[of ?g2 cur rest] Cons by simp
qed

lemma dinv_hangup:
  assumes inv: "daemon_inv g" and u: "gu \<in> set (user_addrs g)" and h: "voicecall_hangup gu b g = Some (rc, g')"
  shows "daemon_inv g'"
proof -
  define cb where "cb = (if ds_ringing (g_dev_state g) then Usock_ringing_cb else Usock_cmd_cb)"
  obtain c g1 where f: "atcmd_fill ''ATH'' 4 (Some cb) (Ctx_user gu) (gph_id b) Discard_timer g = Some (c, g1)"
    and k: "(case c of None \<Rightarrow> Some (- ENOMEM, g1) | Some cmd \<Rightarrow> cancel_atcmd run_cb cmd g1) = Some (rc, g')"
    using h by (auto simp: voicecall_hangup_def cb_def[symmetric] option_bind_Some_iff)
  show ?thesis
  proof (cases c)
    case None
    then have "queue_frame g g'" using f k by (auto simp: atcmd_fill_def Let_def split_beta talloc_eq queue_frame_def split: if_splits)
    then show ?thesis using inv by (rule dinv_queue)
  next
    case (Some cmd)
    have "req_ctx g (Some cb) (Ctx_user gu) n" for n using u by (auto simp: req_ctx_def cb_def)
    then have "fresh_cmd g cmd g1" using fresh_printed[of "''ATH''" 4 "Some cb" "Ctx_user gu" "gph_id b" Discard_timer g cmd g1 cmd] f Some by simp
    then show ?thesis using dinv_cancel[OF inv] k Some by simp
  qed
qed

lemma dinv_request:
  assumes inv: "daemon_inv g" and u: "gu \<in> set (user_addrs g)" and b: "length b = 1024"
    and r: "usock_rcv_pcmd gu b len g = Some (rc, g')"
  shows "daemon_inv g'"
proof (cases "gph_version b = 1 \<and> gph_msg_type b = 3 \<and> gph_msg_subtype b = 2")
  case True
  then have "voicecall_hangup gu b g = Some (rc, g')" using r by (simp add: usock_rcv_pcmd_def usock_rcv_voicecall_def)
  then show ?thesis by (rule dinv_hangup[OF inv u])
next
  case False
  have "req g (usock_rcv_pcmd gu b len g)"
  proof (cases "gph_version b = 1 \<and> gph_msg_type b = 3")
    case True
    then show ?thesis using False voicecall_req[OF u b] by (simp add: usock_rcv_pcmd_def Let_def)
  next
    case False
    then show ?thesis using u b unfolding usock_rcv_pcmd_def Let_def
      by (auto intro!: req_ret event_req passthrough_req phonebook_req network_req phone_req pin_req sms_req cb_req modem_req)
  qed
  from dinv_queue[OF reqD[OF this r] inv] show ?thesis .
qed

end
