(* ===== verification/Total.thy ===== *)
theory Total
  imports Daemon
begin

text \<open>
  The callbacks return: with the texts that the daemon itself ends a command with, \<open>ERROR\<close> and
  \<open>Timeout\<close>, no callback faults as long as the command is live.
\<close>

section \<open>The callbacks return\<close>

lemma reply_total:
  assumes "cmd_live g cmd" and "of_user cmd"
  shows "\<exists>rc g'. reply cmd ty sub len d g = Some (rc, g')"
proof -
  obtain a where a: "ac_ctx cmd = Ctx_user a" using assms(2) by (auto simp: of_user_def split: at_ctx.splits)
  then have "a \<in> gu_addr ` set (g_users g)" using assms(1) by (auto simp: live_for_def)
  then show ?thesis using a
    by (auto simp: reply_def ctx_user_def gsmd_ucmd_submit_def usock_cmd_enqueue_def upd_user_def talloc_def Let_def split: list.split)
qed

text \<open>The texts have no tokens, and no scan gets beyond the sign in front of a response.\<close>

definition ending :: "string \<Rightarrow> bool" where
  "ending r \<longleftrightarrow> r = ''ERROR'' \<or> r = ''Timeout''"

lemma ending_tokens:
  "map_option (map_option num_tokens) (extrsp_parse True (Some ''ERROR'')) = Some (Some 0)"
  "map_option (map_option num_tokens) (extrsp_parse True (Some ''Timeout'')) = Some (Some 0)"
  "extrsp_parse False (Some ''ERROR'') = Some None" "extrsp_parse False (Some ''Timeout'') = Some None"
  by code_simp+

lemma er_parse_ending:
  assumes "ending r"
  obtains g1 where "er_parse (P_str r) g = Some (None, g1)"
  | er g1 where "er_parse (P_str r) g = Some (Some er, g1)" and "num_tokens er = 0" and "g_users g1 = g_users g"
proof (cases "fst (talloc g)")
  case False
  then show thesis using that(1)[of "snd (talloc g)"] ending_tokens(3,4) assms by (auto simp: er_parse_def split_beta ending_def)
next
  case True
  obtain er where er: "extrsp_parse True (Some r) = Some (Some er)" "num_tokens er = 0"
    using ending_tokens(1,2) assms by (auto simp: ending_def map_option_case split: option.splits)
  from that(2)[of er "snd (talloc g)"] True er assms show thesis
    by (auto simp: er_parse_def split_beta talloc_eq ending_def)
qed

lemma plus_lits: "lits (CHR ''+'' # s) = Lit CHR ''+'' # lits s"
  by (simp add: lits_def isspace_def ord_c_def)

lemma sscanf_ending: "ending r \<Longrightarrow> sscanf (lits (CHR ''+'' # s) @ fs) r 0 = []" "ending r \<Longrightarrow> sscanf (lits (CHR ''+'' # s)) r 0 = []"
  by (auto simp: ending_def plus_lits)

lemma strncmp_ending:
  "ending r \<Longrightarrow> 0 < n \<Longrightarrow> \<not> strncmp_eq r (CHR ''+'' # s) n" "ending r \<Longrightarrow> \<not> strncmp_eq r ''OK'' 2"
  by (auto simp: ending_def strncmp_eq_def take_Cons' split: if_splits)

lemmas cb_defs = usock_cmd_cb_def usock_ringing_cb_def voicecall_ctrl_cb_def reply_ret_def reply_text_def
  pin_cmd_cb_def get_cpin_cb_def phone_powerup_cb_def phone_powerdown_cb_def phone_power_status_cb_def
  phone_get_manuf_cb_def phone_get_model_cb_def phone_get_revision_cb_def phone_get_serial_cb_def
  phone_vibrator_enable_cb_def phone_vibrator_disable_cb_def network_query_reg_cb_def network_opers_cb_def
  network_opers_parse_def phonebook_write_cb_def phonebook_delete_cb_def sms_delete_cb_def

lemmas er_cb_defs = voicecall_get_stat_cb_def voicecall_fwd_stat_cb_def phone_get_battery_cb_def network_oper_n_cb_def
  phonebook_entry_cb_def phonebook_find_cb_def phonebook_read_cb_def phonebook_readrg_cb_def

lemma er_cb_total:
  assumes "cmd_live g cmd" and "of_user cmd" and "ending r"
  shows "\<exists>rc g'. voicecall_get_stat_cb cmd r g = Some (rc, g')" "\<exists>rc g'. voicecall_fwd_stat_cb cmd r g = Some (rc, g')"
    "\<exists>rc g'. phone_get_battery_cb cmd r g = Some (rc, g')" "\<exists>rc g'. network_oper_n_cb cmd r g = Some (rc, g')"
    "\<exists>rc g'. phonebook_find_cb cmd r g = Some (rc, g')" "\<exists>rc g'. phonebook_read_cb cmd r g = Some (rc, g')"
    "\<exists>rc g'. phonebook_readrg_cb cmd r g = Some (rc, g')"
  by (rule er_parse_ending[OF assms(3), of g]; use assms(1,2) reply_total assms(3)[unfolded ending_def] in
      \<open>force simp: er_cb_defs strncmp_eq_def\<close>)+

lemma scan_cb_total:
  assumes "cmd_live g cmd" and "of_user cmd" and "ending r"
  shows "\<exists>rc g'. network_sigq_cb cmd r g = Some (rc, g')" "\<exists>rc g'. network_oper_cb cmd r g = Some (rc, g')"
    "\<exists>rc g'. phonebook_get_support_cb cmd r g = Some (rc, g')" "\<exists>rc g'. phonebook_list_storage_cb cmd r g = Some (rc, g')"
    "\<exists>rc g'. usock_cpms_cb cmd r g = Some (rc, g')" "\<exists>rc g'. usock_get_smsc_cb cmd r g = Some (rc, g')"
    "\<exists>rc g'. network_pref_opers_cb cmd r g = Some (rc, g')" "\<exists>rc g'. network_pref_num_cb cmd r g = Some (rc, g')"
    "\<exists>rc g'. network_ownnumbers_cb cmd r g = Some (rc, g')"
    "\<exists>rc g'. sms_list_cb cmd r g = Some (rc, g')" "\<exists>rc g'. sms_read_cb cmd r g = Some (rc, g')"
    "\<exists>rc g'. sms_send_cb cmd r g = Some (rc, g')" "\<exists>rc g'. sms_write_cb cmd r g = Some (rc, g')"
proof -
  note sc = sscanf_ending[OF assms(3)]
  note rt = reply_total[OF assms(1,2)]
  show "\<exists>rc g'. network_sigq_cb cmd r g = Some (rc, g')" using assms(3) by (auto simp: network_sigq_cb_def ending_def)
  show "\<exists>rc g'. network_oper_cb cmd r g = Some (rc, g')" using rt by (simp add: network_oper_cb_def sc)
  show "\<exists>rc g'. phonebook_get_support_cb cmd r g = Some (rc, g')" using assms(3) by (auto simp: phonebook_get_support_cb_def ending_def)
  show "\<exists>rc g'. phonebook_list_storage_cb cmd r g = Some (rc, g')"
    using rt assms(3) by (auto simp: phonebook_list_storage_cb_def strncmp_eq_def ending_def)
  show "\<exists>rc g'. usock_cpms_cb cmd r g = Some (rc, g')"
    by (simp add: usock_cpms_cb_def cpms_format_def sc split_beta Let_def)
  show "\<exists>rc g'. usock_get_smsc_cb cmd r g = Some (rc, g')" by (simp add: usock_get_smsc_cb_def sc)
  show "\<exists>rc g'. network_pref_opers_cb cmd r g = Some (rc, g')" by (simp add: network_pref_opers_cb_def sc)
  show "\<exists>rc g'. network_pref_num_cb cmd r g = Some (rc, g')" by (simp add: network_pref_num_cb_def sc)
  show "\<exists>rc g'. network_ownnumbers_cb cmd r g = Some (rc, g')"
    by (simp add: network_ownnumbers_cb_def cnum_name_def sc own_number_def split_beta Let_def sizeof_gsmd_own_number_def)
  show "\<exists>rc g'. sms_list_cb cmd r g = Some (rc, g')" by (simp add: sms_list_cb_def cmgl_fields_def cmgl_plain_def cmgl_alpha_def sc)
  show "\<exists>rc g'. sms_read_cb cmd r g = Some (rc, g')" by (simp add: sms_read_cb_def cmgr_fields_def cmgr_plain_def cmgr_alpha_def sc)
  show "\<exists>rc g'. sms_send_cb cmd r g = Some (rc, g')" using rt by (simp add: sms_send_cb_def)
  show "\<exists>rc g'. sms_write_cb cmd r g = Some (rc, g')" using rt by (simp add: sms_write_cb_def)
qed

lemma vmail_cb_total:
  assumes "cmd_live g cmd" and "of_user cmd" and "7 < length (ac_buf cmd)" and "ending r"
  shows "\<exists>rc g'. network_vmail_cb cmd r g = Some (rc, g')"
  using reply_total[OF assms(1,2)] assms(3,4) by (auto simp: network_vmail_cb_def reply_ret_def strncmp_eq_def ending_def)

lemma user_cb_total:
  assumes live: "cmd_live g cmd" "of_user cmd" and cb: "ac_cb cmd = Some cb" "user_cb cb \<or> cb = Null_cmd_cb" and r: "ending r"
  shows "\<exists>rc g'. run_cb cb cmd r g = Some (rc, g')"
proof -
  have vm: "cb = Network_vmail_cb \<Longrightarrow> 7 < length (ac_buf cmd)" using live(1) cb(1) by (simp add: live_for_def)
  have ds: "\<exists>rc g'. reply cmd ty sub len d (g\<lparr>g_dev_state := ds\<rparr>) = Some (rc, g')" for ty sub len d ds
    using reply_total[of "g\<lparr>g_dev_state := ds\<rparr>" cmd] live by simp
  show ?thesis
    using reply_total[OF live] ds er_cb_total[OF live r] scan_cb_total[OF live r] vmail_cb_total[OF live vm r] cb(2)
    by (cases cb) (simp_all add: user_cb_def cb_defs strncmp_ending[OF r] Let_def)
qed

section \<open>The daemon's own commands\<close>

text \<open>As long as no allocation fails, initialising the modem runs through.\<close>

abbreviation no_fail :: "gsmd \<Rightarrow> bool" where
  "no_fail g \<equiv> g_talloc_fails g = []"

definition runs :: "(int \<times> gsmd) option \<Rightarrow> bool" where
  "runs m \<longleftrightarrow> (\<exists>rc g'. m = Some (rc, g') \<and> no_fail g')"

named_theorems run_rules

lemma runs_ret [run_rules]: "no_fail g \<Longrightarrow> runs (Some (rc, g))"
  by (simp add: runs_def)

lemma runs_if [run_rules]: "runs m \<Longrightarrow> runs m' \<Longrightarrow> runs (if b then m else m')"
  by simp

lemma runs_seq: "runs m \<Longrightarrow> (\<And>r g1. no_fail g1 \<Longrightarrow> runs (f r g1)) \<Longrightarrow> runs (do { (r, g1) \<leftarrow> m; f r g1 })"
  by (auto simp: runs_def)

lemma no_fail_queue [simp]: "no_fail (wake_if_idle (add_pending_tail cmd g)) = no_fail g"
  by (simp add: wake_if_idle_def add_pending_tail_def atcmd_wake_pending_queue_def)

lemma fill_total:
  assumes "no_fail g" and "0 < rlen"
  shows "\<exists>cmd. atcmd_fill t rlen cb ctx cid ct g = Some (Some cmd, g\<lparr>g_next_addr := g_next_addr g + 1\<rparr>)"
proof -
  have "(if rlen > int (length t) then nat rlen else length t) \<noteq> 0" using assms(2) by auto
  then show ?thesis using assms(1) by (simp add: atcmd_fill_def Let_def)
qed

lemma submit_runs [run_rules]:
  assumes "no_fail g"
  shows "runs (atcmd_submit cmd g)"
proof -
  obtain w where "atcmd_fill ('' '' @ [CR]) 2 (Some Null_wakeup_cb) Ctx_gsmd 0 Wakeup_timer g =
      Some (Some w, g\<lparr>g_next_addr := g_next_addr g + 1\<rparr>)"
    using fill_total[OF assms, of 2] by fastforce
  then have "\<exists>g1. ex_submit g = Some g1 \<and> no_fail g1"
    using assms by (cases "g_machinepl g") (simp_all add: ex_submit_def atcmd_wakeup_modem_def)
  then show ?thesis by (auto simp: atcmd_submit_def runs_def)
qed

lemma fill_submit_runs [run_rules]:
  assumes "no_fail g" and "0 < rlen"
  shows "runs (do { (c, g1) \<leftarrow> atcmd_fill t rlen cb ctx cid ct g; case c of None \<Rightarrow> Some (e, g1) | Some cmd \<Rightarrow> atcmd_submit cmd g1 })"
proof -
  obtain cmd where "atcmd_fill t rlen cb ctx cid ct g = Some (Some cmd, g\<lparr>g_next_addr := g_next_addr g + 1\<rparr>)"
    using fill_total[OF assms] by blast
  then show ?thesis using submit_runs[of "g\<lparr>g_next_addr := g_next_addr g + 1\<rparr>" cmd] assms(1) by simp
qed

lemma cmd_runs [run_rules]:
  "no_fail g \<Longrightarrow> runs (gsmd_simplecmd t g)" "no_fail g \<Longrightarrow> runs (submit_plain t cb g)"
  by (simp_all add: gsmd_simplecmd_def submit_plain_def fill_submit_runs)

lemma simplecmds_runs [run_rules]: "no_fail g \<Longrightarrow> runs (simplecmds cs (rc, g))"
  by (induction cs arbitrary: rc g) (auto intro!: run_rules runs_seq)

lemma cpi_runs [run_rules]: "no_fail g \<Longrightarrow> runs (with_cpi_query cs g)"
  unfolding with_cpi_query_def query_cpi_def
proof (intro runs_seq simplecmds_runs, assumption)
  fix g1 :: gsmd and rc :: int assume "no_fail g1"
  from cmd_runs(2)[OF this, of "''AT%CPI=?''" "Some Cpi_detect_cb"]
  show "runs (do { g2 \<leftarrow> map_option snd (submit_plain ''AT%CPI=?'' (Some Cpi_detect_cb) g1); Some (rc, g2) })"
    by (auto simp: runs_def)
qed

lemma plugin_runs [run_rules]: "no_fail g \<Longrightarrow> runs (vendor_initsettings v g)" "no_fail g \<Longrightarrow> runs (machine_initsettings m g)"
  by (cases v; cases m; auto simp: ticalypso_initsettings_def tihtc_initsettings_def bcm_initsettings_def qc_initsettings_def
      telit_initsettings_def machine_initsettings_def gta01_initsettings_def simp del: simplecmds.simps intro!: run_rules)+

lemma sms_init_runs [run_rules]: "no_fail g \<Longrightarrow> runs (sms_cb_init g)"
  unfolding sms_cb_init_def Let_def unsolicited_register_array_def
  by (intro runs_seq run_rules) (simp_all add: unsolicited_register_array_def)

lemma initsettings_runs: "no_fail g \<Longrightarrow> runs (gsmd_initsettings2 g)"
  unfolding gsmd_initsettings2_def
proof (intro runs_seq simplecmds_runs, assumption)
  fix g :: gsmd and r assume g: "no_fail g"
  obtain cmd where c: "atcmd_fill ''AT+CIMI'' 8 (Some Gsmd_get_imsi_cb) Ctx_gsmd 0 Discard_timer g =
      Some (Some cmd, g\<lparr>g_next_addr := g_next_addr g + 1\<rparr>)"
    using fill_total[OF g, of 8] by fastforce
  obtain g2 where g2: "submit_imsi g = Some g2" "no_fail g2"
    using submit_runs[of "g\<lparr>g_next_addr := g_next_addr g + 1\<rparr>" cmd] c g by (auto simp: submit_imsi_def runs_def)
  have "runs (do { (_, g3) \<leftarrow> sms_cb_init g2; (rv, g4) \<leftarrow> vendor_initsettings (g_vendorpl g3) g3;
      (rm, g5) \<leftarrow> machine_initsettings (g_machinepl g4) g4; Some (r OR rv OR rm, g5) })"
    by (intro runs_seq run_rules g2)
  then show "runs (do { g2 \<leftarrow> submit_imsi g; (_, g3) \<leftarrow> sms_cb_init g2; (rv, g4) \<leftarrow> vendor_initsettings (g_vendorpl g3) g3;
      (rm, g5) \<leftarrow> machine_initsettings (g_machinepl g4) g4; Some (r OR rv OR rm, g5) })"
    using g2(1) by simp
qed

text \<open>Every callback returns when its command is given up.\<close>

lemma run_cb_ending:
  assumes live: "cmd_live g cmd" and cb: "ac_cb cmd = Some cb" and g: "no_fail g" "length (g_imsi g) = 16" and r: "ending r"
  shows "\<exists>rc g'. run_cb cb cmd r g = Some (rc, g')"
proof (cases "user_cb cb")
  case True
  then have "of_user cmd" using live cb by (auto simp: live_for_def of_user_def)
  then show ?thesis using user_cb_total live cb True r by blast
next
  case False
  have "\<not> strncmp_eq r ''%CPI: '' 6" using r by (auto simp: ending_def strncmp_eq_def)
  moreover have "\<exists>n a. strlcpy (g_imsi g) r 16 = Some (n, a)" using r g(2) by (auto simp: ending_def strlcpy_eval)
  ultimately show ?thesis using False initsettings_runs[OF g(1)]
    by (cases cb) (auto simp: user_cb_def gsmd_alive_cb_def gsmd_get_imsi_cb_def firstcmd_atcb_def cpi_detect_cb_def runs_def)
qed

end
