(* ===== verification/Leave.thy ===== *)
theory Leave
  imports UsockInv Stream Total
begin

text \<open>
  A client that goes away: \<open>atcmd_terminate_matching\<close> ends its commands, and afterwards
  nothing in the daemon refers to the client any more.
\<close>

section \<open>What ending commands leaves alone\<close>

definition rest_frame :: "gsmd \<Rightarrow> gsmd \<Rightarrow> bool" where
  "rest_frame g g' \<longleftrightarrow> user_addrs g' = user_addrs g \<and> g_timers g' = g_timers g \<and>
     g_mlbuf g' = g_mlbuf g \<and> g_mlbuf_len g' = g_mlbuf_len g \<and>
     map ac_timeout (g_busy_atcmds g') = map ac_timeout (g_busy_atcmds g) \<and>
     ds_ring_check (g_dev_state g') = ds_ring_check (g_dev_state g) \<and>
     length (g_imsi g') = length (g_imsi g) \<and> llp_frame (g_llp g) (g_llp g')"

lemma rest_frame_refl [simp]: "rest_frame g g"
  by (simp add: rest_frame_def)

lemma rest_frame_trans: "rest_frame a b \<Longrightarrow> rest_frame b c \<Longrightarrow> rest_frame a c"
  by (auto simp: rest_frame_def intro: llp_frame_trans)

lemma cb_frame_rest: "cb_frame g g' \<Longrightarrow> rest_frame g g'"
  by (auto simp: cb_frame_defs rest_frame_def)

lemma dinv_rest: "daemon_inv g \<Longrightarrow> rest_frame g g' \<Longrightarrow> at_inv g' \<Longrightarrow> daemon_inv g'"
proof -
  assume a: "daemon_inv g" "rest_frame g g'" "at_inv g'"
  have "ac_timeout ` set (g_busy_atcmds g') = ac_timeout ` set (g_busy_atcmds g)"
    using a(2) by (metis list.set_map rest_frame_def)
  then have "ring_wf g'" using a(1,2) by (auto simp: daemon_inv_def ring_wf_def rest_frame_def image_iff) (metis image_iff)
  with a show ?thesis using llp_wf_frame[of "g_llp g" "g_llp g'"] by (auto simp: daemon_inv_def ml_wf_def rest_frame_def)
qed

lemma at_inv_remove: "at_inv g \<Longrightarrow> at_inv (g\<lparr>g_pending_atcmds := filter P (g_pending_atcmds g)\<rparr>)"
  by (auto simp: at_inv_def at_wf_def single_flight_def want_write_def distinct_map_filter)

lemma cmd_at_suffix: "ac_addr c \<notin> ac_addr ` set dn \<Longrightarrow> cmd_at (ac_addr c) (dn @ c # todo) = Some (c, first_addr todo)"
proof -
  assume "ac_addr c \<notin> ac_addr ` set dn"
  then have "dropWhile (\<lambda>x. ac_addr x \<noteq> ac_addr c) (dn @ c # todo) = c # todo"
    by (subst dropWhile_append2) (auto simp: image_iff)
  then show ?thesis by (cases todo) (simp_all add: cmd_at_def first_addr_def)
qed

lemma filter_suffix:
  "distinct (map ac_addr (dn @ c # todo)) \<Longrightarrow> filter (\<lambda>x. ac_addr x \<noteq> ac_addr c) (dn @ c # todo) = dn @ todo"
proof -
  assume "distinct (map ac_addr (dn @ c # todo))"
  then have "\<forall>x \<in> set (dn @ todo). ac_addr x \<noteq> ac_addr c" by (auto simp: image_iff)
  then show ?thesis by (simp add: filter_id_conv)
qed

lemma first_addr_append: "todo \<noteq> [] \<Longrightarrow> first_addr (todo @ xs) = first_addr todo"
  by (cases todo) (simp_all add: first_addr_def)

text \<open>New commands of a callback belong to no client.\<close>

lemma cb_frame_new:
  assumes "cb_frame g g'"
  obtains new where "g_pending_atcmds g' = g_pending_atcmds g @ new" and "\<forall>c \<in> set new. ac_ctx c \<noteq> Ctx_user a"
proof -
  obtain new where n: "g_pending_atcmds g' = g_pending_atcmds g @ new" using assms by (auto simp: cb_frame_defs)
  then have "filter of_user new = []" using assms by (simp add: cb_frame_def user_cmds_def)
  then have "\<forall>c \<in> set new. ac_ctx c \<noteq> Ctx_user a" by (auto simp: filter_empty_conv of_user_def)
  with n show thesis by (rule that)
qed

section \<open>Ending the commands of a client\<close>

definition gone :: "nat \<Rightarrow> gsmd \<Rightarrow> gsmd \<Rightarrow> bool" where
  "gone a g g' \<longleftrightarrow> at_inv g' \<and> rest_frame g g' \<and> g_busy_atcmds g' = g_busy_atcmds g \<and>
     (\<forall>c \<in> set (g_pending_atcmds g'). ac_ctx c \<noteq> Ctx_user a)"

text \<open>The callbacks that a request of a client can give its command.\<close>

definition client_cb :: "gsmd_atcmd \<Rightarrow> bool" where
  "client_cb cmd \<longleftrightarrow> (\<exists>cb. ac_cb cmd = Some cb \<and> (user_cb cb \<or> cb = Null_cmd_cb))"

definition disp_total :: "at_dispatch \<Rightarrow> bool" where
  "disp_total disp \<longleftrightarrow> (\<forall>cb cmd g. ac_cb cmd = Some cb \<longrightarrow> client_cb cmd \<longrightarrow> cmd_live g cmd \<longrightarrow> of_user cmd \<longrightarrow>
     ac_ret cmd = - ESHUTDOWN \<longrightarrow> (\<exists>rc g'. disp cb cmd ''ERROR'' g = Some (rc, g')))"

lemma client_cb_ret [simp]: "client_cb (c\<lparr>ac_ret := r\<rparr>) = client_cb c"
  by (simp add: client_cb_def)

text \<open>
  The loop over the pending commands \<open>todo\<close> ends well if it ends, and it does end if every
  command of the client has a callback and the callbacks return.
\<close>

definition ends :: "at_dispatch \<Rightarrow> nat \<Rightarrow> gsmd_atcmd list \<Rightarrow> nat \<Rightarrow> gsmd \<Rightarrow> bool" where
  "ends disp a todo n g \<longleftrightarrow>
     (\<forall>num g'. terminate_pending disp (Ctx_user a) (first_addr todo) (n, g) = Some (num, g') \<longrightarrow> gone a g g') \<and>
     (disp_total disp \<longrightarrow> (\<forall>c \<in> set todo. ac_ctx c = Ctx_user a \<longrightarrow> client_cb c) \<longrightarrow>
      terminate_pending disp (Ctx_user a) (first_addr todo) (n, g) \<noteq> None)"

abbreviation n_of :: "nat \<Rightarrow> gsmd_atcmd list \<Rightarrow> nat" where
  "n_of a cs \<equiv> length (filter (\<lambda>c. ac_ctx c = Ctx_user a) cs)"

context atcmd_client
begin

lemma ends_match:
  assumes inv: "at_inv g" and pend: "g_pending_atcmds g = dn @ c # todo" and dn: "\<forall>x \<in> set dn. ac_ctx x \<noteq> Ctx_user a"
    and c: "ac_ctx c = Ctx_user a" and dist: "distinct (map ac_addr (dn @ c # todo))"
    and at: "cmd_at (ac_addr c) (g_pending_atcmds g) = Some (c, first_addr todo)"
    and IH: "\<And>todo' g2. n_of a todo' < n_of a (c # todo) \<Longrightarrow> at_inv g2 \<Longrightarrow> g_pending_atcmds g2 = dn @ todo' \<Longrightarrow> ends disp a todo' (n + 1) g2"
  shows "ends disp a (c # todo) n g"
proof -
  define g1 where "g1 = g\<lparr>g_pending_atcmds := filter (\<lambda>x. ac_addr x \<noteq> ac_addr c) (g_pending_atcmds g)\<rparr>"
  define cmd where "cmd = c\<lparr>ac_ret := - ESHUTDOWN\<rparr>"
  have g1: "at_inv g1" "g_pending_atcmds g1 = dn @ todo" "rest_frame g g1" "g_busy_atcmds g1 = g_busy_atcmds g"
    using at_inv_remove[OF inv, of "\<lambda>x. ac_addr x \<noteq> ac_addr c"] filter_suffix[OF dist] pend
    by (simp_all add: g1_def rest_frame_def del: filter_append)
  have step: "terminate_pending disp (Ctx_user a) (first_addr (c # todo)) (n, g) =
      (case ac_cb cmd of None \<Rightarrow> None | Some cb \<Rightarrow>
        (case disp cb cmd ''ERROR'' g1 of None \<Rightarrow> None
         | Some (_, g2) \<Rightarrow> terminate_pending disp (Ctx_user a) (first_addr todo) (n + 1, g2)))"
    by (subst terminate_pending.simps)
      (auto simp: first_addr_def[of "c # todo"] at c g1_def cmd_def split: option.split)
  have live: "cmd_live g1 cmd" "of_user cmd"
    using inv pend c by (auto simp: at_inv_def at_wf_def g1_def cmd_def of_user_def)
  have ok: "ends disp a todo (n + 1) g2 \<and> (\<forall>g'. gone a g2 g' \<longrightarrow> gone a g g')"
    if d: "disp cb cmd ''ERROR'' g1 = Some (r, g2)" for cb r g2
  proof -
    note fr = disp_frame[OF d]
    obtain new where new: "g_pending_atcmds g2 = dn @ todo @ new" "\<forall>c \<in> set new. ac_ctx c \<noteq> Ctx_user a"
      using cb_frame_new[OF fr, of a] g1(2) by auto
    have inv2: "at_inv g2" by (rule at_inv_frame[OF fr g1(1)])
    have rf: "rest_frame g g2" "g_busy_atcmds g2 = g_busy_atcmds g"
      using rest_frame_trans[OF g1(3) cb_frame_rest[OF fr]] cb_frame_busy[OF fr] g1(4) by simp_all
    have "ends disp a todo (n + 1) g2"
    proof (cases "todo = []")
      case True
      then show ?thesis using new inv2 dn by (auto simp: ends_def terminate_pending.simps first_addr_def gone_def)
    next
      case False
      have "n_of a (todo @ new) < n_of a (c # todo)" using c new(2) by (simp add: filter_empty_conv)
      from IH[OF this inv2] new False show ?thesis by (auto simp: ends_def first_addr_append)
    qed
    then show ?thesis using rf rest_frame_trans by (auto simp: gone_def)
  qed
  have tot: "disp_total disp \<Longrightarrow> client_cb c \<Longrightarrow> ac_cb cmd = Some cb \<Longrightarrow> disp cb cmd ''ERROR'' g1 \<noteq> None" for cb
    using live unfolding disp_total_def by (auto simp: cmd_def)
  show ?thesis
  proof (cases "ac_cb cmd")
    case None
    then show ?thesis unfolding ends_def step using c by (auto simp: cmd_def client_cb_def)
  next
    case (Some cb)
    show ?thesis
    proof (cases "disp cb cmd ''ERROR'' g1")
      case None
      then show ?thesis unfolding ends_def step using Some tot[OF _ _ Some] c by auto
    next
      case d: (Some x)
      obtain r g2 where x: "x = (r, g2)" by (cases x)
      from ok[of cb r g2] d x show ?thesis unfolding ends_def step using Some by simp
    qed
  qed
qed

lemma terminate_pending_run:
  assumes "at_inv g" and "g_pending_atcmds g = dn @ todo" and "\<forall>c \<in> set dn. ac_ctx c \<noteq> Ctx_user a"
  shows "ends disp a todo n g"
  using assms
proof (induction "n_of a todo" arbitrary: todo dn g n rule: less_induct)
  case less
  from less.hyps less.prems show ?case
  proof (induction todo arbitrary: dn)
    case Nil
    then show ?case by (auto simp: ends_def terminate_pending.simps first_addr_def gone_def)
  next
    case (Cons c todo)
    have "distinct (map ac_addr (g_pending_atcmds g @ g_busy_atcmds g))"
      using Cons.prems(2) by (simp add: at_inv_def at_wf_def)
    then have dist: "distinct (map ac_addr (dn @ c # todo))"
      unfolding Cons.prems(3) by (simp only: map_append distinct_append)
    then have at: "cmd_at (ac_addr c) (g_pending_atcmds g) = Some (c, first_addr todo)"
      using Cons.prems(3) by (auto intro: cmd_at_suffix)
    show ?case
    proof (cases "ac_ctx c = Ctx_user a")
      case False
      have "ends disp a todo n g"
      proof (rule Cons.IH[of "dn @ [c]"])
        show "ends disp a todo' n' g'"
          if "n_of a todo' < n_of a todo" "at_inv g'" "g_pending_atcmds g' = dn' @ todo'" "\<forall>x \<in> set dn'. ac_ctx x \<noteq> Ctx_user a"
          for todo' dn' g' n'
          using Cons.prems(1)[of todo' g' dn' n'] that False by simp
      qed (use Cons.prems False in auto)
      moreover have "terminate_pending disp (Ctx_user a) (first_addr (c # todo)) (n, g) =
          terminate_pending disp (Ctx_user a) (first_addr todo) (n, g)"
        by (subst terminate_pending.simps) (simp add: first_addr_def[of "c # todo"] at False)
      ultimately show ?thesis using False by (simp add: ends_def)
    next
      case True
      show ?thesis
        by (rule ends_match[OF Cons.prems(2-4) True dist at]) (rule Cons.prems(1)[OF _ _ _ Cons.prems(4)])
    qed
  qed
qed

lemma terminate_busy_run:
  assumes inv: "at_inv g"
  shows "(\<forall>num g'. terminate_busy disp (Ctx_user a) (g_busy_atcmds g) (0, g) = Some (num, g') \<longrightarrow>
      at_inv g' \<and> rest_frame g g' \<and> user_cmds g' = user_cmds g \<and> (\<forall>c \<in> set (g_busy_atcmds g'). ac_ctx c \<noteq> Ctx_user a)) \<and>
    (disp_total disp \<longrightarrow> (\<forall>c \<in> set (g_busy_atcmds g). ac_ctx c = Ctx_user a \<longrightarrow> client_cb c) \<longrightarrow>
      terminate_busy disp (Ctx_user a) (g_busy_atcmds g) (0, g) \<noteq> None)"
proof (cases "g_busy_atcmds g")
  case Nil
  then show ?thesis using inv by simp
next
  case (Cons c rest)
  have busy: "g_busy_atcmds g = [c]" using at_inv_busy[OF inv Cons] Cons by simp
  show ?thesis
  proof (cases "ac_ctx c = Ctx_user a")
    case False
    then show ?thesis using inv busy by simp
  next
    case True
    define cmd where "cmd = c\<lparr>ac_ret := - ESHUTDOWN\<rparr>"
    note r = at_inv_set_ret[OF inv Cons, of "- ESHUTDOWN", folded cmd_def]
    have live: "cmd_live (upd_busy cmd g) cmd" "of_user cmd"
      using inv busy True by (auto simp: at_inv_def at_wf_def upd_busy_def cmd_def of_user_def)
    have fin: "at_inv g' \<and> rest_frame g g' \<and> user_cmds g' = user_cmds g \<and> (\<forall>c \<in> set (g_busy_atcmds g'). ac_ctx c \<noteq> Ctx_user a)"
      if d: "disp cb cmd ''ERROR'' (upd_busy cmd g) = Some (rc, g1)"
        and g': "g' = upd_busy (cmd\<lparr>ac_cb := None, ac_ctx := Ctx_null\<rparr>) g1" for cb rc g1 g'
    proof -
      note fr = disp_frame[OF d]
      have b1: "g_busy_atcmds g1 = [cmd]" "at_inv g1" using cb_frame_busy[OF fr] r at_inv_frame[OF fr] by simp_all
      have "at_inv g'" using b1 unfolding g'
        by (auto simp: at_inv_def at_wf_def upd_busy_def single_flight_def want_write_def live_for_def)
      moreover have "rest_frame (upd_busy cmd g) g1" "rest_frame g (upd_busy cmd g)" "rest_frame g1 g'"
        using cb_frame_rest[OF fr] busy b1 by (auto simp: g' rest_frame_def upd_busy_def cmd_def)
      then have "rest_frame g g'" using rest_frame_trans by blast
      moreover have "user_cmds g' = user_cmds g" using fr by (simp add: g' cb_frame_def user_cmds_def upd_busy_def)
      moreover have "g_busy_atcmds g' = [cmd\<lparr>ac_cb := None, ac_ctx := Ctx_null\<rparr>]" using b1 by (simp add: g' upd_busy_def)
      ultimately show ?thesis by simp
    qed
    have tot: "disp_total disp \<Longrightarrow> client_cb c \<Longrightarrow> ac_cb cmd = Some cb \<Longrightarrow>
        \<exists>rc g'. disp cb cmd ''ERROR'' (upd_busy cmd g) = Some (rc, g')" for cb
      using live unfolding disp_total_def by (auto simp: cmd_def)
    have step: "terminate_busy disp (Ctx_user a) (g_busy_atcmds g) (0, g) =
        Option.bind (ac_cb cmd) (\<lambda>cb. Option.bind (disp cb cmd ''ERROR'' (upd_busy cmd g))
          (\<lambda>(_, g1). Some (1, upd_busy (cmd\<lparr>ac_cb := None, ac_ctx := Ctx_null\<rparr>) g1)))"
      using True by (simp add: busy Let_def cmd_def split_beta)
    show ?thesis unfolding step
    proof (intro conjI impI allI)
      fix num g'
      assume "Option.bind (ac_cb cmd) (\<lambda>cb. Option.bind (disp cb cmd ''ERROR'' (upd_busy cmd g))
          (\<lambda>(_, g1). Some (1, upd_busy (cmd\<lparr>ac_cb := None, ac_ctx := Ctx_null\<rparr>) g1))) = Some (num, g')"
      then obtain cb rc g1 where "disp cb cmd ''ERROR'' (upd_busy cmd g) = Some (rc, g1)"
        "g' = upd_busy (cmd\<lparr>ac_cb := None, ac_ctx := Ctx_null\<rparr>) g1"
        by (auto simp: option_bind_Some_iff)
      from fin[OF this] show "at_inv g'" "rest_frame g g'" "user_cmds g' = user_cmds g"
        "\<forall>c \<in> set (g_busy_atcmds g'). ac_ctx c \<noteq> Ctx_user a" by blast+
    next
      assume "disp_total disp" "\<forall>c \<in> set (g_busy_atcmds g). ac_ctx c = Ctx_user a \<longrightarrow> client_cb c"
      then obtain cb where cb: "ac_cb cmd = Some cb" "client_cb c" using busy True by (auto simp: cmd_def client_cb_def)
      from tot[OF \<open>disp_total disp\<close> cb(2,1)] cb(1)
      show "Option.bind (ac_cb cmd) (\<lambda>cb. Option.bind (disp cb cmd ''ERROR'' (upd_busy cmd g))
          (\<lambda>(_, g1). Some (1 :: nat, upd_busy (cmd\<lparr>ac_cb := None, ac_ctx := Ctx_null\<rparr>) g1))) \<noteq> None" by auto
    qed
  qed
qed

lemma terminate_run:
  assumes inv: "at_inv g"
  shows "(\<forall>num g'. atcmd_terminate_matching disp (Ctx_user a) g = Some (num, g') \<longrightarrow>
      at_inv g' \<and> rest_frame g g' \<and> (\<forall>c \<in> set (g_pending_atcmds g' @ g_busy_atcmds g'). ac_ctx c \<noteq> Ctx_user a)) \<and>
    (disp_total disp \<longrightarrow> (\<forall>c \<in> set (g_pending_atcmds g @ g_busy_atcmds g). ac_ctx c = Ctx_user a \<longrightarrow> client_cb c) \<longrightarrow>
      atcmd_terminate_matching disp (Ctx_user a) g \<noteq> None)"
proof (cases "terminate_busy disp (Ctx_user a) (g_busy_atcmds g) (0, g)")
  case None
  then show ?thesis using terminate_busy_run[OF inv, of a] by (auto simp: atcmd_terminate_matching_def)
next
  case (Some x)
  obtain num g1 where x: "x = (num, g1)" by (cases x)
  have g1: "at_inv g1" "rest_frame g g1" "user_cmds g1 = user_cmds g" "\<forall>c \<in> set (g_busy_atcmds g1). ac_ctx c \<noteq> Ctx_user a"
    using terminate_busy_run[OF inv, of a] Some x by auto
  have e: "ends disp a (g_pending_atcmds g1) num g1" by (rule terminate_pending_run[OF g1(1), of "[]"]) simp_all
  have same: "c \<in> set (g_pending_atcmds g1) \<Longrightarrow> ac_ctx c = Ctx_user a \<Longrightarrow> c \<in> set (g_pending_atcmds g)" for c
  proof -
    assume "c \<in> set (g_pending_atcmds g1)" "ac_ctx c = Ctx_user a"
    then have "c \<in> set (user_cmds g1)" by (simp add: user_cmds_def of_user_def)
    then have "c \<in> set (user_cmds g)" using g1(3) by simp
    then show ?thesis by (simp add: user_cmds_def)
  qed
  have eq: "atcmd_terminate_matching disp (Ctx_user a) g =
      terminate_pending disp (Ctx_user a) (first_addr (g_pending_atcmds g1)) (num, g1)"
    using Some x by (simp add: atcmd_terminate_matching_def)
  show ?thesis unfolding eq using e g1 same rest_frame_trans[OF g1(2)] by (auto simp: ends_def gone_def)
qed

end

section \<open>Forgetting a client\<close>

lemma vanished:
  assumes inv: "daemon_inv g" and v: "user_vanished gu g = Some g'"
  shows "daemon_inv g' \<and> user_addrs g' = filter (\<lambda>a. a \<noteq> gu) (user_addrs g) \<and>
    (\<forall>c \<in> set (g_pending_atcmds g' @ g_busy_atcmds g'). ac_ctx c \<noteq> Ctx_user gu)"
proof -
  obtain num g1 where t: "atcmd_terminate_matching run_cb (Ctx_user gu) g = Some (num, g1)"
    and g': "g' = g1\<lparr>g_users := filter (\<lambda>u. gu_addr u \<noteq> gu) (g_users g1)\<rparr>"
    using v by (auto simp: user_vanished_def option_bind_Some_iff)
  have ati: "at_inv g" using inv by (simp add: daemon_inv_def)
  have g1: "at_inv g1" "rest_frame g g1" "\<forall>c \<in> set (g_pending_atcmds g1 @ g_busy_atcmds g1). ac_ctx c \<noteq> Ctx_user gu"
    using at.terminate_run[OF ati, of gu] t by blast+
  have live: "live_for (user_addrs g') c" if "live_for (user_addrs g1) c" "ac_ctx c \<noteq> Ctx_user gu" for c
    using that by (auto simp: live_for_def g')
  then have "at_inv g'" using g1(1,3)
    by (auto simp: at_inv_def at_wf_def single_flight_def want_write_def g')
  moreover have "daemon_inv g1" by (rule dinv_rest[OF inv g1(2,1)])
  ultimately have "daemon_inv g'" by (simp add: daemon_invs) (simp add: g')
  moreover have "user_addrs g' = filter (\<lambda>a. a \<noteq> gu) (user_addrs g)"
  proof -
    have "user_addrs g' = filter (\<lambda>a. a \<noteq> gu) (user_addrs g1)" by (simp add: g' filter_map o_def)
    then show ?thesis using g1(2) by (simp add: rest_frame_def)
  qed
  ultimately show ?thesis using g1(3) by (simp add: g')
qed

lemma run_cb_total: "disp_total run_cb"
  unfolding disp_total_def client_cb_def by (auto intro: user_cb_total simp: ending_def)

section \<open>Properties\<close>

text \<open>
  C10. Whatever a client sends, the daemon's state stays well-formed. For any contents of the
  1024 octets of a request from a connected client and any number of octets received, if
  the request is handled without a fault, the invariant holds again: the commands it queued
  are complete up to their terminator and belong to a connected client, a hang-up that
  cancels the command in flight keeps one command with the modem at most, and no timer
  is lost.
\<close>

theorem request_keeps_invariant:
  assumes "daemon_inv g" and "gu \<in> set (user_addrs g)" and "length b = 1024"
    and "usock_rcv_pcmd gu b len g = Some (rc, g')"
  shows "daemon_inv g'"
  by (rule dinv_request[OF assms])

text \<open>A request that hangs up, while the command of the same client is with the modem.\<close>

definition hangup_request :: "char list" where
  "hangup_request = [CHR 0x01, CHR 0x03, CHR 0x02] @ replicate 1021 NUL"

lemma hangup_request_fields:
  "length hangup_request = 1024" "gph_version hangup_request = 1" "gph_msg_type hangup_request = 3"
  "gph_msg_subtype hangup_request = 2" "gph_id hangup_request = 0"
  by (simp_all add: hangup_request_def gph_version_def gph_msg_type_def gph_msg_subtype_def gph_id_def u16_at_def u8_at_def
      c_at_def ord_c_def nth_append)

lemma request_keeps_invariant_witness:
  "\<exists>rc g'. usock_rcv_pcmd 0 hangup_request 8 gsmd_busy = Some (rc, g') \<and> daemon_inv g'"
proof -
  have "usock_rcv_pcmd 0 hangup_request 8 gsmd_busy = voicecall_hangup 0 hangup_request gsmd_busy"
    by (simp add: usock_rcv_pcmd_def usock_rcv_voicecall_def hangup_request_fields)
  moreover have "\<exists>rc g'. voicecall_hangup 0 hangup_request gsmd_busy = Some (rc, g')"
    by (simp add: voicecall_hangup_def atcmd_fill_def gsmd_busy_def gsmd_zero_def cancel_atcmd_def atcmd_done_def remove_timer_def
        example_cmd_def final_resp_def usock_cmd_cb_def reply_def ctx_user_def gsmd_ucmd_submit_def usock_cmd_enqueue_def
        upd_user_def example_user_def upd_busy_def hangup_request_fields talloc_def Let_def)
  ultimately obtain rc g' where r: "usock_rcv_pcmd 0 hangup_request 8 gsmd_busy = Some (rc, g')" by metis
  moreover have "daemon_inv g'"
    by (rule request_keeps_invariant[OF gsmd_busy_inv _ hangup_request_fields(1) r])
      (simp add: gsmd_busy_def example_user_def)
  ultimately show ?thesis by blast
qed

text \<open>
  C13. A client can leave at any time. When every command of the client has a callback, ending
  them always terminates, without a fault; afterwards the client is forgotten, no pending
  and no busy command refers to it, all other clients are still there, and the
  invariant holds.
\<close>

theorem client_leaves:
  assumes "daemon_inv g" and "\<forall>c \<in> set (g_pending_atcmds g @ g_busy_atcmds g). ac_ctx c = Ctx_user gu \<longrightarrow> client_cb c"
  shows "\<exists>g'. user_vanished gu g = Some g' \<and> daemon_inv g' \<and> user_addrs g' = filter (\<lambda>a. a \<noteq> gu) (user_addrs g) \<and>
    (\<forall>c \<in> set (g_pending_atcmds g' @ g_busy_atcmds g'). ac_ctx c \<noteq> Ctx_user gu)"
proof -
  have "at_inv g" using assms(1) by (simp add: daemon_inv_def)
  from at.terminate_run[OF this, of gu] run_cb_total assms(2)
  have "atcmd_terminate_matching run_cb (Ctx_user gu) g \<noteq> None" by blast
  then obtain g' where "user_vanished gu g = Some g'" by (auto simp: user_vanished_def)
  with vanished[OF assms(1) this] show ?thesis by blast
qed

lemma client_leaves_witness:
  "\<exists>g'. user_vanished 0 gsmd_busy = Some g' \<and> g_users g' = [] \<and>
     (\<forall>c \<in> set (g_pending_atcmds g' @ g_busy_atcmds g'). ac_ctx c \<noteq> Ctx_user 0)"
proof -
  have "\<forall>c \<in> set (g_pending_atcmds gsmd_busy @ g_busy_atcmds gsmd_busy). ac_ctx c = Ctx_user 0 \<longrightarrow> client_cb c"
    by (simp add: gsmd_busy_def gsmd_zero_def example_cmd_def client_cb_def user_cb_def)
  from client_leaves[OF gsmd_busy_inv this] show ?thesis by (auto simp: gsmd_busy_def example_user_def)
qed

end
