(* ===== verification/Expiry.thy ===== *)
theory Expiry
  imports Leave
begin

text \<open>
  The daemon's timers expire: the dispatch of timer callbacks, the handler of the alarm
  signal (\<open>sig_handler\<close> of \<open>src/gsmd/gsmd.c\<close>), and what one run of
  \<open>gsmd_timer_check_n_run\<close> does to the daemon.
\<close>

unbundle bit_operations_syntax

section \<open>Dispatch\<close>

text \<open>Calling the callback of a timer that has been taken out of the list: \<open>(cur->cb) (cur, cur->data)\<close>.\<close>

definition run_timer :: "gsmd_timer \<Rightarrow> gsmd \<Rightarrow> gsmd option" where
  "run_timer t g = (case tmr_cb t of
      Discard_timeout \<Rightarrow> discard_timeout run_cb (tmr_addr t) g
    | Wakeup_timeout \<Rightarrow> Some (wakeup_timeout (tmr_addr t) g)
    | Alive_tmr_cb \<Rightarrow> Some (alive_tmr_cb g)
    | Alive_interval_tmr_cb \<Rightarrow> alive_interval_tmr_cb t g
    | State_ringing_timeout \<Rightarrow> Some (state_ringing_timeout g)
    | Poweroff_timeout \<Rightarrow> Some (g\<lparr>g_exit := Some 0\<rparr>))"

text \<open>A callback that has called \<open>exit\<close> does not return: nothing is run after it.\<close>

definition daemon_timer :: "gsmd timer_cb" where
  "daemon_timer t sg =
     (let (s, g) = sg in
      if g_exit g \<noteq> None then Some (s, g)
      else map_option (\<lambda>g'. (g_timers g', g')) (run_timer t (g\<lparr>g_timers := s\<rparr>)))"

definition sig_alarm :: "gsmd \<Rightarrow> gsmd option" where
  "sig_alarm g = map_option (\<lambda>(s, g'). g'\<lparr>g_timers := s\<rparr>) (gsmd_timer_check_n_run daemon_timer (g_timers g, g))"

text \<open>\<open>sig_handler\<close>, for the signals that \<open>main\<close> installs it for; the reports of memory are left out.\<close>

datatype signal = SIGTERM | SIGINT | SIGUSR1 | SIGALRM

fun sig_handler :: "signal \<Rightarrow> gsmd \<Rightarrow> gsmd option" where
  "sig_handler SIGTERM g = Some (g\<lparr>g_exit := Some 0\<rparr>)"
| "sig_handler SIGINT g = Some (g\<lparr>g_exit := Some 0\<rparr>)"
| "sig_handler SIGUSR1 g = sig_alarm g"
| "sig_handler SIGALRM g = sig_alarm g"

section \<open>What the callbacks rely on\<close>

text \<open>
  The ring timer is the one the device state points to; the timer of the command in flight
  is a command's timer, and while it is the one of an alive check, no answer to an alive
  check has been noted.
\<close>

definition timers_typed :: "gsmd \<Rightarrow> bool" where
  "timers_typed g \<longleftrightarrow> (\<forall>t \<in> set (ts_timers (g_timers g)).
     (tmr_cb t = State_ringing_timeout \<longleftrightarrow> ds_ring_check (g_dev_state g) = Some (tmr_addr t)) \<and>
     (\<forall>c \<in> set (g_busy_atcmds g). ac_timeout c = Some (tmr_addr t) \<longrightarrow>
        tmr_cb t \<noteq> Alive_interval_tmr_cb \<and> (tmr_cb t = Alive_tmr_cb \<longrightarrow> \<not> g_alive_responded g)))"

text \<open>The clock is canonical and does not go back behind \<open>now\<close>.\<close>

definition clock_from :: "timeval \<Rightarrow> timer_state \<Rightarrow> bool" where
  "clock_from now s \<longleftrightarrow> usec_ok now \<and> (\<forall>n \<ge> ts_reads s. usec_ok (ts_clock s n) \<and> tv_val now \<le> tv_val (ts_clock s n))"

text \<open>The command with timer \<open>a\<close>, overdue at \<open>now\<close>, is in flight, or none is and the queue has been woken.\<close>

definition in_flight :: "timeval \<Rightarrow> nat \<Rightarrow> gsmd \<Rightarrow> bool" where
  "in_flight now a g \<longleftrightarrow> (\<exists>c. g_busy_atcmds g = [c] \<and> ac_timeout c = Some a) \<and>
     (\<forall>t \<in> set (ts_timers (g_timers g)). tmr_addr t = a \<longrightarrow> tmr_cb t = Discard_timeout \<and> tv_later now (tmr_expires t))"

definition woken :: "gsmd \<Rightarrow> bool" where
  "woken g \<longleftrightarrow> g_busy_atcmds g = [] \<and> (g_pending_atcmds g \<noteq> [] \<longrightarrow> want_write g)"

text \<open>The callbacks that can end the process.\<close>

definition ends_process :: "gsmd_timer \<Rightarrow> bool" where
  "ends_process t \<longleftrightarrow> tmr_cb t = Alive_tmr_cb \<or> tmr_cb t = Poweroff_timeout"

text \<open>The invariant of the run; \<open>m\<close> tells whether the run may end the process.\<close>

definition timer_inv :: "timeval \<Rightarrow> bool \<Rightarrow> nat option \<Rightarrow> gsmd \<Rightarrow> bool" where
  "timer_inv now m a g \<longleftrightarrow> daemon_inv g \<and> timers_typed g \<and> no_fail g \<and> g_exit g = None \<and> clock_from now (g_timers g) \<and>
     (\<forall>t \<in> set (ts_timers (g_timers g)). ends_process t \<longrightarrow> tv_later now (tmr_expires t) \<longrightarrow> m) \<and>
     (\<forall>x. a = Some x \<longrightarrow> in_flight now x g \<or> woken g)"

definition run_inv :: "timeval \<Rightarrow> bool \<Rightarrow> nat option \<Rightarrow> timer_state \<times> gsmd \<Rightarrow> bool" where
  "run_inv now m a sg \<longleftrightarrow> (let (s, g) = sg in if g_exit g \<noteq> None then m \<and> timers_wf s else timer_inv now m a (g\<lparr>g_timers := s\<rparr>))"

abbreviation without :: "nat \<Rightarrow> gsmd \<Rightarrow> gsmd" where
  "without a g \<equiv> g\<lparr>g_timers := (g_timers g)\<lparr>ts_timers := filter (\<lambda>x. tmr_addr x \<noteq> a) (ts_timers (g_timers g))\<rparr>\<rparr>"

lemma dinv_timers_wf: "daemon_inv g \<Longrightarrow> timers_wf (g_timers g)"
  by (simp add: daemon_inv_def at_inv_def at_wf_def)

lemma timers_wf_without: "timers_wf (g_timers g) \<Longrightarrow> timers_wf (g_timers (without a g))"
  by (auto simp: timers_wf_def distinct_map_filter)

lemma wake_idle [simp]:
  "g_timers (wake_if_idle g) = g_timers g" "g_talloc_fails (wake_if_idle g) = g_talloc_fails g"
  "g_busy_atcmds (wake_if_idle g) = g_busy_atcmds g" "g_dev_state (wake_if_idle g) = g_dev_state g"
  "g_exit (wake_if_idle g) = g_exit g" "g_pending_atcmds (wake_if_idle g) = g_pending_atcmds g"
  "g_alive_responded (wake_if_idle g) = g_alive_responded g"
  by (simp_all add: wake_if_idle_def atcmd_wake_pending_queue_def)

lemma wake_woken: "g_busy_atcmds g = [] \<Longrightarrow> woken (wake_if_idle g)"
proof -
  assume "g_busy_atcmds g = []"
  moreover have "(w OR GSMD_FD_WRITE) AND GSMD_FD_WRITE \<noteq> 0" for w
  proof -
    have "bit ((w OR GSMD_FD_WRITE) AND GSMD_FD_WRITE) 1" by (simp add: GSMD_FD_WRITE_def bit_and_iff bit_or_iff)
    then show ?thesis by force
  qed
  ultimately show ?thesis by (simp add: woken_def wake_if_idle_def want_write_def atcmd_wake_pending_queue_def)
qed

text \<open>Taking out a timer that is not the one of the command in flight, nor the ring timer.\<close>

lemma drop_other:
  assumes inv: "timer_inv now m a g" and own: "\<forall>c \<in> set (g_busy_atcmds g). ac_timeout c \<noteq> Some t"
    and ring: "ds_ring_check (g_dev_state g) \<noteq> Some t"
  shows "timer_inv now m a (without t g)"
proof -
  have d: "daemon_inv g" using inv by (simp add: timer_inv_def)
  have keep: "x \<in> tmr_addr ` set (ts_timers (g_timers (without t g)))" if "x \<in> tmr_addr ` set (ts_timers (g_timers g))" "x \<noteq> t" for x
    using that by auto
  have "daemon_inv (g\<lparr>g_timers := g_timers (without t g), g_dev_state := g_dev_state g\<rparr>)"
  proof (rule dinv_ring_set[OF d timers_wf_without[OF dinv_timers_wf[OF d]]])
    show "y \<in> tmr_addr ` set (ts_timers (g_timers (without t g)))" if "c \<in> set (g_busy_atcmds g)" "ac_timeout c = Some y" for c y
      by (rule keep[OF busy_timer_known(1)[OF d that]]) (use own that in auto)
    show "y \<in> tmr_addr ` set (ts_timers (g_timers (without t g))) \<and> (\<forall>c \<in> set (g_busy_atcmds g). ac_timeout c \<noteq> Some y)"
      if "ds_ring_check (g_dev_state g) = Some y" for y
      using that d ring keep[of y] by (auto simp: daemon_inv_def ring_wf_def)
  qed
  then have "daemon_inv (without t g)" by simp
  moreover have "in_flight now x (without t g)" if "in_flight now x g" for x using that by (auto simp: in_flight_def)
  moreover have "woken (without t g) = woken g" by (simp add: woken_def want_write_def)
  ultimately show ?thesis using inv by (auto simp: timer_inv_def timers_typed_def clock_from_def)
qed

text \<open>Taking out the timer of the command in flight; the command then has none.\<close>

lemma drop_own:
  assumes inv: "timer_inv now m a g" and own: "g_busy_atcmds g = [c]" "ac_timeout c = Some t"
  defines "g1 \<equiv> upd_busy (c\<lparr>ac_timeout := None\<rparr>) (without t g)"
  shows "daemon_inv g1" and "g_busy_atcmds g1 = [c\<lparr>ac_timeout := None\<rparr>]" and "timers_typed g1"
    and "no_fail g1" and "clock_from now (g_timers g1)" and "g_exit g1 = None"
    and "cmd_live g1 (c\<lparr>ac_timeout := None\<rparr>)" and "length (g_imsi g1) = 16" and "g_timers g1 = g_timers (without t g)"
proof -
  have d: "daemon_inv g" using inv by (simp add: timer_inv_def)
  have mem: "t \<in> tmr_addr ` set (ts_timers (g_timers g))" using busy_timer_known(1)[OF d, of c t] own by simp
  have del: "timer_del t (g_timers g) = Some (g_timers (without t g))" using mem by (simp add: timer_del_def)
  have ati: "at_inv g" using d by (simp add: daemon_inv_def)
  note o = at_inv_own_timer[OF ati del own(1)]
  show b: "g_busy_atcmds g1 = [c\<lparr>ac_timeout := None\<rparr>]" by (simp add: g1_def upd_busy_def own)
  have "at_inv g1" using o own(1) by (simp add: g1_def at_inv_def single_flight_def upd_busy_def want_write_def)
  moreover have "ring_wf g1" using d own by (auto simp: daemon_inv_def ring_wf_def g1_def upd_busy_def)
  ultimately show "daemon_inv g1" using d by (simp add: daemon_inv_def ml_wf_def) (simp add: g1_def upd_busy_def)
  then show "cmd_live g1 (c\<lparr>ac_timeout := None\<rparr>)" using b by (simp add: daemon_inv_def at_inv_def at_wf_def)
  show "timers_typed g1" using inv own by (auto simp: timer_inv_def timers_typed_def g1_def upd_busy_def)
  show "no_fail g1" "clock_from now (g_timers g1)" "g_exit g1 = None" "length (g_imsi g1) = 16" "g_timers g1 = g_timers (without t g)"
    using inv by (auto simp: timer_inv_def clock_from_def g1_def upd_busy_def daemon_inv_def)
qed

section \<open>One callback\<close>

text \<open>The contract that the timer queue asks for, in terms of the daemon.\<close>

definition expires_ok :: "timeval \<Rightarrow> bool \<Rightarrow> nat option \<Rightarrow> nat \<Rightarrow> gsmd \<Rightarrow> gsmd option \<Rightarrow> bool" where
  "expires_ok now m a t g r \<longleftrightarrow> (\<exists>g' new. r = Some g' \<and> run_inv now m a (g_timers g', g') \<and>
     ts_timers (g_timers g') = ts_timers (g_timers (without t g)) @ new \<and> (\<forall>x \<in> set new. \<not> tv_later now (tmr_expires x)))"

lemma expires_okI:
  assumes "r = Some g'" and "timer_inv now m a g' \<or> g_exit g' \<noteq> None \<and> m" and "g_timers g' = g_timers (without t g)" and "daemon_inv g"
  shows "expires_ok now m a t g r"
proof -
  have "timers_wf (g_timers g')" unfolding assms(3) by (rule timers_wf_without[OF dinv_timers_wf[OF assms(4)]])
  then have "run_inv now m a (g_timers g', g')" using assms(2) by (auto simp: run_inv_def timer_inv_def)
  then show ?thesis using assms(1,3) by (auto simp: expires_ok_def intro!: exI[of _ "[]"])
qed

lemma timer_inv_dinv: "timer_inv now m a g \<Longrightarrow> daemon_inv g"
  by (simp add: timer_inv_def)

text \<open>With the timer of the command in flight gone, finishing the command wakes the queue.\<close>

lemma finish_own:
  assumes inv: "timer_inv now m a g" and own: "g_busy_atcmds g = [c]" "ac_timeout c = Some t"
    and fr: "cb_frame (upd_busy (c\<lparr>ac_timeout := None\<rparr>) (without t g)) g2"
  defines "g' \<equiv> wake_if_idle (del_busy (c\<lparr>ac_timeout := None\<rparr>) g2)"
  shows "timer_inv now m a g'" and "g_timers g' = g_timers (without t g)"
proof -
  note o = drop_own[OF inv own]
  have g2: "g_busy_atcmds g2 = [c\<lparr>ac_timeout := None\<rparr>]" "daemon_inv g2" "g_timers g2 = g_timers (without t g)" "no_fail g2"
    "ds_ring_check (g_dev_state g2) = ds_ring_check (g_dev_state g)" "g_exit g2 = None"
    using fr o(2,4,6,9) dinv_frame[OF fr o(1)] by (auto simp: cb_frame_defs upd_busy_def)
  have "g_busy_atcmds g' = []" using g2(1) by (simp add: g'_def del_busy_def)
  moreover have "daemon_inv g'" unfolding g'_def by (rule dinv_finish[OF g2(2,1)]) simp
  moreover have "woken g'" unfolding g'_def by (rule wake_woken) (simp add: del_busy_def g2(1))
  moreover have t: "g_timers g' = g_timers (without t g)" using g2(3) by (simp add: g'_def del_busy_def)
  moreover have "timers_typed g'" using o(3) t g2(5) \<open>g_busy_atcmds g' = []\<close>
    by (auto simp: timers_typed_def g'_def del_busy_def upd_busy_def)
  moreover have "\<forall>x \<in> set (ts_timers (g_timers g')). ends_process x \<longrightarrow> tv_later now (tmr_expires x) \<longrightarrow> m"
    using inv unfolding t by (auto simp: timer_inv_def)
  ultimately show "timer_inv now m a g'" using g2(4,6) o(5,9) by (simp add: timer_inv_def g'_def del_busy_def)
  show "g_timers g' = g_timers (without t g)" by (rule t)
qed

lemma busy_own:
  assumes "daemon_inv g"
  obtains "\<forall>c \<in> set (g_busy_atcmds g). ac_timeout c \<noteq> Some t" and "g_busy_atcmds g = [] \<or> ac_timeout (hd (g_busy_atcmds g)) \<noteq> Some t"
  | c where "g_busy_atcmds g = [c]" and "ac_timeout c = Some t"
proof (cases "g_busy_atcmds g")
  case Nil
  then show thesis using that(1) by simp
next
  case (Cons c rest)
  then have "g_busy_atcmds g = [c]" using assms at_inv_busy[of g c rest] by (simp add: daemon_inv_def)
  then show thesis using that by fastforce
qed

lemma discard_ok:
  assumes inv: "timer_inv now m a g" and ring: "ds_ring_check (g_dev_state g) \<noteq> Some t"
  shows "expires_ok now m a t g (discard_timeout run_cb t (without t g))"
proof (rule busy_own[OF timer_inv_dinv[OF inv], of t])
  assume other: "\<forall>c \<in> set (g_busy_atcmds g). ac_timeout c \<noteq> Some t"
    "g_busy_atcmds g = [] \<or> ac_timeout (hd (g_busy_atcmds g)) \<noteq> Some t"
  then have "discard_timeout run_cb t (without t g) = Some (without t g)"
    by (cases "g_busy_atcmds g") (auto simp: discard_timeout_def)
  then show ?thesis by (rule expires_okI) (use drop_other[OF inv other(1) ring] timer_inv_dinv[OF inv] in auto)
next
  fix c assume own: "g_busy_atcmds g = [c]" "ac_timeout c = Some t"
  let ?c = "c\<lparr>ac_timeout := None\<rparr>"
  let ?g1 = "upd_busy ?c (without t g)"
  note o = drop_own[OF inv own]
  obtain g2 where cb: "(case ac_cb ?c of None \<Rightarrow> Some ?g1 | Some cb \<Rightarrow> map_option snd (run_cb cb ?c ''Timeout'' ?g1)) = Some g2"
    and fr: "cb_frame ?g1 g2"
  proof (cases "ac_cb ?c")
    case None
    then show thesis using that by simp
  next
    case (Some cb)
    obtain rc g2 where "run_cb cb ?c ''Timeout'' ?g1 = Some (rc, g2)"
      using run_cb_ending[OF o(7) Some o(4,8), of "''Timeout''"] by (auto simp: ending_def)
    then show thesis using that Some at.disp_frame by fastforce
  qed
  from cb have "discard_timeout run_cb t (without t g) = Some (wake_if_idle (del_busy ?c g2))"
    using own by (simp add: discard_timeout_def Let_def)
  then show ?thesis by (rule expires_okI) (use finish_own[OF inv own fr] timer_inv_dinv[OF inv] in auto)
qed

lemma wakeup_ok:
  assumes inv: "timer_inv now m a g" and ring: "ds_ring_check (g_dev_state g) \<noteq> Some t"
    and mem: "tm \<in> set (ts_timers (g_timers g))" "tmr_addr tm = t" "tmr_cb tm = Wakeup_timeout"
  shows "expires_ok now m a t g (Some (wakeup_timeout t (without t g)))"
proof (rule busy_own[OF timer_inv_dinv[OF inv], of t])
  assume other: "\<forall>c \<in> set (g_busy_atcmds g). ac_timeout c \<noteq> Some t"
    "g_busy_atcmds g = [] \<or> ac_timeout (hd (g_busy_atcmds g)) \<noteq> Some t"
  then have "Some (wakeup_timeout t (without t g)) = Some (without t g)"
    by (cases "g_busy_atcmds g") (auto simp: wakeup_timeout_def)
  then show ?thesis by (rule expires_okI) (use drop_other[OF inv other(1) ring] timer_inv_dinv[OF inv] in auto)
next
  fix c assume own: "g_busy_atcmds g = [c]" "ac_timeout c = Some t"
  let ?c = "c\<lparr>ac_timeout := None\<rparr>"
  let ?g1 = "upd_busy ?c (without t g)"
  note o = drop_own[OF inv own]
  have "a = None" using inv own mem by (cases a) (auto simp: timer_inv_def in_flight_def woken_def)
  then have g1: "timer_inv now m a ?g1" using o inv by (auto simp: timer_inv_def)
  have w: "wakeup_timeout t (without t g) = (if c_at (ac_buf c) 0 = CHR '' '' then wake_if_idle (del_busy ?c ?g1) else ?g1)"
    using own by (simp add: wakeup_timeout_def Let_def)
  show ?thesis
    by (rule expires_okI[OF refl]) (use w g1 finish_own[OF inv own cb_frame_refl] o(9) timer_inv_dinv[OF inv] in auto)
qed

text \<open>A new alive check: a command is queued, nothing is noted any more, and the queue is awake.\<close>

lemma submit_woken:
  assumes "atcmd_submit cmd g = Some (rc, g')"
  shows "g_busy_atcmds g' = [] \<Longrightarrow> woken g'" and "g_alive_responded g' = g_alive_responded g"
proof -
  obtain g1 where g1: "ex_submit g = Some g1" "g' = wake_if_idle (add_pending_tail cmd g1)"
    using assms by (auto simp: atcmd_submit_def option_bind_Some_iff)
  then show "g_busy_atcmds g' = [] \<Longrightarrow> woken g'" using wake_woken by simp
  have "g_alive_responded g1 = g_alive_responded g"
    using g1(1) by (auto simp: ex_submit_def atcmd_wakeup_modem_def atcmd_fill_def add_pending_tail_def Let_def option_bind_Some_iff
        talloc_eq split_beta split: machine.splits option.splits if_splits)
  then show "g_alive_responded g' = g_alive_responded g" using g1(2) by (simp add: add_pending_tail_def)
qed

lemma modem_alive:
  assumes "no_fail g"
  obtains rc g1 where "gsmd_modem_alive g = Some (rc, g1)" and "cb_frame (g\<lparr>g_alive_responded := False\<rparr>) g1"
    and "\<not> g_alive_responded g1" and "g_busy_atcmds g1 = [] \<Longrightarrow> woken g1"
proof -
  let ?g = "g\<lparr>g_alive_responded := False\<rparr>"
  obtain cmd where c: "atcmd_fill ''AT'' 3 (Some Gsmd_alive_cb) Ctx_gsmd 0 Alive_timer ?g = Some (Some cmd, ?g\<lparr>g_next_addr := g_next_addr g + 1\<rparr>)"
    using fill_total[of ?g 3 "''AT''"] assms by fastforce
  obtain rc g1 where s: "atcmd_submit cmd (?g\<lparr>g_next_addr := g_next_addr g + 1\<rparr>) = Some (rc, g1)"
    using submit_runs[of "?g\<lparr>g_next_addr := g_next_addr g + 1\<rparr>" cmd] assms by (auto simp: runs_def)
  have m: "gsmd_modem_alive g = Some (rc, g1)" using c s by (simp add: gsmd_modem_alive_def)
  have "framed ?g (gsmd_modem_alive g)"
    unfolding gsmd_modem_alive_def by (rule framed_fill_submit) (simp_all add: user_cb_def)
  with that[OF m framedD[OF this m]] submit_woken[OF s] show thesis by simp
qed

lemma interval_ok:
  assumes inv: "timer_inv now m a g" and ring: "ds_ring_check (g_dev_state g) \<noteq> Some (tmr_addr tm)"
    and mem: "tm \<in> set (ts_timers (g_timers g))" "tmr_cb tm = Alive_interval_tmr_cb"
  shows "expires_ok now m a (tmr_addr tm) g (alive_interval_tmr_cb tm (without (tmr_addr tm) g))"
proof -
  let ?t = "tmr_addr tm"
  let ?g0 = "without ?t g"
  have other: "\<forall>c \<in> set (g_busy_atcmds g). ac_timeout c \<noteq> Some ?t" using inv mem by (auto simp: timer_inv_def timers_typed_def)
  note g0 = drop_other[OF inv other ring]
  have nf: "no_fail ?g0" using g0 by (simp add: timer_inv_def)
  obtain rc g1 where m: "gsmd_modem_alive ?g0 = Some (rc, g1)" and fr: "cb_frame (?g0\<lparr>g_alive_responded := False\<rparr>) g1"
    and al: "\<not> g_alive_responded g1" and wk: "g_busy_atcmds g1 = [] \<Longrightarrow> woken g1"
    using modem_alive[OF nf] by metis
  have g1: "daemon_inv g1" by (rule dinv_frame[OF fr]) (use g0 in \<open>simp add: timer_inv_def\<close>)
  have ti: "g_timers g1 = g_timers ?g0" "g_busy_atcmds g1 = g_busy_atcmds g" "no_fail g1"
    "ds_ring_check (g_dev_state g1) = ds_ring_check (g_dev_state g)" "g_exit g1 = None"
    using fr g0 by (auto simp: cb_frame_defs timer_inv_def)
  define ts where "ts = snd (gsmd_timer_register (tm\<lparr>tmr_expires := tv GSMD_ALIVE_INTERVAL 0\<rparr>) (g_timers g1))"
  let ?n = "ts_clock (g_timers g) (ts_reads (g_timers g))"
  let ?t' = "tm\<lparr>tmr_expires := tv (GSMD_ALIVE_INTERVAL + tv_sec ?n) (tv_usec ?n)\<rparr>"
  have ts: "ts_timers ts = ts_timers (g_timers ?g0) @ [?t']" "ts_next ts = ts_next (g_timers g)" "ts_clock ts = ts_clock (g_timers g)"
    "ts_reads (g_timers g) \<le> ts_reads ts"
    by (simp_all add: ts_def ti gsmd_timer_register_def gettimeofday_def calc_next_expiration_def setitimer_def Let_def split_beta
        split: list.split)
  let ?g' = "g1\<lparr>g_timers := ts\<rparr>"
  have clk: "usec_ok ?n" "tv_val now \<le> tv_val ?n" "usec_ok now" using inv by (auto simp: timer_inv_def clock_from_def)
  have late: "\<not> tv_later now (tmr_expires ?t')"
  proof -
    have "usec_ok (tmr_expires ?t')" using clk(1) by (simp add: usec_ok_def)
    then show ?thesis using clk tv_later_val[of now "tmr_expires ?t'"] by (simp add: tv_val_def GSMD_ALIVE_INTERVAL_def)
  qed
  have wf: "timers_wf ts" using dinv_timers_wf[OF timer_inv_dinv[OF inv]] mem(1) ts(1,2)
    by (auto simp: timers_wf_def distinct_map_filter)
  have "daemon_inv (g1\<lparr>g_timers := ts, g_dev_state := g_dev_state g1\<rparr>)"
    by (rule dinv_ring_set[OF g1 wf]) (use busy_timer_known(1)[OF g1] g1 ti(1) ts(1) in \<open>auto simp: daemon_inv_def ring_wf_def\<close>)
  then have "daemon_inv ?g'" by simp
  moreover have "timers_typed ?g'" using g0 ring mem(2) other al ti(2,4) ts(1) by (auto simp: timer_inv_def timers_typed_def)
  moreover have "clock_from now ts" using g0 ts(3,4) by (auto simp: timer_inv_def clock_from_def)
  moreover have "in_flight now x ?g' \<or> woken ?g'" if "a = Some x" for x
  proof -
    have "in_flight now x ?g0 \<or> woken ?g0" using g0 that by (simp add: timer_inv_def)
    then show ?thesis
    proof
      assume "in_flight now x ?g0"
      then have "in_flight now x ?g'" using ti(2) ts(1) other by (auto simp: in_flight_def)
      then show ?thesis ..
    next
      assume "woken ?g0"
      then have "woken g1" using wk ti(2) by (simp add: woken_def)
      then show ?thesis by (simp add: woken_def want_write_def)
    qed
  qed
  moreover have "\<forall>x \<in> set (ts_timers ts). ends_process x \<longrightarrow> tv_later now (tmr_expires x) \<longrightarrow> m"
    using inv late by (auto simp: timer_inv_def ts(1))
  ultimately have "timer_inv now m a ?g'" using ti(3,5) by (simp add: timer_inv_def)
  moreover have "alive_interval_tmr_cb tm ?g0 = Some ?g'" using m by (simp add: alive_interval_tmr_cb_def ts_def)
  ultimately show ?thesis using wf late ts(1) ti(5) by (auto simp: expires_ok_def run_inv_def intro!: exI[of _ "[?t']"])
qed

lemma ringing_ok:
  assumes inv: "timer_inv now m a g" and ring: "ds_ring_check (g_dev_state g) = Some t"
  shows "expires_ok now m a t g (Some (state_ringing_timeout (without t g)))"
proof -
  define g1 where "g1 = (without t g)\<lparr>g_dev_state := (g_dev_state g)\<lparr>ds_ring_check := None\<rparr>\<rparr>"
  define g2 where "g2 = g1\<lparr>g_dev_state := (g_dev_state g1)\<lparr>ds_ringing := False\<rparr>\<rparr>"
  note d = timer_inv_dinv[OF inv]
  have other: "\<forall>c \<in> set (g_busy_atcmds g). ac_timeout c \<noteq> Some t" using d ring by (auto simp: daemon_inv_def ring_wf_def)
  have keep: "timer_inv now m a (g\<lparr>g_timers := g_timers (without t g), g_dev_state := d\<rparr>)" if "ds_ring_check d = None" for d
  proof -
    have "daemon_inv (g\<lparr>g_timers := g_timers (without t g), g_dev_state := d\<rparr>)"
    proof (rule dinv_ring_set[OF d timers_wf_without[OF dinv_timers_wf[OF d]]])
      show "y \<in> tmr_addr ` set (ts_timers (g_timers (without t g)))" if "c \<in> set (g_busy_atcmds g)" "ac_timeout c = Some y" for c y
        using busy_timer_known(1)[OF d that] other that by auto
    qed (use that in simp)
    moreover have "in_flight now x g \<Longrightarrow> in_flight now x (g\<lparr>g_timers := g_timers (without t g), g_dev_state := d\<rparr>)" for x
      by (auto simp: in_flight_def)
    moreover have "woken (g\<lparr>g_timers := ts, g_dev_state := d\<rparr>) = woken g" for ts by (simp add: woken_def want_write_def)
    ultimately show ?thesis using inv that ring by (auto simp: timer_inv_def timers_typed_def clock_from_def)
  qed
  have k: "timer_inv now m a g1" "timer_inv now m a g2" "g_timers g1 = g_timers (without t g)" "g_timers g2 = g_timers (without t g)"
    using keep by (simp_all add: g1_def g2_def)
  have ev: "timer_inv now m a (snd (send_event e ev l x g2))" "g_timers (snd (send_event e ev l x g2)) = g_timers g2" for e ev l x
  proof -
    let ?g = "snd (send_event e ev l x g2)"
    have fr: "cb_frame g2 ?g" by simp
    have same: "g_alive_responded ?g = g_alive_responded g2" "g_pending_atcmds ?g = g_pending_atcmds g2" "g_uart_when ?g = g_uart_when g2"
      by (simp_all add: send_event_def usock_evt_send_def Let_def split_beta talloc_eq)
    have c: "g_busy_atcmds ?g = g_busy_atcmds g2" "g_timers ?g = g_timers g2" "no_fail g2 \<Longrightarrow> no_fail ?g"
      "ds_ring_check (g_dev_state ?g) = ds_ring_check (g_dev_state g2)" "g_exit ?g = g_exit g2"
      using fr by (auto simp: cb_frame_defs)
    show "g_timers ?g = g_timers g2" by (rule c(2))
    show "timer_inv now m a ?g" using k(2) dinv_frame[OF fr] c same
      by (auto simp: timer_inv_def timers_typed_def in_flight_def woken_def want_write_def)
  qed
  have r: "state_ringing_timeout (without t g) =
      (if \<not> ds_ringing (g_dev_state g1) then g1
       else snd (send_event (- 1) GSMD_EVT_IN_CALL sizeof_gsmd_evt_auxdata (Ud_evt (Aux_call 8)) g2))"
    by (simp add: state_ringing_timeout_def Let_def g1_def g2_def)
  show ?thesis by (rule expires_okI[OF refl]) (use r k ev d in auto)
qed

text \<open>The dispatch keeps to the contract of the timer queue.\<close>

lemma run_timer_ok:
  assumes inv: "timer_inv now m a g" and mem: "tm \<in> set (ts_timers (g_timers g))" and due: "tv_later now (tmr_expires tm)"
  shows "expires_ok now m a (tmr_addr tm) g (run_timer tm (without (tmr_addr tm) g))"
proof -
  have typed: "tmr_cb tm = State_ringing_timeout \<longleftrightarrow> ds_ring_check (g_dev_state g) = Some (tmr_addr tm)"
    "\<forall>c \<in> set (g_busy_atcmds g). ac_timeout c = Some (tmr_addr tm) \<longrightarrow> tmr_cb tm = Alive_tmr_cb \<longrightarrow> \<not> g_alive_responded g"
    using inv mem by (auto simp: timer_inv_def timers_typed_def)
  note d = timer_inv_dinv[OF inv]
  show ?thesis
  proof (cases "tmr_cb tm")
    case Discard_timeout
    then show ?thesis using discard_ok[OF inv] typed by (simp add: run_timer_def)
  next
    case Wakeup_timeout
    then show ?thesis using wakeup_ok[OF inv _ mem refl] typed by (simp add: run_timer_def)
  next
    case Alive_tmr_cb
    then have r: "run_timer tm (without (tmr_addr tm) g) = Some (alive_tmr_cb (without (tmr_addr tm) g))" by (simp add: run_timer_def)
    have "m" if "\<not> g_alive_responded g" using inv mem due Alive_tmr_cb by (auto simp: timer_inv_def ends_process_def)
    then show ?thesis
      by (intro expires_okI[OF r]) (use drop_other[OF inv] typed Alive_tmr_cb d in \<open>auto simp: alive_tmr_cb_def\<close>)
  next
    case Alive_interval_tmr_cb
    then show ?thesis using interval_ok[OF inv _ mem] typed by (simp add: run_timer_def)
  next
    case State_ringing_timeout
    then show ?thesis using ringing_ok[OF inv] typed by (simp add: run_timer_def)
  next
    case Poweroff_timeout
    then have "run_timer tm (without (tmr_addr tm) g) = Some ((without (tmr_addr tm) g)\<lparr>g_exit := Some 0\<rparr>)" by (simp add: run_timer_def)
    moreover have "m" using inv mem due Poweroff_timeout by (auto simp: timer_inv_def ends_process_def)
    ultimately show ?thesis by (intro expires_okI) (use d in auto)
  qed
qed

section \<open>The run\<close>

interpretation clk: timer_client daemon_timer now "run_inv now m a" for now m a
proof
  fix s :: timer_state and g :: gsmd
  assume "run_inv now m a (s, g)"
  then show "distinct (map tmr_addr (ts_timers s))"
    using dinv_timers_wf[of "g\<lparr>g_timers := s\<rparr>"] by (auto simp: run_inv_def timer_inv_def timers_wf_def split: if_splits)
next
  fix s :: timer_state and g :: gsmd and t :: gsmd_timer
  let ?s = "s\<lparr>ts_timers := filter (\<lambda>x. tmr_addr x \<noteq> tmr_addr t) (ts_timers s)\<rparr>"
  assume inv: "run_inv now m a (s, g)" and t: "t \<in> set (ts_timers s)" and due: "tv_later now (tmr_expires t)"
  show "\<exists>s' c' new. daemon_timer t (?s, g) = Some (s', c') \<and> run_inv now m a (s', c') \<and>
      ts_timers s' = filter (\<lambda>x. tmr_addr x \<noteq> tmr_addr t) (ts_timers s) @ new \<and> (\<forall>x \<in> set new. \<not> tv_later now (tmr_expires x))"
  proof (cases "g_exit g")
    case (Some e)
    then have "run_inv now m a (?s, g)" using inv by (auto simp: run_inv_def timers_wf_def distinct_map_filter)
    then show ?thesis using Some by (auto simp: daemon_timer_def intro!: exI[of _ "[]"])
  next
    case None
    then have "timer_inv now m a (g\<lparr>g_timers := s\<rparr>)" using inv by (simp add: run_inv_def)
    from run_timer_ok[OF this, of t] t due None show ?thesis by (auto simp: daemon_timer_def expires_ok_def)
  qed
qed

lemma dinv_clock:
  assumes "ts_timers ts = ts_timers (g_timers g)" and "ts_next ts = ts_next (g_timers g)"
  shows "daemon_inv (g\<lparr>g_timers := ts\<rparr>) = daemon_inv g" and "timers_typed (g\<lparr>g_timers := ts\<rparr>) = timers_typed g"
  using assms by (simp_all add: daemon_invs at_inv_def at_wf_def single_flight_def want_write_def timers_wf_def timers_typed_def)

abbreviation alarm_time :: "gsmd \<Rightarrow> timeval" where
  "alarm_time g \<equiv> ts_clock (g_timers g) (ts_reads (g_timers g))"

abbreviation overdue :: "gsmd \<Rightarrow> gsmd_timer \<Rightarrow> bool" where
  "overdue g t \<equiv> tv_later (alarm_time g) (tmr_expires t)"

lemma alarm_run:
  assumes inv: "daemon_inv g" "timers_typed g" "no_fail g" "g_exit g = None" "clock_from (alarm_time g) (g_timers g)"
    and a: "\<forall>x. a = Some x \<longrightarrow> in_flight (alarm_time g) x g \<or> woken g"
  obtains g' new where "sig_alarm g = Some g'"
    and "ts_timers (g_timers g') = filter (\<lambda>t. \<not> overdue g t) (ts_timers (g_timers g)) @ new" and "\<forall>t \<in> set new. \<not> overdue g t"
    and "g_exit g' \<noteq> None \<Longrightarrow> \<exists>t \<in> set (ts_timers (g_timers g)). ends_process t \<and> overdue g t"
    and "g_exit g' = None \<Longrightarrow> daemon_inv g' \<and> timers_typed g' \<and> (\<forall>x. a = Some x \<longrightarrow> in_flight (alarm_time g) x g' \<or> woken g')"
proof -
  let ?now = "alarm_time g"
  let ?s = "(g_timers g)\<lparr>ts_reads := ts_reads (g_timers g) + 1\<rparr>"
  let ?ts = "ts_timers (g_timers g)"
  define m where "m = (\<exists>t \<in> set ?ts. ends_process t \<and> overdue g t)"
  have start: "run_inv ?now m a (?s, g)"
    using inv a dinv_clock[of ?s g]
    by (auto simp: run_inv_def timer_inv_def clock_from_def in_flight_def woken_def want_write_def m_def)
  obtain s1 g1 new where run: "run_expired daemon_timer (filter (overdue g) ?ts) (?s, g) = Some (s1, g1)"
    and s1: "run_inv ?now m a (s1, g1)" "ts_timers s1 = filter (\<lambda>t. \<not> overdue g t) ?ts @ new" "filter (overdue g) new = []"
    using clk.run_expired_total[OF start, of "[]" ?ts "[]"] by auto
  have loop: "check_loop daemon_timer ?now (case ?ts of [] \<Rightarrow> None | t # _ \<Rightarrow> Some (tmr_addr t)) (?s, g) = Some (s1, g1)"
    using clk.check_loop_runs[OF start, of "[]" ?ts] run by simp
  define s2 where "s2 = snd (calc_next_expiration s1)"
  have "sig_alarm g = Some (g1\<lparr>g_timers := s2\<rparr>)"
    using loop by (simp add: sig_alarm_def gsmd_timer_check_n_run_def gettimeofday_def s2_def)
  moreover have "ts_timers s2 = filter (\<lambda>t. \<not> overdue g t) ?ts @ new" using s1(2) by (simp add: s2_def)
  moreover have "daemon_inv (g1\<lparr>g_timers := s2\<rparr>) \<and> timers_typed (g1\<lparr>g_timers := s2\<rparr>) \<and>
      (\<forall>x. a = Some x \<longrightarrow> in_flight (alarm_time g) x (g1\<lparr>g_timers := s2\<rparr>) \<or> woken (g1\<lparr>g_timers := s2\<rparr>))" if "g_exit g1 = None"
    using s1(1) that dinv_clock[of s2 "g1\<lparr>g_timers := s1\<rparr>"]
    by (auto simp: run_inv_def timer_inv_def s2_def in_flight_def woken_def want_write_def)
  moreover have "g_exit g1 \<noteq> None \<Longrightarrow> \<exists>t \<in> set ?ts. ends_process t \<and> overdue g t" using s1(1) by (simp add: run_inv_def m_def)
  ultimately show thesis using that[of "g1\<lparr>g_timers := s2\<rparr>" new] s1(3) by (simp add: filter_empty_conv)
qed

section \<open>Properties\<close>

text \<open>
  C14. The alarm handler comes to an end and leaves no timer overdue, when the daemon is in a state that satisfies
  its invariant (\<open>daemon_inv\<close>) and \<open>timers_typed\<close>: the ring timer is the one the device state
  points to, and the timer of the command in flight is a command's timer, and not that of an alive check while
  an answer to an earlier alive check is noted (in that state, which the daemon can reach, the callback frees the timer
  but leaves it as the timeout of the command). As long as moreover no allocation
  fails, the process has not ended, and the clock is canonical and does not go back, then whichever timers have
  expired, each of their callbacks returns; afterwards the list holds the timers that had not expired, in their
  order, followed by those that the callbacks set, none of which is due. The process
  ends only if the timer of an alive check or of switching off has expired; if it does not, the
  invariant of the daemon and \<open>timers_typed\<close> hold again.
\<close>

theorem alarm_runs_expired:
  assumes "daemon_inv g" and "timers_typed g" and "no_fail g" and "g_exit g = None" and "clock_from (alarm_time g) (g_timers g)"
  shows "\<exists>g' new. sig_handler SIGALRM g = Some g' \<and>
    ts_timers (g_timers g') = filter (\<lambda>t. \<not> overdue g t) (ts_timers (g_timers g)) @ new \<and>
    (\<forall>t \<in> set new. \<not> overdue g t) \<and> 
    (if g_exit g' = None then daemon_inv g' \<and> timers_typed g'
     else \<exists>t \<in> set (ts_timers (g_timers g)). ends_process t \<and> overdue g t)"
proof -
  have "\<forall>x. None = Some x \<longrightarrow> in_flight (alarm_time g) x g \<or> woken g" by simp
  from alarm_run[OF assms this] show ?thesis unfolding sig_handler.simps by metis
qed

text \<open>
  C11. A modem that does not answer does not block the daemon. When the 60 seconds of the
  command in flight are over, the alarm handler drops the command, whatever else has
  expired with it and whatever its callback is, and unless one of these ended the process, the device is
  being watched for the next command if there is one. The state satisfies the invariant of the daemon and
  \<open>timers_typed\<close>, no allocation fails, the process has not ended, and the clock is canonical and does not go back.
\<close>

theorem unanswered_command_given_up:
  assumes "daemon_inv g" and "timers_typed g" and "no_fail g" and "g_exit g = None" and "clock_from (alarm_time g) (g_timers g)"
    and "g_busy_atcmds g = [c]" and "ac_timeout c = Some (tmr_addr t)"
    and "t \<in> set (ts_timers (g_timers g))" and "tmr_cb t = Discard_timeout" and "overdue g t"
  shows "\<exists>g'. sig_handler SIGALRM g = Some g' \<and>
    (if g_exit g' = None then g_busy_atcmds g' = [] \<and> (g_pending_atcmds g' \<noteq> [] \<longrightarrow> want_write g')
     else \<exists>t \<in> set (ts_timers (g_timers g)). ends_process t \<and> overdue g t)"
proof -
  have wf: "distinct (map tmr_addr (ts_timers (g_timers g)))" using dinv_timers_wf[OF assms(1)] by (simp add: timers_wf_def)
  have uniq: "x = t" if "x \<in> set (ts_timers (g_timers g))" "tmr_addr x = tmr_addr t" for x
    using wf that assms(8) by (auto simp: distinct_map dest: inj_onD)
  have "\<forall>x. Some (tmr_addr t) = Some x \<longrightarrow> in_flight (alarm_time g) x g \<or> woken g"
    using assms(6,7,9,10) uniq by (auto simp: in_flight_def)
  from alarm_run[OF assms(1-5) this] obtain g' new where g': "sig_alarm g = Some g'"
    and ts: "ts_timers (g_timers g') = filter (\<lambda>t. \<not> overdue g t) (ts_timers (g_timers g)) @ new" "\<forall>t \<in> set new. \<not> overdue g t"
    and ex: "g_exit g' \<noteq> None \<Longrightarrow> \<exists>t \<in> set (ts_timers (g_timers g)). ends_process t \<and> overdue g t"
    and inv: "g_exit g' = None \<Longrightarrow> daemon_inv g' \<and> (in_flight (alarm_time g) (tmr_addr t) g' \<or> woken g')" by metis
  have "\<not> in_flight (alarm_time g) (tmr_addr t) g'" if d: "daemon_inv g'"
  proof
    assume f: "in_flight (alarm_time g) (tmr_addr t) g'"
    then obtain c' where "g_busy_atcmds g' = [c']" "ac_timeout c' = Some (tmr_addr t)" by (auto simp: in_flight_def)
    then have "tmr_addr t \<in> tmr_addr ` set (ts_timers (g_timers g'))" using busy_timer_known(1)[OF d, of c'] by simp
    then obtain x where x: "x \<in> set (ts_timers (g_timers g'))" "tmr_addr x = tmr_addr t" by auto
    have "overdue g x" using f x unfolding in_flight_def by blast
    moreover have "\<not> overdue g x" using x(1) ts(2) unfolding ts(1) set_append Un_iff set_filter mem_Collect_eq by blast
    ultimately show False by blast
  qed
  then show ?thesis using g' inv ex by (auto simp: woken_def)
qed

text \<open>A daemon whose command has been with the modem for a minute, with one more command waiting.\<close>

definition gsmd_stuck :: gsmd where
  "gsmd_stuck = gsmd_busy\<lparr>
     g_pending_atcmds := [example_cmd\<lparr>ac_addr := 1\<rparr>], g_next_addr := 2,
     g_busy_atcmds := [example_cmd\<lparr>ac_timeout := Some 0\<rparr>],
     g_timers := \<lparr>ts_timers = [\<lparr>tmr_addr = 0, tmr_expires = tv 60 0, tmr_cb = Discard_timeout\<rparr>], ts_itimer = tv 0 0,
       ts_clock = \<lambda>n. tv 61 0, ts_reads = 0, ts_next = 1\<rparr>\<rparr>"

lemma gsmd_stuck_ok:
  "daemon_inv gsmd_stuck" "timers_typed gsmd_stuck" "no_fail gsmd_stuck" "g_exit gsmd_stuck = None"
  "clock_from (alarm_time gsmd_stuck) (g_timers gsmd_stuck)"
proof -
  show "daemon_inv gsmd_stuck" using llparser_new_wf
    by (simp add: daemon_invs at_inv_def at_wf_def single_flight_def want_write_def gsmd_zero_def gsmd_busy_def gsmd_stuck_def
        timers_wf_def GSMD_FD_READ_def GSMD_FD_WRITE_def example_cmd_def example_user_def live_for_def cmd_wf_def)
qed (simp_all add: gsmd_stuck_def gsmd_busy_def gsmd_zero_def timers_typed_def example_cmd_def clock_from_def usec_ok_def)

lemma alarm_runs_expired_witness:
  "\<exists>g'. sig_handler SIGALRM gsmd_stuck = Some g' \<and> daemon_inv g' \<and> \<not> list_ex (overdue gsmd_stuck) (ts_timers (g_timers g'))"
proof -
  from alarm_runs_expired[OF gsmd_stuck_ok] obtain g' new where g': "sig_handler SIGALRM gsmd_stuck = Some g'"
    and t: "ts_timers (g_timers g') = filter (\<lambda>t. \<not> overdue gsmd_stuck t) (ts_timers (g_timers gsmd_stuck)) @ new"
      "\<forall>t \<in> set new. \<not> overdue gsmd_stuck t"
    and e: "if g_exit g' = None then daemon_inv g' \<and> timers_typed g'
      else \<exists>t \<in> set (ts_timers (g_timers gsmd_stuck)). ends_process t \<and> overdue gsmd_stuck t" by blast
  have "daemon_inv g'" using e by (simp add: gsmd_stuck_def ends_process_def split: if_splits)
  moreover have "\<not> list_ex (overdue gsmd_stuck) (ts_timers (g_timers g'))" using t(2) unfolding t(1) by (auto simp: list_ex_iff)
  ultimately show ?thesis using g' by blast
qed

lemma unanswered_command_given_up_witness:
  "\<exists>g'. sig_handler SIGALRM gsmd_stuck = Some g' \<and> g_busy_atcmds g' = [] \<and> g_exit g' = None"
proof -
  let ?t = "\<lparr>tmr_addr = 0, tmr_expires = tv 60 0, tmr_cb = Discard_timeout\<rparr>"
  have "\<exists>g'. sig_handler SIGALRM gsmd_stuck = Some g' \<and>
    (if g_exit g' = None then g_busy_atcmds g' = [] \<and> (g_pending_atcmds g' \<noteq> [] \<longrightarrow> want_write g')
     else \<exists>t \<in> set (ts_timers (g_timers gsmd_stuck)). ends_process t \<and> overdue gsmd_stuck t)"
    by (rule unanswered_command_given_up[OF gsmd_stuck_ok, of "example_cmd\<lparr>ac_timeout := Some 0\<rparr>" ?t]) (simp_all add: gsmd_stuck_def tv_later_def)
  then show ?thesis by (auto simp: gsmd_stuck_def ends_process_def split: if_splits)
qed

end
