(* ===== verification/SmsPack.thy ===== *)
theory SmsPack
  imports SmsPdu CLib
begin

text \<open>
  The text of short messages on the client's side (\<open>src/libgsmd/libgsmd_sms.c\<close>): packing
  characters of seven bits into octets and back, and the conversion of numbers.  \<open>char\<close> is
  unsigned, as on the phone's processor.
\<close>

unbundle bit_operations_syntax

section \<open>Data\<close>

definition LGSM_SMS_ADDR_MAXLEN :: nat where "LGSM_SMS_ADDR_MAXLEN = 12"
definition LGSM_SMS_DATA_MAXLEN :: nat where "LGSM_SMS_DATA_MAXLEN = 140"

record lgsm_sms =
  ls_addr :: "char list"
  ls_alpha :: int
  ls_data :: "u8 list"
  ls_length :: int
  ls_ask_ds :: int

section \<open>Packing\<close>

text \<open>\<open>src[i] & 0x7F\<close>; the terminator may be read.\<close>

definition septet :: "string \<Rightarrow> nat \<Rightarrow> u8" where
  "septet src i = of_nat (ord_c (c_at src i)) AND 0x7F"

text \<open>
  The loop.  The test of the index comes too late by one: an element behind the array is
  written, which is \<open>None\<close> here.
\<close>

function pack_loop :: "string \<Rightarrow> nat \<Rightarrow> nat \<Rightarrow> nat \<Rightarrow> u8 list \<Rightarrow> (nat \<times> nat \<times> u8 list) option" where
  "pack_loop src i j shift data =
     (if i < length src then
        let ch = drop_bit shift (septet src i) OR push_bit (7 - shift) (septet src (i + 1)) in
        if LGSM_SMS_DATA_MAXLEN + 1 < j then Some (i, j, data)
        else if length data \<le> j then None
        else if shift + 1 = 7 then pack_loop src (i + 2) (j + 1) 0 (data[j := ch])
        else pack_loop src (i + 1) (j + 1) (shift + 1) (data[j := ch])
      else Some (i, j, data))"
  by pat_completeness auto
termination
  by (relation "measure (\<lambda>(src, i, j, shift, data). length src - i)") auto

declare pack_loop.simps [simp del]

definition packing_7bit_character :: "string \<Rightarrow> lgsm_sms \<Rightarrow> (int \<times> lgsm_sms) option" where
  "packing_7bit_character src dest = do {
     (i, j, data) \<leftarrow> pack_loop src 0 0 0 (ls_data dest);
     Some (int j, dest\<lparr>ls_alpha := 0, ls_data := data, ls_length := int i\<rparr>) }"

section \<open>Unpacking\<close>

text \<open>Character \<open>i\<close> of packed data.\<close>

definition septet_at :: "u8 list \<Rightarrow> nat \<Rightarrow> char option" where
  "septet_at data i = do {
     hi \<leftarrow> rd data (drop_bit 3 (i * 7 + 7));
     lo \<leftarrow> rd data (drop_bit 3 (i * 7));
     Some (char_of (nat ((push_bit (7 - ((i * 7 + 7) AND 7)) (uint hi) OR drop_bit ((i * 7) AND 7) (uint lo)) AND 0x7f))) }"

fun unpack_loop :: "u8 list \<Rightarrow> nat list \<Rightarrow> char list option" where
  "unpack_loop data [] = Some []"
| "unpack_loop data (i # is) = do {
     c \<leftarrow> septet_at data i;
     cs \<leftarrow> unpack_loop data is;
     Some (c # cs) }"

text \<open>The result is what is written to \<open>dest\<close>, with the terminator, and the return value.\<close>

definition unpacking_7bit_character :: "gsmd_sms \<Rightarrow> (int \<times> char list) option" where
  "unpacking_7bit_character src = do {
     l \<leftarrow> (if sms_has_header src then map_option (\<lambda>d. (unat d * 8 + 14) div 7) (rd (sms_data src) 0) else Some 0);
     cs \<leftarrow> unpack_loop (sms_data src) [l..<unat (sms_length src)];
     Some (int (max l (unat (sms_length src))) - int l, cs @ [NUL]) }"

fun cbm_unpack_loop :: "u8 list \<Rightarrow> nat list \<Rightarrow> (nat \<times> char list) option" where
  "cbm_unpack_loop data [] = Some (0, [])"
| "cbm_unpack_loop data (i # is) = do {
     c \<leftarrow> septet_at data i;
     if c = NUL then Some (1, [c])
     else do { (n, cs) \<leftarrow> cbm_unpack_loop data is; Some (n + 1, c # cs) } }"

definition cbm_unpacking_7bit_character :: "u8 list \<Rightarrow> (int \<times> char list) option" where
  "cbm_unpacking_7bit_character src = do {
     (n, cs) \<leftarrow> cbm_unpack_loop src [0..<93];
     Some (int n, cs @ [NUL]) }"

section \<open>Numbers\<close>

text \<open>\<open>strcpy\<close> into the array of an address.\<close>

definition strcpy_number :: "char list \<Rightarrow> string \<Rightarrow> char list option" where
  "strcpy_number a s = memcpy a 0 (s @ [NUL])"

definition lgsm_number2addr :: "gsmd_addr \<Rightarrow> string \<Rightarrow> nat \<Rightarrow> (int \<times> gsmd_addr) option" where
  "lgsm_number2addr dst src skipplus =
     (if GSMD_ADDR_MAXLEN + 1 < length src + 1 then Some (1, dst)
      else let intl = (c_at src 0 = CHR ''+'') in do {
        number \<leftarrow> strcpy_number (ga_number dst) (if intl then drop skipplus src else src);
        let dst' = \<lparr>ga_type = (if intl then 0x91 else 0x81), ga_number = number\<rparr>;
        s \<leftarrow> cstr_of_array number;
        Some (if list_all isdigit s then 0 else 1, dst') })"

section \<open>Packed text as a stream of bits\<close>

text \<open>Bit \<open>n\<close> of the septets of a text, one behind the other, and the octets that hold them.\<close>

definition text_bit :: "string \<Rightarrow> nat \<Rightarrow> bool" where
  "text_bit s n = bit (septet s (n div 7)) (n mod 7)"

definition holds :: "string \<Rightarrow> u8 list \<Rightarrow> nat \<Rightarrow> bool" where
  "holds s data j \<longleftrightarrow> (\<forall>k < j. \<forall>b < 8. bit (data ! k) b = text_bit s (8 * k + b))"

lemma bit_septet: "bit (septet s i) b \<longleftrightarrow> b < 7 \<and> bit (ord_c (c_at s i)) b"
proof -
  have m: "(0x7F :: u8) = mask 7" by (simp add: mask_eq_exp_minus_1)
  show ?thesis unfolding septet_def m by (auto simp: bit_and_iff bit_mask_iff bit_of_nat_iff bit_simps)
qed

lemma pack_octet:
  assumes "shift < 7" and "b < 8"
  shows "bit (drop_bit shift (septet s i) OR push_bit (7 - shift) (septet s (i + 1))) b =
    bit (septet s (i + (shift + b) div 7)) ((shift + b) mod 7)"
proof (cases "shift + b < 7")
  case True
  then show ?thesis using assms by (auto simp: bit_or_iff bit_drop_bit_eq bit_push_bit_iff)
next
  case False
  then have "(shift + b) div 7 = 1" "(shift + b) mod 7 = b - (7 - shift)"
    using assms by (auto simp: div_if mod_if)
  moreover have "\<not> bit (septet s i) (shift + b)" using False by (simp add: bit_septet)
  ultimately show ?thesis using assms False by (auto simp: bit_or_iff bit_drop_bit_eq bit_push_bit_iff bit_septet)
qed

lemma stream_position: "(8 * j + b) div 7 = (j + j div 7) + (j mod 7 + b) div 7" "(8 * j + b) mod 7 = (j mod 7 + b) mod 7" for j b :: nat
proof -
  have split7: "(7 * x + y) div 7 = x + y div 7" "(7 * x + y) mod 7 = y mod 7" for x y :: nat by simp_all
  have "8 * j + b = 7 * (j + j div 7) + (j mod 7 + b)" by presburger
  then show "(8 * j + b) div 7 = (j + j div 7) + (j mod 7 + b) div 7" "(8 * j + b) mod 7 = (j mod 7 + b) mod 7"
    by (simp_all only: split7)
qed

text \<open>One octet more.\<close>

lemma holds_step:
  assumes "holds s data j" and "j < length data"
  shows "holds s (data[j := drop_bit (j mod 7) (septet s (j + j div 7)) OR push_bit (7 - j mod 7) (septet s (j + j div 7 + 1))]) (j + 1)"
  unfolding holds_def
proof (intro allI impI)
  fix k b :: nat assume k: "k < j + 1" and b: "b < 8"
  let ?ch = "drop_bit (j mod 7) (septet s (j + j div 7)) OR push_bit (7 - j mod 7) (septet s (j + j div 7 + 1))"
  show "bit (data[j := ?ch] ! k) b = text_bit s (8 * k + b)"
  proof (cases "k = j")
    case True
    have "bit ?ch b = bit (septet s (j + j div 7 + (j mod 7 + b) div 7)) ((j mod 7 + b) mod 7)"
      by (rule pack_octet) (use b in auto)
    then show ?thesis using True assms(2) by (simp add: text_bit_def stream_position)
  next
    case False
    then show ?thesis using assms k b by (simp add: holds_def)
  qed
qed

text \<open>The number of septets that the loop counts.\<close>

definition packed_length :: "string \<Rightarrow> nat" where
  "packed_length s = (if length s mod 8 = 7 then length s + 1 else length s)"

lemma pack_loop_packs:
  assumes "shift = j mod 7" and "i = j + j div 7" and "i \<le> packed_length s" and "length s \<le> 160"
    and "length data = LGSM_SMS_DATA_MAXLEN + 1" and "holds s data j"
  shows "\<exists>j' data'. pack_loop s i j shift data = Some (packed_length s, j', data') \<and> packed_length s = j' + j' div 7 \<and>
    length data' = LGSM_SMS_DATA_MAXLEN + 1 \<and> holds s data' j'"
  using assms
proof (induction s i j shift data rule: pack_loop.induct)
  case (1 s i j shift data)
  have i8: "i mod 8 = j mod 7" "i mod 8 < 7"
  proof -
    have "i = 8 * (j div 7) + j mod 7" using 1(4) by presburger
    then show "i mod 8 = j mod 7" by simp
    then show "i mod 8 < 7" by simp
  qed
  show ?case
  proof (cases "i < length s")
    case False
    have "i \<noteq> length s \<or> length s mod 8 \<noteq> 7" using i8 by auto
    then have "i = packed_length s" using False 1(5) by (auto simp: packed_length_def split: if_splits)
    then show ?thesis using False 1 by (subst pack_loop.simps) simp
  next
    case True
    have j: "j < length data" "\<not> LGSM_SMS_DATA_MAXLEN + 1 < j"
      using 1(4,6,7) True by (simp_all add: LGSM_SMS_DATA_MAXLEN_def)
    let ?ch = "drop_bit shift (septet s i) OR push_bit (7 - shift) (septet s (i + 1))"
    have holds': "holds s (data[j := ?ch]) (j + 1)" using holds_step[OF 1(8) j(1)] 1(3,4) by simp
    show ?thesis
    proof (cases "shift + 1 = 7")
      case wrap: True
      have "j mod 7 = 6" using wrap 1(3) by simp
      then have "(j + 1) mod 7 = 0" "(j + 1) div 7 = j div 7 + 1" by (auto simp: mod_Suc div_Suc)
      moreover have "i + 2 \<le> packed_length s"
      proof (cases "length s = i + 1")
        case True
        then have "length s mod 8 = 7" using i8 \<open>j mod 7 = 6\<close> by (simp add: mod_Suc)
        then show ?thesis using True by (simp add: packed_length_def)
      next
        case False
        then show ?thesis using \<open>i < length s\<close> by (simp add: packed_length_def)
      qed
      ultimately have "\<exists>j' data'. pack_loop s (i + 2) (j + 1) 0 (data[j := ?ch]) = Some (packed_length s, j', data') \<and>
          packed_length s = j' + j' div 7 \<and> length data' = LGSM_SMS_DATA_MAXLEN + 1 \<and> holds s data' j'"
        using True j wrap holds' 1(4,6,7) by (intro 1(1)[OF True refl]) simp_all
      then show ?thesis using True j wrap by (subst pack_loop.simps) (simp add: Let_def)
    next
      case False
      have "j mod 7 \<noteq> 6" using False 1(3) by simp
      then have "(j + 1) mod 7 = shift + 1" "(j + 1) div 7 = j div 7" using 1(3) by (auto simp: mod_Suc div_Suc)
      moreover have "i + 1 \<le> packed_length s" using True by (simp add: packed_length_def)
      ultimately have "\<exists>j' data'. pack_loop s (i + 1) (j + 1) (shift + 1) (data[j := ?ch]) = Some (packed_length s, j', data') \<and>
          packed_length s = j' + j' div 7 \<and> length data' = LGSM_SMS_DATA_MAXLEN + 1 \<and> holds s data' j'"
        using True j False holds' 1(4,6,7) by (intro 1(2)[OF True refl]) simp_all
      then show ?thesis using True j False by (subst pack_loop.simps) (simp add: Let_def)
    qed
  qed
qed

lemma and_mask_nat: "n AND 7 = n mod 8" "drop_bit 3 n = n div 8" for n :: nat
proof -
  have "(7 :: nat) = mask 3" by (simp add: mask_eq_exp_minus_1)
  then have "n AND 7 = take_bit 3 n" by (simp add: take_bit_eq_mask)
  then show "n AND 7 = n mod 8" by (simp add: take_bit_eq_mod)
qed (simp add: drop_bit_eq_div)

lemma next_octet:
  fixes n :: nat
  shows "n mod 8 = 0 \<Longrightarrow> (n + 7) div 8 = n div 8 \<and> (n + 7) mod 8 = 7"
    and "n mod 8 \<noteq> 0 \<Longrightarrow> (n + 7) div 8 = n div 8 + 1 \<and> (n + 7) mod 8 = n mod 8 - 1"
proof -
  define q r where "q = n div 8" and "r = n mod 8"
  have n: "n = 8 * q + r" "r < 8" by (simp_all add: q_def r_def)
  show "n mod 8 = 0 \<Longrightarrow> (n + 7) div 8 = n div 8 \<and> (n + 7) mod 8 = 7" using n by simp
  assume "n mod 8 \<noteq> 0"
  then have "n + 7 = 8 * (q + 1) + (r - 1)" "r - 1 < 8" using n by auto
  then have "(n + 7) div 8 = q + 1" "(n + 7) mod 8 = r - 1" by (simp_all only: div_mult_self4 mod_mult_self4) simp_all
  then show "(n + 7) div 8 = n div 8 + 1 \<and> (n + 7) mod 8 = n mod 8 - 1" by (simp add: q_def r_def)
qed

text \<open>A septet is read back from the octets that hold it.\<close>

lemma octet_pair_bit:
  fixes hi lo :: u8
  assumes "b < 7" and "k < 8" and "m < 8"
  shows "bit ((push_bit k (uint hi) OR drop_bit m (uint lo)) AND 0x7f) b \<longleftrightarrow>
    k \<le> b \<and> bit hi (b - k) \<or> m + b < 8 \<and> bit lo (m + b)"
proof -
  have m: "(0x7f :: int) = mask 7" by (simp add: mask_eq_exp_minus_1)
  have "bit hi n \<Longrightarrow> n < 8" "bit lo n \<Longrightarrow> n < 8" for n using bit_imp_le_length[of hi n] bit_imp_le_length[of lo n] by simp_all
  then show ?thesis unfolding m using assms
    by (auto simp: bit_and_iff bit_or_iff bit_push_bit_iff bit_drop_bit_eq bit_mask_iff bit_uint_iff)
qed

lemma septet_bits:
  fixes hi lo :: u8
  assumes lo: "\<And>b. b < 8 \<Longrightarrow> bit lo b = text_bit s (8 * (7 * i div 8) + b)"
    and hi: "\<And>b. 1 < 7 * i mod 8 \<or> 7 * i mod 8 = 0 \<Longrightarrow> b < 8 \<Longrightarrow> bit hi b = text_bit s (8 * ((7 * i + 7) div 8) + b)"
  shows "(push_bit (7 - (7 * i + 7) mod 8) (uint hi) OR drop_bit (7 * i mod 8) (uint lo)) AND 0x7f = uint (septet s i)" (is "?v = _")
proof (rule bit_eqI)
  fix b :: nat
  define p m where "p = 7 * i div 8" and "m = 7 * i mod 8"
  have pos: "8 * p + m = 7 * i" "m < 8" by (simp_all add: p_def m_def)
  show "bit ?v b = bit (uint (septet s i)) b"
  proof (cases "b < 7")
    case False
    have m7: "(0x7f :: int) = mask 7" by (simp add: mask_eq_exp_minus_1)
    have "\<not> bit ?v b" unfolding m7 using False by (simp add: bit_and_iff bit_mask_iff)
    then show ?thesis using False by (simp add: bit_uint_iff bit_septet)
  next
    case b: True
    have own: "bit (uint (septet s i)) b = text_bit s (7 * i + b)" using b by (simp add: text_bit_def bit_uint_iff)
    have k: "7 - (7 * i + 7) mod 8 < 8" by simp
    have v: "bit ?v b \<longleftrightarrow> 7 - (7 * i + 7) mod 8 \<le> b \<and> bit hi (b - (7 - (7 * i + 7) mod 8)) \<or> m + b < 8 \<and> bit lo (m + b)"
      using octet_pair_bit[OF b k pos(2)] by (simp add: m_def)
    show ?thesis
    proof (cases "m = 0")
      case True
      then have "(7 * i + 7) div 8 = p" "(7 * i + 7) mod 8 = 7" using next_octet(1)[of "7 * i"] by (simp_all add: p_def m_def)
      moreover have "bit hi b = text_bit s (8 * ((7 * i + 7) div 8) + b)" using hi[of b] True b by (simp add: m_def)
      moreover have "bit lo b = text_bit s (8 * p + b)" using lo[of b] b by (simp add: p_def)
      ultimately show ?thesis using v own b pos True by simp
    next
      case False
      have n: "(7 * i + 7) div 8 = p + 1" "(7 * i + 7) mod 8 = m - 1"
        using next_octet(2)[of "7 * i"] False by (simp_all add: p_def m_def)
      have k': "7 - (m - 1) = 8 - m" using False pos by simp
      show ?thesis
      proof (cases "m + b < 8")
        case True
        have "bit lo (m + b) = text_bit s (8 * p + (m + b))" using lo[OF True] by (simp add: p_def)
        moreover have "8 * p + (m + b) = 7 * i + b" using pos by simp
        moreover have "\<not> 8 - m \<le> b" using True by simp
        ultimately show ?thesis unfolding v own unfolding n k' using True by simp
      next
        case over: False
        have "1 < m" using over b pos by simp
        then have "bit hi (b - (8 - m)) = text_bit s (8 * (p + 1) + (b - (8 - m)))"
          using hi[of "b - (8 - m)"] b n(1) by (simp add: m_def)
        moreover have "8 * (p + 1) + (b - (8 - m)) = 7 * i + b" using pos over by simp
        moreover have "8 - m \<le> b" using over by simp
        ultimately show ?thesis unfolding v own unfolding n k' using over by simp
      qed
    qed
  qed
qed

lemma packed_septet:
  assumes "holds s data j" and "packed_length s = j + j div 7" and "i < packed_length s" and "j < length data"
  shows "septet_at data i = Some (char_of (unat (septet s i)))"
proof -
  have "j = 7 * (j div 7) + j mod 7" by simp
  then have bound: "7 * i + 7 \<le> 8 * j" using assms(2,3) by linarith
  then have inside: "7 * i div 8 < j" "(7 * i + 7) div 8 \<le> j" by linarith+
  have next_in: "(7 * i + 7) div 8 < j" if "1 < 7 * i mod 8 \<or> 7 * i mod 8 = 0"
  proof (rule ccontr)
    assume "\<not> ?thesis"
    then have "7 * i + 7 = 8 * j" using bound inside by linarith
    then have "7 * i = 8 * (j - 1) + 1" by linarith
    then show False using that by simp
  qed
  have "(push_bit (7 - (7 * i + 7) mod 8) (uint (data ! ((7 * i + 7) div 8))) OR
      drop_bit (7 * i mod 8) (uint (data ! (7 * i div 8)))) AND 0x7f = uint (septet s i)"
    using assms(1) inside next_in by (intro septet_bits) (simp_all add: holds_def)
  then show ?thesis using inside assms(4)
    by (simp add: septet_at_def and_mask_nat mult.commute[of i 7])
qed

lemma packed_text:
  assumes "holds s data j" and "packed_length s = j + j div 7" and "j < length data" and "n \<le> packed_length s"
  shows "unpack_loop data [m..<n] = Some (map (\<lambda>i. char_of (unat (septet s i))) [m..<n])"
  using assms(4)
proof (induction "n - m" arbitrary: m)
  case (Suc x)
  then have "m < n" by simp
  then show ?case using Suc packed_septet[OF assms(1,2) _ assms(3), of m] by (simp add: upt_conv_Cons)
qed simp

lemma septet_char: "ord_c (c_at s i) < 128 \<Longrightarrow> char_of (unat (septet s i)) = c_at s i"
proof -
  assume "ord_c (c_at s i) < 128"
  moreover have "x AND mask 7 = x mod 128" for x :: nat by (simp add: take_bit_eq_mod flip: take_bit_eq_mask)
  then have "x AND 0x7F = x mod 128" for x :: nat by (simp add: mask_eq_exp_minus_1)
  ultimately have "unat (septet s i) = ord_c (c_at s i)"
    by (simp add: septet_def unsigned_and_eq unat_of_nat)
  then show ?thesis by (simp add: ord_c_def)
qed

text \<open>The texts that the alphabet can carry; a message holds 160 characters.\<close>

definition text_7bit :: "string \<Rightarrow> bool" where
  "text_7bit s \<longleftrightarrow> (\<forall>c \<in> set s. c \<noteq> NUL \<and> ord_c c < 128) \<and> length s \<le> 160"

lemma packed_chars:
  assumes "text_7bit s"
  shows "map (\<lambda>i. char_of (unat (septet s i))) [0..<packed_length s] = (if length s mod 8 = 7 then s @ [NUL] else s)"
proof -
  have "map (\<lambda>i. char_of (unat (septet s i))) [0..<length s] = map ((!) s) [0..<length s]"
    using assms by (intro map_cong) (simp_all add: septet_char c_at_nth text_7bit_def)
  moreover have "char_of (unat (septet s (length s))) = NUL"
    using septet_char[of s "length s"] by (simp add: c_at_end ord_c_def)
  ultimately show ?thesis by (simp add: packed_length_def map_nth)
qed

lemma packed_octets: "n = j + j div 7 \<Longrightarrow> (n * 7 + 7) div 8 = j" for n j :: nat
proof -
  assume "n = j + j div 7"
  then have "n * 7 + 7 = 8 * j + (7 - j mod 7)" "7 - j mod 7 < 8" by presburger+
  then show ?thesis by simp
qed

text \<open>What packing leaves in the message, and what any message with the same octets unpacks to.\<close>

lemma packing_7bit_packs:
  assumes "text_7bit s" and "length (ls_data dest) = LGSM_SMS_DATA_MAXLEN + 1"
  obtains j d where "packing_7bit_character s dest = Some (int j, d)" and "ls_alpha d = 0"
    and "ls_length d = int (packed_length s)" and "packed_length s = j + j div 7"
    and "length (ls_data d) = LGSM_SMS_DATA_MAXLEN + 1" and "holds s (ls_data d) j"
    and "ls_addr d = ls_addr dest" and "ls_ask_ds d = ls_ask_ds dest"
proof -
  have "\<exists>j' data'. pack_loop s 0 0 0 (ls_data dest) = Some (packed_length s, j', data') \<and> packed_length s = j' + j' div 7 \<and>
      length data' = LGSM_SMS_DATA_MAXLEN + 1 \<and> holds s data' j'"
    using assms by (intro pack_loop_packs) (simp_all add: text_7bit_def holds_def)
  then obtain j' data' where "pack_loop s 0 0 0 (ls_data dest) = Some (packed_length s, j', data')" "packed_length s = j' + j' div 7"
    "length data' = LGSM_SMS_DATA_MAXLEN + 1" "holds s data' j'" by blast
  then show thesis by (intro that[of j' "dest\<lparr>ls_alpha := 0, ls_data := data', ls_length := int (packed_length s)\<rparr>"])
      (simp_all add: packing_7bit_character_def)
qed

lemma holds_take: "holds s data j \<Longrightarrow> take j data' = take j data \<Longrightarrow> holds s data' j"
  unfolding holds_def by (metis nth_take)

lemma packed_length_le: "text_7bit s \<Longrightarrow> packed_length s \<le> 160"
proof -
  assume "text_7bit s"
  then have le: "length s \<le> 160" by (simp add: text_7bit_def)
  have "length s \<le> 159" if "length s mod 8 = 7" using le that by (cases "length s = 160") simp_all
  then show ?thesis using le by (simp add: packed_length_def)
qed

lemma unpacking_packed:
  assumes "text_7bit s" and "holds s (sms_data m) j" and "packed_length s = j + j div 7" and "j < length (sms_data m)"
    and "\<not> sms_has_header m" and "unat (sms_length m) = packed_length s"
  shows "\<exists>out. unpacking_7bit_character m = Some (int (packed_length s), out) \<and> cstr_of_array out = Some s"
proof -
  have "NUL \<notin> set s" using assms(1) by (auto simp: text_7bit_def)
  then have "cstr_of_array ((if length s mod 8 = 7 then s @ [NUL] else s) @ [NUL]) = Some s"
    by (simp add: cstr_of_array_def cstr_append_NUL)
  moreover have "unpacking_7bit_character m =
      Some (int (packed_length s), (if length s mod 8 = 7 then s @ [NUL] else s) @ [NUL])"
    using packed_text[OF assms(2-4) le_refl, of 0] packed_chars[OF assms(1)] assms(5,6)
    by (simp add: unpacking_7bit_character_def)
  ultimately show ?thesis by blast
qed

section \<open>Properties\<close>

text \<open>
  C19. Packing round trip. A text of at most 160 characters of seven bits is packed into the
  fewest octets that hold it, and every received message with these octets unpacks to the same text.
  The number of characters is that of the text, but one more when it is 7 modulo 8: the
  loop counts a terminator, which the receiver shows as a character.
\<close>

theorem packing_roundtrip:
  assumes "\<forall>c \<in> set s. c \<noteq> NUL \<and> ord_c c < 128" and "length s \<le> 160"
    and "length (ls_data dest) = LGSM_SMS_DATA_MAXLEN + 1"
  shows "\<exists>j d. packing_7bit_character s dest = Some (int j, d) \<and> ls_alpha d = 0 \<and>
    ls_length d = int (if length s mod 8 = 7 then length s + 1 else length s) \<and>
    j = (7 * nat (ls_length d) + 7) div 8 \<and>
    (\<forall>m. \<not> sms_has_header m \<and> int (unat (sms_length m)) = ls_length d \<and> length (sms_data m) = GSMD_SMS_DATA_MAXLEN + 1 \<and>
       take j (sms_data m) = take j (ls_data d) \<longrightarrow>
       (\<exists>out. unpacking_7bit_character m = Some (ls_length d, out) \<and> cstr_of_array out = Some s))"
proof -
  have t: "text_7bit s" using assms by (simp add: text_7bit_def)
  obtain j d where d: "packing_7bit_character s dest = Some (int j, d)" "ls_alpha d = 0" "ls_length d = int (packed_length s)"
    "packed_length s = j + j div 7" "holds s (ls_data d) j"
    using packing_7bit_packs[OF t assms(3)] by metis
  have "\<exists>out. unpacking_7bit_character m = Some (ls_length d, out) \<and> cstr_of_array out = Some s"
    if "\<not> sms_has_header m" "int (unat (sms_length m)) = ls_length d" "length (sms_data m) = GSMD_SMS_DATA_MAXLEN + 1"
      "take j (sms_data m) = take j (ls_data d)" for m
    using unpacking_packed[OF t holds_take[OF d(5) that(4)] d(4)] that d(3,4) packed_length_le[OF t]
    by (simp add: GSMD_SMS_DATA_MAXLEN_def)
  moreover have "j = (7 * nat (ls_length d) + 7) div 8" using packed_octets[OF d(4)] d(3) by (simp add: mult.commute)
  ultimately show ?thesis using d(1-3) by (intro exI[of _ j] exI[of _ d]) (simp add: packed_length_def)
qed

lemma packing_roundtrip_witness:
  "\<exists>j d. packing_7bit_character ''hello'' \<lparr>ls_addr = [], ls_alpha = 0, ls_data = replicate 141 0, ls_length = 0, ls_ask_ds = 0\<rparr> =
     Some (int j, d) \<and> ls_length d = 5 \<and> j = 5"
  using packing_roundtrip[of "''hello''" "\<lparr>ls_addr = [], ls_alpha = 0, ls_data = replicate 141 0, ls_length = 0, ls_ask_ds = 0\<rparr>"]
  by (auto simp: LGSM_SMS_DATA_MAXLEN_def ord_c_def)

end
