(* ===== verification/Lgsm.thy ===== *)
theory Lgsm
  imports Usock SmsPack
begin

text \<open>
  The core of the client library (\<open>src/libgsmd/libgsmd.c\<close>, \<open>src/libgsmd/libgsmd_event.c\<close>,
  \<open>src/libgsmd/libgsmd_passthrough.c\<close>): its handle, building and sending requests, dispatching
  what the daemon sends to the handlers of the application.

  The handlers are functions of the application.  They are named by values of a type \<open>'h\<close>,
  and the definitions that call them take an argument \<open>run\<close> that says what a handler does
  with the library's state and its own, which is kept in \<open>lg_app\<close>.  The results of system
  calls are arguments too.
\<close>

unbundle bit_operations_syntax

section \<open>State\<close>

text \<open>What can be in the table of message handlers.\<close>

datatype 'h lgsm_msg_handler = Evt_demux_msghandler | App_handler 'h

text \<open>How a handler of the application is called: with a message, or with an event and its data.\<close>

datatype lgsm_call = Msg_call "char list" | Evt_call nat "char list"

text \<open>
  \<open>struct lgsm_handle\<close>, the static variables \<open>evt_handlers\<close> and \<open>next_msg_id\<close>, the packets
  given to \<open>send\<close> so far, and the application's own state.
\<close>

record ('h, 'a) lgsm =
  lh_fd :: int
  lh_handler :: "'h lgsm_msg_handler option list"
  lh_netreg_state :: int
  evt_handlers :: "'h option list"
  next_msg_id :: u16
  lg_sent :: "char list list"
  lg_app :: 'a

type_synonym ('h, 'a) lgsm_app = "'h \<Rightarrow> lgsm_call \<Rightarrow> ('h, 'a) lgsm \<Rightarrow> int \<times> ('h, 'a) lgsm"

abbreviation (input) NUM_GSMD_MSGS :: nat where "NUM_GSMD_MSGS \<equiv> 12"
abbreviation (input) NUM_GSMD_EVT :: nat where "NUM_GSMD_EVT \<equiv> 17"

section \<open>Requests\<close>

text \<open>Numbers in memory.\<close>

definition le16 :: "nat \<Rightarrow> char list" where
  "le16 n = [char_of n, char_of (n div 256)]"

definition le32 :: "int \<Rightarrow> char list" where
  "le32 i = (let n = nat (to_u32 i) in le16 n @ le16 (n div 65536))"

definition u8_of :: "int \<Rightarrow> char" where
  "u8_of i = char_of (nat (i mod 256))"

text \<open>\<open>malloc\<close> succeeds if \<open>mem\<close>.\<close>

definition lgsm_gmh_fill :: "bool \<Rightarrow> nat \<Rightarrow> nat \<Rightarrow> nat \<Rightarrow> char list option" where
  "lgsm_gmh_fill mem type subtype payload_len =
     (if mem then Some ([char_of GSMD_PROTO_VERSION, char_of type, char_of subtype, NUL] @ le16 0 @ le16 payload_len @
        replicate payload_len NUL) else None)"

text \<open>\<open>sent\<close> is the result of \<open>send\<close>.\<close>

definition set_id :: "u16 \<Rightarrow> char list \<Rightarrow> char list" where
  "set_id i gmh = take 4 gmh @ le16 (unat i) @ drop 6 gmh"

definition lgsm_send :: "int \<Rightarrow> char list \<Rightarrow> ('h, 'a) lgsm \<Rightarrow> int \<times> ('h, 'a) lgsm" where
  "lgsm_send sent gmh lg =
     (sent, lg\<lparr>next_msg_id := next_msg_id lg + 1,
               lg_sent := lg_sent lg @ [take (8 + gph_len gmh) (set_id (next_msg_id lg) gmh)]\<rparr>)"

definition lgsm_send_simple :: "bool \<Rightarrow> int \<Rightarrow> nat \<Rightarrow> nat \<Rightarrow> ('h, 'a) lgsm \<Rightarrow> int \<times> ('h, 'a) lgsm" where
  "lgsm_send_simple mem sent type sub_type lg =
     (case lgsm_gmh_fill mem type sub_type 0 of
        None \<Rightarrow> (- ENOMEM, lg)
      | Some gmh \<Rightarrow> lgsm_send sent gmh lg)"

text \<open>
  The end of the requests with a payload.  The result of \<open>send\<close> is compared with an unsigned
  number, \<open>gmh->len\<close> and \<open>extra\<close>.
\<close>

definition send_checked :: "int \<Rightarrow> nat \<Rightarrow> char list \<Rightarrow> ('h, 'a) lgsm \<Rightarrow> int \<times> ('h, 'a) lgsm" where
  "send_checked sent extra gmh lg =
     (let (rc, lg1) = lgsm_send sent gmh lg in
      (if to_u32 rc < int (gph_len gmh + extra) then - EIO else 0, lg1))"

text \<open>A request: allocate the message, write its payload, send it.\<close>

definition lgsm_request ::
  "bool \<Rightarrow> int \<Rightarrow> nat \<Rightarrow> nat \<Rightarrow> nat \<Rightarrow> (char list \<Rightarrow> char list option) \<Rightarrow> ('h, 'a) lgsm \<Rightarrow> (int \<times> ('h, 'a) lgsm) option" where
  "lgsm_request mem sent type subtype payload_len fill lg =
     (case lgsm_gmh_fill mem type subtype payload_len of
        None \<Rightarrow> Some (- ENOMEM, lg)
      | Some gmh \<Rightarrow> do { gmh' \<leftarrow> fill gmh; Some (send_checked sent 8 gmh' lg) })"

text \<open>Storing into the payload.\<close>

definition put :: "nat \<Rightarrow> char list \<Rightarrow> char list \<Rightarrow> char list option" where
  "put off bs gmh = memcpy gmh (8 + off) bs"

section \<open>Packets from the daemon\<close>

definition lgsm_register_handler ::
  "int \<Rightarrow> 'h lgsm_msg_handler option \<Rightarrow> ('h, 'a) lgsm \<Rightarrow> (int \<times> ('h, 'a) lgsm) option" where
  "lgsm_register_handler type handler lg =
     (if int NUM_GSMD_MSGS \<le> type then Some (- EINVAL, lg)
      else if type < 0 \<or> length (lh_handler lg) \<le> nat type then None
      else Some (0, lg\<lparr>lh_handler := (lh_handler lg)[nat type := handler]\<rparr>))"

definition lgsm_unregister_handler :: "int \<Rightarrow> ('h, 'a) lgsm \<Rightarrow> ('h, 'a) lgsm option" where
  "lgsm_unregister_handler type lg =
     (if int NUM_GSMD_MSGS \<le> type then Some lg
      else if type < 0 \<or> length (lh_handler lg) \<le> nat type then None
      else Some (lg\<lparr>lh_handler := (lh_handler lg)[nat type := None]\<rparr>))"

definition lgsm_evt_handler_register :: "int \<Rightarrow> 'h option \<Rightarrow> ('h, 'a) lgsm \<Rightarrow> (int \<times> ('h, 'a) lgsm) option" where
  "lgsm_evt_handler_register evt_type handler lg =
     (if int NUM_GSMD_EVT \<le> evt_type then Some (- EINVAL, lg)
      else if evt_type < 0 \<or> length (evt_handlers lg) \<le> nat evt_type then None
      else Some (0, lg\<lparr>evt_handlers := (evt_handlers lg)[nat evt_type := handler]\<rparr>))"

definition lgsm_evt_handler_unregister :: "int \<Rightarrow> ('h, 'a) lgsm \<Rightarrow> ('h, 'a) lgsm option" where
  "lgsm_evt_handler_unregister evt_type lg =
     (if int NUM_GSMD_EVT \<le> evt_type then Some lg
      else if evt_type < 0 \<or> length (evt_handlers lg) \<le> nat evt_type then None
      else Some (lg\<lparr>evt_handlers := (evt_handlers lg)[nat evt_type := None]\<rparr>))"

definition evt_demux_msghandler ::
  "('h, 'a) lgsm_app \<Rightarrow> char list \<Rightarrow> ('h, 'a) lgsm \<Rightarrow> (int \<times> ('h, 'a) lgsm) option" where
  "evt_demux_msghandler run gmh lg =
     (if gph_len gmh < sizeof_gsmd_evt_auxdata then Some (- EIO, lg)
      else if gph_msg_type gmh \<noteq> GSMD_MSG_EVENT \<or> NUM_GSMD_EVT \<le> gph_msg_subtype gmh then Some (- EINVAL, lg)
      else do {
        let lg1 = (if gph_msg_subtype gmh = GSMD_EVT_NETREG then lg\<lparr>lh_netreg_state := int_at gmh 8\<rparr> else lg);
        h \<leftarrow> rd (evt_handlers lg1) (gph_msg_subtype gmh);
        case h of
          None \<Rightarrow> Some (0, lg1)
        | Some f \<Rightarrow> Some (run f (Evt_call (gph_msg_subtype gmh) (drop 8 gmh)) lg1) })"

definition lgsm_evt_init :: "('h, 'a) lgsm \<Rightarrow> (int \<times> ('h, 'a) lgsm) option" where
  "lgsm_evt_init lg = lgsm_register_handler (int GSMD_MSG_EVENT) (Some Evt_demux_msghandler) (lg\<lparr>lh_netreg_state := 0\<rparr>)"

definition lgsm_evt_exit :: "('h, 'a) lgsm \<Rightarrow> ('h, 'a) lgsm option" where
  "lgsm_evt_exit = lgsm_unregister_handler (int GSMD_MSG_EVENT)"

definition call_handler ::
  "('h, 'a) lgsm_app \<Rightarrow> 'h lgsm_msg_handler option \<Rightarrow> char list \<Rightarrow> ('h, 'a) lgsm \<Rightarrow> (int \<times> ('h, 'a) lgsm) option" where
  "call_handler run handler gmh lg =
     (case handler of
        None \<Rightarrow> Some (0, lg)
      | Some Evt_demux_msghandler \<Rightarrow> evt_demux_msghandler run gmh lg
      | Some (App_handler f) \<Rightarrow> Some (run f (Msg_call gmh) lg))"

text \<open>
  \<open>lgsm_handle_packet\<close>: \<open>b\<close> is the memory from \<open>buf\<close> on.  A handler is given the octets of its
  message.  \<open>len\<close> is an \<open>int\<close> that is compared as an unsigned number.
\<close>

function lgsm_handle_packet ::
  "('h, 'a) lgsm_app \<Rightarrow> char list \<Rightarrow> int \<Rightarrow> int \<Rightarrow> ('h, 'a) lgsm \<Rightarrow> (int \<times> ('h, 'a) lgsm) option" where
  "lgsm_handle_packet run b len rc lg =
     (if len = 0 then Some (rc, lg)
      else if to_u32 len < 8 then Some (- EINVAL, lg)
      else if length b < 8 then None
      else if to_u32 (len - 8) < int (gph_len b) then Some (- EINVAL, lg)
      else if NUM_GSMD_MSGS \<le> gph_msg_type b then Some (- EINVAL, lg)
      else do {
        handler \<leftarrow> rd (lh_handler lg) (gph_msg_type b);
        (r, lg1) \<leftarrow> call_handler run handler (take (8 + gph_len b) b) lg;
        lgsm_handle_packet run (drop (8 + gph_len b) b) (to_int32 (len - (8 + int (gph_len b)))) (rc OR r) lg1 })"
  by pat_completeness auto
termination
  by (relation "measure (\<lambda>(run, b, len, rc, lg). length b)") auto

declare lgsm_handle_packet.simps [simp del]

text \<open>
  Waiting for the answer to request \<open>i\<close>: \<open>ios\<close> are the results of \<open>select\<close> and \<open>read\<close>
  with the buffer afterwards, \<open>b\<close> is the buffer before.  The value \<open>None\<close> inside says that
  it is still waiting when these are used up.
\<close>

fun lgsm_blocking_wait_packet ::
  "('h, 'a) lgsm_app \<Rightarrow> u16 \<Rightarrow> char list \<Rightarrow> (int \<times> int \<times> char list) list \<Rightarrow> ('h, 'a) lgsm \<Rightarrow>
   ((int \<times> char list) option \<times> ('h, 'a) lgsm) option" where
  "lgsm_blocking_wait_packet run i b [] lg = Some (None, lg)"
| "lgsm_blocking_wait_packet run i b ((sel, n, b') # ios) lg =
     (if sel \<le> 0 then Some (Some (sel, b), lg)
      else if n \<le> 0 then Some (Some (n, b), lg)
      else if gph_id b' = i then Some (Some (n, b'), lg)
      else do {
        (_, lg1) \<leftarrow> lgsm_handle_packet run b' n 0 lg;
        lgsm_blocking_wait_packet run i b' ios lg1 })"

definition lgsm_get_packet :: "int \<Rightarrow> char list \<Rightarrow> int" where
  "lgsm_get_packet n b =
     (if n \<le> 0 then n
      else if gph_version b \<noteq> GSMD_PROTO_VERSION then - EINVAL
      else if gph_msg_type b = GSMD_MSG_PASSTHROUGH then 0
      else - EINVAL)"

section \<open>Opening and closing\<close>

text \<open>\<open>sock\<close> and \<open>conn\<close> are the results of \<open>socket\<close> and \<open>connect\<close>; the second component is \<open>lh->fd\<close>.\<close>

definition lgsm_open_backend :: "int \<Rightarrow> int \<Rightarrow> string \<Rightarrow> int \<times> int" where
  "lgsm_open_backend sock conn device =
     (if device = ''gsmd'' then
        if sock < 0 then (sock, sock)
        else if conn < 0 then (conn, - 1)
        else (0, sock)
      else (- EINVAL, - 1))"

text \<open>The result says whether a handle is returned.  Its memory is cleared without a test.\<close>

definition lgsm_init :: "bool \<Rightarrow> int \<Rightarrow> int \<Rightarrow> string \<Rightarrow> ('h, 'a) lgsm \<Rightarrow> (bool \<times> ('h, 'a) lgsm) option" where
  "lgsm_init mem sock conn device lg =
     (if \<not> mem then None
      else
        let (rc, fd) = lgsm_open_backend sock conn device in
        if rc < 0 then Some (False, lg)
        else do {
          (_, lg1) \<leftarrow> lgsm_evt_init (lg\<lparr>lh_fd := fd, lh_handler := replicate NUM_GSMD_MSGS None\<rparr>);
          Some (True, lg1) })"

section \<open>Pass-through\<close>

definition PT_BUF_SIZE :: nat where "PT_BUF_SIZE = 1024"

definition lgsm_passthrough_send :: "int \<Rightarrow> string \<Rightarrow> ('h, 'a) lgsm \<Rightarrow> (int \<times> ('h, 'a) lgsm) option" where
  "lgsm_passthrough_send sent tx lg =
     (if PT_BUF_SIZE < length tx then Some (- EINVAL, lg)
      else do {
        gmh \<leftarrow> memcpy ([char_of GSMD_PROTO_VERSION, char_of GSMD_MSG_PASSTHROUGH, char_of (1 :: nat), NUL] @ le16 0 @
                  le16 (length tx + 1) @ replicate PT_BUF_SIZE NUL) 8 (tx @ [NUL]);
        let (rc, lg1) = lgsm_send sent gmh lg;
        if to_u32 rc < int (length tx + 8) then Some (- EIO, lg1)
        else Some (int (unat (next_msg_id lg)), lg1) })"

text \<open>
  The answer is copied to \<open>rx\<close>, \<open>rx_len\<close> is the size of it.  The result is \<open>None\<close> inside as
  long as it waits, else the return value, the array and the number stored in \<open>rx_len\<close>.
\<close>

definition lgsm_passthrough ::
  "('h, 'a) lgsm_app \<Rightarrow> int \<Rightarrow> char list \<Rightarrow> (int \<times> int \<times> char list) list \<Rightarrow> string \<Rightarrow> char list \<Rightarrow> nat \<Rightarrow> ('h, 'a) lgsm \<Rightarrow>
   ((int \<times> char list \<times> nat) option \<times> ('h, 'a) lgsm) option" where
  "lgsm_passthrough run sent rbuf ios tx rx rx_len lg = do {
     (rc, lg1) \<leftarrow> lgsm_passthrough_send sent tx lg;
     if rc < 0 then Some (Some (rc, rx, rx_len), lg1)
     else do {
       (w, lg2) \<leftarrow> lgsm_blocking_wait_packet run (of_int rc) rbuf ios lg1;
       case w of
         None \<Rightarrow> Some (None, lg2)
       | Some (n, rgmh) \<Rightarrow>
           if n \<le> 0 then Some (Some (n, rx, rx_len), lg2)
           else if n < 8 \<or> n < 8 + int (gph_len rgmh) then Some (Some (- EINVAL, rx, rx_len), lg2)
           else if rx_len = 0 \<or> length rx < rx_len then None
           else do {
             let l = min (gph_len rgmh) (rx_len - 1);
             bs \<leftarrow> rd_n rgmh 8 l;
             rx1 \<leftarrow> memcpy (rx[rx_len - 1 := NUL]) 0 bs;
             Some (Some (int l, rx1, l), lg2) } } }"

end
