(* ===== verification/LgsmReq.thy ===== *)
theory LgsmReq
  imports Lgsm
begin

text \<open>
  The requests of the client library: \<open>src/libgsmd/libgsmd_voicecall.c\<close>, \<open>libgsmd_network.c\<close>,
  \<open>libgsmd_phone.c\<close>, \<open>libgsmd_phonebook.c\<close>, \<open>libgsmd_pin.c\<close>, \<open>libgsmd_modem.c\<close> and the
  requests of \<open>libgsmd_sms.c\<close>.  In each, \<open>mem\<close> says whether the message can be allocated and
  \<open>sent\<close> is the result of \<open>send\<close>.
\<close>

unbundle bit_operations_syntax

type_synonym ('h, 'a) request = "bool \<Rightarrow> int \<Rightarrow> ('h, 'a) lgsm \<Rightarrow> (int \<times> ('h, 'a) lgsm) option"

text \<open>A request without a payload.\<close>

abbreviation simple :: "nat \<Rightarrow> nat \<Rightarrow> ('h, 'a) request" where
  "simple type sub \<equiv> \<lambda>mem sent lg. Some (lgsm_send_simple mem sent type sub lg)"

text \<open>A request whose payload is an \<open>int\<close>.\<close>

abbreviation int_request :: "nat \<Rightarrow> nat \<Rightarrow> int \<Rightarrow> ('h, 'a) request" where
  "int_request type sub i \<equiv> \<lambda>mem sent lg. lgsm_request mem sent type sub 4 (put 0 (le32 i)) lg"

section \<open>Voice calls\<close>

record lgsm_addr =
  la_type :: int
  la_addr :: "char list"

definition LGSM_ADDR_MAXLEN :: nat where "LGSM_ADDR_MAXLEN = 31"

text \<open>
  More is copied than the array of the number holds: \<open>behind\<close> is the octet in memory behind
  it, which is overwritten at once.
\<close>

definition lgsm_voice_out_init :: "char \<Rightarrow> lgsm_addr \<Rightarrow> ('h, 'a) request" where
  "lgsm_voice_out_init behind number mem sent lg =
     lgsm_request mem sent GSMD_MSG_VOICECALL 1 sizeof_gsmd_addr (\<lambda>gmh. do {
       m1 \<leftarrow> put 0 [u8_of (la_type number)] gmh;
       bs \<leftarrow> rd_n (la_addr number @ [behind]) 0 (GSMD_ADDR_MAXLEN + 1);
       m2 \<leftarrow> put 1 bs m1;
       put (1 + GSMD_ADDR_MAXLEN) [NUL] m2 }) lg"

text \<open>Here the result of \<open>send\<close> is compared with four octets less.\<close>

definition lgsm_voice_dtmf :: "char \<Rightarrow> ('h, 'a) request" where
  "lgsm_voice_dtmf dtmf_char mem sent lg =
     (case lgsm_gmh_fill mem GSMD_MSG_VOICECALL 4 (1 + 1) of
        None \<Rightarrow> Some (- ENOMEM, lg)
      | Some gmh \<Rightarrow> do { m \<leftarrow> put 0 [char_of (1 :: nat), dtmf_char] gmh; Some (send_checked sent (1 + 1) m lg) })"

definition lgsm_voice_in_accept :: "('h, 'a) request" where
  "lgsm_voice_in_accept = simple GSMD_MSG_VOICECALL 3"

definition lgsm_voice_hangup :: "('h, 'a) request" where
  "lgsm_voice_hangup = simple GSMD_MSG_VOICECALL 2"

definition lgsm_voice_volume_set :: "int \<Rightarrow> ('h, 'a) request" where
  "lgsm_voice_volume_set volume = simple GSMD_MSG_VOICECALL 5"

definition lgsm_voice_get_status :: "('h, 'a) request" where
  "lgsm_voice_get_status = simple GSMD_MSG_VOICECALL 7"

definition lgsm_voice_ctrl :: "int \<Rightarrow> int \<Rightarrow> ('h, 'a) request" where
  "lgsm_voice_ctrl prc idx mem sent lg =
     lgsm_request mem sent GSMD_MSG_VOICECALL 8 5 (put 0 (le32 prc @ [u8_of idx])) lg"

definition lgsm_voice_fwd_disable :: "int \<Rightarrow> ('h, 'a) request" where
  "lgsm_voice_fwd_disable = int_request GSMD_MSG_VOICECALL 9"

definition lgsm_voice_fwd_enable :: "int \<Rightarrow> ('h, 'a) request" where
  "lgsm_voice_fwd_enable = int_request GSMD_MSG_VOICECALL 10"

definition lgsm_voice_fwd_stat :: "int \<Rightarrow> ('h, 'a) request" where
  "lgsm_voice_fwd_stat = int_request GSMD_MSG_VOICECALL 11"

text \<open>\<open>strcpy\<close> from the array of the number, which is read beyond if it has no end.\<close>

definition lgsm_voice_fwd_reg :: "int \<Rightarrow> lgsm_addr \<Rightarrow> ('h, 'a) request" where
  "lgsm_voice_fwd_reg reason number mem sent lg =
     lgsm_request mem sent GSMD_MSG_VOICECALL 12 38 (\<lambda>gmh. do {
       m \<leftarrow> put 0 (le32 reason) gmh;
       s \<leftarrow> cstr_of_array (la_addr number);
       put 5 (s @ [NUL]) m }) lg"

definition lgsm_voice_fwd_erase :: "int \<Rightarrow> ('h, 'a) request" where
  "lgsm_voice_fwd_erase = int_request GSMD_MSG_VOICECALL 13"

section \<open>Network\<close>

definition lgsm_get_netreg_state :: "('h, 'a) lgsm \<Rightarrow> int \<times> int" where
  "lgsm_get_netreg_state lg = (0, lh_netreg_state lg)"

definition lgsm_oper_get :: "('h, 'a) request" where
  "lgsm_oper_get = simple GSMD_MSG_NETWORK 5"

definition lgsm_oper_n_get :: "('h, 'a) request" where
  "lgsm_oper_n_get = simple GSMD_MSG_NETWORK 6"

definition lgsm_opers_get :: "('h, 'a) request" where
  "lgsm_opers_get = simple GSMD_MSG_NETWORK 7"

definition lgsm_netreg_register :: "char list \<Rightarrow> ('h, 'a) request" where
  "lgsm_netreg_register oper mem sent lg =
     lgsm_request mem sent GSMD_MSG_NETWORK 1 6 (\<lambda>gmh. do { bs \<leftarrow> rd_n oper 0 6; put 0 bs gmh }) lg"

definition lgsm_netreg_deregister :: "('h, 'a) request" where
  "lgsm_netreg_deregister = simple GSMD_MSG_NETWORK 9"

definition lgsm_netreg_query :: "('h, 'a) request" where
  "lgsm_netreg_query = simple GSMD_MSG_NETWORK 15"

definition lgsm_signal_quality :: "('h, 'a) request" where
  "lgsm_signal_quality = simple GSMD_MSG_NETWORK 2"

definition lgsm_prefoper_list :: "('h, 'a) request" where
  "lgsm_prefoper_list = simple GSMD_MSG_NETWORK 11"

definition lgsm_prefoper_delete :: "int \<Rightarrow> ('h, 'a) request" where
  "lgsm_prefoper_delete = int_request GSMD_MSG_NETWORK 12"

definition lgsm_prefoper_add :: "char list \<Rightarrow> ('h, 'a) request" where
  "lgsm_prefoper_add oper mem sent lg =
     lgsm_request mem sent GSMD_MSG_NETWORK 13 6 (\<lambda>gmh. do { bs \<leftarrow> rd_n oper 0 6; put 0 bs gmh }) lg"

definition lgsm_prefoper_get_space :: "('h, 'a) request" where
  "lgsm_prefoper_get_space = simple GSMD_MSG_NETWORK 14"

definition lgsm_get_subscriber_num :: "('h, 'a) request" where
  "lgsm_get_subscriber_num = simple GSMD_MSG_NETWORK 10"

text \<open>An address in a message of zeros, at \<open>off\<close>.\<close>

definition zero_addr :: gsmd_addr where
  "zero_addr = \<lparr>ga_type = 0, ga_number = replicate (GSMD_ADDR_MAXLEN + 1) NUL\<rparr>"

definition put_addr :: "nat \<Rightarrow> gsmd_addr \<Rightarrow> char list \<Rightarrow> char list option" where
  "put_addr off a = put off (char_of (unat (ga_type a)) # ga_number a)"

definition lgsm_voicemail_set :: "string \<Rightarrow> ('h, 'a) request" where
  "lgsm_voicemail_set number mem sent lg =
     (case lgsm_gmh_fill mem GSMD_MSG_NETWORK 4 sizeof_gsmd_voicemail of
        None \<Rightarrow> Some (- ENOMEM, lg)
      | Some gmh \<Rightarrow> do {
          m \<leftarrow> put 0 [char_of (1 :: nat)] gmh;
          (r, a) \<leftarrow> lgsm_number2addr zero_addr number 0;
          if r \<noteq> 0 then Some (- EINVAL, lg)
          else do { m1 \<leftarrow> put_addr 1 a m; Some (send_checked sent 8 m1 lg) } })"

definition lgsm_voicemail_get :: "('h, 'a) request" where
  "lgsm_voicemail_get = simple GSMD_MSG_NETWORK 3"

section \<open>Phone and modem\<close>

definition lgsm_phone_power :: "int \<Rightarrow> ('h, 'a) request" where
  "lgsm_phone_power pwr = simple GSMD_MSG_PHONE (if pwr \<noteq> 0 then 1 else 2)"

definition lgsm_get_power_status :: "('h, 'a) request" where
  "lgsm_get_power_status = simple GSMD_MSG_PHONE 11"

definition lgsm_get_imsi :: "('h, 'a) request" where
  "lgsm_get_imsi = simple GSMD_MSG_PHONE 3"

definition lgsm_get_manufacturer :: "('h, 'a) request" where
  "lgsm_get_manufacturer = simple GSMD_MSG_PHONE 4"

definition lgsm_get_model :: "('h, 'a) request" where
  "lgsm_get_model = simple GSMD_MSG_PHONE 5"

definition lgsm_get_revision :: "('h, 'a) request" where
  "lgsm_get_revision = simple GSMD_MSG_PHONE 6"

definition lgsm_get_serial :: "('h, 'a) request" where
  "lgsm_get_serial = simple GSMD_MSG_PHONE 7"

definition lgsm_get_battery :: "('h, 'a) request" where
  "lgsm_get_battery = simple GSMD_MSG_PHONE 8"

definition lgsm_phone_vibrator :: "int \<Rightarrow> ('h, 'a) request" where
  "lgsm_phone_vibrator enable = simple GSMD_MSG_PHONE (if enable \<noteq> 0 then 9 else 10)"

definition lgsm_modem_power :: "int \<Rightarrow> ('h, 'a) request" where
  "lgsm_modem_power pwr = simple 11 (if pwr \<noteq> 0 then 1 else 2)"

section \<open>Phone book\<close>

text \<open>\<open>strncpy\<close>: the string and zeros, \<open>n\<close> octets in all.\<close>

definition strncpy_octets :: "string \<Rightarrow> nat \<Rightarrow> char list" where
  "strncpy_octets s n = take n (s @ replicate n NUL)"

definition lgsm_pb_list_storage :: "('h, 'a) request" where
  "lgsm_pb_list_storage = simple GSMD_MSG_PHONEBOOK 7"

definition lgsm_pb_set_storage :: "string \<Rightarrow> ('h, 'a) request" where
  "lgsm_pb_set_storage storage mem sent lg =
     lgsm_request mem sent GSMD_MSG_PHONEBOOK 8 3 (\<lambda>gmh. do {
       m \<leftarrow> put 0 (strncpy_octets storage 2) gmh;
       put 2 [NUL] m }) lg"

definition GSMD_PB_NUMB_MAXLEN :: nat where "GSMD_PB_NUMB_MAXLEN = 44"
definition GSMD_PB_TEXT_MAXLEN :: nat where "GSMD_PB_TEXT_MAXLEN = 14"

definition lgsm_pb_find_entry :: "char list \<Rightarrow> ('h, 'a) request" where
  "lgsm_pb_find_entry findtext mem sent lg =
     lgsm_request mem sent GSMD_MSG_PHONEBOOK 1 (GSMD_PB_TEXT_MAXLEN + 1) (\<lambda>gmh. do {
       bs \<leftarrow> rd_n findtext 0 (GSMD_PB_TEXT_MAXLEN + 1);
       m \<leftarrow> put 0 bs gmh;
       put GSMD_PB_TEXT_MAXLEN [NUL] m }) lg"

definition lgsm_pb_read_entry :: "int \<Rightarrow> ('h, 'a) request" where
  "lgsm_pb_read_entry = int_request GSMD_MSG_PHONEBOOK 2"

definition lgsm_pb_read_entries :: "int \<Rightarrow> int \<Rightarrow> ('h, 'a) request" where
  "lgsm_pb_read_entries index1 index2 mem sent lg =
     lgsm_request mem sent GSMD_MSG_PHONEBOOK 3 2 (put 0 [u8_of index1, u8_of index2]) lg"

definition lgsm_pb_del_entry :: "int \<Rightarrow> ('h, 'a) request" where
  "lgsm_pb_del_entry = int_request GSMD_MSG_PHONEBOOK 5"

record lgsm_phonebook =
  pb_index :: int
  pb_numb :: "char list"
  pb_type :: int
  pb_text :: "char list"

definition lgsm_pb_write_entry :: "lgsm_phonebook \<Rightarrow> ('h, 'a) request" where
  "lgsm_pb_write_entry pb mem sent lg =
     lgsm_request mem sent GSMD_MSG_PHONEBOOK 4 sizeof_gsmd_phonebook (\<lambda>gmh. do {
       m0 \<leftarrow> put 0 [u8_of (pb_index pb)] gmh;
       numb \<leftarrow> rd_n (pb_numb pb) 0 (GSMD_PB_NUMB_MAXLEN + 1);
       m1 \<leftarrow> put 1 numb m0;
       m2 \<leftarrow> put (1 + GSMD_PB_NUMB_MAXLEN) [NUL] m1;
       m3 \<leftarrow> put 46 [u8_of (pb_type pb)] m2;
       t \<leftarrow> rd_n (pb_text pb) 0 (GSMD_PB_TEXT_MAXLEN + 1);
       m4 \<leftarrow> put 47 t m3;
       put (47 + GSMD_PB_TEXT_MAXLEN) [NUL] m4 }) lg"

definition lgsm_pb_get_support :: "('h, 'a) request" where
  "lgsm_pb_get_support = simple GSMD_MSG_PHONEBOOK 6"

section \<open>PIN\<close>

abbreviation (input) NUM_GSMD_PIN :: nat where "NUM_GSMD_PIN \<equiv> 16"

definition pin_type_names :: "string list" where
  "pin_type_names = [''READY'', ''SIM PIN'', ''SIM PUK'', ''Phone-to-SIM PIN'', ''Phone-to-very-first SIM PIN'',
     ''Phone-to-very-first SIM PUK'', ''SIM PIN2'', ''SIM PUK2'', ''Network personalization PIN'',
     ''Network personalizaiton PUK'', ''Network subset personalisation PIN'', ''Network subset personalisation PUK'',
     ''Service provider personalisation PIN'', ''Service provider personalisation PUK'',
     ''Corporate personalisation PIN'', ''Corporate personalisation PUK'']"

definition lgsm_pin_name :: "nat \<Rightarrow> string" where
  "lgsm_pin_name ptype = (if NUM_GSMD_PIN \<le> ptype then ''unknown'' else pin_type_names ! ptype)"

definition lgsm_pin_status :: "('h, 'a) request" where
  "lgsm_pin_status = simple GSMD_MSG_PIN 2"

definition lgsm_pin :: "nat \<Rightarrow> string \<Rightarrow> string option \<Rightarrow> ('h, 'a) request" where
  "lgsm_pin type pin newpin mem sent lg =
     (if GSMD_PIN_MAXLEN < length pin \<or> (\<exists>np. newpin = Some np \<and> GSMD_PIN_MAXLEN < length np) \<or> NUM_GSMD_PIN \<le> type
      then Some (- EINVAL, lg)
      else case lgsm_gmh_fill mem GSMD_MSG_PIN 1 sizeof_gsmd_pin of
        None \<Rightarrow> Some (- ENOMEM, lg)
      | Some gmh \<Rightarrow> do {
          m0 \<leftarrow> put 0 (le32 (int type)) gmh;
          m1 \<leftarrow> put 4 (strncpy_octets pin (GSMD_PIN_MAXLEN + 1)) m0;
          if type = 2 \<or> type = 7 then
            (case newpin of
               None \<Rightarrow> Some (- EINVAL, lg)
             | Some np \<Rightarrow> do {
                 m2 \<leftarrow> put 13 (strncpy_octets np (GSMD_PIN_MAXLEN + 1)) m1;
                 Some (lgsm_send sent m2 lg) })
          else Some (lgsm_send sent m1 lg) })"

section \<open>Short messages\<close>

definition lgsm_sms_list :: "int \<Rightarrow> ('h, 'a) request" where
  "lgsm_sms_list = int_request GSMD_MSG_SMS 1"

definition lgsm_sms_read :: "int \<Rightarrow> ('h, 'a) request" where
  "lgsm_sms_read = int_request GSMD_MSG_SMS 2"

definition lgsm_sms_delete :: "int \<Rightarrow> int \<Rightarrow> ('h, 'a) request" where
  "lgsm_sms_delete index delflg mem sent lg =
     lgsm_request mem sent GSMD_MSG_SMS 5 2 (put 0 [u8_of index, u8_of delflg]) lg"

text \<open>
  The members of the message at offset \<open>off\<close> that the client sets, behind the address: the
  rest of it stays zero.
\<close>

definition put_submit :: "nat \<Rightarrow> gsmd_addr \<Rightarrow> lgsm_sms \<Rightarrow> char list \<Rightarrow> char list option" where
  "put_submit off a sms gmh = do {
     m0 \<leftarrow> put_addr off a gmh;
     m1 \<leftarrow> put (off + 240) (le32 (ls_ask_ds sms)) m0;
     m2 \<leftarrow> put (off + 36) (le32 0) m1;
     m3 \<leftarrow> put (off + 34) [u8_of (ls_length sms)] m2;
     m4 \<leftarrow> put (off + 35) [u8_of (ls_alpha sms)] m3;
     bs \<leftarrow> rd_n (ls_data sms) 0 LGSM_SMS_DATA_MAXLEN;
     put (off + 73) (map (\<lambda>w. char_of (unat w)) bs) m4 }"

definition lgsm_sms_send :: "lgsm_sms \<Rightarrow> ('h, 'a) request" where
  "lgsm_sms_send sms mem sent lg =
     (case lgsm_gmh_fill mem GSMD_MSG_SMS 3 sizeof_gsmd_sms_submit of
        None \<Rightarrow> Some (- ENOMEM, lg)
      | Some gmh \<Rightarrow> do {
          number \<leftarrow> cstr_of_array (ls_addr sms);
          (r, a) \<leftarrow> lgsm_number2addr zero_addr number 1;
          if r \<noteq> 0 then Some (- EINVAL, lg)
          else do { m \<leftarrow> put_submit 0 a sms gmh; Some (send_checked sent 8 m lg) } })"

definition lgsm_sms_write :: "int \<Rightarrow> lgsm_sms \<Rightarrow> ('h, 'a) request" where
  "lgsm_sms_write stat sms mem sent lg =
     (case lgsm_gmh_fill mem GSMD_MSG_SMS 4 (1 + sizeof_gsmd_sms_submit) of
        None \<Rightarrow> Some (- ENOMEM, lg)
      | Some gmh \<Rightarrow> do {
          m0 \<leftarrow> put 0 [u8_of stat] gmh;
          number \<leftarrow> cstr_of_array (ls_addr sms);
          (r, a) \<leftarrow> lgsm_number2addr zero_addr number 1;
          if r \<noteq> 0 then Some (- EINVAL, lg)
          else do { m \<leftarrow> put_submit 1 a sms m0; Some (send_checked sent 8 m lg) } })"

definition lgsm_sms_get_storage :: "('h, 'a) request" where
  "lgsm_sms_get_storage = simple GSMD_MSG_SMS 6"

definition lgsm_sms_set_storage :: "int \<Rightarrow> int \<Rightarrow> int \<Rightarrow> ('h, 'a) request" where
  "lgsm_sms_set_storage mem1 mem2 mem3 mem sent lg =
     lgsm_request mem sent GSMD_MSG_SMS 7 12 (put 0 (le32 mem1 @ le32 mem2 @ le32 mem3)) lg"

definition lgsm_sms_get_smsc :: "('h, 'a) request" where
  "lgsm_sms_get_smsc = simple GSMD_MSG_SMS 8"

definition lgsm_sms_set_smsc :: "string \<Rightarrow> ('h, 'a) request" where
  "lgsm_sms_set_smsc number mem sent lg =
     (case lgsm_gmh_fill mem GSMD_MSG_SMS 9 sizeof_gsmd_addr of
        None \<Rightarrow> Some (- ENOMEM, lg)
      | Some gmh \<Rightarrow> do {
          (r, a) \<leftarrow> lgsm_number2addr zero_addr number 0;
          if r \<noteq> 0 then Some (- EINVAL, lg)
          else do { m \<leftarrow> put_addr 0 a gmh; Some (send_checked sent 8 m lg) } })"

definition lgsm_cb_subscribe :: "('h, 'a) request" where
  "lgsm_cb_subscribe = simple 10 1"

definition lgsm_cb_unsubscribe :: "('h, 'a) request" where
  "lgsm_cb_unsubscribe = simple 10 2"

end
