(* ===== verification/Api.thy ===== *)
theory Api
  imports LgsmReq
begin

text \<open>
  The calls of the client library as values, and what every one of them does to the library:
  it fails and changes nothing, or it gives one well-formed packet to the socket.
\<close>

unbundle bit_operations_syntax

section \<open>The calls\<close>

datatype voice_call =
    Voice_out_init char lgsm_addr | Voice_dtmf char | Voice_in_accept | Voice_hangup
  | Voice_volume_set int | Voice_get_status | Voice_ctrl int int | Voice_fwd_disable int
  | Voice_fwd_enable int | Voice_fwd_stat int | Voice_fwd_reg int lgsm_addr | Voice_fwd_erase int

datatype network_call =
    Oper_get | Oper_n_get | Opers_get | Netreg_register "char list" | Netreg_deregister | Netreg_query
  | Signal_quality | Prefoper_list | Prefoper_delete int | Prefoper_add "char list"
  | Prefoper_get_space | Get_subscriber_num | Voicemail_set string | Voicemail_get

datatype phone_call =
    Phone_power int | Get_power_status | Get_imsi | Get_manufacturer | Get_model | Get_revision
  | Get_serial | Get_battery | Phone_vibrator int | Modem_power int

datatype phonebook_call =
    Pb_list_storage | Pb_set_storage string | Pb_find_entry "char list" | Pb_read_entry int
  | Pb_read_entries int int | Pb_del_entry int | Pb_write_entry lgsm_phonebook | Pb_get_support

datatype pin_call =
    Pin_status | Pin_input nat string "string option"

datatype sms_call =
    Sms_list int | Sms_read int | Sms_delete int int | Sms_send lgsm_sms | Sms_write int lgsm_sms
  | Sms_get_storage | Sms_set_storage int int int | Sms_get_smsc | Sms_set_smsc string | Cb_subscribe
  | Cb_unsubscribe

datatype api_call =
    Voice voice_call | Network network_call | Phone phone_call | Phonebook phonebook_call | Pin pin_call | Sms sms_call

fun voice_request :: "voice_call \<Rightarrow> ('h, 'a) request" where
  "voice_request (Voice_out_init c a) = lgsm_voice_out_init c a"
| "voice_request (Voice_dtmf c) = lgsm_voice_dtmf c"
| "voice_request Voice_in_accept = lgsm_voice_in_accept"
| "voice_request Voice_hangup = lgsm_voice_hangup"
| "voice_request (Voice_volume_set v) = lgsm_voice_volume_set v"
| "voice_request Voice_get_status = lgsm_voice_get_status"
| "voice_request (Voice_ctrl p i) = lgsm_voice_ctrl p i"
| "voice_request (Voice_fwd_disable r) = lgsm_voice_fwd_disable r"
| "voice_request (Voice_fwd_enable r) = lgsm_voice_fwd_enable r"
| "voice_request (Voice_fwd_stat r) = lgsm_voice_fwd_stat r"
| "voice_request (Voice_fwd_reg r a) = lgsm_voice_fwd_reg r a"
| "voice_request (Voice_fwd_erase r) = lgsm_voice_fwd_erase r"

fun network_request :: "network_call \<Rightarrow> ('h, 'a) request" where
  "network_request Oper_get = lgsm_oper_get"
| "network_request Oper_n_get = lgsm_oper_n_get"
| "network_request Opers_get = lgsm_opers_get"
| "network_request (Netreg_register oper) = lgsm_netreg_register oper"
| "network_request Netreg_deregister = lgsm_netreg_deregister"
| "network_request Netreg_query = lgsm_netreg_query"
| "network_request Signal_quality = lgsm_signal_quality"
| "network_request Prefoper_list = lgsm_prefoper_list"
| "network_request (Prefoper_delete i) = lgsm_prefoper_delete i"
| "network_request (Prefoper_add oper) = lgsm_prefoper_add oper"
| "network_request Prefoper_get_space = lgsm_prefoper_get_space"
| "network_request Get_subscriber_num = lgsm_get_subscriber_num"
| "network_request (Voicemail_set n) = lgsm_voicemail_set n"
| "network_request Voicemail_get = lgsm_voicemail_get"

fun phone_request :: "phone_call \<Rightarrow> ('h, 'a) request" where
  "phone_request (Phone_power p) = lgsm_phone_power p"
| "phone_request Get_power_status = lgsm_get_power_status"
| "phone_request Get_imsi = lgsm_get_imsi"
| "phone_request Get_manufacturer = lgsm_get_manufacturer"
| "phone_request Get_model = lgsm_get_model"
| "phone_request Get_revision = lgsm_get_revision"
| "phone_request Get_serial = lgsm_get_serial"
| "phone_request Get_battery = lgsm_get_battery"
| "phone_request (Phone_vibrator e) = lgsm_phone_vibrator e"
| "phone_request (Modem_power p) = lgsm_modem_power p"

fun phonebook_request :: "phonebook_call \<Rightarrow> ('h, 'a) request" where
  "phonebook_request Pb_list_storage = lgsm_pb_list_storage"
| "phonebook_request (Pb_set_storage s) = lgsm_pb_set_storage s"
| "phonebook_request (Pb_find_entry t) = lgsm_pb_find_entry t"
| "phonebook_request (Pb_read_entry i) = lgsm_pb_read_entry i"
| "phonebook_request (Pb_read_entries i j) = lgsm_pb_read_entries i j"
| "phonebook_request (Pb_del_entry i) = lgsm_pb_del_entry i"
| "phonebook_request (Pb_write_entry pb) = lgsm_pb_write_entry pb"
| "phonebook_request Pb_get_support = lgsm_pb_get_support"

fun pin_request :: "pin_call \<Rightarrow> ('h, 'a) request" where
  "pin_request Pin_status = lgsm_pin_status"
| "pin_request (Pin_input t p np) = lgsm_pin t p np"

fun sms_request :: "sms_call \<Rightarrow> ('h, 'a) request" where
  "sms_request (Sms_list s) = lgsm_sms_list s"
| "sms_request (Sms_read i) = lgsm_sms_read i"
| "sms_request (Sms_delete i d) = lgsm_sms_delete i d"
| "sms_request (Sms_send sms) = lgsm_sms_send sms"
| "sms_request (Sms_write s sms) = lgsm_sms_write s sms"
| "sms_request Sms_get_storage = lgsm_sms_get_storage"
| "sms_request (Sms_set_storage a b c) = lgsm_sms_set_storage a b c"
| "sms_request Sms_get_smsc = lgsm_sms_get_smsc"
| "sms_request (Sms_set_smsc n) = lgsm_sms_set_smsc n"
| "sms_request Cb_subscribe = lgsm_cb_subscribe"
| "sms_request Cb_unsubscribe = lgsm_cb_unsubscribe"

fun api :: "api_call \<Rightarrow> ('h, 'a) request" where
  "api (Voice c) = voice_request c"
| "api (Network c) = network_request c"
| "api (Phone c) = phone_request c"
| "api (Phonebook c) = phonebook_request c"
| "api (Pin c) = pin_request c"
| "api (Sms c) = sms_request c"

section \<open>Packets\<close>

text \<open>A packet, as it is in memory: type, subtype, identification and payload.\<close>

definition packet :: "nat \<Rightarrow> nat \<Rightarrow> nat \<Rightarrow> char list \<Rightarrow> char list" where
  "packet ty sub i p = [CHR 0x01, char_of ty, char_of sub, NUL] @ le16 i @ le16 (length p) @ p"

lemma length_le [simp]: "length (le16 n) = 2" "length (le32 i) = 4"
  by (simp_all add: le16_def le32_def Let_def)

lemma length_packet [simp]: "length (packet ty sub i p) = 8 + length p"
  by (simp add: packet_def)

lemma fill_packet: "lgsm_gmh_fill mem ty sub n = (if mem then Some (packet ty sub 0 (replicate n NUL)) else None)"
proof -
  have "char_of (1 :: nat) = CHR 0x01" by (simp add: char_of_def bit_0)
  then show ?thesis by (simp add: lgsm_gmh_fill_def packet_def)
qed

lemma drop_packet [simp]: "drop 8 (packet ty sub i p) = p"
  by (simp add: packet_def le16_def)

lemma put_packet:
  "put off bs (packet ty sub i p) =
     (if off + length bs \<le> length p then Some (packet ty sub i (take off p @ bs @ drop (off + length bs) p)) else None)"
proof -
  define h where "h = [CHR 0x01, char_of ty, char_of sub, NUL] @ le16 i @ le16 (length p)"
  have h: "packet ty sub i p = h @ p" "length h = 8" by (simp_all add: h_def packet_def)
  have "packet ty sub i (take off p @ bs @ drop (off + length bs) p) = h @ take off p @ bs @ drop (off + length bs) p"
    if "off + length bs \<le> length p"
    using that by (simp add: h_def packet_def)
  then show ?thesis using h by (simp add: put_def memcpy_def add.assoc)
qed

lemma set_id_packet: "set_id j (packet ty sub i p) = packet ty sub (unat j) p"
  by (simp add: set_id_def packet_def le16_def)

lemma ord_c_char_of_mod: "ord_c (char_of n) = n mod 256"
  by (simp add: ord_c_def of_char_of)

lemma u8_at_packet:
  "u8_at (packet ty sub i p @ rest) 0 = 1" "u8_at (packet ty sub i p @ rest) 1 = ty mod 256"
  "u8_at (packet ty sub i p @ rest) 2 = sub mod 256"
  "u16_at (packet ty sub i p @ rest) 4 = i mod 65536" "u16_at (packet ty sub i p @ rest) 6 = length p mod 65536"
proof -
  have b: "n mod 256 + 256 * (n div 256 mod 256) = n mod 65536" for n :: nat
    using mod_mult2_eq[of n 256 256] by simp
  show "u8_at (packet ty sub i p @ rest) 0 = 1" "u8_at (packet ty sub i p @ rest) 1 = ty mod 256"
    "u8_at (packet ty sub i p @ rest) 2 = sub mod 256"
    by (simp_all add: u8_at_def packet_def le16_def c_at_def ord_c_char_of_mod ord_c_def)
  show "u16_at (packet ty sub i p @ rest) 4 = i mod 65536" "u16_at (packet ty sub i p @ rest) 6 = length p mod 65536"
    by (simp_all add: u16_at_def u8_at_def packet_def le16_def c_at_def ord_c_char_of_mod b nth_append)
qed

lemma packet_header:
  "gph_version (packet ty sub i p @ rest) = 1"
  "ty < 256 \<Longrightarrow> gph_msg_type (packet ty sub i p @ rest) = ty"
  "sub < 256 \<Longrightarrow> gph_msg_subtype (packet ty sub i p @ rest) = sub"
  "gph_id (packet ty sub i p @ rest) = of_nat i"
  "length p < 65536 \<Longrightarrow> gph_len (packet ty sub i p @ rest) = length p"
proof -
  have "(of_nat (i mod 65536) :: u16) = of_nat i" by (simp add: word_of_nat_eq_iff take_bit_eq_mod)
  then show "gph_id (packet ty sub i p @ rest) = of_nat i" by (simp add: gph_id_def u8_at_packet)
qed (simp_all add: gph_version_def gph_msg_type_def gph_msg_subtype_def gph_len_def u8_at_packet del: One_nat_def)

lemmas packet_header0 = packet_header[where rest = "[]", simplified]


section \<open>Sending\<close>

definition sent_packet :: "nat \<Rightarrow> nat \<Rightarrow> char list \<Rightarrow> ('h, 'a) lgsm \<Rightarrow> ('h, 'a) lgsm" where
  "sent_packet ty sub p lg = lg\<lparr>next_msg_id := next_msg_id lg + 1,
     lg_sent := lg_sent lg @ [packet ty sub (unat (next_msg_id lg)) p]\<rparr>"

lemma send_packet:
  "length p < 65536 \<Longrightarrow> lgsm_send r (packet ty sub i p) lg = (r, sent_packet ty sub p lg)"
  by (simp add: lgsm_send_def packet_header0 set_id_packet sent_packet_def)

lemma send_checked_packet:
  "length p < 65536 \<Longrightarrow>
   send_checked r n (packet ty sub i p) lg = (if to_u32 r < int (length p + n) then - EIO else 0, sent_packet ty sub p lg)"
  by (simp add: send_checked_def send_packet packet_header0)

lemma send_simple_packet:
  "lgsm_send_simple mem r ty sub lg = (if mem then (r, sent_packet ty sub [] lg) else (- ENOMEM, lg))"
  by (simp add: lgsm_send_simple_def fill_packet send_packet)

text \<open>Writing the payload keeps the shape of the message.\<close>

definition packs :: "nat \<Rightarrow> nat \<Rightarrow> nat \<Rightarrow> char list option \<Rightarrow> bool" where
  "packs ty sub n m \<longleftrightarrow> (\<forall>gmh. m = Some gmh \<longrightarrow> (\<exists>p. gmh = packet ty sub 0 p \<and> length p = n))"

named_theorems packs_rules

lemma packs_put [packs_rules]: "length p = n \<Longrightarrow> packs ty sub n (put off bs (packet ty sub 0 p))"
  by (auto simp: packs_def put_packet split: if_splits)

lemma packs_bind [packs_rules]:
  "packs ty sub n m \<Longrightarrow> (\<And>p. length p = n \<Longrightarrow> packs ty sub n (f (packet ty sub 0 p))) \<Longrightarrow> packs ty sub n (Option.bind m f)"
  by (cases m) (auto simp: packs_def)

lemma packs_read [packs_rules]: "(\<And>x. packs ty sub n (f x)) \<Longrightarrow> packs ty sub n (Option.bind (rd_n xs i k) f)"
  "(\<And>s. packs ty sub n (h s)) \<Longrightarrow> packs ty sub n (Option.bind (cstr_of_array a) h)"
  by (cases "rd_n xs i k"; simp add: packs_def) (cases "cstr_of_array a"; simp add: packs_def)

text \<open>What a request does.\<close>

definition well_sent :: "('h, 'a) lgsm \<Rightarrow> (int \<times> ('h, 'a) lgsm) option \<Rightarrow> bool" where
  "well_sent lg m \<longleftrightarrow> (\<forall>rc lg'. m = Some (rc, lg') \<longrightarrow> lg' = lg \<and> rc < 0 \<or>
     (\<exists>ty sub p. lg' = sent_packet ty sub p lg \<and> 0 < ty \<and> ty < 12 \<and> 0 < sub \<and> sub < 16 \<and> length p \<le> 245))"

definition wire_type :: "nat \<Rightarrow> nat \<Rightarrow> nat \<Rightarrow> bool" where
  "wire_type ty sub n \<longleftrightarrow> 0 < ty \<and> ty < 12 \<and> 0 < sub \<and> sub < 16 \<and> n \<le> 245"

lemma well_sent_ret: "rc < 0 \<Longrightarrow> well_sent lg (Some (rc, lg))"
  by (simp add: well_sent_def)

lemma well_sent_packet: "wire_type ty sub (length p) \<Longrightarrow> well_sent lg (Some (rc, sent_packet ty sub p lg))"
  unfolding well_sent_def wire_type_def by blast

lemma well_sent_simple: "wire_type ty sub 0 \<Longrightarrow> well_sent lg (Some (lgsm_send_simple mem sent ty sub lg))"
  by (simp add: send_simple_packet well_sent_ret well_sent_packet)

lemma well_sent_pack:
  assumes "packs ty sub n m" and "wire_type ty sub n"
  shows "well_sent lg (do { gmh \<leftarrow> m; Some (send_checked sent k gmh lg) })"
    and "well_sent lg (do { gmh \<leftarrow> m; Some (lgsm_send sent gmh lg) })"
proof -
  have "length p < 65536" if "length p = n" for p :: "char list" using assms(2) that by (simp add: wire_type_def)
  then show "well_sent lg (do { gmh \<leftarrow> m; Some (send_checked sent k gmh lg) })" "well_sent lg (do { gmh \<leftarrow> m; Some (lgsm_send sent gmh lg) })"
    using assms by (cases m; auto simp: packs_def send_checked_packet send_packet well_sent_packet; simp add: well_sent_def)+
qed

lemma well_sent_request:
  assumes "\<And>p. length p = n \<Longrightarrow> packs ty sub n (f (packet ty sub 0 p))" and "wire_type ty sub n"
  shows "well_sent lg (lgsm_request mem sent ty sub n f lg)"
proof -
  have "well_sent lg (do { gmh \<leftarrow> f (packet ty sub 0 (replicate n NUL)); Some (send_checked sent 8 gmh lg) })"
    by (rule well_sent_pack(1)[OF assms(1)[OF length_replicate] assms(2)])
  then show ?thesis by (simp add: lgsm_request_def fill_packet well_sent_ret)
qed

lemma well_sent_any: "(\<And>x. well_sent lg (f x)) \<Longrightarrow> well_sent lg (Option.bind m f)"
  by (cases m) (auto simp: well_sent_def)

lemma packs_addr [packs_rules]: "length p = n \<Longrightarrow> packs ty sub n (put_addr off a (packet ty sub 0 p))"
  by (simp add: put_addr_def packs_put)

lemma packs_submit [packs_rules]: "length p = n \<Longrightarrow> packs ty sub n (put_submit off a sms (packet ty sub 0 p))"
  unfolding put_submit_def by (intro packs_rules; assumption)

lemmas simple_defs = lgsm_voice_in_accept_def lgsm_voice_hangup_def lgsm_voice_volume_set_def lgsm_voice_get_status_def
  lgsm_oper_get_def lgsm_oper_n_get_def lgsm_opers_get_def lgsm_netreg_deregister_def lgsm_netreg_query_def
  lgsm_signal_quality_def lgsm_prefoper_list_def lgsm_prefoper_get_space_def lgsm_get_subscriber_num_def
  lgsm_voicemail_get_def lgsm_phone_power_def lgsm_get_power_status_def lgsm_get_imsi_def lgsm_get_manufacturer_def
  lgsm_get_model_def lgsm_get_revision_def lgsm_get_serial_def lgsm_get_battery_def lgsm_phone_vibrator_def
  lgsm_modem_power_def lgsm_pb_list_storage_def lgsm_pb_get_support_def lgsm_pin_status_def lgsm_sms_get_storage_def
  lgsm_sms_get_smsc_def lgsm_cb_subscribe_def lgsm_cb_unsubscribe_def

lemmas int_request_defs = lgsm_voice_fwd_disable_def lgsm_voice_fwd_enable_def lgsm_voice_fwd_stat_def
  lgsm_voice_fwd_erase_def lgsm_prefoper_delete_def lgsm_pb_read_entry_def lgsm_pb_del_entry_def lgsm_sms_list_def
  lgsm_sms_read_def

lemmas payload_defs = lgsm_voice_out_init_def lgsm_voice_ctrl_def lgsm_voice_fwd_reg_def lgsm_netreg_register_def
  lgsm_prefoper_add_def lgsm_pb_set_storage_def lgsm_pb_find_entry_def lgsm_pb_read_entries_def lgsm_pb_write_entry_def
  lgsm_sms_delete_def lgsm_sms_set_storage_def

lemma payload_requests:
  "well_sent lg (lgsm_voice_out_init c a mem sent lg)" "well_sent lg (lgsm_voice_ctrl i j mem sent lg)"
  "well_sent lg (lgsm_voice_fwd_reg i a mem sent lg)" "well_sent lg (lgsm_netreg_register cs mem sent lg)"
  "well_sent lg (lgsm_prefoper_add cs mem sent lg)" "well_sent lg (lgsm_pb_set_storage s mem sent lg)"
  "well_sent lg (lgsm_pb_find_entry cs mem sent lg)" "well_sent lg (lgsm_pb_read_entries i j mem sent lg)"
  "well_sent lg (lgsm_pb_write_entry pb mem sent lg)" "well_sent lg (lgsm_sms_delete i j mem sent lg)"
  "well_sent lg (lgsm_sms_set_storage i j k mem sent lg)"
  unfolding payload_defs
  by ((rule well_sent_request; (intro packs_rules; assumption)?; simp add: wire_type_def sizeof_gsmd_addr_def sizeof_gsmd_phonebook_def
      GSMD_PB_TEXT_MAXLEN_def)+)

lemma well_sent_put:
  assumes "\<And>p'. length p' = length p \<Longrightarrow> well_sent lg (f (packet ty sub 0 p'))"
  shows "well_sent lg (Option.bind (put off bs (packet ty sub 0 p)) f)"
    and "well_sent lg (Option.bind (put_addr off a (packet ty sub 0 p)) f)"
    and "well_sent lg (Option.bind (put_submit off a sms (packet ty sub 0 p)) f)"
proof -
  have "well_sent lg (Option.bind m f)" if "packs ty sub (length p) m" for m
    using that assms by (cases m) (auto simp: packs_def well_sent_def)
  then show "well_sent lg (Option.bind (put off bs (packet ty sub 0 p)) f)"
    "well_sent lg (Option.bind (put_addr off a (packet ty sub 0 p)) f)"
    "well_sent lg (Option.bind (put_submit off a sms (packet ty sub 0 p)) f)"
    by (simp_all add: packs_put packs_addr packs_submit)
qed

lemma well_sent_send:
  assumes "wire_type ty sub (length p)"
  shows "well_sent lg (Some (send_checked sent k (packet ty sub 0 p) lg))" "well_sent lg (Some (lgsm_send sent (packet ty sub 0 p) lg))"
  using assms by (simp_all add: wire_type_def send_checked_packet send_packet well_sent_packet)

lemma well_sent_number:
  "(\<And>r a. well_sent lg (f r a)) \<Longrightarrow> well_sent lg (Option.bind (lgsm_number2addr x y z) (\<lambda>(r, a). f r a))"
  "(\<And>t. well_sent lg (h t)) \<Longrightarrow> well_sent lg (Option.bind (cstr_of_array b) h)"
  by (auto intro!: well_sent_any split: prod.split)

lemma well_sent_if: "(c \<Longrightarrow> well_sent lg m) \<Longrightarrow> (\<not> c \<Longrightarrow> well_sent lg m') \<Longrightarrow> well_sent lg (if c then m else m')"
  by simp

lemma well_sent_case: "well_sent lg m \<Longrightarrow> (\<And>x. v = Some x \<Longrightarrow> well_sent lg (f x)) \<Longrightarrow> well_sent lg (case v of None \<Rightarrow> m | Some x \<Rightarrow> f x)"
  by (cases v) simp_all

lemmas well_sent_rules = well_sent_if well_sent_case well_sent_number well_sent_put well_sent_send well_sent_ret

lemma filled_packet: "(if mem then Some (packet ty sub 0 q) else None) = Some gmh \<Longrightarrow> gmh = packet ty sub 0 q"
  by (simp split: if_splits)

lemma address_requests:
  "well_sent lg (lgsm_voicemail_set s mem sent lg)" "well_sent lg (lgsm_sms_set_smsc s mem sent lg)"
  "well_sent lg (lgsm_sms_send sms mem sent lg)" "well_sent lg (lgsm_sms_write i sms mem sent lg)"
  "well_sent lg (lgsm_voice_dtmf c mem sent lg)" "well_sent lg (lgsm_pin n s np mem sent lg)"
  unfolding lgsm_voicemail_set_def lgsm_sms_set_smsc_def lgsm_sms_send_def lgsm_sms_write_def lgsm_voice_dtmf_def lgsm_pin_def
    fill_packet
  by (intro well_sent_rules | drule filled_packet, hypsubst |
      simp add: wire_type_def sizeof_gsmd_addr_def sizeof_gsmd_voicemail_def sizeof_gsmd_sms_submit_def sizeof_gsmd_pin_def del: One_nat_def; fail)+

lemmas request_rules = simple_defs int_request_defs payload_requests address_requests well_sent_simple well_sent_request packs_put
  wire_type_def

lemma requests_well_sent:
  "well_sent lg (voice_request c0 mem sent lg)"
  "well_sent lg (network_request c1 mem sent lg)"
  "well_sent lg (phone_request c2 mem sent lg)"
  "well_sent lg (phonebook_request c3 mem sent lg)"
  "well_sent lg (pin_request c4 mem sent lg)"
  "well_sent lg (sms_request c5 mem sent lg)"
proof -
  show "well_sent lg (voice_request c0 mem sent lg)" by (cases c0) (simp_all add: request_rules del: One_nat_def)
  show "well_sent lg (network_request c1 mem sent lg)" by (cases c1) (simp_all add: request_rules del: One_nat_def)
  show "well_sent lg (phone_request c2 mem sent lg)" by (cases c2) (simp_all add: request_rules del: One_nat_def)
  show "well_sent lg (phonebook_request c3 mem sent lg)" by (cases c3) (simp_all add: request_rules del: One_nat_def)
  show "well_sent lg (pin_request c4 mem sent lg)" by (cases c4) (simp_all add: request_rules del: One_nat_def)
  show "well_sent lg (sms_request c5 mem sent lg)" by (cases c5) (simp_all add: request_rules del: One_nat_def)
qed

section \<open>Properties\<close>

text \<open>The requests, and text that is passed through to the modem, with the longest payload of each.\<close>

datatype library_call = Request api_call | Passthrough_send string

fun library :: "library_call \<Rightarrow> ('h, 'a) request" where
  "library (Request c) = api c"
| "library (Passthrough_send tx) = (\<lambda>mem sent. lgsm_passthrough_send sent tx)"

fun longest :: "library_call \<Rightarrow> nat" where
  "longest (Request c) = 245"
| "longest (Passthrough_send tx) = 1024"

lemma passthrough_sent:
  assumes "lgsm_passthrough_send sent tx lg = Some (rc, lg')"
  shows "lg' = lg \<and> rc = - EINVAL \<or> length tx < 1024 \<and> lg' = sent_packet GSMD_MSG_PASSTHROUGH 1 (tx @ [NUL]) lg \<and>
    rc = (if to_u32 sent < int (length tx + 8) then - EIO else int (unat (next_msg_id lg)))"
proof (cases "length tx < 1024")
  case True
  let ?p = "packet GSMD_MSG_PASSTHROUGH 1 0 (tx @ [NUL])"
  let ?r = "replicate (1023 - length tx) NUL"
  let ?h = "[char_of GSMD_PROTO_VERSION, char_of GSMD_MSG_PASSTHROUGH, char_of (1 :: nat), NUL] @ le16 0 @ le16 (length tx + 1)"
  have hdr: "?p = ?h @ tx @ [NUL]" by (simp add: packet_def char_of_def bit_0)
  have "memcpy (h @ replicate 1024 NUL) 8 (tx @ [NUL]) = Some (h @ (tx @ [NUL]) @ ?r)" if "length h = 8" for h
    using True that by (simp add: memcpy_def)
  from this[of ?h] have "memcpy (?h @ replicate PT_BUF_SIZE NUL) 8 (tx @ [NUL]) = Some (?h @ (tx @ [NUL]) @ ?r)"
    unfolding PT_BUF_SIZE_def by (simp add: le16_def)
  then have gmh: "memcpy ([char_of GSMD_PROTO_VERSION, char_of GSMD_MSG_PASSTHROUGH, char_of (1 :: nat), NUL] @ le16 0 @
      le16 (length tx + 1) @ replicate PT_BUF_SIZE NUL) 8 (tx @ [NUL]) = Some (?p @ ?r)"
    unfolding hdr by simp
  have "set_id (next_msg_id lg) (?p @ ?r) = set_id (next_msg_id lg) ?p @ ?r"
    by (simp add: set_id_def packet_def le16_def)
  moreover have "gph_len (?p @ ?r) = length tx + 1" using True packet_header(5)[of "tx @ [NUL]"] by simp
  ultimately have "lgsm_send sent (?p @ ?r) lg = (sent, sent_packet GSMD_MSG_PASSTHROUGH 1 (tx @ [NUL]) lg)"
    by (simp add: lgsm_send_def set_id_packet sent_packet_def)
  then show ?thesis using assms gmh True by (auto simp: lgsm_passthrough_send_def PT_BUF_SIZE_def split: if_splits)
next
  case False
  then show ?thesis using assms by (auto simp: lgsm_passthrough_send_def PT_BUF_SIZE_def memcpy_def le16_def split: if_splits)
qed

text \<open>
  C21. Every request of the client library (the calls of \<open>api_call\<close>, all the functions of the library that
  send a request to the daemon, and \<open>lgsm_passthrough_send\<close>) that returns, that is, stays within its buffers, fails and leaves the library as it is, or gives
  one packet to the socket: of the protocol's version, of a known type, with the next
  identification, and with a length field that is the length of its payload, at most 245 octets, or
  1024 for text that is passed through.  Nothing else in the library changes.  (The functions that only
  register handlers, receive, or look something up are not requests.)
\<close>

theorem api_well_formed:
  assumes "library call mem sent lg = Some (rc, lg')"
  shows "lg' = lg \<and> rc < 0 \<or>
    (\<exists>ty sub p. lg' = lg\<lparr>next_msg_id := next_msg_id lg + 1, lg_sent := lg_sent lg @ [packet ty sub (unat (next_msg_id lg)) p]\<rparr> \<and>
       0 < ty \<and> ty < NUM_GSMD_MSGS \<and> 0 < sub \<and> sub < 16 \<and> length p \<le> longest call)"
proof (cases call)
  case (Request c)
  have "well_sent lg (api c mem sent lg)"
    by (cases c) (simp_all add: requests_well_sent)
  then show ?thesis using assms Request by (simp add: well_sent_def sent_packet_def)
next
  case (Passthrough_send tx)
  then consider "lg' = lg \<and> rc = - EINVAL" | "length tx < 1024 \<and> lg' = sent_packet GSMD_MSG_PASSTHROUGH 1 (tx @ [NUL]) lg"
    using assms passthrough_sent[of sent tx lg rc lg'] by auto
  then show ?thesis
  proof cases
    case 2
    then show ?thesis unfolding sent_packet_def
      by (intro disjI2 exI[of _ "2 :: nat"] exI[of _ "1 :: nat"] exI[of _ "tx @ [NUL]"]) (simp add: Passthrough_send)
  qed simp
qed

text \<open>A library that has just been opened.\<close>

definition lgsm_fresh :: "(nat, nat) lgsm" where
  "lgsm_fresh = \<lparr>lh_fd = 3, lh_handler = (replicate 12 None)[1 := Some Evt_demux_msghandler], lh_netreg_state = 0,
     evt_handlers = replicate 17 None, next_msg_id = 0, lg_sent = [], lg_app = 0\<rparr>"

lemma api_well_formed_witness:
  "(\<exists>ty sub p. map_option snd (library (Request (Voice Voice_hangup)) True 8 lgsm_fresh) =
     Some (lgsm_fresh\<lparr>next_msg_id := 1, lg_sent := [packet ty sub 0 p]\<rparr>) \<and> length p \<le> 245)"
proof -
  have "library (Request (Voice Voice_hangup)) True 8 lgsm_fresh = Some (8, snd (lgsm_send_simple True 8 3 2 lgsm_fresh))"
    by (simp add: lgsm_voice_hangup_def lgsm_send_simple_def lgsm_gmh_fill_def lgsm_send_def)
  from api_well_formed[OF this] this show ?thesis by (force simp: lgsm_fresh_def)
qed

end
