(* ===== verification/ApiQueue.thy ===== *)
theory ApiQueue
  imports Api Total
begin

text \<open>
  Client and daemon together: the packet that a call of the client library gives to the socket
  is decoded by the daemon's request handlers, and the command that the call stands for is put
  at the end of the queue to the modem.
\<close>

unbundle bit_operations_syntax

section \<open>Reading a packet\<close>

named_theorems wire_simps \<open>reading packets and their payload\<close>

lemma c_at_append: "length a \<le> n \<Longrightarrow> c_at (a @ b) n = c_at b (n - length a)"
  by (simp add: c_at_def nth_append less_diff_conv2 add.commute)

lemma at_append:
  assumes "length a \<le> n"
  shows "u8_at (a @ b) n = u8_at b (n - length a)" "u16_at (a @ b) n = u16_at b (n - length a)"
    "u32_at (a @ b) n = u32_at b (n - length a)" "int_at (a @ b) n = int_at b (n - length a)"
    "str_at (a @ b) n = str_at b (n - length a)" "prec_at (a @ b) n k = prec_at b (n - length a) k"
  using assms by (simp_all add: u8_at_def u16_at_def u32_at_def int_at_def str_at_def prec_at_def c_at_append Suc_diff_le)

lemma packet_payload [wire_simps]:
  assumes "8 \<le> n"
  shows "c_at (packet ty sub i p @ rest) n = c_at (p @ rest) (n - 8)" "u8_at (packet ty sub i p @ rest) n = u8_at (p @ rest) (n - 8)"
    "u32_at (packet ty sub i p @ rest) n = u32_at (p @ rest) (n - 8)"
    "int_at (packet ty sub i p @ rest) n = int_at (p @ rest) (n - 8)" "str_at (packet ty sub i p @ rest) n = str_at (p @ rest) (n - 8)"
    "prec_at (packet ty sub i p @ rest) n k = prec_at (p @ rest) (n - 8) k"
proof -
  define h where "h = [CHR 0x01, char_of ty, char_of sub, NUL] @ le16 i @ le16 (length p)"
  have h: "packet ty sub i p @ rest = h @ (p @ rest)" "length h = 8" by (simp_all add: h_def packet_def)
  show "c_at (packet ty sub i p @ rest) n = c_at (p @ rest) (n - 8)" "u8_at (packet ty sub i p @ rest) n = u8_at (p @ rest) (n - 8)"
    "u32_at (packet ty sub i p @ rest) n = u32_at (p @ rest) (n - 8)"
    "int_at (packet ty sub i p @ rest) n = int_at (p @ rest) (n - 8)" "str_at (packet ty sub i p @ rest) n = str_at (p @ rest) (n - 8)"
    "prec_at (packet ty sub i p @ rest) n k = prec_at (p @ rest) (n - 8) k"
    unfolding h(1) using assms h(2) by (simp_all add: c_at_append at_append)
qed

lemma le32_octets:
  "u32_at (le32 x @ xs) 0 = nat (to_u32 x)" "int_at (le32 x @ xs) 0 = to_int32 x"
proof -
  let ?n = "nat (to_u32 x)"
  have n: "?n < 4294967296" by (simp add: to_u32_def nat_less_iff)
  have b: "m mod 256 + 256 * (m div 256 mod 256) = m mod 65536" for m :: nat
    using mod_mult2_eq[of m 256 256] by simp
  have "?n div 65536 < 65536" using n by (simp add: less_mult_imp_div_less)
  then have "?n mod 65536 + 65536 * (?n div 65536 mod 65536) = ?n" by simp
  then show u: "u32_at (le32 x @ xs) 0 = ?n"
    using b[of ?n] b[of "?n div 65536"]
    by (simp add: u32_at_def u16_at_def u8_at_def le32_def le16_def c_at_def ord_c_char_of_mod Let_def)
  have "to_int32 (to_u32 x) = to_int32 x" by (simp add: to_int32_def to_u32_def mod_add_left_eq)
  then show "int_at (le32 x @ xs) 0 = to_int32 x" using u by (simp add: int_at_def to_u32_def)
qed

lemmas le32_payload [wire_simps] = le32_octets le32_octets[where xs = "[]", simplified]

lemma le32_skip [wire_simps]:
  assumes "4 \<le> n"
  shows "c_at (le32 x @ xs) n = c_at xs (n - 4)" "u8_at (le32 x @ xs) n = u8_at xs (n - 4)" "u32_at (le32 x @ xs) n = u32_at xs (n - 4)"
    "int_at (le32 x @ xs) n = int_at xs (n - 4)" "str_at (le32 x @ xs) n = str_at xs (n - 4)"
  using assms by (simp_all add: c_at_append at_append)

lemma octet_payload [wire_simps]:
  "u8_at (c # xs) 0 = ord_c c" "u8_at (c # xs) (Suc n) = u8_at xs n" "str_at (c # xs) (Suc n) = str_at xs n"
  "prec_at (c # xs) (Suc n) k = prec_at xs n k"
  by (simp_all add: u8_at_def str_at_def prec_at_def)

lemma octet_skip [wire_simps]:
  "0 < n \<Longrightarrow> u8_at (c # xs) n = u8_at xs (n - 1)" "0 < n \<Longrightarrow> str_at (c # xs) n = str_at xs (n - 1)"
  by (cases n; simp add: octet_payload)+

lemma str_here [wire_simps]: "NUL \<notin> set s \<Longrightarrow> str_at (s @ NUL # xs) 0 = Some s"
  by (simp add: str_at_def cstr_of_array_def cstr_append_NUL)

section \<open>Queueing\<close>

text \<open>Command \<open>t\<close> is the last in the queue; what was put in front of it has no reply.\<close>

definition queued :: "string \<Rightarrow> at_cb option \<Rightarrow> at_ctx \<Rightarrow> u16 \<Rightarrow> gsmd \<Rightarrow> gsmd \<Rightarrow> bool" where
  "queued t cb ctx i g g' \<longleftrightarrow>
     (\<exists>pre cmd. g_pending_atcmds g' = g_pending_atcmds g @ pre @ [cmd] \<and>
        (\<forall>c \<in> set pre. ac_cb c \<in> {Some Null_wakeup_cb, Some Null_cmd_cb}) \<and>
        cstr_of_array (ac_buf cmd) = Some t \<and> ac_cb cmd = cb \<and> ac_ctx cmd = ctx \<and> ac_id cmd = i) \<and>
     g_busy_atcmds g' = g_busy_atcmds g"

lemma submit_queued:
  assumes "no_fail g"
  shows "\<exists>g'. atcmd_submit cmd g = Some (0, g') \<and> no_fail g' \<and> g_busy_atcmds g' = g_busy_atcmds g \<and>
    (\<exists>pre. g_pending_atcmds g' = g_pending_atcmds g @ pre @ [cmd] \<and> (\<forall>c \<in> set pre. ac_cb c = Some Null_wakeup_cb))"
proof -
  have q: "g_pending_atcmds (wake_if_idle (add_pending_tail c h)) = g_pending_atcmds h @ [c]"
    "g_busy_atcmds (wake_if_idle (add_pending_tail c h)) = g_busy_atcmds h" for c h
    by (simp_all add: wake_if_idle_def add_pending_tail_def atcmd_wake_pending_queue_def)
  show ?thesis
  proof (cases "g_machinepl g = Machine_gta01")
    case True
    obtain w where w: "atcmd_fill ('' '' @ [CR]) 2 (Some Null_wakeup_cb) Ctx_gsmd 0 Wakeup_timer g =
        Some (Some w, g\<lparr>g_next_addr := g_next_addr g + 1\<rparr>)"
      using fill_total[OF assms, of 2] by fastforce
    then have "ac_cb w = Some Null_wakeup_cb" by (rule atcmd_fill_Some(4))
    moreover have "atcmd_submit cmd g = Some (0, wake_if_idle (add_pending_tail cmd
        (wake_if_idle (add_pending_tail w (g\<lparr>g_next_addr := g_next_addr g + 1\<rparr>)))))"
      using True w by (simp add: atcmd_submit_def ex_submit_def atcmd_wakeup_modem_def)
    ultimately show ?thesis using assms by (auto simp: q)
  next
    case False
    then show ?thesis using assms
      by (cases "g_machinepl g") (auto simp: atcmd_submit_def ex_submit_def q intro: exI[of _ "[]"])
  qed
qed

lemma fill_text:
  assumes "no_fail g" and "NUL \<notin> set t" and "length t < rlen"
  shows "\<exists>cmd. atcmd_fill t (int rlen) cb ctx cid ct g = Some (Some cmd, g\<lparr>g_next_addr := g_next_addr g + 1\<rparr>) \<and>
    ac_cb cmd = cb \<and> ac_ctx cmd = ctx \<and> ac_id cmd = cid \<and> ac_buf cmd = t @ replicate (rlen - length t) NUL \<and> ac_buflen cmd = rlen"
  using assms by (simp add: atcmd_fill_def Let_def min_def)

text \<open>A command that is filled, perhaps printed into, and submitted.\<close>

lemma fill_submit_queued:
  assumes "no_fail g" and "NUL \<notin> set f" and "length f < rlen"
    and pr: "\<And>cmd. ac_buf cmd = f @ replicate (rlen - length f) NUL \<Longrightarrow> ac_buflen cmd = rlen \<Longrightarrow>
      \<exists>a. pr cmd = Some (cmd\<lparr>ac_buf := a\<rparr>) \<and> cstr_of_array a = Some t"
  shows "\<exists>g'. fill_submit e f rlen cb ctx cid pr g = Some (0, g') \<and> queued t cb ctx cid g g' \<and> no_fail g'"
proof -
  obtain cmd where cmd: "atcmd_fill f (int rlen) cb ctx cid Discard_timer g = Some (Some cmd, g\<lparr>g_next_addr := g_next_addr g + 1\<rparr>)"
    "ac_cb cmd = cb" "ac_ctx cmd = ctx" "ac_id cmd = cid" "ac_buf cmd = f @ replicate (rlen - length f) NUL" "ac_buflen cmd = rlen"
    using fill_text[OF assms(1-3)] by blast
  obtain a where a: "pr cmd = Some (cmd\<lparr>ac_buf := a\<rparr>)" "cstr_of_array a = Some t" using pr[OF cmd(5,6)] by blast
  let ?g = "g\<lparr>g_next_addr := g_next_addr g + 1\<rparr>"
  obtain g' pre where g': "atcmd_submit (cmd\<lparr>ac_buf := a\<rparr>) ?g = Some (0, g')" "no_fail g'" "g_busy_atcmds g' = g_busy_atcmds g"
    "g_pending_atcmds g' = g_pending_atcmds g @ pre @ [cmd\<lparr>ac_buf := a\<rparr>]" "\<forall>c \<in> set pre. ac_cb c = Some Null_wakeup_cb"
    using submit_queued[of ?g "cmd\<lparr>ac_buf := a\<rparr>"] assms(1) by auto
  have "queued t cb ctx cid g g'" unfolding queued_def using g' a cmd by (intro conjI exI[of _ pre] exI[of _ "cmd\<lparr>ac_buf := a\<rparr>"]) auto
  then show ?thesis using cmd a g' by (simp add: fill_submit_def)
qed

lemma plain_queued:
  "no_fail g \<Longrightarrow> NUL \<notin> set t \<Longrightarrow> length t < rlen \<Longrightarrow>
   \<exists>g'. fill_submit e t rlen cb ctx cid Some g = Some (0, g') \<and> queued t cb ctx cid g g' \<and> no_fail g'"
  by (rule fill_submit_queued) (auto simp: cstr_of_array_padded intro: exI[of _ "t @ replicate (rlen - length t) NUL"])

lemma print_queued:
  assumes "no_fail g" and "NUL \<notin> set f" and "length f < rlen" and "NUL \<notin> set t" and "length t < rlen"
  shows "\<exists>g'. cmd_print f rlen t cb gu cid g = Some (0, g') \<and> queued t cb (Ctx_user gu) cid g g' \<and> no_fail g'"
proof (rule fill_submit_queued[OF assms(1-3)])
  fix cmd :: gsmd_atcmd assume b: "ac_buf cmd = f @ replicate (rlen - length f) NUL" "ac_buflen cmd = rlen"
  then have "length (ac_buf cmd) = rlen" using assms(3) by simp
  then have "sprintf_cmd cmd t = Some (cmd\<lparr>ac_buf := t @ NUL # drop (length t + 1) (ac_buf cmd)\<rparr>)"
    using assms(5) by (simp add: sprintf_cmd_def)
  then show "\<exists>a. sprintf_cmd cmd t = Some (cmd\<lparr>ac_buf := a\<rparr>) \<and> cstr_of_array a = Some t"
    using assms(4) by (auto simp: cstr_of_array_def cstr_append_NUL)
qed

text \<open>Two commands: the first sets the format of the second's response.\<close>

lemma format_queued:
  assumes "no_fail g" and "NUL \<notin> set f" and "NUL \<notin> set t"
  shows "\<exists>g'. network_format f t cb gu g = Some (0, g') \<and> queued t (Some cb) (Ctx_user gu) 0 g g' \<and> no_fail g'"
proof -
  obtain cmd where cmd: "atcmd_fill f (int (length f + 1)) (Some Null_cmd_cb) (Ctx_user gu) 0 Discard_timer g =
      Some (Some cmd, g\<lparr>g_next_addr := g_next_addr g + 1\<rparr>)" "ac_cb cmd = Some Null_cmd_cb"
    using fill_text[OF assms(1,2), of "length f + 1"] by fastforce
  obtain g1 pre where g1: "atcmd_submit cmd (g\<lparr>g_next_addr := g_next_addr g + 1\<rparr>) = Some (0, g1)" "no_fail g1"
    "g_busy_atcmds g1 = g_busy_atcmds g" "g_pending_atcmds g1 = g_pending_atcmds g @ pre @ [cmd]"
    "\<forall>c \<in> set pre. ac_cb c = Some Null_wakeup_cb"
    using submit_queued[of "g\<lparr>g_next_addr := g_next_addr g + 1\<rparr>" cmd] assms(1) by auto
  obtain g' where g': "cmd_plain t (length t + 1) (Some cb) gu 0 g1 = Some (0, g')" "queued t (Some cb) (Ctx_user gu) 0 g1 g'" "no_fail g'"
    using plain_queued[OF g1(2) assms(3)] by (metis less_add_one)
  have "queued t (Some cb) (Ctx_user gu) 0 g g'"
  proof -
    obtain pre' c where c: "g_pending_atcmds g' = g_pending_atcmds g1 @ pre' @ [c]"
        "\<forall>c \<in> set pre'. ac_cb c \<in> {Some Null_wakeup_cb, Some Null_cmd_cb}" "cstr_of_array (ac_buf c) = Some t"
        "ac_cb c = Some cb" "ac_ctx c = Ctx_user gu" "ac_id c = 0" "g_busy_atcmds g' = g_busy_atcmds g1"
      using g'(2) by (auto simp: queued_def)
    show ?thesis unfolding queued_def
      using c g1 cmd(2) by (intro conjI exI[of _ "pre @ [cmd] @ pre'"] exI[of _ c]) auto
  qed
  then show ?thesis using cmd g1(1) g' by (simp add: network_format_def submit_unchecked_def)
qed

section \<open>What the calls stand for\<close>

text \<open>
  The command for a call, the callback that will handle its response, whether it carries the
  identification of the request, and whether it belongs to the client.  There is no entry for
  the calls that do not end in a command of their own at the end of the queue (hanging up, the
  IMSI, switching the modem off), for the one that the daemon does not know (the volume), and
  for arguments that the library or the daemon does not take.
\<close>

record at_entry =
  ae_text :: string
  ae_cb :: "at_cb option"
  ae_id :: bool
  ae_own :: bool

definition own :: "string \<Rightarrow> at_cb \<Rightarrow> at_entry option" where
  "own t cb = Some \<lparr>ae_text = t, ae_cb = Some cb, ae_id = True, ae_own = True\<rparr>"

definition own0 :: "string \<Rightarrow> at_cb \<Rightarrow> at_entry option" where
  "own0 t cb = Some \<lparr>ae_text = t, ae_cb = Some cb, ae_id = False, ae_own = True\<rparr>"

definition quoted :: "string \<Rightarrow> string" where
  "quoted t = [DQ] @ t @ [DQ]"

definition octet :: "int \<Rightarrow> nat" where
  "octet i = nat (i mod 256)"

definition digits_only :: "string \<Rightarrow> bool" where
  "digits_only n \<longleftrightarrow> list_all isdigit n"

text \<open>The message that the daemon finds in the packet for a message of the client.\<close>

definition submit_of :: "lgsm_sms \<Rightarrow> gsmd_sms_submit" where
  "submit_of sms =
     (let n = cstr (ls_addr sms); intl = (c_at n 0 = CHR ''+''); num = (if intl then drop 1 n else n) in
      \<lparr>sub_addr = \<lparr>ga_type = (if intl then 0x91 else 0x81), ga_number = num @ replicate (GSMD_ADDR_MAXLEN + 1 - length num) NUL\<rparr>,
       sub_payload = \<lparr>sms_length = of_int (ls_length sms), sms_coding_scheme = of_int (ls_alpha sms), sms_has_header = False,
         sms_is_voicemail = False, sms_dcs = sms_dcs sms_zero, sms_tp_mti = GSMD_SMS_TP_MTI_SUBMIT,
         sms_data = take LGSM_SMS_DATA_MAXLEN (ls_data sms) @ replicate 25 0\<rparr>,
       sub_ask_ds = (to_int32 (ls_ask_ds sms) \<noteq> 0)\<rparr>)"

text \<open>Messages whose number is made of digits, behind a sign perhaps, and whose text fits.\<close>

definition sms_ok :: "lgsm_sms \<Rightarrow> bool" where
  "sms_ok sms \<longleftrightarrow> length (ls_addr sms) = LGSM_SMS_ADDR_MAXLEN + 1 \<and> NUL \<in> set (ls_addr sms) \<and>
     digits_only (if c_at (cstr (ls_addr sms)) 0 = CHR ''+'' then drop 1 (cstr (ls_addr sms)) else cstr (ls_addr sms)) \<and>
     length (ls_data sms) = LGSM_SMS_DATA_MAXLEN + 1 \<and>
     sms_data_bytelen (of_int (ls_alpha sms)) (of_int (ls_length sms)) \<le> LGSM_SMS_DATA_MAXLEN"

definition sms_entry :: "string \<Rightarrow> string \<Rightarrow> lgsm_sms \<Rightarrow> at_cb \<Rightarrow> at_entry option" where
  "sms_entry cmd arg sms cb =
     (if sms_ok sms then
        do { (n, hex) \<leftarrow> sms_pdu_make_smssubmit (submit_of sms); own (cmd @ show_int (n - 1) @ arg @ [LF] @ hex @ [CHR 0x1A]) cb }
      else None)"

fun voice_spec :: "voice_call \<Rightarrow> at_entry option" where
  "voice_spec (Voice_out_init c a) =
     (if length (la_addr a) = LGSM_ADDR_MAXLEN + 1 then own (''ATD'' @ cstr (la_addr a) @ '';'') Usock_cmd_cb else None)"
| "voice_spec (Voice_dtmf c) = (if c \<noteq> NUL then own (''AT+VTS='' @ [c] @ '';'') Usock_cmd_cb else None)"
| "voice_spec Voice_in_accept = own ''ATA'' Usock_ringing_cb"
| "voice_spec Voice_get_status = own ''AT+CLCC'' Voicecall_get_stat_cb"
| "voice_spec (Voice_ctrl p i) =
     (if p = 0 \<or> p = 1 then own ''AT+CHLD=0'' Voicecall_ctrl_cb
      else if p = 2 then own ''AT+CHLD=1'' Voicecall_ctrl_cb
      else if p = 3 \<and> octet i < 10 then own (''AT+CHLD=1'' @ show_nat (octet i)) Voicecall_ctrl_cb
      else if p = 4 then own ''AT+CHLD=2'' Voicecall_ctrl_cb
      else if p = 5 \<and> octet i < 10 then own (''AT+CHLD=2'' @ show_nat (octet i)) Voicecall_ctrl_cb
      else if p = 6 then own ''AT+CHLD=3'' Voicecall_ctrl_cb
      else None)"
| "voice_spec (Voice_fwd_disable r) = own (''AT+CCFC='' @ show_int (to_int32 r) @ '',0'') Usock_cmd_cb"
| "voice_spec (Voice_fwd_enable r) = own (''AT+CCFC='' @ show_int (to_int32 r) @ '',1'') Usock_cmd_cb"
| "voice_spec (Voice_fwd_stat r) = own (''AT+CCFC='' @ show_int (to_int32 r) @ '',2'') Voicecall_fwd_stat_cb"
| "voice_spec (Voice_fwd_reg r a) =
     (if length (la_addr a) = LGSM_ADDR_MAXLEN + 1 \<and> NUL \<in> set (la_addr a)
      then own (''AT+CCFC='' @ show_int (to_int32 r) @ '',3,'' @ quoted (cstr (la_addr a))) Usock_cmd_cb else None)"
| "voice_spec (Voice_fwd_erase r) = own (''AT+CCFC='' @ show_int (to_int32 r) @ '',4'') Usock_cmd_cb"
| "voice_spec _ = None"

fun network_spec :: "network_call \<Rightarrow> at_entry option" where
  "network_spec Oper_get = own0 ''AT+COPS?'' Network_oper_cb"
| "network_spec Oper_n_get = own0 ''AT+COPS?'' Network_oper_n_cb"
| "network_spec Opers_get = own0 ''AT+COPS=?'' Network_opers_cb"
| "network_spec (Netreg_register oper) =
     (if length oper = 6 then own0 (if oper ! 0 \<noteq> NUL then ''AT+COPS=1,2,'' @ quoted (cstr oper) else ''AT+COPS=0'') Null_cmd_cb
      else None)"
| "network_spec Netreg_deregister = own0 ''AT+COPS=2'' Null_cmd_cb"
| "network_spec Netreg_query = own0 ''AT+CREG?'' Network_query_reg_cb"
| "network_spec Signal_quality = own0 ''AT+CSQ'' Network_sigq_cb"
| "network_spec Prefoper_list = own0 ''AT+CPOL?'' Network_pref_opers_cb"
| "network_spec (Prefoper_delete i) = own0 (''AT+CPOL='' @ show_int (to_int32 i)) Null_cmd_cb"
| "network_spec (Prefoper_add oper) = (if length oper = 6 then own0 (''AT+CPOL=,2,'' @ quoted (cstr oper)) Null_cmd_cb else None)"
| "network_spec Prefoper_get_space = own0 ''AT+CPOL=?'' Network_pref_num_cb"
| "network_spec Get_subscriber_num = own0 ''AT+CNUM'' Network_ownnumbers_cb"
| "network_spec (Voicemail_set n) =
     (if digits_only n \<and> length n \<le> 4 then own0 (''AT+CSVM=1,'' @ quoted n @ '',129'') Network_vmail_cb else None)"
| "network_spec Voicemail_get = own0 ''AT+CSVM?'' Network_vmail_cb"

fun phone_spec :: "phone_call \<Rightarrow> at_entry option" where
  "phone_spec (Phone_power p) = (if p \<noteq> 0 then own0 ''AT+CFUN=1'' Phone_powerup_cb else own0 ''AT+CFUN=0'' Phone_powerdown_cb)"
| "phone_spec Get_power_status = own0 ''AT+CFUN?'' Phone_power_status_cb"
| "phone_spec Get_manufacturer = own0 ''AT+CGMI'' Phone_get_manuf_cb"
| "phone_spec Get_model = own0 ''AT+CGMM'' Phone_get_model_cb"
| "phone_spec Get_revision = own0 ''AT+CGMR'' Phone_get_revision_cb"
| "phone_spec Get_serial = own0 ''AT+CGSN'' Phone_get_serial_cb"
| "phone_spec Get_battery = own0 ''AT+CBC'' Phone_get_battery_cb"
| "phone_spec (Phone_vibrator e) =
     (if e \<noteq> 0 then own0 ''AT+CVIB=1'' Phone_vibrator_enable_cb else own0 ''AT+CVIB=0'' Phone_vibrator_disable_cb)"
| "phone_spec _ = None"

fun phonebook_spec :: "phonebook_call \<Rightarrow> at_entry option" where
  "phonebook_spec Pb_list_storage = own ''AT+CPBS=?'' Phonebook_list_storage_cb"
| "phonebook_spec (Pb_set_storage s) = (if NUL \<notin> set s then own (''AT+CPBS='' @ quoted (take 2 s)) Usock_cmd_cb else None)"
| "phonebook_spec (Pb_find_entry t) =
     (if length t = GSMD_PB_TEXT_MAXLEN + 1 then own (''AT+CPBF='' @ quoted (cstr (take GSMD_PB_TEXT_MAXLEN t))) Phonebook_find_cb
      else None)"
| "phonebook_spec (Pb_read_entry i) = own (''AT+CPBR='' @ show_int (to_int32 i)) Phonebook_read_cb"
| "phonebook_spec (Pb_read_entries i j) = own (''AT+CPBR='' @ show_nat (octet i) @ '','' @ show_nat (octet j)) Phonebook_readrg_cb"
| "phonebook_spec (Pb_del_entry i) = own (''AT+CPBW='' @ show_int (to_int32 i)) Phonebook_delete_cb"
| "phonebook_spec (Pb_write_entry pb) =
     (if length (pb_numb pb) = GSMD_PB_NUMB_MAXLEN + 1 \<and> length (pb_text pb) = GSMD_PB_TEXT_MAXLEN + 1
      then own (''AT+CPBW='' @ show_int (store_signed 8 (pb_index pb)) @ '','' @ quoted (cstr (take GSMD_PB_NUMB_MAXLEN (pb_numb pb))) @
             '','' @ show_nat (octet (pb_type pb)) @ '','' @ quoted (cstr (take GSMD_PB_TEXT_MAXLEN (pb_text pb)))) Phonebook_write_cb
      else None)"
| "phonebook_spec Pb_get_support = own ''AT+CPBR=?'' Phonebook_get_support_cb"

fun pin_spec :: "pin_call \<Rightarrow> at_entry option" where
  "pin_spec Pin_status = own0 ''AT+CPIN?'' Get_cpin_cb"
| "pin_spec (Pin_input ty pin newpin) =
     (if NUM_GSMD_PIN \<le> ty \<or> NUL \<in> set pin \<or> GSMD_PIN_MAXLEN < length pin then None
      else case newpin of
        None \<Rightarrow> if ty = 2 \<or> ty = 7 then None else own0 (''AT+CPIN='' @ quoted pin) Pin_cmd_cb
      | Some np \<Rightarrow>
          if NUL \<in> set np \<or> GSMD_PIN_MAXLEN < length np then None
          else own0 (''AT+CPIN='' @ quoted (if ty = 2 \<or> ty = 7 then pin @ [DQ] @ '','' @ [DQ] @ np else pin)) Pin_cmd_cb)"

fun sms_spec :: "sms_call \<Rightarrow> at_entry option" where
  "sms_spec (Sms_list s) = (if 0 \<le> s \<and> s \<le> 4 then own (''AT+CMGL='' @ show_int s) Sms_list_cb else None)"
| "sms_spec (Sms_read i) = own (''AT+CMGR='' @ show_int (to_int32 i)) Sms_read_cb"
| "sms_spec (Sms_delete i d) = own (''AT+CMGD='' @ show_nat (octet i) @ '','' @ show_nat (octet d)) Sms_delete_cb"
| "sms_spec (Sms_send sms) = sms_entry ''AT+CMGS='' [] sms Sms_send_cb"
| "sms_spec (Sms_write s sms) = (if octet s \<le> 4 then sms_entry ''AT+CMGW='' ('','' @ show_nat (octet s)) sms Sms_write_cb else None)"
| "sms_spec Sms_get_storage = own0 ''AT+CPMS?'' Usock_cpms_cb"
| "sms_spec (Sms_set_storage a b c) =
     (if 0 \<le> a \<and> a < 7 \<and> 0 \<le> b \<and> b < 7 \<and> 0 \<le> c \<and> c < 7
      then Some \<lparr>ae_text = ''AT+CPMS='' @ quoted (ts0705_memtype_name ! nat a) @ '','' @ quoted (ts0705_memtype_name ! nat b) @
             '','' @ quoted (ts0705_memtype_name ! nat c), ae_cb = None, ae_id = True, ae_own = True\<rparr>
      else None)"
| "sms_spec Sms_get_smsc = own0 ''AT+CSCA?'' Usock_get_smsc_cb"
| "sms_spec (Sms_set_smsc n) =
     (if digits_only n \<and> length n \<le> GSMD_ADDR_MAXLEN
      then Some \<lparr>ae_text = ''AT+CSCA='' @ quoted n @ '',129'', ae_cb = None, ae_id = True, ae_own = True\<rparr> else None)"
| "sms_spec Cb_subscribe = Some \<lparr>ae_text = ''AT+CSCB=1'', ae_cb = None, ae_id = False, ae_own = False\<rparr>"
| "sms_spec Cb_unsubscribe = Some \<lparr>ae_text = ''AT+CSCB=0'', ae_cb = None, ae_id = False, ae_own = False\<rparr>"

fun at_spec :: "api_call \<Rightarrow> at_entry option" where
  "at_spec (Voice c) = voice_spec c"
| "at_spec (Network c) = network_spec c"
| "at_spec (Phone c) = phone_spec c"
| "at_spec (Phonebook c) = phonebook_spec c"
| "at_spec (Pin c) = pin_spec c"
| "at_spec (Sms c) = sms_spec c"

section \<open>Simple requests\<close>

definition handled :: "at_entry \<Rightarrow> nat \<Rightarrow> nat \<Rightarrow> char list \<Rightarrow> bool" where
  "handled e ty sub q \<longleftrightarrow> (\<forall>i rest gu g. no_fail g \<longrightarrow> \<not> flag (g_flags g) GSMD_FLAG_SMS_FMT_TEXT \<longrightarrow>
     (\<exists>g'. usock_rcv_pcmd gu (packet ty sub i q @ rest) (int (8 + length q)) g = Some (0, g') \<and>
        queued (ae_text e) (ae_cb e) (if ae_own e then Ctx_user gu else Ctx_gsmd) (if ae_id e then of_nat i else 0) g g' \<and> no_fail g'))"

definition delivers :: "at_entry \<Rightarrow> ('h, 'a) request \<Rightarrow> bool" where
  "delivers e req \<longleftrightarrow> (\<forall>sent lg. \<exists>rc ty sub q. req True sent lg = Some (rc, sent_packet ty sub q lg) \<and> handled e ty sub q)"

lemma delivers_simple: "handled e ty sub [] \<Longrightarrow> delivers e (simple ty sub)"
  unfolding delivers_def by (auto simp: send_simple_packet)

lemma delivers_int: "handled e ty sub (le32 i) \<Longrightarrow> delivers e (int_request ty sub i)"
  unfolding delivers_def
  by (auto simp: lgsm_request_def fill_packet put_packet send_checked_packet)

lemma handledI:
  assumes "\<And>i rest gu g. no_fail g \<Longrightarrow> \<not> flag (g_flags g) GSMD_FLAG_SMS_FMT_TEXT \<Longrightarrow>
     \<exists>g'. usock_rcv_pcmd gu (packet ty sub i q @ rest) (int (8 + length q)) g = Some (0, g') \<and>
        queued (ae_text e) (ae_cb e) (if ae_own e then Ctx_user gu else Ctx_gsmd) (if ae_id e then of_nat i else 0) g g' \<and> no_fail g'"
  shows "handled e ty sub q"
  using assms by (simp add: handled_def)

lemmas dispatch_simps = usock_rcv_pcmd_def packet_header own_def own0_def

lemma queued_dev_state: "queued t cb ctx i (g\<lparr>g_dev_state := ds\<rparr>) g' = queued t cb ctx i g g'"
  by (simp add: queued_def)

lemma voice_simple:
  assumes "voice_spec c = Some e" and "c \<in> {Voice_in_accept, Voice_get_status}"
  shows "delivers e (voice_request c)"
  using assms
  by (auto simp: simple_defs dispatch_simps usock_rcv_voicecall_def intro!: delivers_simple handledI plain_queued)

lemma phone_simple:
  assumes "phone_spec c = Some e"
  shows "delivers e (phone_request c)"
proof -
  have down: "\<exists>g'. fill_submit v t n cb ctx i Some (g\<lparr>g_dev_state := ds\<rparr>) = Some (0, g') \<and> queued t cb ctx i g g' \<and> no_fail g'"
    if "no_fail g" "NUL \<notin> set t" "length t < n" for v t n cb ctx i g ds
    using plain_queued[of "g\<lparr>g_dev_state := ds\<rparr>" t n v cb ctx i] that by (simp add: queued_dev_state)
  show ?thesis using assms
    by (cases c) (auto simp: simple_defs dispatch_simps usock_rcv_phone_def split: if_splits
        intro!: delivers_simple handledI plain_queued down)
qed

lemma network_simple:
  assumes "network_spec c = Some e" and "\<And>i cs n. c \<noteq> Prefoper_delete i \<and> c \<noteq> Netreg_register cs \<and> c \<noteq> Prefoper_add cs \<and> c \<noteq> Voicemail_set n"
  shows "delivers e (network_request c)"
  using assms
  by (cases c) (auto simp: simple_defs dispatch_simps usock_rcv_network_def intro!: delivers_simple handledI plain_queued format_queued)

section \<open>Printed arguments\<close>

named_theorems text_simps \<open>texts that are printed into commands\<close>

lemma digit_not_NUL: "isdigit c \<Longrightarrow> c \<noteq> NUL"
  by (auto simp: isdigit_def ord_c_def)

lemma NUL_show [text_simps]: "NUL \<notin> set (show_nat n)" "NUL \<notin> set (show_int i)"
proof -
  show n: "NUL \<notin> set (show_nat n)" for n using show_nat_isdigit digit_not_NUL by blast
  show "NUL \<notin> set (show_int i)" using n by (simp add: show_int_def)
qed

lemma length_show_int32: "length (show_int (to_int32 i)) \<le> 11"
proof -
  have "nat (to_int32 i) \<le> 4294967295" "nat (- to_int32 i) \<le> 4294967295" using to_int32_bounds[of i] by linarith+
  then show ?thesis using length_show_nat_32[of "nat (to_int32 i)"] length_show_nat_32[of "nat (- to_int32 i)"] by (simp add: show_int_def)
qed

lemma octet_less: "octet i < 256"
  by (simp add: octet_def nat_less_iff)

lemma length_show_octet: "length (show_nat (octet i)) \<le> 3"
  using length_show_nat[of "octet i" 2] octet_less[of i] by simp

lemma ord_u8_of [text_simps]: "ord_c (u8_of i) = octet i"
  by (simp add: u8_of_def ord_c_char_of_mod octet_def)

lemma cstr_cstr [text_simps]: "cstr (cstr s) = cstr s"
  by (simp add: cstr_id)

declare quoted_def [text_simps]

lemma ccfc_queued:
  assumes "no_fail g" and "NUL \<notin> set s" and "length s < 64" and "t = ''AT+CCFC='' @ s" and "cid = gph_id b"
  shows "\<exists>g'. ccfc cb s gu b g = Some (0, g') \<and> queued t (Some cb) (Ctx_user gu) cid g g' \<and> no_fail g'"
  using print_queued[OF assms(1), of "''AT+CCFC=''" "1 + 8 + length s" t "Some cb" gu cid] assms
  by (simp add: ccfc_def sprintf_local_def)

lemma network_print_queued:
  assumes "no_fail g" and "NUL \<notin> set s" and "length s < 21" and "t = s"
  shows "\<exists>g'. network_print s cb gu g = Some (0, g') \<and> queued t (Some cb) (Ctx_user gu) 0 g g' \<and> no_fail g'"
  using plain_queued[OF assms(1,2), of "length s + 1" _ "Some cb" "Ctx_user gu" 0] assms
  by (simp add: network_print_def sprintf_local_def)

lemma phonebook_print_queued:
  assumes "no_fail g" and "NUL \<notin> set f" and "NUL \<notin> set s" and "length s < 1024" and "t = f @ s" and "cid = gph_id b"
  shows "\<exists>g'. phonebook_print f s cb gu b g = Some (0, g') \<and> queued t (Some cb) (Ctx_user gu) cid g g' \<and> no_fail g'"
  using print_queued[OF assms(1), of f "1 + length f + length s" t "Some cb" gu cid] assms
  by (simp add: phonebook_print_def sprintf_local_def)

lemma sms_print_queued:
  assumes "no_fail g" and "NUL \<notin> set s" and "length s < 1024" and "t = s" and "cid = gph_id b"
  shows "\<exists>g'. sms_print s cb gu b g = Some (0, g') \<and> queued t cb (Ctx_user gu) cid g g' \<and> no_fail g'"
  using plain_queued[OF assms(1,2), of "length s + 1" _ cb "Ctx_user gu" cid] assms
  by (simp add: sms_print_def sprintf_local_def)

lemma printed_int: "11 < n \<Longrightarrow> length (show_int (to_int32 i)) < n"
  using length_show_int32[of i] by simp

lemma printed_octet: "3 < n \<Longrightarrow> length (show_nat (octet i)) < n"
  using length_show_octet[of i] by simp

lemma voice_int:
  assumes "voice_spec c = Some e" and "c \<in> {Voice_fwd_disable r, Voice_fwd_enable r, Voice_fwd_stat r, Voice_fwd_erase r}"
  shows "delivers e (voice_request c)"
  using assms printed_int[of 62 r]
  by (auto simp: int_request_defs dispatch_simps usock_rcv_voicecall_def voicecall_fwd_def wire_simps text_simps
      intro!: delivers_int handledI ccfc_queued)

lemma network_int:
  assumes "network_spec (Prefoper_delete r) = Some e"
  shows "delivers e (network_request (Prefoper_delete r))"
  using assms printed_int[of 13 r]
  by (auto simp: int_request_defs dispatch_simps usock_rcv_network_def wire_simps text_simps
      intro!: delivers_int handledI network_print_queued)

lemma phonebook_simple:
  assumes "phonebook_spec c = Some e" and "c \<in> {Pb_list_storage, Pb_get_support, Pb_read_entry r, Pb_del_entry r}"
  shows "delivers e (phonebook_request c)"
  using assms printed_int[of 1024 r]
  by (auto simp: simple_defs int_request_defs dispatch_simps usock_rcv_phonebook_def wire_simps text_simps
      intro!: delivers_simple delivers_int handledI plain_queued phonebook_print_queued)

lemma sms_simple:
  assumes "sms_spec c = Some e" and "c \<in> {Sms_get_storage, Sms_get_smsc, Cb_subscribe, Cb_unsubscribe}"
  shows "delivers e (sms_request c)"
  using assms
  by (auto simp: simple_defs dispatch_simps usock_rcv_sms_def usock_rcv_cb_def Let_def
      intro!: delivers_simple handledI plain_queued)

lemma sms_int:
  assumes "sms_spec c = Some e" and "c \<in> {Sms_list r, Sms_read r}"
  shows "delivers e (sms_request c)"
  using assms printed_int[of 1000 r]
  by (auto simp: int_request_defs dispatch_simps usock_rcv_sms_def Let_def wire_simps text_simps to_int32_id split: if_splits
      intro!: delivers_int handledI sms_print_queued)

section \<open>Requests with a payload\<close>

lemma delivers_request:
  assumes "f (packet ty sub 0 (replicate n NUL)) = Some (packet ty sub 0 q)" and "length q < 65536" and "handled e ty sub q"
  shows "delivers e (\<lambda>mem sent lg. lgsm_request mem sent ty sub n f lg)"
  unfolding delivers_def using assms by (auto simp: lgsm_request_def fill_packet send_checked_packet)

lemma cstr_NUL [wire_simps]: "cstr (s @ NUL # xs) = cstr s" "cstr (NUL # xs) = []"
  by (induction s) (simp_all add: cstr_def)

lemma str_at_0 [wire_simps]: "str_at (s @ NUL # xs) 0 = Some (cstr s)"
  by (simp add: str_at_def cstr_of_array_def cstr_NUL)

lemma cstr_length: "length (cstr s) \<le> length s"
  by (simp add: cstr_def length_takeWhile_le)

lemma cstr_shorter: "length s < n \<Longrightarrow> length (cstr s) < n"
  using cstr_length[of s] by simp

text \<open>The numbers that are dialled, and for call forwarding.\<close>

lemma voice_out_init_delivers:
  assumes "voice_spec (Voice_out_init c a) = Some e"
  shows "delivers e (voice_request (Voice_out_init c a))"
proof -
  have l: "length (la_addr a) = 32" using assms by (simp add: LGSM_ADDR_MAXLEN_def split: if_splits)
  let ?q = "u8_of (la_type a) # la_addr a @ [NUL]"
  have "handled e 3 1 ?q"
  proof (rule handledI)
    fix i rest gu g assume g: "no_fail g"
    have upd: "(packet 3 1 i ?q @ rest)[41 := NUL] = packet 3 1 i ?q @ rest"
      using l by (intro list_update_same_conv[THEN iffD2]) (simp_all add: packet_def le16_def nth_append)
    have "str_at (packet 3 1 i ?q @ rest) 9 = Some (cstr (la_addr a))" by (simp add: wire_simps)
    then show "\<exists>g'. usock_rcv_pcmd gu (packet 3 1 i ?q @ rest) (int (8 + length ?q)) g = Some (0, g') \<and>
        queued (ae_text e) (ae_cb e) (if ae_own e then Ctx_user gu else Ctx_gsmd) (if ae_id e then of_nat i else 0) g g' \<and> no_fail g'"
      using assms l g upd
      by (auto simp: dispatch_simps usock_rcv_voicecall_def voicecall_dial_def GSMD_ADDR_MAXLEN_def sizeof_gsmd_addr_def
          split: if_splits intro!: print_queued)
  qed
  then show ?thesis using l unfolding voice_request.simps lgsm_voice_out_init_def[abs_def]
    by (intro delivers_request) (simp_all add: sizeof_gsmd_addr_def GSMD_ADDR_MAXLEN_def put_packet)
qed

lemma voice_fwd_reg_delivers:
  assumes "voice_spec (Voice_fwd_reg r a) = Some e"
  shows "delivers e (voice_request (Voice_fwd_reg r a))"
proof -
  have l: "length (la_addr a) = 32" "NUL \<in> set (la_addr a)" using assms by (simp_all add: LGSM_ADDR_MAXLEN_def split: if_splits)
  let ?s = "cstr (la_addr a)"
  have s: "length ?s < 32" using cstr_less[OF l(2)] l(1) by simp
  let ?q = "le32 r @ NUL # ?s @ NUL # replicate (32 - length ?s) NUL"
  have "handled e 3 12 ?q"
    using assms s printed_int[of 20 r] l
    by (auto intro!: handledI ccfc_queued
        simp: dispatch_simps usock_rcv_voicecall_def voicecall_fwd_reg_def wire_simps text_simps split: if_splits)
  then show ?thesis using s l unfolding voice_request.simps lgsm_voice_fwd_reg_def[abs_def]
    by (intro delivers_request) (simp_all add: put_packet cstr_of_array_def)
qed

text \<open>Call control, tones, operators, lists of numbers.\<close>

lemma voicecall_ctrl_prints:
  assumes "chld_text (int_at b 8) (u8_at b 12) = Some t" and "13 \<le> len"
  shows "voicecall_ctrl gu b len g = cmd_print ''AT+CHLD='' 11 t (Some Voicecall_ctrl_cb) gu (gph_id b) g"
  using assms by (simp add: voicecall_ctrl_def fill_submit_def cong: option.case_cong)

lemma voice_ctrl_delivers:
  assumes "voice_spec (Voice_ctrl p i) = Some e"
  shows "delivers e (voice_request (Voice_ctrl p i))"
proof -
  have p: "to_int32 p = p" using assms by (intro to_int32_id) (auto split: if_splits)
  have d: "length (show_nat n) = 1" if "n < 10" for n using that by (subst show_nat.simps) simp
  obtain t where t: "chld_text p (octet i) = Some t" "NUL \<notin> set t" "length t < 11" "own t Voicecall_ctrl_cb = Some e"
    using assms d[of "octet i"] by (auto simp: chld_text_def text_simps split: if_splits)
  have "handled e 3 8 (le32 p @ [u8_of i])"
  proof (rule handledI)
    fix k rest gu g assume g: "no_fail g"
    let ?b = "packet 3 8 k (le32 p @ [u8_of i]) @ rest"
    have "int_at ?b 8 = p" "u8_at ?b 12 = octet i" using p by (simp_all add: wire_simps text_simps)
    then have "usock_rcv_pcmd gu ?b (int (8 + length (le32 p @ [u8_of i]))) g =
        cmd_print ''AT+CHLD='' 11 t (Some Voicecall_ctrl_cb) gu (of_nat k) g"
      using t(1) by (simp add: dispatch_simps usock_rcv_voicecall_def voicecall_ctrl_prints)
    then show "\<exists>g'. usock_rcv_pcmd gu ?b (int (8 + length (le32 p @ [u8_of i]))) g = Some (0, g') \<and>
        queued (ae_text e) (ae_cb e) (if ae_own e then Ctx_user gu else Ctx_gsmd) (if ae_id e then of_nat k else 0) g g' \<and> no_fail g'"
      using print_queued[OF g, of "''AT+CHLD=''" 11 t] t by (auto simp: own_def)
  qed
  then show ?thesis unfolding voice_request.simps lgsm_voice_ctrl_def[abs_def]
    by (intro delivers_request) (simp_all add: put_packet)
qed

lemma voice_dtmf_delivers:
  assumes "voice_spec (Voice_dtmf c) = Some e"
  shows "delivers e (voice_request (Voice_dtmf c))"
proof -
  have c: "c \<noteq> NUL" using assms by (auto split: if_splits)
  have o: "ord_c (char_of (1 :: nat)) = 1" by simp
  have "handled e 3 4 [char_of (1 :: nat), c]"
    using assms c o
    by (auto intro!: handledI print_queued simp: dispatch_simps usock_rcv_voicecall_def voicecall_dtmf_def
        wire_simps text_simps split: if_splits)
  then show ?thesis unfolding delivers_def voice_request.simps lgsm_voice_dtmf_def[abs_def]
    by (auto simp: fill_packet put_packet send_checked_packet)
qed

lemma operator_delivers:
  assumes "network_spec c = Some e" and "c = Netreg_register cs \<or> c = Prefoper_add cs"
  shows "delivers e (network_request c)"
proof -
  have l: "length cs = 6" "length (cstr cs) \<le> 6" using assms cstr_length[of cs] by (auto split: if_splits)
  have at: "c_at (cs @ rest) 0 = cs ! 0" "prec_at (cs @ rest) 0 6 = cstr cs" for rest
    using l by (simp_all add: c_at_def nth_append prec_at_def)
  have "handled e 6 1 cs" if "c = Netreg_register cs"
    using assms(1) that l at
    by (auto intro!: handledI network_print_queued simp: dispatch_simps usock_rcv_network_def wire_simps text_simps split: if_splits)
  moreover have "handled e 6 13 cs" if "c = Prefoper_add cs"
    using assms(1) that l at
    by (auto intro!: handledI network_print_queued simp: dispatch_simps usock_rcv_network_def wire_simps text_simps split: if_splits)
  ultimately show ?thesis using assms(2) l
    by (auto simp: lgsm_netreg_register_def[abs_def] lgsm_prefoper_add_def[abs_def] put_packet intro!: delivers_request)
qed

text \<open>Phone book.\<close>

lemma store_octet: "store_signed 8 (int (octet i)) = store_signed 8 i"
  by (simp add: store_signed_def octet_def mod_add_left_eq)

lemma length_show_store: "length (show_int (store_signed 8 i)) \<le> 4"
proof -
  have "0 \<le> (i + 128) mod 256" "(i + 128) mod 256 < 256" by simp_all
  then have "nat (store_signed 8 i) < 10 ^ Suc 2" "nat (- store_signed 8 i) < 10 ^ Suc 2" by (simp_all add: store_signed_def)
  then show ?thesis
    using length_show_nat[of "nat (store_signed 8 i)" 2] length_show_nat[of "nat (- store_signed 8 i)" 2] by (simp add: show_int_def)
qed

lemma pb_set_storage_delivers:
  assumes "phonebook_spec (Pb_set_storage s) = Some e"
  shows "delivers e (phonebook_request (Pb_set_storage s))"
proof -
  have n: "NUL \<notin> set s" "NUL \<notin> set (take 2 s)" using assms by (auto dest: in_set_takeD split: if_splits)
  have l: "length (take 2 s) \<le> 2" by simp
  have t: "take 2 (s @ [NUL, NUL]) = take 2 s @ replicate (2 - length (take 2 s)) NUL"
    by (cases s; cases "List.tl s") (simp_all add: numeral_2_eq_2)
  let ?q = "take 2 s @ NUL # replicate (2 - length (take 2 s)) NUL"
  have "handled e 5 8 ?q"
    using assms n l
    by (auto intro!: handledI print_queued simp: dispatch_simps usock_rcv_phonebook_def wire_simps text_simps cstr_id split: if_splits)
  moreover have "strncpy_octets s 2 @ [NUL] = ?q"
    unfolding strncpy_octets_def using t by (simp add: numeral_2_eq_2 replicate_append_same)
  ultimately show ?thesis unfolding phonebook_request.simps lgsm_pb_set_storage_def[abs_def]
    by (intro delivers_request[where q = ?q]) (simp_all add: put_packet strncpy_octets_def min_def)
qed

lemma pb_find_delivers:
  assumes "phonebook_spec (Pb_find_entry t) = Some e"
  shows "delivers e (phonebook_request (Pb_find_entry t))"
proof -
  have l: "length t = 15" using assms by (simp add: GSMD_PB_TEXT_MAXLEN_def split: if_splits)
  have "handled e 5 1 (take 14 t @ [NUL])"
    using assms l
    by (auto intro!: handledI print_queued simp: dispatch_simps usock_rcv_phonebook_def wire_simps text_simps GSMD_PB_TEXT_MAXLEN_def
        split: if_splits)
  then show ?thesis unfolding phonebook_request.simps lgsm_pb_find_entry_def[abs_def] using l
    by (intro delivers_request) (simp_all add: put_packet GSMD_PB_TEXT_MAXLEN_def)
qed

lemma pb_read_entries_delivers:
  assumes "phonebook_spec (Pb_read_entries i j) = Some e"
  shows "delivers e (phonebook_request (Pb_read_entries i j))"
proof -
  have "handled e 5 3 [u8_of i, u8_of j]"
    using assms printed_octet[of 10 i] printed_octet[of 10 j]
    by (auto intro!: handledI phonebook_print_queued simp: dispatch_simps usock_rcv_phonebook_def wire_simps text_simps)
  then show ?thesis unfolding phonebook_request.simps lgsm_pb_read_entries_def[abs_def]
    by (intro delivers_request) (simp_all add: put_packet)
qed

lemma pb_write_delivers:
  assumes "phonebook_spec (Pb_write_entry pb) = Some e"
  shows "delivers e (phonebook_request (Pb_write_entry pb))"
proof -
  let ?n = "take 44 (pb_numb pb)" and ?t = "take 14 (pb_text pb)"
  have l: "length (pb_numb pb) = 45" "length (pb_text pb) = 15"
    using assms by (simp_all add: GSMD_PB_NUMB_MAXLEN_def GSMD_PB_TEXT_MAXLEN_def split: if_splits)
  let ?q = "u8_of (pb_index pb) # ?n @ NUL # u8_of (pb_type pb) # ?t @ [NUL]"
  have len: "length (cstr ?n) \<le> 44" "length (cstr ?t) \<le> 14" using cstr_length[of ?n] cstr_length[of ?t] by simp_all
  have "handled e 5 4 ?q"
  proof (rule handledI)
    fix k rest gu g assume g: "no_fail g"
    let ?b = "packet 5 4 k ?q @ rest"
    have "u8_at ?b 54 = octet (pb_type pb)" "str_at ?b 55 = Some (cstr ?t)"
      using l by (simp_all add: wire_simps text_simps at_append)
    moreover have "u8_at ?b 8 = octet (pb_index pb)" "str_at ?b 9 = Some (cstr ?n)" by (simp_all add: wire_simps text_simps)
    ultimately show "\<exists>g'. usock_rcv_pcmd gu ?b (int (8 + length ?q)) g = Some (0, g') \<and>
        queued (ae_text e) (ae_cb e) (if ae_own e then Ctx_user gu else Ctx_gsmd) (if ae_id e then of_nat k else 0) g g' \<and> no_fail g'"
      using assms g l len length_show_store[of "pb_index pb"] length_show_octet[of "pb_type pb"]
      by (auto intro!: phonebook_print_queued simp: dispatch_simps usock_rcv_phonebook_def phonebook_write_def text_simps store_octet
          GSMD_PB_NUMB_MAXLEN_def GSMD_PB_TEXT_MAXLEN_def sizeof_gsmd_phonebook_def split: if_splits)
  qed
  then show ?thesis unfolding phonebook_request.simps lgsm_pb_write_entry_def[abs_def] using l
    by (intro delivers_request)
      (simp_all add: put_packet sizeof_gsmd_phonebook_def GSMD_PB_NUMB_MAXLEN_def GSMD_PB_TEXT_MAXLEN_def)
qed

text \<open>PIN.\<close>

lemma strlcat_cmd_append:
  assumes "cstr_of_array (ac_buf cmd) = Some d" and "length d + length s < ac_buflen cmd" and "ac_buflen cmd = length (ac_buf cmd)"
    and "NUL \<notin> set s"
  shows "\<exists>a. strlcat_cmd s cmd = Some (cmd\<lparr>ac_buf := a\<rparr>) \<and> length a = length (ac_buf cmd) \<and> cstr_of_array a = Some (d @ s)"
proof -
  have d: "d = cstr (ac_buf cmd)" "NUL \<notin> set d" using assms(1) by (auto simp: cstr_of_array_def split: if_splits)
  have "take (length d) (ac_buf cmd) = d" unfolding d(1) cstr_def by (simp flip: takeWhile_eq_take)
  then have "strlcat_cmd s cmd = Some (cmd\<lparr>ac_buf := d @ s @ NUL # drop (length d + length s + 1) (ac_buf cmd)\<rparr>)"
    using assms by (simp add: strlcat_cmd_def strlcat_def Let_def)
  moreover have "cstr_of_array (d @ s @ NUL # xs) = Some (d @ s)" for xs
    using d(2) assms(4) cstr_append_NUL[of "d @ s" xs] by (simp add: cstr_of_array_def)
  ultimately show ?thesis using assms(2,3) by (intro exI[of _ "d @ s @ NUL # drop (length d + length s + 1) (ac_buf cmd)"]) simp
qed

lemma pin_print_text:
  assumes "cstr_of_array (ac_buf cmd) = Some f" and "ac_buflen cmd = length (ac_buf cmd)"
    and "str_at b 12 = Some pin" and "NUL \<notin> set pin"
    and "x = (if int_at b 8 = 2 \<or> int_at b 8 = 7 then [DQ] @ '','' @ [DQ] @ np else [])"
    and "int_at b 8 = 2 \<or> int_at b 8 = 7 \<Longrightarrow> str_at b 21 = Some np \<and> NUL \<notin> set np"
    and "length f + length pin + length x + 1 < ac_buflen cmd"
  shows "\<exists>a. pin_print b cmd = Some (cmd\<lparr>ac_buf := a\<rparr>) \<and> cstr_of_array a = Some (f @ pin @ x @ [DQ])"
proof -
  obtain a1 where a1: "strlcat_cmd pin cmd = Some (cmd\<lparr>ac_buf := a1\<rparr>)" "length a1 = length (ac_buf cmd)" "cstr_of_array a1 = Some (f @ pin)"
    using strlcat_cmd_append[OF assms(1) _ assms(2,4)] assms(7) by auto
  have step: "\<exists>a'. strlcat_cmd s (cmd\<lparr>ac_buf := a\<rparr>) = Some (cmd\<lparr>ac_buf := a'\<rparr>) \<and> length a' = length (ac_buf cmd) \<and> cstr_of_array a' = Some (t @ s)"
    if "cstr_of_array a = Some t" "length a = length (ac_buf cmd)" "length t + length s < ac_buflen cmd" "NUL \<notin> set s" for a t s
    using strlcat_cmd_append[of "cmd\<lparr>ac_buf := a\<rparr>" t s] that assms(2) by auto
  show ?thesis
  proof (cases "int_at b 8 = 2 \<or> int_at b 8 = 7")
    case False
    then show ?thesis using step[OF a1(3,2), of "[DQ]"] assms(3,5,7) a1(1) by (auto simp: pin_print_def)
  next
    case True
    then have x: "x = [DQ] @ '','' @ [DQ] @ np" "str_at b 21 = Some np" "NUL \<notin> set np" using assms(5,6) by auto
    obtain a2 where a2: "strlcat_cmd ([DQ] @ '','' @ [DQ]) (cmd\<lparr>ac_buf := a1\<rparr>) = Some (cmd\<lparr>ac_buf := a2\<rparr>)"
      "length a2 = length (ac_buf cmd)" "cstr_of_array a2 = Some ((f @ pin) @ [DQ] @ '','' @ [DQ])"
      using step[OF a1(3,2), of "[DQ] @ '','' @ [DQ]"] assms(7) x(1) by auto
    obtain a3 where a3: "strlcat_cmd np (cmd\<lparr>ac_buf := a2\<rparr>) = Some (cmd\<lparr>ac_buf := a3\<rparr>)"
      "length a3 = length (ac_buf cmd)" "cstr_of_array a3 = Some (((f @ pin) @ [DQ] @ '','' @ [DQ]) @ np)"
      using step[OF a2(3,2), of np] assms(7) x(1,3) by auto
    obtain a4 where a4: "strlcat_cmd [DQ] (cmd\<lparr>ac_buf := a3\<rparr>) = Some (cmd\<lparr>ac_buf := a4\<rparr>)"
      "cstr_of_array a4 = Some ((((f @ pin) @ [DQ] @ '','' @ [DQ]) @ np) @ [DQ])"
      using step[OF a3(3,2), of "[DQ]"] assms(7) x(1) by auto
    show ?thesis using True a1(1) a2(1) a3(1) a4 assms(3) x by (intro exI[of _ a4]) (simp add: pin_print_def)
  qed
qed

lemma strncpy_octets_padded: "length s < n \<Longrightarrow> strncpy_octets s n = s @ NUL # replicate (n - Suc (length s)) NUL"
  by (simp add: strncpy_octets_def take_replicate min_def Suc_diff_Suc flip: replicate_Suc)

lemma pin_delivers:
  assumes "pin_spec c = Some e"
  shows "delivers e (pin_request c :: ('h, 'a) request)"
proof (cases c)
  case Pin_status
  have "\<exists>g'. submit_unchecked ''AT+CPIN?'' 9 (Some Get_cpin_cb) gu 0 g = Some (0, g') \<and>
      queued ''AT+CPIN?'' (Some Get_cpin_cb) (Ctx_user gu) 0 g g' \<and> no_fail g'" if nf: "no_fail g" for gu g
  proof -
    obtain cmd where "atcmd_fill ''AT+CPIN?'' 9 (Some Get_cpin_cb) (Ctx_user gu) 0 Discard_timer g =
        Some (Some cmd, g\<lparr>g_next_addr := g_next_addr g + 1\<rparr>)"
      using fill_text[OF nf, of "''AT+CPIN?''" 9] by fastforce
    then have "submit_unchecked ''AT+CPIN?'' 9 (Some Get_cpin_cb) gu 0 g = cmd_plain ''AT+CPIN?'' 9 (Some Get_cpin_cb) gu 0 g"
      by (simp add: submit_unchecked_def fill_submit_def)
    then show ?thesis using plain_queued[OF nf, of "''AT+CPIN?''" 9] by simp
  qed
  then show ?thesis using assms Pin_status
    by (auto simp: simple_defs dispatch_simps usock_rcv_pin_def intro!: delivers_simple handledI)
next
  case (Pin_input ty pin newpin)
  have ty: "ty < 16" "length pin \<le> 8" "NUL \<notin> set pin" "\<forall>np. newpin = Some np \<longrightarrow> length np \<le> 8 \<and> NUL \<notin> set np"
    "ty = 2 \<or> ty = 7 \<Longrightarrow> newpin \<noteq> None"
    using assms Pin_input by (auto simp: GSMD_PIN_MAXLEN_def split: if_splits option.splits)
  define np where "np = (case newpin of None \<Rightarrow> [] | Some x \<Rightarrow> x)"
  have np: "length np \<le> 8" "NUL \<notin> set np" using ty(4) by (auto simp: np_def split: option.split)
  define x where "x = (if ty = 2 \<or> ty = 7 then [DQ] @ '','' @ [DQ] @ np else [])"
  have e: "e = \<lparr>ae_text = ''AT+CPIN='' @ [DQ] @ pin @ x @ [DQ], ae_cb = Some Pin_cmd_cb, ae_id = False, ae_own = True\<rparr>"
    using assms Pin_input ty(5)
    by (auto simp: own0_def x_def np_def quoted_def split: if_splits option.splits)
  let ?np = "if ty = 2 \<or> ty = 7 then strncpy_octets np 9 else replicate 9 NUL"
  let ?q = "le32 (int ty) @ strncpy_octets pin 9 @ ?np"
  have lq: "length ?q = 22" "length (strncpy_octets pin 9) = 9" "length ?np = 9" using ty np by (simp_all add: strncpy_octets_def)
  have "handled e 8 1 ?q"
  proof (rule handledI)
    fix k rest gu g assume g: "no_fail g"
    let ?b = "packet 8 1 k ?q @ rest"
    have i: "int_at ?b 8 = int ty" using ty(1) by (simp add: wire_simps to_int32_id)
    have pin: "str_at ?b 12 = Some pin" using ty(2,3) by (simp add: wire_simps strncpy_octets_padded cstr_id)
    have new: "str_at ?b 21 = Some (if ty = 2 \<or> ty = 7 then np else [])"
    proof -
      have "str_at ?b 21 = str_at (?np @ rest) 0" using lq(2) by (simp add: wire_simps at_append)
      moreover have "str_at (replicate 9 NUL @ rest) 0 = Some []" by (simp add: str_at_def cstr_of_array_def cstr_def)
      ultimately show ?thesis using np by (simp add: strncpy_octets_padded wire_simps cstr_id)
    qed
    let ?f = "''AT+CPIN='' @ [DQ]"
    have "\<exists>g'. fill_submit (- ENOMEM) ?f 30 (Some Pin_cmd_cb) (Ctx_user gu) 0 (pin_print ?b) g = Some (0, g') \<and>
        queued (?f @ pin @ x @ [DQ]) (Some Pin_cmd_cb) (Ctx_user gu) 0 g g' \<and> no_fail g'"
    proof (rule fill_submit_queued[OF g])
      fix cmd :: gsmd_atcmd assume c: "ac_buf cmd = ?f @ replicate (30 - length ?f) NUL" "ac_buflen cmd = 30"
      have "cstr_of_array (ac_buf cmd) = Some ?f" unfolding c(1) by (rule cstr_of_array_padded) simp_all
      then show "\<exists>a. pin_print ?b cmd = Some (cmd\<lparr>ac_buf := a\<rparr>) \<and> cstr_of_array a = Some (?f @ pin @ x @ [DQ])"
        by (rule pin_print_text[where np = np]) (use c pin i new ty np in \<open>auto simp: x_def\<close>)
    qed simp_all
    then show "\<exists>g'. usock_rcv_pcmd gu ?b (int (8 + length ?q)) g = Some (0, g') \<and>
        queued (ae_text e) (ae_cb e) (if ae_own e then Ctx_user gu else Ctx_gsmd) (if ae_id e then of_nat k else 0) g g' \<and> no_fail g'"
      using lq(1) pin new by (simp add: e dispatch_simps usock_rcv_pin_def sizeof_gsmd_pin_def GSMD_PIN_MAXLEN_def)
  qed
  moreover have "\<exists>rc. pin_request c True sent lg = Some (rc, sent_packet 8 1 ?q lg)" for sent and lg :: "('h, 'a) lgsm"
    using ty np lq Pin_input
    by (auto simp: lgsm_pin_def fill_packet put_packet send_packet GSMD_PIN_MAXLEN_def sizeof_gsmd_pin_def np_def
        split: option.splits)
  ultimately show ?thesis unfolding delivers_def by blast
qed

text \<open>Numbers of digits, behind a sign or not.\<close>

lemma digits_NUL: "digits_only n \<Longrightarrow> NUL \<notin> set n"
  using digit_not_NUL by (auto simp: digits_only_def list_all_iff)

lemma number_addr:
  assumes "digits_only n" and "length n \<le> 32"
  shows "lgsm_number2addr zero_addr n k = Some (0, \<lparr>ga_type = 0x81, ga_number = n @ replicate (33 - length n) NUL\<rparr>)"
    and "length n < 32 \<Longrightarrow> lgsm_number2addr zero_addr (CHR ''+'' # n) 1 = Some (0, \<lparr>ga_type = 0x91, ga_number = n @ replicate (33 - length n) NUL\<rparr>)"
proof -
  have "strcpy_number (replicate 33 NUL) n = Some (n @ replicate (33 - length n) NUL)"
    using assms(2) by (simp add: strcpy_number_def replicate_Suc[symmetric] Suc_diff_le del: replicate_Suc)
  moreover have "cstr_of_array (n @ replicate (33 - length n) NUL) = Some n"
    using cstr_of_array_padded[OF digits_NUL[OF assms(1)]] assms(2) by simp
  moreover have "c_at n 0 \<noteq> CHR ''+''" using assms(1) by (cases n) (auto simp: digits_only_def isdigit_def ord_c_def)
  ultimately show "lgsm_number2addr zero_addr n k = Some (0, \<lparr>ga_type = 0x81, ga_number = n @ replicate (33 - length n) NUL\<rparr>)"
    and "length n < 32 \<Longrightarrow> lgsm_number2addr zero_addr (CHR ''+'' # n) 1 = Some (0, \<lparr>ga_type = 0x91, ga_number = n @ replicate (33 - length n) NUL\<rparr>)"
    using assms by (simp_all add: lgsm_number2addr_def zero_addr_def GSMD_ADDR_MAXLEN_def digits_only_def)
qed

text \<open>Deleting messages, storages, service centre, voice mail.\<close>

lemma sms_delete_delivers:
  assumes "sms_spec (Sms_delete i d) = Some e"
  shows "delivers e (sms_request (Sms_delete i d))"
proof -
  have "handled e 9 5 [u8_of i, u8_of d]"
    using assms printed_octet[of 10 i] printed_octet[of 10 d]
    by (auto intro!: handledI sms_print_queued simp: dispatch_simps usock_rcv_sms_def Let_def wire_simps text_simps)
  then show ?thesis unfolding sms_request.simps lgsm_sms_delete_def[abs_def]
    by (intro delivers_request) (simp_all add: put_packet)
qed

lemma storage_names: "i < 7 \<Longrightarrow> length (ts0705_memtype_name ! i) \<le> 4 \<and> NUL \<notin> set (ts0705_memtype_name ! i)"
  by (simp add: ts0705_memtype_name_def less_Suc_eq numeral_eq_Suc) auto

lemma sms_set_storage_delivers:
  assumes "sms_spec (Sms_set_storage a b c) = Some e"
  shows "delivers e (sms_request (Sms_set_storage a b c))"
proof -
  have r: "0 \<le> a" "a < 7" "0 \<le> b" "b < 7" "0 \<le> c" "c < 7" using assms by (auto split: if_splits)
  then have i: "nat (to_u32 a) = nat a" "nat (to_u32 b) = nat b" "nat (to_u32 c) = nat c" by (simp_all add: to_u32_def)
  have rd: "rd ts0705_memtype_name (nat x) = Some (ts0705_memtype_name ! nat x)" if "x < 7" for x
    using that by (intro rd_Some) (simp add: ts0705_memtype_name_def)
  have s: "length (ts0705_memtype_name ! nat a) \<le> 4" "length (ts0705_memtype_name ! nat b) \<le> 4"
    "length (ts0705_memtype_name ! nat c) \<le> 4" "NUL \<notin> set (ts0705_memtype_name ! nat a)"
    "NUL \<notin> set (ts0705_memtype_name ! nat b)" "NUL \<notin> set (ts0705_memtype_name ! nat c)"
    using r storage_names[of "nat a"] storage_names[of "nat b"] storage_names[of "nat c"] by simp_all
  have "handled e 9 7 (le32 a @ le32 b @ le32 c)"
    using assms r i rd s
    by (auto intro!: handledI sms_print_queued simp: dispatch_simps usock_rcv_sms_def Let_def wire_simps text_simps)
  then show ?thesis unfolding sms_request.simps lgsm_sms_set_storage_def[abs_def]
    by (intro delivers_request) (simp_all add: put_packet)
qed

lemma octet_0x81: "ord_c (char_of (unat (0x81 :: u8))) = 129" "show_nat 129 = ''129''"
proof -
  show "ord_c (char_of (unat (0x81 :: u8))) = 129" by simp
  show "show_nat 129 = ''129''" by code_simp
qed

lemma replicate_33: "m \<le> 32 \<Longrightarrow> replicate (33 - m) x = x # replicate (32 - m) x"
proof -
  assume "m \<le> 32"
  then have "33 - m = Suc (32 - m)" by simp
  then show ?thesis by simp
qed

lemma sms_set_smsc_delivers:
  assumes "sms_spec (Sms_set_smsc n) = Some e"
  shows "delivers e (sms_request (Sms_set_smsc n))"
proof -
  have n: "digits_only n" "length n \<le> 32" using assms by (auto simp: GSMD_ADDR_MAXLEN_def split: if_splits)
  let ?q = "char_of (unat (0x81 :: u8)) # n @ replicate (33 - length n) NUL"
  have q: "?q = char_of (unat (0x81 :: u8)) # n @ NUL # replicate (32 - length n) NUL" using replicate_33[OF n(2)] by simp
  have "handled e 9 9 ?q"
    unfolding q using assms n digits_NUL[OF n(1)] octet_0x81
    by (auto intro!: handledI sms_print_queued simp: dispatch_simps usock_rcv_sms_def Let_def wire_simps text_simps cstr_id
        sizeof_gsmd_addr_def split: if_splits)
  then show ?thesis unfolding delivers_def sms_request.simps lgsm_sms_set_smsc_def[abs_def]
    using n number_addr(1)[OF n] by (auto simp: fill_packet put_addr_def put_packet send_checked_packet sizeof_gsmd_addr_def)
qed

lemma voicemail_set_delivers:
  assumes "network_spec (Voicemail_set n) = Some e"
  shows "delivers e (network_request (Voicemail_set n))"
proof -
  have n: "digits_only n" "length n \<le> 4" "length n \<le> 32" using assms by (auto split: if_splits)
  let ?q = "CHR 0x01 # char_of (unat (0x81 :: u8)) # n @ replicate (33 - length n) NUL"
  have q: "?q = CHR 0x01 # char_of (unat (0x81 :: u8)) # n @ NUL # replicate (32 - length n) NUL" using replicate_33[OF n(3)] by simp
  have one: "char_of (1 :: nat) = CHR 0x01" by (simp add: char_of_def bit_0)
  have "handled e 6 4 ?q"
    unfolding q using assms n digits_NUL[OF n(1)] octet_0x81
    by (auto intro!: handledI network_print_queued simp: dispatch_simps usock_rcv_network_def wire_simps text_simps cstr_id
        split: if_splits)
  then show ?thesis unfolding delivers_def network_request.simps lgsm_voicemail_set_def[abs_def]
    using n number_addr(1)[OF n(1,3)] one
    by (auto simp: fill_packet put_addr_def put_packet send_checked_packet sizeof_gsmd_voicemail_def)
qed

end
