(* ===== verification/ApiSms.thy ===== *)
theory ApiSms
  imports ApiQueue Stream
begin

text \<open>
  Short messages from the client to the queue, and the properties of the client library and the
  daemon together.
\<close>

unbundle bit_operations_syntax

section \<open>The message in the packet\<close>

definition submit_octets :: "gsmd_addr \<Rightarrow> lgsm_sms \<Rightarrow> char list" where
  "submit_octets a sms = (char_of (unat (ga_type a)) # ga_number a) @ [u8_of (ls_length sms)] @ [u8_of (ls_alpha sms)] @
     le32 0 @ replicate 33 NUL @ map (\<lambda>w. char_of (unat w)) (take 140 (ls_data sms)) @ replicate 27 NUL @ le32 (ls_ask_ds sms)"

lemma length_submit_octets:
  "length (ga_number a) = 33 \<Longrightarrow> length (ls_data sms) = 141 \<Longrightarrow> length (submit_octets a sms) = 244"
  by (simp add: submit_octets_def)

lemma put_at:
  assumes "off = length pre" and "length mid = length bs"
  shows "put off bs (packet ty sub i (pre @ mid @ post)) = Some (packet ty sub i (pre @ bs @ post))"
  using assms by (simp add: put_packet)

text \<open>The message is filled block by block.\<close>

lemma put_submit_packet:
  assumes "length (ga_number a) = 33" and "length (ls_data sms) = 141"
  shows "put_submit (length pre) a sms (packet ty sub i (pre @ replicate 244 NUL)) = Some (packet ty sub i (pre @ submit_octets a sms))"
proof -
  define z where "z n = replicate n NUL" for n
  define ad d where "ad = char_of (unat (ga_type a)) # ga_number a" and "d = map (\<lambda>w. char_of (unat w)) (take 140 (ls_data sms))"
  have len: "length (z n) = n" "length ad = 34" "length d = 140" for n using assms by (simp_all add: z_def ad_def d_def)
  have z: "replicate 244 NUL = z 34 @ z 1 @ z 1 @ z 4 @ z 33 @ z 140 @ z 27 @ z 4"
    by (simp only: z_def replicate_add[symmetric]) simp
  let ?P = "packet ty sub i" and ?l = "[u8_of (ls_length sms)]" and ?c = "[u8_of (ls_alpha sms)]" and ?k = "le32 (ls_ask_ds sms)"
  let ?o = "length pre"
  have "put ?o ad (?P (pre @ z 34 @ z 1 @ z 1 @ z 4 @ z 33 @ z 140 @ z 27 @ z 4)) =
      Some (?P (pre @ ad @ z 1 @ z 1 @ z 4 @ z 33 @ z 140 @ z 27 @ z 4))"
    by (rule put_at) (simp_all add: len)
  moreover have "put (?o + 240) ?k (?P (pre @ ad @ z 1 @ z 1 @ z 4 @ z 33 @ z 140 @ z 27 @ z 4)) =
      Some (?P (pre @ ad @ z 1 @ z 1 @ z 4 @ z 33 @ z 140 @ z 27 @ ?k))"
    using put_at[of "?o + 240" "pre @ ad @ z 1 @ z 1 @ z 4 @ z 33 @ z 140 @ z 27" "z 4" ?k ty sub i "[]"] by (simp add: len)
  moreover have "put (?o + 36) (le32 0) (?P (pre @ ad @ z 1 @ z 1 @ z 4 @ z 33 @ z 140 @ z 27 @ ?k)) =
      Some (?P (pre @ ad @ z 1 @ z 1 @ le32 0 @ z 33 @ z 140 @ z 27 @ ?k))"
    using put_at[of "?o + 36" "pre @ ad @ z 1 @ z 1" "z 4" "le32 0" ty sub i "z 33 @ z 140 @ z 27 @ ?k"] by (simp add: len)
  moreover have "put (?o + 34) ?l (?P (pre @ ad @ z 1 @ z 1 @ le32 0 @ z 33 @ z 140 @ z 27 @ ?k)) =
      Some (?P (pre @ ad @ ?l @ z 1 @ le32 0 @ z 33 @ z 140 @ z 27 @ ?k))"
    using put_at[of "?o + 34" "pre @ ad" "z 1" ?l ty sub i "z 1 @ le32 0 @ z 33 @ z 140 @ z 27 @ ?k"] by (simp add: len)
  moreover have "put (?o + 35) ?c (?P (pre @ ad @ ?l @ z 1 @ le32 0 @ z 33 @ z 140 @ z 27 @ ?k)) =
      Some (?P (pre @ ad @ ?l @ ?c @ le32 0 @ z 33 @ z 140 @ z 27 @ ?k))"
    using put_at[of "?o + 35" "pre @ ad @ ?l" "z 1" ?c ty sub i "le32 0 @ z 33 @ z 140 @ z 27 @ ?k"] by (simp add: len)
  moreover have "put (?o + 73) d (?P (pre @ ad @ ?l @ ?c @ le32 0 @ z 33 @ z 140 @ z 27 @ ?k)) =
      Some (?P (pre @ ad @ ?l @ ?c @ le32 0 @ z 33 @ d @ z 27 @ ?k))"
    using put_at[of "?o + 73" "pre @ ad @ ?l @ ?c @ le32 0 @ z 33" "z 140" d ty sub i "z 27 @ ?k"] by (simp add: len)
  moreover have "rd_n (ls_data sms) 0 140 = Some (take 140 (ls_data sms))" using assms by simp
  ultimately show ?thesis
    unfolding put_submit_def put_addr_def z LGSM_SMS_DATA_MAXLEN_def submit_octets_def
    by (simp only: ad_def[symmetric] d_def[symmetric] z_def[symmetric] Option.bind.simps)
qed

lemma submit_at_append:
  assumes "length a \<le> n"
  shows "submit_at (a @ b) n = submit_at b (n - length a)"
proof -
  have k: "n + k - length a = n - length a + k" "length a \<le> n + k" for k using assms by simp_all
  show ?thesis using assms unfolding submit_at_def by (simp only: at_append k drop_append drop_all append_Nil simp_thms)
qed

lemma octet_word: "(of_nat (octet i) :: u8) = of_int i"
proof -
  have "(of_nat (octet i) :: u8) = of_int (int (octet i))" by (simp only: of_int_of_nat_eq)
  also have "int (octet i) = i mod 256" by (simp add: octet_def)
  also have "(of_int (i mod 256) :: u8) = of_int i" by (simp add: word_of_int_eq_iff take_bit_eq_mod)
  finally show ?thesis .
qed

lemma to_int32_zero: "to_int32 x = 0 \<longleftrightarrow> x mod 4294967296 = 0"
proof -
  define r where "r = x mod 4294967296"
  have r: "0 \<le> r" "r < 4294967296" "to_int32 x = to_int32 r" by (simp_all add: r_def to_int32_def mod_add_left_eq)
  show ?thesis
  proof (cases "r < 2147483648")
    case True
    then show ?thesis using r by (simp add: to_int32_id r_def)
  next
    case False
    then have "(r + 2147483648) mod 4294967296 = r - 2147483648"
      using r mod_add_self2[of "r - 2147483648" 4294967296] by (simp add: add.commute)
    then show ?thesis using r False by (simp add: to_int32_def r_def)
  qed
qed

lemma u32_skip: "0 < n \<Longrightarrow> u32_at (c # xs) n = u32_at xs (n - 1)"
  using at_append(3)[of "[c]" n xs] by simp

text \<open>What the daemon reads from it.\<close>

lemma submit_at_octets:
  assumes "length (ga_number a) = 33" and "length (ls_data sms) = 141"
  shows "submit_at (submit_octets a sms @ rest) 0 =
    \<lparr>sub_addr = a, sub_payload = \<lparr>sms_length = of_int (ls_length sms), sms_coding_scheme = of_int (ls_alpha sms),
       sms_has_header = False, sms_is_voicemail = False, sms_dcs = sms_dcs sms_zero, sms_tp_mti = GSMD_SMS_TP_MTI_SUBMIT,
       sms_data = take 140 (ls_data sms) @ replicate 25 0\<rparr>,
     sub_ask_ds = (to_int32 (ls_ask_ds sms) \<noteq> 0)\<rparr>"
proof -
  define ad d where "ad = char_of (unat (ga_type a)) # ga_number a" and "d = map (\<lambda>w. char_of (unat w)) (take 140 (ls_data sms))"
  define z where "z n = replicate n NUL" for n
  have len: "length (z n) = n" "length ad = 34" "length d = 140" for n using assms by (simp_all add: z_def ad_def d_def)
  have b: "submit_octets a sms @ rest = ad @ [u8_of (ls_length sms)] @ [u8_of (ls_alpha sms)] @ le32 0 @ z 33 @ d @ z 27 @ le32 (ls_ask_ds sms) @ rest"
    by (simp add: submit_octets_def ad_def d_def z_def)
  let ?b = "submit_octets a sms @ rest"
  have "u8_at ?b 0 = unat (ga_type a)"
    unfolding b ad_def using unat_u8_less[of "ga_type a"] by (simp add: octet_payload)
  moreover have "take (GSMD_ADDR_MAXLEN + 1) (drop 1 ?b) = ga_number a"
    unfolding b ad_def using assms(1) by (simp add: GSMD_ADDR_MAXLEN_def)
  moreover have "u8_at ?b 34 = octet (ls_length sms)" "u8_at ?b 35 = octet (ls_alpha sms)"
    unfolding b by (simp_all add: at_append len wire_simps text_simps)
  moreover have "u32_at ?b 36 = 0" unfolding b by (simp add: at_append len wire_simps u32_skip to_u32_def)
  moreover have "u32_at ?b 40 = 0"
    unfolding b by (simp add: at_append len wire_simps u32_skip)
      (simp add: u32_at_def u16_at_def u8_at_def c_at_def z_def nth_append ord_c_def)
  moreover have "u32_at ?b 240 \<noteq> 0 \<longleftrightarrow> to_int32 (ls_ask_ds sms) \<noteq> 0"
  proof -
    have "u32_at ?b 240 = nat (to_u32 (ls_ask_ds sms))" unfolding b by (simp add: at_append len wire_simps u32_skip)
    then show ?thesis using to_int32_zero[of "ls_ask_ds sms"] pos_mod_sign[of 4294967296 "ls_ask_ds sms"] by (simp add: to_u32_def) linarith
  qed
  moreover have "map (\<lambda>c. of_nat (ord_c c)) (take (GSMD_SMS_DATA_MAXLEN + 1) (drop 73 ?b)) = take 140 (ls_data sms) @ replicate 25 (0 :: u8)"
  proof -
    have "take 165 (drop 73 ?b) = d @ z 25" unfolding b by (simp add: len z_def)
    moreover have "(of_nat (ord_c (char_of (unat w))) :: u8) = w" for w :: u8 using unat_u8_less[of w] by simp
    ultimately show ?thesis by (simp add: GSMD_SMS_DATA_MAXLEN_def d_def z_def comp_def ord_c_def)
  qed
  ultimately show ?thesis by (simp add: submit_at_def octet_word sms_zero_def)
qed


section \<open>Sending and storing messages\<close>

lemma hex_char_not_NUL: "n < 16 \<Longrightarrow> hex_char n \<noteq> NUL"
proof -
  assume n: "n < 16"
  have "ord_c (hex_char n) \<noteq> 0" using n by (simp add: hex_char_def)
  then show ?thesis by (auto simp: ord_c_def)
qed

lemma hex_text: "NUL \<notin> set (concat (map show_hex2 os))" "length (concat (map show_hex2 os)) = 2 * length os"
proof -
  have "NUL \<notin> set (show_hex2 w)" for w
  proof -
    have "hex_char (unat w div 16) \<noteq> NUL" "hex_char (unat w mod 16) \<noteq> NUL"
      by (rule hex_char_not_NUL, use unat_u8_less[of w] in simp)+
    then show ?thesis by (auto simp: show_hex2_def)
  qed
  then show "NUL \<notin> set (concat (map show_hex2 os))" by auto
  show "length (concat (map show_hex2 os)) = 2 * length os" by (induction os) (simp_all add: show_hex2_def)
qed

lemma sms_addr:
  assumes "sms_ok sms"
  shows "cstr_of_array (ls_addr sms) = Some (cstr (ls_addr sms))"
    and "lgsm_number2addr zero_addr (cstr (ls_addr sms)) 1 = Some (0, sub_addr (submit_of sms))"
    and "length (ga_number (sub_addr (submit_of sms))) = 33" and "length (cstr (ls_addr sms)) \<le> 12"
proof -
  let ?n = "cstr (ls_addr sms)"
  have a: "NUL \<in> set (ls_addr sms)" "length (ls_addr sms) = 13" using assms by (auto simp: sms_ok_def LGSM_SMS_ADDR_MAXLEN_def)
  then show "cstr_of_array (ls_addr sms) = Some ?n" by (simp add: cstr_of_array_def)
  show l: "length ?n \<le> 12" using cstr_less[OF a(1)] a(2) by simp
  show "lgsm_number2addr zero_addr ?n 1 = Some (0, sub_addr (submit_of sms))"
  proof (cases "c_at ?n 0 = CHR ''+''")
    case True
    then obtain m where m: "?n = CHR ''+'' # m" by (cases ?n) auto
    then have "digits_only m" "length m < 32" using assms l True by (auto simp: sms_ok_def)
    then show ?thesis using number_addr(2)[of m] m by (simp add: submit_of_def GSMD_ADDR_MAXLEN_def)
  next
    case False
    then have "digits_only ?n" using assms by (simp add: sms_ok_def)
    then show ?thesis using number_addr(1)[of ?n 1] l False by (simp add: submit_of_def GSMD_ADDR_MAXLEN_def Let_def)
  qed
  show "length (ga_number (sub_addr (submit_of sms))) = 33" using l by (simp add: submit_of_def Let_def GSMD_ADDR_MAXLEN_def)
qed

lemma submit_of_at:
  assumes "sms_ok sms"
  shows "submit_at (submit_octets (sub_addr (submit_of sms)) sms @ rest) 0 = submit_of sms"
proof -
  have "length (ls_data sms) = 141" using assms by (simp add: sms_ok_def LGSM_SMS_DATA_MAXLEN_def)
  then show ?thesis using submit_at_octets[OF sms_addr(3)[OF assms]] by (simp add: submit_of_def Let_def LGSM_SMS_DATA_MAXLEN_def)
qed

text \<open>The text of a message is shorter than the buffer of the daemon.\<close>

lemma sms_entry_text:
  assumes "sms_entry cmd arg sms cb = Some e" and "NUL \<notin> set cmd" "NUL \<notin> set arg" "length cmd + length arg < 600"
  obtains n hex where "sms_ok sms" and "sms_pdu_make_smssubmit (submit_of sms) = Some (n, hex)"
    and "own (cmd @ show_int (n - 1) @ arg @ [LF] @ hex @ [CHR 0x1A]) cb = Some e"
    and "NUL \<notin> set (cmd @ show_int (n - 1) @ arg @ [LF] @ hex @ [CHR 0x1A])"
    and "length (cmd @ show_int (n - 1) @ arg @ [LF] @ hex @ [CHR 0x1A]) < 1024"
proof -
  have ok: "sms_ok sms" using assms(1) by (auto simp: sms_entry_def split: if_splits)
  obtain os where os: "smssubmit_octets (submit_of sms) = Some os" "sms_entry cmd arg sms cb =
      own (cmd @ show_int (int (length os) - 1) @ arg @ [LF] @ concat (map show_hex2 os) @ [CHR 0x1A]) cb"
    using assms(1) ok by (auto simp: sms_entry_def sms_pdu_make_smssubmit_def own_def option_bind_Some_iff)
  have "length os \<le> 47 + sms_data_bytelen (of_int (ls_alpha sms)) (of_int (ls_length sms))"
    using os(1) by (auto simp: smssubmit_octets_def option_bind_Some_iff Let_def submit_of_def rd_n_def GSMD_ADDR_MAXLEN_def split: if_splits)
  then have l: "length os \<le> 187" using ok by (simp add: sms_ok_def LGSM_SMS_DATA_MAXLEN_def)
  have "to_int32 (int (length os) - 1) = int (length os) - 1" using l by (intro to_int32_id) simp_all
  then have "length (show_int (int (length os) - 1)) \<le> 11" using length_show_int32[of "int (length os) - 1"] by simp
  then show thesis
    using that[OF ok, of "int (length os)" "concat (map show_hex2 os)"] os assms l hex_text[of os]
    by (simp add: sms_pdu_make_smssubmit_def text_simps)
qed

lemma sms_send_delivers:
  assumes "sms_spec (Sms_send sms) = Some e"
  shows "delivers e (sms_request (Sms_send sms))"
proof -
  obtain n hex where t: "sms_ok sms" "sms_pdu_make_smssubmit (submit_of sms) = Some (n, hex)"
    "own (''AT+CMGS='' @ show_int (n - 1) @ [] @ [LF] @ hex @ [CHR 0x1A]) Sms_send_cb = Some e"
    "NUL \<notin> set (''AT+CMGS='' @ show_int (n - 1) @ [] @ [LF] @ hex @ [CHR 0x1A])"
    "length (''AT+CMGS='' @ show_int (n - 1) @ [] @ [LF] @ hex @ [CHR 0x1A]) < 1024"
    using sms_entry_text[of "''AT+CMGS=''" "[]" sms Sms_send_cb e] assms by auto
  let ?q = "submit_octets (sub_addr (submit_of sms)) sms"
  have d: "length (ls_data sms) = 141" using t(1) by (simp add: sms_ok_def LGSM_SMS_DATA_MAXLEN_def)
  have lq: "length ?q = 244" by (rule length_submit_octets[OF sms_addr(3)[OF t(1)] d])
  have "handled e 9 3 ?q"
  proof (rule handledI)
    fix k rest gu g assume g: "no_fail g" "\<not> flag (g_flags g) GSMD_FLAG_SMS_FMT_TEXT"
    have "submit_at (packet 9 3 k ?q @ rest) 8 = submit_of sms"
      using submit_at_append[of "take 8 (packet 9 3 k ?q)" 8 "?q @ rest"] submit_of_at[OF t(1), of rest]
      by (simp add: packet_def le16_def)
    then show "\<exists>g'. usock_rcv_pcmd gu (packet 9 3 k ?q @ rest) (int (8 + length ?q)) g = Some (0, g') \<and>
        queued (ae_text e) (ae_cb e) (if ae_own e then Ctx_user gu else Ctx_gsmd) (if ae_id e then of_nat k else 0) g g' \<and> no_fail g'"
      using g t(2-5) lq
      by (auto simp: dispatch_simps usock_rcv_sms_def Let_def submit_text_def sizeof_gsmd_sms_submit_def intro!: sms_print_queued)
  qed
  moreover have "put_submit 0 (sub_addr (submit_of sms)) sms (packet 9 3 0 (replicate 244 NUL)) = Some (packet 9 3 0 ?q)"
    using put_submit_packet[OF sms_addr(3)[OF t(1)] d, of "[]"] by simp
  ultimately show ?thesis
    using sms_addr[OF t(1)] lq unfolding delivers_def sms_request.simps lgsm_sms_send_def[abs_def]
    by (auto simp: fill_packet sizeof_gsmd_sms_submit_def send_checked_packet)
qed


lemma sms_write_delivers:
  assumes "sms_spec (Sms_write s sms) = Some e"
  shows "delivers e (sms_request (Sms_write s sms))"
proof -
  have s: "octet s \<le> 4" "sms_entry ''AT+CMGW='' ('','' @ show_nat (octet s)) sms Sms_write_cb = Some e"
    using assms by (auto split: if_splits)
  let ?arg = "'','' @ show_nat (octet s)"
  have len: "length ''AT+CMGW='' + length ?arg < 600" using printed_octet[of 10 s] by simp
  obtain n hex where t: "sms_ok sms" "sms_pdu_make_smssubmit (submit_of sms) = Some (n, hex)"
    "own (''AT+CMGW='' @ show_int (n - 1) @ ?arg @ [LF] @ hex @ [CHR 0x1A]) Sms_write_cb = Some e"
    "NUL \<notin> set (''AT+CMGW='' @ show_int (n - 1) @ ?arg @ [LF] @ hex @ [CHR 0x1A])"
    "length (''AT+CMGW='' @ show_int (n - 1) @ ?arg @ [LF] @ hex @ [CHR 0x1A]) < 1024"
    using sms_entry_text[OF s(2) _ _ len] by (auto simp: text_simps)
  let ?q = "[u8_of s] @ submit_octets (sub_addr (submit_of sms)) sms"
  have d: "length (ls_data sms) = 141" using t(1) by (simp add: sms_ok_def LGSM_SMS_DATA_MAXLEN_def)
  have lq: "length ?q = 245" using length_submit_octets[OF sms_addr(3)[OF t(1)] d] by simp
  have "handled e 9 4 ?q"
  proof (rule handledI)
    fix k rest gu g assume g: "no_fail g" "\<not> flag (g_flags g) GSMD_FLAG_SMS_FMT_TEXT"
    have "submit_at (packet 9 4 k ?q @ rest) 9 = submit_of sms"
      using submit_at_append[of "take 9 (packet 9 4 k ?q)" 9 "submit_octets (sub_addr (submit_of sms)) sms @ rest"]
        submit_of_at[OF t(1), of rest]
      by (simp add: packet_def le16_def)
    moreover have "u8_at (packet 9 4 k ?q @ rest) 8 = octet s" by (simp add: wire_simps text_simps)
    ultimately show "\<exists>g'. usock_rcv_pcmd gu (packet 9 4 k ?q @ rest) (int (8 + length ?q)) g = Some (0, g') \<and>
        queued (ae_text e) (ae_cb e) (if ae_own e then Ctx_user gu else Ctx_gsmd) (if ae_id e then of_nat k else 0) g g' \<and> no_fail g'"
      using g t(2-5) lq s(1)
      by (auto simp: dispatch_simps usock_rcv_sms_def Let_def submit_text_def sizeof_gsmd_sms_submit_def intro!: sms_print_queued)
  qed
  moreover have "put_submit 1 (sub_addr (submit_of sms)) sms (packet 9 4 0 (u8_of s # replicate 244 NUL)) = Some (packet 9 4 0 ?q)"
    using put_submit_packet[OF sms_addr(3)[OF t(1)] d, of "[u8_of s]"] by simp
  ultimately show ?thesis
    using sms_addr[OF t(1)] lq unfolding delivers_def sms_request.simps lgsm_sms_write_def[abs_def]
    by (auto simp: fill_packet sizeof_gsmd_sms_submit_def put_packet send_checked_packet)
qed

section \<open>Every call\<close>

lemma voice_delivers: "voice_spec c = Some e \<Longrightarrow> delivers e (voice_request c)"
  using voice_simple[of c e] voice_int[of c e] voice_out_init_delivers voice_dtmf_delivers voice_ctrl_delivers voice_fwd_reg_delivers
  by (cases c) (blast | simp)+

lemma network_delivers: "network_spec c = Some e \<Longrightarrow> delivers e (network_request c)"
  using network_simple[of c e] network_int operator_delivers[of c e] voicemail_set_delivers by (cases c) blast+

lemma phonebook_delivers: "phonebook_spec c = Some e \<Longrightarrow> delivers e (phonebook_request c)"
  using phonebook_simple[of c e] pb_set_storage_delivers pb_find_delivers pb_read_entries_delivers pb_write_delivers
  by (cases c) blast+

lemma sms_delivers: "sms_spec c = Some e \<Longrightarrow> delivers e (sms_request c)"
  using sms_simple[of c e] sms_int[of c e] sms_delete_delivers sms_send_delivers sms_write_delivers sms_set_storage_delivers
    sms_set_smsc_delivers
  by (cases c) blast+

lemma call_delivers: "at_spec call = Some e \<Longrightarrow> delivers e (api call)"
  by (cases call) (simp_all add: voice_delivers network_delivers phone_simple phonebook_delivers pin_delivers sms_delivers)

lemma api_handled:
  fixes lg :: "('h, 'a) lgsm"
  assumes "at_spec call = Some e" and "no_fail g" and "\<not> flag (g_flags g) GSMD_FLAG_SMS_FMT_TEXT"
  obtains rc p lg' g' where "api call True sent lg = Some (rc, lg')" and "lg_sent lg' = lg_sent lg @ [p]"
    and "usock_rcv_pcmd gu (p @ rest) (int (length p)) g = Some (0, g')"
    and "queued (ae_text e) (ae_cb e) (if ae_own e then Ctx_user gu else Ctx_gsmd) (if ae_id e then next_msg_id lg else 0) g g'"
proof -
  obtain rc ty sub q where r: "api call True sent lg = Some (rc, sent_packet ty sub q lg)" "handled e ty sub q"
  proof -
    have "delivers e (api call :: ('h, 'a) request)" by (rule call_delivers[OF assms(1)])
    then show thesis unfolding delivers_def using that by blast
  qed
  let ?p = "packet ty sub (unat (next_msg_id lg)) q"
  obtain g' where "usock_rcv_pcmd gu (?p @ rest) (int (8 + length q)) g = Some (0, g')"
    "queued (ae_text e) (ae_cb e) (if ae_own e then Ctx_user gu else Ctx_gsmd) (if ae_id e then of_nat (unat (next_msg_id lg)) else 0) g g'"
    using r(2) assms(2,3) unfolding handled_def by blast
  moreover have "(of_nat (unat (next_msg_id lg)) :: u16) = next_msg_id lg" by (simp add: of_nat_unat)
  ultimately show thesis using r(1) by (intro that[of rc "sent_packet ty sub q lg" ?p g']) (simp_all add: sent_packet_def split: if_splits)
qed

section \<open>From text to text\<close>

text \<open>A packed text, sent to a number that may have a sign in front.\<close>

lemma bind_SomeD: "Option.bind m f = Some y \<Longrightarrow> \<exists>x. m = Some x \<and> f x = Some y"
  by (cases m) auto

lemma packed_sms_ok:
  assumes "length (ls_addr d) = 13" and "NUL \<in> set (ls_addr d)"
    and "digits_only (if c_at (cstr (ls_addr d)) 0 = CHR ''+'' then drop 1 (cstr (ls_addr d)) else cstr (ls_addr d))"
    and "length (ls_data d) = 141" and "ls_alpha d = 0" and "ls_length d = int n" and "n \<le> 160"
  shows "sms_ok d" and "sms_data_bytelen (sms_coding_scheme (sub_payload (submit_of d))) (sms_length (sub_payload (submit_of d))) = (n * 7 + 7) div 8"
    and "unat (sms_length (sub_payload (submit_of d))) = n"
proof -
  have w: "unat (of_int (int n) :: u8) = n" using assms(7) by (simp add: unat_of_nat)
  have b: "sms_data_bytelen (of_int (ls_alpha d)) (of_int (ls_length d)) = (n * 7 + 7) div 8"
    using w assms(5,6) by (simp add: sms_data_bytelen_def)
  show "sms_ok d" using assms b by (simp add: sms_ok_def LGSM_SMS_ADDR_MAXLEN_def LGSM_SMS_DATA_MAXLEN_def)
  show "sms_data_bytelen (sms_coding_scheme (sub_payload (submit_of d))) (sms_length (sub_payload (submit_of d))) = (n * 7 + 7) div 8"
    using b by (simp add: submit_of_def Let_def)
  show "unat (sms_length (sub_payload (submit_of d))) = n" using w assms(6) by (simp add: submit_of_def Let_def)
qed

lemma text_submit:
  assumes t: "text_7bit s" "s \<noteq> []" and num: "digits_only num" "length num \<le> 11" and sign: "sign \<in> {[], [CHR ''+'']}"
    and sms: "length (ls_addr sms) = 13" "cstr_of_array (ls_addr sms) = Some (sign @ num)" "length (ls_data sms) = 141"
  obtains j d octets m out where "packing_7bit_character s sms = Some (j, d)" and "sms_ok d"
    and "sms_pdu_make_smssubmit (submit_of d) = Some (int (length octets), concat (map show_hex2 octets))"
    and "sms_pdu_to_msg sms_list_zero octets (int (length octets) - 1) (int (length octets)) = Some (0, m)"
    and "cstr_of_array (ga_number (sl_addr m)) = Some num" and "ga_type (sl_addr m) = (if sign = [] then 0x81 else 0x91)"
    and "unpacking_7bit_character (sl_payload m) = Some (ls_length d, out)" and "cstr_of_array out = Some s"
proof -
  have l: "length (ls_data sms) = LGSM_SMS_DATA_MAXLEN + 1" using sms(3) by (simp add: LGSM_SMS_DATA_MAXLEN_def)
  obtain j d where d0: "packing_7bit_character s sms = Some (int j, d)" "ls_alpha d = 0" "ls_length d = int (packed_length s)"
    "packed_length s = j + j div 7" "length (ls_data d) = LGSM_SMS_DATA_MAXLEN + 1" "holds s (ls_data d) j" "ls_addr d = ls_addr sms"
    using packing_7bit_packs[OF t(1) l] by metis
  then have d: "packing_7bit_character s sms = Some (int j, d)" "ls_alpha d = 0" "ls_length d = int (packed_length s)"
    "packed_length s = j + j div 7" "length (ls_data d) = 141" "holds s (ls_data d) j" "ls_addr d = ls_addr sms"
    by (simp_all add: LGSM_SMS_DATA_MAXLEN_def)
  have n160: "packed_length s \<le> 160" by (rule packed_length_le[OF t(1)])
  have npos: "0 < packed_length s" using t(2) by (simp add: packed_length_def)
  have addr: "NUL \<in> set (ls_addr d)" "cstr (ls_addr d) = sign @ num"
    using sms(2) d(7) by (auto simp: cstr_of_array_def split: if_splits)
  have plus: "c_at num 0 \<noteq> CHR ''+''" using num(1) by (cases num) (auto simp: digits_only_def isdigit_def ord_c_def)
  have number: "sub_addr (submit_of d) = \<lparr>ga_type = (if sign = [] then 0x81 else 0x91), ga_number = num @ replicate (33 - length num) NUL\<rparr>"
    using sign plus addr(2) by (auto simp: submit_of_def Let_def GSMD_ADDR_MAXLEN_def)
  have ok: "sms_ok d" "sms_data_bytelen (sms_coding_scheme (sub_payload (submit_of d))) (sms_length (sub_payload (submit_of d))) = j"
    "unat (sms_length (sub_payload (submit_of d))) = packed_length s"
    using packed_sms_ok[of d "packed_length s"] d(2,3,5,7) sms(1) addr sign num(1) plus n160 packed_octets[OF d(4)] by auto
  have j: "j \<le> 140" using d(4) n160 by presburger
  obtain octets m where r: "sms_pdu_make_smssubmit (submit_of d) = Some (int (length octets), concat (map show_hex2 octets))"
     "sms_pdu_to_msg sms_list_zero octets (int (length octets) - 1) (int (length octets)) = Some (0, m)"
     "ga_type (sl_addr m) = ga_type (sub_addr (submit_of d))" "cstr_of_array (ga_number (sl_addr m)) = Some num"
     "sms_has_header (sl_payload m) = sms_has_header (sub_payload (submit_of d))"
     "sms_length (sl_payload m) = sms_length (sub_payload (submit_of d))"
     "take j (sms_data (sl_payload m)) = take j (sms_data (sub_payload (submit_of d)))" "length (sms_data (sl_payload m)) = 165"
  proof -
    have "cstr_of_array (ga_number (sub_addr (submit_of d))) = Some num"
      using cstr_of_array_padded[OF digits_NUL[OF num(1)], of "33 - length num"] num(2) number by simp
    moreover have "\<forall>c \<in> set num. isdigit c" "length num \<le> GSMD_ADDR_MAXLEN"
      using num by (simp_all add: digits_only_def list_all_iff GSMD_ADDR_MAXLEN_def)
    moreover have "ga_type (sub_addr (submit_of d)) AND GSMD_TOA_TON_MASK \<noteq> GSMD_TOA_TON_ALPHANUMERIC" using number by simp
    moreover have "sms_coding_scheme (sub_payload (submit_of d)) \<in> {0, 4, 8}" using d(2) by (simp add: submit_of_def Let_def)
    moreover have "sms_length (sub_payload (submit_of d)) \<noteq> 0" using ok(3) npos by auto
    moreover have "j \<le> GSMD_SMS_DATA_MAXLEN" "j \<le> length (sms_data (sub_payload (submit_of d)))"
      using j d(5) by (simp_all add: GSMD_SMS_DATA_MAXLEN_def submit_of_def Let_def LGSM_SMS_DATA_MAXLEN_def)
    ultimately show thesis
      using submit_roundtrip[of "submit_of d" num j sms_list_zero] ok(2)[symmetric] that by (auto simp: GSMD_SMS_DATA_MAXLEN_def)
  qed
  have "take j (sms_data (sub_payload (submit_of d))) = take j (ls_data d)"
    using j d(5) by (simp add: submit_of_def Let_def LGSM_SMS_DATA_MAXLEN_def min_def)
  then have "holds s (sms_data (sl_payload m)) j" using holds_take[OF d(6)] r(7) by simp
  moreover have "\<not> sms_has_header (sl_payload m)" using r(5) by (simp add: submit_of_def Let_def)
  ultimately obtain out where out: "unpacking_7bit_character (sl_payload m) = Some (int (packed_length s), out)" "cstr_of_array out = Some s"
    using unpacking_packed[OF t(1), of "sl_payload m" j] d(4) r(6,8) ok(3) j by auto
  show thesis using that[OF d(1) ok(1) r(1,2,4)] r(3) number out d(3) by simp
qed

section \<open>Properties\<close>

text \<open>
  C2. From the client library to the queue of the modem. For every call that \<open>at_spec\<close> has an
  entry for, the library gives one packet to the socket, and the daemon that reads it,
  whatever follows it in its buffer, accepts it and puts the command of the entry at the end
  of its queue, with the callback of the entry, for the client that sent it and with the
  identification of the request if the entry says so; nothing that is queued before it has a
  reply, and what the modem is working on is not touched.
\<close>

theorem api_reaches_queue:
  assumes "at_spec call = Some e" and "no_fail g" and "\<not> flag (g_flags g) GSMD_FLAG_SMS_FMT_TEXT"
  shows "\<exists>rc p lg' g'. api call True sent lg = Some (rc, lg') \<and> lg_sent lg' = lg_sent lg @ [p] \<and>
    usock_rcv_pcmd gu (p @ rest) (int (length p)) g = Some (0, g') \<and>
    queued (ae_text e) (ae_cb e) (if ae_own e then Ctx_user gu else Ctx_gsmd) (if ae_id e then next_msg_id lg else 0) g g'"
proof -
  obtain rc p lg' g' where "api call True sent lg = Some (rc, lg')" "lg_sent lg' = lg_sent lg @ [p]"
    "usock_rcv_pcmd gu (p @ rest) (int (length p)) g = Some (0, g')"
    "queued (ae_text e) (ae_cb e) (if ae_own e then Ctx_user gu else Ctx_gsmd) (if ae_id e then next_msg_id lg else 0) g g'"
    by (rule api_handled[OF assms])
  then show ?thesis by blast
qed

text \<open>A client that has just been opened, and a daemon with one client.\<close>

definition gsmd_one :: gsmd where
  "gsmd_one = gsmd_zero\<lparr>g_users := [example_user]\<rparr>"

lemma api_reaches_queue_witness:
  "\<exists>rc p lg' g'. api (Voice (Voice_out_init NUL \<lparr>la_type = 129, la_addr = ''5551234'' @ replicate 25 NUL\<rparr>)) True 42 lgsm_fresh = Some (rc, lg') \<and>
     lg_sent lg' = [p] \<and> usock_rcv_pcmd 0 (p @ replicate 982 NUL) (int (length p)) gsmd_one = Some (0, g') \<and>
     queued ''ATD5551234;'' (Some Usock_cmd_cb) (Ctx_user 0) 0 gsmd_one g'"
proof -
  let ?a = "\<lparr>la_type = 129, la_addr = ''5551234'' @ replicate 25 NUL\<rparr>"
  have c: "cstr (''5551234'' @ replicate 25 NUL) = ''5551234''"
    using cstr_append_NUL[of "''5551234''" "replicate 24 NUL"] by (simp add: replicate_Suc[symmetric] del: replicate_Suc)
  have "at_spec (Voice (Voice_out_init NUL ?a)) = Some \<lparr>ae_text = ''ATD5551234;'', ae_cb = Some Usock_cmd_cb, ae_id = True, ae_own = True\<rparr>"
    using c by (simp add: own_def LGSM_ADDR_MAXLEN_def)
  moreover have "no_fail gsmd_one" "\<not> flag (g_flags gsmd_one) GSMD_FLAG_SMS_FMT_TEXT" by (simp_all add: gsmd_one_def gsmd_zero_def flag_def)
  ultimately show ?thesis
    using api_reaches_queue[of "Voice (Voice_out_init NUL ?a)" _ gsmd_one 42 lgsm_fresh 0 "replicate 982 NUL"]
    by (fastforce simp: lgsm_fresh_def)
qed

text \<open>
  C1. From text to text. A text of 1 to 160 characters of seven bits, packed by the client library
  into a message to a number of at most 11 digits with or without a sign, and sent, becomes
  a command \<open>AT+CMGS\<close> at the end of the daemon's queue; the octets in it are a message from
  which the decoder recovers the number and its type, and the text that unpacks from the
  decoded message is the text that was sent.
\<close>

theorem sms_text_end_to_end:
  assumes "\<forall>c \<in> set s. c \<noteq> NUL \<and> ord_c c < 128" and "s \<noteq> []" and "length s \<le> 160"
    and "list_all isdigit num" and "length num \<le> 11" and "sign \<in> {[], [CHR ''+'']}"
    and "length (ls_addr sms) = LGSM_SMS_ADDR_MAXLEN + 1" and "cstr_of_array (ls_addr sms) = Some (sign @ num)"
    and "length (ls_data sms) = LGSM_SMS_DATA_MAXLEN + 1"
    and "no_fail g" and "\<not> flag (g_flags g) GSMD_FLAG_SMS_FMT_TEXT"
  shows "\<exists>j d rc p lg' g' octets m out. packing_7bit_character s sms = Some (j, d) \<and>
    lgsm_sms_send d True sent lg = Some (rc, lg') \<and> lg_sent lg' = lg_sent lg @ [p] \<and>
    usock_rcv_pcmd gu (p @ rest) (int (length p)) g = Some (0, g') \<and>
    queued (''AT+CMGS='' @ show_int (int (length octets) - 1) @ [LF] @ concat (map show_hex2 octets) @ [CHR 0x1A])
      (Some Sms_send_cb) (Ctx_user gu) (next_msg_id lg) g g' \<and>
    sms_pdu_to_msg sms_list_zero octets (int (length octets) - 1) (int (length octets)) = Some (0, m) \<and>
    cstr_of_array (ga_number (sl_addr m)) = Some num \<and> ga_type (sl_addr m) = (if sign = [] then 0x81 else 0x91) \<and>
    unpacking_7bit_character (sl_payload m) = Some (ls_length d, out) \<and> cstr_of_array out = Some s"
proof -
  have t: "text_7bit s" "digits_only num" using assms(1,3,4) by (auto simp: text_7bit_def digits_only_def)
  have l: "length (ls_addr sms) = 13" "length (ls_data sms) = 141"
    using assms(7,9) by (simp_all add: LGSM_SMS_ADDR_MAXLEN_def LGSM_SMS_DATA_MAXLEN_def)
  obtain j d octets m out where d: "packing_7bit_character s sms = Some (j, d)" "sms_ok d"
    "sms_pdu_make_smssubmit (submit_of d) = Some (int (length octets), concat (map show_hex2 octets))"
    "sms_pdu_to_msg sms_list_zero octets (int (length octets) - 1) (int (length octets)) = Some (0, m)"
    "cstr_of_array (ga_number (sl_addr m)) = Some num" "ga_type (sl_addr m) = (if sign = [] then 0x81 else 0x91)"
    "unpacking_7bit_character (sl_payload m) = Some (ls_length d, out)" "cstr_of_array out = Some s"
    by (rule text_submit[OF t(1) assms(2) t(2) assms(5,6) l(1) assms(8) l(2)])
  let ?t = "''AT+CMGS='' @ show_int (int (length octets) - 1) @ [LF] @ concat (map show_hex2 octets) @ [CHR 0x1A]"
  let ?e = "\<lparr>ae_text = ?t, ae_cb = Some Sms_send_cb, ae_id = True, ae_own = True\<rparr>"
  have e: "at_spec (Sms (Sms_send d)) = Some ?e" using d(2,3) by (simp add: sms_entry_def own_def)
  obtain rc p lg' g' where "api (Sms (Sms_send d)) True sent lg = Some (rc, lg')" "lg_sent lg' = lg_sent lg @ [p]"
    "usock_rcv_pcmd gu (p @ rest) (int (length p)) g = Some (0, g')"
    "queued (ae_text ?e) (ae_cb ?e) (if ae_own ?e then Ctx_user gu else Ctx_gsmd) (if ae_id ?e then next_msg_id lg else 0) g g'"
    by (rule api_handled[OF e assms(10,11)])
  then have "lgsm_sms_send d True sent lg = Some (rc, lg')" "lg_sent lg' = lg_sent lg @ [p]"
    "usock_rcv_pcmd gu (p @ rest) (int (length p)) g = Some (0, g')"
    "queued ?t (Some Sms_send_cb) (Ctx_user gu) (next_msg_id lg) g g'" by simp_all
  then show ?thesis using d(1,4-8) by blast
qed

lemma sms_text_end_to_end_witness:
  "\<exists>j d rc p lg' g' octets. packing_7bit_character ''hello'' \<lparr>ls_addr = ''+491701234'' @ replicate 3 NUL, ls_alpha = 0, ls_data = replicate 141 0,
       ls_length = 0, ls_ask_ds = 0\<rparr> = Some (j, d) \<and>
     lgsm_sms_send d True 252 lgsm_fresh = Some (rc, lg') \<and> lg_sent lg' = [p] \<and>
     usock_rcv_pcmd 0 p (int (length p)) gsmd_one = Some (0, g') \<and>
     queued (''AT+CMGS='' @ show_int (int (length octets) - 1) @ [LF] @ concat (map show_hex2 octets) @ [CHR 0x1A])
      (Some Sms_send_cb) (Ctx_user 0) 0 gsmd_one g'"
proof -
  let ?s = "\<lparr>ls_addr = ''+491701234'' @ replicate 3 NUL, ls_alpha = 0, ls_data = replicate 141 0, ls_length = 0, ls_ask_ds = 0\<rparr>"
  have "\<forall>c \<in> set ''hello''. c \<noteq> NUL \<and> ord_c c < 128" "list_all isdigit ''491701234''" by (simp_all add: ord_c_def isdigit_def)
  moreover have "cstr_of_array (ls_addr ?s) = Some ([CHR ''+''] @ ''491701234'')"
    using cstr_of_array_padded[of "''+491701234''" 3] by simp
  moreover have "no_fail gsmd_one" "\<not> flag (g_flags gsmd_one) GSMD_FLAG_SMS_FMT_TEXT" by (simp_all add: gsmd_one_def gsmd_zero_def flag_def)
  ultimately show ?thesis
    using sms_text_end_to_end[of "''hello''" "''491701234''" "[CHR ''+'']" ?s gsmd_one 252 lgsm_fresh 0 "[]"]
    by (fastforce simp: lgsm_fresh_def LGSM_SMS_ADDR_MAXLEN_def LGSM_SMS_DATA_MAXLEN_def)
qed

end
