(* ===== verification/Bounds.thy ===== *)
theory Bounds
  imports Usock Total Stream
begin

text \<open>
  The buffers that requests are printed into (\<open>src/gsmd/usock.c\<close>, \<open>src/gsmd/sms_cb.c\<close>):
  for which octets of a client a handler leaves its buffers, and that it does not otherwise.
\<close>

section \<open>Filling and printing\<close>

definition faults :: "'a option \<Rightarrow> bool" where
  "faults m \<longleftrightarrow> m = None"

lemma faults_simps [simp]:
  "faults None" "\<not> faults (Some x)" "faults (if c then m else m') \<longleftrightarrow> (if c then faults m else faults m')"
  "faults (Option.bind so f) \<longleftrightarrow> (case so of None \<Rightarrow> True | Some x \<Rightarrow> faults (f x))"
  by (simp_all add: faults_def split: option.split)

lemma plain_faults:
  assumes "no_fail g"
  shows "faults (fill_submit e t rlen cb ctx cid Some g) \<longleftrightarrow> rlen = 0 \<and> t = []"
proof (cases "rlen = 0 \<and> t = []")
  case True
  then show ?thesis using assms by (simp add: faults_def fill_submit_def atcmd_fill_def)
next
  case False
  then have "(if int (length t) < int rlen then nat (int rlen) else length t) \<noteq> 0" by auto
  then obtain cmd where c: "atcmd_fill t (int rlen) cb ctx cid Discard_timer g = Some (Some cmd, g\<lparr>g_next_addr := g_next_addr g + 1\<rparr>)"
    using assms by (simp add: atcmd_fill_def Let_def)
  have "runs (atcmd_submit cmd (g\<lparr>g_next_addr := g_next_addr g + 1\<rparr>))" using assms by (intro run_rules) simp
  then show ?thesis using c False by (auto simp: faults_def fill_submit_def runs_def)
qed

lemma print_faults:
  assumes "no_fail g" and "length f < rlen"
  shows "faults (cmd_print f rlen t cb gu cid g) \<longleftrightarrow> rlen \<le> length t"
proof -
  obtain cmd where c: "atcmd_fill f (int rlen) cb (Ctx_user gu) cid Discard_timer g = Some (Some cmd, g\<lparr>g_next_addr := g_next_addr g + 1\<rparr>)"
    "length (ac_buf cmd) = rlen"
    using assms by (simp add: atcmd_fill_def Let_def)
  have r: "runs (atcmd_submit c' (g\<lparr>g_next_addr := g_next_addr g + 1\<rparr>))" for c' using assms by (intro run_rules) simp
  show ?thesis
  proof (cases "rlen \<le> length t")
    case True
    then have "sprintf_cmd cmd t = None" using c(2) by (simp add: sprintf_cmd_def memcpy_def)
    then show ?thesis using c(1) True by (simp add: faults_def fill_submit_def)
  next
    case False
    then obtain cmd' where "sprintf_cmd cmd t = Some cmd'" using c(2) by (simp add: sprintf_cmd_def memcpy_def)
    then show ?thesis using c(1) False r[of cmd'] by (auto simp: faults_def fill_submit_def runs_def)
  qed
qed

lemma unchecked_runs:
  assumes "no_fail g" and "0 < rlen"
  shows "\<exists>rc g'. submit_unchecked t rlen cb gu cid g = Some (rc, g') \<and> no_fail g'"
proof -
  obtain cmd where c: "atcmd_fill t (int rlen) cb (Ctx_user gu) cid Discard_timer g = Some (Some cmd, g\<lparr>g_next_addr := g_next_addr g + 1\<rparr>)"
    using fill_total[OF assms(1)] assms(2) by fastforce
  have "runs (atcmd_submit cmd (g\<lparr>g_next_addr := g_next_addr g + 1\<rparr>))" using assms by (intro run_rules) simp
  then show ?thesis using c by (auto simp: submit_unchecked_def runs_def)
qed

lemma format_faults: "no_fail g \<Longrightarrow> \<not> faults (network_format f t cb gu g)"
proof -
  assume a: "no_fail g"
  have "0 < length f + 1" by simp
  from unchecked_runs[OF a this] obtain rc g1 where "submit_unchecked f (length f + 1) (Some Null_cmd_cb) gu 0 g = Some (rc, g1)" "no_fail g1"
    by blast
  then show ?thesis using plain_faults[of g1] by (simp add: network_format_def)
qed

lemma printed_faults:
  assumes "no_fail g"
  shows "faults (network_print t cb gu g) \<longleftrightarrow> 21 \<le> length t" "faults (ccfc cb t gu b g) \<longleftrightarrow> 64 \<le> length t"
    "faults (phonebook_print f t cb gu b g) \<longleftrightarrow> 1024 \<le> length t" "faults (sms_print t cbo gu b g) \<longleftrightarrow> 1024 \<le> length t"
  using assms by (auto simp: network_print_def ccfc_def phonebook_print_def sms_print_def sprintf_local_def plain_faults print_faults)

lemmas request_faults = plain_faults print_faults format_faults printed_faults

lemma show_u8: "length (show_nat (u8_at b i)) \<le> 3"
  using length_show_nat[of "u8_at b i" 2] u8_at_less[of b i] by simp

lemma show_int32: "length (show_int (int_at b i)) \<le> 11"
proof -
  have "nat (int_at b i) \<le> 4294967295" "nat (- int_at b i) \<le> 4294967295"
    using to_int32_bounds[of "int (u32_at b i)"] unfolding int_at_def by linarith+
  then show ?thesis using length_show_nat_32[of "nat (int_at b i)"] length_show_nat_32[of "nat (- int_at b i)"] by (simp add: show_int_def)
qed

lemma prec_length: "length (prec_at b i n) \<le> n"
proof -
  have "length (prec_at b i n) \<le> length (take n (drop i b))" unfolding prec_at_def cstr_def by (rule length_takeWhile_le)
  then show ?thesis by simp
qed

section \<open>Handlers\<close>

text \<open>A string of the request that is missing, or so long that what is printed with it has \<open>n\<close> characters or more.\<close>

definition too_long :: "string option \<Rightarrow> (string \<Rightarrow> nat) \<Rightarrow> nat \<Rightarrow> bool" where
  "too_long so f n \<longleftrightarrow> (case so of None \<Rightarrow> True | Some s \<Rightarrow> n \<le> f s)"

definition network_faults :: "char list \<Rightarrow> bool" where
  "network_faults b \<longleftrightarrow> gph_msg_subtype b = 4 \<and> too_long (str_at b 10) (\<lambda>n. 13 + length n + length (show_nat (u8_at b 9))) 21"

lemma network_bounds:
  assumes "no_fail g"
  shows "faults (usock_rcv_network gu b len g) \<longleftrightarrow> network_faults b"
proof -
  have "length (prec_at b 8 6) \<le> 6" "length (show_int (int_at b 8)) \<le> 11" by (rule prec_length, rule show_int32)
  then show ?thesis using assms
    by (simp add: usock_rcv_network_def network_faults_def too_long_def Let_def request_faults split: option.split)
qed

definition voicecall_faults :: "char list \<Rightarrow> int \<Rightarrow> bool" where
  "voicecall_faults b len \<longleftrightarrow>
     gph_msg_subtype b = 8 \<and> 13 \<le> len \<and> (int_at b 8 = 3 \<or> int_at b 8 = 5) \<and> 10 \<le> u8_at b 12 \<or>
     gph_msg_subtype b = 12 \<and> 12 \<le> len \<and> too_long (str_at b 13) (\<lambda>n. 5 + length (show_int (int_at b 8)) + length n) 64"

lemma show_small: "length (show_nat n) = (if n < 10 then 1 else length (show_nat (n div 10)) + 1)"
  by (subst show_nat.simps) simp

lemma chld_long: "chld_text p i = Some t \<Longrightarrow> 11 \<le> length t \<longleftrightarrow> (p = 3 \<or> p = 5) \<and> 10 \<le> i"
  using show_small[of i] by (cases "show_nat (i div 10)") (auto simp: chld_text_def split: if_splits)

lemma voicecall_ctrl_faults:
  assumes "no_fail g"
  shows "faults (voicecall_ctrl gu b len g) \<longleftrightarrow> 13 \<le> len \<and> (int_at b 8 = 3 \<or> int_at b 8 = 5) \<and> 10 \<le> u8_at b 12"
proof (cases "13 \<le> len")
  case True
  show ?thesis
  proof (cases "chld_text (int_at b 8) (u8_at b 12)")
    case None
    obtain cmd where "atcmd_fill ''AT+CHLD='' 11 (Some Voicecall_ctrl_cb) (Ctx_user gu) (gph_id b) Discard_timer g =
        Some (Some cmd, g\<lparr>g_next_addr := g_next_addr g + 1\<rparr>)"
      using fill_total[OF assms, of 11] by fastforce
    then show ?thesis using True None by (auto simp: voicecall_ctrl_def chld_text_def split: if_splits)
  next
    case (Some t)
    have "voicecall_ctrl gu b len g = cmd_print ''AT+CHLD='' 11 t (Some Voicecall_ctrl_cb) gu (gph_id b) g"
      using Some True by (simp add: voicecall_ctrl_def fill_submit_def cong: option.case_cong)
    then show ?thesis using print_faults[OF assms, where f = "''AT+CHLD=''" and rlen = 11 and t = t] chld_long[OF Some] True by simp
  qed
qed (simp add: voicecall_ctrl_def)

lemma voicecall_bounds:
  assumes "no_fail g" and "length b = 1024" and "gph_msg_subtype b \<noteq> 2"
  shows "faults (usock_rcv_voicecall gu b len g) \<longleftrightarrow> voicecall_faults b len"
proof -
  have dial: "\<not> faults (voicecall_dial gu b len g)"
  proof -
    have "NUL \<in> set (drop 9 (b[41 := NUL]))"
      using assms(2) by (auto simp: in_set_conv_nth intro!: exI[of _ 32])
    then obtain number where "str_at (b[41 := NUL]) 9 = Some number" by (simp add: str_at_def cstr_of_array_def)
    then show ?thesis using print_faults[OF assms(1), where f = "''ATD''"] by (simp add: voicecall_dial_def GSMD_ADDR_MAXLEN_def)
  qed
  have dtmf: "\<not> faults (voicecall_dtmf gu b len g)"
    using print_faults[OF assms(1), where f = "''AT+VTS=''" and rlen = 10] by (simp add: voicecall_dtmf_def Let_def)
  have fwd: "\<not> faults (voicecall_fwd cb m gu b len g)" if "length m = 1" for cb m
    using show_int32[of b 8] that assms(1) by (simp add: voicecall_fwd_def request_faults)
  have reg: "faults (voicecall_fwd_reg gu b len g) \<longleftrightarrow> 12 \<le> len \<and> too_long (str_at b 13) (\<lambda>n. 5 + length (show_int (int_at b 8)) + length n) 64"
    using assms(1) by (auto simp: voicecall_fwd_reg_def too_long_def request_faults add.commute add.left_commute split: option.split)
  show ?thesis using assms dial dtmf fwd reg voicecall_ctrl_faults[OF assms(1)]
    by (simp add: usock_rcv_voicecall_def voicecall_faults_def Let_def request_faults)
qed

definition phonebook_faults :: "char list \<Rightarrow> int \<Rightarrow> bool" where
  "phonebook_faults b len \<longleftrightarrow>
     gph_msg_subtype b = 8 \<and> 11 \<le> len \<and> too_long (str_at b 8) length 3 \<or>
     gph_msg_subtype b = 1 \<and> 23 \<le> len \<and> str_at b 8 = None \<or>
     gph_msg_subtype b = 4 \<and> 70 \<le> len \<and>
       (case (str_at b 9, str_at b 55) of
          (Some n, Some t) \<Rightarrow> 1024 \<le> 7 + length (show_int (store_signed 8 (int (u8_at b 8)))) + length n +
            length (show_nat (u8_at b 54)) + length t
        | _ \<Rightarrow> True)"

lemma phonebook_bounds:
  assumes "no_fail g"
  shows "faults (usock_rcv_phonebook gu b len g) \<longleftrightarrow> phonebook_faults b len"
proof -
  have "faults (phonebook_write gu b g) \<longleftrightarrow>
      (case (str_at b 9, str_at b 55) of
          (Some n, Some t) \<Rightarrow> 1024 \<le> 7 + length (show_int (store_signed 8 (int (u8_at b 8)))) + length n +
            length (show_nat (u8_at b 54)) + length t
        | _ \<Rightarrow> True)"
    using assms by (auto simp: phonebook_write_def too_long_def request_faults split: option.split)
  then show ?thesis using assms show_int32[of b 8] show_u8[of b 8] show_u8[of b 9]
    by (simp add: usock_rcv_phonebook_def phonebook_faults_def Let_def request_faults too_long_def sizeof_gsmd_phonebook_def
        split: option.split)
qed

definition pin_faults :: "char list \<Rightarrow> int \<Rightarrow> bool" where
  "pin_faults b len \<longleftrightarrow> gph_msg_subtype b = 1 \<and> 22 \<le> gph_len b \<and> 30 \<le> len \<and>
     (str_at b 12 = None \<or> str_at b 21 = None)"

text \<open>Appending stays inside the buffer of a command.\<close>

lemma strlcat_cmd_inside:
  assumes "NUL \<in> set (ac_buf cmd)" and "length (ac_buf cmd) = ac_buflen cmd"
  shows "\<exists>a. strlcat_cmd s cmd = Some (cmd\<lparr>ac_buf := a\<rparr>) \<and> NUL \<in> set a \<and> length a = ac_buflen cmd"
proof -
  define d where "d = cstr (ac_buf cmd)"
  have d: "cstr_of_array (ac_buf cmd) = Some d" using assms(1) by (simp add: cstr_of_array_def d_def)
  have "length d < ac_buflen cmd" using cstr_less[OF assms(1)] assms(2) by (simp add: d_def)
  then show ?thesis using assms(2) d by (auto simp: strlcat_cmd_def strlcat_def Let_def)
qed

lemma pin_print_faults:
  assumes "NUL \<in> set (ac_buf cmd)" and "length (ac_buf cmd) = ac_buflen cmd"
  shows "faults (pin_print b cmd) \<longleftrightarrow> str_at b 12 = None \<or> (int_at b 8 = 2 \<or> int_at b 8 = 7) \<and> str_at b 21 = None"
proof (cases "str_at b 12")
  case None
  then show ?thesis by (simp add: pin_print_def)
next
  case (Some pin)
  have step: "\<exists>a'. strlcat_cmd s (cmd\<lparr>ac_buf := a\<rparr>) = Some (cmd\<lparr>ac_buf := a'\<rparr>) \<and> NUL \<in> set a' \<and> length a' = ac_buflen cmd"
    if "NUL \<in> set a" "length a = ac_buflen cmd" for a s
    using strlcat_cmd_inside[of "cmd\<lparr>ac_buf := a\<rparr>" s] that by auto
  obtain a1 where a1: "strlcat_cmd pin cmd = Some (cmd\<lparr>ac_buf := a1\<rparr>)" "NUL \<in> set a1" "length a1 = ac_buflen cmd"
    using strlcat_cmd_inside[OF assms] by blast
  obtain a2 where a2: "strlcat_cmd ([DQ] @ '','' @ [DQ]) (cmd\<lparr>ac_buf := a1\<rparr>) = Some (cmd\<lparr>ac_buf := a2\<rparr>)" "NUL \<in> set a2" "length a2 = ac_buflen cmd"
    using step[OF a1(2,3)] by blast
  have last: "\<not> faults (strlcat_cmd s (cmd\<lparr>ac_buf := a\<rparr>))" if "NUL \<in> set a" "length a = ac_buflen cmd" for a s
    using step[OF that, of s] by (auto simp: faults_def)
  have mid: "\<not> faults (do { c1' \<leftarrow> strlcat_cmd ([DQ] @ '','' @ [DQ]) (cmd\<lparr>ac_buf := a1\<rparr>); c2 \<leftarrow> strlcat_cmd np c1'; strlcat_cmd [DQ] c2 })" for np
    using step[OF a2(2,3), of np] last a2(1) by auto
  show ?thesis
    using Some a1(1) last[OF a1(2,3)] mid
    by (cases "str_at b 21") (auto simp: pin_print_def faults_def bind_assoc)
qed

lemma pin_bounds:
  assumes "no_fail g"
  shows "faults (usock_rcv_pin gu b len g) \<longleftrightarrow> pin_faults b len"
proof -
  let ?f = "''AT+CPIN='' @ [DQ]"
  obtain cmd where c: "atcmd_fill ?f 30 (Some Pin_cmd_cb) (Ctx_user gu) 0 Discard_timer g = Some (Some cmd, g\<lparr>g_next_addr := g_next_addr g + 1\<rparr>)"
    "NUL \<in> set (ac_buf cmd)" "length (ac_buf cmd) = ac_buflen cmd"
    using assms by (simp add: atcmd_fill_def Let_def)
  have "\<not> faults (atcmd_submit c' (g\<lparr>g_next_addr := g_next_addr g + 1\<rparr>))" for c'
    using submit_runs[of "g\<lparr>g_next_addr := g_next_addr g + 1\<rparr>" c'] assms by (auto simp: runs_def faults_def)
  then have p: "faults (fill_submit e ?f 30 (Some Pin_cmd_cb) (Ctx_user gu) 0 (pin_print b) g) \<longleftrightarrow> faults (pin_print b cmd)" for e
    using c(1) by (cases "pin_print b cmd") (simp_all add: fill_submit_def faults_def)
  have "\<not> faults (submit_unchecked ''AT+CPIN?'' 9 (Some Get_cpin_cb) gu 0 g)"
    using unchecked_runs[OF assms, of 9 "''AT+CPIN?''" "Some Get_cpin_cb" gu 0] by (auto simp: faults_def)
  then show ?thesis using p pin_print_faults[OF c(2,3), of b]
    by (auto simp: usock_rcv_pin_def pin_faults_def sizeof_gsmd_pin_def GSMD_PIN_MAXLEN_def split: option.split)
qed

definition submit_faults :: "bool \<Rightarrow> char list \<Rightarrow> nat \<Rightarrow> bool" where
  "submit_faults is_text b i \<longleftrightarrow>
     (if is_text then too_long (str_at b (i + 1)) (\<lambda>n. 12 + length n + length (prec_at b (i + 73) (u8_at b (i + 34)))) 1024
      else NUL \<notin> set (take 33 (drop (i + 1) b)) \<or> 165 < sms_data_bytelen (of_nat (u8_at b (i + 35))) (of_nat (u8_at b (i + 34))))"

definition sms_faults :: "bool \<Rightarrow> char list \<Rightarrow> int \<Rightarrow> bool" where
  "sms_faults is_text b len \<longleftrightarrow>
     gph_msg_subtype b = 3 \<and> 252 \<le> len \<and> submit_faults is_text b 8 \<or>
     gph_msg_subtype b = 4 \<and> 253 \<le> len \<and> u8_at b 8 \<le> 4 \<and> submit_faults is_text b 9 \<or>
     gph_msg_subtype b = 7 \<and> 20 \<le> len \<and> (7 \<le> u32_at b 8 \<or> 7 \<le> u32_at b 12 \<or> 7 \<le> u32_at b 16) \<or>
     gph_msg_subtype b = 9 \<and> 42 \<le> len \<and> too_long (str_at b 9) (\<lambda>n. 11 + length n + length (show_nat (u8_at b 8))) 1024"

lemma hex_length: "length (concat (map show_hex2 os)) = 2 * length os"
  by (induction os) (simp_all add: show_hex2_def)

lemma submit_bounds:
  assumes "no_fail g" and "length b = 1024" and "i \<le> 9" and "length cmd = 8" and "length arg \<le> 4"
  shows "faults (do { t \<leftarrow> submit_text False cmd arg b i; sms_print t cb gu b g }) \<longleftrightarrow> submit_faults False b i"
proof -
  let ?m = "submit_at b i" and ?n = "sms_data_bytelen (of_nat (u8_at b (i + 35))) (of_nat (u8_at b (i + 34)))"
  have arr: "ga_number (sub_addr ?m) = take 33 (drop (i + 1) b)" "length (sms_data (sub_payload ?m)) = 165"
    "sms_coding_scheme (sub_payload ?m) = of_nat (u8_at b (i + 35))" "sms_length (sub_payload ?m) = of_nat (u8_at b (i + 34))"
    using assms(2,3) by (simp_all add: submit_at_def GSMD_ADDR_MAXLEN_def GSMD_SMS_DATA_MAXLEN_def)
  show ?thesis
  proof (cases "NUL \<in> set (take 33 (drop (i + 1) b))")
    case False
    then have "sms_pdu_make_smssubmit ?m = None"
      by (simp add: sms_pdu_make_smssubmit_def smssubmit_octets_def arr(1) cstr_of_array_def)
    then show ?thesis using False by (simp add: submit_text_def submit_faults_def)
  next
    case True
    define num where "num = cstr (take 33 (drop (i + 1) b))"
    have num: "cstr_of_array (ga_number (sub_addr ?m)) = Some num" "length num < 33"
      using True cstr_less[OF True] by (simp_all add: arr(1) cstr_of_array_def num_def)
    have h: "length (smssubmit_header ?m num) = 8 + (length num + 1) div 2" by (simp add: smssubmit_header_def)
    show ?thesis
    proof (cases "165 < ?n")
      case big: True
      have "rd_n (sms_data (sub_payload ?m)) 0 ?n = None" using big arr(2) by (simp add: rd_n_def)
      then have "smssubmit_octets ?m = None" by (simp add: smssubmit_octets_def num(1) arr(3,4) Let_def)
      then show ?thesis using big by (simp add: sms_pdu_make_smssubmit_def submit_text_def submit_faults_def)
    next
      case False
      have short: "\<not> 15 + GSMD_ADDR_MAXLEN < length (smssubmit_header ?m num)" using num(2) h by (simp add: GSMD_ADDR_MAXLEN_def)
      obtain ud where ud: "rd_n (sms_data (sub_payload ?m)) 0 ?n = Some ud" "length ud = ?n"
        using False arr(2) by (auto simp: rd_n_def)
      define os where "os = smssubmit_header ?m num @ ud"
      have os: "smssubmit_octets ?m = Some os" "length os = 8 + (length num + 1) div 2 + ?n"
        using short ud num(1) h arr by (simp_all add: smssubmit_octets_def Let_def os_def)
      then have len: "length os \<le> 190" using num(2) False by linarith
      have "nat (int (length os) - 1) < 10 ^ Suc 2" "nat (- (int (length os) - 1)) < 10 ^ Suc 2" using len by simp_all
      then have "length (show_int (int (length os) - 1)) \<le> 4"
        using length_show_nat[of "nat (int (length os) - 1)" 2] length_show_nat[of "nat (- (int (length os) - 1))" 2]
        using os(2) by (simp add: show_int_def)
      then show ?thesis using os(1) len assms True False
        by (simp add: sms_pdu_make_smssubmit_def submit_text_def submit_faults_def request_faults hex_length)
    qed
  qed
qed

lemma memtype_length: "rd ts0705_memtype_name i = (if i < 7 then Some (ts0705_memtype_name ! i) else None)"
  "i < 7 \<Longrightarrow> length (ts0705_memtype_name ! i) \<le> 4"
  by (simp_all add: rd_def ts0705_memtype_name_def less_Suc_eq numeral_eq_Suc) auto

lemma sms_text_faults:
  assumes "no_fail g" and "length cmd = 8"
  shows "faults (do { t \<leftarrow> submit_text True cmd arg b i; sms_print t cb gu b g }) \<longleftrightarrow> submit_faults True b i"
  using assms by (auto simp: submit_text_def submit_faults_def too_long_def request_faults split: option.split)

lemma sms_submit_faults:
  assumes "no_fail g" and "length b = 1024" and "i \<le> 9" and "length cmd = 8" and "length arg \<le> 4"
  shows "faults (do { t \<leftarrow> submit_text is_text cmd arg b i; sms_print t cb gu b g }) \<longleftrightarrow> submit_faults is_text b i"
  using submit_bounds[OF assms] sms_text_faults[OF assms(1,4)] by (cases is_text) simp_all

lemma cmgl_length: "\<lbrakk>0 \<le> s; s \<le> 4\<rbrakk> \<Longrightarrow> length (gsmd_cmgl_stat ! nat s) \<le> 10"
proof -
  assume "0 \<le> s" "s \<le> 4"
  then have "nat s < 5" by simp
  then show ?thesis by (auto simp: gsmd_cmgl_stat_def less_Suc_eq numeral_eq_Suc)
qed

lemma sms_bounds:
  assumes "no_fail g" and "length b = 1024"
  shows "faults (usock_rcv_sms gu b len g) \<longleftrightarrow> sms_faults (flag (g_flags g) GSMD_FLAG_SMS_FMT_TEXT) b len"
proof -
  let ?t = "flag (g_flags g) GSMD_FLAG_SMS_FMT_TEXT"
  note sub = sms_submit_faults[OF assms]
  have send: "faults (do { t \<leftarrow> submit_text ?t ''AT+CMGS='' [] b 8; sms_print t (Some Sms_send_cb) gu b g }) \<longleftrightarrow> submit_faults ?t b 8"
    by (rule sub) simp_all
  have store: "faults (do { t \<leftarrow> submit_text ?t ''AT+CMGW='' ('','' @ show_nat (u8_at b 8)) b 9; sms_print t (Some Sms_write_cb) gu b g })
      \<longleftrightarrow> submit_faults ?t b 9"
    by (rule sub) (use show_u8[of b 8] in simp_all)
  have mem: "faults (do {
          m0 \<leftarrow> rd ts0705_memtype_name (u32_at b 8);
          m1 \<leftarrow> rd ts0705_memtype_name (u32_at b 12);
          m2 \<leftarrow> rd ts0705_memtype_name (u32_at b 16);
          sms_print (''AT+CPMS='' @ [DQ] @ m0 @ [DQ] @ '','' @ [DQ] @ m1 @ [DQ] @ '','' @ [DQ] @ m2 @ [DQ]) None gu b g })
      \<longleftrightarrow> 7 \<le> u32_at b 8 \<or> 7 \<le> u32_at b 12 \<or> 7 \<le> u32_at b 16"
  proof (cases "u32_at b 8 < 7 \<and> u32_at b 12 < 7 \<and> u32_at b 16 < 7")
    case True
    then show ?thesis using memtype_length(2)[of "u32_at b 8"] memtype_length(2)[of "u32_at b 12"] memtype_length(2)[of "u32_at b 16"] assms(1)
      by (simp add: memtype_length(1) request_faults)
  qed (auto simp: memtype_length(1))
  have listing: "\<not> faults (sms_print (if ?t then ''AT+CMGL='' @ [DQ] @ gsmd_cmgl_stat ! nat (int_at b 8) @ [DQ] else ''AT+CMGL='' @ show_int (int_at b 8))
      (Some Sms_list_cb) gu b g)" if "\<not> (int_at b 8 < 0 \<or> 4 < int_at b 8)"
    using that cmgl_length[of "int_at b 8"] show_int32[of b 8] assms(1) by (simp add: request_faults)
  have smsc: "faults (do {
          number \<leftarrow> str_at b 9;
          sms_print (''AT+CSCA='' @ [DQ] @ number @ [DQ] @ '','' @ show_nat (u8_at b 8)) None gu b g }) \<longleftrightarrow>
      too_long (str_at b 9) (\<lambda>n. 11 + length n + length (show_nat (u8_at b 8))) 1024"
    using assms(1) by (auto simp: too_long_def request_faults split: option.split)
  have delete: "\<not> faults (sms_print (''AT+CMGD='' @ show_nat (u8_at b 8) @ '','' @ show_nat (u8_at b 9)) (Some Sms_delete_cb) gu b g)"
    "\<not> faults (sms_print (''AT+CMGR='' @ show_int (int_at b 8)) (Some Sms_read_cb) gu b g)"
    using show_u8[of b 8] show_u8[of b 9] show_int32[of b 8] assms(1) by (simp_all add: request_faults)
  have plain': "\<not> faults (cmd_plain ''AT+CPMS?'' 9 cb gu i g)" "\<not> faults (cmd_plain ''AT+CSCA?'' 9 cb gu i g)" for cb i
    using assms(1) by (simp_all add: plain_faults)
  show ?thesis
    unfolding usock_rcv_sms_def sms_faults_def Let_def sizeof_gsmd_sms_submit_def sizeof_gsmd_addr_def
    using send store mem listing smsc delete plain'
    by (simp only: faults_simps(1-3) if_cancel) (simp del: faults_simps(4) append.simps)
qed

lemma phone_bounds:
  assumes "no_fail g" and "NUL \<in> set (g_imsi g)" and "gu \<in> gu_addr ` set (g_users g)"
  shows "\<not> faults (usock_rcv_phone gu b len g)"
  using assms by (simp add: usock_rcv_phone_def Let_def plain_faults cstr_of_array_def gsmd_ucmd_submit_def talloc_def
      usock_cmd_enqueue_def upd_user_def faults_def[of "map_option _ _"])

lemma power_off_runs: "no_fail g \<Longrightarrow> \<exists>r g1. power_off t pw g = Some (r, g1)"
  using fill_total[of g 8 t None Ctx_gsmd 0 Poweroff_timer] by (auto simp: power_off_def)

lemma modem_bounds: "no_fail g \<Longrightarrow> \<not> faults (usock_rcv_modem gu b len g)"
proof -
  assume a: "no_fail g"
  obtain r g1 r' g2 where "power_off ''AT@POFF'' (gph_msg_subtype b) g = Some (r, g1)" "power_off ''AT#SHDN'' (gph_msg_subtype b) g = Some (r', g2)"
    using power_off_runs[OF a] by metis
  then show ?thesis by (cases "g_machinepl g") (simp_all add: usock_rcv_modem_def gta01_power_def telit_power_def)
qed

section \<open>All requests\<close>

text \<open>
  The requests for which the daemon reads behind the octets of its buffer of 1024 octets or
  writes behind the buffer it prints into.
\<close>

definition request_overruns :: "bool \<Rightarrow> char list \<Rightarrow> int \<Rightarrow> bool" where
  "request_overruns is_text b len \<longleftrightarrow> gph_version b = GSMD_PROTO_VERSION \<and>
     (gph_msg_type b = 2 \<and> (str_at b 8 = None \<or> gph_len b = 0 \<and> str_at b 8 = Some []) \<or>
      gph_msg_type b = 3 \<and> voicecall_faults b len \<or>
      gph_msg_type b = 5 \<and> phonebook_faults b len \<or>
      gph_msg_type b = 6 \<and> network_faults b \<or>
      gph_msg_type b = 8 \<and> pin_faults b len \<or>
      gph_msg_type b = 9 \<and> sms_faults is_text b len)"

text \<open>
  C3. The daemon leaves its buffers and arrays for exactly the requests of \<open>request_overruns\<close>.  For every
  content of the buffer of 1024 octets and every length that \<open>read\<close> reports, with a client
  that is connected, memory left and a terminated IMSI, handling a request (other than hanging up,
  which runs the answers of other commands) faults if and only if: a string that the request makes the daemon
  read has no NUL before the end of the buffer (for a PIN that is entered both strings of the request,
  whatever its type is, since both are logged); or the number of a message in PDU mode has no NUL within its own
  array of 33 octets; or a number for the voice mail, for call forwarding, for
  the service centre, a phone book entry or a text is too long for the array it is printed into;
  or a call index of two digits does not fit behind \<open>AT+CHLD=\<close>; or the name of a phone book has three
  characters or more; or the kind of a message store is not one of the seven; or a message
  in PDU mode says that it is longer than its data; or a passthrough is empty and has length 0.
\<close>

theorem request_overruns_exactly:
  assumes "no_fail g" and "NUL \<in> set (g_imsi g)" and "gu \<in> gu_addr ` set (g_users g)" and "length b = 1024"
    and "\<not> (gph_msg_type b = 3 \<and> gph_msg_subtype b = 2)"
  shows "usock_rcv_pcmd gu b len g = None \<longleftrightarrow> request_overruns (flag (g_flags g) GSMD_FLAG_SMS_FMT_TEXT) b len"
proof -
  have event: "\<not> faults (usock_rcv_event gu b len g)"
    using assms(3) by (simp add: usock_rcv_event_def upd_user_def faults_def)
  have pass: "faults (usock_rcv_passthrough gu b len g) \<longleftrightarrow> str_at b 8 = None \<or> gph_len b = 0 \<and> str_at b 8 = Some []"
    using assms(1) by (auto simp: usock_rcv_passthrough_def plain_faults split: option.split)
  have cb: "\<not> faults (usock_rcv_cb gu b len g)" using assms(1) by (simp add: usock_rcv_cb_def plain_faults)
  note bounds = event pass cb phone_bounds[OF assms(1-3)] modem_bounds[OF assms(1)] sms_bounds[OF assms(1,4)] pin_bounds[OF assms(1)]
    network_bounds[OF assms(1)] phonebook_bounds[OF assms(1)]
  have voice: "gph_msg_type b = 3 \<Longrightarrow> faults (usock_rcv_voicecall gu b len g) \<longleftrightarrow> voicecall_faults b len"
    using voicecall_bounds[OF assms(1,4)] assms(5) by blast
  have "faults (usock_rcv_pcmd gu b len g) \<longleftrightarrow> request_overruns (flag (g_flags g) GSMD_FLAG_SMS_FMT_TEXT) b len"
    using voice by (simp add: usock_rcv_pcmd_def request_overruns_def Let_def bounds del: faults_simps(4))
  then show ?thesis by (simp add: faults_def)
qed

text \<open>A new number of five digits for the voice mail does not fit into \<open>buffer\<close>.\<close>

definition vmail_request :: "char list" where
  "vmail_request = [CHR 0x01, CHR 0x06, CHR 0x04, NUL, NUL, NUL, CHR 0x23, NUL, NUL, CHR 0x81] @ ''55512'' @ replicate 1009 NUL"

lemma request_overruns_exactly_witness:
  "usock_rcv_pcmd 0 vmail_request 43 (gsmd_zero\<lparr>g_users := [example_user]\<rparr>) = None"
proof -
  have "str_at vmail_request 10 = Some ''55512''"
    by (simp add: vmail_request_def str_at_def cstr_of_array_def cstr_def)
  moreover have "length (show_nat 129) = 3" by (simp add: show_nat.simps)
  ultimately have "request_overruns t vmail_request 43" for t
    by (simp add: request_overruns_def network_faults_def too_long_def vmail_request_def
        gph_version_def gph_msg_type_def gph_msg_subtype_def u8_at_def c_at_def ord_c_def)
  then show ?thesis
    by (subst request_overruns_exactly)
      (simp_all add: gsmd_zero_def example_user_def vmail_request_def gph_version_def gph_msg_type_def gph_msg_subtype_def u8_at_def c_at_def ord_c_def)
qed

end
