(* ===== verification/ClientLoop.thy ===== *)
theory ClientLoop
  imports Api
begin

text \<open>
  Sending and receiving in the client library (\<open>src/libgsmd/libgsmd.c\<close>): what the octets
  that are read from the daemon are divided into, and what the results of the requests say.
\<close>

section \<open>Packets one after another\<close>

text \<open>A whole message with a type of the table, and octets that do not begin with a whole message.\<close>

definition complete :: "char list \<Rightarrow> bool" where
  "complete m \<longleftrightarrow> 8 \<le> length m \<and> length m = 8 + gph_len m \<and> gph_msg_type m < NUM_GSMD_MSGS"

definition incomplete :: "char list \<Rightarrow> bool" where
  "incomplete t \<longleftrightarrow> t = [] \<or> length t < 8 \<or> length t < 8 + gph_len t"

text \<open>The handlers are called for the messages in order; a handler may change the tables.\<close>

fun dispatch_all :: "('h, 'a) lgsm_app \<Rightarrow> char list list \<Rightarrow> int \<Rightarrow> ('h, 'a) lgsm \<Rightarrow> (int \<times> ('h, 'a) lgsm) option" where
  "dispatch_all run [] rc lg = Some (rc, lg)"
| "dispatch_all run (m # ms) rc lg = do {
     handler \<leftarrow> rd (lh_handler lg) (gph_msg_type m);
     (r, lg1) \<leftarrow> call_handler run handler m lg;
     dispatch_all run ms (rc OR r) lg1 }"

lemma header_of_prefix:
  "8 \<le> length m \<Longrightarrow> gph_len (m @ r) = gph_len m" "8 \<le> length m \<Longrightarrow> gph_msg_type (m @ r) = gph_msg_type m"
  by (simp_all add: gph_len_def gph_msg_type_def u16_at_def u8_at_def c_at_def nth_append)

lemma handle_incomplete:
  assumes "incomplete t" and "t \<noteq> []" and "length t < 2147483648"
  shows "lgsm_handle_packet run (t @ rest) (int (length t)) rc lg = Some (- EINVAL, lg)"
proof (cases "length t < 8")
  case True
  then show ?thesis using assms(2) by (subst lgsm_handle_packet.simps) (simp add: to_u32_small)
next
  case False
  then show ?thesis using assms by (subst lgsm_handle_packet.simps) (auto simp: to_u32_small header_of_prefix incomplete_def)
qed

lemma handle_complete:
  assumes "complete m" and "length m + n < 2147483648"
  shows "lgsm_handle_packet run (m @ rest) (int (length m) + int n) rc lg = do {
     handler \<leftarrow> rd (lh_handler lg) (gph_msg_type m);
     (r, lg1) \<leftarrow> call_handler run handler m lg;
     lgsm_handle_packet run rest (int n) (rc OR r) lg1 }"
proof -
  have m: "8 \<le> length m" "gph_len m = length m - 8" "gph_msg_type m < 12" using assms(1) by (simp_all add: complete_def)
  have "to_u32 (int (length m) + int n) = int (length m) + int n" "to_u32 (int (length m) + int n - 8) = int (length m) + int n - 8"
    using assms(2) m(1) by (simp_all add: to_u32_small)
  moreover have "to_int32 (int n) = int n" using assms(2) by (simp add: to_int32_id)
  ultimately show ?thesis using m
    by (subst lgsm_handle_packet.simps) (simp add: header_of_prefix of_nat_diff cong: option.case_cong)
qed

text \<open>
  C20. The octets of one \<open>read\<close> are taken apart message by message: the handlers of whole messages
  are called in order, each with its own message, and the result is the union of theirs; octets
  that remain and are not a whole message end in \<open>-EINVAL\<close>, after the messages before
  them were delivered.  What lies behind the octets read is never looked at.
\<close>

theorem handle_packet_stream:
  assumes "\<forall>m \<in> set ms. complete m" and "incomplete tail" and "length (concat ms @ tail) < 2147483648"
  shows "lgsm_handle_packet run (concat ms @ tail @ rest) (int (length (concat ms @ tail))) rc lg =
    map_option (\<lambda>(r, lg'). (if tail = [] then r else - EINVAL, lg')) (dispatch_all run ms rc lg)"
  using assms
proof (induction ms arbitrary: rc lg)
  case Nil
  then show ?case
    by (cases "tail = []") (use handle_incomplete[of tail run rest rc lg] in \<open>simp_all add: lgsm_handle_packet.simps[of _ _ 0]\<close>)
next
  case (Cons m ms)
  let ?n = "length (concat ms @ tail)"
  have "lgsm_handle_packet run (m @ concat ms @ tail @ rest) (int (length m) + int ?n) rc lg = do {
     handler \<leftarrow> rd (lh_handler lg) (gph_msg_type m);
     (r, lg1) \<leftarrow> call_handler run handler m lg;
     lgsm_handle_packet run (concat ms @ tail @ rest) (int ?n) (rc OR r) lg1 }"
    using Cons.prems by (intro handle_complete) simp_all
  moreover have "lgsm_handle_packet run (concat ms @ tail @ rest) (int ?n) rc' lg' =
      map_option (\<lambda>(r, lg'). (if tail = [] then r else - EINVAL, lg')) (dispatch_all run ms rc' lg')" for rc' lg'
    using Cons.prems by (intro Cons.IH) simp_all
  ultimately show ?case
    by (cases "rd (lh_handler lg) (gph_msg_type m)") (auto simp: add.assoc split: bind_splits prod.splits)
qed

lemma handle_packet_stream_witness:
  "lgsm_handle_packet (\<lambda>f c lg. (1, lg\<lparr>lg_app := Suc (lg_app lg)\<rparr>))
     (packet 3 1 7 ''ab'' @ packet 3 2 7 [] @ [CHR 0x01] @ ''xyz'') 19 0
     (lgsm_fresh\<lparr>lh_handler := (replicate 12 None)[3 := Some (App_handler 0)]\<rparr>) =
   Some (- EINVAL, lgsm_fresh\<lparr>lh_handler := (replicate 12 None)[3 := Some (App_handler 0)], lg_app := 2\<rparr>)"
proof -
  have c: "complete (packet 3 1 7 ''ab'')" "complete (packet 3 2 7 [])" "incomplete [CHR 0x01]"
    by (simp_all add: complete_def incomplete_def packet_header0)
  show ?thesis
    using handle_packet_stream[of "[packet 3 1 7 ''ab'', packet 3 2 7 []]" "[CHR 0x01]"
        "\<lambda>f c lg. (1, lg\<lparr>lg_app := Suc (lg_app lg)\<rparr>)" "''xyz''" 0
        "lgsm_fresh\<lparr>lh_handler := (replicate 12 None)[3 := Some (App_handler 0)]\<rparr>"] c
    by (simp add: rd_def call_handler_def lgsm_fresh_def packet_header0)
qed

section \<open>The results of requests\<close>

text \<open>
  How many octets the result of \<open>send\<close> is compared with, for a message of \<open>n\<close> octets; \<open>None\<close> for the
  requests that return the result of \<open>send\<close> itself.
\<close>

definition checks_send :: "api_call \<Rightarrow> bool" where
  "checks_send call = (case call of
     Voice c \<Rightarrow> (case c of Voice_in_accept \<Rightarrow> False | Voice_hangup \<Rightarrow> False | Voice_volume_set v \<Rightarrow> False | Voice_get_status \<Rightarrow> False | _ \<Rightarrow> True)
   | Network c \<Rightarrow> (case c of Netreg_register oper \<Rightarrow> True | Prefoper_delete i \<Rightarrow> True | Prefoper_add oper \<Rightarrow> True | Voicemail_set n \<Rightarrow> True | _ \<Rightarrow> False)
   | Phone c \<Rightarrow> False
   | Phonebook c \<Rightarrow> (case c of Pb_list_storage \<Rightarrow> False | Pb_get_support \<Rightarrow> False | _ \<Rightarrow> True)
   | Pin c \<Rightarrow> False
   | Sms c \<Rightarrow> (case c of Sms_get_storage \<Rightarrow> False | Sms_get_smsc \<Rightarrow> False | Cb_subscribe \<Rightarrow> False | Cb_unsubscribe \<Rightarrow> False | _ \<Rightarrow> True))"

definition needed :: "library_call \<Rightarrow> int \<Rightarrow> int option" where
  "needed call n = (case call of
     Passthrough_send tx \<Rightarrow> Some (n - 1)
   | Request (Voice (Voice_dtmf c)) \<Rightarrow> Some (n - 6)
   | Request c \<Rightarrow> if checks_send c then Some n else None)"

text \<open>The result of a call that sends a message, as a function of the length of the message.\<close>

definition reports :: "(int \<Rightarrow> int) \<Rightarrow> ('h, 'a) lgsm \<Rightarrow> (int \<times> ('h, 'a) lgsm) option \<Rightarrow> bool" where
  "reports R lg m \<longleftrightarrow> (\<forall>rc lg'. m = Some (rc, lg') \<longrightarrow> lg' = lg \<or>
     (\<exists>ty sub p. lg' = sent_packet ty sub p lg \<and> rc = R (8 + int (length p))))"

definition checked :: "int \<Rightarrow> int \<Rightarrow> int" where
  "checked sent k = (if 0 \<le> sent \<and> sent < k then - EIO else 0)"

definition sent_range :: "int \<Rightarrow> bool" where
  "sent_range sent \<longleftrightarrow> - 1 \<le> sent \<and> sent < 2147483648"

lemma minus_one: "- 1 \<le> sent \<Longrightarrow> sent < 0 \<Longrightarrow> sent = (- 1 :: int)"
  by simp

lemma to_u32_sent: "sent_range sent \<Longrightarrow> n < 4294967295 \<Longrightarrow> to_u32 sent < n \<longleftrightarrow> 0 \<le> sent \<and> sent < n"
  by (cases "0 \<le> sent") (auto simp: sent_range_def to_u32_def dest: minus_one)

lemma reports_ret: "reports R lg (Some (rc, lg))"
  by (simp add: reports_def)

lemma reports_packet: "rc = R (8 + int (length p)) \<Longrightarrow> reports R lg (Some (rc, sent_packet ty sub p lg))"
  unfolding reports_def by blast

lemma reports_simple: "reports (\<lambda>n. sent) lg (Some (lgsm_send_simple mem sent ty sub lg))"
  by (simp add: send_simple_packet reports_ret reports_packet)

lemma reports_send:
  assumes "length p < 65000"
  shows "sent_range sent \<Longrightarrow> k < 100 \<Longrightarrow> reports (\<lambda>n. checked sent (n - 8 + int k)) lg (Some (send_checked sent k (packet ty sub 0 p) lg))"
    and "reports (\<lambda>n. sent) lg (Some (lgsm_send sent (packet ty sub 0 p) lg))"
  using assms to_u32_sent[of sent "int (length p + k)"]
  by (simp_all add: send_checked_packet send_packet reports_packet checked_def)

lemma reports_whole:
  assumes "sent_range sent" and "length p < 65000"
  shows "reports (checked sent) lg (Some (send_checked sent 8 (packet ty sub 0 p) lg))"
  using reports_send(1)[of p sent 8 lg ty sub] assms by simp

lemma reports_any: "(\<And>x. m = Some x \<Longrightarrow> reports R lg (f x)) \<Longrightarrow> reports R lg (Option.bind m f)"
  by (cases m) (auto simp: reports_def)

lemma reports_request:
  assumes "sent_range sent" and "\<And>p. length p = n \<Longrightarrow> packs ty sub n (f (packet ty sub 0 p))" and "n < 65000"
  shows "reports (checked sent) lg (lgsm_request mem sent ty sub n f lg)"
proof -
  have "packs ty sub n (f (packet ty sub 0 (replicate n NUL)))" using assms(2) by simp
  then have "reports (checked sent) lg (do { gmh \<leftarrow> f (packet ty sub 0 (replicate n NUL)); Some (send_checked sent 8 gmh lg) })"
    using assms(1,3) by (intro reports_any) (auto simp: packs_def intro!: reports_whole)
  then show ?thesis by (simp add: lgsm_request_def fill_packet reports_ret)
qed

lemma reports_if: "(c \<Longrightarrow> reports R lg m) \<Longrightarrow> (\<not> c \<Longrightarrow> reports R lg m') \<Longrightarrow> reports R lg (if c then m else m')"
  by simp

lemma reports_case: "reports R lg m \<Longrightarrow> (\<And>x. v = Some x \<Longrightarrow> reports R lg (f x)) \<Longrightarrow> reports R lg (case v of None \<Rightarrow> m | Some x \<Rightarrow> f x)"
  by (cases v) simp_all

lemma reports_put:
  assumes "\<And>p'. length p' = length p \<Longrightarrow> reports R lg (f (packet ty sub 0 p'))"
  shows "reports R lg (Option.bind (put off bs (packet ty sub 0 p)) f)"
    and "reports R lg (Option.bind (put_addr off a (packet ty sub 0 p)) f)"
    and "reports R lg (Option.bind (put_submit off a sms (packet ty sub 0 p)) f)"
proof -
  have "reports R lg (Option.bind m f)" if "packs ty sub (length p) m" for m
    using that assms by (intro reports_any) (auto simp: packs_def)
  then show "reports R lg (Option.bind (put off bs (packet ty sub 0 p)) f)"
    "reports R lg (Option.bind (put_addr off a (packet ty sub 0 p)) f)"
    "reports R lg (Option.bind (put_submit off a sms (packet ty sub 0 p)) f)"
    by (simp_all add: packs_put packs_addr packs_submit)
qed

lemma reports_number:
  "(\<And>r a. reports R lg (f r a)) \<Longrightarrow> reports R lg (Option.bind (lgsm_number2addr x y z) (\<lambda>(r, a). f r a))"
  "(\<And>t. reports R lg (h t)) \<Longrightarrow> reports R lg (Option.bind (cstr_of_array b) h)"
  by (auto intro!: reports_any split: prod.split)

lemmas reports_rules = reports_if reports_case reports_number reports_put reports_whole reports_ret

lemma payload_reports:
  assumes "sent_range sent"
  shows "reports (checked sent) lg (lgsm_voice_out_init c a mem sent lg)" "reports (checked sent) lg (lgsm_voice_ctrl i j mem sent lg)"
    "reports (checked sent) lg (lgsm_voice_fwd_reg i a mem sent lg)" "reports (checked sent) lg (lgsm_netreg_register cs mem sent lg)"
    "reports (checked sent) lg (lgsm_prefoper_add cs mem sent lg)" "reports (checked sent) lg (lgsm_pb_set_storage s mem sent lg)"
    "reports (checked sent) lg (lgsm_pb_find_entry cs mem sent lg)" "reports (checked sent) lg (lgsm_pb_read_entries i j mem sent lg)"
    "reports (checked sent) lg (lgsm_pb_write_entry pb mem sent lg)" "reports (checked sent) lg (lgsm_sms_delete i j mem sent lg)"
    "reports (checked sent) lg (lgsm_sms_set_storage i j k mem sent lg)"
  unfolding payload_defs
  by ((rule reports_request[OF assms]; (intro packs_rules; assumption)?; simp add: sizeof_gsmd_addr_def sizeof_gsmd_phonebook_def
      GSMD_PB_TEXT_MAXLEN_def)+)

lemma address_reports:
  assumes "sent_range sent"
  shows "reports (checked sent) lg (lgsm_voicemail_set s mem sent lg)" "reports (checked sent) lg (lgsm_sms_set_smsc s mem sent lg)"
    "reports (checked sent) lg (lgsm_sms_send sms mem sent lg)" "reports (checked sent) lg (lgsm_sms_write i sms mem sent lg)"
  unfolding lgsm_voicemail_set_def lgsm_sms_set_smsc_def lgsm_sms_send_def lgsm_sms_write_def fill_packet
  by (intro reports_rules assms | drule filled_packet, hypsubst |
      simp add: sizeof_gsmd_addr_def sizeof_gsmd_voicemail_def sizeof_gsmd_sms_submit_def del: One_nat_def; fail)+

lemma pin_reports: "reports (\<lambda>n. sent) lg (lgsm_pin n s np mem sent lg)"
  unfolding lgsm_pin_def fill_packet
  by (intro reports_if reports_case reports_put reports_ret reports_send(2) | drule filled_packet, hypsubst |
      simp add: sizeof_gsmd_pin_def del: One_nat_def; fail)+

lemma dtmf_reports:
  assumes "sent_range sent"
  shows "reports (\<lambda>n. checked sent (n - 6)) lg (lgsm_voice_dtmf c mem sent lg)"
proof -
  have s: "reports (\<lambda>n. checked sent (n - 6)) lg (Some (send_checked sent 2 (packet ty sub 0 p) lg))" if "length p = 2" for ty sub and p :: "char list"
    using reports_send(1)[of p sent 2 lg ty sub] that assms by simp
  have "reports (\<lambda>n. checked sent (n - 6)) lg (Option.bind (put 0 [char_of (1 :: nat), c] (packet GSMD_MSG_VOICECALL 4 0 [NUL, NUL]))
      (\<lambda>m. Some (send_checked sent 2 m lg)))"
    by (rule reports_put(1)) (simp add: s)
  then show ?thesis by (simp add: lgsm_voice_dtmf_def fill_packet numeral_2_eq_2 reports_ret)
qed

lemmas report_rules = simple_defs int_request_defs reports_simple payload_reports address_reports pin_reports
  dtmf_reports reports_request packs_put checks_send_def

lemma requests_report:
  assumes "sent_range sent"
  shows "reports (\<lambda>n. case needed (Request call) n of None \<Rightarrow> sent | Some k \<Rightarrow> checked sent k) lg (api call mem sent lg)"
proof (cases call)
  case (Voice c)
  then show ?thesis using assms by (cases c) (simp_all add: report_rules needed_def del: One_nat_def)
next
  case (Network c)
  then show ?thesis using assms by (cases c) (simp_all add: report_rules needed_def del: One_nat_def)
next
  case (Phone c)
  then show ?thesis using assms by (cases c) (simp_all add: report_rules needed_def del: One_nat_def)
next
  case (Phonebook c)
  then show ?thesis using assms by (cases c) (simp_all add: report_rules needed_def del: One_nat_def)
next
  case (Pin c)
  then show ?thesis using assms by (cases c) (simp_all add: report_rules needed_def del: One_nat_def)
next
  case (Sms c)
  then show ?thesis using assms by (cases c) (simp_all add: report_rules needed_def del: One_nat_def)
qed

text \<open>
  C38. What the result of a request says about \<open>send\<close>, for every request of the library that returns and
  has given a message to it, \<open>send\<close> having returned -1 or a number of octets below 2147483648.  The requests without a payload and the one that enters a PIN return the result of
  \<open>send\<close> itself, a failure being -1.  The others report \<open>-EIO\<close> exactly if \<open>send\<close> took a number of octets, not
  below 0, that is less than the length of the message; but the request for a tone is content with six octets
  less, and passed-through text with one less.  Otherwise they report success (0, or the identification
  of the message that is passed through): the failure -1 of \<open>send\<close>, compared as an unsigned number, is
  reported as success by all of these.
\<close>

theorem send_failure_unnoticed:
  assumes "library call mem sent lg = Some (rc, lg')" and "lg' \<noteq> lg" and "- 1 \<le> sent" and "sent < 2147483648"
  shows "\<exists>m. lg_sent lg' = lg_sent lg @ [m] \<and>
    rc = (case needed call (int (length m)) of
        None \<Rightarrow> sent
      | Some k \<Rightarrow> if 0 \<le> sent \<and> sent < k then - EIO
          else (case call of Request c \<Rightarrow> 0 | Passthrough_send tx \<Rightarrow> int (unat (next_msg_id lg))))"
proof (cases call)
  case (Request c)
  have "sent_range sent" using assms(3,4) by (simp add: sent_range_def)
  from requests_report[OF this, of c lg mem] assms(1,2) show ?thesis
    by (auto simp: Request reports_def sent_packet_def checked_def add.commute split: option.splits)
next
  case (Passthrough_send tx)
  have "sent_range sent" using assms(3,4) by (simp add: sent_range_def)
  moreover have "length tx < 1024 \<and> lg' = sent_packet GSMD_MSG_PASSTHROUGH 1 (tx @ [NUL]) lg \<and>
      rc = (if to_u32 sent < int (length tx + 8) then - EIO else int (unat (next_msg_id lg)))"
    using passthrough_sent[of sent tx lg rc lg'] assms(1,2) by (simp add: Passthrough_send)
  ultimately show ?thesis using to_u32_sent[of sent "int (length tx + 8)"]
    by (simp add: Passthrough_send sent_packet_def needed_def)
qed

lemma send_failure_unnoticed_witness:
  "map_option fst (library (Request (Voice (Voice_ctrl 2 0))) True (- 1) lgsm_fresh) = Some 0 \<and>
   map_option fst (library (Request (Voice (Voice_ctrl 2 0))) True 12 lgsm_fresh) = Some (- EIO)"
proof -
  let ?c = "Request (Voice (Voice_ctrl 2 0))"
  define lg' where "lg' = sent_packet GSMD_MSG_VOICECALL 8 (le32 2 @ [u8_of 0]) lgsm_fresh"
  have m: "lgsm_gmh_fill True GSMD_MSG_VOICECALL 8 5 = Some (packet GSMD_MSG_VOICECALL 8 0 (replicate 5 NUL))" by (simp add: fill_packet)
  have r: "\<exists>rc. library ?c True sent lgsm_fresh = Some (rc, lg')" for sent
    by (simp add: lgsm_voice_ctrl_def lgsm_request_def m put_packet send_checked_packet lg'_def)
  have l: "lg' \<noteq> lgsm_fresh" "lg_sent lg' = lg_sent lgsm_fresh @ [m] \<Longrightarrow> length m = 13" for m
    by (auto simp: lg'_def sent_packet_def lgsm_fresh_def)
  obtain rc1 rc2 where rc: "library ?c True (- 1) lgsm_fresh = Some (rc1, lg')" "library ?c True 12 lgsm_fresh = Some (rc2, lg')" using r by metis
  have "rc1 = 0" using send_failure_unnoticed[OF rc(1) l(1)] l(2) by (auto simp: needed_def checks_send_def)
  moreover have "rc2 = - EIO" using send_failure_unnoticed[OF rc(2) l(1)] l(2) by (auto simp: needed_def checks_send_def)
  ultimately show ?thesis using rc by simp
qed

lemma plus_refused: "\<exists>a. lgsm_number2addr zero_addr (CHR ''+'' # n) 0 = Some (1, a)"
proof (cases "GSMD_ADDR_MAXLEN + 1 < length (CHR ''+'' # n) + 1")
  case True
  then show ?thesis by (simp add: lgsm_number2addr_def)
next
  case False
  define a where "a = CHR ''+'' # n @ NUL # replicate (31 - length n) NUL"
  have "strcpy_number (ga_number zero_addr) (CHR ''+'' # n) = Some a"
    using False by (simp add: strcpy_number_def zero_addr_def a_def GSMD_ADDR_MAXLEN_def)
  moreover have "cstr_of_array a = Some (CHR ''+'' # cstr (n @ NUL # replicate (31 - length n) NUL))"
    by (simp add: cstr_of_array_def a_def cstr_def)
  moreover have "\<not> isdigit (CHR ''+'')" by (simp add: isdigit_def ord_c_def)
  ultimately show ?thesis using False by (simp add: lgsm_number2addr_def c_at_def)
qed

text \<open>
  The number of a service centre or of the voice mail cannot be international: a number with
  a plus sign, which is copied with it, is refused, and nothing is sent.
\<close>

lemma international_number_rejected:
  "lgsm_sms_set_smsc (CHR ''+'' # n) True sent lg = Some (- EINVAL, lg) \<and>
   lgsm_voicemail_set (CHR ''+'' # n) True sent lg = Some (- EINVAL, lg)"
proof -
  obtain a where "lgsm_number2addr zero_addr (CHR ''+'' # n) 0 = Some (1, a)" using plus_refused by blast
  then show ?thesis
    by (simp add: lgsm_sms_set_smsc_def lgsm_voicemail_set_def fill_packet put_packet sizeof_gsmd_voicemail_def)
qed

end
