(* ===== verification/Opkg.thy ===== *)
theory Opkg
  imports CLib
begin

text \<open>
  The data of the package manager (\<open>opkg/libopkg/pkg.h\<close>, \<open>opkg/libopkg/pkg_depends.h\<close>): packages,
  abstract packages and dependencies, and the words that stand for their states in the
  status file (\<open>opkg/libopkg/pkg.c\<close>).  A null pointer to a string is \<^const>\<open>None\<close>; an array of
  strings with its count is a list; pointers between packages are positions in the store.
\<close>

unbundle bit_operations_syntax

section \<open>States\<close>

datatype pkg_state_want = SW_UNKNOWN | SW_INSTALL | SW_DEINSTALL | SW_PURGE

datatype pkg_state_status =
    SS_NOT_INSTALLED | SS_UNPACKED | SS_HALF_CONFIGURED | SS_INSTALLED | SS_HALF_INSTALLED
  | SS_CONFIG_FILES | SS_POST_INST_FAILED | SS_REMOVAL_FAILED

definition SF_OK :: u32 where "SF_OK = 0"
definition SF_REINSTREQ :: u32 where "SF_REINSTREQ = 1"
definition SF_HOLD :: u32 where "SF_HOLD = 2"
definition SF_REPLACE :: u32 where "SF_REPLACE = 4"
definition SF_NOPRUNE :: u32 where "SF_NOPRUNE = 8"
definition SF_PREFER :: u32 where "SF_PREFER = 16"
definition SF_OBSOLETE :: u32 where "SF_OBSOLETE = 32"
definition SF_MARKED :: u32 where "SF_MARKED = 64"
definition SF_FILELIST_CHANGED :: u32 where "SF_FILELIST_CHANGED = 128"
definition SF_USER :: u32 where "SF_USER = 256"

lemmas SF_defs = SF_OK_def SF_REINSTREQ_def SF_HOLD_def SF_REPLACE_def SF_NOPRUNE_def SF_PREFER_def SF_OBSOLETE_def
  SF_MARKED_def SF_FILELIST_CHANGED_def SF_USER_def

definition SF_NONVOLATILE_FLAGS :: u32 where
  "SF_NONVOLATILE_FLAGS = SF_HOLD OR SF_NOPRUNE OR SF_PREFER OR SF_OBSOLETE OR SF_USER"

section \<open>Packages\<close>

datatype version_constraint = NONE | EARLIER | EARLIER_EQUAL | EQUAL | LATER_EQUAL | LATER

datatype depend_type = PREDEPEND | DEPEND | CONFLICTS | GREEDY_DEPEND | RECOMMEND | SUGGEST

text \<open>\<open>d_pkg\<close> is the position of the abstract package.\<close>

record depend =
  d_constraint :: version_constraint
  d_version :: "string option"
  d_pkg :: nat

record compound_depend =
  cd_type :: depend_type
  cd_possibilities :: "depend list"

record pkg =
  p_name :: "string option"
  p_epoch :: u32
  p_version :: "string option"
  p_revision :: "string option"
  p_src :: "nat option"
  p_dest :: "nat option"
  p_architecture :: "string option"
  p_section :: "string option"
  p_maintainer :: "string option"
  p_description :: "string option"
  p_tags :: "string option"
  p_state_want :: pkg_state_want
  p_state_flag :: u32
  p_state_status :: pkg_state_status
  p_depends_str :: "string list"
  p_pre_depends_str :: "string list"
  p_recommends_str :: "string list"
  p_suggests_str :: "string list"
  p_depends :: "compound_depend list"
  p_conflicts_str :: "string list"
  p_conflicts :: "compound_depend list"
  p_replaces_str :: "string list"
  p_replaces :: "nat list"
  p_provides_str :: "string list"
  p_provides :: "nat list"
  p_parent :: "nat option"
  p_filename :: "string option"
  p_local_filename :: "string option"
  p_tmp_unpack_dir :: "string option"
  p_md5sum :: "string option"
  p_size :: "string option"
  p_installed_size :: "string option"
  p_priority :: "string option"
  p_source :: "string option"
  p_conffiles :: "(string \<times> string) list"
  p_installed_time :: u32
  p_installed_files :: "string list option"
  p_installed_files_ref_cnt :: int
  p_essential :: bool
  p_arch_priority :: int
  p_provided_by_hand :: bool
  p_auto_installed :: bool

definition pkg_init :: pkg where
  "pkg_init = \<lparr>p_name = None, p_epoch = 0, p_version = None, p_revision = None, p_src = None, p_dest = None, p_architecture = None, p_section = None,
     p_maintainer = None, p_description = None, p_tags = None, p_state_want = SW_UNKNOWN, p_state_flag = SF_OK,
     p_state_status = SS_NOT_INSTALLED, p_depends_str = [], p_pre_depends_str = [], p_recommends_str = [], p_suggests_str = [],
     p_depends = [], p_conflicts_str = [], p_conflicts = [], p_replaces_str = [], p_replaces = [], p_provides_str = [],
     p_provides = [], p_parent = None, p_filename = None, p_local_filename = None, p_tmp_unpack_dir = None, p_md5sum = None, p_size = None, p_installed_size = None,
     p_priority = None, p_source = None, p_conffiles = [], p_installed_time = 0, p_installed_files = None, p_installed_files_ref_cnt = 0, p_essential = False, p_arch_priority = 0,
     p_provided_by_hand = False, p_auto_installed = False\<rparr>"

section \<open>Words for states\<close>

definition pkg_state_want_map :: "(pkg_state_want \<times> string) list" where
  "pkg_state_want_map = [(SW_UNKNOWN, ''unknown''), (SW_INSTALL, ''install''), (SW_DEINSTALL, ''deinstall''), (SW_PURGE, ''purge'')]"

definition pkg_state_flag_map :: "(u32 \<times> string) list" where
  "pkg_state_flag_map = [(SF_OK, ''ok''), (SF_REINSTREQ, ''reinstreq''), (SF_HOLD, ''hold''), (SF_REPLACE, ''replace''),
     (SF_NOPRUNE, ''noprune''), (SF_PREFER, ''prefer''), (SF_OBSOLETE, ''obsolete''), (SF_USER, ''user'')]"

definition pkg_state_status_map :: "(pkg_state_status \<times> string) list" where
  "pkg_state_status_map = [(SS_NOT_INSTALLED, ''not-installed''), (SS_UNPACKED, ''unpacked''), (SS_HALF_CONFIGURED, ''half-configured''),
     (SS_INSTALLED, ''installed''), (SS_HALF_INSTALLED, ''half-installed''), (SS_CONFIG_FILES, ''config-files''),
     (SS_POST_INST_FAILED, ''post-inst-failed''), (SS_REMOVAL_FAILED, ''removal-failed'')]"

definition pkg_state_want_to_str :: "pkg_state_want \<Rightarrow> string" where
  "pkg_state_want_to_str sw =
     (case find (\<lambda>(v, _). v = sw) pkg_state_want_map of Some (_, s) \<Rightarrow> s | None \<Rightarrow> ''<STATE_WANT_UNKNOWN>'')"

definition pkg_state_want_from_str :: "string \<Rightarrow> pkg_state_want" where
  "pkg_state_want_from_str str = (case find (\<lambda>(_, s). str = s) pkg_state_want_map of Some (v, _) \<Rightarrow> v | None \<Rightarrow> SW_UNKNOWN)"

definition pkg_state_status_to_str :: "pkg_state_status \<Rightarrow> string" where
  "pkg_state_status_to_str ss =
     (case find (\<lambda>(v, _). v = ss) pkg_state_status_map of Some (_, s) \<Rightarrow> s | None \<Rightarrow> ''<STATE_STATUS_UNKNOWN>'')"

definition pkg_state_status_from_str :: "string \<Rightarrow> pkg_state_status" where
  "pkg_state_status_from_str str =
     (case find (\<lambda>(_, s). str = s) pkg_state_status_map of Some (v, _) \<Rightarrow> v | None \<Rightarrow> SS_NOT_INSTALLED)"

text \<open>The last comma is removed.\<close>

definition pkg_state_flag_to_str :: "u32 \<Rightarrow> string" where
  "pkg_state_flag_to_str sf0 =
     (let sf = sf0 AND SF_NONVOLATILE_FLAGS in
      if sf = 0 then ''ok''
      else butlast (concat (map (\<lambda>(v, s). if sf AND v \<noteq> 0 then s @ '','' else []) pkg_state_flag_map)))"

fun flags_from :: "(u32 \<times> string) list \<Rightarrow> u32 \<Rightarrow> string \<Rightarrow> u32" where
  "flags_from [] sf str = sf"
| "flags_from ((v, s) # rest) sf str =
     (if take (length s) str = s
      then let str1 = drop (length s) str in
        if c_at str1 0 = CHR '','' then flags_from rest (sf OR v) (drop 1 str1) else sf OR v
      else flags_from rest sf str)"

definition pkg_state_flag_from_str :: "string \<Rightarrow> u32" where
  "pkg_state_flag_from_str str = (if str = ''ok'' then SF_OK else flags_from pkg_state_flag_map SF_OK str)"

lemma want_roundtrip [simp]: "pkg_state_want_from_str (pkg_state_want_to_str sw) = sw"
  by (cases sw) (simp_all add: pkg_state_want_from_str_def pkg_state_want_to_str_def pkg_state_want_map_def)

lemma status_roundtrip [simp]: "pkg_state_status_from_str (pkg_state_status_to_str ss) = ss"
  by (cases ss) (simp_all add: pkg_state_status_from_str_def pkg_state_status_to_str_def pkg_state_status_map_def)

text \<open>The values of five flags.\<close>

definition flag_values :: "u32 list" where
  "flag_values = [(if a then SF_HOLD else 0) OR (if b then SF_NOPRUNE else 0) OR (if c then SF_PREFER else 0) OR
     (if d then SF_OBSOLETE else 0) OR (if e then SF_USER else 0).
     a \<leftarrow> [False, True], b \<leftarrow> [False, True], c \<leftarrow> [False, True], d \<leftarrow> [False, True], e \<leftarrow> [False, True]]"

lemma and_flag: "(x :: u32) AND 2 ^ n = (if bit x n then 2 ^ n else 0)"
  by (rule bit_word_eqI) (auto simp: bit_simps)

lemma flags_value: "sf AND SF_NONVOLATILE_FLAGS \<in> set flag_values"
proof -
  have "sf AND SF_NONVOLATILE_FLAGS = (sf AND 2) OR (sf AND 8) OR (sf AND 16) OR (sf AND 32) OR (sf AND 256)"
    unfolding SF_NONVOLATILE_FLAGS_def SF_defs by (simp only: bit.conj_disj_distrib or.assoc)
  moreover have "sf AND 2 = (if bit sf 1 then 2 else 0)" "sf AND 8 = (if bit sf 3 then 8 else 0)"
    "sf AND 16 = (if bit sf 4 then 16 else 0)" "sf AND 32 = (if bit sf 5 then 32 else 0)" "sf AND 256 = (if bit sf 8 then 256 else 0)"
    using and_flag[of sf 1] and_flag[of sf 3] and_flag[of sf 4] and_flag[of sf 5] and_flag[of sf 8] by simp_all
  ultimately show ?thesis
    by (cases "bit sf 1"; cases "bit sf 3"; cases "bit sf 4"; cases "bit sf 5"; cases "bit sf 8") (simp_all add: flag_values_def SF_defs)
qed

lemma flags_check: "list_all (\<lambda>sf. pkg_state_flag_from_str (pkg_state_flag_to_str sf) = sf) flag_values"
  by code_simp

lemma flags_roundtrip [simp]: "pkg_state_flag_from_str (pkg_state_flag_to_str sf) = sf AND SF_NONVOLATILE_FLAGS"
proof -
  have "pkg_state_flag_to_str sf = pkg_state_flag_to_str (sf AND SF_NONVOLATILE_FLAGS)"
    by (simp add: pkg_state_flag_to_str_def and.assoc)
  then show ?thesis using flags_value[of sf] flags_check by (simp add: list_all_iff)
qed

end
