(* ===== verification/OpkgVersion.thy ===== *)
theory OpkgVersion
  imports Opkg
begin

text \<open>
  Versions of packages: \<open>verrevcmp\<close>, \<open>pkg_compare_versions\<close>, \<open>pkg_version_satisfied\<close> and
  \<open>pkg_version_str_alloc\<close> of \<open>opkg/libopkg/pkg.c\<close>, \<open>parseVersion\<close> of \<open>pkg_parse.c\<close> and
  \<open>version_constraints_satisfied\<close> of \<open>pkg_depends.c\<close>.
\<close>

section \<open>Comparing\<close>

definition isalpha :: "char \<Rightarrow> bool" where
  "isalpha c \<longleftrightarrow> 65 \<le> ord_c c \<and> ord_c c \<le> 90 \<or> 97 \<le> ord_c c \<and> ord_c c \<le> 122"

definition order :: "char \<Rightarrow> int" where
  "order c = (if c = CHR ''~'' then - 1 else if isdigit c then 0 else if c = NUL then 0
     else if isalpha c then int (ord_c c) else int (ord_c c) + 256)"

text \<open>
  The loop over characters that are not digits: the result, or where both pointers are.
  Advancing a pointer beyond the end of its string is a fault.
\<close>

definition in_text :: "string \<Rightarrow> bool" where
  "in_text s \<longleftrightarrow> s \<noteq> [] \<and> \<not> isdigit (c_at s 0)"

fun text_loop :: "string \<Rightarrow> string \<Rightarrow> (int + string \<times> string) option" where
  "text_loop val ref =
     (if in_text val \<or> in_text ref then
        if order (c_at val 0) \<noteq> order (c_at ref 0) then Some (Inl (order (c_at val 0) - order (c_at ref 0)))
        else (case (val, ref) of (v # val', r # ref') \<Rightarrow> text_loop val' ref' | _ \<Rightarrow> None)
      else Some (Inr (val, ref)))"

declare text_loop.simps [simp del]

fun digit_loop :: "int \<Rightarrow> string \<Rightarrow> string \<Rightarrow> int \<times> string \<times> string" where
  "digit_loop fd (v # val) (r # ref) =
     (if isdigit v \<and> isdigit r
      then digit_loop (if fd = 0 then int (ord_c v) - int (ord_c r) else fd) val ref
      else (fd, v # val, r # ref))"
| "digit_loop fd val ref = (fd, val, ref)"

lemma digit_loop_length: "digit_loop fd val ref = (fd', v, r) \<Longrightarrow> length v \<le> length val \<and> length r \<le> length ref"
  by (induction fd val ref rule: digit_loop.induct) (auto split: if_splits)

lemma digit_loop_same:
  "digit_loop fd val ref = (fd', v, r) \<Longrightarrow> length v = length val \<Longrightarrow> v = val"
  "digit_loop fd val ref = (fd', v, r) \<Longrightarrow> length r = length ref \<Longrightarrow> r = ref"
  by (induction fd val ref rule: digit_loop.induct) (auto split: if_splits dest: digit_loop_length)

lemma dropWhile_same: "length (dropWhile P xs) = length xs \<Longrightarrow> dropWhile P xs = xs"
  using length_dropWhile_le[of P "tl xs"] by (cases xs) (auto split: if_splits)

lemma text_loop_length:
  "text_loop val ref = Some (Inr (v, r)) \<Longrightarrow>
   length v \<le> length val \<and> length r \<le> length ref \<and> \<not> in_text v \<and> \<not> in_text r"
proof (induction val ref rule: text_loop.induct)
  case (1 val ref)
  from 1(2) show ?case
    by (subst (asm) text_loop.simps) (use 1(1) in \<open>fastforce split: if_splits list.splits\<close>)
qed

abbreviation skip_zeros :: "string \<Rightarrow> string" where
  "skip_zeros \<equiv> dropWhile (\<lambda>c. c = CHR ''0'')"

function verrevcmp :: "string \<Rightarrow> string \<Rightarrow> int option" where
  "verrevcmp val ref =
     (if val = [] \<and> ref = [] then Some 0
      else (case text_loop val ref of
          None \<Rightarrow> None
        | Some (Inl r) \<Rightarrow> Some r
        | Some (Inr (v, r)) \<Rightarrow>
            (case digit_loop 0 (skip_zeros v) (skip_zeros r) of (fd, v', r') \<Rightarrow>
               if isdigit (c_at v' 0) then Some 1
               else if isdigit (c_at r' 0) then Some (- 1)
               else if fd \<noteq> 0 then Some fd
               else verrevcmp v' r')))"
  by pat_completeness auto

lemma verrevcmp_advances:
  assumes "text_loop val ref = Some (Inr (v, r))" and "digit_loop 0 (skip_zeros v) (skip_zeros r) = (fd, v', r')"
    and "\<not> isdigit (c_at v' 0)" and "\<not> isdigit (c_at r' 0)" and "\<not> (val = [] \<and> ref = [])"
  shows "length v' + length r' < length val + length ref"
proof (rule ccontr)
  assume n: "\<not> ?thesis"
  have l: "length v \<le> length val" "length r \<le> length ref" "\<not> in_text v" "\<not> in_text r" using text_loop_length[OF assms(1)] by auto
  have s: "length (skip_zeros v) \<le> length v" "length (skip_zeros r) \<le> length r" by (simp_all add: length_dropWhile_le)
  have d: "length v' \<le> length (skip_zeros v)" "length r' \<le> length (skip_zeros r)" using digit_loop_length[OF assms(2)] by auto
  have e: "length v' = length val" "length r' = length ref" "length v' = length (skip_zeros v)" "length r' = length (skip_zeros r)"
    "length (skip_zeros v) = length v" "length (skip_zeros r) = length r" using n l s d by linarith+
  have "v' = v" "r' = r" using digit_loop_same[OF assms(2)] dropWhile_same e by metis+
  then show False using assms(3-5) l(3,4) e(1,2) by (auto simp: in_text_def)
qed

termination verrevcmp
  by (relation "measure (\<lambda>(val, ref). length val + length ref)") (auto intro!: verrevcmp_advances[OF _ sym])

declare verrevcmp.simps [simp del]

section \<open>The order of versions\<close>

text \<open>
  A version as numbers: the order of the characters of a part without digits, 0 for its end, then the
  value of the digits that follow, and so on.  Such sequences are compared from the left, and continue
  with zeros.
\<close>

function version_seq :: "string \<Rightarrow> int list" where
  "version_seq s =
     (if s = [] then []
      else map order (takeWhile (\<lambda>c. \<not> isdigit c) s) @
        [0, int (digits_num 10 (takeWhile isdigit (dropWhile (\<lambda>c. \<not> isdigit c) s)))] @
        version_seq (dropWhile isdigit (dropWhile (\<lambda>c. \<not> isdigit c) s)))"
  by pat_completeness auto

lemma dropWhile_twice_less: "s \<noteq> [] \<Longrightarrow> length (dropWhile P (dropWhile (\<lambda>c. \<not> P c) s)) < length s"
  using length_dropWhile_le[of P "tl s"] length_dropWhile_le[of P "dropWhile (\<lambda>c. \<not> P c) (tl s)"]
    length_dropWhile_le[of "\<lambda>c. \<not> P c" "tl s"] by (cases s) auto

termination version_seq
  by (relation "measure length") (simp_all add: dropWhile_twice_less)

declare version_seq.simps [simp del]

fun zcmp :: "int list \<Rightarrow> int list \<Rightarrow> int" where
  "zcmp [] [] = 0"
| "zcmp (x # xs) [] = (if x = 0 then zcmp xs [] else sgn x)"
| "zcmp [] (y # ys) = (if y = 0 then zcmp [] ys else - sgn y)"
| "zcmp (x # xs) (y # ys) = (if x = y then zcmp xs ys else sgn (x - y))"

lemma zcmp_swap: "zcmp ys xs = - zcmp xs ys"
  by (induction xs ys rule: zcmp.induct) (auto simp: sgn_if)

lemma zcmp_same [simp]: "zcmp xs xs = 0"
  by (induction xs) simp_all

lemma zcmp_prefix: "map order t = map order u \<Longrightarrow> zcmp (map order t @ xs) (map order u @ ys) = zcmp xs ys"
  by (induction t u rule: list_induct2') auto

lemma zcmp_pad: "zcmp [0, 0] ys = zcmp [] ys"
  by (cases ys; cases "tl ys") (auto split: if_splits)

lemma version_seq_step:
  "zcmp (version_seq s) ys = zcmp (map order (takeWhile (\<lambda>c. \<not> isdigit c) s) @
      0 # int (digits_num 10 (takeWhile isdigit (dropWhile (\<lambda>c. \<not> isdigit c) s))) #
      version_seq (dropWhile isdigit (dropWhile (\<lambda>c. \<not> isdigit c) s))) ys"
proof (cases "s = []")
  case True
  then show ?thesis by (simp add: version_seq.simps zcmp_pad)
next
  case False
  then show ?thesis by (subst version_seq.simps) simp
qed

lemma order_zero: "order c = 0 \<longleftrightarrow> isdigit c \<or> c = NUL"
  by (auto simp: order_def isalpha_def isdigit_def ord_c_def)

lemma in_text_Cons: "in_text (c # s) \<longleftrightarrow> \<not> isdigit c" "\<not> in_text []"
  by (simp_all add: in_text_def)

text \<open>Where the text of two versions differs, and where it ends.\<close>

lemma text_loop_spec:
  assumes "NUL \<notin> set val" and "NUL \<notin> set ref"
  defines "t \<equiv> takeWhile (\<lambda>c. \<not> isdigit c)" and "d \<equiv> dropWhile (\<lambda>c. \<not> isdigit c)"
  shows "map order (t val) = map order (t ref) \<and> text_loop val ref = Some (Inr (d val, d ref)) \<or>
    (\<exists>r. text_loop val ref = Some (Inl r) \<and> (\<forall>xs ys. zcmp (map order (t val) @ 0 # xs) (map order (t ref) @ 0 # ys) = sgn r) \<and> r \<noteq> 0)"
  using assms(1,2) unfolding t_def d_def
proof (induction val ref rule: list_induct2')
  case 1
  then show ?case by (simp add: text_loop.simps in_text_Cons)
next
  case (2 v val)
  then show ?case
    by (cases "isdigit v") (auto simp: text_loop.simps in_text_Cons order_zero order_def[of NUL])
next
  case (3 r ref)
  then show ?case
    by (cases "isdigit r") (auto simp: text_loop.simps in_text_Cons order_zero order_def[of NUL])
next
  case (4 v val r ref)
  then have nul: "v \<noteq> NUL" "r \<noteq> NUL" by auto
  show ?case
  proof (cases "order v = order r")
    case True
    then show ?thesis using 4 nul order_zero[of v] order_zero[of r]
      by (cases "isdigit v") (auto simp: text_loop.simps[of "_ # _"] in_text_Cons)
  next
    case False
    then show ?thesis using nul order_zero[of v] order_zero[of r]
      by (cases "isdigit v"; cases "isdigit r") (auto simp: text_loop.simps in_text_Cons)
  qed
qed

text \<open>Numbers: more digits, or the first digit that differs.\<close>

lemma hexval_digit: "isdigit c \<Longrightarrow> the (hexval c) = ord_c c - 48"
  by (auto simp: hexval_def isdigit_def)

lemma digits_num_Cons: "digits_num 10 (c # ds) = the (hexval c) * 10 ^ length ds + digits_num 10 ds"
proof (induction ds rule: rev_induct)
  case Nil
  show ?case by (simp add: digits_num_def)
next
  case (snoc d ds)
  have "digits_num 10 (c # ds @ [d]) = digits_num 10 (c # ds) * 10 + the (hexval d)"
    using digits_num_snoc[of 10 "c # ds" d] by simp
  then show ?case using snoc by (simp add: algebra_simps)
qed

lemma digits_num_less: "\<forall>c \<in> set ds. isdigit c \<Longrightarrow> digits_num 10 ds < 10 ^ length ds"
  by (rule digits_num_bound) simp_all

lemma digits_compare:
  assumes "isdigit c" and "isdigit d" and "c \<noteq> d" and "\<forall>x \<in> set a. isdigit x" and "\<forall>x \<in> set b. isdigit x" and "length a = length b"
  shows "sgn (int (ord_c c) - int (ord_c d)) = sgn (int (digits_num 10 (c # a)) - int (digits_num 10 (d # b)))"
proof -
  have lt: "digits_num 10 (c # a) < digits_num 10 (d # b)"
    if "isdigit c" "isdigit d" "ord_c c < ord_c d" "\<forall>x \<in> set a. isdigit x" "length a = length b" for c d a b
  proof -
    have "the (hexval c) + 1 \<le> the (hexval d)" using that(1-3) hexval_digit by (simp add: isdigit_def)
    then have "(the (hexval c) + 1) * 10 ^ length a \<le> the (hexval d) * 10 ^ length a" by (rule mult_le_mono1)
    then show ?thesis using digits_num_less[OF that(4)] that(5) unfolding digits_num_Cons by simp
  qed
  have "ord_c c \<noteq> ord_c d" using assms(3) ord_c_inject by blast
  then consider "ord_c c < ord_c d" | "ord_c d < ord_c c" by linarith
  then show ?thesis using lt[of c d a b] lt[of d c b a] assms by cases (simp_all add: sgn_if)
qed

lemma digit_loop_equal:
  assumes "length a = length b" and "\<forall>x \<in> set a. isdigit x" and "\<forall>x \<in> set b. isdigit x"
    and "\<not> (isdigit (c_at v 0) \<and> isdigit (c_at r 0))"
  shows "\<exists>fd'. digit_loop fd (a @ v) (b @ r) = (fd', v, r) \<and>
    (if fd \<noteq> 0 then fd' = fd else sgn fd' = sgn (int (digits_num 10 a) - int (digits_num 10 b)))"
  using assms
proof (induction a b arbitrary: fd rule: list_induct2)
  case Nil
  then show ?case by (cases v; cases r) auto
next
  case (Cons x xs y ys)
  let ?fd = "if fd = 0 then int (ord_c x) - int (ord_c y) else fd"
  obtain fd' where fd': "digit_loop ?fd (xs @ v) (ys @ r) = (fd', v, r)"
    "if ?fd \<noteq> 0 then fd' = ?fd else sgn fd' = sgn (int (digits_num 10 xs) - int (digits_num 10 ys))"
    using Cons.IH[of ?fd] Cons.prems by auto
  have "sgn fd' = sgn (int (digits_num 10 (x # xs)) - int (digits_num 10 (y # ys)))" if "fd = 0"
  proof (cases "x = y")
    case True
    then show ?thesis using fd'(2) that Cons.hyps by (simp add: digits_num_Cons)
  next
    case False
    then have "ord_c x \<noteq> ord_c y" using ord_c_inject by blast
    then show ?thesis using fd'(2) that digits_compare[OF _ _ False] Cons by simp
  qed
  then show ?case using fd' Cons.prems by (auto split: if_splits)
qed

lemma digit_loop_ends:
  assumes "digit_loop fd (a @ v) (b @ r) = (fd', v', r')" and "\<forall>x \<in> set a. isdigit x" and "\<forall>x \<in> set b. isdigit x"
    and "\<not> isdigit (c_at v 0)" and "\<not> isdigit (c_at r 0)"
  shows "isdigit (c_at v' 0) \<longleftrightarrow> length b < length a" "isdigit (c_at r' 0) \<longleftrightarrow> length a < length b"
  using assms
proof (induction a b arbitrary: fd rule: list_induct2')
  case 1
  { case 1 then show ?case by (cases v; cases r) auto }
  { case 2 then show ?case by (cases v; cases r) auto }
next
  case (2 x xs)
  { case 1 then show ?case by (cases r) auto }
  { case 2 then show ?case by (cases r) auto }
next
  case (3 y ys)
  { case 1 then show ?case by (cases v) auto }
  { case 2 then show ?case by (cases v) auto }
next
  case (4 x xs y ys)
  { case 1 then show ?case using "4.IH"(1) by auto }
  { case 2 then show ?case using "4.IH"(2) by auto }
qed

lemma longer_number:
  assumes "length b < length a" and "\<forall>x \<in> set a. isdigit x" and "\<forall>x \<in> set b. isdigit x" and "c_at a 0 \<noteq> CHR ''0''"
  shows "digits_num 10 b < digits_num 10 a"
proof -
  obtain c a' where a: "a = c # a'" using assms(1) by (cases a) auto
  have "ord_c (CHR ''0'') = 48" by (simp add: ord_c_def)
  then have "ord_c c \<noteq> 48" using assms(4) a ord_c_inject[of c "CHR ''0''"] by auto
  then have "48 < ord_c c" using assms(2) a by (auto simp: isdigit_def intro: le_neq_implies_less)
  then have "1 \<le> the (hexval c)" using assms(2) a hexval_digit[of c] by simp
  then have "1 * 10 ^ length a' \<le> the (hexval c) * 10 ^ length a'" by (rule mult_le_mono1)
  then have "10 ^ length a' \<le> digits_num 10 a" unfolding a digits_num_Cons by linarith
  moreover have "digits_num 10 b < 10 ^ length b" using digits_num_less[OF assms(3)] .
  moreover have "(10 :: nat) ^ length b \<le> 10 ^ length a'" using assms(1) a by (intro power_increasing) simp_all
  ultimately show ?thesis by linarith
qed

lemma skip_zeros_number:
  "digits_num 10 (takeWhile isdigit (skip_zeros s)) = digits_num 10 (takeWhile isdigit s)"
  "dropWhile isdigit (skip_zeros s) = dropWhile isdigit s" "c_at (takeWhile isdigit (skip_zeros s)) 0 \<noteq> CHR ''0''"
proof (induction s)
  case (Cons c s)
  { case 1 show ?case using Cons(1) by (auto simp: digits_num_Cons hexval_def isdigit_def ord_c_def) }
  { case 2 show ?case using Cons(2) by (auto simp: isdigit_def ord_c_def) }
  { case 3 show ?case using Cons(3) by auto }
qed simp_all

lemma skip_zeros_split: "skip_zeros s = takeWhile isdigit (skip_zeros s) @ dropWhile isdigit s"
  using takeWhile_dropWhile_id[of isdigit "skip_zeros s"] skip_zeros_number(2)[of s] by simp

lemma dropWhile_digit: "\<not> isdigit (c_at (dropWhile isdigit s) 0)"
  by (induction s) auto

lemma version_seq_ends:
  assumes "map order (takeWhile (\<lambda>c. \<not> isdigit c) val) = map order (takeWhile (\<lambda>c. \<not> isdigit c) ref)"
  shows "zcmp (version_seq val) (version_seq ref) =
    zcmp (int (digits_num 10 (takeWhile isdigit (dropWhile (\<lambda>c. \<not> isdigit c) val))) #
        version_seq (dropWhile isdigit (dropWhile (\<lambda>c. \<not> isdigit c) val)))
      (int (digits_num 10 (takeWhile isdigit (dropWhile (\<lambda>c. \<not> isdigit c) ref))) #
        version_seq (dropWhile isdigit (dropWhile (\<lambda>c. \<not> isdigit c) ref)))"
proof -
  let ?f = "\<lambda>s. map order (takeWhile (\<lambda>c. \<not> isdigit c) s) @
      0 # int (digits_num 10 (takeWhile isdigit (dropWhile (\<lambda>c. \<not> isdigit c) s))) #
      version_seq (dropWhile isdigit (dropWhile (\<lambda>c. \<not> isdigit c) s))"
  have "zcmp (version_seq val) (version_seq ref) = zcmp (?f val) (version_seq ref)" by (rule version_seq_step)
  also have "\<dots> = zcmp (?f val) (?f ref)"
    using version_seq_step[of ref "?f val"] zcmp_swap[of "version_seq ref" "?f val"] zcmp_swap[of "?f ref" "?f val"] by simp
  finally show ?thesis using assms zcmp_prefix by simp
qed

lemma set_drop_text: "NUL \<notin> set s \<Longrightarrow> NUL \<notin> set (dropWhile P (dropWhile Q s))"
  by (meson set_dropWhileD)

lemma verrevcmp_seq:
  assumes "NUL \<notin> set val" and "NUL \<notin> set ref"
  shows "\<exists>r. verrevcmp val ref = Some r \<and> sgn r = zcmp (version_seq val) (version_seq ref)"
  using assms
proof (induction val ref rule: verrevcmp.induct)
  case (1 val ref)
  let ?n = "\<lambda>c. \<not> isdigit c"
  let ?v = "dropWhile ?n val" and ?r = "dropWhile ?n ref"
  let ?rec = "\<lambda>fd v' r'. if isdigit (c_at v' 0) then Some 1 else if isdigit (c_at r' 0) then Some (- 1)
    else if fd \<noteq> 0 then Some fd else verrevcmp v' r'"
  show ?case
  proof (cases "val = [] \<and> ref = []")
    case True
    then show ?thesis by (simp add: verrevcmp.simps)
  next
    case False
    show ?thesis
    proof (cases "text_loop val ref = Some (Inr (?v, ?r)) \<and> map order (takeWhile ?n val) = map order (takeWhile ?n ref)")
      case differs: False
      then obtain r where r: "text_loop val ref = Some (Inl r)"
        "\<And>xs ys. zcmp (map order (takeWhile ?n val) @ 0 # xs) (map order (takeWhile ?n ref) @ 0 # ys) = sgn r"
        using text_loop_spec[OF 1(2,3)] by blast
      have "zcmp (version_seq val) (version_seq ref) = sgn r"
        using r(2) version_seq_step[of val "version_seq ref"] version_seq_step[of ref] zcmp_swap by metis
      then show ?thesis using r(1) False by (auto simp: verrevcmp.simps[of val])
    next
      case same: True
      define a where "a = takeWhile isdigit (skip_zeros ?v)"
      define b where "b = takeWhile isdigit (skip_zeros ?r)"
      define v where "v = dropWhile isdigit ?v"
      define r where "r = dropWhile isdigit ?r"
      have ab: "skip_zeros ?v = a @ v" "skip_zeros ?r = b @ r"
        unfolding a_def b_def v_def r_def by (rule skip_zeros_split)+
      have dig: "\<forall>x \<in> set a. isdigit x" "\<forall>x \<in> set b. isdigit x" by (auto simp: a_def b_def dest: set_takeWhileD)
      have ends: "\<not> isdigit (c_at v 0)" "\<not> isdigit (c_at r 0)"
        unfolding v_def r_def by (rule dropWhile_digit)+
      have num: "digits_num 10 (takeWhile isdigit ?v) = digits_num 10 a" "digits_num 10 (takeWhile isdigit ?r) = digits_num 10 b"
        by (simp_all add: a_def b_def skip_zeros_number(1))
      have spec: "zcmp (version_seq val) (version_seq ref) =
          zcmp (int (digits_num 10 a) # version_seq v) (int (digits_num 10 b) # version_seq r)"
        using version_seq_ends same num by (simp add: v_def r_def)
      have step: "verrevcmp val ref = (case digit_loop 0 (a @ v) (b @ r) of (fd, v', r') \<Rightarrow> ?rec fd v' r')"
        unfolding verrevcmp.simps[of val ref] if_not_P[OF False] using same ab by simp
      obtain fd v' r' where d: "digit_loop 0 (a @ v) (b @ r) = (fd, v', r')" by (metis prod_cases3)
      note e = digit_loop_ends[OF d dig ends]
      consider "length a < length b" | "length b < length a" | "length a = length b" by linarith
      then show ?thesis
      proof cases
        case 1
        then have "digits_num 10 a < digits_num 10 b" using longer_number[OF 1 dig(2,1)] skip_zeros_number(3) by (simp add: b_def)
        then show ?thesis using step d e 1 spec by (simp add: sgn_if)
      next
        case 2
        then have "digits_num 10 b < digits_num 10 a" using longer_number[OF 2 dig] skip_zeros_number(3) by (simp add: a_def)
        then show ?thesis using step d e 2 spec by (simp add: sgn_if)
      next
        case 3
        obtain fd' where fd': "digit_loop 0 (a @ v) (b @ r) = (fd', v, r)" "sgn fd' = sgn (int (digits_num 10 a) - int (digits_num 10 b))"
          using digit_loop_equal[OF 3 dig, of v r 0] ends by auto
        have "NUL \<notin> set v" "NUL \<notin> set r" using "1.prems" set_drop_text by (simp_all add: v_def r_def)
        then have IH: "fd' = 0 \<Longrightarrow> \<exists>x. verrevcmp v r = Some x \<and> sgn x = zcmp (version_seq v) (version_seq r)"
          using "1.IH"[OF False conjunct1[OF same] refl refl, of fd' "(v, r)" v r] fd'(1) ends ab by simp
        show ?thesis
        proof (cases "fd' = 0")
          case True
          then have "digits_num 10 a = digits_num 10 b" using fd'(2) by (simp add: sgn_if split: if_splits)
          then show ?thesis using IH[OF True] step fd'(1) True ends spec by simp
        next
          case nz: False
          then have "digits_num 10 a \<noteq> digits_num 10 b" using fd'(2) nz by (auto simp: sgn_eq_0_iff)
          then show ?thesis using step fd' nz ends spec by simp
        qed
      qed
    qed
  qed
qed

section \<open>Packages\<close>

text \<open>A missing string counts as empty.\<close>

definition str_of :: "string option \<Rightarrow> string" where
  "str_of so = (case so of None \<Rightarrow> [] | Some s \<Rightarrow> s)"

definition pkg_compare_versions :: "pkg \<Rightarrow> pkg \<Rightarrow> int option" where
  "pkg_compare_versions p ref_pkg =
     (if p_epoch ref_pkg < p_epoch p then Some 1
      else if p_epoch p < p_epoch ref_pkg then Some (- 1)
      else do {
        r \<leftarrow> verrevcmp (str_of (p_version p)) (str_of (p_version ref_pkg));
        if r \<noteq> 0 then Some r
        else do {
          r \<leftarrow> verrevcmp (str_of (p_revision p)) (str_of (p_revision ref_pkg));
          if r \<noteq> 0 then Some r else Some r } })"

definition pkg_version_satisfied :: "pkg \<Rightarrow> pkg \<Rightarrow> string \<Rightarrow> int option" where
  "pkg_version_satisfied it ref op = do {
     r \<leftarrow> pkg_compare_versions it ref;
     Some (of_bool (
       if op = ''<='' \<or> op = ''<'' then r \<le> 0
       else if op = ''>='' \<or> op = ''>'' then 0 \<le> r
       else if op = ''<<'' then r < 0
       else if op = ''>>'' then 0 < r
       else op = ''='' \<and> r = 0)) }"

text \<open>\<open>%d\<close> prints the epoch, an \<open>unsigned long\<close>, as a signed number.\<close>

definition pkg_version_str_alloc :: "pkg \<Rightarrow> string option" where
  "pkg_version_str_alloc p = do {
     version \<leftarrow> p_version p;
     Some ((if p_epoch p \<noteq> 0 then show_int (sint (p_epoch p)) @ '':'' else []) @ version @
       (if str_of (p_revision p) \<noteq> [] then ''-'' @ str_of (p_revision p) else [])) }"

text \<open>
  The version that is already set is kept, apart from its revision.  The result is the return
  code and the package.
\<close>

definition split_revision :: "string \<Rightarrow> string \<times> string" where
  "split_revision v = (case strrchr v (CHR ''-'') of None \<Rightarrow> (v, []) | Some i \<Rightarrow> (take i v, drop (i + 1) v))"

definition parseVersion :: "pkg \<Rightarrow> string \<Rightarrow> int \<times> pkg" where
  "parseVersion p raw0 =
     (if raw0 = [] then (EINVAL, p)
      else
        let raw1 = (if take 8 raw0 = ''Version:'' then drop 8 raw0 else raw0);
            raw = dropWhile isspace raw1;
            set = (\<lambda>raw p. let (v, r) = split_revision (case p_version p of None \<Rightarrow> raw | Some v \<Rightarrow> v)
                          in (0, p\<lparr>p_version := Some v, p_revision := Some r\<rparr>))
        in (case strchr raw (CHR '':'') of
              None \<Rightarrow> set raw (p\<lparr>p_epoch := 0\<rparr>)
            | Some colon \<Rightarrow>
                let (epoch, k) = strtoul 10 raw in
                if colon \<noteq> k then (EINVAL, p)
                else if drop (colon + 1) raw = [] then (EINVAL, p)
                else set (drop (colon + 1) raw) (p\<lparr>p_epoch := of_int epoch\<rparr>)))"

text \<open>The result of \<open>parseVersion\<close> is not looked at.\<close>

definition version_constraints_satisfied :: "depend \<Rightarrow> pkg \<Rightarrow> bool option" where
  "version_constraints_satisfied d p =
     (if d_constraint d = NONE then Some True
      else do {
        version \<leftarrow> d_version d;
        comparison \<leftarrow> pkg_compare_versions p (snd (parseVersion pkg_init version));
        Some (if d_constraint d = EARLIER \<and> comparison < 0 then True
              else if d_constraint d = LATER \<and> 0 < comparison then True
              else if comparison = 0 then True
              else if d_constraint d = LATER_EQUAL \<and> 0 \<le> comparison then True
              else d_constraint d = EARLIER_EQUAL \<and> comparison \<le> 0) })"

section \<open>A preorder\<close>

text \<open>What callers of a comparison rely on: swapping its arguments, and going on.\<close>

locale comparator =
  fixes cmp :: "'a \<Rightarrow> 'a \<Rightarrow> int"
  assumes swap: "sgn (cmp y x) = - sgn (cmp x y)"
    and trans: "cmp x y \<le> 0 \<Longrightarrow> cmp y z \<le> 0 \<Longrightarrow> cmp x z \<le> 0"
begin

lemma same: "cmp x x = 0"
  using swap[of x x] by (simp add: sgn_if split: if_splits)

lemma swap_zero: "cmp y x = 0 \<longleftrightarrow> cmp x y = 0" "cmp y x \<le> 0 \<longleftrightarrow> 0 \<le> cmp x y" "cmp y x < 0 \<longleftrightarrow> 0 < cmp x y"
  using swap[of x y] by (auto simp: sgn_if split: if_splits)

lemma strict: "cmp x y < 0 \<Longrightarrow> cmp y z \<le> 0 \<Longrightarrow> cmp x z < 0" "cmp x y \<le> 0 \<Longrightarrow> cmp y z < 0 \<Longrightarrow> cmp x z < 0"
proof -
  assume a: "cmp x y < 0" "cmp y z \<le> 0"
  then have "cmp x z \<noteq> 0" using trans[of y z x] swap_zero(1,3)[of x] swap_zero(1)[of z x] by force
  then show "cmp x z < 0" using trans[of x y z] a by simp
next
  assume a: "cmp x y \<le> 0" "cmp y z < 0"
  then have "cmp x z \<noteq> 0" using trans[of z x y] swap_zero(2)[of z y] swap_zero(1)[of z x] by force
  then show "cmp x z < 0" using trans[of x y z] a by simp
qed

lemma equal: "cmp x y = 0 \<Longrightarrow> sgn (cmp x z) = sgn (cmp y z)"
proof -
  assume a: "cmp x y = 0"
  then have b: "cmp y x = 0" using swap_zero(1) by blast
  have le: "cmp x z \<le> 0 \<longleftrightarrow> cmp y z \<le> 0" using trans[of x y z] trans[of y x z] a b by auto
  have "cmp x z < 0 \<longleftrightarrow> cmp y z < 0" using strict(2)[of x y z] strict(2)[of y x z] a b by auto
  with le show ?thesis by (cases "cmp x z" "0 :: int" rule: linorder_cases) (auto simp: sgn_if)
qed

end

lemma comparator_lex:
  assumes "comparator f" and "comparator g"
  shows "comparator (\<lambda>(a, b) (c, d). if f a c \<noteq> 0 then f a c else g b d)"
proof (unfold_locales, goal_cases)
  case (1 y x)
  obtain a b c d where "x = (a, b)" "y = (c, d)" by (metis prod.exhaust)
  then show ?case
    using comparator.swap[OF assms(1), of c a] comparator.swap[OF assms(2), of d b] comparator.swap_zero(1)[OF assms(1), of c a]
    by simp
next
  case (2 x y z)
  obtain a b c d e h where xyz: "x = (a, b)" "y = (c, d)" "z = (e, h)" by (metis prod.exhaust)
  have ac: "f a c \<le> 0" "f a c = 0 \<Longrightarrow> g b d \<le> 0" and ce: "f c e \<le> 0" "f c e = 0 \<Longrightarrow> g d h \<le> 0"
    using 2 xyz by (auto split: if_splits)
  show ?case
  proof (cases "f a c = 0 \<and> f c e = 0")
    case True
    then have "f a e = 0" using comparator.equal[OF assms(1), of a c e] by (simp add: sgn_eq_0_iff)
    then show ?thesis using comparator.trans[OF assms(2)] ac(2) ce(2) True xyz by auto
  next
    case False
    then have "f a e < 0" using comparator.strict[OF assms(1)] ac(1) ce(1) by (metis order.order_iff_strict)
    then show ?thesis using xyz by simp
  qed
qed

definition hd0 :: "int list \<Rightarrow> int" where
  "hd0 xs = (case xs of [] \<Rightarrow> 0 | x # _ \<Rightarrow> x)"

lemma zcmp_hd: "zcmp xs ys = (if hd0 xs = hd0 ys then zcmp (tl xs) (tl ys) else sgn (hd0 xs - hd0 ys))"
  by (cases xs; cases ys) (auto simp: hd0_def sgn_if)

lemma zcmp_trans: "zcmp xs ys \<le> 0 \<Longrightarrow> zcmp ys zs \<le> 0 \<Longrightarrow> zcmp xs zs \<le> 0"
proof (induction "length xs + length ys + length zs" arbitrary: xs ys zs rule: less_induct)
  case less
  show ?case
  proof (cases "xs = [] \<and> ys = [] \<and> zs = []")
    case True
    then show ?thesis by simp
  next
    case False
    have "length (tl xs) + length (tl ys) + length (tl zs) < length xs + length ys + length zs"
      using False by (cases xs; cases ys; cases zs) auto
    from less.hyps[OF this] show ?thesis
      using less.prems zcmp_hd[of xs ys] zcmp_hd[of ys zs] zcmp_hd[of xs zs] by (auto simp: sgn_if split: if_splits)
  qed
qed

interpretation zc: comparator zcmp
proof (unfold_locales, goal_cases)
  case (1 y x)
  show ?case using zcmp_swap[of y x] by (simp add: sgn_minus)
next
  case (2 x y z)
  then show ?case by (rule zcmp_trans)
qed

text \<open>The order of packages.\<close>

definition pkg_key :: "pkg \<Rightarrow> nat \<times> int list \<times> int list" where
  "pkg_key p = (unat (p_epoch p), version_seq (str_of (p_version p)), version_seq (str_of (p_revision p)))"

definition key_cmp :: "nat \<times> int list \<times> int list \<Rightarrow> nat \<times> int list \<times> int list \<Rightarrow> int" where
  "key_cmp = (\<lambda>(e, x) (e', x'). if sgn (int e - int e') \<noteq> 0 then sgn (int e - int e')
     else (\<lambda>(v, r) (v', r'). if zcmp v v' \<noteq> 0 then zcmp v v' else zcmp r r') x x')"

lemma nat_comparator: "comparator (\<lambda>e e'. sgn (int e - int e'))"
  by unfold_locales (auto simp: sgn_if split: if_splits)

interpretation kc: comparator key_cmp
  unfolding key_cmp_def by (intro comparator_lex nat_comparator zc.comparator_axioms)

definition c_version :: "pkg \<Rightarrow> bool" where
  "c_version p \<longleftrightarrow> NUL \<notin> set (str_of (p_version p)) \<and> NUL \<notin> set (str_of (p_revision p))"

lemma compare_key:
  assumes "c_version p" and "c_version q"
  shows "\<exists>r. pkg_compare_versions p q = Some r \<and> sgn r = key_cmp (pkg_key p) (pkg_key q)"
proof -
  obtain v where v: "verrevcmp (str_of (p_version p)) (str_of (p_version q)) = Some v"
    "sgn v = zcmp (version_seq (str_of (p_version p))) (version_seq (str_of (p_version q)))"
    using verrevcmp_seq assms unfolding c_version_def by blast
  obtain r where r: "verrevcmp (str_of (p_revision p)) (str_of (p_revision q)) = Some r"
    "sgn r = zcmp (version_seq (str_of (p_revision p))) (version_seq (str_of (p_revision q)))"
    using verrevcmp_seq assms unfolding c_version_def by blast
  show ?thesis
  proof (cases "p_epoch p" "p_epoch q" rule: linorder_cases)
    case equal
    then show ?thesis using v r by (cases "v = 0") (auto simp: pkg_compare_versions_def key_cmp_def pkg_key_def sgn_if split: if_splits)
  qed (auto simp: pkg_compare_versions_def key_cmp_def pkg_key_def word_less_def sgn_if word_unat_eq_iff[symmetric])
qed

lemma version_constraints_result:
  assumes "c_version p" and "NUL \<notin> set v" and "d_version d = Some v"
  shows "\<exists>c. pkg_compare_versions p (snd (parseVersion pkg_init v)) = Some c \<and>
    version_constraints_satisfied d p = Some (case d_constraint d of
        NONE \<Rightarrow> True | EARLIER \<Rightarrow> c \<le> 0 | EARLIER_EQUAL \<Rightarrow> c \<le> 0 | EQUAL \<Rightarrow> c = 0
      | LATER_EQUAL \<Rightarrow> 0 \<le> c | LATER \<Rightarrow> 0 \<le> c)"
proof -
  have split: "NUL \<notin> set (fst (split_revision w)) \<and> NUL \<notin> set (snd (split_revision w))" if "NUL \<notin> set w" for w
    using that by (auto simp: split_revision_def split: option.split dest: in_set_takeD in_set_dropD)
  have "NUL \<notin> set (dropWhile isspace w)" if "NUL \<notin> set w" for w using that by (meson set_dropWhileD)
  then have "c_version (snd (parseVersion pkg_init v))"
    using assms(2) split by (auto simp: parseVersion_def Let_def c_version_def pkg_init_def str_of_def split_beta dest!: in_set_dropD split: option.splits)
  then obtain c where c: "pkg_compare_versions p (snd (parseVersion pkg_init v)) = Some c" using compare_key[OF assms(1)] by blast
  then show ?thesis using assms(3) by (cases "d_constraint d") (auto simp: version_constraints_satisfied_def)
qed

section \<open>Properties\<close>

text \<open>
  C29. Comparing two version strings always returns, reads neither of them beyond its end, and
  has the sign of comparing them as sequences: the characters of each part without digits by
  their order (a tilde before everything, even the end; letters before other characters), then
  the number behind it by its value whatever zeros it starts with, a version that ends going on as
  zeros.
\<close>

theorem verrevcmp_lexicographic:
  assumes "NUL \<notin> set val" and "NUL \<notin> set ref"
  shows "map_option sgn (verrevcmp val ref) = Some (zcmp (version_seq val) (version_seq ref))"
  using verrevcmp_seq[OF assms] by auto

lemma verrevcmp_lexicographic_witness:
  "map_option sgn (verrevcmp ''1.0~rc1'' ''1.00'') = Some (- 1) \<and> map_option sgn (verrevcmp ''1.10'' ''1.9'') = Some 1"
  using verrevcmp_lexicographic[of "''1.0~rc1''" "''1.00''"] verrevcmp_lexicographic[of "''1.10''" "''1.9''"]
  by (simp add: version_seq.simps order_def isdigit_def isalpha_def ord_c_def digits_num_def hexval_def)

text \<open>
  C30. The comparison of packages by epoch, version and revision is a total preorder: it returns for
  any two packages, swapping the packages swaps the sign, it is transitive, and packages that
  compare equal compare alike with every third one.  So sorting packages with it, and taking the
  latest, means what it says.
\<close>

theorem package_versions_preordered:
  assumes "c_version p" and "c_version q" and "c_version r"
  shows "\<exists>pq qp qr pr. pkg_compare_versions p q = Some pq \<and> pkg_compare_versions q p = Some qp \<and>
    pkg_compare_versions q r = Some qr \<and> pkg_compare_versions p r = Some pr \<and>
    sgn qp = - sgn pq \<and> (pq \<le> 0 \<and> qr \<le> 0 \<longrightarrow> pr \<le> 0) \<and> (pq = 0 \<longrightarrow> sgn pr = sgn qr)"
proof -
  have sgn_le: "x \<le> 0 \<longleftrightarrow> sgn x \<le> 0" for x :: int by (simp add: sgn_if)
  obtain pq qp qr pr where c: "pkg_compare_versions p q = Some pq" "sgn pq = key_cmp (pkg_key p) (pkg_key q)"
    "pkg_compare_versions q p = Some qp" "sgn qp = key_cmp (pkg_key q) (pkg_key p)"
    "pkg_compare_versions q r = Some qr" "sgn qr = key_cmp (pkg_key q) (pkg_key r)"
    "pkg_compare_versions p r = Some pr" "sgn pr = key_cmp (pkg_key p) (pkg_key r)"
    using compare_key assms by meson
  have "sgn qp = - sgn pq" using kc.swap[of "pkg_key q" "pkg_key p"] c(2,4) by (metis sgn_sgn)
  moreover have "pr \<le> 0" if "pq \<le> 0" "qr \<le> 0"
    using kc.trans[of "pkg_key p" "pkg_key q" "pkg_key r"] that unfolding sgn_le[of pq] sgn_le[of qr] sgn_le[of pr] c by blast
  moreover have "sgn pr = sgn qr" if "pq = 0"
    using kc.equal[of "pkg_key p" "pkg_key q" "pkg_key r"] that c by (metis sgn_0 sgn_sgn)
  ultimately show ?thesis using c by blast
qed

definition example_pkg :: "string \<Rightarrow> pkg" where
  "example_pkg v = pkg_init\<lparr>p_version := Some v, p_revision := Some []\<rparr>"

lemma package_versions_preordered_witness:
  "\<exists>pq qp. pkg_compare_versions (example_pkg ''1.0'') (example_pkg ''1.0a'') = Some pq \<and>
     pkg_compare_versions (example_pkg ''1.0a'') (example_pkg ''1.0'') = Some qp \<and> sgn qp = - sgn pq"
  using package_versions_preordered[of "example_pkg ''1.0''" "example_pkg ''1.0a''" "example_pkg ''1.0''"]
  by (auto simp: c_version_def example_pkg_def str_of_def)

text \<open>
  C39. What a constraint on a version accepts: the strict relations accept the version itself,
  so they mean the same as the others.
\<close>

theorem strict_constraints_accept_equal:
  assumes "c_version p" and "NUL \<notin> set v" and "d_version d = Some v"
  shows "\<exists>c. pkg_compare_versions p (snd (parseVersion pkg_init v)) = Some c \<and>
    version_constraints_satisfied d p = Some (case d_constraint d of
        NONE \<Rightarrow> True | EARLIER \<Rightarrow> c \<le> 0 | EARLIER_EQUAL \<Rightarrow> c \<le> 0 | EQUAL \<Rightarrow> c = 0
      | LATER_EQUAL \<Rightarrow> 0 \<le> c | LATER \<Rightarrow> 0 \<le> c)"
  using version_constraints_result[OF assms] .

lemma strict_constraints_accept_equal_witness:
  "version_constraints_satisfied \<lparr>d_constraint = EARLIER, d_version = Some ''1.0'', d_pkg = 0\<rparr> (example_pkg ''1.0'') = Some True"
proof -
  have "c_version (example_pkg ''1.0'')" by (simp add: c_version_def example_pkg_def str_of_def)
  moreover have "snd (parseVersion pkg_init ''1.0'') = example_pkg ''1.0''"
    by (simp add: parseVersion_def pkg_init_def example_pkg_def split_revision_def isspace_def ord_c_def)
  moreover have "pkg_compare_versions (example_pkg ''1.0'') (example_pkg ''1.0'') = Some 0" by code_simp
  ultimately show ?thesis
    using strict_constraints_accept_equal[of "example_pkg ''1.0''" "''1.0''" "\<lparr>d_constraint = EARLIER, d_version = Some ''1.0'', d_pkg = 0\<rparr>"]
    by auto
qed

section \<open>Round trip\<close>

text \<open>
  The versions that are printed so that they are read back: no colon, no hyphen that is not the one
  in front of the revision, no blank in front, and an epoch that \<open>%d\<close> prints as it is.
\<close>

definition plain_version :: "nat \<Rightarrow> string \<Rightarrow> string \<Rightarrow> bool" where
  "plain_version e v r \<longleftrightarrow> e < 2147483648 \<and> v \<noteq> [] \<and> \<not> isspace (c_at v 0) \<and> NUL \<notin> set v \<and> NUL \<notin> set r \<and>
     CHR '':'' \<notin> set v \<and> CHR '':'' \<notin> set r \<and> CHR ''-'' \<notin> set r \<and> (r = [] \<longrightarrow> CHR ''-'' \<notin> set v)"

lemma strrchr_absent: "x \<notin> set s \<Longrightarrow> x \<noteq> NUL \<Longrightarrow> strrchr s x = None"
  by (induction s) auto

lemma strrchr_last: "x \<notin> set r \<Longrightarrow> x \<noteq> NUL \<Longrightarrow> strrchr (v @ x # r) x = Some (length v)"
  by (induction v) (auto simp: strrchr_absent)

lemma strchr_first: "x \<notin> set v \<Longrightarrow> strchr (v @ x # r) x = Some (length v)"
  by (induction v) auto

lemma split_revision_print:
  assumes "CHR ''-'' \<notin> set r" and "r = [] \<longrightarrow> CHR ''-'' \<notin> set v"
  shows "split_revision (v @ (if r \<noteq> [] then ''-'' @ r else [])) = (v, r)"
  using assms strrchr_last[of "CHR ''-''" r v] by (auto simp: split_revision_def strrchr_absent)

lemma parse_without_epoch:
  assumes "p_version q = None" and "s \<noteq> []" and "take 8 s \<noteq> ''Version:''" and "\<not> isspace (c_at s 0)" and "strchr s (CHR '':'') = None"
    and "split_revision s = (v, r)"
  shows "parseVersion q s = (0, q\<lparr>p_epoch := 0, p_version := Some v, p_revision := Some r\<rparr>)"
proof -
  have "dropWhile isspace s = s" using assms(2,4) by (cases s) simp_all
  then show ?thesis unfolding parseVersion_def Let_def using assms(1,2,3,5,6) by simp
qed

lemma parse_with_epoch:
  assumes "p_version q = None" and "s \<noteq> []" and "take 8 s \<noteq> ''Version:''" and "\<not> isspace (c_at s 0)" and "strchr s (CHR '':'') = Some k"
    and "strtoul 10 s = (e, k)" and "drop (k + 1) s = t" and "t \<noteq> []" and "split_revision t = (v, r)"
  shows "parseVersion q s = (0, q\<lparr>p_epoch := of_int e, p_version := Some v, p_revision := Some r\<rparr>)"
proof -
  have "dropWhile isspace s = s" using assms(2,4) by (cases s) simp_all
  then show ?thesis unfolding parseVersion_def Let_def using assms(1,2,3,5-) by simp
qed

text \<open>The string that is printed, with and without the name of the field in front of it.\<close>

lemma version_str_reads:
  assumes "plain_version (unat e) v r" and "p_epoch p = e" and "p_version p = Some v" and "p_revision p = Some r"
    and "p_version q = None"
  shows "\<exists>s. pkg_version_str_alloc p = Some s \<and> s \<noteq> [] \<and> take 8 s \<noteq> ''Version:'' \<and> \<not> isspace (c_at s 0) \<and>
    set s \<subseteq> set v \<union> set r \<union> {CHR ''-'', CHR '':''} \<union> {c. isdigit c} \<and>
    parseVersion q s = (0, q\<lparr>p_epoch := e, p_version := Some v, p_revision := Some r\<rparr>)"
proof -
  define s where "s = v @ (if r \<noteq> [] then ''-'' @ r else [])"
  have s: "s \<noteq> []" "\<not> isspace (c_at s 0)" "CHR '':'' \<notin> set s" "split_revision s = (v, r)"
    using assms(1) split_revision_print[of r v] by (auto simp: plain_version_def s_def c_at_def nth_append split: if_splits)
  show ?thesis
  proof (cases "e = 0")
    case True
    have "take 8 s \<noteq> ''Version:''"
    proof
      assume eq: "take 8 s = ''Version:''"
      have "CHR '':'' \<in> set (take 8 s)" unfolding eq by simp
      then show False using s(3) by (blast dest: in_set_takeD)
    qed
    moreover have "strchr s (CHR '':'') = None" using s(3) strchr_None by simp
    moreover have "pkg_version_str_alloc p = Some s" using True assms(2-4) by (simp add: pkg_version_str_alloc_def str_of_def s_def)
    moreover have "set s \<subseteq> set v \<union> set r \<union> {CHR ''-'', CHR '':''} \<union> {c. isdigit c}" by (auto simp: s_def)
    ultimately show ?thesis using parse_without_epoch[OF assms(5)] s True by blast
  next
    case False
    define n where "n = show_nat (unat e)"
    have n: "n \<noteq> []" "\<forall>x \<in> set n. isdigit x" "digits_num 10 n = unat e" using show_nat_isdigit by (auto simp: n_def show_nat_nonempty)
    then obtain d n' where d: "n = d # n'" "isdigit d" by (cases n) auto
    have "unat e < 2147483648" using assms(1) by (simp add: plain_version_def)
    then have "int (unat e) < 2147483648" by linarith
    then have e: "uint e < 2147483648" by simp
    moreover have "- (2 ^ 31) \<le> uint e" by (rule order_trans[OF _ uint_ge_0]) simp
    ultimately have "sint e = int (unat e)" by (simp add: sint_uint signed_take_bit_int_eq_self)
    then have str: "pkg_version_str_alloc p = Some (n @ '':'' @ s)"
      using False assms(2-4) by (simp add: pkg_version_str_alloc_def str_of_def show_int_def n_def s_def)
    have past: "drop (length n + 1) (n @ '':'' @ s) = s" by (induction n) simp_all
    have "d \<noteq> CHR ''V''" using d(2) by (auto simp: isdigit_def ord_c_def)
    then have "take 8 (n @ '':'' @ s) \<noteq> ''Version:''" by (simp add: d)
    moreover have "CHR '':'' \<notin> set n" using n(2) by (auto simp: isdigit_def ord_c_def)
    then have "strchr (n @ '':'' @ s) (CHR '':'') = Some (length n)" using strchr_first by simp
    moreover have "strtoul 10 (n @ '':'' @ s) = (int (unat e), length n)"
      using strtoul_digits[of n "'':'' @ s"] n e by (simp add: isdigit_def ord_c_def)
    moreover have "\<not> isspace (c_at (n @ '':'' @ s) 0)" using isdigit_not_isspace d by simp
    moreover have "set (n @ '':'' @ s) \<subseteq> set v \<union> set r \<union> {CHR ''-'', CHR '':''} \<union> {c. isdigit c}" using n(2) by (auto simp: s_def)
    ultimately have "take 8 (n @ '':'' @ s) \<noteq> ''Version:'' \<and> \<not> isspace (c_at (n @ '':'' @ s) 0) \<and>
      set (n @ '':'' @ s) \<subseteq> set v \<union> set r \<union> {CHR ''-'', CHR '':''} \<union> {c. isdigit c} \<and> parseVersion q (n @ '':'' @ s) =
        (0, q\<lparr>p_epoch := of_int (int (unat e)), p_version := Some v, p_revision := Some r\<rparr>)"
      using s by (intro conjI parse_with_epoch[OF assms(5) _ _ _ _ _ past]) (simp_all add: n(1))
    then show ?thesis using str by simp
  qed
qed

text \<open>
  C31. The version string that is printed for a package (the epoch and a colon if it is not 0, the version, a hyphen and the
  revision if there is one) is read back as the same epoch, version and revision, when these are of a kind
  that can be told apart (\<open>plain_version\<close>): the version not empty and without white space in front, no colon in version or revision,
  no hyphen in the revision, nor in the version if the revision is empty, no NUL, and an epoch below 2147483648.
\<close>

theorem version_reads_back:
  assumes "plain_version (unat e) v r" and "p_epoch p = e" and "p_version p = Some v" and "p_revision p = Some r"
  shows "\<exists>s. pkg_version_str_alloc p = Some s \<and>
    parseVersion pkg_init s = (0, pkg_init\<lparr>p_epoch := e, p_version := Some v, p_revision := Some r\<rparr>)"
  using version_str_reads[OF assms, of pkg_init] by (auto simp: pkg_init_def)

lemma version_reads_back_witness:
  "pkg_version_str_alloc (pkg_init\<lparr>p_epoch := 2, p_version := Some ''1.0~rc1'', p_revision := Some ''r3''\<rparr>) = Some ''2:1.0~rc1-r3'' \<and>
   parseVersion pkg_init ''2:1.0~rc1-r3'' = (0, pkg_init\<lparr>p_epoch := 2, p_version := Some ''1.0~rc1'', p_revision := Some ''r3''\<rparr>)"
proof -
  have "plain_version (unat (2 :: u32)) ''1.0~rc1'' ''r3''" by (simp add: plain_version_def isspace_def ord_c_def)
  moreover have "pkg_version_str_alloc (pkg_init\<lparr>p_epoch := 2, p_version := Some ''1.0~rc1'', p_revision := Some ''r3''\<rparr>) = Some ''2:1.0~rc1-r3''"
    by code_simp
  ultimately show ?thesis
    using version_reads_back[of 2 "''1.0~rc1''" "''r3''" "pkg_init\<lparr>p_epoch := 2, p_version := Some ''1.0~rc1'', p_revision := Some ''r3''\<rparr>"]
    by (simp add: pkg_init_def)
qed

end
