(* ===== verification/OpkgHash.thy ===== *)
theory OpkgHash
  imports Opkg OpCache
begin

text \<open>
  The hash table of the package manager (\<open>opkg/libopkg/hash_table.c\<close>): buckets with a first entry
  in the array and a chain behind it, keyed by strings.  It is shown to refine a finite map, which
  is what the package store and the file owners use it for; the interface is the locale
  \<open>name_dict\<close>, which adds removal to \<open>name_store\<close>.
\<close>

unbundle bit_operations_syntax

section \<open>Data\<close>

text \<open>
  The first entry of a bucket is part of the array and has no key while it is unused; the entries
  of the chain always have one.  The array is empty when \<open>entries\<close> is null.
\<close>

record 'v bucket =
  b_head :: "(string \<times> 'v) option"
  b_chain :: "(string \<times> 'v) list"

record 'v hash_table =
  ht_name :: string
  ht_entries :: "'v bucket list"
  ht_n_elements :: int

definition empty_bucket :: "'v bucket" where
  "empty_bucket = \<lparr>b_head = None, b_chain = []\<rparr>"

text \<open>The entries with a key, in the order they are walked.\<close>

definition hash_entries :: "'v bucket \<Rightarrow> (string \<times> 'v) list" where
  "hash_entries b = (case b_head b of None \<Rightarrow> [] | Some e \<Rightarrow> [e]) @ b_chain b"

section \<open>Operations\<close>

text \<open>The \<open>char\<close> of the target is unsigned.\<close>

definition rotating_step :: "char \<Rightarrow> u32 \<Rightarrow> u32" where
  "rotating_step c hash = push_bit 4 hash XOR drop_bit 28 hash XOR of_nat (ord_c c)"

definition rotating :: "string \<Rightarrow> nat \<Rightarrow> nat \<Rightarrow> nat" where
  "rotating key len prime = unat (fold rotating_step (take len key) (of_nat len)) mod prime"

definition hash_index :: "'v hash_table \<Rightarrow> string \<Rightarrow> nat" where
  "hash_index hash pkg_name = rotating pkg_name (length pkg_name) (length (ht_entries hash))"

definition primes_table :: "int list" where
  "primes_table = [379, 761, 983, 1423, 2711, 3361, 3931, 4679, 5519, 6701, 9587,
     19471, 23143, 33961, 46499, 49727, 99529]"

text \<open>How far \<open>picker\<close> has moved when its loop ends: past the prime that is large enough, or to the zero.\<close>

fun picker :: "int list \<Rightarrow> int \<Rightarrow> nat" where
  "picker [] len = 0"
| "picker (p # ps) len = (if p < len then Suc (picker ps len) else 1)"

text \<open>
  The second result tells whether the warning that the table of primes is too small is printed;
  \<open>alloc\<close> whether \<open>calloc\<close> succeeds.
\<close>

definition hash_table_init :: "bool \<Rightarrow> string \<Rightarrow> 'v hash_table \<Rightarrow> int \<Rightarrow> int \<times> bool \<times> 'v hash_table" where
  "hash_table_init alloc name hash len =
     (if ht_entries hash \<noteq> [] then (0, False, hash)
      else
        let i = picker primes_table len;
            warn = (i = length primes_table);
            n = nat (primes_table ! (i - 1))
        in if \<not> alloc then (ENOMEM, warn, hash\<lparr>ht_name := name\<rparr>)
           else (0, warn, hash\<lparr>ht_name := name, ht_entries := replicate n empty_bucket\<rparr>))"

definition hash_table_deinit :: "'v hash_table \<Rightarrow> 'v hash_table" where
  "hash_table_deinit hash = hash\<lparr>ht_entries := []\<rparr>"

text \<open>Without buckets the index is a division by zero.\<close>

definition hash_table_get :: "'v hash_table \<Rightarrow> string \<Rightarrow> 'v option option" where
  "hash_table_get hash key =
     (if ht_entries hash = [] then None
      else Some (case find (\<lambda>(k, _). key = k) (hash_entries (ht_entries hash ! hash_index hash key)) of
          Some (_, d) \<Rightarrow> Some d | None \<Rightarrow> None))"

text \<open>The new chain and whether an entry was added to it.\<close>

fun chain_put :: "string \<Rightarrow> 'v \<Rightarrow> (string \<times> 'v) list \<Rightarrow> (string \<times> 'v) list \<times> bool" where
  "chain_put key v [] = ([(key, v)], True)"
| "chain_put key v ((k, d) # rest) =
     (if k = key then ((k, v) # rest, False)
      else let (rest', new) = chain_put key v rest in ((k, d) # rest', new))"

definition bucket_put :: "string \<Rightarrow> 'v \<Rightarrow> 'v bucket \<Rightarrow> 'v bucket \<times> bool" where
  "bucket_put key v b =
     (case b_head b of
        None \<Rightarrow> (b\<lparr>b_head := Some (key, v)\<rparr>, True)
      | Some (k, d) \<Rightarrow>
          if k = key then (b\<lparr>b_head := Some (k, v)\<rparr>, False)
          else let (chain, new) = chain_put key v (b_chain b) in (b\<lparr>b_chain := chain\<rparr>, new))"

text \<open>The entry that a chain needs is the only one allocated.\<close>

definition hash_table_insert :: "bool \<Rightarrow> 'v hash_table \<Rightarrow> string \<Rightarrow> 'v \<Rightarrow> (int \<times> 'v hash_table) option" where
  "hash_table_insert alloc hash key v =
     (if ht_entries hash = [] then None
      else
        let ndx = hash_index hash key;
            old = ht_entries hash ! ndx;
            (b, new) = bucket_put key v old
        in if \<not> alloc \<and> new \<and> b_head old \<noteq> None then Some (- ENOMEM, hash)
           else Some (0, hash\<lparr>ht_entries := (ht_entries hash)[ndx := b],
                              ht_n_elements := ht_n_elements hash + (if new then 1 else 0)\<rparr>))"

fun chain_remove :: "string \<Rightarrow> (string \<times> 'v) list \<Rightarrow> (string \<times> 'v) list \<times> bool" where
  "chain_remove key [] = ([], False)"
| "chain_remove key ((k, d) # rest) =
     (if key = k then (rest, True)
      else let (rest', found) = chain_remove key rest in ((k, d) # rest', found))"

text \<open>Removing the first entry moves the next one into the array.\<close>

definition bucket_remove :: "string \<Rightarrow> 'v bucket \<Rightarrow> 'v bucket \<times> bool" where
  "bucket_remove key b =
     (if (case b_head b of Some (k, _) \<Rightarrow> key = k | None \<Rightarrow> False)
      then (case b_chain b of
              [] \<Rightarrow> (empty_bucket, True)
            | e # rest \<Rightarrow> (\<lparr>b_head = Some e, b_chain = rest\<rparr>, True))
      else let (chain, found) = chain_remove key (b_chain b) in (b\<lparr>b_chain := chain\<rparr>, found))"

text \<open>The number of elements is left as it is.\<close>

definition hash_table_remove :: "'v hash_table \<Rightarrow> string \<Rightarrow> (int \<times> 'v hash_table) option" where
  "hash_table_remove hash key =
     (if ht_entries hash = [] then None
      else
        let ndx = hash_index hash key;
            (b, found) = bucket_remove key (ht_entries hash ! ndx)
        in Some (if found then 1 else 0, hash\<lparr>ht_entries := (ht_entries hash)[ndx := b]\<rparr>))"

definition hash_table_foreach :: "'v hash_table \<Rightarrow> (string \<Rightarrow> 'v \<Rightarrow> 's \<Rightarrow> 's) \<Rightarrow> 's \<Rightarrow> 's" where
  "hash_table_foreach hash f data = fold (\<lambda>b. fold (\<lambda>(k, d). f k d) (hash_entries b)) (ht_entries hash) data"

section \<open>The interface\<close>

locale name_dict = name_store inv key look put
  for inv :: "'s \<Rightarrow> bool" and key :: "'v \<Rightarrow> 'k" and look :: "'s \<Rightarrow> 'k \<Rightarrow> 'v option" and put :: "'s \<Rightarrow> 'v \<Rightarrow> 's" +
  fixes del :: "'s \<Rightarrow> 'k \<Rightarrow> 's"
  assumes inv_del: "inv s \<Longrightarrow> inv (del s k)"
    and look_del: "inv s \<Longrightarrow> look (del s k) k' = (if k' = k then None else look s k')"
begin

lemma look_del_put: "inv s \<Longrightarrow> look (del (put s v) (key v)) = look (del s (key v))"
  by (auto simp: look_del look_put inv_put fun_eq_iff)

lemma look_put_del: "inv s \<Longrightarrow> look (put (del s (key v)) v) = look (put s v)"
  by (auto simp: look_del look_put inv_del fun_eq_iff)

end

section \<open>Buckets\<close>

definition bucket_ok :: "'v bucket \<Rightarrow> bool" where
  "bucket_ok b \<longleftrightarrow> distinct (map fst (hash_entries b)) \<and> (b_head b = None \<longrightarrow> b_chain b = [])"

lemma find_map_of: "(case find (\<lambda>(k, _). key = k) es of Some (_, d) \<Rightarrow> Some d | None \<Rightarrow> None) = map_of es key"
  by (induction es) auto

lemma keys_map_of: "k \<in> fst ` set es \<longleftrightarrow> map_of es k \<noteq> None"
  by (simp add: map_of_eq_None_iff)

lemma chain_put_spec:
  "chain_put key v es = (es', new) \<Longrightarrow> distinct (map fst es) \<Longrightarrow>
    distinct (map fst es') \<and> map_of es' = (map_of es)(key \<mapsto> v) \<and> (new \<longleftrightarrow> map_of es key = None)"
proof (induction es arbitrary: es' new)
  case (Cons e es)
  obtain k d where e: "e = (k, d)" by (cases e)
  show ?case
  proof (cases "k = key")
    case False
    obtain es1 where es1: "chain_put key v es = (es1, new)" "es' = (k, d) # es1"
      using Cons.prems(1) False by (auto simp: e split: prod.splits)
    have IH: "distinct (map fst es1)" "map_of es1 = (map_of es)(key \<mapsto> v)" "new \<longleftrightarrow> map_of es key = None"
      using Cons.IH[OF es1(1)] Cons.prems(2) by (auto simp: e)
    have "map_of es k = None" using Cons.prems(2) by (simp add: e map_of_eq_None_iff)
    then have "k \<notin> fst ` set es1" unfolding map_of_eq_None_iff[symmetric] using IH(2) False by simp
    then show ?thesis using IH False es1(2) by (auto simp: e fun_eq_iff)
  qed (use Cons.prems in \<open>auto simp: e\<close>)
qed simp

lemma chain_remove_spec:
  "chain_remove key es = (es', found) \<Longrightarrow> distinct (map fst es) \<Longrightarrow>
    distinct (map fst es') \<and> map_of es' = (map_of es)(key := None) \<and> (found \<longleftrightarrow> map_of es key \<noteq> None)"
proof (induction es arbitrary: es' found)
  case (Cons e es)
  obtain k d where e: "e = (k, d)" by (cases e)
  have k: "map_of es k = None" using Cons.prems(2) by (simp add: e map_of_eq_None_iff)
  show ?case
  proof (cases "key = k")
    case True
    then show ?thesis using Cons.prems k by (auto simp: e fun_eq_iff)
  next
    case False
    obtain es1 where es1: "chain_remove key es = (es1, found)" "es' = (k, d) # es1"
      using Cons.prems(1) False by (auto simp: e split: prod.splits)
    have IH: "distinct (map fst es1)" "map_of es1 = (map_of es)(key := None)" "found \<longleftrightarrow> map_of es key \<noteq> None"
      using Cons.IH[OF es1(1)] Cons.prems(2) by (auto simp: e)
    then have "k \<notin> fst ` set es1" unfolding map_of_eq_None_iff[symmetric] using k by simp
    then show ?thesis using IH False es1(2) by (auto simp: e fun_eq_iff)
  qed
qed simp

lemma bucket_put_spec:
  assumes "bucket_put key v b = (b', new)" and "bucket_ok b"
  shows "bucket_ok b' \<and> map_of (hash_entries b') = (map_of (hash_entries b))(key \<mapsto> v) \<and>
    (new \<longleftrightarrow> map_of (hash_entries b) key = None)"
proof (cases "b_head b")
  case None
  then show ?thesis using assms by (simp add: bucket_put_def bucket_ok_def hash_entries_def) (auto simp: bucket_ok_def hash_entries_def)
next
  case (Some e)
  obtain k d where e: "e = (k, d)" by (cases e)
  have d: "distinct (map fst (b_chain b))" and k: "map_of (b_chain b) k = None"
    using assms(2) Some by (simp_all add: bucket_ok_def hash_entries_def e map_of_eq_None_iff)
  show ?thesis
  proof (cases "k = key")
    case False
    obtain c n where c: "chain_put key v (b_chain b) = (c, n)" by (cases "chain_put key v (b_chain b)")
    note spec = chain_put_spec[OF c d]
    have b': "b' = b\<lparr>b_chain := c\<rparr>" "new = n" using assms(1) Some False c by (simp_all add: bucket_put_def e)
    have "k \<notin> fst ` set c" unfolding map_of_eq_None_iff[symmetric] using spec k False by simp
    then show ?thesis using spec Some False by (simp add: b' bucket_ok_def hash_entries_def e fun_upd_twist)
  next
    case True
    then have "b' = b\<lparr>b_head := Some (key, v)\<rparr>" "\<not> new" using assms(1) Some by (simp_all add: bucket_put_def e)
    then show ?thesis using True d k Some by (simp add: bucket_ok_def hash_entries_def e map_of_eq_None_iff)
  qed
qed

lemma bucket_remove_spec:
  assumes "bucket_remove key b = (b', found)" and "bucket_ok b"
  shows "bucket_ok b' \<and> map_of (hash_entries b') = (map_of (hash_entries b))(key := None) \<and>
    (found \<longleftrightarrow> map_of (hash_entries b) key \<noteq> None)"
proof (cases "b_head b")
  case None
  then have "b' = b" "\<not> found" "hash_entries b = []" using assms by (auto simp: bucket_remove_def bucket_ok_def hash_entries_def)
  then show ?thesis using assms(2) by (simp add: fun_eq_iff)
next
  case (Some e)
  obtain k v where e: "e = (k, v)" by (cases e)
  have d: "distinct (map fst (b_chain b))" and k: "map_of (b_chain b) k = None"
    using assms(2) Some by (simp_all add: bucket_ok_def hash_entries_def e map_of_eq_None_iff)
  show ?thesis
  proof (cases "key = k")
    case False
    obtain c f where c: "chain_remove key (b_chain b) = (c, f)" by (cases "chain_remove key (b_chain b)")
    note spec = chain_remove_spec[OF c d]
    have b': "b' = b\<lparr>b_chain := c\<rparr>" "found = f" using assms(1) Some False c by (simp_all add: bucket_remove_def e)
    have "k \<notin> fst ` set c" unfolding map_of_eq_None_iff[symmetric] using spec k False by simp
    then show ?thesis using spec Some False by (simp add: b' bucket_ok_def hash_entries_def e fun_upd_twist)
  next
    case True
    have "hash_entries b' = b_chain b" "found" "b_head b' = None \<longrightarrow> b_chain b' = []"
      using assms(1) Some True by (auto simp: bucket_remove_def hash_entries_def e empty_bucket_def split: list.splits)
    moreover have "hash_entries b = (k, v) # b_chain b" using Some by (simp add: hash_entries_def e)
    ultimately show ?thesis using True d k by (auto simp: bucket_ok_def fun_eq_iff)
  qed
qed

section \<open>The table as a map\<close>

text \<open>
  \<open>hash_map\<close> reads the table without hashing: the entries of all the buckets.  The invariant
  says that a key is only in the bucket it hashes to.
\<close>

definition hash_map :: "'v hash_table \<Rightarrow> string \<Rightarrow> 'v option" where
  "hash_map hash = map_of (concat (map hash_entries (ht_entries hash)))"

definition hash_ok :: "'v hash_table \<Rightarrow> bool" where
  "hash_ok hash \<longleftrightarrow> ht_entries hash \<noteq> [] \<and>
     (\<forall>i < length (ht_entries hash). bucket_ok (ht_entries hash ! i) \<and>
        (\<forall>e \<in> set (hash_entries (ht_entries hash ! i)). hash_index hash (fst e) = i))"

lemma hash_index_less: "ht_entries hash \<noteq> [] \<Longrightarrow> hash_index hash key < length (ht_entries hash)"
  by (simp add: hash_index_def rotating_def)

lemma hash_index_cong: "length (ht_entries h) = length (ht_entries h') \<Longrightarrow> hash_index h = hash_index h'"
  by (simp add: hash_index_def fun_eq_iff)

lemma hash_ok_index:
  "hash_ok hash \<Longrightarrow> i < length (ht_entries hash) \<Longrightarrow> key \<in> fst ` set (hash_entries (ht_entries hash ! i)) \<Longrightarrow> hash_index hash key = i"
  unfolding hash_ok_def by fastforce

lemma map_of_concat_None: "(\<And>b. b \<in> set bs \<Longrightarrow> key \<notin> fst ` set (f b)) \<Longrightarrow> map_of (concat (map f bs)) key = None"
  unfolding map_of_eq_None_iff by auto

lemma map_of_concat_at:
  "i < length bs \<Longrightarrow> (\<And>j. j < length bs \<Longrightarrow> j \<noteq> i \<Longrightarrow> key \<notin> fst ` set (f (bs ! j))) \<Longrightarrow>
    map_of (concat (map f bs)) key = map_of (f (bs ! i)) key"
proof (induction bs arbitrary: i)
  case (Cons b bs)
  show ?case
  proof (cases i)
    case 0
    have "map_of (concat (map f bs)) key = None"
    proof (rule map_of_concat_None)
      fix c assume "c \<in> set bs"
      then obtain j where "j < length bs" "c = bs ! j" by (auto simp: in_set_conv_nth)
      then show "key \<notin> fst ` set (f c)" using Cons.prems(2)[of "Suc j"] 0 by simp
    qed
    then show ?thesis using 0 by (simp add: map_add_def split: option.split)
  next
    case (Suc k)
    have "map_of (f b) key = None" using Cons.prems(2)[of 0] Suc by (simp add: map_of_eq_None_iff)
    moreover have "map_of (concat (map f bs)) key = map_of (f (bs ! k)) key"
      using Cons.prems(1) Cons.prems(2)[of "Suc j" for j] Suc by (intro Cons.IH) auto
    ultimately show ?thesis using Suc by (simp add: map_add_def split: option.split)
  qed
qed simp

lemma hash_map_at:
  assumes "hash_ok hash"
  shows "hash_map hash key = map_of (hash_entries (ht_entries hash ! hash_index hash key)) key"
  unfolding hash_map_def
proof (rule map_of_concat_at)
  show "hash_index hash key < length (ht_entries hash)" using assms hash_index_less by (auto simp: hash_ok_def)
  show "key \<notin> fst ` set (hash_entries (ht_entries hash ! j))" if "j < length (ht_entries hash)" "j \<noteq> hash_index hash key" for j
    using hash_ok_index[OF assms that(1)] that(2) by blast
qed

lemma get_hash_map: "hash_ok hash \<Longrightarrow> hash_table_get hash key = Some (hash_map hash key)"
  by (simp add: hash_table_get_def find_map_of hash_map_at) (simp add: hash_ok_def)

text \<open>Replacing the bucket of a key changes the map as the bucket changes, when it changes at that key only.\<close>

lemma hash_update_ok:
  assumes "hash_ok hash" and "bucket_ok b" and "map_of (hash_entries b) = (map_of (hash_entries (ht_entries hash ! hash_index hash key)))(key := v)"
    and "ht_entries hash' = (ht_entries hash)[hash_index hash key := b]"
  shows "hash_ok hash' \<and> hash_map hash' = (hash_map hash)(key := v)"
proof -
  let ?i = "hash_index hash key"
  have i: "?i < length (ht_entries hash)" using assms(1) hash_index_less by (auto simp: hash_ok_def)
  have idx: "hash_index hash' = hash_index hash" by (rule hash_index_cong) (simp add: assms(4))
  have in_bucket: "hash_index hash (fst e) = ?i" if "e \<in> set (hash_entries b)" for e
  proof (cases "fst e = key")
    case False
    have "map_of (hash_entries b) (fst e) \<noteq> None" using that by (auto simp: map_of_eq_None_iff)
    then have "fst e \<in> fst ` set (hash_entries (ht_entries hash ! ?i))" using False assms(3) by (simp add: keys_map_of)
    then show ?thesis by (rule hash_ok_index[OF assms(1) i])
  qed simp
  have ok: "hash_ok hash'" unfolding hash_ok_def idx using assms(1,2,4) in_bucket i
    by (auto simp: hash_ok_def nth_list_update)
  have "hash_map hash' k = ((hash_map hash)(key := v)) k" for k
    using i by (simp add: hash_map_at[OF ok] hash_map_at[OF assms(1)] idx assms(3,4) nth_list_update)
  then show ?thesis using ok by blast
qed

lemma insert_hash_map:
  assumes "hash_ok hash"
  shows "\<exists>hash'. hash_table_insert True hash key v = Some (0, hash') \<and> hash_ok hash' \<and>
    hash_map hash' = (hash_map hash)(key \<mapsto> v) \<and>
    ht_n_elements hash' = ht_n_elements hash + (if hash_map hash key = None then 1 else 0)"
proof -
  let ?i = "hash_index hash key"
  obtain b new where b: "bucket_put key v (ht_entries hash ! ?i) = (b, new)" by (cases "bucket_put key v (ht_entries hash ! ?i)")
  have i: "?i < length (ht_entries hash)" using assms hash_index_less by (auto simp: hash_ok_def)
  have "bucket_ok (ht_entries hash ! ?i)" using assms i by (simp add: hash_ok_def)
  note spec = bucket_put_spec[OF b this]
  let ?h = "hash\<lparr>ht_entries := (ht_entries hash)[?i := b], ht_n_elements := ht_n_elements hash + (if new then 1 else 0)\<rparr>"
  have "hash_ok ?h \<and> hash_map ?h = (hash_map hash)(key \<mapsto> v)"
    by (rule hash_update_ok[OF assms]) (use spec in simp_all)
  moreover have "hash_table_insert True hash key v = Some (0, ?h)"
    using assms b by (simp add: hash_table_insert_def hash_ok_def Let_def)
  moreover have "new \<longleftrightarrow> hash_map hash key = None" using spec by (simp add: hash_map_at[OF assms])
  ultimately show ?thesis by auto
qed

lemma remove_hash_map:
  assumes "hash_ok hash"
  shows "\<exists>hash'. hash_table_remove hash key = Some (if hash_map hash key = None then 0 else 1, hash') \<and> hash_ok hash' \<and>
    hash_map hash' = (hash_map hash)(key := None) \<and> ht_n_elements hash' = ht_n_elements hash"
proof -
  let ?i = "hash_index hash key"
  obtain b found where b: "bucket_remove key (ht_entries hash ! ?i) = (b, found)" by (cases "bucket_remove key (ht_entries hash ! ?i)")
  have i: "?i < length (ht_entries hash)" using assms hash_index_less by (auto simp: hash_ok_def)
  have "bucket_ok (ht_entries hash ! ?i)" using assms i by (simp add: hash_ok_def)
  note spec = bucket_remove_spec[OF b this]
  let ?h = "hash\<lparr>ht_entries := (ht_entries hash)[?i := b]\<rparr>"
  have "hash_ok ?h \<and> hash_map ?h = (hash_map hash)(key := None)"
    by (rule hash_update_ok[OF assms]) (use spec in simp_all)
  moreover have "found \<longleftrightarrow> hash_map hash key \<noteq> None" using spec by (simp add: hash_map_at[OF assms])
  moreover have "hash_table_remove hash key = Some (if found then 1 else 0, ?h)"
    using assms b by (simp add: hash_table_remove_def hash_ok_def Let_def)
  ultimately show ?thesis by auto
qed

text \<open>The table as a dictionary of entries, with the results of the operations left out.\<close>

definition hash_look :: "'v hash_table \<Rightarrow> string \<Rightarrow> (string \<times> 'v) option" where
  "hash_look hash key = map_option (Pair key) (the (hash_table_get hash key))"

definition hash_put :: "'v hash_table \<Rightarrow> string \<times> 'v \<Rightarrow> 'v hash_table" where
  "hash_put hash e = snd (the (hash_table_insert True hash (fst e) (snd e)))"

definition hash_del :: "'v hash_table \<Rightarrow> string \<Rightarrow> 'v hash_table" where
  "hash_del hash key = snd (the (hash_table_remove hash key))"

interpretation hash: name_dict hash_ok fst hash_look hash_put hash_del
proof
  fix h :: "'v hash_table" and e :: "string \<times> 'v" and k k' :: string
  assume h: "hash_ok h"
  obtain i where i: "hash_table_insert True h (fst e) (snd e) = Some (0, i)" "hash_ok i" "hash_map i = (hash_map h)(fst e \<mapsto> snd e)"
    using insert_hash_map[OF h] by blast
  obtain d n where d: "hash_table_remove h k = Some (n, d)" "hash_ok d" "hash_map d = (hash_map h)(k := None)"
    using remove_hash_map[OF h] by blast
  show "hash_ok (hash_put h e)" using i by (simp add: hash_put_def)
  show "hash_ok (hash_del h k)" using d by (simp add: hash_del_def)
  show "hash_look (hash_put h e) k = (if k = fst e then Some e else hash_look h k)"
    using i by (simp add: hash_put_def hash_look_def get_hash_map h)
  show "hash_look (hash_del h k) k' = (if k' = k then None else hash_look h k')"
    using d by (simp add: hash_del_def hash_look_def get_hash_map h)
qed

text \<open>What \<open>foreach\<close> visits.\<close>

definition hash_visits :: "'v hash_table \<Rightarrow> (string \<times> 'v) list" where
  "hash_visits hash = hash_table_foreach hash (\<lambda>k d visited. visited @ [(k, d)]) []"

lemma fold_concat: "fold (\<lambda>b. fold f (g b)) bs s = fold f (concat (map g bs)) s"
  by (induction bs arbitrary: s) auto

lemma hash_visits_entries: "hash_visits hash = concat (map hash_entries (ht_entries hash))"
proof -
  have "fold (\<lambda>(k, d) visited. visited @ [(k, d)]) es acc = acc @ es" for es acc :: "(string \<times> 'a) list"
    by (induction es arbitrary: acc) auto
  then show ?thesis unfolding hash_visits_def hash_table_foreach_def fold_concat by simp
qed

lemma hash_table_foreach_fold: "hash_table_foreach hash f s = fold (\<lambda>(k, d). f k d) (hash_visits hash) s"
  unfolding hash_visits_entries hash_table_foreach_def fold_concat ..

lemma distinct_concat_keys:
  "(\<And>i. i < length bs \<Longrightarrow> distinct (map fst (f (bs ! i)))) \<Longrightarrow>
   (\<And>i j. i < j \<Longrightarrow> j < length bs \<Longrightarrow> fst ` set (f (bs ! i)) \<inter> fst ` set (f (bs ! j)) = {}) \<Longrightarrow>
   distinct (map fst (concat (map f bs)))"
proof (induction bs)
  case (Cons b bs)
  have "distinct (map fst (concat (map f bs)))"
  proof (rule Cons.IH)
    show "distinct (map fst (f (bs ! i)))" if "i < length bs" for i using Cons.prems(1)[of "Suc i"] that by simp
    show "fst ` set (f (bs ! i)) \<inter> fst ` set (f (bs ! j)) = {}" if "i < j" "j < length bs" for i j
      using Cons.prems(2)[of "Suc i" "Suc j"] that by simp
  qed
  moreover have "distinct (map fst (f b))" using Cons.prems(1)[of 0] by simp
  moreover have "fst ` set (f b) \<inter> fst ` set (f c) = {}" if c: "c \<in> set bs" for c
  proof -
    obtain j where "j < length bs" "c = bs ! j" using c by (auto simp: in_set_conv_nth)
    then show ?thesis using Cons.prems(2)[of 0 "Suc j"] by simp
  qed
  ultimately show ?case by simp blast
qed simp

lemma hash_visits_once:
  assumes "hash_ok hash"
  shows "distinct (map fst (hash_visits hash)) \<and> map_of (hash_visits hash) = hash_map hash"
  unfolding hash_visits_entries hash_map_def
proof (intro conjI distinct_concat_keys refl)
  show "distinct (map fst (hash_entries (ht_entries hash ! i)))" if "i < length (ht_entries hash)" for i
    using assms that by (simp add: hash_ok_def bucket_ok_def)
  show "fst ` set (hash_entries (ht_entries hash ! i)) \<inter> fst ` set (hash_entries (ht_entries hash ! j)) = {}"
    if "i < j" "j < length (ht_entries hash)" for i j
  proof (rule equals0I, elim IntE)
    fix key
    assume key: "key \<in> fst ` set (hash_entries (ht_entries hash ! i))" "key \<in> fst ` set (hash_entries (ht_entries hash ! j))"
    have "hash_index hash key = i" using that by (intro hash_ok_index[OF assms _ key(1)]) simp
    moreover have "hash_index hash key = j" using that by (intro hash_ok_index[OF assms _ key(2)])
    ultimately show False using that by simp
  qed
qed

section \<open>The initial table\<close>

lemma picker_bounds: "picker ps len \<le> length ps \<and> (ps \<noteq> [] \<longrightarrow> 0 < picker ps len)"
  by (induction ps len rule: picker.induct) auto

lemma hash_table_init_ok:
  assumes "ht_entries h = []"
  shows "\<exists>warn h'. hash_table_init True name h len = (0, warn, h') \<and> hash_ok h' \<and> hash_map h' = Map.empty"
proof -
  have "picker primes_table len - Suc 0 < length primes_table"
    using picker_bounds[of primes_table len] by (simp add: primes_table_def)
  then have "primes_table ! (picker primes_table len - Suc 0) \<in> set primes_table" by (rule nth_mem)
  moreover have "\<forall>p \<in> set primes_table. 0 < p" by (simp add: primes_table_def)
  ultimately have "0 < primes_table ! (picker primes_table len - Suc 0)" by blast
  moreover have "concat (map hash_entries (replicate n empty_bucket)) = []" for n
    by (induction n) (simp_all add: hash_entries_def empty_bucket_def)
  ultimately show ?thesis using assms
    by (simp add: hash_table_init_def Let_def hash_ok_def hash_map_def bucket_ok_def hash_entries_def empty_bucket_def)
qed

lemma hash_table_init_size:
  assumes "ht_entries h = []" and "len \<le> 99529"
  shows "len \<le> int (length (ht_entries (snd (snd (hash_table_init True name h len)))))"
proof -
  have "len \<le> ps ! (picker ps len - 1)" if "ps \<noteq> []" "len \<le> last ps" for ps :: "int list"
    using that by (induction ps len rule: picker.induct) (auto simp: nth_Cons' picker_bounds[THEN conjunct2, rule_format] split: if_splits)
  then have "len \<le> primes_table ! (picker primes_table len - 1)" using assms(2) by (simp add: primes_table_def)
  then show ?thesis using assms(1) by (simp add: hash_table_init_def Let_def)
qed

section \<open>Properties\<close>

text \<open>
  C28. The hash table refines a finite map: on a table whose keys are in the buckets they hash to,
  a lookup reads the map; inserting succeeds, keeps the invariant, updates the map at the key and
  counts a new key; removing tells whether the key was there, keeps the invariant and removes it
  from the map, the count staying as it is; and a walk visits every entry of the map once.
\<close>

theorem hash_table_refines_map:
  assumes "hash_ok h"
  shows "hash_table_get h k = Some (hash_map h k) \<and>
    (\<exists>h'. hash_table_insert True h k v = Some (0, h') \<and> hash_ok h' \<and> hash_map h' = (hash_map h)(k \<mapsto> v) \<and>
       ht_n_elements h' = ht_n_elements h + (if hash_map h k = None then 1 else 0)) \<and>
    (\<exists>h'. hash_table_remove h k = Some (if hash_map h k = None then 0 else 1, h') \<and> hash_ok h' \<and>
       hash_map h' = (hash_map h)(k := None) \<and> ht_n_elements h' = ht_n_elements h) \<and>
    hash_table_foreach h f s = fold (\<lambda>(k, d). f k d) (hash_visits h) s \<and>
    distinct (map fst (hash_visits h)) \<and> map_of (hash_visits h) = hash_map h"
  using get_hash_map[OF assms] insert_hash_map[OF assms] remove_hash_map[OF assms] hash_visits_once[OF assms]
  by (simp add: hash_table_foreach_fold)

definition empty_table :: "nat hash_table" where
  "empty_table = \<lparr>ht_name = [], ht_entries = [], ht_n_elements = 0\<rparr>"

lemma hash_table_refines_map_witness:
  "\<exists>h h'. hash_table_init True ''pkg_hash'' empty_table 1000 = (0, False, h) \<and>
     hash_table_insert True h ''busybox'' 7 = Some (0, h') \<and> hash_map h' = [''busybox'' \<mapsto> 7] \<and> ht_n_elements h' = 1"
proof -
  obtain warn h where h: "hash_table_init True ''pkg_hash'' empty_table 1000 = (0, warn, h)" "hash_ok h" "hash_map h = Map.empty"
    using hash_table_init_ok[of empty_table "''pkg_hash''" 1000] by (auto simp: empty_table_def)
  have "\<not> warn" using h(1) by (auto simp: hash_table_init_def Let_def empty_table_def primes_table_def)
  moreover have "ht_n_elements h = 0" using h(1) by (auto simp: hash_table_init_def Let_def empty_table_def)
  moreover obtain h' where "hash_table_insert True h ''busybox'' 7 = Some (0, h')" "hash_map h' = [''busybox'' \<mapsto> 7]"
    "ht_n_elements h' = ht_n_elements h + 1"
    using hash_table_refines_map[where k = "''busybox''" and v = 7, OF h(2), THEN conjunct2, THEN conjunct1] h(3) by auto
  ultimately show ?thesis using h(1) by auto
qed

end
