(* ===== verification/OpkgStore.thy ===== *)
theory OpkgStore
  imports OpkgVersion OpkgHash
begin

text \<open>
  The store of packages (\<open>opkg/libopkg/pkg_hash.c\<close>, \<open>pkg_vec.c\<close>, and the first half of
  \<open>pkg_depends.c\<close>): abstract packages, one for each name that is mentioned, found by name through
  the hash table, and the packages that are known for them.  Reading a package parses its
  dependencies, which enters the names they mention into the table, and links it to the abstract
  packages it provides, replaces and depends on.  A pointer to a package or an abstract package is
  its position in the store; memory that is freed stays in the store and is not pointed to.
\<close>

section \<open>Data\<close>

text \<open>
  A null \<open>pkgs\<close> or \<open>replaced_by\<close> is \<^const>\<open>None\<close>; \<open>depended_upon_by\<close> is the array without
  the null pointer that ends it.
\<close>

record abstract_pkg =
  a_name :: string
  a_dependencies_checked :: bool
  a_pkgs :: "nat list option"
  a_state_status :: pkg_state_status
  a_state_flag :: u32
  a_depended_upon_by :: "nat list"
  a_provided_by :: "nat list"
  a_replaced_by :: "nat list option"

definition abstract_pkg_new :: "string \<Rightarrow> abstract_pkg" where
  "abstract_pkg_new name = \<lparr>a_name = name, a_dependencies_checked = False, a_pkgs = None, a_state_status = SS_NOT_INSTALLED,
     a_state_flag = 0, a_depended_upon_by = [], a_provided_by = [], a_replaced_by = None\<rparr>"

record store =
  st_hash :: "nat hash_table"
  st_abs :: "abstract_pkg list"
  st_pkgs :: "pkg list"

text \<open>Reading and changing what a pointer points to.\<close>

definition abs_at :: "store \<Rightarrow> nat \<Rightarrow> abstract_pkg option" where
  "abs_at st a = (if a < length (st_abs st) then Some (st_abs st ! a) else None)"

definition pkg_at :: "store \<Rightarrow> nat \<Rightarrow> pkg option" where
  "pkg_at st p = (if p < length (st_pkgs st) then Some (st_pkgs st ! p) else None)"

definition abs_update :: "nat \<Rightarrow> (abstract_pkg \<Rightarrow> abstract_pkg) \<Rightarrow> store \<Rightarrow> store option" where
  "abs_update a f st = (if a < length (st_abs st) then Some (st\<lparr>st_abs := (st_abs st)[a := f (st_abs st ! a)]\<rparr>) else None)"

definition pkg_update :: "nat \<Rightarrow> (pkg \<Rightarrow> pkg) \<Rightarrow> store \<Rightarrow> store option" where
  "pkg_update p f st = (if p < length (st_pkgs st) then Some (st\<lparr>st_pkgs := (st_pkgs st)[p := f (st_pkgs st ! p)]\<rparr>) else None)"

text \<open>A loop whose body may fault.\<close>

fun mfold :: "('a \<Rightarrow> 's \<Rightarrow> 's option) \<Rightarrow> 'a list \<Rightarrow> 's \<Rightarrow> 's option" where
  "mfold f [] s = Some s"
| "mfold f (x # xs) s = Option.bind (f x s) (mfold f xs)"

section \<open>Strings\<close>

definition trim_alloc :: "string \<Rightarrow> string" where
  "trim_alloc line = rev (dropWhile isspace (rev (dropWhile isspace line)))"

definition line_is_blank :: "string \<Rightarrow> bool" where
  "line_is_blank line \<longleftrightarrow> (\<forall>c \<in> set line. isspace c)"

section \<open>Abstract packages by name\<close>

definition abstract_pkg_fetch_by_name :: "store \<Rightarrow> string \<Rightarrow> nat option option" where
  "abstract_pkg_fetch_by_name st pkg_name = hash_table_get (st_hash st) pkg_name"

definition add_new_abstract_pkg_by_name :: "store \<Rightarrow> string \<Rightarrow> (nat \<times> store) option" where
  "add_new_abstract_pkg_by_name st pkg_name = do {
     let ab_pkg = length (st_abs st);
     (_, hash) \<leftarrow> hash_table_insert True (st_hash st) pkg_name ab_pkg;
     Some (ab_pkg, st\<lparr>st_abs := st_abs st @ [abstract_pkg_new pkg_name], st_hash := hash\<rparr>) }"

definition ensure_abstract_pkg_by_name :: "store \<Rightarrow> string \<Rightarrow> (nat \<times> store) option" where
  "ensure_abstract_pkg_by_name st pkg_name = do {
     found \<leftarrow> abstract_pkg_fetch_by_name st pkg_name;
     (case found of Some ab_pkg \<Rightarrow> Some (ab_pkg, st) | None \<Rightarrow> add_new_abstract_pkg_by_name st pkg_name) }"

section \<open>Parsing a dependency\<close>

definition DEPEND_BUFFER :: nat where "DEPEND_BUFFER = 2048"

text \<open>The relation behind the parenthesis and the rest.\<close>

definition parse_constraint :: "string \<Rightarrow> version_constraint \<times> string" where
  "parse_constraint src =
     (if take 2 src = ''<<'' then (EARLIER, drop 2 src)
      else if take 2 src = ''<='' then (EARLIER_EQUAL, drop 2 src)
      else if take 2 src = ''>='' then (LATER_EQUAL, drop 2 src)
      else if take 2 src = ''>>'' then (LATER, drop 2 src)
      else if take 1 src = ''='' then (EQUAL, drop 1 src)
      else if take 1 src = ''<'' then (EARLIER_EQUAL, drop 1 src)
      else if take 1 src = ''>'' then (LATER_EQUAL, drop 1 src)
      else (NONE, src))"

definition name_char :: "char \<Rightarrow> bool" where
  "name_char c \<longleftrightarrow> \<not> isspace c \<and> c \<noteq> CHR ''('' \<and> c \<noteq> CHR ''*'' \<and> c \<noteq> CHR ''|''"

definition sep_char :: "char \<Rightarrow> bool" where
  "sep_char c \<longleftrightarrow> isspace c \<or> c = CHR '')'' \<or> c = CHR ''|''"

text \<open>
  One of the alternatives.  The name and the version are collected in a buffer of 2048 characters
  on the stack, which a longer one overruns.
\<close>

definition parse_possibility :: "store \<Rightarrow> string \<Rightarrow> (depend \<times> bool \<times> string \<times> store) option" where
  "parse_possibility st src0 = do {
     let name = takeWhile name_char src0;
     let src = dropWhile isspace (drop (length name) src0);
     (constraint, version, src) \<leftarrow>
       (if DEPEND_BUFFER \<le> length name then None
        else if c_at src 0 = CHR ''('' then
          let (constraint, src1) = parse_constraint (drop 1 src);
              src2 = dropWhile isspace src1;
              version = takeWhile (\<lambda>c. c \<noteq> CHR '')'') src2
          in if DEPEND_BUFFER \<le> length version then None
             else Some (constraint, Some (trim_alloc version), drop (length version) src2)
        else Some (NONE, None, src));
     (ab_pkg, st) \<leftarrow> ensure_abstract_pkg_by_name st (trim_alloc name);
     let src = dropWhile sep_char src;
     Some (\<lparr>d_constraint = constraint, d_version = version, d_pkg = ab_pkg\<rparr>, c_at src 0 = CHR ''*'',
           if c_at src 0 = CHR ''*'' then drop 1 src else src, st) }"

fun parse_possibilities :: "nat \<Rightarrow> store \<Rightarrow> string \<Rightarrow> (depend list \<times> bool \<times> store) option" where
  "parse_possibilities 0 st src = Some ([], False, st)"
| "parse_possibilities (Suc n) st src = do {
     (d, greedy, src, st) \<leftarrow> parse_possibility st src;
     (ds, greedy', st) \<leftarrow> parse_possibilities n st src;
     Some (d # ds, greedy \<or> greedy', st) }"

text \<open>There is one more alternative than there are bars.\<close>

definition parseDepends :: "store \<Rightarrow> string \<Rightarrow> (compound_depend \<times> store) option" where
  "parseDepends st depend_str = do {
     let num_of_ors = length (filter (\<lambda>c. c = CHR ''|'') depend_str);
     (ds, greedy, st) \<leftarrow> parse_possibilities (num_of_ors + 1) st depend_str;
     Some (\<lparr>cd_type = (if greedy then GREEDY_DEPEND else DEPEND), cd_possibilities = ds\<rparr>, st) }"

fun parse_all :: "store \<Rightarrow> (depend_type \<Rightarrow> depend_type) \<Rightarrow> string list \<Rightarrow> (compound_depend list \<times> store) option" where
  "parse_all st f [] = Some ([], st)"
| "parse_all st f (s # ss) = do {
     (cd, st) \<leftarrow> parseDepends st s;
     (cds, st) \<leftarrow> parse_all st f ss;
     Some (cd\<lparr>cd_type := f (cd_type cd)\<rparr> # cds, st) }"

section \<open>Linking a package\<close>

text \<open>The alternatives of the four fields, in the order in which they are stored.\<close>

definition buildDepends :: "store \<Rightarrow> pkg \<Rightarrow> (pkg \<times> store) option" where
  "buildDepends st pkg =
     (if p_pre_depends_str pkg = [] \<and> p_depends_str pkg = [] \<and> p_recommends_str pkg = [] \<and> p_suggests_str pkg = []
      then Some (pkg, st)
      else do {
        (pre, st) \<leftarrow> parse_all st (\<lambda>_. PREDEPEND) (p_pre_depends_str pkg);
        (rec, st) \<leftarrow> parse_all st (\<lambda>_. RECOMMEND) (p_recommends_str pkg);
        (sug, st) \<leftarrow> parse_all st (\<lambda>_. SUGGEST) (p_suggests_str pkg);
        (dep, st) \<leftarrow> parse_all st id (p_depends_str pkg);
        Some (pkg\<lparr>p_depends := pre @ rec @ sug @ dep\<rparr>, st) })"

definition pkg_depend_str :: "pkg \<Rightarrow> nat \<Rightarrow> string option" where
  "pkg_depend_str pkg index0 =
     (if index0 < length (p_pre_depends_str pkg) then Some (p_pre_depends_str pkg ! index0)
      else let index1 = index0 - length (p_pre_depends_str pkg) in
      if index1 < length (p_recommends_str pkg) then Some (p_recommends_str pkg ! index1)
      else let index2 = index1 - length (p_recommends_str pkg) in
      if index2 < length (p_suggests_str pkg) then Some (p_suggests_str pkg ! index2)
      else let index3 = index2 - length (p_suggests_str pkg) in
      if index3 < length (p_depends_str pkg) then Some (p_depends_str pkg ! index3)
      else None)"

text \<open>The type is set before the string is parsed, which sets it again.\<close>

definition buildConflicts :: "store \<Rightarrow> nat \<Rightarrow> store option" where
  "buildConflicts st p = do {
     pkg \<leftarrow> pkg_at st p;
     if p_conflicts_str pkg = [] then Some st
     else do {
       (cds, st) \<leftarrow> parse_all st id (p_conflicts_str pkg);
       pkg_update p (\<lambda>pkg. pkg\<lparr>p_conflicts := cds\<rparr>) st } }"

text \<open>
  \<open>provides\<close> has the package itself in front, so it is one longer than \<open>provides_count\<close>, which
  the model has as the length of \<open>p_provides_str\<close>.
\<close>

definition provide :: "nat \<Rightarrow> nat \<Rightarrow> string \<Rightarrow> store \<Rightarrow> store option" where
  "provide ab_pkg p name st = do {
     (provided, st) \<leftarrow> ensure_abstract_pkg_by_name st name;
     st \<leftarrow> pkg_update p (\<lambda>pkg. pkg\<lparr>p_provides := p_provides pkg @ [provided]\<rparr>) st;
     abs_update provided (\<lambda>a. a\<lparr>a_provided_by := a_provided_by a @ [ab_pkg]\<rparr>) st }"

definition buildProvides :: "store \<Rightarrow> nat \<Rightarrow> nat \<Rightarrow> store option" where
  "buildProvides st ab_pkg p = do {
     st \<leftarrow> abs_update ab_pkg (\<lambda>a. a\<lparr>a_provided_by := a_provided_by a @ [ab_pkg]\<rparr>) st;
     pkg \<leftarrow> pkg_at st p;
     if p_provides_str pkg = [] then Some st
     else if p_provides pkg \<noteq> [] then Some st
     else do {
       st \<leftarrow> pkg_update p (\<lambda>pkg. pkg\<lparr>p_provides := [ab_pkg]\<rparr>) st;
       mfold (provide ab_pkg p) (p_provides_str pkg) st } }"

definition pkg_conflicts_abstract :: "pkg \<Rightarrow> nat \<Rightarrow> bool" where
  "pkg_conflicts_abstract pkg conflictee \<longleftrightarrow>
     list_ex (\<lambda>cd. list_ex (\<lambda>d. d_pkg d = conflictee) (cd_possibilities cd)) (p_conflicts pkg)"

definition replace_one :: "nat \<Rightarrow> nat \<Rightarrow> string \<Rightarrow> store \<Rightarrow> store option" where
  "replace_one ab_pkg p name st = do {
     (old, st) \<leftarrow> ensure_abstract_pkg_by_name st name;
     st \<leftarrow> pkg_update p (\<lambda>pkg. pkg\<lparr>p_replaces := p_replaces pkg @ [old]\<rparr>) st;
     pkg \<leftarrow> pkg_at st p;
     abs_update old (\<lambda>a. a\<lparr>a_replaced_by := Some ((case a_replaced_by a of None \<Rightarrow> [] | Some v \<Rightarrow> v) @
       (if pkg_conflicts_abstract pkg old then [ab_pkg] else []))\<rparr>) st }"

definition buildReplaces :: "store \<Rightarrow> nat \<Rightarrow> nat \<Rightarrow> store option" where
  "buildReplaces st ab_pkg p = do {
     pkg \<leftarrow> pkg_at st p;
     if p_replaces_str pkg = [] then Some st
     else do {
       st \<leftarrow> pkg_update p (\<lambda>pkg. pkg\<lparr>p_replaces := []\<rparr>) st;
       mfold (replace_one ab_pkg p) (p_replaces_str pkg) st } }"

text \<open>
  As many dependencies are entered as there are pre-depends and depends, from the start of the
  array.
\<close>

definition depended_upon :: "nat \<Rightarrow> depend \<Rightarrow> store \<Rightarrow> store option" where
  "depended_upon ab_pkg d = abs_update (d_pkg d) (\<lambda>a. a\<lparr>a_depended_upon_by := a_depended_upon_by a @ [ab_pkg]\<rparr>)"

definition buildDependedUponBy :: "store \<Rightarrow> nat \<Rightarrow> nat \<Rightarrow> store option" where
  "buildDependedUponBy st p ab_pkg = do {
     pkg \<leftarrow> pkg_at st p;
     let count = length (p_pre_depends_str pkg) + length (p_depends_str pkg);
     if length (p_depends pkg) < count then None
     else mfold (\<lambda>cd. mfold (depended_upon ab_pkg) (cd_possibilities cd)) (take count (p_depends pkg)) st }"

section \<open>Entering a package\<close>

text \<open>The same name, version and architecture.\<close>

definition same_pkg :: "pkg \<Rightarrow> pkg \<Rightarrow> bool option" where
  "same_pkg p q = do {
     n \<leftarrow> p_name p;
     m \<leftarrow> p_name q;
     if n \<noteq> m then Some False
     else do {
       v \<leftarrow> pkg_compare_versions p q;
       if v \<noteq> 0 then Some False
       else do {
         a \<leftarrow> p_architecture p;
         b \<leftarrow> p_architecture q;
         Some (a = b) } } }"

text \<open>The place in a vector of the first package that is the same.\<close>

fun find_same :: "store \<Rightarrow> pkg \<Rightarrow> nat list \<Rightarrow> nat option option" where
  "find_same st pkg [] = Some None"
| "find_same st pkg (q # qs) = do {
     old \<leftarrow> pkg_at st q;
     same \<leftarrow> same_pkg pkg old;
     if same then Some (Some 0)
     else do { r \<leftarrow> find_same st pkg qs; Some (map_option Suc r) } }"

definition or_else :: "'a option \<Rightarrow> 'a option \<Rightarrow> 'a option" where
  "or_else old new = (if old = None then new else old)"

definition merge_status :: "bool \<Rightarrow> pkg \<Rightarrow> pkg \<Rightarrow> pkg" where
  "merge_status set_status new old =
     (if set_status
      then old\<lparr>p_state_want := p_state_want new, p_state_status := p_state_status new, p_state_flag := p_state_flag new\<rparr>
      else old\<lparr>p_state_want := (if p_state_want old = SW_UNKNOWN then p_state_want new else p_state_want old),
               p_state_status := (if p_state_status old = SS_NOT_INSTALLED then p_state_status new else p_state_status old),
               p_state_flag := p_state_flag old OR p_state_flag new\<rparr>)"

definition merge_depends :: "pkg \<Rightarrow> pkg \<Rightarrow> pkg" where
  "merge_depends new old =
     (if p_depends_str old = [] \<and> p_pre_depends_str old = [] \<and> p_recommends_str old = [] \<and> p_suggests_str old = []
      then old\<lparr>p_depends_str := p_depends_str new, p_depends := p_depends new, p_pre_depends_str := p_pre_depends_str new,
               p_recommends_str := p_recommends_str new, p_suggests_str := p_suggests_str new\<rparr>
      else old)"

definition merge_links :: "pkg \<Rightarrow> pkg \<Rightarrow> pkg" where
  "merge_links new old0 =
     (let old1 = (if p_provides_str old0 = [] then old0\<lparr>p_provides_str := p_provides_str new, p_provides := p_provides new\<rparr> else old0);
          old2 = (if p_conflicts_str old1 = [] then old1\<lparr>p_conflicts_str := p_conflicts_str new, p_conflicts := p_conflicts new\<rparr> else old1)
      in if p_replaces_str old2 = [] then old2\<lparr>p_replaces_str := p_replaces_str new, p_replaces := p_replaces new\<rparr> else old2)"

text \<open>What is missing in the old package is taken from the new one.\<close>

definition pkg_merge :: "pkg \<Rightarrow> pkg \<Rightarrow> bool \<Rightarrow> pkg" where
  "pkg_merge old new set_status =
     (let old1 = old\<lparr>p_src := or_else (p_src old) (p_src new), p_dest := or_else (p_dest old) (p_dest new),
            p_architecture := or_else (p_architecture old) (p_architecture new),
            p_arch_priority := (if p_arch_priority old = 0 then p_arch_priority new else p_arch_priority old),
            p_section := or_else (p_section old) (p_section new), p_maintainer := or_else (p_maintainer old) (p_maintainer new),
            p_description := or_else (p_description old) (p_description new)\<rparr>;
          old2 = merge_links new (merge_depends new (merge_status set_status new old1))
      in old2\<lparr>p_filename := or_else (p_filename old) (p_filename new),
            p_local_filename := or_else (p_local_filename old) (p_local_filename new),
            p_tmp_unpack_dir := or_else (p_tmp_unpack_dir old) (p_tmp_unpack_dir new),
            p_md5sum := or_else (p_md5sum old) (p_md5sum new), p_size := or_else (p_size old) (p_size new),
            p_installed_size := or_else (p_installed_size old) (p_installed_size new),
            p_priority := or_else (p_priority old) (p_priority new), p_source := or_else (p_source old) (p_source new),
            p_conffiles := (if p_conffiles old = [] then p_conffiles new else p_conffiles old),
            p_installed_files := or_else (p_installed_files old) (p_installed_files new),
            p_installed_files_ref_cnt :=
              (if p_installed_files old = None then p_installed_files_ref_cnt new else p_installed_files_ref_cnt old),
            p_essential := (p_essential old \<or> p_essential new)\<rparr>)"

text \<open>The package at \<open>p\<close> enters the vector, or the one it duplicates; the result is the one that is in the vector.\<close>

definition pkg_vec_insert_merge :: "store \<Rightarrow> nat list \<Rightarrow> nat \<Rightarrow> bool \<Rightarrow> (nat \<times> nat list \<times> store) option" where
  "pkg_vec_insert_merge st vec p set_status = do {
     pkg \<leftarrow> pkg_at st p;
     dup \<leftarrow> find_same st pkg vec;
     (case dup of
        None \<Rightarrow> Some (p, vec @ [p], st)
      | Some i \<Rightarrow>
          if set_status then do {
            st \<leftarrow> pkg_update (vec ! i) (\<lambda>old. pkg_merge old pkg set_status) st;
            Some (vec ! i, vec, st) }
          else Some (p, vec[i := p], st)) }"

text \<open>The state of a package from the status file is noted at its abstract package.\<close>

definition note_status :: "bool \<Rightarrow> pkg \<Rightarrow> abstract_pkg \<Rightarrow> abstract_pkg" where
  "note_status set_status pkg a =
     (if set_status \<and> (p_state_status pkg = SS_INSTALLED \<or> p_state_status pkg = SS_UNPACKED)
      then a\<lparr>a_state_status := p_state_status pkg\<rparr> else a)"

text \<open>The parts of \<open>hash_insert_pkg\<close>: up to the abstract package, into its vector, and the links.\<close>

definition enter_name :: "store \<Rightarrow> nat \<Rightarrow> bool \<Rightarrow> (nat \<times> store) option" where
  "enter_name st p set_status = do {
     pkg \<leftarrow> pkg_at st p;
     (pkg, st) \<leftarrow> buildDepends st pkg;
     st \<leftarrow> pkg_update p (\<lambda>_. pkg) st;
     name \<leftarrow> p_name pkg;
     (ab_pkg, st) \<leftarrow> ensure_abstract_pkg_by_name st name;
     st \<leftarrow> abs_update ab_pkg (note_status set_status pkg) st;
     Some (ab_pkg, st) }"

definition enter_vector :: "store \<Rightarrow> nat \<Rightarrow> nat \<Rightarrow> bool \<Rightarrow> (nat \<times> store) option" where
  "enter_vector st ab_pkg p set_status = do {
     a \<leftarrow> abs_at st ab_pkg;
     (q, vec, st) \<leftarrow> pkg_vec_insert_merge st (case a_pkgs a of None \<Rightarrow> [] | Some v \<Rightarrow> v) p set_status;
     st \<leftarrow> abs_update ab_pkg (\<lambda>a. a\<lparr>a_pkgs := Some vec\<rparr>) st;
     st \<leftarrow> pkg_update q (\<lambda>pkg. pkg\<lparr>p_parent := Some ab_pkg\<rparr>) st;
     Some (q, st) }"

definition build_links :: "store \<Rightarrow> nat \<Rightarrow> nat \<Rightarrow> store option" where
  "build_links st ab_pkg q = do {
     st \<leftarrow> buildProvides st ab_pkg q;
     st \<leftarrow> buildConflicts st q;
     st \<leftarrow> buildReplaces st ab_pkg q;
     buildDependedUponBy st q ab_pkg }"

definition hash_insert_pkg :: "store \<Rightarrow> nat \<Rightarrow> bool \<Rightarrow> (nat \<times> store) option" where
  "hash_insert_pkg st p set_status = do {
     (ab_pkg, st) \<leftarrow> enter_name st p set_status;
     (q, st) \<leftarrow> enter_vector st ab_pkg p set_status;
     st \<leftarrow> build_links st ab_pkg q;
     Some (q, st) }"

section \<open>Queries\<close>

definition installed :: "pkg \<Rightarrow> bool" where
  "installed pkg \<longleftrightarrow> p_state_status pkg = SS_INSTALLED \<or> p_state_status pkg = SS_UNPACKED"

definition pkg_vec_fetch_by_name :: "store \<Rightarrow> string \<Rightarrow> nat list option option" where
  "pkg_vec_fetch_by_name st pkg_name = do {
     found \<leftarrow> abstract_pkg_fetch_by_name st pkg_name;
     (case found of
        None \<Rightarrow> Some None
      | Some ab \<Rightarrow> do {
          a \<leftarrow> abs_at st ab;
          (case a_pkgs a of
             Some vec \<Rightarrow> Some (Some vec)
           | None \<Rightarrow> (case a_provided_by a of [] \<Rightarrow> Some None | q # _ \<Rightarrow> map_option a_pkgs (abs_at st q))) }) }"

fun first_such :: "(pkg \<Rightarrow> bool option) \<Rightarrow> store \<Rightarrow> nat list \<Rightarrow> nat option option" where
  "first_such P st [] = Some None"
| "first_such P st (p # ps) = do {
     pkg \<leftarrow> pkg_at st p;
     b \<leftarrow> P pkg;
     if b then Some (Some p) else first_such P st ps }"

definition pkg_hash_fetch_by_name_version :: "store \<Rightarrow> string \<Rightarrow> string \<Rightarrow> nat option option" where
  "pkg_hash_fetch_by_name_version st pkg_name version = do {
     vec \<leftarrow> pkg_vec_fetch_by_name st pkg_name;
     (case vec of None \<Rightarrow> Some None
      | Some ps \<Rightarrow> first_such (\<lambda>pkg. map_option (\<lambda>v. v = version) (pkg_version_str_alloc pkg)) st ps) }"

definition pkg_hash_fetch_installed_by_name_dest :: "store \<Rightarrow> string \<Rightarrow> nat option \<Rightarrow> nat option option" where
  "pkg_hash_fetch_installed_by_name_dest st pkg_name dest = do {
     vec \<leftarrow> pkg_vec_fetch_by_name st pkg_name;
     (case vec of None \<Rightarrow> Some None
      | Some ps \<Rightarrow> first_such (\<lambda>pkg. Some (installed pkg \<and> p_dest pkg = dest)) st ps) }"

definition pkg_hash_fetch_installed_by_name :: "store \<Rightarrow> string \<Rightarrow> nat option option" where
  "pkg_hash_fetch_installed_by_name st pkg_name = do {
     vec \<leftarrow> pkg_vec_fetch_by_name st pkg_name;
     (case vec of None \<Rightarrow> Some None
      | Some ps \<Rightarrow> first_such (\<lambda>pkg. Some (installed pkg)) st ps) }"

text \<open>The test for the null pointer is the wrong way round: a name that is found gives null, one that is not is followed.\<close>

definition pkg_hash_fetch_all_installation_candidates :: "store \<Rightarrow> string \<Rightarrow> nat list option option" where
  "pkg_hash_fetch_all_installation_candidates st name = do {
     found \<leftarrow> abstract_pkg_fetch_by_name st name;
     (case found of Some _ \<Rightarrow> Some None | None \<Rightarrow> None) }"

text \<open>
  The first \<open>n\<close> of the abstract packages a package provides are searched, up to the first match;
  reading further than the array is long is a fault.
\<close>

fun provides_scan :: "nat \<Rightarrow> nat list \<Rightarrow> nat \<Rightarrow> bool option" where
  "provides_scan 0 provides r = Some False"
| "provides_scan (Suc n) [] r = None"
| "provides_scan (Suc n) (x # provides) r = (if x = r then Some True else provides_scan n provides r)"

fun provides_any :: "nat list \<Rightarrow> nat \<Rightarrow> nat list \<Rightarrow> bool option" where
  "provides_any [] n provides = Some False"
| "provides_any (r # rs) n provides = do {
     b \<leftarrow> provides_scan n provides r;
     if b then Some True else provides_any rs n provides }"

definition pkg_provides_abstract :: "pkg \<Rightarrow> nat \<Rightarrow> bool option" where
  "pkg_provides_abstract pkg providee = provides_scan (length (p_provides_str pkg)) (p_provides pkg) providee"

text \<open>The bound of the inner loop is the number of names replaced, not the number provided.\<close>

definition pkg_replaces :: "pkg \<Rightarrow> pkg \<Rightarrow> bool option" where
  "pkg_replaces pkg replacee = provides_any (p_replaces pkg) (length (p_replaces_str pkg)) (p_provides replacee)"

definition pkg_conflicts :: "pkg \<Rightarrow> pkg \<Rightarrow> bool option" where
  "pkg_conflicts pkg conflictee =
     provides_any (map d_pkg (concat (map cd_possibilities (p_conflicts pkg))))
       (length (p_provides_str conflictee)) (p_provides conflictee)"

end
