(* ===== verification/OpkgStoreInv.thy ===== *)
theory OpkgStoreInv
  imports OpkgStore
begin

text \<open>
  The invariant of the package store and that entering a package keeps it: the table finds an
  abstract package exactly by its name, every pointer is to an object of the store, and the
  packages that are known for a name have that name, a version that can be compared, and are linked
  to it.  Entering a package never faults on such a store.
\<close>

section \<open>The invariant\<close>

text \<open>What holds of the abstract packages at every moment.\<close>

definition names_ok :: "store \<Rightarrow> bool" where
  "names_ok st \<longleftrightarrow> hash_ok (st_hash st) \<and>
     (\<forall>name a. hash_map (st_hash st) name = Some a \<longleftrightarrow> a < length (st_abs st) \<and> a_name (st_abs st ! a) = name)"

definition abs_ok :: "nat \<Rightarrow> abstract_pkg \<Rightarrow> bool" where
  "abs_ok n a \<longleftrightarrow> (\<forall>b \<in> set (a_depended_upon_by a) \<union> set (a_provided_by a). b < n) \<and>
     (\<forall>v. a_replaced_by a = Some v \<longrightarrow> (\<forall>b \<in> set v. b < n))"

definition links_ok :: "store \<Rightarrow> bool" where
  "links_ok st \<longleftrightarrow> names_ok st \<and> (\<forall>a \<in> set (st_abs st). abs_ok (length (st_abs st)) a)"

text \<open>What holds of a package: what its links point to and what its comparison needs.\<close>

definition dep_ok :: "nat \<Rightarrow> depend \<Rightarrow> bool" where
  "dep_ok n d \<longleftrightarrow> d_pkg d < n \<and> (d_constraint d \<noteq> NONE \<longrightarrow> (\<exists>v. d_version d = Some v \<and> NUL \<notin> set v))"

definition deps_ok :: "nat \<Rightarrow> compound_depend list \<Rightarrow> bool" where
  "deps_ok n cds \<longleftrightarrow> (\<forall>cd \<in> set cds. cd_possibilities cd \<noteq> [] \<and> (\<forall>d \<in> set (cd_possibilities cd). dep_ok n d))"

definition refs_ok :: "nat \<Rightarrow> pkg \<Rightarrow> bool" where
  "refs_ok n pkg \<longleftrightarrow> deps_ok n (p_depends pkg) \<and> deps_ok n (p_conflicts pkg) \<and>
     (\<forall>b \<in> set (p_provides pkg) \<union> set (p_replaces pkg). b < n) \<and>
     length (p_depends pkg) = length (p_pre_depends_str pkg) + length (p_recommends_str pkg) + length (p_suggests_str pkg) + length (p_depends_str pkg)"

definition plain_src :: "string \<Rightarrow> bool" where
  "plain_src s \<longleftrightarrow> length s < DEPEND_BUFFER \<and> NUL \<notin> set s"

definition short_strings :: "pkg \<Rightarrow> bool" where
  "short_strings pkg \<longleftrightarrow> (\<forall>s \<in> set (p_depends_str pkg) \<union> set (p_pre_depends_str pkg) \<union> set (p_recommends_str pkg) \<union>
     set (p_suggests_str pkg) \<union> set (p_conflicts_str pkg). plain_src s)"

definition identity_ok :: "pkg \<Rightarrow> bool" where
  "identity_ok pkg \<longleftrightarrow> p_name pkg \<noteq> None \<and> p_architecture pkg \<noteq> None \<and> c_version pkg"

text \<open>A package that is in the vector of an abstract package.\<close>

definition member_ok :: "store \<Rightarrow> nat \<Rightarrow> nat \<Rightarrow> bool" where
  "member_ok st a p \<longleftrightarrow> p < length (st_pkgs st) \<and> identity_ok (st_pkgs st ! p) \<and> short_strings (st_pkgs st ! p) \<and>
     refs_ok (length (st_abs st)) (st_pkgs st ! p) \<and> p_name (st_pkgs st ! p) = Some (a_name (st_abs st ! a)) \<and>
     p_parent (st_pkgs st ! p) = Some a"

definition pkgs_of :: "store \<Rightarrow> nat \<Rightarrow> nat list" where
  "pkgs_of st a = (case a_pkgs (st_abs st ! a) of None \<Rightarrow> [] | Some v \<Rightarrow> v)"

definition store_ok :: "store \<Rightarrow> bool" where
  "store_ok st \<longleftrightarrow> links_ok st \<and> (\<forall>a < length (st_abs st). \<forall>p \<in> set (pkgs_of st a). member_ok st a p) \<and>
     (\<forall>a < length (st_abs st). distinct (pkgs_of st a))"

section \<open>Loops\<close>

lemma mfold_invariant:
  assumes "\<And>x s. x \<in> set xs \<Longrightarrow> I s \<Longrightarrow> \<exists>s'. f x s = Some s' \<and> I s'" and "I s"
  shows "\<exists>s'. mfold f xs s = Some s' \<and> I s'"
  using assms
proof (induction xs arbitrary: s)
  case (Cons x xs)
  obtain s1 where "f x s = Some s1" "I s1" using Cons.prems by (meson list.set_intros(1))
  then show ?case using Cons.IH[of s1] Cons.prems(1) by auto
qed simp

section \<open>Names\<close>

text \<open>The store after new names have been entered.\<close>

definition grows :: "store \<Rightarrow> store \<Rightarrow> bool" where
  "grows st st' \<longleftrightarrow> st_pkgs st' = st_pkgs st \<and> (\<exists>names. st_abs st' = st_abs st @ map abstract_pkg_new names)"

lemma grows_refl [simp]: "grows st st"
  by (auto simp: grows_def intro: exI[of _ "[]"])

lemma grows_trans [trans]: "grows st st1 \<Longrightarrow> grows st1 st2 \<Longrightarrow> grows st st2"
  by (auto simp: grows_def simp flip: map_append)

lemma grows_length: "grows st st' \<Longrightarrow> length (st_abs st) \<le> length (st_abs st')"
  by (auto simp: grows_def)

lemma grows_nth: "grows st st' \<Longrightarrow> a < length (st_abs st) \<Longrightarrow> st_abs st' ! a = st_abs st ! a"
  by (auto simp: grows_def nth_append)

lemma abs_ok_mono: "abs_ok n a \<Longrightarrow> n \<le> m \<Longrightarrow> abs_ok m a"
  unfolding abs_ok_def by (meson order.strict_trans2)

lemma abs_ok_new [simp]: "abs_ok n (abstract_pkg_new name)"
  by (simp add: abs_ok_def abstract_pkg_new_def)

lemma ensure_ok:
  assumes "links_ok st"
  shows "\<exists>a st'. ensure_abstract_pkg_by_name st name = Some (a, st') \<and> links_ok st' \<and> grows st st' \<and>
    a < length (st_abs st') \<and> a_name (st_abs st' ! a) = name"
proof -
  have hash: "hash_ok (st_hash st)" and names: "\<And>n a. hash_map (st_hash st) n = Some a \<longleftrightarrow> a < length (st_abs st) \<and> a_name (st_abs st ! a) = n"
    using assms by (simp_all add: links_ok_def names_ok_def)
  show ?thesis
  proof (cases "hash_map (st_hash st) name")
    case (Some a)
    then have "ensure_abstract_pkg_by_name st name = Some (a, st)"
      by (simp add: ensure_abstract_pkg_by_name_def abstract_pkg_fetch_by_name_def get_hash_map[OF hash])
    then show ?thesis using assms Some names by auto
  next
    case None
    obtain h where h: "hash_table_insert True (st_hash st) name (length (st_abs st)) = Some (0, h)" "hash_ok h"
      "hash_map h = (hash_map (st_hash st))(name \<mapsto> length (st_abs st))" using insert_hash_map[OF hash] by blast
    let ?st = "st\<lparr>st_abs := st_abs st @ [abstract_pkg_new name], st_hash := h\<rparr>"
    have fresh: "a_name (st_abs st ! a) \<noteq> name" if "a < length (st_abs st)" for a
      using names[of name a] None that by auto
    have "names_ok ?st"
      unfolding names_ok_def
    proof (intro conjI allI)
      show "hash_ok (st_hash ?st)" using h by simp
      fix n a
      show "hash_map (st_hash ?st) n = Some a \<longleftrightarrow> a < length (st_abs ?st) \<and> a_name (st_abs ?st ! a) = n"
        using names[of n a] fresh[of a] h(3) by (auto simp: nth_append less_Suc_eq abstract_pkg_new_def)
    qed
    moreover have "abs_ok (Suc (length (st_abs st))) a" if "a \<in> set (st_abs st)" for a
      using assms that abs_ok_mono[of "length (st_abs st)" a] by (simp add: links_ok_def)
    ultimately have "links_ok ?st" by (simp add: links_ok_def)
    moreover have "grows st ?st" by (auto simp: grows_def intro: exI[of _ "[name]"])
    moreover have "ensure_abstract_pkg_by_name st name = Some (length (st_abs st), ?st)"
      using None h by (simp add: ensure_abstract_pkg_by_name_def abstract_pkg_fetch_by_name_def get_hash_map[OF hash] add_new_abstract_pkg_by_name_def)
    ultimately show ?thesis by (auto simp: abstract_pkg_new_def)
  qed
qed

section \<open>Parsing\<close>

lemma plain_src_dropWhile: "plain_src s \<Longrightarrow> plain_src (dropWhile P s)"
  using length_dropWhile_le[of P s] by (auto simp: plain_src_def dest: set_dropWhileD)

lemma plain_src_takeWhile: "plain_src s \<Longrightarrow> plain_src (takeWhile P s)"
  using length_takeWhile_le[of P s] by (auto simp: plain_src_def dest: set_takeWhileD)

lemma plain_src_drop: "plain_src s \<Longrightarrow> plain_src (drop n s)"
  by (auto simp: plain_src_def dest: in_set_dropD)

lemma plain_src_constraint: "plain_src s \<Longrightarrow> plain_src (snd (parse_constraint s))"
  by (simp add: parse_constraint_def plain_src_drop)

lemma trim_alloc_subset: "set (trim_alloc s) \<subseteq> set s"
  by (auto simp: trim_alloc_def dest!: set_dropWhileD)

lemma parse_constraint_version:
  assumes "plain_src src"
  shows "plain_src (takeWhile P (dropWhile isspace (snd (parse_constraint src))))"
  using assms by (intro plain_src_takeWhile plain_src_dropWhile plain_src_constraint)

text \<open>The part between the name and the separators behind it.\<close>

lemma parse_version_part:
  assumes "plain_src s"
  shows "\<exists>c v r. (if c_at s 0 = CHR ''('' then
          let (constraint, src1) = parse_constraint (drop 1 s);
              src2 = dropWhile isspace src1;
              version = takeWhile (\<lambda>c. c \<noteq> CHR '')'') src2
          in if DEPEND_BUFFER \<le> length version then None
             else Some (constraint, Some (trim_alloc version), drop (length version) src2)
        else Some (NONE, None, s)) = Some (c, v, r) \<and> plain_src r \<and> (c \<noteq> NONE \<longrightarrow> (\<exists>w. v = Some w \<and> NUL \<notin> set w))"
proof (cases "c_at s 0 = CHR ''(''")
  case True
  obtain k s1 where k: "parse_constraint (drop 1 s) = (k, s1)" by (cases "parse_constraint (drop 1 s)")
  let ?v = "takeWhile (\<lambda>c. c \<noteq> CHR '')'') (dropWhile isspace s1)"
  have s1: "plain_src s1" using plain_src_constraint[OF plain_src_drop[OF assms, of 1]] k by simp
  then have v: "plain_src ?v" by (intro plain_src_takeWhile plain_src_dropWhile)
  then have "NUL \<notin> set (trim_alloc ?v)" "\<not> DEPEND_BUFFER \<le> length ?v" using trim_alloc_subset[of ?v] by (auto simp: plain_src_def)
  moreover have "plain_src (drop (length ?v) (dropWhile isspace s1))" using s1 by (intro plain_src_drop plain_src_dropWhile)
  ultimately show ?thesis using True k by (simp add: Let_def)
qed (use assms in simp)

lemma parse_possibility_ok:
  assumes "links_ok st" and "plain_src src"
  shows "\<exists>d greedy rest st'. parse_possibility st src = Some (d, greedy, rest, st') \<and> links_ok st' \<and> grows st st' \<and>
    dep_ok (length (st_abs st')) d \<and> plain_src rest"
proof -
  define name where "name = takeWhile name_char src"
  define s where "s = dropWhile isspace (drop (length name) src)"
  have n: "\<not> DEPEND_BUFFER \<le> length name" using plain_src_takeWhile[OF assms(2), of name_char] by (simp add: plain_src_def name_def)
  have "plain_src s" unfolding s_def using assms(2) by (intro plain_src_dropWhile plain_src_drop)
  from parse_version_part[OF this] obtain c v r where cvr: "(if c_at s 0 = CHR ''('' then
          let (constraint, src1) = parse_constraint (drop 1 s);
              src2 = dropWhile isspace src1;
              version = takeWhile (\<lambda>c. c \<noteq> CHR '')'') src2
          in if DEPEND_BUFFER \<le> length version then None
             else Some (constraint, Some (trim_alloc version), drop (length version) src2)
        else Some (NONE, None, s)) = Some (c, v, r)" and r: "plain_src r" and v: "c \<noteq> NONE \<longrightarrow> (\<exists>w. v = Some w \<and> NUL \<notin> set w)"
    by blast
  obtain a st' where a: "ensure_abstract_pkg_by_name st (trim_alloc name) = Some (a, st')" "links_ok st'" "grows st st'" "a < length (st_abs st')"
    using ensure_ok[OF assms(1)] by blast
  have "plain_src (dropWhile sep_char r)" "plain_src (drop 1 (dropWhile sep_char r))" using r plain_src_dropWhile plain_src_drop by blast+
  then show ?thesis using a cvr v n unfolding parse_possibility_def Let_def name_def[symmetric] s_def[symmetric] by (auto simp: dep_ok_def)
qed

lemma dep_ok_mono: "dep_ok n d \<Longrightarrow> n \<le> m \<Longrightarrow> dep_ok m d"
  by (auto simp: dep_ok_def)

lemma parse_possibilities_ok:
  "links_ok st \<Longrightarrow> plain_src src \<Longrightarrow>
   \<exists>ds greedy st'. parse_possibilities n st src = Some (ds, greedy, st') \<and> links_ok st' \<and> grows st st' \<and>
     (\<forall>d \<in> set ds. dep_ok (length (st_abs st')) d) \<and> length ds = n"
proof (induction n arbitrary: st src)
  case (Suc n)
  obtain d g rest st1 where 1: "parse_possibility st src = Some (d, g, rest, st1)" "links_ok st1" "grows st st1"
    "dep_ok (length (st_abs st1)) d" "plain_src rest" using parse_possibility_ok[OF Suc.prems] by blast
  obtain ds g' st2 where 2: "parse_possibilities n st1 rest = Some (ds, g', st2)" "links_ok st2" "grows st1 st2"
    "\<forall>d \<in> set ds. dep_ok (length (st_abs st2)) d" "length ds = n" using Suc.IH[OF 1(2,5)] by blast
  have "dep_ok (length (st_abs st2)) d" using dep_ok_mono[OF 1(4) grows_length[OF 2(3)]] .
  then show ?case using 1 2 grows_trans[OF 1(3) 2(3)] by auto
qed auto

lemma parseDepends_ok:
  assumes "links_ok st" and "plain_src s"
  shows "\<exists>cd st'. parseDepends st s = Some (cd, st') \<and> links_ok st' \<and> grows st st' \<and>
    (\<forall>d \<in> set (cd_possibilities cd). dep_ok (length (st_abs st')) d) \<and> cd_possibilities cd \<noteq> []"
  using parse_possibilities_ok[OF assms, of "length (filter (\<lambda>c. c = CHR ''|'') s) + 1"]
  by (auto simp: parseDepends_def Let_def simp del: parse_possibilities.simps)

lemma deps_ok_mono: "deps_ok n cds \<Longrightarrow> n \<le> m \<Longrightarrow> deps_ok m cds"
  unfolding deps_ok_def using dep_ok_mono by blast

lemma parse_all_ok:
  "links_ok st \<Longrightarrow> \<forall>s \<in> set ss. plain_src s \<Longrightarrow>
   \<exists>cds st'. parse_all st f ss = Some (cds, st') \<and> links_ok st' \<and> grows st st' \<and> deps_ok (length (st_abs st')) cds \<and>
     length cds = length ss"
proof (induction ss arbitrary: st)
  case Nil
  then show ?case by (simp add: deps_ok_def)
next
  case (Cons s ss)
  obtain cd st1 where 1: "parseDepends st s = Some (cd, st1)" "links_ok st1" "grows st st1"
    "\<forall>d \<in> set (cd_possibilities cd). dep_ok (length (st_abs st1)) d" "cd_possibilities cd \<noteq> []"
    using parseDepends_ok[of st s] Cons.prems by auto
  obtain cds st2 where 2: "parse_all st1 f ss = Some (cds, st2)" "links_ok st2" "grows st1 st2"
    "deps_ok (length (st_abs st2)) cds" "length cds = length ss" using Cons.IH[OF 1(2)] Cons.prems by auto
  have "\<forall>d \<in> set (cd_possibilities cd). dep_ok (length (st_abs st2)) d" using 1(4) dep_ok_mono[OF _ grows_length[OF 2(3)]] by blast
  then show ?case using 1 2 grows_trans[OF 1(3) 2(3)] by (auto simp: deps_ok_def)
qed

section \<open>Linking\<close>

text \<open>What linking a package leaves as it is: the rest of the package, and every other package.\<close>

definition core :: "pkg \<Rightarrow> pkg" where
  "core pkg = pkg\<lparr>p_depends := [], p_conflicts := [], p_provides := [], p_replaces := []\<rparr>"

definition frame :: "nat \<Rightarrow> store \<Rightarrow> store \<Rightarrow> bool" where
  "frame p st0 st \<longleftrightarrow> length (st_abs st0) \<le> length (st_abs st) \<and>
     (\<forall>a < length (st_abs st). if a < length (st_abs st0)
        then a_name (st_abs st ! a) = a_name (st_abs st0 ! a) \<and> a_pkgs (st_abs st ! a) = a_pkgs (st_abs st0 ! a)
        else a_pkgs (st_abs st ! a) = None) \<and>
     length (st_pkgs st) = length (st_pkgs st0) \<and> (\<forall>q. q \<noteq> p \<longrightarrow> st_pkgs st ! q = st_pkgs st0 ! q) \<and>
     core (st_pkgs st ! p) = core (st_pkgs st0 ! p)"

definition linked :: "nat \<Rightarrow> store \<Rightarrow> store \<Rightarrow> bool" where
  "linked p st0 st \<longleftrightarrow> links_ok st \<and> frame p st0 st \<and> p < length (st_pkgs st)"

lemma linked_refl: "links_ok st \<Longrightarrow> p < length (st_pkgs st) \<Longrightarrow> linked p st st"
  by (simp add: linked_def frame_def)

lemma linked_grows:
  assumes "linked p st0 st" and "grows st st'" and "links_ok st'"
  shows "linked p st0 st'"
  using assms unfolding linked_def frame_def grows_def
  by (auto simp: nth_append abstract_pkg_new_def split: if_splits)

lemma linked_pkg:
  assumes "linked p st0 st" and "core (f (st_pkgs st ! p)) = core (st_pkgs st ! p)"
  shows "\<exists>st'. pkg_update p f st = Some st' \<and> linked p st0 st' \<and> st_abs st' = st_abs st \<and> st_pkgs st' ! p = f (st_pkgs st ! p)"
  using assms by (auto simp: linked_def frame_def pkg_update_def links_ok_def names_ok_def)

lemma linked_abs:
  assumes "linked p st0 st" and "a < length (st_abs st)" and "\<And>x. a_name (f x) = a_name x \<and> a_pkgs (f x) = a_pkgs x"
    and "\<And>x. abs_ok (length (st_abs st)) x \<Longrightarrow> abs_ok (length (st_abs st)) (f x)"
  shows "\<exists>st'. abs_update a f st = Some st' \<and> linked p st0 st' \<and> length (st_abs st') = length (st_abs st) \<and> st_pkgs st' = st_pkgs st"
proof -
  let ?st = "st\<lparr>st_abs := (st_abs st)[a := f (st_abs st ! a)]\<rparr>"
  have nth: "a_name (st_abs ?st ! b) = a_name (st_abs st ! b) \<and> a_pkgs (st_abs ?st ! b) = a_pkgs (st_abs st ! b)" if "b < length (st_abs st)" for b
    using assms(2,3) that by (simp add: nth_list_update)
  have "names_ok ?st" using assms(1) nth unfolding linked_def links_ok_def names_ok_def by auto
  moreover have "\<forall>x \<in> set (st_abs ?st). abs_ok (length (st_abs ?st)) x"
    using assms(1,2,4) set_update_subset_insert[of "st_abs st" a "f (st_abs st ! a)"]
    unfolding linked_def links_ok_def by auto
  moreover have "frame p st0 ?st" using assms(1) nth unfolding linked_def frame_def by auto
  ultimately show ?thesis using assms(1,2) by (auto simp: abs_update_def linked_def links_ok_def)
qed

lemma linked_ensure:
  assumes "linked p st0 st"
  shows "\<exists>a st'. ensure_abstract_pkg_by_name st name = Some (a, st') \<and> linked p st0 st' \<and> a < length (st_abs st') \<and>
    a_name (st_abs st' ! a) = name \<and> st_pkgs st' = st_pkgs st \<and> length (st_abs st) \<le> length (st_abs st')"
proof -
  obtain a st' where "ensure_abstract_pkg_by_name st name = Some (a, st')" "links_ok st'" "grows st st'"
    "a < length (st_abs st')" "a_name (st_abs st' ! a) = name"
    using ensure_ok[of st name] assms by (auto simp: linked_def)
  then show ?thesis using linked_grows[OF assms] grows_length by (auto simp: grows_def)
qed

lemma refs_ok_mono: "refs_ok n pkg \<Longrightarrow> n \<le> m \<Longrightarrow> refs_ok m pkg"
  unfolding refs_ok_def using deps_ok_mono by (meson order.strict_trans2)

text \<open>The state while a package is being linked.\<close>

definition linking :: "nat \<Rightarrow> nat \<Rightarrow> store \<Rightarrow> store \<Rightarrow> bool" where
  "linking ab p st0 st \<longleftrightarrow> linked p st0 st \<and> refs_ok (length (st_abs st)) (st_pkgs st ! p) \<and> ab < length (st_abs st)"

lemma provide_ok:
  assumes "linking ab p st0 st"
  shows "\<exists>st'. provide ab p name st = Some st' \<and> linking ab p st0 st'"
proof -
  have l: "linked p st0 st" and r: "refs_ok (length (st_abs st)) (st_pkgs st ! p)" and ab: "ab < length (st_abs st)"
    using assms by (simp_all add: linking_def)
  obtain a st1 where 1: "ensure_abstract_pkg_by_name st name = Some (a, st1)" "linked p st0 st1" "a < length (st_abs st1)"
    "st_pkgs st1 = st_pkgs st" "length (st_abs st) \<le> length (st_abs st1)" using linked_ensure[OF l] by blast
  obtain st2 where 2: "pkg_update p (\<lambda>pkg. pkg\<lparr>p_provides := p_provides pkg @ [a]\<rparr>) st1 = Some st2" "linked p st0 st2" "st_abs st2 = st_abs st1"
    "st_pkgs st2 ! p = (st_pkgs st1 ! p)\<lparr>p_provides := p_provides (st_pkgs st1 ! p) @ [a]\<rparr>"
    using linked_pkg[OF 1(2), of "\<lambda>pkg. pkg\<lparr>p_provides := p_provides pkg @ [a]\<rparr>"] by (auto simp: core_def)
  have a: "a < length (st_abs st2)" using 1(3) 2(3) by simp
  have ab2: "ab < length (st_abs st2)" using ab 1(5) 2(3) by simp
  obtain st3 where 3: "abs_update a (\<lambda>x. x\<lparr>a_provided_by := a_provided_by x @ [ab]\<rparr>) st2 = Some st3" "linked p st0 st3"
    "length (st_abs st3) = length (st_abs st2)" "st_pkgs st3 = st_pkgs st2"
    using linked_abs[OF 2(2) a, of "\<lambda>x. x\<lparr>a_provided_by := a_provided_by x @ [ab]\<rparr>"] ab2 by (auto simp: abs_ok_def)
  have "refs_ok (length (st_abs st1)) (st_pkgs st ! p)" using refs_ok_mono[OF r 1(5)] .
  then have "refs_ok (length (st_abs st3)) (st_pkgs st3 ! p)" using 1(3,4) 2(3,4) 3(3,4) by (simp add: refs_ok_def)
  then show ?thesis using 1 2 3 ab2 by (auto simp: provide_def linking_def)
qed

lemma replace_one_ok:
  assumes "linking ab p st0 st"
  shows "\<exists>st'. replace_one ab p name st = Some st' \<and> linking ab p st0 st'"
proof -
  have l: "linked p st0 st" and r: "refs_ok (length (st_abs st)) (st_pkgs st ! p)" and ab: "ab < length (st_abs st)"
    using assms by (simp_all add: linking_def)
  obtain a st1 where 1: "ensure_abstract_pkg_by_name st name = Some (a, st1)" "linked p st0 st1" "a < length (st_abs st1)"
    "st_pkgs st1 = st_pkgs st" "length (st_abs st) \<le> length (st_abs st1)" using linked_ensure[OF l] by blast
  obtain st2 where 2: "pkg_update p (\<lambda>pkg. pkg\<lparr>p_replaces := p_replaces pkg @ [a]\<rparr>) st1 = Some st2" "linked p st0 st2" "st_abs st2 = st_abs st1"
    "st_pkgs st2 ! p = (st_pkgs st1 ! p)\<lparr>p_replaces := p_replaces (st_pkgs st1 ! p) @ [a]\<rparr>"
    using linked_pkg[OF 1(2), of "\<lambda>pkg. pkg\<lparr>p_replaces := p_replaces pkg @ [a]\<rparr>"] by (auto simp: core_def)
  have a: "a < length (st_abs st2)" using 1(3) 2(3) by simp
  have ab2: "ab < length (st_abs st2)" using ab 1(5) 2(3) by simp
  let ?f = "\<lambda>x. x\<lparr>a_replaced_by := Some ((case a_replaced_by x of None \<Rightarrow> [] | Some v \<Rightarrow> v) @
    (if pkg_conflicts_abstract (st_pkgs st2 ! p) a then [ab] else []))\<rparr>"
  have f: "abs_ok (length (st_abs st2)) (?f x)" if "abs_ok (length (st_abs st2)) x" for x
    using that ab2 by (cases "a_replaced_by x") (auto simp: abs_ok_def)
  obtain st3 where 3: "abs_update a ?f st2 = Some st3" "linked p st0 st3"
    "length (st_abs st3) = length (st_abs st2)" "st_pkgs st3 = st_pkgs st2"
    using linked_abs[OF 2(2) a, of ?f] f by auto
  have "refs_ok (length (st_abs st1)) (st_pkgs st ! p)" using refs_ok_mono[OF r 1(5)] .
  then have "refs_ok (length (st_abs st3)) (st_pkgs st3 ! p)" using 1(3,4) 2(3,4) 3(3,4) by (simp add: refs_ok_def)
  moreover have "pkg_at st2 p = Some (st_pkgs st2 ! p)" using 2(2) by (simp add: pkg_at_def linked_def)
  ultimately show ?thesis using 1 2 3 ab2 by (auto simp: replace_one_def linking_def)
qed

lemma linking_pkg:
  assumes "linking ab p st0 st" and "core (f (st_pkgs st ! p)) = core (st_pkgs st ! p)" and "refs_ok (length (st_abs st)) (f (st_pkgs st ! p))"
  shows "\<exists>st'. pkg_update p f st = Some st' \<and> linking ab p st0 st'"
  using linked_pkg[of p st0 st f] assms by (auto simp: linking_def)

lemma linking_abs:
  assumes "linking ab p st0 st" and "a < length (st_abs st)" and "\<And>x. a_name (f x) = a_name x \<and> a_pkgs (f x) = a_pkgs x"
    and "\<And>x. abs_ok (length (st_abs st)) x \<Longrightarrow> abs_ok (length (st_abs st)) (f x)"
  shows "\<exists>st'. abs_update a f st = Some st' \<and> linking ab p st0 st' \<and> length (st_abs st') = length (st_abs st) \<and> st_pkgs st' = st_pkgs st"
  using linked_abs[of p st0 st a f] assms by (auto simp: linking_def)

lemma linking_pkg_at: "linking ab p st0 st \<Longrightarrow> pkg_at st p = Some (st_pkgs st ! p)"
  by (simp add: pkg_at_def linking_def linked_def)

lemma buildProvides_ok:
  assumes "linking ab p st0 st"
  shows "\<exists>st'. buildProvides st ab p = Some st' \<and> linking ab p st0 st'"
proof -
  have ab: "ab < length (st_abs st)" using assms by (simp add: linking_def)
  obtain st1 where 1: "abs_update ab (\<lambda>a. a\<lparr>a_provided_by := a_provided_by a @ [ab]\<rparr>) st = Some st1" "linking ab p st0 st1"
    using linking_abs[OF assms ab, of "\<lambda>a. a\<lparr>a_provided_by := a_provided_by a @ [ab]\<rparr>"] ab by (auto simp: abs_ok_def)
  have "refs_ok (length (st_abs st1)) ((st_pkgs st1 ! p)\<lparr>p_provides := [ab]\<rparr>)" using 1(2) by (simp add: linking_def refs_ok_def)
  then obtain st2 where 2: "pkg_update p (\<lambda>pkg. pkg\<lparr>p_provides := [ab]\<rparr>) st1 = Some st2" "linking ab p st0 st2"
    using linking_pkg[OF 1(2), of "\<lambda>pkg. pkg\<lparr>p_provides := [ab]\<rparr>"] by (auto simp: core_def)
  obtain st3 where 3: "mfold (provide ab p) (p_provides_str (st_pkgs st1 ! p)) st2 = Some st3" "linking ab p st0 st3"
    using mfold_invariant[where I = "linking ab p st0" and f = "provide ab p"] provide_ok 2(2) by blast
  show ?thesis using 1 2 3 linking_pkg_at[OF 1(2)] by (simp add: buildProvides_def)
qed

lemma buildReplaces_ok:
  assumes "linking ab p st0 st"
  shows "\<exists>st'. buildReplaces st ab p = Some st' \<and> linking ab p st0 st'"
proof -
  have "refs_ok (length (st_abs st)) ((st_pkgs st ! p)\<lparr>p_replaces := []\<rparr>)" using assms by (simp add: linking_def refs_ok_def)
  then obtain st2 where 2: "pkg_update p (\<lambda>pkg. pkg\<lparr>p_replaces := []\<rparr>) st = Some st2" "linking ab p st0 st2"
    using linking_pkg[OF assms, of "\<lambda>pkg. pkg\<lparr>p_replaces := []\<rparr>"] by (auto simp: core_def)
  obtain st3 where 3: "mfold (replace_one ab p) (p_replaces_str (st_pkgs st ! p)) st2 = Some st3" "linking ab p st0 st3"
    using mfold_invariant[where I = "linking ab p st0" and f = "replace_one ab p"] replace_one_ok 2(2) by blast
  show ?thesis using 2 3 linking_pkg_at[OF assms] assms by (simp add: buildReplaces_def)
qed

lemma buildConflicts_ok:
  assumes "linking ab p st0 st" and "short_strings (st_pkgs st ! p)"
  shows "\<exists>st'. buildConflicts st p = Some st' \<and> linking ab p st0 st'"
proof -
  have "links_ok st" using assms(1) by (simp add: linking_def linked_def)
  moreover have "\<forall>s \<in> set (p_conflicts_str (st_pkgs st ! p)). plain_src s" using assms(2) by (simp add: short_strings_def)
  ultimately obtain cds st1 where 1: "parse_all st id (p_conflicts_str (st_pkgs st ! p)) = Some (cds, st1)" "links_ok st1" "grows st st1"
    "deps_ok (length (st_abs st1)) cds" using parse_all_ok by blast
  have "refs_ok (length (st_abs st1)) (st_pkgs st ! p)" using refs_ok_mono grows_length[OF 1(3)] assms(1) by (auto simp: linking_def)
  moreover have "st_pkgs st1 = st_pkgs st" using 1(3) by (simp add: grows_def)
  ultimately have l1: "linking ab p st0 st1" using linked_grows[OF _ 1(3,2), of p st0] assms(1) grows_length[OF 1(3)] by (auto simp: linking_def)
  moreover have "refs_ok (length (st_abs st1)) ((st_pkgs st1 ! p)\<lparr>p_conflicts := cds\<rparr>)" using l1 1(4) by (simp add: linking_def refs_ok_def)
  ultimately obtain st2 where "pkg_update p (\<lambda>pkg. pkg\<lparr>p_conflicts := cds\<rparr>) st1 = Some st2" "linking ab p st0 st2"
    using linking_pkg[OF l1, of "\<lambda>pkg. pkg\<lparr>p_conflicts := cds\<rparr>"] by (auto simp: core_def)
  then show ?thesis using 1 linking_pkg_at[OF assms(1)] assms(1) by (simp add: buildConflicts_def)
qed

lemma depended_upon_ok:
  assumes "linking ab p st0 st \<and> n \<le> length (st_abs st)" and "d_pkg d < n"
  shows "\<exists>st'. depended_upon ab d st = Some st' \<and> linking ab p st0 st' \<and> n \<le> length (st_abs st')"
proof -
  have "ab < length (st_abs st)" using assms by (simp add: linking_def)
  then obtain st' where "abs_update (d_pkg d) (\<lambda>a. a\<lparr>a_depended_upon_by := a_depended_upon_by a @ [ab]\<rparr>) st = Some st'"
    "linking ab p st0 st'" "length (st_abs st') = length (st_abs st)"
    using linking_abs[of ab p st0 st "d_pkg d" "\<lambda>a. a\<lparr>a_depended_upon_by := a_depended_upon_by a @ [ab]\<rparr>"] assms
    by (auto simp: abs_ok_def)
  then show ?thesis using assms(1) by (simp add: depended_upon_def)
qed

lemma buildDependedUponBy_ok:
  assumes "linking ab p st0 st"
  shows "\<exists>st'. buildDependedUponBy st p ab = Some st' \<and> linking ab p st0 st'"
proof -
  let ?pkg = "st_pkgs st ! p" and ?n = "length (st_abs st)"
  let ?count = "length (p_pre_depends_str ?pkg) + length (p_depends_str ?pkg)"
  have r: "refs_ok ?n ?pkg" using assms by (simp add: linking_def)
  have "\<exists>st'. mfold (\<lambda>cd. mfold (depended_upon ab) (cd_possibilities cd)) (take ?count (p_depends ?pkg)) st = Some st' \<and>
    linking ab p st0 st' \<and> ?n \<le> length (st_abs st')"
  proof (rule mfold_invariant)
    fix cd s assume cd: "cd \<in> set (take ?count (p_depends ?pkg))" and I: "linking ab p st0 s \<and> ?n \<le> length (st_abs s)"
    show "\<exists>s'. mfold (depended_upon ab) (cd_possibilities cd) s = Some s' \<and> linking ab p st0 s' \<and> ?n \<le> length (st_abs s')"
    proof (rule mfold_invariant[where I = "\<lambda>s. linking ab p st0 s \<and> ?n \<le> length (st_abs s)"])
      fix d s assume "d \<in> set (cd_possibilities cd)" and "linking ab p st0 s \<and> ?n \<le> length (st_abs s)"
      then show "\<exists>s'. depended_upon ab d s = Some s' \<and> linking ab p st0 s' \<and> ?n \<le> length (st_abs s')"
        using r in_set_takeD[OF cd] by (intro depended_upon_ok) (auto simp: refs_ok_def deps_ok_def dep_ok_def)
    qed (rule I)
  qed (use assms in simp)
  then show ?thesis using linking_pkg_at[OF assms] r by (auto simp: buildDependedUponBy_def refs_ok_def)
qed

section \<open>Merging\<close>

lemma same_pkg_ok: "identity_ok p \<Longrightarrow> identity_ok q \<Longrightarrow> \<exists>b. same_pkg p q = Some b"
  using compare_key[of p q] by (auto simp: same_pkg_def identity_ok_def)

lemma find_same_ok:
  assumes "identity_ok pkg" and "\<forall>q \<in> set vec. q < length (st_pkgs st) \<and> identity_ok (st_pkgs st ! q)"
  shows "\<exists>r. find_same st pkg vec = Some r \<and> (\<forall>i. r = Some i \<longrightarrow> i < length vec \<and> same_pkg pkg (st_pkgs st ! (vec ! i)) = Some True) \<and>
    (r = None \<longrightarrow> (\<forall>q \<in> set vec. same_pkg pkg (st_pkgs st ! q) = Some False))"
  using assms(2)
proof (induction vec)
  case (Cons q qs)
  obtain r where r: "find_same st pkg qs = Some r" "\<forall>i. r = Some i \<longrightarrow> i < length qs \<and> same_pkg pkg (st_pkgs st ! (qs ! i)) = Some True"
    "r = None \<longrightarrow> (\<forall>q \<in> set qs. same_pkg pkg (st_pkgs st ! q) = Some False)" using Cons by auto
  obtain b where b: "same_pkg pkg (st_pkgs st ! q) = Some b" using same_pkg_ok[OF assms(1)] Cons.prems by force
  show ?case
  proof (cases b)
    case True
    then show ?thesis using b Cons.prems by (simp add: pkg_at_def)
  next
    case False
    then show ?thesis using b r Cons.prems by (cases r) (simp_all add: pkg_at_def)
  qed
qed simp

lemma merge_keeps_identity:
  assumes "identity_ok old"
  shows "identity_ok (pkg_merge old new s) \<and> p_name (pkg_merge old new s) = p_name old \<and> p_parent (pkg_merge old new s) = p_parent old"
  using assms by (auto simp: pkg_merge_def merge_links_def merge_depends_def merge_status_def Let_def identity_ok_def c_version_def or_else_def)

lemma merge_short:
  assumes "short_strings old" and "short_strings new"
  shows "short_strings (pkg_merge old new s)"
  using assms by (auto simp: pkg_merge_def merge_links_def merge_depends_def merge_status_def Let_def short_strings_def)

lemma merge_refs:
  assumes "refs_ok n old" and "refs_ok n new"
  shows "refs_ok n (pkg_merge old new s)"
  using assms by (auto simp: pkg_merge_def merge_links_def merge_depends_def merge_status_def Let_def refs_ok_def)

section \<open>Entering\<close>

text \<open>A package as \<open>pkg_parse_raw\<close> leaves it, not yet in the store.\<close>

definition parsed_ok :: "pkg \<Rightarrow> bool" where
  "parsed_ok pkg \<longleftrightarrow> identity_ok pkg \<and> short_strings pkg \<and> p_depends pkg = [] \<and> p_conflicts pkg = [] \<and> p_provides pkg = [] \<and> p_replaces pkg = []"

definition unused :: "store \<Rightarrow> nat \<Rightarrow> bool" where
  "unused st p \<longleftrightarrow> p < length (st_pkgs st) \<and> (\<forall>a < length (st_abs st). p \<notin> set (pkgs_of st a))"

lemma buildDepends_ok:
  assumes "links_ok st" and "parsed_ok pkg"
  shows "\<exists>pkg' st'. buildDepends st pkg = Some (pkg', st') \<and> links_ok st' \<and> grows st st' \<and> core pkg' = core pkg \<and>
    refs_ok (length (st_abs st')) pkg' \<and> p_conflicts pkg' = [] \<and> p_provides pkg' = [] \<and> p_replaces pkg' = []"
proof (cases "p_pre_depends_str pkg = [] \<and> p_depends_str pkg = [] \<and> p_recommends_str pkg = [] \<and> p_suggests_str pkg = []")
  case True
  then show ?thesis using assms by (simp add: buildDepends_def parsed_ok_def refs_ok_def deps_ok_def)
next
  case False
  have short: "\<forall>s \<in> set (p_pre_depends_str pkg). plain_src s" "\<forall>s \<in> set (p_recommends_str pkg). plain_src s"
    "\<forall>s \<in> set (p_suggests_str pkg). plain_src s" "\<forall>s \<in> set (p_depends_str pkg). plain_src s"
    using assms(2) by (auto simp: parsed_ok_def short_strings_def)
  obtain c1 st1 where 1: "parse_all st (\<lambda>_. PREDEPEND) (p_pre_depends_str pkg) = Some (c1, st1)" "links_ok st1" "grows st st1"
    "deps_ok (length (st_abs st1)) c1" "length c1 = length (p_pre_depends_str pkg)" using parse_all_ok[OF assms(1) short(1)] by blast
  obtain c2 st2 where 2: "parse_all st1 (\<lambda>_. RECOMMEND) (p_recommends_str pkg) = Some (c2, st2)" "links_ok st2" "grows st1 st2"
    "deps_ok (length (st_abs st2)) c2" "length c2 = length (p_recommends_str pkg)" using parse_all_ok[OF 1(2) short(2)] by blast
  obtain c3 st3 where 3: "parse_all st2 (\<lambda>_. SUGGEST) (p_suggests_str pkg) = Some (c3, st3)" "links_ok st3" "grows st2 st3"
    "deps_ok (length (st_abs st3)) c3" "length c3 = length (p_suggests_str pkg)" using parse_all_ok[OF 2(2) short(3)] by blast
  obtain c4 st4 where 4: "parse_all st3 id (p_depends_str pkg) = Some (c4, st4)" "links_ok st4" "grows st3 st4"
    "deps_ok (length (st_abs st4)) c4" "length c4 = length (p_depends_str pkg)" using parse_all_ok[OF 3(2) short(4)] by blast
  have g: "grows st2 st4" "grows st1 st4" "grows st st4" using 1(3) 2(3) 3(3) 4(3) grows_trans by blast+
  have "deps_ok (length (st_abs st4)) (c1 @ c2 @ c3 @ c4)"
    using deps_ok_mono[OF 1(4) grows_length[OF g(2)]] deps_ok_mono[OF 2(4) grows_length[OF g(1)]]
      deps_ok_mono[OF 3(4) grows_length[OF 4(3)]] 4(4) by (auto simp: deps_ok_def)
  then show ?thesis using False 1(1,5) 2(1,5) 3(1,5) 4(1,2,5) g(3) assms(2)
    by (auto simp: buildDepends_def parsed_ok_def refs_ok_def core_def deps_ok_def)
qed

text \<open>The store after the package is in the vector and points to its abstract package.\<close>

lemma put_in_vector:
  assumes "links_ok st" and members: "\<forall>b < length (st_abs st). \<forall>r \<in> set (pkgs_of st b). member_ok st b r"
    and "a < length (st_abs st)" and "q < length (st_pkgs st)"
    and pkg: "identity_ok pkg" "short_strings pkg" "refs_ok (length (st_abs st)) pkg" "p_name pkg = Some (a_name (st_abs st ! a))"
    and vec: "set vec \<subseteq> insert q (set (pkgs_of st a))" and other: "\<forall>b < length (st_abs st). b \<noteq> a \<longrightarrow> q \<notin> set (pkgs_of st b)"
    and st': "st_abs st' = (st_abs st)[a := (st_abs st ! a)\<lparr>a_pkgs := Some vec\<rparr>]" "st_pkgs st' = (st_pkgs st)[q := pkg\<lparr>p_parent := Some a\<rparr>]"
      "st_hash st' = st_hash st"
    and distinct: "\<forall>b < length (st_abs st). distinct (pkgs_of st b)" "distinct vec"
  shows "store_ok st'"
proof -
  have name: "a_name (st_abs st' ! b) = a_name (st_abs st ! b)" if "b < length (st_abs st)" for b
    using that assms(3) st'(1) by (simp add: nth_list_update)
  have "names_ok st'" using assms(1) name st' by (auto simp: links_ok_def names_ok_def)
  moreover have "abs_ok (length (st_abs st')) x" if "x \<in> set (st_abs st')" for x
  proof -
    have "x \<in> insert ((st_abs st ! a)\<lparr>a_pkgs := Some vec\<rparr>) (set (st_abs st))"
      using that set_update_subset_insert[of "st_abs st" a] unfolding st'(1) by blast
    moreover have "\<forall>y \<in> set (st_abs st). abs_ok (length (st_abs st)) y" using assms(1) by (simp add: links_ok_def)
    moreover have "st_abs st ! a \<in> set (st_abs st)" using assms(3) by simp
    ultimately show ?thesis using st'(1) by (auto simp: abs_ok_def)
  qed
  ultimately have "links_ok st'" by (simp add: links_ok_def)
  moreover have "member_ok st' b r" if b: "b < length (st_abs st')" and r: "r \<in> set (pkgs_of st' b)" for b r
  proof (cases "r = q")
    case True
    have "b = a"
    proof (rule ccontr)
      assume "b \<noteq> a"
      then have "r \<in> set (pkgs_of st b)" using b r st'(1) by (simp add: pkgs_of_def)
      then show False using other True b \<open>b \<noteq> a\<close> st'(1) by simp
    qed
    moreover have "identity_ok (pkg\<lparr>p_parent := Some a\<rparr>)" "short_strings (pkg\<lparr>p_parent := Some a\<rparr>)" "refs_ok (length (st_abs st)) (pkg\<lparr>p_parent := Some a\<rparr>)"
      using pkg by (simp_all add: identity_ok_def short_strings_def refs_ok_def c_version_def)
    ultimately show ?thesis using True pkg(4) assms(3,4) name[of a] st' by (simp add: member_ok_def)
  next
    case False
    have "r \<in> set (pkgs_of st b)"
      using r b False vec assms(3) st'(1) by (cases "b = a") (auto simp: pkgs_of_def)
    then have "member_ok st b r" using members b st'(1) by simp
    then show ?thesis using False name[of b] b st' by (simp add: member_ok_def)
  qed
  moreover have "distinct (pkgs_of st' b)" if "b < length (st_abs st')" for b
    using that distinct st'(1) by (cases "b = a") (auto simp: pkgs_of_def)
  ultimately show ?thesis by (simp add: store_ok_def)
qed

text \<open>Linking keeps the invariant.\<close>

lemma core_fields:
  assumes "core x = core y"
  shows "p_name x = p_name y" "p_parent x = p_parent y" "identity_ok x = identity_ok y" "short_strings x = short_strings y"
proof -
  have f: "p_name (core z) = p_name z" "p_parent (core z) = p_parent z" "identity_ok (core z) = identity_ok z"
    "short_strings (core z) = short_strings z" for z
    by (simp_all add: core_def identity_ok_def short_strings_def c_version_def)
  show "p_name x = p_name y" "p_parent x = p_parent y" "identity_ok x = identity_ok y" "short_strings x = short_strings y"
    using f[of x] f[of y] assms by simp_all
qed

lemma pkgs_of_frame: "frame p st st' \<Longrightarrow> a < length (st_abs st') \<Longrightarrow> pkgs_of st' a = (if a < length (st_abs st) then pkgs_of st a else [])"
  by (auto simp: frame_def pkgs_of_def split: if_splits)

lemma linking_store_ok:
  assumes "store_ok st" and "linking ab p st st'"
  shows "store_ok st'"
proof -
  have f: "frame p st st'" and l: "links_ok st'" and r: "refs_ok (length (st_abs st')) (st_pkgs st' ! p)"
    using assms(2) by (simp_all add: linking_def linked_def)
  have len: "length (st_abs st) \<le> length (st_abs st')" "length (st_pkgs st') = length (st_pkgs st)" using f by (simp_all add: frame_def)
  have "member_ok st' a q" if a: "a < length (st_abs st')" and q: "q \<in> set (pkgs_of st' a)" for a q
  proof -
    have a': "a < length (st_abs st)" using pkgs_of_frame[OF f a] q by (auto split: if_splits)
    then have m: "member_ok st a q" using q pkgs_of_frame[OF f a] assms(1) by (simp add: store_ok_def)
    have name: "a_name (st_abs st' ! a) = a_name (st_abs st ! a)" using f a a' by (simp add: frame_def)
    show ?thesis
    proof (cases "q = p")
      case True
      have "core (st_pkgs st' ! p) = core (st_pkgs st ! p)" using f by (simp add: frame_def)
      then show ?thesis using m name len r True core_fields[of "st_pkgs st' ! p" "st_pkgs st ! p"] by (simp add: member_ok_def)
    next
      case False
      then have "st_pkgs st' ! q = st_pkgs st ! q" using f by (simp add: frame_def)
      then show ?thesis using m name len refs_ok_mono[OF _ len(1)] by (auto simp: member_ok_def)
    qed
  qed
  moreover have "distinct (pkgs_of st' a)" if "a < length (st_abs st')" for a
    using pkgs_of_frame[OF f that] assms(1) by (simp add: store_ok_def)
  ultimately show ?thesis using l by (simp add: store_ok_def)
qed

text \<open>The vector of the package's name after it has been merged, and what is in it.\<close>

lemma insert_merge_ok:
  assumes "links_ok st" and members: "\<forall>b < length (st_abs st). \<forall>r \<in> set (pkgs_of st b). member_ok st b r"
    and a: "a < length (st_abs st)" and "unused st p"
    and pkg: "identity_ok (st_pkgs st ! p)" "short_strings (st_pkgs st ! p)" "refs_ok (length (st_abs st)) (st_pkgs st ! p)"
      "p_name (st_pkgs st ! p) = Some (a_name (st_abs st ! a))"
    and distinct: "\<forall>b < length (st_abs st). distinct (pkgs_of st b)"
  shows "\<exists>q vec st'. pkg_vec_insert_merge st (pkgs_of st a) p set_status = Some (q, vec, st') \<and>
    st_abs st' = st_abs st \<and> st_hash st' = st_hash st \<and> length (st_pkgs st') = length (st_pkgs st) \<and>
    (\<forall>r. r \<noteq> q \<longrightarrow> st_pkgs st' ! r = st_pkgs st ! r) \<and> q \<in> set vec \<and> set vec \<subseteq> insert q (set (pkgs_of st a)) \<and>
    q < length (st_pkgs st) \<and> (\<forall>b < length (st_abs st). b \<noteq> a \<longrightarrow> q \<notin> set (pkgs_of st b)) \<and>
    identity_ok (st_pkgs st' ! q) \<and> short_strings (st_pkgs st' ! q) \<and> refs_ok (length (st_abs st)) (st_pkgs st' ! q) \<and>
    p_name (st_pkgs st' ! q) = Some (a_name (st_abs st ! a)) \<and> (q = p \<or> q \<in> set (pkgs_of st a)) \<and> distinct vec"
proof -
  let ?pkg = "st_pkgs st ! p"
  have p: "p < length (st_pkgs st)" "\<forall>b < length (st_abs st). p \<notin> set (pkgs_of st b)" using assms(4) by (simp_all add: unused_def)
  have vec: "\<forall>q \<in> set (pkgs_of st a). q < length (st_pkgs st) \<and> identity_ok (st_pkgs st ! q)"
    using members a by (simp add: member_ok_def)
  obtain r where r: "find_same st ?pkg (pkgs_of st a) = Some r" "\<forall>i. r = Some i \<longrightarrow> i < length (pkgs_of st a)"
    using find_same_ok[OF pkg(1) vec] by blast
  have p_at: "pkg_at st p = Some ?pkg" using p by (simp add: pkg_at_def)
  have d: "distinct (pkgs_of st a)" "p \<notin> set (pkgs_of st a)" using distinct p(2) a by simp_all
  consider (new) "r = None" | (status) i where "r = Some i" "set_status" | (replace) i where "r = Some i" "\<not> set_status" by (cases r) auto
  then show ?thesis
  proof cases
    case new
    then show ?thesis using r p p_at pkg d by (simp add: pkg_vec_insert_merge_def) blast
  next
    case (replace i)
    have "set ((pkgs_of st a)[i := p]) \<subseteq> insert p (set (pkgs_of st a))" by (rule set_update_subset_insert)
    moreover have "p \<in> set ((pkgs_of st a)[i := p])" using r(2) replace(1) by (simp add: set_update_memI)
    moreover have "distinct ((pkgs_of st a)[i := p])" using d by (simp add: distinct_list_update)
    ultimately show ?thesis using r p p_at pkg replace by (simp add: pkg_vec_insert_merge_def)
  next
    case (status i)
    let ?q = "pkgs_of st a ! i" and ?old = "st_pkgs st ! (pkgs_of st a ! i)"
    have q: "?q \<in> set (pkgs_of st a)" using r(2) status(1) by simp
    then have m: "member_ok st a ?q" using members a by simp
    have "?q \<notin> set (pkgs_of st b)" if "b < length (st_abs st)" "b \<noteq> a" for b
    proof
      assume "?q \<in> set (pkgs_of st b)"
      then have "member_ok st b ?q" using members that(1) by simp
      then show False using m that(2) by (simp add: member_ok_def)
    qed
    moreover have "identity_ok (pkg_merge ?old ?pkg True)" "p_name (pkg_merge ?old ?pkg True) = Some (a_name (st_abs st ! a))"
      using merge_keeps_identity[of ?old ?pkg True] m by (simp_all add: member_ok_def)
    moreover have "short_strings (pkg_merge ?old ?pkg True)" "refs_ok (length (st_abs st)) (pkg_merge ?old ?pkg True)"
      using merge_short[of ?old ?pkg True] merge_refs[of _ ?old ?pkg True] m pkg by (simp_all add: member_ok_def)
    ultimately show ?thesis using r(1) p_at status q m d(1)
      by (simp add: pkg_vec_insert_merge_def pkg_update_def member_ok_def) blast
  qed
qed

lemma pkgs_of_grows: "grows st st' \<Longrightarrow> a < length (st_abs st') \<Longrightarrow> pkgs_of st' a = (if a < length (st_abs st) then pkgs_of st a else [])"
  by (auto simp: grows_def pkgs_of_def nth_append abstract_pkg_new_def)

lemma members_grow:
  assumes "store_ok st" and "grows st st1" and "unused st p"
    and "st_abs st2 = st_abs st1" and "length (st_pkgs st2) = length (st_pkgs st1)" and "\<forall>r. r \<noteq> p \<longrightarrow> st_pkgs st2 ! r = st_pkgs st1 ! r"
  shows "(\<forall>b < length (st_abs st2). \<forall>r \<in> set (pkgs_of st2 b). member_ok st2 b r) \<and> unused st2 p \<and>
    (\<forall>b < length (st_abs st2). distinct (pkgs_of st2 b))"
proof -
  have of: "pkgs_of st2 b = (if b < length (st_abs st) then pkgs_of st b else [])" if "b < length (st_abs st2)" for b
    using pkgs_of_grows[OF assms(2)] that assms(4) by (simp add: pkgs_of_def)
  have un: "unused st2 p" using assms(2,3,5) of by (auto simp: unused_def grows_def)
  have "member_ok st2 b r" if b: "b < length (st_abs st2)" and r: "r \<in> set (pkgs_of st2 b)" for b r
  proof -
    have b': "b < length (st_abs st)" "r \<in> set (pkgs_of st b)" using of[OF b] r by (auto split: if_splits)
    then have m: "member_ok st b r" using assms(1) by (simp add: store_ok_def)
    have "r \<noteq> p" using b' assms(3) by (auto simp: unused_def)
    then have "st_pkgs st2 ! r = st_pkgs st ! r" using assms(2,6) by (simp add: grows_def)
    moreover have "st_abs st2 ! b = st_abs st ! b" using grows_nth[OF assms(2) b'(1)] assms(4) by simp
    moreover have "length (st_abs st) \<le> length (st_abs st2)" using grows_length[OF assms(2)] assms(4) by simp
    ultimately show ?thesis using m refs_ok_mono assms(2,5) by (auto simp: member_ok_def grows_def)
  qed
  moreover have "distinct (pkgs_of st2 b)" if "b < length (st_abs st2)" for b using of[OF that] assms(1) by (simp add: store_ok_def)
  ultimately show ?thesis using un by blast
qed

lemma update_same: "length ys = length xs \<Longrightarrow> \<forall>r. r \<noteq> q \<longrightarrow> ys ! r = xs ! r \<Longrightarrow> ys[q := x] = xs[q := x]"
proof (rule nth_equalityI)
  fix i assume "length ys = length xs" "\<forall>r. r \<noteq> q \<longrightarrow> ys ! r = xs ! r" "i < length (ys[q := x])"
  then show "ys[q := x] ! i = xs[q := x] ! i" by (cases "i = q") auto
qed simp

text \<open>
  A store in which the package at \<open>p\<close> is parsed and its name is entered, while it is in no vector.
\<close>

definition named :: "store \<Rightarrow> nat \<Rightarrow> nat \<Rightarrow> bool" where
  "named st a p \<longleftrightarrow> links_ok st \<and> (\<forall>b < length (st_abs st). \<forall>r \<in> set (pkgs_of st b). member_ok st b r) \<and>
     (\<forall>b < length (st_abs st). distinct (pkgs_of st b)) \<and> unused st p \<and>
     a < length (st_abs st) \<and> identity_ok (st_pkgs st ! p) \<and> short_strings (st_pkgs st ! p) \<and>
     refs_ok (length (st_abs st)) (st_pkgs st ! p) \<and> p_name (st_pkgs st ! p) = Some (a_name (st_abs st ! a))"

text \<open>No name and no vector gets lost.\<close>

definition retained :: "store \<Rightarrow> store \<Rightarrow> bool" where
  "retained st st' \<longleftrightarrow> length (st_abs st) \<le> length (st_abs st') \<and> (\<forall>b < length (st_abs st).
     a_name (st_abs st' ! b) = a_name (st_abs st ! b) \<and> (pkgs_of st b \<noteq> [] \<longrightarrow> pkgs_of st' b \<noteq> []))"

lemma retained_refl [simp]: "retained st st"
  by (simp add: retained_def)

lemma retained_trans [trans]: "retained st st1 \<Longrightarrow> retained st1 st2 \<Longrightarrow> retained st st2"
  by (auto simp: retained_def dest: less_le_trans)

lemma retained_frame: "frame p st st' \<Longrightarrow> retained st st'"
  by (auto simp: retained_def frame_def pkgs_of_def)

lemma retained_grows: "grows st st' \<Longrightarrow> retained st st'"
  by (auto simp: retained_def grows_def nth_append pkgs_of_def)

lemma note_status_keeps:
  "a_name (note_status s pkg x) = a_name x \<and> a_pkgs (note_status s pkg x) = a_pkgs x"
  "abs_ok n x \<Longrightarrow> abs_ok n (note_status s pkg x)"
  by (simp_all add: abs_ok_def note_status_def)

lemma enter_name_ok:
  assumes "store_ok st" and "unused st p" and "parsed_ok (st_pkgs st ! p)"
  shows "\<exists>a st'. enter_name st p set_status = Some (a, st') \<and> named st' a p \<and>
    p_name (st_pkgs st ! p) = Some (a_name (st_abs st' ! a)) \<and> (\<forall>q \<in> set (pkgs_of st' a). a < length (st_abs st) \<and> q \<in> set (pkgs_of st a)) \<and>
    retained st st'"
proof -
  let ?pkg = "st_pkgs st ! p"
  have links: "links_ok st" using assms(1) by (simp add: store_ok_def)
  obtain name where name: "p_name ?pkg = Some name" using assms(3) by (auto simp: parsed_ok_def identity_ok_def)
  have p: "p < length (st_pkgs st)" using assms(2) by (simp add: unused_def)
  obtain pkg1 st1 where 1: "buildDepends st ?pkg = Some (pkg1, st1)" "links_ok st1" "grows st st1" "core pkg1 = core ?pkg"
    "refs_ok (length (st_abs st1)) pkg1" using buildDepends_ok[OF links assms(3)] by blast
  let ?st2 = "st1\<lparr>st_pkgs := (st_pkgs st1)[p := pkg1]\<rparr>"
  have p1: "p < length (st_pkgs st1)" "length (st_pkgs st1) = length (st_pkgs st)" using p 1(3) by (simp_all add: grows_def)
  have 2: "pkg_update p (\<lambda>_. pkg1) st1 = Some ?st2" "links_ok ?st2" using p1 1(2) by (simp_all add: pkg_update_def links_ok_def names_ok_def)
  obtain a st3 where 3: "ensure_abstract_pkg_by_name ?st2 name = Some (a, st3)" "links_ok st3" "grows ?st2 st3"
    "a < length (st_abs st3)" "a_name (st_abs st3 ! a) = name" using ensure_ok[OF 2(2)] by blast
  have "p < length (st_pkgs st3)" using 3(3) p1 by (simp add: grows_def)
  then obtain st4 where 4: "abs_update a (note_status set_status pkg1) st3 = Some st4" "linked p st3 st4"
    "length (st_abs st4) = length (st_abs st3)" "st_pkgs st4 = st_pkgs st3"
    using linked_abs[OF linked_refl[OF 3(2)] 3(4), of p "note_status set_status pkg1"] note_status_keeps by blast
  have f4: "frame p st3 st4" using 4(2) by (simp add: linked_def)
  define st3' where "st3' = st3\<lparr>st_pkgs := st_pkgs st\<rparr>"
  have g: "grows st st3'" using 1(3) 3(3) by (auto simp: grows_def st3'_def simp flip: map_append)
  have mem3: "(\<forall>b < length (st_abs st3). \<forall>r \<in> set (pkgs_of st3 b). member_ok st3 b r) \<and> unused st3 p \<and>
    (\<forall>b < length (st_abs st3). distinct (pkgs_of st3 b))"
  proof (rule members_grow[OF assms(1) g assms(2)])
    show "length (st_pkgs st3) = length (st_pkgs st3')" "\<forall>r. r \<noteq> p \<longrightarrow> st_pkgs st3 ! r = st_pkgs st3' ! r"
      using 3(3) 1(3) p1 by (simp_all add: grows_def st3'_def)
  qed (simp add: st3'_def)
  have of4: "pkgs_of st4 b = pkgs_of st3 b" if "b < length (st_abs st3)" for b using pkgs_of_frame[OF f4] that 4(3) by simp
  have mem4: "\<forall>b < length (st_abs st4). \<forall>r \<in> set (pkgs_of st4 b). member_ok st4 b r" and un4: "unused st4 p"
    and d4: "\<forall>b < length (st_abs st4). distinct (pkgs_of st4 b)"
    using mem3 of4 4(3,4) f4 by (simp_all add: member_ok_def unused_def frame_def)
  have pkg4: "st_pkgs st4 ! p = pkg1" using 4(4) 3(3) p1 by (simp add: grows_def)
  have "identity_ok pkg1" "short_strings pkg1" "refs_ok (length (st_abs st4)) pkg1" "p_name pkg1 = Some name"
    using core_fields[OF 1(4)] assms(3) name refs_ok_mono[OF 1(5)] grows_length[OF 3(3)] 4(3) by (simp_all add: parsed_ok_def)
  moreover have "a_name (st_abs st4 ! a) = name" using 3(4,5) 4(3) f4 by (simp add: frame_def)
  ultimately have "named st4 a p" using 4(2,3) 3(4) mem4 un4 d4 pkg4 by (simp add: named_def linked_def)
  moreover have "\<forall>q \<in> set (pkgs_of st4 a). a < length (st_abs st) \<and> q \<in> set (pkgs_of st a)"
    using of4[OF 3(4)] 3(4) pkgs_of_grows[OF g, of a] by (auto simp: st3'_def pkgs_of_def split: if_splits)
  moreover have "enter_name st p set_status = Some (a, st4)"
    using 1(1) 2(1) 3(1) 4(1) p name core_fields(1)[OF 1(4)] by (simp add: enter_name_def pkg_at_def)
  moreover have "retained st st3" using retained_grows[OF g] by (simp add: retained_def st3'_def pkgs_of_def)
  then have "retained st st4" using retained_frame[OF f4] by (rule retained_trans)
  ultimately show ?thesis using name \<open>a_name (st_abs st4 ! a) = name\<close> by blast
qed

lemma enter_vector_ok:
  assumes "named st a p"
  shows "\<exists>q st'. enter_vector st a p set_status = Some (q, st') \<and> store_ok st' \<and> q \<in> set (pkgs_of st' a) \<and>
    a < length (st_abs st') \<and> a_name (st_abs st' ! a) = a_name (st_abs st ! a) \<and> (q = p \<or> q \<in> set (pkgs_of st a)) \<and> retained st st'"
proof -
  have n: "links_ok st" "\<forall>b < length (st_abs st). \<forall>r \<in> set (pkgs_of st b). member_ok st b r" "a < length (st_abs st)" "unused st p"
    "identity_ok (st_pkgs st ! p)" "short_strings (st_pkgs st ! p)" "refs_ok (length (st_abs st)) (st_pkgs st ! p)"
    "p_name (st_pkgs st ! p) = Some (a_name (st_abs st ! a))" "\<forall>b < length (st_abs st). distinct (pkgs_of st b)"
    using assms by (simp_all add: named_def)
  obtain q vec st1 where 1: "pkg_vec_insert_merge st (pkgs_of st a) p set_status = Some (q, vec, st1)"
    "st_abs st1 = st_abs st" "st_hash st1 = st_hash st" "length (st_pkgs st1) = length (st_pkgs st)"
    "\<forall>r. r \<noteq> q \<longrightarrow> st_pkgs st1 ! r = st_pkgs st ! r" "q \<in> set vec" "set vec \<subseteq> insert q (set (pkgs_of st a))"
    "q < length (st_pkgs st)" "\<forall>b < length (st_abs st). b \<noteq> a \<longrightarrow> q \<notin> set (pkgs_of st b)"
    "identity_ok (st_pkgs st1 ! q)" "short_strings (st_pkgs st1 ! q)" "refs_ok (length (st_abs st)) (st_pkgs st1 ! q)"
    "p_name (st_pkgs st1 ! q) = Some (a_name (st_abs st ! a))" "q = p \<or> q \<in> set (pkgs_of st a)" "distinct vec"
    using insert_merge_ok[OF n, of set_status] by blast
  define st2 where "st2 = st1\<lparr>st_abs := (st_abs st1)[a := (st_abs st1 ! a)\<lparr>a_pkgs := Some vec\<rparr>]\<rparr>"
  define st3 where "st3 = st2\<lparr>st_pkgs := (st_pkgs st2)[q := (st_pkgs st2 ! q)\<lparr>p_parent := Some a\<rparr>]\<rparr>"
  have "store_ok st3"
  proof (rule put_in_vector[OF n(1-3) 1(8) 1(10-13) 1(7) 1(9)])
    show "st_pkgs st3 = (st_pkgs st)[q := (st_pkgs st1 ! q)\<lparr>p_parent := Some a\<rparr>]"
      using update_same[OF 1(4,5)] by (simp add: st3_def st2_def)
  qed (simp_all add: st3_def st2_def 1(2,3,15) n(9))
  moreover have "q \<in> set (pkgs_of st3 a)" using 1(2,6) n(3) by (simp add: st3_def st2_def pkgs_of_def)
  moreover have "a < length (st_abs st3)" "a_name (st_abs st3 ! a) = a_name (st_abs st ! a)"
    using n(3) 1(2) by (simp_all add: st3_def st2_def)
  moreover have "retained st st3"
    using 1(2,6) n(3) by (auto simp: retained_def st3_def st2_def pkgs_of_def nth_list_update)
  moreover have "enter_vector st a p set_status = Some (q, st3)"
  proof -
    have "abs_update a (\<lambda>a. a\<lparr>a_pkgs := Some vec\<rparr>) st1 = Some st2" using n(3) 1(2) by (simp add: abs_update_def st2_def)
    moreover have "pkg_update q (\<lambda>pkg. pkg\<lparr>p_parent := Some a\<rparr>) st2 = Some st3"
      using 1(4,8) by (simp add: pkg_update_def st3_def) (simp add: st2_def)
    moreover have "abs_at st a = Some (st_abs st ! a)" using n(3) by (simp add: abs_at_def)
    ultimately show ?thesis using 1(1) unfolding enter_vector_def pkgs_of_def by simp
  qed
  ultimately show ?thesis using 1(14) by (intro exI[of _ q] exI[of _ st3]) simp
qed

lemma build_links_ok:
  assumes "store_ok st" and "a < length (st_abs st)" and "q \<in> set (pkgs_of st a)"
  shows "\<exists>st'. build_links st a q = Some st' \<and> linking a q st st'"
proof -
  have "member_ok st a q" using assms by (simp add: store_ok_def)
  then have l0: "linking a q st st" and s0: "short_strings (st_pkgs st ! q)"
    using assms linked_refl[of st q] by (simp_all add: linking_def member_ok_def store_ok_def)
  obtain st1 where 1: "buildProvides st a q = Some st1" "linking a q st st1" using buildProvides_ok[OF l0] by blast
  have s1: "short_strings (st_pkgs st1 ! q)" using 1(2) s0 core_fields(4)[of "st_pkgs st1 ! q" "st_pkgs st ! q"]
    by (simp add: linking_def linked_def frame_def)
  obtain st2 where 2: "buildConflicts st1 q = Some st2" "linking a q st st2" using buildConflicts_ok[OF 1(2) s1] by blast
  obtain st3 where 3: "buildReplaces st2 a q = Some st3" "linking a q st st3" using buildReplaces_ok[OF 2(2)] by blast
  obtain st4 where "buildDependedUponBy st3 q a = Some st4" "linking a q st st4" using buildDependedUponBy_ok[OF 3(2)] by blast
  then show ?thesis using 1 2 3 by (simp add: build_links_def)
qed

lemma hash_insert_pkg_ok:
  assumes "store_ok st" and "unused st p" and "parsed_ok (st_pkgs st ! p)"
  shows "\<exists>q st' a. hash_insert_pkg st p set_status = Some (q, st') \<and> store_ok st' \<and>
    hash_map (st_hash st') (the (p_name (st_pkgs st ! p))) = Some a \<and> q \<in> set (pkgs_of st' a) \<and>
    p_parent (st_pkgs st' ! q) = Some a \<and> (q = p \<or> a < length (st_abs st) \<and> q \<in> set (pkgs_of st a)) \<and> retained st st'"
proof -
  obtain a st1 where 1: "enter_name st p set_status = Some (a, st1)" "named st1 a p"
    "p_name (st_pkgs st ! p) = Some (a_name (st_abs st1 ! a))"
    "\<forall>q \<in> set (pkgs_of st1 a). a < length (st_abs st) \<and> q \<in> set (pkgs_of st a)" "retained st st1" using enter_name_ok[OF assms] by blast
  obtain q st2 where 2: "enter_vector st1 a p set_status = Some (q, st2)" "store_ok st2" "q \<in> set (pkgs_of st2 a)"
    "a < length (st_abs st2)" "a_name (st_abs st2 ! a) = a_name (st_abs st1 ! a)" "q = p \<or> q \<in> set (pkgs_of st1 a)" "retained st1 st2"
    using enter_vector_ok[OF 1(2)] by blast
  obtain st3 where 3: "build_links st2 a q = Some st3" "linking a q st2 st3" using build_links_ok[OF 2(2,4,3)] by blast
  have ok: "store_ok st3" using linking_store_ok[OF 2(2) 3(2)] .
  have f: "frame q st2 st3" using 3(2) by (simp add: linking_def linked_def)
  then have a: "a < length (st_abs st3)" "a_name (st_abs st3 ! a) = a_name (st_abs st1 ! a)" "q \<in> set (pkgs_of st3 a)"
    using 2(3-5) pkgs_of_frame[OF f, of a] by (auto simp: frame_def)
  then have "member_ok st3 a q" "hash_map (st_hash st3) (a_name (st_abs st1 ! a)) = Some a"
    using ok by (simp_all add: store_ok_def links_ok_def names_ok_def)
  moreover have "hash_insert_pkg st p set_status = Some (q, st3)" using 1(1) 2(1) 3(1) by (simp add: hash_insert_pkg_def)
  moreover have "retained st st3" using retained_trans[OF retained_trans[OF 1(5) 2(7)] retained_frame[OF f]] .
  ultimately show ?thesis using ok a(3) 1(3,4) 2(6) by (auto simp: member_ok_def)
qed

section \<open>Property\<close>

text \<open>
  C5. Reading a package into the store never faults and keeps the store in order, whatever it
  depends on: when the store satisfies the invariant and the package has been parsed (it has a name,
  an architecture and a version, and no dependency of 2048 characters or more, and no NUL inside them), entering it
  succeeds, the table finds its name, and the package that is returned is in the vector of that
  name and points to it: the new one, or the one it is merged with.
\<close>

theorem hash_insert_pkg_keeps_store:
  assumes "store_ok st" and "unused st p" and "parsed_ok (st_pkgs st ! p)"
  shows "\<exists>q st' a. hash_insert_pkg st p set_status = Some (q, st') \<and> store_ok st' \<and>
    hash_map (st_hash st') (the (p_name (st_pkgs st ! p))) = Some a \<and> q \<in> set (pkgs_of st' a) \<and>
    p_parent (st_pkgs st' ! q) = Some a \<and> (q = p \<or> a < length (st_abs st) \<and> q \<in> set (pkgs_of st a))"
  using hash_insert_pkg_ok[OF assms] by blast

text \<open>A store with no names and one package that has been read.\<close>

definition example_store :: "pkg \<Rightarrow> store" where
  "example_store pkg = \<lparr>st_hash = snd (snd (hash_table_init True ''pkg_hash'' \<lparr>ht_name = [], ht_entries = [], ht_n_elements = 0\<rparr> 1000)),
     st_abs = [], st_pkgs = [pkg]\<rparr>"

lemma example_store_ok: "store_ok (example_store pkg) \<and> unused (example_store pkg) 0"
proof -
  obtain w h where "hash_table_init True ''pkg_hash'' \<lparr>ht_name = [], ht_entries = [], ht_n_elements = 0\<rparr> 1000 = (0, w, h)"
    "hash_ok h" "hash_map h = (Map.empty :: string \<Rightarrow> nat option)"
    using hash_table_init_ok[of "\<lparr>ht_name = [], ht_entries = [], ht_n_elements = 0\<rparr>" "''pkg_hash''" 1000] by auto
  then show ?thesis by (simp add: example_store_def store_ok_def links_ok_def names_ok_def unused_def)
qed

lemma hash_insert_pkg_keeps_store_witness:
  "\<exists>st' a. hash_insert_pkg (example_store ((example_pkg ''1.0'')\<lparr>p_name := Some ''vi'', p_architecture := Some ''arm'', p_depends_str := [''libc (>= 2)'']\<rparr>)) 0 True = Some (0, st') \<and>
     store_ok st' \<and> hash_map (st_hash st') ''vi'' = Some a \<and> 0 \<in> set (pkgs_of st' a)"
proof -
  let ?pkg = "(example_pkg ''1.0'')\<lparr>p_name := Some ''vi'', p_architecture := Some ''arm'', p_depends_str := [''libc (>= 2)'']\<rparr>"
  have "parsed_ok ?pkg"
    by (simp add: parsed_ok_def identity_ok_def short_strings_def c_version_def example_pkg_def pkg_init_def str_of_def plain_src_def DEPEND_BUFFER_def)
  then have "parsed_ok (st_pkgs (example_store ?pkg) ! 0)" by (simp add: example_store_def)
  then show ?thesis
    using hash_insert_pkg_keeps_store[OF example_store_ok[THEN conjunct1] example_store_ok[THEN conjunct2], of ?pkg True]
    by (auto simp: example_store_def example_pkg_def)
qed

end
