(* ===== verification/OpkgDepends.thy ===== *)
theory OpkgDepends
  imports OpkgStoreInv
begin

text \<open>
  What the dependencies of a package mean once they are in the store: a dependency that is written
  as alternatives with constraints is read as these alternatives; the string that is reported for a
  dependency is the one it was parsed from; and who is noted to depend on a package.
\<close>

section \<open>Writing a dependency\<close>

type_synonym alternative = "string \<times> (version_constraint \<times> string) option"

fun constraint_str :: "version_constraint \<Rightarrow> string" where
  "constraint_str EARLIER = ''<<''"
| "constraint_str EARLIER_EQUAL = ''<=''"
| "constraint_str EQUAL = ''=''"
| "constraint_str LATER_EQUAL = ''>=''"
| "constraint_str LATER = ''>>''"
| "constraint_str NONE = []"

definition print_alternative :: "alternative \<Rightarrow> string" where
  "print_alternative alt = fst alt @ (case snd alt of None \<Rightarrow> []
     | Some (c, v) \<Rightarrow> '' ('' @ constraint_str c @ '' '' @ v @ '')'')"

fun print_depend :: "alternative list \<Rightarrow> string" where
  "print_depend [] = []"
| "print_depend [alt] = print_alternative alt"
| "print_depend (alt # alts) = print_alternative alt @ '' | '' @ print_depend alts"

definition plain_alternative :: "alternative \<Rightarrow> bool" where
  "plain_alternative alt \<longleftrightarrow> fst alt \<noteq> [] \<and> (\<forall>c \<in> set (fst alt). name_char c \<and> c \<noteq> CHR '')'') \<and> length (fst alt) < DEPEND_BUFFER \<and>
     (case snd alt of None \<Rightarrow> True
      | Some (c, v) \<Rightarrow> c \<noteq> NONE \<and> v \<noteq> [] \<and> CHR '')'' \<notin> set v \<and> CHR ''|'' \<notin> set v \<and> \<not> isspace (hd v) \<and> \<not> isspace (last v) \<and>
          length v < DEPEND_BUFFER)"

text \<open>What an alternative is stored as.\<close>

definition stored_as :: "store \<Rightarrow> depend \<Rightarrow> alternative \<Rightarrow> bool" where
  "stored_as st d alt \<longleftrightarrow> d_pkg d < length (st_abs st) \<and> a_name (st_abs st ! d_pkg d) = fst alt \<and>
     (case snd alt of None \<Rightarrow> d_constraint d = NONE \<and> d_version d = None
      | Some (c, v) \<Rightarrow> d_constraint d = c \<and> d_version d = Some v)"

section \<open>Reading it\<close>

lemma isspace_simps [simp]:
  "isspace (CHR '' '')" "\<not> isspace (CHR ''('')" "\<not> isspace (CHR '')'')" "\<not> isspace (CHR ''|'')" "\<not> isspace (CHR ''*'')"
  "\<not> isspace (CHR ''<'')" "\<not> isspace (CHR ''='')" "\<not> isspace (CHR ''>'')" "\<not> isspace NUL"
  by (simp_all add: isspace_def ord_c_def)

lemma dropWhile_hd: "xs = [] \<or> \<not> P (hd xs) \<Longrightarrow> dropWhile P xs = xs"
  by (cases xs) auto

lemma trim_alloc_plain:
  assumes "v \<noteq> []" and "\<not> isspace (hd v)" and "\<not> isspace (last v)"
  shows "trim_alloc v = v"
  using assms by (simp add: trim_alloc_def dropWhile_hd hd_rev)

lemma parse_constraint_print:
  assumes "c \<noteq> NONE"
  shows "parse_constraint (constraint_str c @ CHR '' '' # s) = (c, CHR '' '' # s)"
  using assms by (cases c) (simp_all add: parse_constraint_def)

text \<open>The rest behind an alternative and what is left for the next one.\<close>

definition follows :: "string \<Rightarrow> string \<Rightarrow> bool" where
  "follows rest next \<longleftrightarrow> rest = [] \<and> next = [] \<or>
     rest = '' | '' @ next \<and> next \<noteq> [] \<and> \<not> sep_char (hd next) \<and> hd next \<noteq> CHR ''*''"

lemma follows_drop: "follows rest next \<Longrightarrow> dropWhile sep_char rest = next \<and> dropWhile sep_char (dropWhile isspace rest) = next \<and> c_at next 0 \<noteq> CHR ''*''"
  by (cases "next") (auto simp: follows_def sep_char_def)

lemma follows_name: "follows rest next \<Longrightarrow> (rest = [] \<or> \<not> name_char (hd rest)) \<and> c_at (dropWhile isspace rest) 0 \<noteq> CHR ''(''"
  by (auto simp: follows_def name_char_def)

lemma parse_alternative:
  assumes "plain_alternative alt" and "follows rest next" and "links_ok st"
  shows "\<exists>d st'. parse_possibility st (print_alternative alt @ rest) = Some (d, False, next, st') \<and> links_ok st' \<and> grows st st' \<and>
    stored_as st' d alt"
proof -
  obtain name con where alt: "alt = (name, con)" by (cases alt)
  have n: "name \<noteq> []" "\<forall>c \<in> set name. name_char c" "length name < DEPEND_BUFFER" using assms(1) by (auto simp: plain_alternative_def alt)
  have ns: "\<not> isspace (hd name)" "\<not> isspace (last name)" using n(1,2) by (auto simp: name_char_def)
  obtain a st' where a: "ensure_abstract_pkg_by_name st name = Some (a, st')" "links_ok st'" "grows st st'" "a < length (st_abs st')"
    "a_name (st_abs st' ! a) = name" using ensure_ok[OF assms(3)] by blast
  show ?thesis
  proof (cases con)
    case None
    have "takeWhile name_char (name @ rest) = name" using n(2) follows_name[OF assms(2)] by (cases rest) (auto simp: takeWhile_append)
    then show ?thesis using None n ns a follows_drop[OF assms(2)] follows_name[OF assms(2)]
      by (auto simp: parse_possibility_def print_alternative_def alt Let_def trim_alloc_plain stored_as_def not_le)
  next
    case (Some cv)
    obtain c v where cv: "cv = (c, v)" by (cases cv)
    have v: "c \<noteq> NONE" "v \<noteq> []" "CHR '')'' \<notin> set v" "\<not> isspace (hd v)" "\<not> isspace (last v)" "length v < DEPEND_BUFFER"
      using assms(1) by (simp_all add: plain_alternative_def alt Some cv)
    let ?tail = "'' ('' @ constraint_str c @ '' '' @ v @ '')'' @ rest"
    have "\<not> name_char (CHR '' '')" by (simp add: name_char_def)
    then have tw: "takeWhile name_char (name @ ?tail) = name" using n(2) by (simp add: takeWhile_append)
    have dw: "dropWhile isspace (CHR '' '' # v @ '')'' @ rest) = v @ '')'' @ rest" using v(2,4) by (cases v) auto
    have tv: "takeWhile (\<lambda>c. c \<noteq> CHR '')'') (v @ '')'' @ rest) = v" using v(3) by (auto simp: takeWhile_append)
    have sep: "dropWhile sep_char ('')'' @ rest) = next" using follows_drop[OF assms(2)] by (simp add: sep_char_def)
    have pa: "print_alternative alt @ rest = name @ ?tail" by (simp add: print_alternative_def alt Some cv)
    have "parse_possibility st (name @ ?tail) = Some (\<lparr>d_constraint = c, d_version = Some v, d_pkg = a\<rparr>, False, next, st')"
      unfolding parse_possibility_def Let_def tw
      using n ns a(1) v parse_constraint_print[OF v(1), of "v @ '')'' @ rest"] dw tv sep follows_drop[OF assms(2)]
      by (simp add: not_le trim_alloc_plain)
    then show ?thesis using a v(1) unfolding pa by (auto simp: stored_as_def alt Some cv)
  qed
qed

lemma stored_as_grows: "stored_as st d alt \<Longrightarrow> grows st st' \<Longrightarrow> stored_as st' d alt"
  using grows_length[of st st'] grows_nth[of st st' "d_pkg d"] by (auto simp: stored_as_def)

lemma print_depend_hd:
  assumes "plain_alternative alt"
  shows "print_depend (alt # alts) \<noteq> [] \<and> \<not> sep_char (hd (print_depend (alt # alts))) \<and> hd (print_depend (alt # alts)) \<noteq> CHR ''*''"
proof -
  have "name_char (hd (fst alt))" "hd (fst alt) \<noteq> CHR '')''" "fst alt \<noteq> []" using assms by (auto simp: plain_alternative_def)
  moreover have "hd (print_depend (alt # alts)) = hd (fst alt) \<and> print_depend (alt # alts) \<noteq> []"
    using \<open>fst alt \<noteq> []\<close> by (cases alts) (auto simp: print_alternative_def)
  ultimately show ?thesis by (auto simp: name_char_def sep_char_def)
qed

lemma parse_alternatives:
  "alts \<noteq> [] \<Longrightarrow> \<forall>alt \<in> set alts. plain_alternative alt \<Longrightarrow> links_ok st \<Longrightarrow>
   \<exists>ds st'. parse_possibilities (length alts) st (print_depend alts) = Some (ds, False, st') \<and> links_ok st' \<and> grows st st' \<and>
     list_all2 (stored_as st') ds alts"
proof (induction alts arbitrary: st)
  case (Cons alt alts)
  show ?case
  proof (cases alts)
    case Nil
    have "follows [] []" by (simp add: follows_def)
    from parse_alternative[OF _ this Cons.prems(3), of alt] Cons.prems(2) Nil show ?thesis by auto
  next
    case (Cons alt2 alts2)
    have "follows ('' | '' @ print_depend alts) (print_depend alts)"
      using print_depend_hd[of alt2 alts2] Cons Cons.prems(2) by (simp add: follows_def)
    from parse_alternative[OF _ this Cons.prems(3), of alt] Cons.prems(2)
    obtain d st1 where 1: "parse_possibility st (print_alternative alt @ '' | '' @ print_depend alts) = Some (d, False, print_depend alts, st1)"
      "links_ok st1" "grows st st1" "stored_as st1 d alt" by auto
    obtain ds st2 where 2: "parse_possibilities (length alts) st1 (print_depend alts) = Some (ds, False, st2)" "links_ok st2"
      "grows st1 st2" "list_all2 (stored_as st2) ds alts"
      using Cons.IH[OF _ _ 1(2)] Cons Cons.prems(2) by auto
    have "print_depend (alt # alts) = print_alternative alt @ '' | '' @ print_depend alts" using Cons by simp
    then show ?thesis using 1 2 stored_as_grows[OF 1(4) 2(3)] grows_trans[OF 1(3) 2(3)] by auto
  qed
qed simp

lemma no_bars:
  assumes "plain_alternative alt"
  shows "filter (\<lambda>c. c = CHR ''|'') (print_alternative alt) = []"
proof -
  have "CHR ''|'' \<notin> set (fst alt)" using assms by (auto simp: plain_alternative_def name_char_def)
  moreover have "CHR ''|'' \<notin> set (constraint_str c)" for c by (cases c) auto
  ultimately show ?thesis using assms
    by (auto simp: print_alternative_def plain_alternative_def filter_empty_conv split: option.splits)
qed

lemma bars: "alts \<noteq> [] \<Longrightarrow> \<forall>alt \<in> set alts. plain_alternative alt \<Longrightarrow>
   Suc (length (filter (\<lambda>c. c = CHR ''|'') (print_depend alts))) = length alts"
  by (induction alts rule: print_depend.induct) (simp_all add: no_bars)

section \<open>The order of the dependencies\<close>

lemma parse_all_nth:
  "parse_all st f ss = Some (cds, st') \<Longrightarrow> length cds = length ss \<and>
     (\<forall>i < length ss. \<exists>st1 cd st2. parseDepends st1 (ss ! i) = Some (cd, st2) \<and> cds ! i = cd\<lparr>cd_type := f (cd_type cd)\<rparr>)"
proof (induction ss arbitrary: st cds)
  case (Cons s ss)
  obtain cd st1 cds' where c: "parseDepends st s = Some (cd, st1)" "parse_all st1 f ss = Some (cds', st')"
    "cds = cd\<lparr>cd_type := f (cd_type cd)\<rparr> # cds'" using Cons.prems by (auto simp: option_bind_Some_iff)
  show ?case using Cons.IH[OF c(2)] c(1,3) by (auto simp: less_Suc_eq_0_disj)
qed simp

text \<open>The type of the dependency at a position.\<close>

definition depend_type_at :: "pkg \<Rightarrow> nat \<Rightarrow> depend_type \<Rightarrow> depend_type" where
  "depend_type_at pkg i t =
     (let pre = length (p_pre_depends_str pkg); rec = length (p_recommends_str pkg); sug = length (p_suggests_str pkg)
      in if i < pre then PREDEPEND else if i < pre + rec then RECOMMEND else if i < pre + rec + sug then SUGGEST else t)"

lemma buildDepends_nth:
  assumes "buildDepends st pkg = Some (pkg', st')" and "p_depends pkg = []" and "i < length (p_depends pkg')"
  shows "\<exists>s st1 cd st2. pkg_depend_str pkg' i = Some s \<and> parseDepends st1 s = Some (cd, st2) \<and>
    p_depends pkg' ! i = cd\<lparr>cd_type := depend_type_at pkg' i (cd_type cd)\<rparr>"
proof -
  have some: "\<not> (p_pre_depends_str pkg = [] \<and> p_depends_str pkg = [] \<and> p_recommends_str pkg = [] \<and> p_suggests_str pkg = [])"
    using assms by (auto simp: buildDepends_def)
  obtain c1 st1 c2 st2 c3 st3 c4 where c:
    "parse_all st (\<lambda>_. PREDEPEND) (p_pre_depends_str pkg) = Some (c1, st1)"
    "parse_all st1 (\<lambda>_. RECOMMEND) (p_recommends_str pkg) = Some (c2, st2)"
    "parse_all st2 (\<lambda>_. SUGGEST) (p_suggests_str pkg) = Some (c3, st3)"
    "parse_all st3 id (p_depends_str pkg) = Some (c4, st')" and pkg': "pkg' = pkg\<lparr>p_depends := c1 @ c2 @ c3 @ c4\<rparr>"
    using assms(1) unfolding buildDepends_def if_not_P[OF some] option_bind_Some_iff split_beta option.inject prod.inject
    by (elim exE conjE) (auto simp: prod_eq_iff)
  note n = c[THEN parse_all_nth]
  let ?pre = "length (p_pre_depends_str pkg)" and ?rec = "length (p_recommends_str pkg)" and ?sug = "length (p_suggests_str pkg)"
  have i: "i < ?pre + ?rec + ?sug + length (p_depends_str pkg)" using assms(3) n by (simp add: pkg')
  consider "i < ?pre" | "?pre \<le> i" "i < ?pre + ?rec" "i - ?pre < ?rec"
    | "?pre + ?rec \<le> i" "i < ?pre + ?rec + ?sug" "i - ?pre - ?rec < ?sug"
    | "?pre + ?rec + ?sug \<le> i" "i - ?pre - ?rec - ?sug < length (p_depends_str pkg)" using i by linarith
  then show ?thesis
  proof cases
    case 1
    then show ?thesis using n(1) by (auto simp: pkg' pkg_depend_str_def depend_type_at_def Let_def nth_append)
  next
    case 2
    then show ?thesis using n(1,2) by (auto simp: pkg' pkg_depend_str_def depend_type_at_def Let_def nth_append)
  next
    case 3
    then show ?thesis using n(1-3) by (auto simp: pkg' pkg_depend_str_def depend_type_at_def Let_def nth_append)
  next
    case 4
    then have "\<exists>st1 cd st2. parseDepends st1 (p_depends_str pkg ! (i - ?pre - ?rec - ?sug)) = Some (cd, st2) \<and> c4 ! (i - ?pre - ?rec - ?sug) = cd"
      using n(4) by simp
    then show ?thesis using n(1-3) 4 by (auto simp: pkg' pkg_depend_str_def depend_type_at_def Let_def nth_append)
  qed
qed

section \<open>Who depends on a package\<close>

lemma mfold_append: "mfold f (xs @ ys) s = Option.bind (mfold f xs s) (mfold f ys)"
  by (induction xs arbitrary: s) (auto split: option.split bind_splits)

lemma mfold_concat: "mfold (\<lambda>x. mfold f (g x)) xs = mfold f (concat (map g xs))"
proof (induction xs)
  case (Cons x xs)
  show ?case by (rule ext) (simp add: mfold_append Cons.IH)
qed (simp add: fun_eq_iff)

lemma depended_upon_count:
  "\<forall>d \<in> set ds. d_pkg d < length (st_abs st) \<Longrightarrow>
   \<exists>st'. mfold (depended_upon ab) ds st = Some st' \<and> length (st_abs st') = length (st_abs st) \<and>
     (\<forall>a < length (st_abs st). a_depended_upon_by (st_abs st' ! a) =
        a_depended_upon_by (st_abs st ! a) @ replicate (count_list (map d_pkg ds) a) ab)"
proof (induction ds arbitrary: st)
  case (Cons d ds)
  let ?st = "st\<lparr>st_abs := (st_abs st)[d_pkg d := (st_abs st ! d_pkg d)\<lparr>a_depended_upon_by := a_depended_upon_by (st_abs st ! d_pkg d) @ [ab]\<rparr>]\<rparr>"
  obtain st' where st': "mfold (depended_upon ab) ds ?st = Some st'" "length (st_abs st') = length (st_abs st)"
    "\<forall>a < length (st_abs st). a_depended_upon_by (st_abs st' ! a) =
        a_depended_upon_by (st_abs ?st ! a) @ replicate (count_list (map d_pkg ds) a) ab"
    using Cons.IH[of ?st] Cons.prems by auto
  moreover have "depended_upon ab d st = Some ?st" using Cons.prems by (simp add: depended_upon_def abs_update_def)
  ultimately show ?case using Cons.prems by (auto simp: nth_list_update replicate_append_same)
qed simp

section \<open>What a package provides\<close>

lemma provides_scan_take: "n \<le> length ps \<Longrightarrow> provides_scan n ps r = Some (r \<in> set (take n ps))"
  by (induction n ps r rule: provides_scan.induct) auto

lemma provides_any_take: "n \<le> length ps \<Longrightarrow> provides_any rs n ps = Some (\<exists>r \<in> set rs. r \<in> set (take n ps))"
  by (induction rs) (auto simp: provides_scan_take)

lemma provide_fold_length:
  "mfold (provide ab p) names st = Some st' \<Longrightarrow> p < length (st_pkgs st) \<Longrightarrow>
   length (st_pkgs st') = length (st_pkgs st) \<and> p_provides_str (st_pkgs st' ! p) = p_provides_str (st_pkgs st ! p) \<and>
   (\<exists>ps. length ps = length names \<and> p_provides (st_pkgs st' ! p) = p_provides (st_pkgs st ! p) @ ps)"
proof (induction names arbitrary: st)
  case (Cons name names)
  obtain st1 where st1: "provide ab p name st = Some st1" "mfold (provide ab p) names st1 = Some st'"
    using Cons.prems(1) by (auto simp: option_bind_Some_iff)
  have ens: "st_pkgs s' = st_pkgs s" if "ensure_abstract_pkg_by_name s n = Some (x, s')" for s n x s'
    using that by (auto simp: ensure_abstract_pkg_by_name_def add_new_abstract_pkg_by_name_def option_bind_Some_iff Let_def split: option.splits)
  obtain x where x: "st_pkgs st1 = (st_pkgs st)[p := (st_pkgs st ! p)\<lparr>p_provides := p_provides (st_pkgs st ! p) @ [x]\<rparr>]"
    using st1(1) ens by (auto simp: provide_def option_bind_Some_iff pkg_update_def abs_update_def split: if_splits)
  from Cons.IH[OF st1(2)] x Cons.prems(2) show ?case by (auto intro: exI[of _ "x # _"])
qed simp

section \<open>Properties\<close>

text \<open>
  C33. A dependency written as alternatives with relations and versions is read as these
  alternatives in their order, each with its relation, its version and the abstract package of its
  name, which is entered when it was not known; the packages that are known stay as they are. Names and
  versions are of the kind the parser takes (\<open>plain_alternative\<close>): not empty, a name of name characters without a closing
  parenthesis, a version without closing parenthesis, bar, or blanks at its ends, and each of them shorter than the
  parser's buffers of 2048 octets.
\<close>

theorem dependency_reads_back:
  assumes "links_ok st" and "alts \<noteq> []" and "\<forall>alt \<in> set alts. plain_alternative alt"
  shows "\<exists>cd st'. parseDepends st (print_depend alts) = Some (cd, st') \<and> cd_type cd = DEPEND \<and>
    list_all2 (stored_as st') (cd_possibilities cd) alts \<and> links_ok st' \<and> grows st st'"
  using parse_alternatives[OF assms(2,3,1)] bars[OF assms(2,3)]
  by (auto simp: parseDepends_def Let_def simp del: parse_possibilities.simps)

lemma dependency_reads_back_witness:
  "\<exists>cd st'. parseDepends (example_store pkg_init) ''libc (>= 2.3) | musl'' = Some (cd, st') \<and>
     list_all2 (stored_as st') (cd_possibilities cd) [(''libc'', Some (LATER_EQUAL, ''2.3'')), (''musl'', None)]"
proof -
  let ?alts = "[(''libc'', Some (LATER_EQUAL, ''2.3'')), (''musl'', None)]"
  have "links_ok (example_store pkg_init)" using example_store_ok[of pkg_init] by (simp add: store_ok_def)
  moreover have "\<forall>alt \<in> set ?alts. plain_alternative alt"
    by (simp add: plain_alternative_def name_char_def DEPEND_BUFFER_def) (simp add: isspace_def ord_c_def)
  ultimately show ?thesis using dependency_reads_back[of "example_store pkg_init" ?alts]
    by (simp add: print_alternative_def) blast
qed

text \<open>
  The dependency that is stored at a position was parsed from the string that is reported for
  the position, and has the type of the field the string is from: pre-dependencies first, then
  recommendations, suggestions, and dependencies last.
\<close>

lemma depend_str_is_source:
  assumes "buildDepends st pkg = Some (pkg', st')" and "p_depends pkg = []" and "i < length (p_depends pkg')"
  shows "\<exists>s st1 cd st2. pkg_depend_str pkg' i = Some s \<and> parseDepends st1 s = Some (cd, st2) \<and>
    p_depends pkg' ! i = cd\<lparr>cd_type := depend_type_at pkg' i (cd_type cd)\<rparr>"
  using buildDepends_nth[OF assms] .

lemma depend_str_is_source_witness:
  "\<exists>pkg' st' s cd. buildDepends (example_store pkg_init) (pkg_init\<lparr>p_depends_str := [''libc''], p_suggests_str := [''vim'']\<rparr>) = Some (pkg', st') \<and>
     pkg_depend_str pkg' 0 = Some s \<and> p_depends pkg' ! 0 = cd\<lparr>cd_type := SUGGEST\<rparr>"
proof -
  let ?pkg = "pkg_init\<lparr>p_depends_str := [''libc''], p_suggests_str := [''vim'']\<rparr>"
  define st where "st = example_store pkg_init"
  have l: "links_ok st" using example_store_ok[of pkg_init] by (simp add: store_ok_def st_def)
  obtain c1 st1 where 1: "parse_all st (\<lambda>_. SUGGEST) [''vim''] = Some (c1, st1)" "links_ok st1" "length c1 = length [''vim'']"
    using parse_all_ok[OF l, of "[''vim'']" "\<lambda>_. SUGGEST"] by (auto simp: plain_src_def DEPEND_BUFFER_def simp del: parse_all.simps)
  obtain c2 st2 where 2: "parse_all st1 id [''libc''] = Some (c2, st2)"
    using parse_all_ok[OF 1(2), of "[''libc'']" id] by (auto simp: plain_src_def DEPEND_BUFFER_def simp del: parse_all.simps)
  have b: "buildDepends st ?pkg = Some (?pkg\<lparr>p_depends := c1 @ c2\<rparr>, st2)"
    using 1(1) 2 by (simp add: buildDepends_def pkg_init_def del: parse_all.simps(2))
  from depend_str_is_source[OF b, of 0] 1(3) show ?thesis using b unfolding st_def by (auto simp: pkg_init_def depend_type_at_def)
qed

text \<open>
  C40. Who is noted to depend on a package: as many entries from the start of the array are followed
  as there are pre-dependencies and dependencies, although recommendations and suggestions
  come before the dependencies.  So with one recommendation the last dependency is not noted.
\<close>

theorem depended_upon_by_first_entries:
  assumes "pkg_at st p = Some pkg" and "refs_ok (length (st_abs st)) pkg"
  shows "\<exists>st'. buildDependedUponBy st p ab = Some st' \<and> (\<forall>a < length (st_abs st).
    a_depended_upon_by (st_abs st' ! a) = a_depended_upon_by (st_abs st ! a) @
      replicate (count_list (map d_pkg (concat (map cd_possibilities
        (take (length (p_pre_depends_str pkg) + length (p_depends_str pkg)) (p_depends pkg))))) a) ab)"
proof -
  let ?n = "length (p_pre_depends_str pkg) + length (p_depends_str pkg)"
  let ?ds = "concat (map cd_possibilities (take ?n (p_depends pkg)))"
  have "\<forall>d \<in> set ?ds. d_pkg d < length (st_abs st)"
    using assms(2) by (auto simp: refs_ok_def deps_ok_def dep_ok_def dest: in_set_takeD)
  from depended_upon_count[OF this, of ab] show ?thesis
    using assms by (auto simp: buildDependedUponBy_def mfold_concat refs_ok_def)
qed

lemma depended_upon_by_first_entries_witness:
  "\<exists>st'. buildDependedUponBy
      \<lparr>st_hash = st_hash (example_store pkg_init), st_abs = [abstract_pkg_new ''gpsd'', abstract_pkg_new ''libc''],
       st_pkgs = [pkg_init\<lparr>p_recommends_str := [''gpsd''], p_depends_str := [''libc''],
         p_depends := [\<lparr>cd_type = RECOMMEND, cd_possibilities = [\<lparr>d_constraint = NONE, d_version = None, d_pkg = 0\<rparr>]\<rparr>,
           \<lparr>cd_type = DEPEND, cd_possibilities = [\<lparr>d_constraint = NONE, d_version = None, d_pkg = 1\<rparr>]\<rparr>]\<rparr>]\<rparr> 0 7 = Some st' \<and>
     a_depended_upon_by (st_abs st' ! 0) = [7] \<and> a_depended_upon_by (st_abs st' ! 1) = []"
proof -
  let ?pkg = "pkg_init\<lparr>p_recommends_str := [''gpsd''], p_depends_str := [''libc''],
         p_depends := [\<lparr>cd_type = RECOMMEND, cd_possibilities = [\<lparr>d_constraint = NONE, d_version = None, d_pkg = 0\<rparr>]\<rparr>,
           \<lparr>cd_type = DEPEND, cd_possibilities = [\<lparr>d_constraint = NONE, d_version = None, d_pkg = 1\<rparr>]\<rparr>]\<rparr>"
  let ?st = "\<lparr>st_hash = st_hash (example_store pkg_init), st_abs = [abstract_pkg_new ''gpsd'', abstract_pkg_new ''libc''], st_pkgs = [?pkg]\<rparr>"
  have r: "refs_ok (length (st_abs ?st)) ?pkg" by (simp add: refs_ok_def deps_ok_def dep_ok_def pkg_init_def)
  from depended_upon_by_first_entries[OF _ r, of 0 7] show ?thesis
    by (auto simp: pkg_at_def pkg_init_def abstract_pkg_new_def)
qed

text \<open>
  What two packages conflict over: the array of what a package provides starts with the
  package itself, but only as many entries are compared as it has names, so the last name it
  provides is never in conflict.
\<close>

lemma conflicts_miss_last_provided:
  assumes "buildProvides st ab p = Some st'" and "pkg_at st p = Some old" and "p_provides old = []" and "p_provides_str old \<noteq> []"
  shows "\<exists>new. pkg_at st' p = Some new \<and> length (p_provides new) = length (p_provides_str new) + 1 \<and> hd (p_provides new) = ab \<and>
    pkg_conflicts pkg new = Some (\<exists>cd \<in> set (p_conflicts pkg). \<exists>d \<in> set (cd_possibilities cd). d_pkg d \<in> set (butlast (p_provides new)))"
proof -
  have p: "p < length (st_pkgs st)" "old = st_pkgs st ! p" using assms(2) by (auto simp: pkg_at_def split: if_splits)
  have ab: "ab < length (st_abs st)" using assms(1) by (auto simp: buildProvides_def abs_update_def split: if_splits)
  define st1 where "st1 = st\<lparr>st_abs := (st_abs st)[ab := (st_abs st ! ab)\<lparr>a_provided_by := a_provided_by (st_abs st ! ab) @ [ab]\<rparr>]\<rparr>"
  have s1: "st_pkgs st1 = st_pkgs st" "abs_update ab (\<lambda>a. a\<lparr>a_provided_by := a_provided_by a @ [ab]\<rparr>) st = Some st1"
    using ab by (simp_all add: st1_def abs_update_def)
  obtain st2 where 1: "pkg_update p (\<lambda>pkg. pkg\<lparr>p_provides := [ab]\<rparr>) st1 = Some st2"
    "mfold (provide ab p) (p_provides_str old) st2 = Some st'"
    using assms p s1 by (auto simp: buildProvides_def pkg_at_def option_bind_Some_iff)
  have 2: "st_pkgs st2 = (st_pkgs st)[p := old\<lparr>p_provides := [ab]\<rparr>]" using s1(1) 1(1) p by (auto simp: pkg_update_def split: if_splits)
  obtain ps where ps: "length ps = length (p_provides_str old)" "p_provides (st_pkgs st' ! p) = ab # ps"
    "p_provides_str (st_pkgs st' ! p) = p_provides_str old" "length (st_pkgs st') = length (st_pkgs st)"
    using provide_fold_length[OF 1(2)] p 2 by auto
  let ?new = "st_pkgs st' ! p"
  have "take (length (p_provides_str ?new)) (p_provides ?new) = butlast (p_provides ?new)" using ps by (simp add: butlast_conv_take)
  then have "pkg_conflicts pkg ?new = Some (\<exists>cd \<in> set (p_conflicts pkg). \<exists>d \<in> set (cd_possibilities cd). d_pkg d \<in> set (butlast (p_provides ?new)))"
    unfolding pkg_conflicts_def using ps by (subst provides_any_take) (auto simp: ps)
  then show ?thesis using ps p by (auto simp: pkg_at_def)
qed

end
