(* ===== verification/OpkgChoose.thy ===== *)
theory OpkgChoose
  imports OpkgDepends "HOL-Library.Multiset"
begin

text \<open>
  Choosing packages (\<open>opkg/libopkg/pkg_hash.c\<close>: \<open>pkg_hash_fetch_best_installation_candidate\<close>;
  \<open>opkg/libopkg/pkg_depends.c\<close>: whether a dependency is satisfied, and the conflicts): the
  candidate exists in the store, satisfies the constraint when any does, and is the latest such
  version of its name.  Messages are left out.
\<close>

unbundle bit_operations_syntax

section \<open>Sorting\<close>

text \<open>\<open>strcmp\<close>, of which only the sign is used.\<close>

fun strcmp :: "string \<Rightarrow> string \<Rightarrow> int" where
  "strcmp [] [] = 0"
| "strcmp [] (y # ys) = - 1"
| "strcmp (x # xs) [] = 1"
| "strcmp (x # xs) (y # ys) = (if x = y then strcmp xs ys else if ord_c x < ord_c y then - 1 else 1)"

definition pkg_name_version_and_architecture_compare :: "pkg \<Rightarrow> pkg \<Rightarrow> int option" where
  "pkg_name_version_and_architecture_compare a b =
     (case (p_name a, p_name b) of
        (Some n, Some m) \<Rightarrow>
          if strcmp n m \<noteq> 0 then Some (strcmp n m)
          else do {
            vercmp \<leftarrow> pkg_compare_versions a b;
            Some (if vercmp \<noteq> 0 then vercmp
                  else if p_arch_priority a = 0 \<or> p_arch_priority b = 0 then 0
                  else if p_arch_priority b < p_arch_priority a then 1
                  else if p_arch_priority a < p_arch_priority b then - 1
                  else 0) }
      | _ \<Rightarrow> Some 0)"

text \<open>The comparison of names, which is called on packages as their first member is the name, too.\<close>

definition abstract_pkg_name_compare :: "pkg \<Rightarrow> pkg \<Rightarrow> int option" where
  "abstract_pkg_name_compare a b =
     (case (p_name a, p_name b) of (Some n, Some m) \<Rightarrow> Some (strcmp n m) | _ \<Rightarrow> Some 0)"

text \<open>
  \<open>qsort\<close> is a function of the C library: an argument \<open>srt\<close> of what calls it, with the elements as places
  in the store.  A comparison that does not return makes it not return.
\<close>

type_synonym sorter = "(nat \<Rightarrow> nat \<Rightarrow> int option) \<Rightarrow> nat list \<Rightarrow> nat list option"

definition on_pkgs :: "store \<Rightarrow> (pkg \<Rightarrow> pkg \<Rightarrow> int option) \<Rightarrow> nat \<Rightarrow> nat \<Rightarrow> int option" where
  "on_pkgs st cmp p q = do { a \<leftarrow> pkg_at st p; b \<leftarrow> pkg_at st q; cmp a b }"

section \<open>The best candidate\<close>

text \<open>The abstract package that is looked at for a provider: the first that replaces it, unless that is a provider itself.\<close>

definition replacement :: "store \<Rightarrow> nat list \<Rightarrow> nat \<Rightarrow> nat option option" where
  "replacement st providers a = do {
     ab \<leftarrow> abs_at st a;
     Some (case a_replaced_by ab of
         Some (r # _) \<Rightarrow> if r \<noteq> a then if List.member providers r then None else Some r else Some a
       | _ \<Rightarrow> Some a) }"

text \<open>Its packages for an architecture that is configured; second, whether it has packages.\<close>

fun matching_of :: "store \<Rightarrow> nat list \<Rightarrow> nat list option" where
  "matching_of st [] = Some []"
| "matching_of st (p # ps) = do {
     maybe \<leftarrow> pkg_at st p;
     rest \<leftarrow> matching_of st ps;
     Some (if 0 < p_arch_priority maybe then p # rest else rest) }"

definition add_provider :: "store \<Rightarrow> nat list \<Rightarrow> nat \<Rightarrow> nat list \<times> bool \<Rightarrow> (nat list \<times> bool) option" where
  "add_provider st providers a acc = do {
     provider \<leftarrow> replacement st providers a;
     (case provider of
        None \<Rightarrow> Some acc
      | Some q \<Rightarrow> do {
          ab \<leftarrow> abs_at st q;
          (case a_pkgs ab of
             None \<Rightarrow> Some acc
           | Some vec \<Rightarrow> do {
               ps \<leftarrow> matching_of st vec;
               let matching = fst acc @ ps;
               Some (matching, snd acc \<or> vec \<noteq> [] \<and> matching = []) }) }) }"

text \<open>The last package that satisfies the constraint, or the first of them that is given by hand.\<close>

fun pick_good :: "(pkg \<Rightarrow> bool option) \<Rightarrow> store \<Rightarrow> nat list \<Rightarrow> nat option \<Rightarrow> nat option option" where
  "pick_good constraint st [] good = Some good"
| "pick_good constraint st (p # ps) good = do {
     matching \<leftarrow> pkg_at st p;
     b \<leftarrow> constraint matching;
     if b then if p_provided_by_hand matching then Some (Some p) else pick_good constraint st ps (Some p)
     else pick_good constraint st ps good }"

fun pick_others :: "store \<Rightarrow> nat list \<Rightarrow> nat option \<times> nat option \<times> nat option \<Rightarrow> (nat option \<times> nat option \<times> nat option) option" where
  "pick_others st [] acc = Some acc"
| "pick_others st (p # ps) (latest, parent_installed, held) = do {
     matching \<leftarrow> pkg_at st p;
     a \<leftarrow> p_parent matching;
     parent \<leftarrow> abs_at st a;
     pick_others st ps (Some p,
       if a_state_status parent = SS_INSTALLED \<or> a_state_status parent = SS_UNPACKED then Some p else parent_installed,
       if p_state_flag matching AND (SF_HOLD OR SF_PREFER) \<noteq> 0 then Some p else held) }"

text \<open>
  The result and whether no architecture fits.  The second sort is of the packages, too, although it
  is meant for their abstract packages; both vectors have the same length.
\<close>

definition pkg_hash_fetch_best_installation_candidate ::
  "sorter \<Rightarrow> store \<Rightarrow> nat \<Rightarrow> (pkg \<Rightarrow> bool option) \<Rightarrow> (nat option \<times> bool) option" where
  "pkg_hash_fetch_best_installation_candidate srt st apkg constraint = do {
     ab \<leftarrow> abs_at st apkg;
     let providers = a_provided_by ab;
     if providers = [] then Some (None, False)
     else do {
       (matching, no_arch) \<leftarrow> mfold (add_provider st providers) providers ([], False);
       sorted \<leftarrow> (if 1 < length matching then srt (on_pkgs st pkg_name_version_and_architecture_compare) matching else Some matching);
       sorted \<leftarrow> (if 1 < length matching then srt (on_pkgs st abstract_pkg_name_compare) sorted else Some sorted);
       good \<leftarrow> pick_good constraint st sorted None;
       (latest, parent_installed, held) \<leftarrow> pick_others st sorted (None, None, None);
       Some (if good \<noteq> None then good
             else if held \<noteq> None then held
             else if parent_installed \<noteq> None then parent_installed
             else if 1 < length matching then None
             else latest, no_arch) } }"

definition pkg_hash_fetch_best_installation_candidate_by_name :: "sorter \<Rightarrow> store \<Rightarrow> string \<Rightarrow> (nat option \<times> bool) option" where
  "pkg_hash_fetch_best_installation_candidate_by_name srt st name = do {
     found \<leftarrow> abstract_pkg_fetch_by_name st name;
     (case found of
        None \<Rightarrow> Some (None, False)
      | Some apkg \<Rightarrow> do {
          ab \<leftarrow> abs_at st apkg;
          pkg_hash_fetch_best_installation_candidate srt st apkg (\<lambda>pkg. map_option (\<lambda>n. strcmp n (a_name ab) = 0) (p_name pkg)) }) }"

section \<open>Whether a dependency is satisfied\<close>

definition pkg_installed_and_constraint_satisfied :: "depend \<Rightarrow> pkg \<Rightarrow> bool option" where
  "pkg_installed_and_constraint_satisfied depend pkg =
     (if installed pkg then version_constraints_satisfied depend pkg else Some False)"

definition pkg_constraint_satisfied :: "depend \<Rightarrow> pkg \<Rightarrow> bool option" where
  "pkg_constraint_satisfied depend pkg = version_constraints_satisfied depend pkg"

text \<open>The packages of the abstract packages, in order; a null vector has none.\<close>

fun all_pkgs :: "store \<Rightarrow> nat list \<Rightarrow> nat list option" where
  "all_pkgs st [] = Some []"
| "all_pkgs st (a # as) = do {
     ab \<leftarrow> abs_at st a;
     rest \<leftarrow> all_pkgs st as;
     Some ((case a_pkgs ab of None \<Rightarrow> [] | Some vec \<Rightarrow> vec) @ rest) }"

definition pkg_dependence_satisfiable :: "store \<Rightarrow> depend \<Rightarrow> bool option" where
  "pkg_dependence_satisfiable st depend = do {
     apkg \<leftarrow> abs_at st (d_pkg depend);
     ps \<leftarrow> all_pkgs st (a_provided_by apkg);
     r \<leftarrow> first_such (version_constraints_satisfied depend) st ps;
     Some (r \<noteq> None) }"

definition pkg_dependence_satisfied :: "store \<Rightarrow> depend \<Rightarrow> bool option" where
  "pkg_dependence_satisfied st depend = do {
     apkg \<leftarrow> abs_at st (d_pkg depend);
     ps \<leftarrow> all_pkgs st (a_provided_by apkg);
     r \<leftarrow> first_such (\<lambda>pkg. do { b \<leftarrow> version_constraints_satisfied depend pkg; Some (b \<and> installed pkg) }) st ps;
     Some (r \<noteq> None) }"

definition is_pkg_in_pkg_vec :: "store \<Rightarrow> nat list \<Rightarrow> pkg \<Rightarrow> bool option" where
  "is_pkg_in_pkg_vec st vec pkg = map_option (\<lambda>r. r \<noteq> None) (find_same st pkg vec)"

section \<open>Conflicts\<close>

text \<open>A name of what the package replaces.\<close>

fun is_pkg_a_replaces :: "store \<Rightarrow> pkg \<Rightarrow> nat list \<Rightarrow> bool option" where
  "is_pkg_a_replaces st pkg_scout [] = Some False"
| "is_pkg_a_replaces st pkg_scout (r # rs) = do {
     name \<leftarrow> p_name pkg_scout;
     ab \<leftarrow> abs_at st r;
     if name = a_name ab then Some True else is_pkg_a_replaces st pkg_scout rs }"

definition conflict_scout :: "store \<Rightarrow> pkg \<Rightarrow> depend \<Rightarrow> nat \<Rightarrow> nat list \<Rightarrow> nat list option" where
  "conflict_scout st pkg d k acc = do {
     scout \<leftarrow> pkg_at st k;
     if \<not> (p_state_status scout = SS_INSTALLED \<or> p_state_want scout = SW_INSTALL) then Some acc
     else do {
       b \<leftarrow> version_constraints_satisfied d scout;
       if \<not> b then Some acc
       else do {
         r \<leftarrow> is_pkg_a_replaces st scout (p_replaces pkg);
         if r then Some acc
         else do {
           known \<leftarrow> is_pkg_in_pkg_vec st acc scout;
           Some (if known then acc else acc @ [k]) } } } }"

definition conflict_possibility :: "store \<Rightarrow> pkg \<Rightarrow> depend \<Rightarrow> nat list \<Rightarrow> nat list option" where
  "conflict_possibility st pkg d acc = do {
     ab \<leftarrow> abs_at st (d_pkg d);
     mfold (conflict_scout st pkg d) (case a_pkgs ab of None \<Rightarrow> [] | Some vec \<Rightarrow> vec) acc }"

text \<open>The empty list is the null pointer.\<close>

definition pkg_hash_fetch_conflicts :: "store \<Rightarrow> pkg \<Rightarrow> nat list option" where
  "pkg_hash_fetch_conflicts st pkg =
     (if p_parent pkg = None \<or> p_conflicts pkg = [] then Some []
      else mfold (\<lambda>cd. mfold (conflict_possibility st pkg) (cd_possibilities cd)) (p_conflicts pkg) [])"

section \<open>The store while choosing\<close>

definition in_store :: "store \<Rightarrow> nat \<Rightarrow> bool" where
  "in_store st p \<longleftrightarrow> (\<exists>a < length (st_abs st). p \<in> set (pkgs_of st a))"

lemma in_store_member: "store_ok st \<Longrightarrow> in_store st p \<Longrightarrow> \<exists>a < length (st_abs st). p \<in> set (pkgs_of st a) \<and> member_ok st a p"
  by (auto simp: in_store_def store_ok_def)

lemma in_store_at: "store_ok st \<Longrightarrow> in_store st p \<Longrightarrow> pkg_at st p = Some (st_pkgs st ! p)"
  by (auto simp: in_store_def store_ok_def member_ok_def pkg_at_def)

lemma in_store_identity: "store_ok st \<Longrightarrow> in_store st p \<Longrightarrow> identity_ok (st_pkgs st ! p) \<and> refs_ok (length (st_abs st)) (st_pkgs st ! p)"
  by (auto simp: in_store_def store_ok_def member_ok_def)

lemma abs_at_ok: "a < length (st_abs st) \<Longrightarrow> abs_at st a = Some (st_abs st ! a)"
  by (simp add: abs_at_def)

lemma links_abs_ok: "links_ok st \<Longrightarrow> a < length (st_abs st) \<Longrightarrow> abs_ok (length (st_abs st)) (st_abs st ! a)"
  by (simp add: links_ok_def)

lemma store_links: "store_ok st \<Longrightarrow> links_ok st"
  by (simp add: store_ok_def)

text \<open>A test that has a result on every package of the store.\<close>

definition total_on :: "store \<Rightarrow> (pkg \<Rightarrow> bool option) \<Rightarrow> bool" where
  "total_on st P \<longleftrightarrow> (\<forall>p. in_store st p \<longrightarrow> (\<exists>b. P (st_pkgs st ! p) = Some b))"

lemma constraint_total:
  assumes "store_ok st" and "dep_ok n d"
  shows "total_on st (pkg_constraint_satisfied d) \<and> total_on st (pkg_installed_and_constraint_satisfied d)"
proof -
  have "\<exists>b. version_constraints_satisfied d pkg = Some b" if "c_version pkg" for pkg
  proof (cases "d_constraint d = NONE")
    case False
    then obtain v where "d_version d = Some v" "NUL \<notin> set v" using assms(2) by (auto simp: dep_ok_def)
    then show ?thesis using version_constraints_result[OF that] by blast
  qed (auto simp: version_constraints_satisfied_def)
  then show ?thesis using in_store_identity[OF assms(1)]
    by (auto simp: total_on_def pkg_constraint_satisfied_def pkg_installed_and_constraint_satisfied_def identity_ok_def)
qed

section \<open>Sorting\<close>

definition total_cmp :: "('a \<Rightarrow> 'a \<Rightarrow> int option) \<Rightarrow> 'a set \<Rightarrow> bool" where
  "total_cmp cmp A \<longleftrightarrow> (\<forall>x \<in> A. \<forall>y \<in> A. cmp x y \<noteq> None)"

lemma total_cmpD: "total_cmp cmp A \<Longrightarrow> x \<in> A \<Longrightarrow> y \<in> A \<Longrightarrow> \<exists>c. cmp x y = Some c"
  by (auto simp: total_cmp_def)

text \<open>
  What the C standard says of \<open>qsort\<close>: when the comparison is a preorder on the elements, it returns,
  and the array has the same elements, in the order of the comparison.  The order of equal elements is not said.
\<close>

definition below :: "('a \<Rightarrow> 'a \<Rightarrow> int option) \<Rightarrow> 'a \<Rightarrow> 'a \<Rightarrow> bool" where
  "below cmp x y \<longleftrightarrow> (\<exists>c. cmp x y = Some c \<and> c \<le> 0)"

definition preorder_cmp :: "('a \<Rightarrow> 'a \<Rightarrow> int option) \<Rightarrow> 'a set \<Rightarrow> bool" where
  "preorder_cmp cmp A \<longleftrightarrow> total_cmp cmp A \<and> (\<forall>x \<in> A. \<forall>y \<in> A. below cmp x y \<or> below cmp y x) \<and>
     (\<forall>x \<in> A. \<forall>y \<in> A. \<forall>z \<in> A. below cmp x y \<longrightarrow> below cmp y z \<longrightarrow> below cmp x z)"

definition sorts :: "sorter \<Rightarrow> bool" where
  "sorts srt \<longleftrightarrow> (\<forall>cmp xs. preorder_cmp cmp (set xs) \<longrightarrow>
     (\<exists>ys. srt cmp xs = Some ys \<and> mset ys = mset xs \<and> sorted_wrt (below cmp) ys))"

text \<open>What it does not say, but a merge sort does: an array that is in order is left as it is.\<close>

definition keeps_order :: "sorter \<Rightarrow> bool" where
  "keeps_order srt \<longleftrightarrow> (\<forall>cmp xs. sorted_wrt (below cmp) xs \<longrightarrow> srt cmp xs = Some xs)"

lemma preorder_trans:
  "preorder_cmp cmp A \<Longrightarrow> x \<in> A \<Longrightarrow> y \<in> A \<Longrightarrow> z \<in> A \<Longrightarrow> below cmp x y \<Longrightarrow> below cmp y z \<Longrightarrow> below cmp x z"
  unfolding preorder_cmp_def by blast

lemma preorder_swap: "preorder_cmp cmp A \<Longrightarrow> x \<in> A \<Longrightarrow> y \<in> A \<Longrightarrow> \<not> below cmp x y \<Longrightarrow> below cmp y x"
  unfolding preorder_cmp_def by blast

lemma preorder_total: "preorder_cmp cmp A \<Longrightarrow> total_cmp cmp A"
  by (simp add: preorder_cmp_def)

lemma preorder_mono: "preorder_cmp cmp A \<Longrightarrow> B \<subseteq> A \<Longrightarrow> preorder_cmp cmp B"
  unfolding preorder_cmp_def total_cmp_def by blast

lemma sorts_on:
  assumes "sorts srt" and "preorder_cmp cmp A" and "set xs \<subseteq> A"
  shows "\<exists>ys. srt cmp xs = Some ys \<and> mset ys = mset xs \<and> sorted_wrt (below cmp) ys"
  using assms(1) preorder_mono[OF assms(2,3)] by (simp add: sorts_def)

text \<open>The code does not call it for a vector of one element; nothing would change if it did.\<close>

lemma sorts_many:
  assumes "sorts srt" and "preorder_cmp cmp A" and "set xs \<subseteq> A"
  shows "\<exists>ys. (if 1 < length xs then srt cmp xs else Some xs) = Some ys \<and> mset ys = mset xs \<and> sorted_wrt (below cmp) ys"
proof (cases "1 < length xs")
  case False
  then have "sorted_wrt (below cmp) xs" by (cases xs) (auto simp: Suc_le_eq)
  then show ?thesis using False by simp
qed (use sorts_on[OF assms] in simp)

lemma keeps_many: "keeps_order srt \<Longrightarrow> sorted_wrt (below cmp) xs \<Longrightarrow> (if b then srt cmp xs else Some xs) = Some xs"
  by (simp add: keeps_order_def)

text \<open>An insertion sort is such a function.\<close>

fun insort_by :: "(nat \<Rightarrow> nat \<Rightarrow> int option) \<Rightarrow> nat \<Rightarrow> nat list \<Rightarrow> nat list option" where
  "insort_by cmp x [] = Some [x]"
| "insort_by cmp x (y # ys) = do {
     c \<leftarrow> cmp x y;
     if c \<le> 0 then Some (x # y # ys) else do { r \<leftarrow> insort_by cmp x ys; Some (y # r) } }"

fun insertion_sort :: sorter where
  "insertion_sort cmp [] = Some []"
| "insertion_sort cmp (x # xs) = do { r \<leftarrow> insertion_sort cmp xs; insort_by cmp x r }"

lemma insort_by_sorted:
  assumes "preorder_cmp cmp A" and "x \<in> A" and "set ys \<subseteq> A" and "sorted_wrt (below cmp) ys"
  shows "\<exists>r. insort_by cmp x ys = Some r \<and> sorted_wrt (below cmp) r \<and> mset r = add_mset x (mset ys)"
  using assms(3,4)
proof (induction ys)
  case (Cons y ys)
  obtain c where c: "cmp x y = Some c" using total_cmpD[OF preorder_total[OF assms(1)] assms(2)] Cons.prems(1) by auto
  show ?case
  proof (cases "c \<le> 0")
    case True
    then have xy: "below cmp x y" using c by (simp add: below_def)
    have "below cmp x z" if "z \<in> set ys" for z
      using preorder_trans[OF assms(1,2), of y z] xy Cons.prems that by auto
    then show ?thesis using True c Cons.prems xy by auto
  next
    case False
    obtain r where r: "insort_by cmp x ys = Some r" "sorted_wrt (below cmp) r" "mset r = add_mset x (mset ys)"
      using Cons by auto
    have "\<not> below cmp x y" using False c by (simp add: below_def)
    then have "below cmp y x" using preorder_swap[OF assms(1,2)] Cons.prems(1) by simp
    moreover have "set r = insert x (set ys)" using r(3) by (metis set_mset_add_mset_insert set_mset_mset)
    ultimately show ?thesis using False c r Cons.prems(2) by auto
  qed
qed simp

lemma insertion_sort_sorts: "sorts insertion_sort"
proof -
  have "\<exists>ys. insertion_sort cmp xs = Some ys \<and> mset ys = mset xs \<and> sorted_wrt (below cmp) ys"
    if "preorder_cmp cmp A" "set xs \<subseteq> A" for cmp xs A
    using that(2)
  proof (induction xs)
    case (Cons x xs)
    then obtain r where r: "insertion_sort cmp xs = Some r" "mset r = mset xs" "sorted_wrt (below cmp) r" by auto
    moreover have "set r \<subseteq> A" using Cons.prems mset_eq_setD[OF r(2)] by simp
    ultimately show ?case using insort_by_sorted[OF that(1), of x r] Cons.prems by auto
  qed simp
  then show ?thesis unfolding sorts_def by blast
qed

lemma insertion_sort_keeps_order: "keeps_order insertion_sort"
proof -
  have "insertion_sort cmp xs = Some xs" if "sorted_wrt (below cmp) xs" for cmp xs
    using that
  proof (induction xs)
    case (Cons x xs)
    then show ?case by (cases xs) (auto simp: below_def)
  qed simp
  then show ?thesis by (simp add: keeps_order_def)
qed

section \<open>The candidates\<close>

lemma replacement_ok:
  assumes "links_ok st" and "a < length (st_abs st)"
  shows "\<exists>r. replacement st providers a = Some r \<and> (\<forall>q. r = Some q \<longrightarrow> q < length (st_abs st))"
  using links_abs_ok[OF assms] assms(2)
  by (auto simp: replacement_def abs_at_def abs_ok_def split: option.split list.split)

lemma matching_of_ok:
  assumes "store_ok st"
  shows "\<forall>p \<in> set ps. in_store st p \<Longrightarrow> matching_of st ps = Some (filter (\<lambda>p. 0 < p_arch_priority (st_pkgs st ! p)) ps)"
  by (induction ps) (auto simp: in_store_at[OF assms])

text \<open>The packages of the providers that fit the architectures.\<close>

definition fits :: "store \<Rightarrow> nat \<Rightarrow> bool" where
  "fits st p \<longleftrightarrow> in_store st p \<and> 0 < p_arch_priority (st_pkgs st ! p)"

lemma add_provider_ok:
  assumes "store_ok st" and "a < length (st_abs st)" and "\<forall>p \<in> set (fst acc). fits st p"
  shows "\<exists>acc'. add_provider st providers a acc = Some acc' \<and> (\<forall>p \<in> set (fst acc'). fits st p)"
proof -
  obtain r where r: "replacement st providers a = Some r" "\<forall>q. r = Some q \<longrightarrow> q < length (st_abs st)"
    using replacement_ok[OF store_links[OF assms(1)] assms(2)] by blast
  show ?thesis
  proof (cases r)
    case None
    then show ?thesis using r assms(3) by (simp add: add_provider_def)
  next
    case (Some q)
    then have q: "q < length (st_abs st)" using r(2) by simp
    show ?thesis
    proof (cases "a_pkgs (st_abs st ! q)")
      case None
      then show ?thesis using r(1) Some q assms(3) by (simp add: add_provider_def abs_at_ok)
    next
      case vec: (Some vec)
      then have "set vec = set (pkgs_of st q)" by (simp add: pkgs_of_def)
      then have i: "\<forall>p \<in> set vec. in_store st p" using q by (auto simp: in_store_def)
      show ?thesis using r(1) Some q vec assms(3) i matching_of_ok[OF assms(1) i]
        by (auto simp: add_provider_def abs_at_ok Let_def fits_def)
    qed
  qed
qed

text \<open>
  Said without the loops: \<open>b\<close> stands in for the provider \<open>a\<close>, \<open>b\<close> being \<open>a\<close> itself unless another package replaces
  it, then the first that does, which must not be a provider; and a package is eligible for a name when it is one of what stands in for
  a provider of the name, and fits the architectures.
\<close>

definition stands_in :: "store \<Rightarrow> nat list \<Rightarrow> nat \<Rightarrow> nat \<Rightarrow> bool" where
  "stands_in st providers a b \<longleftrightarrow>
     (case a_replaced_by (st_abs st ! a) of
        Some (r # _) \<Rightarrow> b = r \<and> (r = a \<or> r \<notin> set providers)
      | _ \<Rightarrow> b = a)"

definition eligible :: "store \<Rightarrow> nat \<Rightarrow> nat \<Rightarrow> bool" where
  "eligible st apkg p \<longleftrightarrow> 0 < p_arch_priority (st_pkgs st ! p) \<and>
     (\<exists>a b. a \<in> set (a_provided_by (st_abs st ! apkg)) \<and> stands_in st (a_provided_by (st_abs st ! apkg)) a b \<and> p \<in> set (pkgs_of st b))"

lemma replacement_stands_in:
  assumes "a < length (st_abs st)"
  shows "replacement st providers a = Some r \<Longrightarrow> stands_in st providers a b \<longleftrightarrow> r = Some b"
  using assms by (auto simp: replacement_def stands_in_def abs_at_ok split: option.splits list.splits if_splits)

lemma add_provider_set:
  assumes "store_ok st" and "a < length (st_abs st)" and "add_provider st providers a acc = Some acc'"
  shows "set (fst acc') = set (fst acc) \<union> {p. 0 < p_arch_priority (st_pkgs st ! p) \<and> (\<exists>b. stands_in st providers a b \<and> p \<in> set (pkgs_of st b))}"
proof -
  obtain r where r: "replacement st providers a = Some r" "\<forall>q. r = Some q \<longrightarrow> q < length (st_abs st)"
    using replacement_ok[OF store_links[OF assms(1)] assms(2)] by blast
  note s = replacement_stands_in[OF assms(2) r(1)]
  show ?thesis
  proof (cases r)
    case None
    then show ?thesis using r assms(3) s by (simp add: add_provider_def)
  next
    case (Some q)
    then have q: "q < length (st_abs st)" using r(2) by simp
    then have i: "\<forall>p \<in> set (pkgs_of st q). in_store st p" by (auto simp: in_store_def)
    show ?thesis using r(1) Some q assms(3) s matching_of_ok[OF assms(1) i]
      by (auto simp: add_provider_def abs_at_ok Let_def pkgs_of_def split: option.splits)
  qed
qed

lemma add_providers_set:
  assumes "store_ok st"
  shows "\<forall>a \<in> set as. a < length (st_abs st) \<Longrightarrow> mfold (add_provider st providers) as acc = Some acc' \<Longrightarrow>
    set (fst acc') = set (fst acc) \<union> {p. 0 < p_arch_priority (st_pkgs st ! p) \<and>
      (\<exists>a b. a \<in> set as \<and> stands_in st providers a b \<and> p \<in> set (pkgs_of st b))}"
proof (induction as arbitrary: acc)
  case (Cons a as)
  then obtain acc1 where 1: "add_provider st providers a acc = Some acc1" "mfold (add_provider st providers) as acc1 = Some acc'"
    by (auto simp: option_bind_Some_iff)
  show ?case using Cons.IH[OF _ 1(2)] add_provider_set[OF assms _ 1(1)] Cons.prems(1) by auto
qed simp

definition candidates :: "store \<Rightarrow> nat \<Rightarrow> (nat list \<times> bool) option" where
  "candidates st apkg = mfold (add_provider st (a_provided_by (st_abs st ! apkg))) (a_provided_by (st_abs st ! apkg)) ([], False)"

lemma candidates_ok:
  assumes "store_ok st" and "apkg < length (st_abs st)"
  shows "\<exists>ps no. candidates st apkg = Some (ps, no) \<and> (\<forall>p \<in> set ps. fits st p)"
proof -
  have "\<exists>acc. candidates st apkg = Some acc \<and> (\<forall>p \<in> set (fst acc). fits st p)"
    unfolding candidates_def
  proof (rule mfold_invariant[where I = "\<lambda>acc. \<forall>p \<in> set (fst acc). fits st p"])
    fix a and acc :: "nat list \<times> bool" assume "a \<in> set (a_provided_by (st_abs st ! apkg))" "\<forall>p \<in> set (fst acc). fits st p"
    then show "\<exists>acc'. add_provider st (a_provided_by (st_abs st ! apkg)) a acc = Some acc' \<and> (\<forall>p \<in> set (fst acc'). fits st p)"
      using links_abs_ok[OF store_links[OF assms(1)] assms(2)] by (intro add_provider_ok[OF assms(1)]) (auto simp: abs_ok_def)
  qed simp
  then show ?thesis by force
qed

lemma candidates_eligible:
  assumes "store_ok st" and "apkg < length (st_abs st)" and "candidates st apkg = Some (ps, no)"
  shows "set ps = Collect (eligible st apkg)"
  using add_providers_set[OF assms(1) _ assms(3)[unfolded candidates_def]] links_abs_ok[OF store_links[OF assms(1)] assms(2)]
  by (auto simp: abs_ok_def eligible_def)

text \<open>The comparison is by name, version and architecture, a preorder on what fits.\<close>

lemma strcmp_eq: "strcmp a b = 0 \<longleftrightarrow> a = b"
  by (induction a b rule: strcmp.induct) auto

lemma strcmp_swap: "strcmp b a = - strcmp a b"
proof (induction a b rule: strcmp.induct)
  case (4 x xs y ys)
  show ?case
  proof (cases "x = y")
    case False
    then have "ord_c x \<noteq> ord_c y" using ord_c_inject by blast
    then show ?thesis using False by auto
  qed (use 4 in simp)
qed auto

lemma strcmp_le: "strcmp (x # xs) (y # ys) \<le> 0 \<longleftrightarrow> (if x = y then strcmp xs ys \<le> 0 else ord_c x < ord_c y)"
  by simp

lemma strcmp_trans: "strcmp a b \<le> 0 \<Longrightarrow> strcmp b c \<le> 0 \<Longrightarrow> strcmp a c \<le> 0"
proof (induction a b arbitrary: c rule: strcmp.induct)
  case (4 x xs y ys)
  show ?case
  proof (cases c)
    case (Cons z zs)
    have xy: "if x = y then strcmp xs ys \<le> 0 else ord_c x < ord_c y" using 4(2) unfolding strcmp_le .
    have yz: "if y = z then strcmp ys zs \<le> 0 else ord_c y < ord_c z" using 4(3) unfolding Cons strcmp_le .
    show ?thesis unfolding Cons strcmp_le
    proof (cases "x = y")
      case True
      then show "if x = z then strcmp xs zs \<le> 0 else ord_c x < ord_c z" using xy yz 4(1)[OF True] by (auto split: if_splits)
    next
      case False
      then have "ord_c x < ord_c z" using xy yz by (auto split: if_splits)
      then show "if x = z then strcmp xs zs \<le> 0 else ord_c x < ord_c z" by auto
    qed
  qed (use 4 in simp)
next
  case (2 y ys)
  then show ?case by (cases c) simp_all
next
  case 1
  then show ?case by (cases c) simp_all
qed simp

interpretation sc: comparator strcmp
proof
  show "sgn (strcmp b a) = - sgn (strcmp a b)" for a b by (simp add: strcmp_swap[of b a] sgn_minus)
  show "strcmp a b \<le> 0 \<Longrightarrow> strcmp b c \<le> 0 \<Longrightarrow> strcmp a c \<le> 0" for a b c by (rule strcmp_trans)
qed

definition full_key :: "pkg \<Rightarrow> string \<times> (nat \<times> int list \<times> int list) \<times> int" where
  "full_key p = (the (p_name p), pkg_key p, p_arch_priority p)"

definition full_cmp :: "string \<times> (nat \<times> int list \<times> int list) \<times> int \<Rightarrow> string \<times> (nat \<times> int list \<times> int list) \<times> int \<Rightarrow> int" where
  "full_cmp = (\<lambda>(n, x) (m, y). if strcmp n m \<noteq> 0 then strcmp n m
     else (\<lambda>(k, a) (l, b). if key_cmp k l \<noteq> 0 then key_cmp k l else sgn (a - b)) x y)"

lemma int_comparator: "comparator (\<lambda>a b :: int. sgn (a - b))"
  by unfold_locales (auto simp: sgn_if split: if_splits)

interpretation fc: comparator full_cmp
  unfolding full_cmp_def by (intro comparator_lex int_comparator kc.comparator_axioms sc.comparator_axioms)

lemma sgn_le: "x \<le> 0 \<longleftrightarrow> sgn x \<le> 0" for x :: int
  by (simp add: sgn_if)

lemma compare_full_key:
  assumes "identity_ok p" and "identity_ok q" and "0 < p_arch_priority p" and "0 < p_arch_priority q"
  shows "\<exists>c. pkg_name_version_and_architecture_compare p q = Some c \<and> sgn c = sgn (full_cmp (full_key p) (full_key q))"
proof -
  obtain n m where n: "p_name p = Some n" "p_name q = Some m" using assms(1,2) by (auto simp: identity_ok_def)
  obtain v where v: "pkg_compare_versions p q = Some v" "sgn v = key_cmp (pkg_key p) (pkg_key q)"
    using compare_key assms(1,2) by (auto simp: identity_ok_def)
  have "v = 0 \<longleftrightarrow> key_cmp (pkg_key p) (pkg_key q) = 0" using v(2) by (metis sgn_0_0)
  moreover have "sgn (key_cmp (pkg_key p) (pkg_key q)) = sgn v" using v(2) by (metis sgn_sgn)
  ultimately show ?thesis using n v(1) assms(3,4)
    by (auto simp: pkg_name_version_and_architecture_compare_def full_key_def full_cmp_def sgn_if split: if_splits)
qed

lemma below_full_key:
  assumes "store_ok st" and "fits st p" and "fits st q"
  shows "\<exists>c. on_pkgs st pkg_name_version_and_architecture_compare p q = Some c"
    and "below (on_pkgs st pkg_name_version_and_architecture_compare) p q \<longleftrightarrow> full_cmp (full_key (st_pkgs st ! p)) (full_key (st_pkgs st ! q)) \<le> 0"
proof -
  have f: "in_store st p" "0 < p_arch_priority (st_pkgs st ! p)" "in_store st q" "0 < p_arch_priority (st_pkgs st ! q)"
    using assms(2,3) by (simp_all add: fits_def)
  obtain c where c: "pkg_name_version_and_architecture_compare (st_pkgs st ! p) (st_pkgs st ! q) = Some c"
    "sgn c = sgn (full_cmp (full_key (st_pkgs st ! p)) (full_key (st_pkgs st ! q)))"
    using compare_full_key f in_store_identity[OF assms(1)] by blast
  then have o: "on_pkgs st pkg_name_version_and_architecture_compare p q = Some c"
    using f in_store_at[OF assms(1)] by (simp add: on_pkgs_def)
  have "c \<le> 0 \<longleftrightarrow> full_cmp (full_key (st_pkgs st ! p)) (full_key (st_pkgs st ! q)) \<le> 0"
    using c(2) sgn_le[of c] sgn_le[of "full_cmp (full_key (st_pkgs st ! p)) (full_key (st_pkgs st ! q))"] by simp
  then show "\<exists>c. on_pkgs st pkg_name_version_and_architecture_compare p q = Some c"
    "below (on_pkgs st pkg_name_version_and_architecture_compare) p q \<longleftrightarrow> full_cmp (full_key (st_pkgs st ! p)) (full_key (st_pkgs st ! q)) \<le> 0"
    using o by (simp_all add: below_def)
qed

lemma fits_preorder:
  assumes "store_ok st"
  shows "preorder_cmp (on_pkgs st pkg_name_version_and_architecture_compare) (Collect (fits st))"
  unfolding preorder_cmp_def
proof (intro conjI ballI impI)
  show "total_cmp (on_pkgs st pkg_name_version_and_architecture_compare) (Collect (fits st))"
    using below_full_key(1)[OF assms] by (force simp: total_cmp_def)
next
  fix x y assume "x \<in> Collect (fits st)" "y \<in> Collect (fits st)"
  then show "below (on_pkgs st pkg_name_version_and_architecture_compare) x y \<or> below (on_pkgs st pkg_name_version_and_architecture_compare) y x"
    using below_full_key(2)[OF assms] fc.swap_zero(2)[of "full_key (st_pkgs st ! y)" "full_key (st_pkgs st ! x)"] by auto
next
  fix x y z assume xyz: "x \<in> Collect (fits st)" "y \<in> Collect (fits st)" "z \<in> Collect (fits st)"
    and "below (on_pkgs st pkg_name_version_and_architecture_compare) x y" "below (on_pkgs st pkg_name_version_and_architecture_compare) y z"
  then show "below (on_pkgs st pkg_name_version_and_architecture_compare) x z"
    using below_full_key(2)[OF assms] fc.trans[of "full_key (st_pkgs st ! x)" "full_key (st_pkgs st ! y)" "full_key (st_pkgs st ! z)"] by auto
qed

lemma names_preorder:
  assumes "\<And>p. p \<in> A \<Longrightarrow> \<exists>pkg n. pkg_at st p = Some pkg \<and> p_name pkg = Some n"
    and "\<And>a b n m. p_name a = Some n \<Longrightarrow> p_name b = Some m \<Longrightarrow> cmp a b = Some (strcmp n m)"
  shows "preorder_cmp (on_pkgs st cmp) A"
proof -
  define name where "name p = the (p_name (the (pkg_at st p)))" for p
  have c: "on_pkgs st cmp x y = Some (strcmp (name x) (name y))" if "x \<in> A" "y \<in> A" for x y
    using assms(1)[OF that(1)] assms(1)[OF that(2)] assms(2) by (auto simp: on_pkgs_def name_def)
  have "strcmp n m \<le> 0 \<or> strcmp m n \<le> 0" for n m using strcmp_swap[of n m] by linarith
  then show ?thesis using strcmp_trans unfolding preorder_cmp_def total_cmp_def below_def by (simp add: c)
qed

lemma in_store_name: "store_ok st \<Longrightarrow> in_store st p \<Longrightarrow> \<exists>pkg n. pkg_at st p = Some pkg \<and> p_name pkg = Some n"
  using in_store_identity[of st p] in_store_at[of st p] by (auto simp: identity_ok_def)

lemma fits_names:
  assumes "store_ok st"
  shows "preorder_cmp (on_pkgs st abstract_pkg_name_compare) (Collect (fits st))"
  using in_store_name[OF assms] by (intro names_preorder) (auto simp: abstract_pkg_name_compare_def fits_def)

lemma below_name:
  assumes "store_ok st" and "fits st p" and "fits st q" and "below (on_pkgs st pkg_name_version_and_architecture_compare) p q"
  shows "below (on_pkgs st abstract_pkg_name_compare) p q"
proof -
  have i: "in_store st p" "in_store st q" using assms(2,3) by (simp_all add: fits_def)
  then obtain n m where n: "p_name (st_pkgs st ! p) = Some n" "p_name (st_pkgs st ! q) = Some m"
    using in_store_identity[OF assms(1)] by (fastforce simp: identity_ok_def)
  have "full_cmp (full_key (st_pkgs st ! p)) (full_key (st_pkgs st ! q)) \<le> 0" using below_full_key(2)[OF assms(1-3)] assms(4) by blast
  then have "strcmp n m \<le> 0" using n by (auto simp: full_cmp_def full_key_def split: if_splits)
  then show ?thesis using n i in_store_at[OF assms(1)] by (simp add: below_def on_pkgs_def abstract_pkg_name_compare_def)
qed

text \<open>Both sorts return, and together they order the candidates by name, version and architecture if the second keeps the order.\<close>

lemma candidates_sorted:
  assumes "store_ok st" and "\<forall>p \<in> set ps. fits st p" and "sorts srt"
  shows "\<exists>s1 s2. (if 1 < length ps then srt (on_pkgs st pkg_name_version_and_architecture_compare) ps else Some ps) = Some s1 \<and>
    (if 1 < length ps then srt (on_pkgs st abstract_pkg_name_compare) s1 else Some s1) = Some s2 \<and> set s2 = set ps \<and>
    (keeps_order srt \<longrightarrow> sorted_wrt (\<lambda>p q. full_cmp (full_key (st_pkgs st ! p)) (full_key (st_pkgs st ! q)) \<le> 0) s2)"
proof -
  obtain r where r: "(if 1 < length ps then srt (on_pkgs st pkg_name_version_and_architecture_compare) ps else Some ps) = Some r"
    "mset r = mset ps" "sorted_wrt (below (on_pkgs st pkg_name_version_and_architecture_compare)) r"
    using sorts_many[OF assms(3) fits_preorder[OF assms(1)], of ps] assms(2) by auto
  have f: "fits st p" if "p \<in> set r" for p using that mset_eq_setD[OF r(2)] assms(2) by blast
  obtain s where s: "(if 1 < length r then srt (on_pkgs st abstract_pkg_name_compare) r else Some r) = Some s" "mset s = mset r"
    using sorts_many[OF assms(3) fits_names[OF assms(1)], of r] f by auto
  have "sorted_wrt (below (on_pkgs st abstract_pkg_name_compare)) r"
    using r(3) by (rule sorted_wrt_mono_rel[rotated]) (use f below_name[OF assms(1)] in blast)
  then have "keeps_order srt \<longrightarrow> s = r" using s(1) keeps_many[of srt "on_pkgs st abstract_pkg_name_compare" r "1 < length r"] by auto
  moreover have "sorted_wrt (\<lambda>p q. full_cmp (full_key (st_pkgs st ! p)) (full_key (st_pkgs st ! q)) \<le> 0) r"
    using r(3) by (rule sorted_wrt_mono_rel[rotated]) (use f below_full_key(2)[OF assms(1)] in blast)
  moreover have "length r = length ps" "set s = set ps" using r(2) s(2) mset_eq_length mset_eq_setD by metis+
  ultimately show ?thesis using r(1) s(1) by auto
qed

section \<open>The choice\<close>

abbreviation satisfies :: "(pkg \<Rightarrow> bool option) \<Rightarrow> store \<Rightarrow> nat \<Rightarrow> bool" where
  "satisfies constraint st p \<equiv> constraint (st_pkgs st ! p) = Some True"

text \<open>The last one that satisfies the constraint, when none of them is given by hand.\<close>

lemma pick_good_ok:
  assumes "store_ok st" and "total_on st constraint"
  shows "\<forall>p \<in> set ps. in_store st p \<Longrightarrow> \<exists>r. pick_good constraint st ps good = Some r \<and>
    (if \<exists>p \<in> set ps. satisfies constraint st p then \<exists>p \<in> set ps. r = Some p \<and> satisfies constraint st p else r = good) \<and>
    ((\<forall>p \<in> set ps. satisfies constraint st p \<longrightarrow> \<not> p_provided_by_hand (st_pkgs st ! p)) \<longrightarrow>
       r = (case filter (satisfies constraint st) ps of [] \<Rightarrow> good | qs \<Rightarrow> Some (last qs)))"
proof (induction ps arbitrary: good)
  case (Cons p ps)
  obtain b where b: "constraint (st_pkgs st ! p) = Some b" using assms(2) Cons.prems by (auto simp: total_on_def)
  have at: "pkg_at st p = Some (st_pkgs st ! p)" using in_store_at[OF assms(1)] Cons.prems by simp
  have prems: "\<forall>p \<in> set ps. in_store st p" using Cons.prems by simp
  show ?case
  proof (cases b)
    case False
    obtain r where "pick_good constraint st ps good = Some r"
      "if \<exists>p \<in> set ps. satisfies constraint st p then \<exists>p \<in> set ps. r = Some p \<and> satisfies constraint st p else r = good"
      "(\<forall>p \<in> set ps. satisfies constraint st p \<longrightarrow> \<not> p_provided_by_hand (st_pkgs st ! p)) \<longrightarrow>
       r = (case filter (satisfies constraint st) ps of [] \<Rightarrow> good | qs \<Rightarrow> Some (last qs))"
      using Cons.IH[OF prems, of good] by blast
    then show ?thesis using b False at by (intro exI[of _ r]) simp
  next
    case True
    show ?thesis
    proof (cases "p_provided_by_hand (st_pkgs st ! p)")
      case hand: False
      obtain r where r: "pick_good constraint st ps (Some p) = Some r"
        "if \<exists>p \<in> set ps. satisfies constraint st p then \<exists>p \<in> set ps. r = Some p \<and> satisfies constraint st p else r = Some p"
        "(\<forall>p \<in> set ps. satisfies constraint st p \<longrightarrow> \<not> p_provided_by_hand (st_pkgs st ! p)) \<longrightarrow>
         r = (case filter (satisfies constraint st) ps of [] \<Rightarrow> Some p | qs \<Rightarrow> Some (last qs))"
        using Cons.IH[OF prems, of "Some p"] by blast
      have "\<exists>q \<in> set (p # ps). r = Some q \<and> satisfies constraint st q" using r(2) b True by (auto split: if_splits)
      moreover have "(case filter (satisfies constraint st) ps of [] \<Rightarrow> Some p | qs \<Rightarrow> Some (last qs)) =
        (case filter (satisfies constraint st) (p # ps) of [] \<Rightarrow> good | qs \<Rightarrow> Some (last qs))"
        using b True by (simp split: list.split)
      ultimately show ?thesis using r(1,3) b True at hand by auto
    qed (use True b at in auto)
  qed
qed simp

lemma pick_others_ok:
  assumes "store_ok st"
  shows "\<forall>p \<in> set ps. in_store st p \<Longrightarrow> \<exists>l i h. pick_others st ps acc = Some (l, i, h) \<and>
    {l, i, h} \<subseteq> {fst acc, fst (snd acc), snd (snd acc)} \<union> Some ` set ps"
proof (induction ps arbitrary: acc)
  case Nil
  show ?case by (cases acc) simp
next
  case (Cons p ps)
  obtain l i h where acc: "acc = (l, i, h)" by (cases acc)
  obtain a where a: "a < length (st_abs st)" "member_ok st a p" using in_store_member[OF assms, of p] Cons.prems by auto
  let ?acc = "(Some p, if a_state_status (st_abs st ! a) = SS_INSTALLED \<or> a_state_status (st_abs st ! a) = SS_UNPACKED then Some p else i,
     if p_state_flag (st_pkgs st ! p) AND (SF_HOLD OR SF_PREFER) \<noteq> 0 then Some p else h)"
  define acc' where "acc' = ?acc"
  have step: "pick_others st (p # ps) acc = pick_others st ps acc'"
    using a Cons.prems in_store_at[OF assms] by (simp add: acc acc'_def member_ok_def abs_at_ok)
  have sub: "{fst acc', fst (snd acc'), snd (snd acc')} \<subseteq> {fst acc, fst (snd acc), snd (snd acc)} \<union> {Some p}"
    by (simp add: acc acc'_def)
  have "\<forall>p \<in> set ps. in_store st p" using Cons.prems by simp
  from Cons.IH[OF this, of acc'] obtain l' i' h' where r: "pick_others st ps acc' = Some (l', i', h')"
    "{l', i', h'} \<subseteq> {fst acc', fst (snd acc'), snd (snd acc')} \<union> Some ` set ps" by blast
  have "{l', i', h'} \<subseteq> {fst acc, fst (snd acc), snd (snd acc)} \<union> Some ` set (p # ps)" using subset_trans[OF r(2) Un_mono[OF sub subset_refl]] by auto
  then show ?case using r(1) unfolding step by blast
qed

lemma last_filter_max:
  assumes "sorted_wrt R xs" and "x \<in> set xs" and "P x"
  shows "filter P xs \<noteq> [] \<and> (R x (last (filter P xs)) \<or> x = last (filter P xs))"
  using assms
proof (induction xs)
  case (Cons y xs)
  show ?case
  proof (cases "filter P xs = []")
    case True
    then show ?thesis using Cons.prems by (auto simp: filter_empty_conv)
  next
    case False
    then have l: "last (filter P xs) \<in> set xs" using last_in_set[OF False] by simp
    show ?thesis
    proof (cases "x \<in> set xs")
      case True
      then show ?thesis using Cons.IH Cons.prems False by simp
    next
      case x: False
      then show ?thesis using Cons.prems False l by auto
    qed
  qed
qed simp

lemma best_candidate:
  assumes "store_ok st" and "a < length (st_abs st)" and "total_on st constraint" and "sorts srt"
  shows "\<exists>c no. pkg_hash_fetch_best_installation_candidate srt st a constraint = Some (c, no) \<and>
    (\<forall>p. c = Some p \<longrightarrow> fits st p \<and> eligible st a p) \<and>
    ((\<exists>p. eligible st a p \<and> satisfies constraint st p) \<longrightarrow> (\<exists>p. c = Some p \<and> satisfies constraint st p \<and>
       (keeps_order srt \<and> (\<forall>q. eligible st a q \<and> satisfies constraint st q \<longrightarrow> \<not> p_provided_by_hand (st_pkgs st ! q)) \<longrightarrow>
        (\<forall>q. eligible st a q \<and> satisfies constraint st q \<longrightarrow>
           fits st q \<and> full_cmp (full_key (st_pkgs st ! q)) (full_key (st_pkgs st ! p)) \<le> 0))))"
proof -
  obtain ps no where ps: "candidates st a = Some (ps, no)" "\<forall>p \<in> set ps. fits st p" using candidates_ok[OF assms(1,2)] by blast
  have el: "eligible st a p \<longleftrightarrow> p \<in> set ps" for p using candidates_eligible[OF assms(1,2) ps(1)] by simp
  obtain s1 sd where sd: "(if 1 < length ps then srt (on_pkgs st pkg_name_version_and_architecture_compare) ps else Some ps) = Some s1"
    "(if 1 < length ps then srt (on_pkgs st abstract_pkg_name_compare) s1 else Some s1) = Some sd" "set sd = set ps"
    "keeps_order srt \<longrightarrow> sorted_wrt (\<lambda>p q. full_cmp (full_key (st_pkgs st ! p)) (full_key (st_pkgs st ! q)) \<le> 0) sd"
    using candidates_sorted[OF assms(1) ps(2) assms(4)] by blast
  have i: "\<forall>p \<in> set sd. in_store st p" using ps(2) sd(3) by (simp add: fits_def)
  obtain g where g: "pick_good constraint st sd None = Some g"
    "if \<exists>p \<in> set sd. satisfies constraint st p then \<exists>p \<in> set sd. g = Some p \<and> satisfies constraint st p else g = None"
    "(\<forall>p \<in> set sd. satisfies constraint st p \<longrightarrow> \<not> p_provided_by_hand (st_pkgs st ! p)) \<longrightarrow>
       g = (case filter (satisfies constraint st) sd of [] \<Rightarrow> None | qs \<Rightarrow> Some (last qs))"
    using pick_good_ok[OF assms(1,3) i, of None] by blast
  obtain l p h where o: "pick_others st sd (None, None, None) = Some (l, p, h)" "{l, p, h} \<subseteq> {None} \<union> Some ` set sd"
    using pick_others_ok[OF assms(1) i, of "(None, None, None)"] by auto
  define c where "c = (if g \<noteq> None then g else if h \<noteq> None then h else if p \<noteq> None then p else if 1 < length ps then None else l)"
  have "pkg_hash_fetch_best_installation_candidate srt st a constraint = Some (c, no)"
  proof (cases "a_provided_by (st_abs st ! a) = []")
    case True
    then have "ps = []" "\<not> no" using ps(1) by (simp_all add: candidates_def)
    then have "c = None" using g(1) sd(1,2) o(1) by (auto simp: c_def)
    then show ?thesis using True \<open>\<not> no\<close> assms(2) by (simp add: pkg_hash_fetch_best_installation_candidate_def abs_at_ok)
  next
    case False
    then show ?thesis using ps(1) sd(1,2) g(1) o(1) assms(2)
      by (simp add: pkg_hash_fetch_best_installation_candidate_def abs_at_ok candidates_def c_def)
  qed
  moreover have "fits st q \<and> eligible st a q" if "c = Some q" for q
    using that o(2) g(2) sd(3) ps(2) unfolding el by (auto simp: c_def split: if_splits)
  moreover have "\<exists>q. c = Some q \<and> satisfies constraint st q \<and>
       (keeps_order srt \<and> (\<forall>q. eligible st a q \<and> satisfies constraint st q \<longrightarrow> \<not> p_provided_by_hand (st_pkgs st ! q)) \<longrightarrow>
        (\<forall>r. eligible st a r \<and> satisfies constraint st r \<longrightarrow>
           fits st r \<and> full_cmp (full_key (st_pkgs st ! r)) (full_key (st_pkgs st ! q)) \<le> 0))"
    if ex: "\<exists>q. eligible st a q \<and> satisfies constraint st q"
  proof -
    have "\<exists>p \<in> set sd. satisfies constraint st p" using ex sd(3) el by blast
    then obtain q where q: "q \<in> set ps" "g = Some q" "satisfies constraint st q" using g(2) sd(3) by auto
    have "full_cmp (full_key (st_pkgs st ! r)) (full_key (st_pkgs st ! q)) \<le> 0"
      if k: "keeps_order srt" "\<forall>q. eligible st a q \<and> satisfies constraint st q \<longrightarrow> \<not> p_provided_by_hand (st_pkgs st ! q)"
        "r \<in> set ps" "satisfies constraint st r" for r
    proof -
      have "r \<in> set sd" using k(3) sd(3) by simp
      note m = last_filter_max[OF sd(4)[rule_format, OF k(1)] this, of "satisfies constraint st", OF k(4)]
      then have "g = Some (last (filter (satisfies constraint st) sd))" using g(3) k(2) sd(3) el by (auto split: list.splits)
      then show ?thesis using m q(2) fc.same[of "full_key (st_pkgs st ! r)"] by auto
    qed
    then show ?thesis using q ps(2) el by (auto simp: c_def)
  qed
  ultimately show ?thesis by blast
qed

section \<open>Property\<close>

text \<open>
  C26. Choosing a package for a name, with any \<open>qsort\<close> that does what the C standard says: on a store that is in order, and
  with a constraint that can be tested on its packages, the choice never faults; what is chosen is
  eligible: it fits a configured architecture, and belongs to a provider of the name, or, when the first package
  noted to replace the provider is another one and not a provider itself, to that one; when an eligible package satisfies the constraint, one that
  satisfies it is chosen; and if \<open>qsort\<close> also leaves an array that is in order as it is (the second sort, by
  name alone, would otherwise be free to undo the first), and none of those that satisfy it was given by hand, the choice
  is the latest version among those with its name.
\<close>

theorem best_candidate_latest:
  assumes "store_ok st" and "a < length (st_abs st)" and "total_on st constraint" and "sorts srt"
  shows "\<exists>c no. pkg_hash_fetch_best_installation_candidate srt st a constraint = Some (c, no) \<and>
    (\<forall>p. c = Some p \<longrightarrow> eligible st a p) \<and>
    ((\<exists>p. eligible st a p \<and> satisfies constraint st p) \<longrightarrow> (\<exists>p. c = Some p \<and> satisfies constraint st p \<and>
       (keeps_order srt \<and> (\<forall>q. eligible st a q \<and> satisfies constraint st q \<longrightarrow> \<not> p_provided_by_hand (st_pkgs st ! q)) \<longrightarrow>
        (\<forall>q. eligible st a q \<and> satisfies constraint st q \<and> p_name (st_pkgs st ! q) = p_name (st_pkgs st ! p) \<longrightarrow>
           (\<exists>v \<le> 0. pkg_compare_versions (st_pkgs st ! q) (st_pkgs st ! p) = Some v)))))"
proof -
  obtain c no where c: "pkg_hash_fetch_best_installation_candidate srt st a constraint = Some (c, no)"
    "\<forall>p. c = Some p \<longrightarrow> fits st p \<and> eligible st a p"
    "(\<exists>p. eligible st a p \<and> satisfies constraint st p) \<longrightarrow> (\<exists>p. c = Some p \<and> satisfies constraint st p \<and>
       (keeps_order srt \<and> (\<forall>q. eligible st a q \<and> satisfies constraint st q \<longrightarrow> \<not> p_provided_by_hand (st_pkgs st ! q)) \<longrightarrow>
        (\<forall>q. eligible st a q \<and> satisfies constraint st q \<longrightarrow>
           fits st q \<and> full_cmp (full_key (st_pkgs st ! q)) (full_key (st_pkgs st ! p)) \<le> 0)))"
    using best_candidate[OF assms] by blast
  have "\<exists>v \<le> 0. pkg_compare_versions (st_pkgs st ! q) (st_pkgs st ! p) = Some v"
    if "full_cmp (full_key (st_pkgs st ! q)) (full_key (st_pkgs st ! p)) \<le> 0" "p_name (st_pkgs st ! q) = p_name (st_pkgs st ! p)"
      "fits st p" "fits st q" for p q
  proof -
    have i: "identity_ok (st_pkgs st ! q)" "identity_ok (st_pkgs st ! p)" using that(3,4) in_store_identity[OF assms(1)] by (auto simp: fits_def)
    then obtain v where v: "pkg_compare_versions (st_pkgs st ! q) (st_pkgs st ! p) = Some v" "sgn v = key_cmp (pkg_key (st_pkgs st ! q)) (pkg_key (st_pkgs st ! p))"
      using compare_key by (auto simp: identity_ok_def)
    have "key_cmp (pkg_key (st_pkgs st ! q)) (pkg_key (st_pkgs st ! p)) \<le> 0" using that(1,2) sc.same
      by (auto simp: full_cmp_def full_key_def split: if_splits)
    then show ?thesis using v sgn_le[of v] by auto
  qed
  then show ?thesis using c by blast
qed

text \<open>Two versions of one package.\<close>

definition vi :: "string \<Rightarrow> pkg" where
  "vi v = pkg_init\<lparr>p_name := Some ''vi'', p_version := Some v, p_revision := Some [], p_architecture := Some ''arm'',
     p_arch_priority := 1, p_parent := Some 0\<rparr>"

definition two_versions :: store where
  "two_versions = \<lparr>st_hash = hash_put (st_hash (example_store pkg_init)) (''vi'', 0),
     st_abs = [(abstract_pkg_new ''vi'')\<lparr>a_pkgs := Some [0, 1], a_provided_by := [0]\<rparr>],
     st_pkgs = [vi ''1.2'', vi ''1.10'']\<rparr>"

lemma two_versions_ok: "store_ok two_versions"
proof -
  have h: "hash_ok (st_hash (example_store pkg_init))" and m: "hash_map (st_hash (example_store pkg_init)) = Map.empty"
    using example_store_ok[of pkg_init] by (auto simp: store_ok_def links_ok_def names_ok_def example_store_def fun_eq_iff)
  obtain h' where h': "hash_table_insert True (st_hash (example_store pkg_init)) ''vi'' 0 = Some (0, h')" "hash_ok h'" "hash_map h' = [''vi'' \<mapsto> 0]"
    using insert_hash_map[OF h, of "''vi''" 0] m by auto
  then have t: "st_hash two_versions = h'" by (simp add: two_versions_def hash_put_def)
  have "names_ok two_versions" unfolding names_ok_def t using h'(2,3) by (auto simp: two_versions_def abstract_pkg_new_def)
  moreover have "member_ok two_versions 0 p" if "p \<in> {0, 1}" for p
    using that by (auto simp: member_ok_def two_versions_def vi_def pkg_init_def identity_ok_def c_version_def str_of_def
      short_strings_def refs_ok_def deps_ok_def abstract_pkg_new_def)
  ultimately show ?thesis
    by (auto simp: store_ok_def links_ok_def two_versions_def abs_ok_def pkgs_of_def abstract_pkg_new_def)
qed

lemma best_candidate_latest_witness:
  "\<exists>no. pkg_hash_fetch_best_installation_candidate insertion_sort two_versions 0 (\<lambda>_. Some True) = Some (Some 1, no)"
proof -
  have t: "total_on two_versions (\<lambda>_. Some True)" by (auto simp: total_on_def)
  have e: "eligible two_versions 0 p \<longleftrightarrow> p \<in> {0, 1}" for p
    by (auto simp: eligible_def stands_in_def two_versions_def pkgs_of_def abstract_pkg_new_def vi_def)
  have v: "pkg_compare_versions (vi ''1.10'') (vi ''1.2'') = Some 1" by code_simp
  have h: "\<not> p_provided_by_hand (st_pkgs two_versions ! q)" if "q \<in> {0, 1}" for q
    using that by (auto simp: two_versions_def vi_def pkg_init_def)
  have "0 < length (st_abs two_versions)" by (simp add: two_versions_def)
  from best_candidate_latest[OF two_versions_ok this t insertion_sort_sorts] obtain x no where
    x: "pkg_hash_fetch_best_installation_candidate insertion_sort two_versions 0 (\<lambda>_. Some True) = Some (x, no)"
    "\<forall>p. x = Some p \<longrightarrow> p \<in> {0, 1}"
    "\<exists>p. x = Some p \<and> (\<forall>q. q \<in> {0, 1} \<and> p_name (st_pkgs two_versions ! q) = p_name (st_pkgs two_versions ! p) \<longrightarrow>
         (\<exists>v \<le> 0. pkg_compare_versions (st_pkgs two_versions ! q) (st_pkgs two_versions ! p) = Some v))"
    using insertion_sort_keeps_order h unfolding e by auto
  have "x = Some 1" using x(2,3) v by (auto simp: two_versions_def) (auto simp: vi_def pkg_init_def)
  then show ?thesis using x(1) by blast
qed

end
