(* ===== verification/OpkgSolve.thy ===== *)
theory OpkgSolve
  imports OpkgChoose
begin

text \<open>
  The packages that have to be installed for a package (\<open>opkg/libopkg/pkg_depends.c\<close>:
  \<open>pkg_hash_fetch_unsatisfied_dependencies\<close>), a recursion over the dependencies that marks the
  abstract packages it has been at.  It returns on every store, and when it reports nothing lost,
  every dependency is covered.  Messages are left out.
\<close>

section \<open>Unsatisfied dependencies\<close>

text \<open>An installed package for one of the alternatives.\<close>

fun installed_satisfier :: "sorter \<Rightarrow> store \<Rightarrow> depend list \<Rightarrow> bool option" where
  "installed_satisfier srt st [] = Some False"
| "installed_satisfier srt st (d # ds) = do {
     (c, _) \<leftarrow> pkg_hash_fetch_best_installation_candidate srt st (d_pkg d) (pkg_installed_and_constraint_satisfied d);
     ok \<leftarrow> (case c of None \<Rightarrow> Some False
       | Some p \<Rightarrow> do { pkg \<leftarrow> pkg_at st p; pkg_installed_and_constraint_satisfied d pkg });
     if ok then Some True else installed_satisfier srt st ds }"

definition weak_type :: "depend_type \<Rightarrow> bool" where
  "weak_type t \<longleftrightarrow> t = RECOMMEND \<or> t = SUGGEST"

text \<open>A package that would satisfy one of the alternatives; the user's wish comes before a recommendation.\<close>

fun available_satisfier :: "sorter \<Rightarrow> store \<Rightarrow> depend_type \<Rightarrow> depend list \<Rightarrow> nat option option" where
  "available_satisfier srt st t [] = Some None"
| "available_satisfier srt st t (d # ds) = do {
     (c, _) \<leftarrow> pkg_hash_fetch_best_installation_candidate srt st (d_pkg d) (pkg_constraint_satisfied d);
     (case c of
        None \<Rightarrow> available_satisfier srt st t ds
      | Some p \<Rightarrow> do {
          pkg \<leftarrow> pkg_at st p;
          ok \<leftarrow> pkg_constraint_satisfied d pkg;
          if \<not> ok \<or> weak_type t \<and> (p_state_want pkg = SW_DEINSTALL \<or> p_state_want pkg = SW_PURGE)
          then available_satisfier srt st t ds
          else Some (Some p) }) }"

text \<open>
  The store with the marks, the packages to install, the strings of the dependencies that are lost
  (the empty list is the null pointer), and the value that is returned.
\<close>

type_synonym fetched = "store \<times> nat list \<times> string list \<times> nat"
type_synonym fetch = "store \<Rightarrow> nat \<Rightarrow> nat list \<Rightarrow> fetched option"

fun all_wanted :: "store \<Rightarrow> nat list \<Rightarrow> bool option" where
  "all_wanted st [] = Some True"
| "all_wanted st (p # ps) = do { pkg \<leftarrow> pkg_at st p; if p_state_want pkg = SW_INSTALL then all_wanted st ps else Some False }"

definition greedy_scout :: "fetch \<Rightarrow> nat \<Rightarrow> store \<times> nat list \<Rightarrow> (store \<times> nat list) option" where
  "greedy_scout fetch k acc = (case acc of (st, unsatisfied) \<Rightarrow> do {
     scout \<leftarrow> pkg_at st k;
     if p_state_want scout = SW_INSTALL then Some acc
     else do {
       par \<leftarrow> p_parent scout;
       ab \<leftarrow> abs_at st par;
       if a_dependencies_checked ab then Some acc
       else do {
         known \<leftarrow> is_pkg_in_pkg_vec st unsatisfied scout;
         if known then Some acc
         else do {
           (st, tmp_vec, newstuff, rc) \<leftarrow> fetch st k [];
           if newstuff = [] then do {
             ok \<leftarrow> all_wanted st (take rc tmp_vec);
             Some (st, if ok then unsatisfied @ [k] else unsatisfied) }
           else Some (st, unsatisfied) } } } })"

definition greedy_possibility :: "fetch \<Rightarrow> depend \<Rightarrow> store \<times> nat list \<Rightarrow> (store \<times> nat list) option" where
  "greedy_possibility fetch d acc = do {
     ab \<leftarrow> abs_at (fst acc) (d_pkg d);
     ks \<leftarrow> all_pkgs (fst acc) (a_provided_by ab);
     mfold (greedy_scout fetch) ks acc }"

definition plain_depend :: "sorter \<Rightarrow> fetch \<Rightarrow> nat \<Rightarrow> nat \<Rightarrow> compound_depend \<Rightarrow> store \<times> nat list \<times> string list \<Rightarrow>
    (store \<times> nat list \<times> string list) option" where
  "plain_depend srt fetch p i cd acc = (case acc of (st, unsatisfied, the_lost) \<Rightarrow> do {
     found \<leftarrow> installed_satisfier srt st (cd_possibilities cd);
     if found then Some acc
     else do {
       satisfier \<leftarrow> available_satisfier srt st (cd_type cd) (cd_possibilities cd);
       (case satisfier of
          None \<Rightarrow>
            if weak_type (cd_type cd) then if cd_possibilities cd = [] then None else Some acc
            else do { pkg \<leftarrow> pkg_at st p; s \<leftarrow> pkg_depend_str pkg i; Some (st, unsatisfied, the_lost @ [s]) }
        | Some q \<Rightarrow>
            if cd_type cd = SUGGEST then Some acc
            else if q = p then Some acc
            else do {
              pkg \<leftarrow> pkg_at st q;
              known \<leftarrow> is_pkg_in_pkg_vec st unsatisfied pkg;
              if known then Some acc
              else do {
                (st, unsatisfied, newstuff, _) \<leftarrow> fetch st q (unsatisfied @ [q]);
                Some (st, unsatisfied, the_lost @ newstuff) } }) } })"

definition one_depend :: "sorter \<Rightarrow> fetch \<Rightarrow> nat \<Rightarrow> nat \<times> compound_depend \<Rightarrow> store \<times> nat list \<times> string list \<Rightarrow>
    (store \<times> nat list \<times> string list) option" where
  "one_depend srt fetch p icd acc =
     (if cd_type (snd icd) = GREEDY_DEPEND then do {
        (st, unsatisfied) \<leftarrow> mfold (greedy_possibility fetch) (cd_possibilities (snd icd)) (fst acc, fst (snd acc));
        Some (st, unsatisfied, snd (snd acc)) }
      else plain_depend srt fetch p (fst icd) (snd icd) acc)"

definition depend_count :: "pkg \<Rightarrow> nat" where
  "depend_count pkg = length (p_pre_depends_str pkg) + length (p_depends_str pkg) + length (p_recommends_str pkg) + length (p_suggests_str pkg)"

text \<open>The first argument bounds the depth of the recursion.\<close>

fun pkg_hash_fetch_unsatisfied_dependencies :: "sorter \<Rightarrow> nat \<Rightarrow> fetch" where
  "pkg_hash_fetch_unsatisfied_dependencies srt 0 st p unsatisfied = None"
| "pkg_hash_fetch_unsatisfied_dependencies srt (Suc n) st p unsatisfied = do {
     pkg \<leftarrow> pkg_at st p;
     (case p_parent pkg of
        None \<Rightarrow> Some (st, unsatisfied, [], 0)
      | Some a \<Rightarrow> do {
          ab \<leftarrow> abs_at st a;
          if a_dependencies_checked ab then Some (st, unsatisfied, [], 0)
          else do {
            st \<leftarrow> abs_update a (\<lambda>x. x\<lparr>a_dependencies_checked := True\<rparr>) st;
            let count = depend_count pkg;
            if count = 0 then Some (st, unsatisfied, [], 0)
            else if length (p_depends pkg) < count then None
            else do {
              (st, unsatisfied, the_lost) \<leftarrow>
                mfold (one_depend srt (pkg_hash_fetch_unsatisfied_dependencies srt n) p)
                  (enumerate 0 (take count (p_depends pkg))) (st, unsatisfied, []);
              Some (st, unsatisfied, the_lost, length unsatisfied) } } }) }"

section \<open>Marks\<close>

text \<open>The recursion changes nothing in the store but the marks, which are never taken away.\<close>

definition marked :: "store \<Rightarrow> store \<Rightarrow> bool" where
  "marked st st' \<longleftrightarrow> st_pkgs st' = st_pkgs st \<and> st_hash st' = st_hash st \<and> length (st_abs st') = length (st_abs st) \<and>
     (\<forall>a < length (st_abs st). (a_dependencies_checked (st_abs st ! a) \<longrightarrow> a_dependencies_checked (st_abs st' ! a)) \<and>
        (st_abs st' ! a)\<lparr>a_dependencies_checked := False\<rparr> = (st_abs st ! a)\<lparr>a_dependencies_checked := False\<rparr>)"

lemma marked_refl [simp]: "marked st st"
  by (simp add: marked_def)

lemma marked_trans [trans]: "marked st st1 \<Longrightarrow> marked st1 st2 \<Longrightarrow> marked st st2"
  by (simp add: marked_def)

lemma marked_fields:
  assumes "marked st st'" and "a < length (st_abs st)"
  shows "a_name (st_abs st' ! a) = a_name (st_abs st ! a)" "a_pkgs (st_abs st' ! a) = a_pkgs (st_abs st ! a)"
    "a_provided_by (st_abs st' ! a) = a_provided_by (st_abs st ! a)" "a_replaced_by (st_abs st' ! a) = a_replaced_by (st_abs st ! a)"
    "a_depended_upon_by (st_abs st' ! a) = a_depended_upon_by (st_abs st ! a)"
proof -
  have f: "a_name (x\<lparr>a_dependencies_checked := b\<rparr>) = a_name x" "a_pkgs (x\<lparr>a_dependencies_checked := b\<rparr>) = a_pkgs x"
    "a_provided_by (x\<lparr>a_dependencies_checked := b\<rparr>) = a_provided_by x" "a_replaced_by (x\<lparr>a_dependencies_checked := b\<rparr>) = a_replaced_by x"
    "a_depended_upon_by (x\<lparr>a_dependencies_checked := b\<rparr>) = a_depended_upon_by x" for x :: abstract_pkg and b by simp_all
  have e: "(st_abs st' ! a)\<lparr>a_dependencies_checked := False\<rparr> = (st_abs st ! a)\<lparr>a_dependencies_checked := False\<rparr>"
    using assms by (simp add: marked_def)
  show "a_name (st_abs st' ! a) = a_name (st_abs st ! a)" "a_pkgs (st_abs st' ! a) = a_pkgs (st_abs st ! a)"
    "a_provided_by (st_abs st' ! a) = a_provided_by (st_abs st ! a)" "a_replaced_by (st_abs st' ! a) = a_replaced_by (st_abs st ! a)"
    "a_depended_upon_by (st_abs st' ! a) = a_depended_upon_by (st_abs st ! a)"
    using f[where x = "st_abs st' ! a" and b = False] f[where x = "st_abs st ! a" and b = False] unfolding e by simp_all
qed

lemma marked_pkgs_of: "marked st st' \<Longrightarrow> a < length (st_abs st) \<Longrightarrow> pkgs_of st' a = pkgs_of st a"
  by (simp add: pkgs_of_def marked_fields)

lemma marked_in_store: "marked st st' \<Longrightarrow> in_store st' p \<longleftrightarrow> in_store st p"
  using marked_pkgs_of[of st st'] by (auto simp: in_store_def marked_def)

lemma marked_store_ok:
  assumes "marked st st'" and "store_ok st"
  shows "store_ok st'"
proof -
  have m: "st_pkgs st' = st_pkgs st" "st_hash st' = st_hash st" "length (st_abs st') = length (st_abs st)" using assms(1) by (simp_all add: marked_def)
  have "names_ok st'" using assms(2) marked_fields(1)[OF assms(1)] m by (auto simp: store_ok_def links_ok_def names_ok_def)
  moreover have "abs_ok (length (st_abs st')) (st_abs st' ! a)" if "a < length (st_abs st')" for a
    using links_abs_ok[OF store_links[OF assms(2)], of a] marked_fields[OF assms(1), of a] that m(3) by (simp add: abs_ok_def)
  ultimately have "links_ok st'" by (auto simp: links_ok_def in_set_conv_nth)
  then show ?thesis using assms(2) marked_pkgs_of[OF assms(1)] marked_fields(1)[OF assms(1)] m by (simp add: store_ok_def member_ok_def)
qed

text \<open>What is left to mark.\<close>

definition unvisited :: "store \<Rightarrow> nat set" where
  "unvisited st = {a. a < length (st_abs st) \<and> \<not> a_dependencies_checked (st_abs st ! a)}"

lemma finite_unvisited [simp]: "finite (unvisited st)"
  by (rule finite_subset[of _ "{..<length (st_abs st)}"]) (auto simp: unvisited_def)

lemma marked_unvisited: "marked st st' \<Longrightarrow> card (unvisited st') \<le> card (unvisited st)"
  by (rule card_mono) (auto simp: unvisited_def marked_def)

lemma mark_ok:
  assumes "a \<in> unvisited st"
  shows "\<exists>st'. abs_update a (\<lambda>x. x\<lparr>a_dependencies_checked := True\<rparr>) st = Some st' \<and> marked st st' \<and> card (unvisited st') < card (unvisited st) \<and>
    a_dependencies_checked (st_abs st' ! a)"
proof -
  have a: "a < length (st_abs st)" using assms by (simp add: unvisited_def)
  let ?st = "st\<lparr>st_abs := (st_abs st)[a := (st_abs st ! a)\<lparr>a_dependencies_checked := True\<rparr>]\<rparr>"
  have "marked st ?st" using a by (auto simp: marked_def nth_list_update)
  moreover have "unvisited ?st \<subset> unvisited st" using assms a by (auto simp: unvisited_def nth_list_update)
  then have "card (unvisited ?st) < card (unvisited st)" by (rule psubset_card_mono[OF finite_unvisited])
  ultimately show ?thesis using a by (auto simp: abs_update_def)
qed

section \<open>Satisfiers\<close>

text \<open>
  A package of the store that satisfies one of the alternatives: in name, that is, it is eligible for the name, and in relation and version.
\<close>

definition satisfier :: "store \<Rightarrow> depend list \<Rightarrow> nat \<Rightarrow> bool" where
  "satisfier st ds q \<longleftrightarrow> in_store st q \<and>
     (\<exists>d \<in> set ds. eligible st (d_pkg d) q \<and> version_constraints_satisfied d (st_pkgs st ! q) = Some True)"

lemma installed_satisfier_ok:
  assumes "store_ok st" and "sorts srt"
  shows "\<forall>d \<in> set ds. dep_ok (length (st_abs st)) d \<Longrightarrow> \<exists>b. installed_satisfier srt st ds = Some b \<and>
    (b \<longrightarrow> (\<exists>q. satisfier st ds q \<and> installed (st_pkgs st ! q)))"
proof (induction ds)
  case (Cons d ds)
  have d: "dep_ok (length (st_abs st)) d" and a: "d_pkg d < length (st_abs st)" using Cons.prems by (simp_all add: dep_ok_def)
  have t: "total_on st (pkg_installed_and_constraint_satisfied d)" using constraint_total[OF assms(1) d] by blast
  obtain c no where c: "pkg_hash_fetch_best_installation_candidate srt st (d_pkg d) (pkg_installed_and_constraint_satisfied d) = Some (c, no)"
    "\<forall>p. c = Some p \<longrightarrow> fits st p \<and> eligible st (d_pkg d) p"
    using best_candidate[OF assms(1) a t assms(2)] by blast
  obtain b where b: "installed_satisfier srt st ds = Some b" "b \<longrightarrow> (\<exists>q. satisfier st ds q \<and> installed (st_pkgs st ! q))"
    using Cons by auto
  show ?case
  proof (cases c)
    case None
    then show ?thesis using c(1) b by (auto simp: satisfier_def)
  next
    case (Some p)
    have p: "in_store st p" "eligible st (d_pkg d) p" using c(2) Some by (simp_all add: fits_def)
    obtain v where v: "pkg_installed_and_constraint_satisfied d (st_pkgs st ! p) = Some v" using t p by (auto simp: total_on_def)
    then show ?thesis using c(1) b Some p in_store_at[OF assms(1) p(1)]
      by (cases v) (auto simp: satisfier_def pkg_installed_and_constraint_satisfied_def split: if_splits)
  qed
qed auto

lemma available_satisfier_ok:
  assumes "store_ok st" and "sorts srt"
  shows "\<forall>d \<in> set ds. dep_ok (length (st_abs st)) d \<Longrightarrow> \<exists>r. available_satisfier srt st t ds = Some r \<and>
    (\<forall>q. r = Some q \<longrightarrow> satisfier st ds q)"
proof (induction ds)
  case (Cons d ds)
  have d: "dep_ok (length (st_abs st)) d" and a: "d_pkg d < length (st_abs st)" using Cons.prems by (simp_all add: dep_ok_def)
  have t: "total_on st (pkg_constraint_satisfied d)" using constraint_total[OF assms(1) d] by blast
  obtain c no where c: "pkg_hash_fetch_best_installation_candidate srt st (d_pkg d) (pkg_constraint_satisfied d) = Some (c, no)"
    "\<forall>p. c = Some p \<longrightarrow> fits st p \<and> eligible st (d_pkg d) p"
    using best_candidate[OF assms(1) a t assms(2)] by blast
  obtain r where r: "available_satisfier srt st t ds = Some r" "\<forall>q. r = Some q \<longrightarrow> satisfier st ds q" using Cons by auto
  then have r': "\<forall>q. r = Some q \<longrightarrow> satisfier st (d # ds) q" by (auto simp: satisfier_def)
  show ?case
  proof (cases c)
    case None
    then show ?thesis using c(1) r(1) r' by auto
  next
    case (Some p)
    have p: "in_store st p" "eligible st (d_pkg d) p" using c(2) Some by (simp_all add: fits_def)
    obtain v where v: "pkg_constraint_satisfied d (st_pkgs st ! p) = Some v" using t p by (auto simp: total_on_def)
    have "v \<Longrightarrow> satisfier st (d # ds) p" using v p by (simp add: satisfier_def pkg_constraint_satisfied_def)
    then show ?thesis using c(1) r(1) r' Some p v in_store_at[OF assms(1) p(1)] by auto
  qed
qed simp

lemma find_same_in_store:
  assumes "store_ok st" and "in_store st p" and "\<forall>q \<in> set us. in_store st q"
  shows "\<exists>r. find_same st (st_pkgs st ! p) us = Some r"
proof -
  have "\<forall>q \<in> set us. q < length (st_pkgs st) \<and> identity_ok (st_pkgs st ! q)"
    using assms(3) in_store_member[OF assms(1)] in_store_identity[OF assms(1)] by (fastforce simp: member_ok_def)
  then show ?thesis using find_same_ok in_store_identity[OF assms(1,2)] by blast
qed

lemma all_pkgs_ok:
  assumes "store_ok st"
  shows "\<forall>a \<in> set as. a < length (st_abs st) \<Longrightarrow> \<exists>ps. all_pkgs st as = Some ps \<and> (\<forall>p \<in> set ps. in_store st p)"
proof (induction as)
  case (Cons a as)
  then obtain ps where ps: "all_pkgs st as = Some ps" "\<forall>p \<in> set ps. in_store st p" by auto
  have "\<forall>p \<in> set (pkgs_of st a). in_store st p" using Cons.prems by (auto simp: in_store_def)
  then show ?case using ps Cons.prems by (auto simp: abs_at_ok pkgs_of_def)
qed simp

lemma all_wanted_ok:
  assumes "store_ok st"
  shows "\<forall>p \<in> set ps. in_store st p \<Longrightarrow> \<exists>b. all_wanted st ps = Some b"
  by (induction ps) (auto simp: in_store_at[OF assms])

section \<open>Marks do not matter to the choice\<close>

lemma pkg_at_marked: "marked st st' \<Longrightarrow> pkg_at st' = pkg_at st"
  by (simp add: pkg_at_def marked_def fun_eq_iff)

lemma find_same_marked:
  assumes "marked st st'"
  shows "find_same st' pkg us = find_same st pkg us"
proof (induction us)
  case (Cons u us)
  show ?case unfolding find_same.simps pkg_at_marked[OF assms] Cons.IH ..
qed simp

text \<open>The constraints of the dependencies are about packages the store knows.\<close>

lemma eligible_marked:
  assumes "marked st st'" and "store_ok st" and "a < length (st_abs st)"
  shows "eligible st' a q \<longleftrightarrow> eligible st a q"
proof -
  have abs: "abs_ok (length (st_abs st)) (st_abs st ! x)" if "x < length (st_abs st)" for x using links_abs_ok[OF store_links[OF assms(2)] that] .
  have prov: "\<forall>x \<in> set (a_provided_by (st_abs st ! a)). x < length (st_abs st)" using abs[OF assms(3)] by (simp add: abs_ok_def)
  have st: "stands_in st' ps x b \<longleftrightarrow> stands_in st ps x b" "stands_in st ps x b \<Longrightarrow> b < length (st_abs st)" if "x < length (st_abs st)" for ps x b
    using marked_fields[OF assms(1) that] abs[OF that] that by (auto simp: stands_in_def abs_ok_def split: option.splits list.splits)
  have "st_pkgs st' = st_pkgs st" using assms(1) by (simp add: marked_def)
  then show ?thesis using prov st marked_fields(3)[OF assms(1,3)] marked_pkgs_of[OF assms(1)] unfolding eligible_def by (metis (no_types, lifting))
qed

lemma satisfier_marked:
  assumes "marked st st'" and "store_ok st" and "\<forall>d \<in> set ds. dep_ok (length (st_abs st)) d"
  shows "satisfier st' ds q \<longleftrightarrow> satisfier st ds q"
proof -
  have "eligible st' (d_pkg d) q \<longleftrightarrow> eligible st (d_pkg d) q" if "d \<in> set ds" for d
    using eligible_marked[OF assms(1,2)] assms(3) that by (simp add: dep_ok_def)
  moreover have "st_pkgs st' = st_pkgs st" using assms(1) by (simp add: marked_def)
  ultimately show ?thesis using marked_in_store[OF assms(1)] by (auto simp: satisfier_def)
qed

lemma find_same_append: "find_same st pkg us = Some (Some r) \<Longrightarrow> find_same st pkg (us @ new) = Some (Some r)"
proof (induction us arbitrary: r)
  case (Cons u us)
  then obtain old b where b: "pkg_at st u = Some old" "same_pkg pkg old = Some b" by (auto simp: option_bind_Some_iff)
  show ?case
  proof (cases b)
    case False
    then obtain r' where "find_same st pkg us = Some (Some r')" "r = Suc r'" using Cons.prems b by (auto simp: option_bind_Some_iff)
    then show ?thesis using Cons.IH b False by simp
  qed (use b Cons.prems in simp)
qed simp

lemma same_pkg_self: "identity_ok pkg \<Longrightarrow> same_pkg pkg pkg = Some True"
  using compare_key[of pkg pkg] kc.same[of "pkg_key pkg"] by (auto simp: same_pkg_def identity_ok_def sgn_0_0)

lemma find_same_self:
  assumes "store_ok st" and "in_store st q"
  shows "find_same st (st_pkgs st ! q) us = Some r \<Longrightarrow> \<exists>i. find_same st (st_pkgs st ! q) (us @ [q]) = Some (Some i)"
proof (induction us arbitrary: r)
  case Nil
  show ?case using in_store_at[OF assms] same_pkg_self in_store_identity[OF assms] by simp
next
  case (Cons u us)
  then obtain old b where b: "pkg_at st u = Some old" "same_pkg (st_pkgs st ! q) old = Some b" by (auto simp: option_bind_Some_iff)
  show ?case
  proof (cases b)
    case False
    then obtain r' where "find_same st (st_pkgs st ! q) us = Some r'" using Cons.prems b by (auto simp: option_bind_Some_iff)
    from Cons.IH[OF this] show ?thesis using b False by auto
  qed (use b in simp)
qed

section \<open>The loops\<close>

text \<open>The state between two steps, and what a call of the recursion promises.\<close>

definition progress :: "store \<Rightarrow> nat list \<Rightarrow> store \<Rightarrow> nat list \<Rightarrow> bool" where
  "progress st0 us0 st us \<longleftrightarrow> marked st0 st \<and> (\<exists>new. us = us0 @ new) \<and> (\<forall>q \<in> set us. in_store st0 q)"

definition fetch_ok :: "nat \<Rightarrow> fetch \<Rightarrow> bool" where
  "fetch_ok n fetch \<longleftrightarrow> (\<forall>st p us. store_ok st \<longrightarrow> in_store st p \<longrightarrow> (\<forall>q \<in> set us. in_store st q) \<longrightarrow> card (unvisited st) < n \<longrightarrow>
     (\<exists>st' us' lost rc. fetch st p us = Some (st', us', lost, rc) \<and> progress st us st' us'))"

lemma fetch_okD:
  assumes "fetch_ok n fetch" and "store_ok st0" and "card (unvisited st0) < n" and "marked st0 st" and "in_store st0 p" and "\<forall>q \<in> set us. in_store st0 q"
  shows "\<exists>st' us' lost rc. fetch st p us = Some (st', us', lost, rc) \<and> marked st0 st' \<and> (\<exists>new. us' = us @ new) \<and> (\<forall>q \<in> set us'. in_store st0 q)"
proof -
  have "store_ok st" "in_store st p" "\<forall>q \<in> set us. in_store st q" "card (unvisited st) < n"
    using assms marked_store_ok marked_in_store[OF assms(4)] marked_unvisited[OF assms(4)] by auto
  then obtain st' us' lost rc where "fetch st p us = Some (st', us', lost, rc)" "progress st us st' us'"
    using assms(1) unfolding fetch_ok_def by blast
  then show ?thesis using marked_trans[OF assms(4)] marked_in_store[OF assms(4)] by (auto simp: progress_def)
qed

lemma greedy_scout_ok:
  assumes "fetch_ok n fetch" and "store_ok st0" and "card (unvisited st0) < n" and "in_store st0 k" and "progress st0 us0 st us"
  shows "\<exists>st' us'. greedy_scout fetch k (st, us) = Some (st', us') \<and> progress st0 us0 st' us'"
proof -
  have m: "marked st0 st" and us: "\<forall>q \<in> set us. in_store st0 q" using assms(5) by (simp_all add: progress_def)
  have ok: "store_ok st" and k: "in_store st k" using marked_store_ok[OF m assms(2)] marked_in_store[OF m] assms(4) by simp_all
  let ?scout = "st_pkgs st ! k"
  have at: "pkg_at st k = Some ?scout" using in_store_at[OF ok k] .
  obtain a where a: "a < length (st_abs st)" "p_parent ?scout = Some a" using in_store_member[OF ok k] by (auto simp: member_ok_def)
  have "\<forall>q \<in> set us. in_store st q" using us marked_in_store[OF m] by simp
  then obtain r0 where "find_same st ?scout us = Some r0" using find_same_in_store[OF ok k] by blast
  then obtain r where r: "is_pkg_in_pkg_vec st us ?scout = Some r" by (simp add: is_pkg_in_pkg_vec_def)
  obtain st' tmp lost rc where f: "fetch st k [] = Some (st', tmp, lost, rc)" "marked st0 st'" "\<forall>q \<in> set tmp. in_store st0 q"
    using fetch_okD[OF assms(1-3) m assms(4), of "[]"] by auto
  have ok': "store_ok st'" using marked_store_ok[OF f(2) assms(2)] .
  have "\<forall>q \<in> set (take rc tmp). in_store st' q" using f(3) marked_in_store[OF f(2)] by (auto dest: in_set_takeD)
  then obtain b where b: "all_wanted st' (take rc tmp) = Some b" using all_wanted_ok[OF ok'] by blast
  have same: "progress st0 us0 st us" "progress st0 us0 st' us" "progress st0 us0 st' (us @ [k])"
    using assms(4,5) f(2) us by (auto simp: progress_def)
  show ?thesis using at a(2) abs_at_ok[OF a(1)] r f(1) b same by (auto simp: greedy_scout_def)
qed

lemma greedy_possibility_ok:
  assumes "fetch_ok n fetch" and "store_ok st0" and "card (unvisited st0) < n" and "dep_ok (length (st_abs st0)) d" and "progress st0 us0 st us"
  shows "\<exists>st' us'. greedy_possibility fetch d (st, us) = Some (st', us') \<and> progress st0 us0 st' us'"
proof -
  have m: "marked st0 st" using assms(5) by (simp add: progress_def)
  then have ok: "store_ok st" and d: "d_pkg d < length (st_abs st)" using marked_store_ok[OF m assms(2)] assms(4) by (simp_all add: dep_ok_def marked_def)
  have "\<forall>a \<in> set (a_provided_by (st_abs st ! d_pkg d)). a < length (st_abs st)" using links_abs_ok[OF store_links[OF ok] d] by (simp add: abs_ok_def)
  then obtain ks where ks: "all_pkgs st (a_provided_by (st_abs st ! d_pkg d)) = Some ks" "\<forall>k \<in> set ks. in_store st k"
    using all_pkgs_ok[OF ok] by blast
  have "\<exists>acc. mfold (greedy_scout fetch) ks (st, us) = Some acc \<and> progress st0 us0 (fst acc) (snd acc)"
  proof (rule mfold_invariant[where I = "\<lambda>acc. progress st0 us0 (fst acc) (snd acc)"])
    fix k and acc :: "store \<times> nat list" assume "k \<in> set ks" "progress st0 us0 (fst acc) (snd acc)"
    moreover have "in_store st0 k" using \<open>k \<in> set ks\<close> ks(2) marked_in_store[OF m] by simp
    ultimately show "\<exists>acc'. greedy_scout fetch k acc = Some acc' \<and> progress st0 us0 (fst acc') (snd acc')"
      using greedy_scout_ok[OF assms(1-3), of k us0 "fst acc" "snd acc"] by auto
  qed (simp add: assms(5))
  then show ?thesis using ks(1) abs_at_ok[OF d] by (auto simp: greedy_possibility_def)
qed

text \<open>A dependency is covered by an installed package, the package itself, or one that is to be installed.\<close>

definition covered :: "store \<Rightarrow> nat \<Rightarrow> nat list \<Rightarrow> compound_depend \<Rightarrow> bool" where
  "covered st p us cd \<longleftrightarrow> (\<exists>q. satisfier st (cd_possibilities cd) q \<and>
     (installed (st_pkgs st ! q) \<or> q = p \<or> (\<exists>i. find_same st (st_pkgs st ! q) us = Some (Some i))))"

lemma covered_append: "covered st p us cd \<Longrightarrow> covered st p (us @ new) cd"
  unfolding covered_def using find_same_append by blast

definition strong :: "compound_depend \<Rightarrow> bool" where
  "strong cd \<longleftrightarrow> cd_type cd \<noteq> GREEDY_DEPEND \<and> \<not> weak_type (cd_type cd)"

lemma pkg_depend_str_some: "i < depend_count pkg \<Longrightarrow> \<exists>s. pkg_depend_str pkg i = Some s"
  by (auto simp: pkg_depend_str_def depend_count_def Let_def)

lemma plain_depend_ok:
  assumes "fetch_ok n fetch" and "store_ok st0" and "card (unvisited st0) < n" and "in_store st0 p" and "i < depend_count (st_pkgs st0 ! p)"
    and cd: "cd_possibilities cd \<noteq> []" "\<forall>d \<in> set (cd_possibilities cd). dep_ok (length (st_abs st0)) d" and "progress st0 us0 st us" and srt: "sorts srt"
  shows "\<exists>st' us' lost'. plain_depend srt fetch p i cd (st, us, lost) = Some (st', us', lost') \<and> progress st0 us0 st' us' \<and>
    (\<exists>l. lost' = lost @ l) \<and> (\<exists>new. us' = us @ new) \<and> (lost' = [] \<and> \<not> weak_type (cd_type cd) \<longrightarrow> covered st0 p us' cd)"
proof -
  have m: "marked st0 st" and us: "\<forall>q \<in> set us. in_store st0 q" using assms(8) by (simp_all add: progress_def)
  have ok: "store_ok st" and p: "in_store st p" using marked_store_ok[OF m assms(2)] marked_in_store[OF m] assms(4) by simp_all
  have pk: "st_pkgs st = st_pkgs st0" using m by (simp add: marked_def)
  have ds: "\<forall>d \<in> set (cd_possibilities cd). dep_ok (length (st_abs st)) d" using cd(2) m by (simp add: marked_def)
  obtain found where found: "installed_satisfier srt st (cd_possibilities cd) = Some found"
    "found \<longrightarrow> (\<exists>q. satisfier st (cd_possibilities cd) q \<and> installed (st_pkgs st ! q))" using installed_satisfier_ok[OF ok srt ds] by blast
  obtain r where r: "available_satisfier srt st (cd_type cd) (cd_possibilities cd) = Some r" "\<forall>q. r = Some q \<longrightarrow> satisfier st (cd_possibilities cd) q"
    using available_satisfier_ok[OF ok srt ds] by blast
  obtain s where s: "pkg_depend_str (st_pkgs st0 ! p) i = Some s" using pkg_depend_str_some[OF assms(5)] by blast
  show ?thesis
  proof (cases found)
    case True
    then have "covered st0 p us cd" using found(2) pk satisfier_marked[OF m assms(2) cd(2)] by (auto simp: covered_def)
    then show ?thesis using True found(1) assms(8) by (auto simp: plain_depend_def)
  next
    case False
    show ?thesis
    proof (cases r)
      case None
      then show ?thesis using False found(1) r(1) cd(1) s assms(8) in_store_at[OF ok p] pk by (auto simp: plain_depend_def)
    next
      case (Some q)
      then have sat: "satisfier st (cd_possibilities cd) q" using r(2) by simp
      then have q: "in_store st q" by (simp add: satisfier_def)
      have sat0: "satisfier st0 (cd_possibilities cd) q" and q0: "in_store st0 q" using sat q satisfier_marked[OF m assms(2) cd(2)] marked_in_store[OF m] by simp_all
      have "\<forall>q \<in> set us. in_store st q" using us marked_in_store[OF m] by simp
      then obtain known where known: "find_same st (st_pkgs st ! q) us = Some known" using find_same_in_store[OF ok q] by blast
      have known0: "find_same st0 (st_pkgs st0 ! q) us = Some known" using known find_same_marked[OF m] pk by simp
      consider (weak) "cd_type cd = SUGGEST" | (self) "cd_type cd \<noteq> SUGGEST" "q = p"
        | (known) j where "cd_type cd \<noteq> SUGGEST" "q \<noteq> p" "known = Some j" | (new) "cd_type cd \<noteq> SUGGEST" "q \<noteq> p" "known = None"
        by (cases known) auto
      then show ?thesis
      proof cases
        case weak
        then show ?thesis using False Some found(1) r(1) assms(8) by (auto simp: plain_depend_def weak_type_def)
      next
        case self
        then have "covered st0 p us cd" using sat0 by (auto simp: covered_def)
        then show ?thesis using self False Some found(1) r(1) assms(8) by (auto simp: plain_depend_def)
      next
        case (known j)
        then have "covered st0 p us cd" using sat0 known0 by (auto simp: covered_def)
        then show ?thesis using known False Some found(1) r(1) assms(8) in_store_at[OF ok q] \<open>find_same st (st_pkgs st ! q) us = Some known\<close>
          by (auto simp: plain_depend_def is_pkg_in_pkg_vec_def)
      next
        case new
        have "\<forall>x \<in> set (us @ [q]). in_store st0 x" using us q0 by simp
        then obtain st' us' lost' rc where f: "fetch st q (us @ [q]) = Some (st', us', lost', rc)" "marked st0 st'"
          "\<exists>new. us' = (us @ [q]) @ new" "\<forall>x \<in> set us'. in_store st0 x" using fetch_okD[OF assms(1-3) m q0] by blast
        obtain j where "find_same st0 (st_pkgs st0 ! q) (us @ [q]) = Some (Some j)" using find_same_self[OF assms(2) q0 known0] by blast
        then have "covered st0 p (us @ [q]) cd" using sat0 by (auto simp: covered_def)
        then have "covered st0 p us' cd" using f(3) covered_append by blast
        moreover have "progress st0 us0 st' us'" using f assms(8) by (auto simp: progress_def)
        moreover have "plain_depend srt fetch p i cd (st, us, lost) = Some (st', us', lost @ lost')"
          using new False Some found(1) r(1) in_store_at[OF ok q] \<open>find_same st (st_pkgs st ! q) us = Some known\<close> f(1)
          by (simp add: plain_depend_def is_pkg_in_pkg_vec_def)
        ultimately show ?thesis using f(3) by auto
      qed
    qed
  qed
qed

lemma one_depend_ok:
  assumes "fetch_ok n fetch" and "store_ok st0" and "card (unvisited st0) < n" and "in_store st0 p" and "i < depend_count (st_pkgs st0 ! p)"
    and "cd_possibilities cd \<noteq> []" "\<forall>d \<in> set (cd_possibilities cd). dep_ok (length (st_abs st0)) d" and "progress st0 us0 st us" and srt: "sorts srt"
  shows "\<exists>st' us' lost'. one_depend srt fetch p (i, cd) (st, us, lost) = Some (st', us', lost') \<and> progress st0 us st' us' \<and>
    (\<exists>l. lost' = lost @ l) \<and> (lost' = [] \<and> strong cd \<longrightarrow> covered st0 p us' cd)"
proof -
  have here: "progress st0 us st us" using assms(8) by (simp add: progress_def)
  show ?thesis
  proof (cases "cd_type cd = GREEDY_DEPEND")
    case True
    have "\<exists>acc. mfold (greedy_possibility fetch) (cd_possibilities cd) (st, us) = Some acc \<and> progress st0 us (fst acc) (snd acc)"
    proof (rule mfold_invariant[where I = "\<lambda>acc. progress st0 us (fst acc) (snd acc)"])
      fix d and acc :: "store \<times> nat list" assume "d \<in> set (cd_possibilities cd)" "progress st0 us (fst acc) (snd acc)"
      then show "\<exists>acc'. greedy_possibility fetch d acc = Some acc' \<and> progress st0 us (fst acc') (snd acc')"
        using greedy_possibility_ok[OF assms(1-3), of d us "fst acc" "snd acc"] assms(7) by auto
    qed (simp add: here)
    then show ?thesis using True by (auto simp: one_depend_def strong_def)
  next
    case False
    then show ?thesis using plain_depend_ok[OF assms(1-7) here srt, of lost] by (auto simp: one_depend_def strong_def)
  qed
qed

lemma depends_loop_ok:
  assumes "fetch_ok n fetch" and "store_ok st0" and "card (unvisited st0) < n" and "in_store st0 p" and srt: "sorts srt"
  shows "\<forall>(i, cd) \<in> set xs. i < depend_count (st_pkgs st0 ! p) \<and> cd_possibilities cd \<noteq> [] \<and>
      (\<forall>d \<in> set (cd_possibilities cd). dep_ok (length (st_abs st0)) d) \<Longrightarrow> progress st0 us0 st us \<Longrightarrow>
    \<exists>st' us' lost'. mfold (one_depend srt fetch p) xs (st, us, lost) = Some (st', us', lost') \<and> progress st0 us st' us' \<and>
      (\<exists>l. lost' = lost @ l) \<and> (lost' = [] \<longrightarrow> (\<forall>(i, cd) \<in> set xs. strong cd \<longrightarrow> covered st0 p us' cd))"
proof (induction xs arbitrary: st us lost us0)
  case Nil
  then show ?case by (simp add: progress_def)
next
  case (Cons x xs)
  obtain i cd where x: "x = (i, cd)" by (cases x)
  have i: "i < depend_count (st_pkgs st0 ! p)" "cd_possibilities cd \<noteq> []" "\<forall>d \<in> set (cd_possibilities cd). dep_ok (length (st_abs st0)) d"
    using Cons.prems(1) by (auto simp: x)
  obtain st1 us1 lost1 where 1: "one_depend srt fetch p x (st, us, lost) = Some (st1, us1, lost1)" "progress st0 us st1 us1"
    "\<exists>l. lost1 = lost @ l" "lost1 = [] \<and> strong cd \<longrightarrow> covered st0 p us1 cd"
    using one_depend_ok[OF assms(1-4) i Cons.prems(2) srt, of lost] unfolding x by blast
  obtain st2 us2 lost2 where 2: "mfold (one_depend srt fetch p) xs (st1, us1, lost1) = Some (st2, us2, lost2)" "progress st0 us1 st2 us2"
    "\<exists>l. lost2 = lost1 @ l" "lost2 = [] \<longrightarrow> (\<forall>(i, cd) \<in> set xs. strong cd \<longrightarrow> covered st0 p us2 cd)"
    using Cons.IH[OF _ 1(2), of lost1] Cons.prems(1) by auto
  have "progress st0 us st2 us2" using 1(2) 2(2) by (auto simp: progress_def)
  moreover have "strong cd \<longrightarrow> covered st0 p us2 cd" if "lost2 = []"
    using 1(4) 2(2,3) that covered_append[of st0 p us1 cd] by (auto simp: progress_def)
  ultimately show ?case using 1(1,3) 2(1,3,4) by (auto simp: x)
qed

text \<open>A call returns when its depth exceeds what is left to mark.\<close>

lemma fetch_step:
  assumes "fetch_ok n (pkg_hash_fetch_unsatisfied_dependencies srt n)" and "store_ok st" and "in_store st p" and "\<forall>q \<in> set us. in_store st q"
    and "card (unvisited st) < Suc n" and srt: "sorts srt"
  shows "\<exists>st' us' lost rc. pkg_hash_fetch_unsatisfied_dependencies srt (Suc n) st p us = Some (st', us', lost, rc) \<and> progress st us st' us' \<and>
    (\<forall>a. p_parent (st_pkgs st ! p) = Some a \<longrightarrow> a_dependencies_checked (st_abs st' ! a)) \<and>
    (lost = [] \<and> (\<exists>a \<in> unvisited st. p_parent (st_pkgs st ! p) = Some a) \<longrightarrow>
       (\<forall>cd \<in> set (p_depends (st_pkgs st ! p)). strong cd \<longrightarrow> covered st p us' cd))"
proof -
  let ?pkg = "st_pkgs st ! p"
  have at: "pkg_at st p = Some ?pkg" using in_store_at[OF assms(2,3)] .
  obtain a where a: "a < length (st_abs st)" "p_parent ?pkg = Some a" using in_store_member[OF assms(2,3)] by (auto simp: member_ok_def)
  have here: "progress st us st us" using assms(4) by (simp add: progress_def)
  show ?thesis
  proof (cases "a_dependencies_checked (st_abs st ! a)")
    case True
    then show ?thesis using at a here by (auto simp: abs_at_ok unvisited_def)
  next
    case False
    then have un: "a \<in> unvisited st" using a(1) by (simp add: unvisited_def)
    obtain st1 where 1: "abs_update a (\<lambda>x. x\<lparr>a_dependencies_checked := True\<rparr>) st = Some st1" "marked st st1"
      "card (unvisited st1) < card (unvisited st)" "a_dependencies_checked (st_abs st1 ! a)" using mark_ok[OF un] by blast
    have r: "refs_ok (length (st_abs st)) ?pkg" using in_store_identity[OF assms(2,3)] by blast
    have count: "length (p_depends ?pkg) = depend_count ?pkg" using r by (simp add: refs_ok_def depend_count_def)
    have st1: "store_ok st1" "in_store st1 p" "card (unvisited st1) < n" "st_pkgs st1 = st_pkgs st" "length (st_abs st1) = length (st_abs st)"
      using marked_store_ok[OF 1(2) assms(2)] marked_in_store[OF 1(2)] assms(3,5) 1(2,3) by (simp_all add: marked_def)
    have p1: "progress st1 us st1 us" using assms(4) marked_in_store[OF 1(2)] by (simp add: progress_def)
    have xs: "\<forall>(i, cd) \<in> set (enumerate 0 (p_depends ?pkg)). i < depend_count (st_pkgs st1 ! p) \<and> cd_possibilities cd \<noteq> [] \<and>
      (\<forall>d \<in> set (cd_possibilities cd). dep_ok (length (st_abs st1)) d)"
      using r count st1(4,5) by (auto simp: in_set_enumerate_eq refs_ok_def deps_ok_def)
    obtain st2 us2 lost where 2: "mfold (one_depend srt (pkg_hash_fetch_unsatisfied_dependencies srt n) p) (enumerate 0 (p_depends ?pkg)) (st1, us, []) = Some (st2, us2, lost)"
      "progress st1 us st2 us2" "lost = [] \<longrightarrow> (\<forall>(i, cd) \<in> set (enumerate 0 (p_depends ?pkg)). strong cd \<longrightarrow> covered st1 p us2 cd)"
      using depends_loop_ok[OF assms(1) st1(1,3,2) srt xs p1, of "[]"] by blast
    have cov: "covered st1 p us2 cd \<longleftrightarrow> covered st p us2 cd" if "cd \<in> set (p_depends ?pkg)" for cd
    proof -
      have "\<forall>d \<in> set (cd_possibilities cd). dep_ok (length (st_abs st)) d" using r that by (auto simp: refs_ok_def deps_ok_def)
      then show ?thesis using find_same_marked[OF 1(2)] satisfier_marked[OF 1(2) assms(2)] st1(4) by (simp add: covered_def)
    qed
    have "progress st us st2 us2" using 2(2) 1(2) marked_trans[OF 1(2)] marked_in_store[OF 1(2)] by (auto simp: progress_def)
    moreover have "a_dependencies_checked (st_abs st2 ! a)" using 2(2) 1(4) a(1) st1(5) by (simp add: progress_def marked_def)
    moreover have "\<forall>cd \<in> set (p_depends ?pkg). strong cd \<longrightarrow> covered st p us2 cd" if "lost = []"
    proof
      fix cd assume cd: "cd \<in> set (p_depends ?pkg)"
      then obtain i where "i < length (p_depends ?pkg)" "p_depends ?pkg ! i = cd" by (auto simp: in_set_conv_nth)
      then have "(i, cd) \<in> set (enumerate 0 (p_depends ?pkg))" by (auto simp: in_set_enumerate_eq)
      then show "strong cd \<longrightarrow> covered st p us2 cd" using 2(3) that cov[OF cd] by blast
    qed
    ultimately show ?thesis
    proof (cases "depend_count ?pkg = 0")
      case True
      then have "p_depends ?pkg = []" using count by simp
      moreover have "progress st us st1 us" using here 1(2) by (simp add: progress_def)
      ultimately show ?thesis using at a False 1(1,4) True by (auto simp: abs_at_ok)
    next
      case nz: False
      have "pkg_hash_fetch_unsatisfied_dependencies srt (Suc n) st p us = Some (st2, us2, lost, length us2)"
        using at a False 1(1) nz count 2(1) by (simp add: abs_at_ok)
      then show ?thesis using \<open>progress st us st2 us2\<close> \<open>a_dependencies_checked (st_abs st2 ! a)\<close>
          \<open>lost = [] \<Longrightarrow> \<forall>cd \<in> set (p_depends ?pkg). strong cd \<longrightarrow> covered st p us2 cd\<close> a(2) by auto
    qed
  qed
qed

lemma fetch_ok_all: "sorts srt \<Longrightarrow> fetch_ok n (pkg_hash_fetch_unsatisfied_dependencies srt n)"
proof (induction n)
  case (Suc n)
  show ?case unfolding fetch_ok_def
  proof (intro allI impI)
    fix st p us
    assume "store_ok st" "in_store st p" "\<forall>q \<in> set us. in_store st q" "card (unvisited st) < Suc n"
    from fetch_step[OF Suc.IH[OF Suc.prems] this Suc.prems] show "\<exists>st' us' lost rc. pkg_hash_fetch_unsatisfied_dependencies srt (Suc n) st p us = Some (st', us', lost, rc) \<and>
      progress st us st' us'" by blast
  qed
qed (simp add: fetch_ok_def)

section \<open>Properties\<close>

text \<open>
  C32. Looking for what has to be installed returns on every store that is in order, cycles of
  dependencies included, with any \<open>qsort\<close> that sorts: a depth above the number of abstract packages that are not marked is
  enough.  Nothing faults, nothing in the store changes but the marks, packages are only added to
  the ones to install, all of them from the store, and the package's own name is marked at the end.
\<close>

theorem fetch_unsatisfied_returns:
  assumes "store_ok st" and "in_store st p" and "\<forall>q \<in> set us. in_store st q" and "card (unvisited st) < n" and "sorts srt"
  shows "\<exists>st' new lost rc. pkg_hash_fetch_unsatisfied_dependencies srt n st p us = Some (st', us @ new, lost, rc) \<and> marked st st' \<and>
    (\<forall>q \<in> set new. in_store st q) \<and> (\<forall>a. p_parent (st_pkgs st ! p) = Some a \<longrightarrow> a_dependencies_checked (st_abs st' ! a))"
proof -
  obtain m where "n = Suc m" using assms(4) by (cases n) auto
  then show ?thesis using fetch_step[OF fetch_ok_all[OF assms(5)] assms(1-3) _ assms(5), of m] assms(4) by (auto simp: progress_def)
qed

text \<open>Two versions, and a package that needs the later one.\<close>

definition app_store :: store where
  "app_store = \<lparr>st_hash = \<lparr>ht_name = ''pkg_hash'', ht_entries = [\<lparr>b_head = Some (''vi'', 0), b_chain = [(''app'', 1)]\<rparr>], ht_n_elements = 2\<rparr>,
     st_abs = [(abstract_pkg_new ''vi'')\<lparr>a_pkgs := Some [0, 1], a_provided_by := [0]\<rparr>,
               (abstract_pkg_new ''app'')\<lparr>a_pkgs := Some [2], a_provided_by := [1]\<rparr>],
     st_pkgs = [vi ''1.2'', vi ''1.10'', (vi ''1'')\<lparr>p_name := Some ''app'', p_parent := Some 1, p_depends_str := [''vi (>= 1.5)''],
       p_depends := [\<lparr>cd_type = DEPEND, cd_possibilities = [\<lparr>d_constraint = LATER_EQUAL, d_version = Some ''1.5'', d_pkg = 0\<rparr>]\<rparr>]\<rparr>]\<rparr>"

lemma app_store_ok: "store_ok app_store \<and> in_store app_store 2 \<and> card (unvisited app_store) < 3"
proof -
  have "hash_ok (st_hash app_store)"
    by (simp add: hash_ok_def app_store_def bucket_ok_def hash_entries_def hash_index_def rotating_def)
  then have "names_ok app_store"
    by (auto simp: names_ok_def app_store_def hash_map_def hash_entries_def abstract_pkg_new_def less_Suc_eq nth_Cons')
  moreover have "member_ok app_store 0 p" if "p \<in> {0, 1}" for p
    using that by (auto simp: member_ok_def app_store_def vi_def pkg_init_def identity_ok_def c_version_def str_of_def
      short_strings_def refs_ok_def deps_ok_def abstract_pkg_new_def)
  moreover have "member_ok app_store 1 2"
    by (auto simp: member_ok_def app_store_def vi_def pkg_init_def identity_ok_def c_version_def str_of_def
      short_strings_def plain_src_def DEPEND_BUFFER_def refs_ok_def deps_ok_def dep_ok_def abstract_pkg_new_def)
  ultimately have "store_ok app_store"
    by (auto simp: store_ok_def links_ok_def app_store_def abs_ok_def pkgs_of_def abstract_pkg_new_def less_Suc_eq)
  moreover have "in_store app_store 2" by (auto simp: in_store_def app_store_def pkgs_of_def intro: exI[of _ 1])
  moreover have "unvisited app_store \<subseteq> {0, 1}" by (auto simp: unvisited_def app_store_def)
  then have "card (unvisited app_store) \<le> card {0, 1 :: nat}" by (rule card_mono[rotated]) simp
  ultimately show ?thesis by simp
qed

lemma fetch_unsatisfied_returns_witness:
  "\<exists>st' new lost rc. pkg_hash_fetch_unsatisfied_dependencies insertion_sort 3 app_store 2 [] = Some (st', new, lost, rc) \<and> marked app_store st'"
  using fetch_unsatisfied_returns[of app_store 2 "[]" 3 insertion_sort] app_store_ok insertion_sort_sorts by auto

text \<open>
  C4. When no dependency is reported as lost, every dependency and pre-dependency of the package
  (greedy dependencies, recommendations and suggestions are not among these) is covered: for one of its alternatives
  there is a package that is eligible for the name of the alternative (a package, fit for the architectures, of a provider of the
  name or of what stands in for the provider), whose version satisfies the alternative's relation, and
  that is installed, or is the package itself, or has the name, version and architecture of one of the packages to install.
  The store is in order, the package and those to install so far are in it, the package's name was not marked before, the depth is
  above the number of names that are not marked, and \<open>qsort\<close> sorts.
\<close>

theorem nothing_lost_is_covered:
  assumes "store_ok st" and "in_store st p" and "\<forall>q \<in> set us. in_store st q" and "card (unvisited st) < n" and "sorts srt"
    and "p_parent (st_pkgs st ! p) = Some a" and "a \<in> unvisited st"
    and "pkg_hash_fetch_unsatisfied_dependencies srt n st p us = Some (st', us', [], rc)"
    and "cd \<in> set (p_depends (st_pkgs st ! p))" and "cd_type cd = PREDEPEND \<or> cd_type cd = DEPEND"
  shows "covered st p us' cd"
proof -
  obtain m where m: "n = Suc m" using assms(4) by (cases n) auto
  have "strong cd" using assms(10) by (auto simp: strong_def weak_type_def)
  then show ?thesis using fetch_step[OF fetch_ok_all[OF assms(5)] assms(1-3) _ assms(5), of m] assms(4,6-9) m by auto
qed

lemma nothing_lost_is_covered_witness:
  "covered app_store 2 [1] \<lparr>cd_type = DEPEND, cd_possibilities = [\<lparr>d_constraint = LATER_EQUAL, d_version = Some ''1.5'', d_pkg = 0\<rparr>]\<rparr>"
proof -
  have "map_option (\<lambda>r. (fst (snd r), fst (snd (snd r)))) (pkg_hash_fetch_unsatisfied_dependencies insertion_sort 3 app_store 2 []) = Some ([1], [])"
    by code_simp
  then obtain st' rc where r: "pkg_hash_fetch_unsatisfied_dependencies insertion_sort 3 app_store 2 [] = Some (st', [1], [], rc)" by auto
  have "1 \<in> unvisited app_store" by (simp add: unvisited_def app_store_def abstract_pkg_new_def)
  moreover have "p_parent (st_pkgs app_store ! 2) = Some 1" by (simp add: app_store_def)
  ultimately show ?thesis
    using nothing_lost_is_covered[OF _ _ _ _ insertion_sort_sorts _ _ r] app_store_ok by (simp add: app_store_def)
qed

end
