(* ===== verification/OpkgParse.thy ===== *)
theory OpkgParse
  imports OpkgDepends
begin

text \<open>
  The paragraphs of the package lists and of the status file: reading one
  (\<open>opkg/libopkg/pkg_parse.c\<close>) and writing one (\<open>opkg/libopkg/pkg.c\<close>:
  \<open>pkg_formatted_field\<close>, \<open>pkg_formatted_info\<close>, \<open>pkg_print_status\<close>).
\<close>

section \<open>Reading\<close>

definition isGenericFieldType :: "string \<Rightarrow> string \<Rightarrow> bool" where
  "isGenericFieldType type line \<longleftrightarrow> strncmp_eq line type (length type)"

text \<open>One character behind the name is skipped; when the line ends with the name, this is its terminator.\<close>

definition parseGenericFieldType :: "string \<Rightarrow> string \<Rightarrow> string option" where
  "parseGenericFieldType type raw =
     (if length raw < length type + 1 then None else Some (trim_alloc (drop (length type + 1) raw)))"

text \<open>What \<open>%s\<close> reads, and the rest.\<close>

definition next_word :: "string \<Rightarrow> string \<times> string" where
  "next_word s = (let s1 = dropWhile isspace s; w = takeWhile (\<lambda>c. \<not> isspace c) s1 in (w, drop (length w) s1))"

text \<open>The three words go to arrays of 64 characters that are not initialised.\<close>

definition parseStatus :: "pkg \<Rightarrow> string \<Rightarrow> pkg option" where
  "parseStatus pkg raw =
     (let (sw, r1) = next_word (drop 7 raw); (sf, r2) = next_word r1; (ss, _) = next_word r2
      in if take 7 raw \<noteq> ''Status:'' \<or> sw = [] \<or> sf = [] \<or> ss = [] \<or> 64 \<le> length sw \<or> 64 \<le> length sf \<or> 64 \<le> length ss then None
         else Some (pkg\<lparr>p_state_want := pkg_state_want_from_str sw, p_state_flag := pkg_state_flag_from_str sf,
                        p_state_status := pkg_state_status_from_str ss\<rparr>))"

text \<open>The entries of a list; each is collected in a buffer of 2048 characters.\<close>

function list_entries :: "string \<Rightarrow> string list option" where
  "list_entries raw =
     (if raw = [] then Some []
      else
        let s = dropWhile isspace raw; w = takeWhile (\<lambda>c. c \<noteq> CHR '','') s; r = drop (length w) s
        in if 2048 \<le> length w then None
           else map_option ((#) (trim_alloc w)) (list_entries (drop 1 r)))"
  by pat_completeness auto

termination
proof (relation "measure length", goal_cases)
  case (2 raw s w r)
  have "length s \<le> length raw" unfolding 2(2) by (rule length_dropWhile_le)
  moreover have "length r \<le> length s" unfolding 2(4) by simp
  moreover have "length raw \<noteq> 0" using 2(1) by simp
  ultimately show ?case by (simp only: in_measure length_drop)
qed (rule wf_measure)

declare list_entries.simps [simp del]

definition parseDependsString :: "string \<Rightarrow> string list option" where
  "parseDependsString raw0 =
     (let raw = dropWhile (\<lambda>c. \<not> isspace c) raw0 in if line_is_blank raw then Some [] else list_entries raw)"

lemma next_word_length: "next_word s = (w, r) \<Longrightarrow> length w + length r \<le> length s"
proof -
  assume "next_word s = (w, r)"
  then have wr: "w = takeWhile (\<lambda>c. \<not> isspace c) (dropWhile isspace s)" "r = drop (length w) (dropWhile isspace s)"
    by (auto simp: next_word_def Let_def)
  have "length w \<le> length (dropWhile isspace s)" unfolding wr by (rule length_takeWhile_le)
  then show ?thesis using wr(2) length_dropWhile_le[of isspace s] by simp
qed

function conffile_entries :: "string \<Rightarrow> (string \<times> string) list option" where
  "conffile_entries raw =
     (let (file_name, r1) = next_word raw; (md5sum, r2) = next_word r1
      in if raw = [] \<or> file_name = [] \<or> md5sum = [] then Some []
         else if 1048 \<le> length file_name \<or> 1048 \<le> length md5sum then None
         else map_option ((#) (file_name, md5sum)) (conffile_entries r2))"
  by pat_completeness auto

termination
proof (relation "measure length", goal_cases)
  case (2 raw x file_name r1 y md5sum r2)
  have "length file_name + length r1 \<le> length raw" using next_word_length[of raw file_name r1] 2 by simp
  moreover have "length md5sum + length r2 \<le> length r1" using next_word_length[of r1 md5sum r2] 2 by simp
  moreover have "length file_name \<noteq> 0" using 2 by simp
  ultimately show ?case by (simp only: in_measure)
qed (rule wf_measure)

declare conffile_entries.simps [simp del]

definition parseConffiles :: "pkg \<Rightarrow> string \<Rightarrow> pkg option" where
  "parseConffiles pkg raw = do {
     fs \<leftarrow> conffile_entries (if take 10 raw = ''Conffiles:'' then drop 10 raw else raw);
     Some (pkg\<lparr>p_conffiles := p_conffiles pkg @ fs\<rparr>) }"

definition opkg_internal_use_only :: string where
  "opkg_internal_use_only = ''opkg_internal_use_only''"

text \<open>The line that is parsed instead of the provides.\<close>

definition alterProvidesLine :: "string \<Rightarrow> string" where
  "alterProvidesLine raw =
     ''Provides: '' @ opkg_internal_use_only @ '', '' @ dropWhile isspace (if take 9 raw = ''Provides:'' then drop 9 raw else raw)"

text \<open>The state of the loop over the lines.\<close>

record parse_state =
  ps_pkg :: pkg
  ps_conffiles :: bool
  ps_description :: bool
  ps_false_provides :: bool

definition set_pkg :: "parse_state \<Rightarrow> (pkg \<Rightarrow> pkg) \<Rightarrow> parse_state" where
  "set_pkg ps f = ps\<lparr>ps_pkg := f (ps_pkg ps)\<rparr>"

text \<open>A field that is a string.\<close>

definition string_field :: "parse_state \<Rightarrow> string \<Rightarrow> string \<Rightarrow> (string \<Rightarrow> pkg \<Rightarrow> pkg) \<Rightarrow> parse_state option" where
  "string_field ps type line f = do { v \<leftarrow> parseGenericFieldType type line; Some (set_pkg ps (f v)) }"

definition list_field :: "parse_state \<Rightarrow> string \<Rightarrow> (string list \<Rightarrow> pkg \<Rightarrow> pkg) \<Rightarrow> parse_state option" where
  "list_field ps line f = do { v \<leftarrow> parseDependsString line; Some (set_pkg ps (f v)) }"

definition parse_P :: "parse_state \<Rightarrow> string \<Rightarrow> parse_state option" where
  "parse_P ps line =
     (if isGenericFieldType ''Package:'' line then string_field ps ''Package'' line (\<lambda>v. p_name_update (\<lambda>_. Some v))
      else if isGenericFieldType ''Priority:'' line then string_field ps ''Priority'' line (\<lambda>v. p_priority_update (\<lambda>_. Some v))
      else if isGenericFieldType ''Provides'' line then
        map_option (ps_false_provides_update (\<lambda>_. False)) (list_field ps (alterProvidesLine line) (\<lambda>v. p_provides_str_update (\<lambda>_. v)))
      else if isGenericFieldType ''Pre-Depends'' line then list_field ps line (\<lambda>v. p_pre_depends_str_update (\<lambda>_. v))
      else Some ps)"

definition parse_A :: "parse_state \<Rightarrow> string \<Rightarrow> parse_state option" where
  "parse_A ps line =
     (if isGenericFieldType ''Architecture:'' line then string_field ps ''Architecture'' line (\<lambda>v. p_architecture_update (\<lambda>_. Some v))
      else if isGenericFieldType ''Auto-Installed:'' line then
        string_field ps ''Auto-Installed:'' line (\<lambda>v. p_auto_installed_update (\<lambda>b. if v = ''yes'' then True else b))
      else Some ps)"

definition parse_S :: "parse_state \<Rightarrow> string \<Rightarrow> parse_state option" where
  "parse_S ps line =
     (if isGenericFieldType ''Section:'' line then string_field ps ''Section'' line (\<lambda>v. p_section_update (\<lambda>_. Some v))
      else if isGenericFieldType ''Size:'' line then string_field ps ''Size'' line (\<lambda>v. p_size_update (\<lambda>_. Some v))
      else if isGenericFieldType ''Source:'' line then string_field ps ''Source'' line (\<lambda>v. p_source_update (\<lambda>_. Some v))
      else if isGenericFieldType ''Status'' line then do { pkg \<leftarrow> parseStatus (ps_pkg ps) line; Some (set_pkg ps (\<lambda>_. pkg)) }
      else if isGenericFieldType ''Suggests'' line then list_field ps line (\<lambda>v. p_suggests_str_update (\<lambda>_. v))
      else Some ps)"

definition parse_M :: "parse_state \<Rightarrow> string \<Rightarrow> parse_state option" where
  "parse_M ps line =
     (if isGenericFieldType ''MD5sum:'' line then string_field ps ''MD5sum'' line (\<lambda>v. p_md5sum_update (\<lambda>_. Some v))
      else if isGenericFieldType ''MD5Sum:'' line then string_field ps ''MD5Sum'' line (\<lambda>v. p_md5sum_update (\<lambda>_. Some v))
      else if isGenericFieldType ''Maintainer'' line then string_field ps ''Maintainer'' line (\<lambda>v. p_maintainer_update (\<lambda>_. Some v))
      else Some ps)"

definition parse_I :: "parse_state \<Rightarrow> string \<Rightarrow> parse_state option" where
  "parse_I ps line =
     (if isGenericFieldType ''Installed-Size:'' line then string_field ps ''Installed-Size'' line (\<lambda>v. p_installed_size_update (\<lambda>_. Some v))
      else if isGenericFieldType ''Installed-Time:'' line then
        string_field ps ''Installed-Time'' line (\<lambda>v. p_installed_time_update (\<lambda>_. of_int (fst (strtoul 0 v))))
      else Some ps)"

definition parse_C :: "parse_state \<Rightarrow> string \<Rightarrow> parse_state option" where
  "parse_C ps line =
     (if isGenericFieldType ''Conffiles'' line then do {
        pkg \<leftarrow> parseConffiles (ps_pkg ps) line;
        Some ((set_pkg ps (\<lambda>_. pkg))\<lparr>ps_conffiles := True\<rparr>) }
      else if isGenericFieldType ''Conflicts'' line then list_field ps line (\<lambda>v. p_conflicts_str_update (\<lambda>_. v))
      else Some ps)"

definition parse_D :: "parse_state \<Rightarrow> string \<Rightarrow> parse_state option" where
  "parse_D ps line =
     (if isGenericFieldType ''Description'' line then
        map_option (\<lambda>ps. ps\<lparr>ps_conffiles := False, ps_description := True\<rparr>)
          (string_field ps ''Description'' line (\<lambda>v. p_description_update (\<lambda>_. Some v)))
      else if isGenericFieldType ''Depends'' line then list_field ps line (\<lambda>v. p_depends_str_update (\<lambda>_. v))
      else Some ps)"

definition parse_R :: "parse_state \<Rightarrow> string \<Rightarrow> parse_state option" where
  "parse_R ps line =
     (if isGenericFieldType ''Recommends'' line then list_field ps line (\<lambda>v. p_recommends_str_update (\<lambda>_. v))
      else if isGenericFieldType ''Replaces'' line then list_field ps line (\<lambda>v. p_replaces_str_update (\<lambda>_. v))
      else Some ps)"

text \<open>A line that goes on with the one before it.\<close>

definition parse_continuation :: "parse_state \<Rightarrow> string \<Rightarrow> parse_state option" where
  "parse_continuation ps line =
     (if ps_description ps then do {
        d \<leftarrow> p_description (ps_pkg ps);
        Some (set_pkg ps (p_description_update (\<lambda>_. Some (d @ [LF] @ line)))) }
      else if ps_conffiles ps then do { pkg \<leftarrow> parseConffiles (ps_pkg ps) line; Some (set_pkg ps (\<lambda>_. pkg)) }
      else Some ps)"

text \<open>The first character decides; the second result tells that the paragraph ends.\<close>

definition parse_line :: "parse_state \<Rightarrow> string \<Rightarrow> (parse_state \<times> bool) option" where
  "parse_line ps line =
     (let c = c_at line 0; go = map_option (\<lambda>ps. (ps, False)) in
      if c = CHR ''P'' then go (parse_P ps line)
      else if c = CHR ''A'' then go (parse_A ps line)
      else if c = CHR ''F'' then go (if isGenericFieldType ''Filename:'' line
        then string_field ps ''Filename'' line (\<lambda>v. p_filename_update (\<lambda>_. Some v)) else Some ps)
      else if c = CHR ''S'' then go (parse_S ps line)
      else if c = CHR ''T'' then go (if isGenericFieldType ''Tags:'' line
        then string_field ps ''Tags'' line (\<lambda>v. p_tags_update (\<lambda>_. Some v)) else Some ps)
      else if c = CHR ''M'' then go (parse_M ps line)
      else if c = CHR ''I'' then go (parse_I ps line)
      else if c = CHR ''E'' then go (if isGenericFieldType ''Essential:'' line
        then string_field ps ''Essential'' line (\<lambda>v. p_essential_update (\<lambda>b. if v = ''yes'' then True else b)) else Some ps)
      else if c = CHR ''V'' then go (Some (if isGenericFieldType ''Version'' line then set_pkg ps (\<lambda>pkg. snd (parseVersion pkg line)) else ps))
      else if c = CHR ''C'' then go (parse_C ps line)
      else if c = CHR ''D'' then go (parse_D ps line)
      else if c = CHR ''R'' then go (parse_R ps line)
      else if c = CHR '' '' then go (parse_continuation ps line)
      else Some (ps, line_is_blank line))"

fun parse_lines :: "parse_state \<Rightarrow> string list \<Rightarrow> (parse_state \<times> string list) option" where
  "parse_lines ps [] = Some (ps, [])"
| "parse_lines ps (line # lines) = do {
     (ps, out) \<leftarrow> parse_line ps line;
     if out then Some (ps, lines) else parse_lines ps lines }"

text \<open>The return code, the package and the lines that are left.\<close>

definition pkg_parse_raw :: "pkg \<Rightarrow> string list \<Rightarrow> nat option \<Rightarrow> nat option \<Rightarrow> (int \<times> pkg \<times> string list) option" where
  "pkg_parse_raw pkg raw src dest = do {
     (ps, rest) \<leftarrow> parse_lines
       \<lparr>ps_pkg = pkg\<lparr>p_src := src, p_dest := dest\<rparr>, ps_conffiles = False, ps_description = False, ps_false_provides = True\<rparr> raw;
     let pkg = (if ps_false_provides ps then (ps_pkg ps)\<lparr>p_provides_str := [opkg_internal_use_only]\<rparr> else ps_pkg ps);
     Some (if p_name pkg \<noteq> None then 0 else EINVAL, pkg, rest) }"

definition pkg_valorize_other_field :: "pkg \<Rightarrow> string list \<Rightarrow> pkg option" where
  "pkg_valorize_other_field pkg raw = mfold (\<lambda>line pkg.
     if isGenericFieldType ''Essential:'' line
     then do { v \<leftarrow> parseGenericFieldType ''Essential'' line; Some (if v = ''yes'' then pkg\<lparr>p_essential := True\<rparr> else pkg) }
     else Some pkg) raw pkg"

text \<open>The lines of a file.\<close>

function read_raw_pkgs_from_stream :: "string \<Rightarrow> string list" where
  "read_raw_pkgs_from_stream [] = []"
| "read_raw_pkgs_from_stream (c # cs) =
     (let l = takeWhile (\<lambda>c. c \<noteq> LF) (c # cs) in l # read_raw_pkgs_from_stream (drop (length l + 1) (c # cs)))"
  by pat_completeness auto

termination by (relation "measure length") (auto simp: less_Suc_eq_le)

end
