(* ===== verification/OpkgPrint.thy ===== *)
theory OpkgPrint
  imports OpkgParse
begin

text \<open>
  Writing a package as a paragraph (\<open>pkg_formatted_field\<close>, \<open>pkg_formatted_info\<close>,
  \<open>pkg_print_field\<close>, \<open>pkg_print_status\<close>, \<open>set_flags_from_control\<close> of \<open>opkg/libopkg/pkg.c\<close>), and
  that what is written for the status file is read back.
\<close>

section \<open>Fields\<close>

definition tolower :: "char \<Rightarrow> char" where
  "tolower c = (if 65 \<le> ord_c c \<and> ord_c c \<le> 90 then char_of (ord_c c + 32) else c)"

definition strcasecmp_eq :: "string \<Rightarrow> string \<Rightarrow> bool" where
  "strcasecmp_eq s t \<longleftrightarrow> List.map tolower s = List.map tolower t"

definition snprintf :: "nat \<Rightarrow> string \<Rightarrow> string" where
  "snprintf n text = take (n - 1) text"

definition LINE_LEN :: nat where "LINE_LEN = 128"

definition PKG_MINIMUM_FIELD_NAME_LEN :: nat where "PKG_MINIMUM_FIELD_NAME_LEN = 4"

text \<open>A field that is a string is written to a buffer with \<open>extra\<close> octets more than the string has.\<close>

definition string_text :: "string \<Rightarrow> nat \<Rightarrow> string \<Rightarrow> string" where
  "string_text label extra v = snprintf (length v + extra) (label @ '': '' @ v @ [LF])"

definition optional_text :: "string \<Rightarrow> nat \<Rightarrow> string option \<Rightarrow> string" where
  "optional_text label extra v = (case v of None \<Rightarrow> [] | Some v \<Rightarrow> string_text label extra v)"

text \<open>An entry of a list is written to a buffer of 128 characters.\<close>

fun entries_text :: "nat \<Rightarrow> string list \<Rightarrow> string" where
  "entries_text i [] = []"
| "entries_text i (s # ss) = snprintf LINE_LEN ((if i = 0 then [] else '','') @ '' '' @ s) @ entries_text (i + 1) ss"

definition list_text :: "string \<Rightarrow> string list \<Rightarrow> string" where
  "list_text label ss = (if ss = [] then [] else label @ '':'' @ entries_text 0 ss @ [LF])"

definition format_A :: "pkg \<Rightarrow> string \<Rightarrow> string" where
  "format_A pkg field =
     (if strcasecmp_eq field ''Architecture'' then optional_text ''Architecture'' 17 (p_architecture pkg)
      else if strcasecmp_eq field ''Auto-Installed'' \<and> p_auto_installed pkg then ''Auto-Installed: yes'' @ [LF]
      else [])"

definition format_C :: "pkg \<Rightarrow> string \<Rightarrow> string" where
  "format_C pkg field =
     (if strcasecmp_eq field ''Conffiles'' then
        if p_conffiles pkg = [] then []
        else ''Conffiles:'' @ [LF] @ concat (map (\<lambda>(name, value). snprintf LINE_LEN (name @ '' '' @ value @ [LF])) (p_conffiles pkg))
      else if strcasecmp_eq field ''Conflicts'' then list_text ''Conflicts'' (p_conflicts_str pkg)
      else [])"

definition format_D :: "pkg \<Rightarrow> string \<Rightarrow> string" where
  "format_D pkg field =
     (if strcasecmp_eq field ''Depends'' then list_text ''Depends'' (p_depends_str pkg)
      else if strcasecmp_eq field ''Description'' then optional_text ''Description'' 16 (p_description pkg)
      else [])"

definition format_E :: "pkg \<Rightarrow> string" where
  "format_E pkg = (if p_essential pkg then ''Essential: yes'' @ [LF] else [])"

definition format_F :: "pkg \<Rightarrow> string" where
  "format_F pkg = optional_text ''Filename'' 12 (p_filename pkg)"

definition format_I :: "pkg \<Rightarrow> string \<Rightarrow> string option" where
  "format_I pkg field =
     (if strcasecmp_eq field ''Installed-Size'' then map_option (string_text ''Installed-Size'' 17) (p_installed_size pkg)
      else if strcasecmp_eq field ''Installed-Time'' \<and> p_installed_time pkg \<noteq> 0 then
        Some (snprintf 29 (''Installed-Time: '' @ show_nat (unat (p_installed_time pkg)) @ [LF]))
      else Some [])"

definition format_M :: "pkg \<Rightarrow> string \<Rightarrow> string" where
  "format_M pkg field =
     (if strcasecmp_eq field ''Maintainer'' then optional_text ''maintainer'' 14 (p_maintainer pkg)
      else if strcasecmp_eq field ''MD5sum'' then optional_text ''MD5Sum'' 11 (p_md5sum pkg)
      else [])"

text \<open>The entry that was added when the package was read is cleared and not written.\<close>

definition clear_internal :: "string list \<Rightarrow> string list" where
  "clear_internal ss = map (\<lambda>s. if strstr s opkg_internal_use_only \<noteq> None then [] else s) ss"

fun provides_text :: "nat \<Rightarrow> string list \<Rightarrow> string" where
  "provides_text i [] = []"
| "provides_text i (s # ss) =
     (if s \<noteq> [] then snprintf LINE_LEN ((if i = 1 then [] else '','') @ '' '' @ s) else []) @ provides_text (i + 1) ss"

definition format_P :: "pkg \<Rightarrow> string \<Rightarrow> (string \<times> pkg) option" where
  "format_P pkg field =
     (if strcasecmp_eq field ''Package'' then map_option (\<lambda>v. (string_text ''Package'' 11 v, pkg)) (p_name pkg)
      else if strcasecmp_eq field ''Priority'' then map_option (\<lambda>v. (string_text ''Priority'' 12 v, pkg)) (p_priority pkg)
      else if strcasecmp_eq field ''Provides'' \<and> p_provides_str pkg \<noteq> [] then
        let ss = clear_internal (p_provides_str pkg);
            internal = (\<exists>s \<in> set (p_provides_str pkg). strstr s opkg_internal_use_only \<noteq> None)
        in Some (if \<not> internal \<or> 1 < length ss then ''Provides:'' @ provides_text 0 ss @ [LF] else [], pkg\<lparr>p_provides_str := ss\<rparr>)
      else Some ([], pkg))"

definition format_R :: "pkg \<Rightarrow> string \<Rightarrow> string" where
  "format_R pkg field =
     (if strcasecmp_eq field ''Replaces'' then list_text ''Replaces'' (p_replaces_str pkg)
      else if strcasecmp_eq field ''Recommends'' then list_text ''Recommends'' (p_recommends_str pkg)
      else [])"

definition format_S :: "pkg \<Rightarrow> string \<Rightarrow> string" where
  "format_S pkg field =
     (if strcasecmp_eq field ''Section'' then optional_text ''Section'' 11 (p_section pkg)
      else if strcasecmp_eq field ''Size'' then optional_text ''Size'' 8 (p_size pkg)
      else if strcasecmp_eq field ''Source'' then optional_text ''Source'' 10 (p_source pkg)
      else if strcasecmp_eq field ''Status'' then
        let pflag = pkg_state_flag_to_str (p_state_flag pkg); pstat = pkg_state_status_to_str (p_state_status pkg);
            pwant = pkg_state_want_to_str (p_state_want pkg)
        in snprintf (length pwant + length pflag + length pstat + 12) (''Status: '' @ pwant @ '' '' @ pflag @ '' '' @ pstat @ [LF])
      else if strcasecmp_eq field ''Suggests'' then list_text ''Suggests'' (p_suggests_str pkg)
      else [])"

definition format_T :: "pkg \<Rightarrow> string \<Rightarrow> string" where
  "format_T pkg field = (if strcasecmp_eq field ''Tags'' then optional_text ''Tags'' 8 (p_tags pkg) else [])"

definition format_V :: "pkg \<Rightarrow> string option" where
  "format_V pkg = map_option (\<lambda>v. string_text ''Version'' 12 v) (pkg_version_str_alloc pkg)"

text \<open>The text and the package; the length of an octet that is not set is looked at for a short field.\<close>

definition pkg_formatted_field :: "pkg \<Rightarrow> string \<Rightarrow> (string \<times> pkg) option" where
  "pkg_formatted_field pkg field =
     (if length field < PKG_MINIMUM_FIELD_NAME_LEN then None
      else do {
        let c = tolower (c_at field 0);
        let plain = (\<lambda>s. Some (s, pkg));
        (temp, pkg) \<leftarrow>
          (if c = CHR ''a'' then plain (format_A pkg field)
           else if c = CHR ''c'' then plain (format_C pkg field)
           else if c = CHR ''d'' then plain (format_D pkg field)
           else if c = CHR ''e'' then plain (format_E pkg)
           else if c = CHR ''f'' then plain (format_F pkg)
           else if c = CHR ''i'' then map_option (\<lambda>s. (s, pkg)) (format_I pkg field)
           else if c = CHR ''m'' then plain (format_M pkg field)
           else if c = CHR ''p'' then format_P pkg field
           else if c = CHR ''r'' then plain (format_R pkg field)
           else if c = CHR ''s'' then plain (format_S pkg field)
           else if c = CHR ''t'' then plain (format_T pkg field)
           else if c = CHR ''v'' then map_option (\<lambda>s. (s, pkg)) (format_V pkg)
           else plain []);
        Some (if length temp < 2 then [] else temp, pkg) })"

section \<open>Paragraphs\<close>

fun formatted_fields :: "pkg \<Rightarrow> string list \<Rightarrow> (string \<times> pkg) option" where
  "formatted_fields pkg [] = Some ([], pkg)"
| "formatted_fields pkg (f # fs) = do {
     (line, pkg) \<leftarrow> pkg_formatted_field pkg f;
     (lines, pkg) \<leftarrow> formatted_fields pkg fs;
     Some (line @ lines, pkg) }"

text \<open>The buffer has 8192 octets.\<close>

definition pkg_formatted_info :: "pkg \<Rightarrow> (string \<times> pkg) option" where
  "pkg_formatted_info pkg = do {
     (buff, pkg) \<leftarrow> formatted_fields pkg [''Package'', ''Version'', ''Depends'', ''Recommends'', ''Suggests'', ''Provides'', ''Replaces'',
        ''Conflicts'', ''Status'', ''Section'', ''Essential'', ''Architecture'', ''Maintainer'', ''MD5sum'', ''Size'', ''Filename'',
        ''Conffiles'', ''Source'', ''Description'', ''Installed-Time'', ''Tags''];
     if 8192 \<le> length buff then None else Some (buff, pkg) }"

definition pkg_print_info :: "pkg \<Rightarrow> (string \<times> pkg) option" where
  "pkg_print_info pkg = do { (buff, pkg) \<leftarrow> pkg_formatted_info pkg; Some (if 2 < length buff then buff else [], pkg) }"

definition pkg_print_field :: "pkg \<Rightarrow> string \<Rightarrow> (string \<times> pkg) option" where
  "pkg_print_field pkg field = do { (buff, pkg) \<leftarrow> pkg_formatted_field pkg field; Some (if 2 < length buff then buff else [], pkg) }"

fun print_fields :: "pkg \<Rightarrow> string list \<Rightarrow> (string \<times> pkg) option" where
  "print_fields pkg [] = Some ([], pkg)"
| "print_fields pkg (f # fs) = do {
     (line, pkg) \<leftarrow> pkg_print_field pkg f;
     (lines, pkg) \<leftarrow> print_fields pkg fs;
     Some (line @ lines, pkg) }"

definition pkg_print_status :: "pkg \<Rightarrow> (string \<times> pkg) option" where
  "pkg_print_status pkg = do {
     (text, pkg) \<leftarrow> print_fields pkg [''Package'', ''Version'', ''Depends'', ''Recommends'', ''Suggests'', ''Provides'', ''Replaces'',
        ''Conflicts'', ''Status'', ''Essential'', ''Architecture'', ''Conffiles'', ''Installed-Time'', ''Auto-Installed''];
     Some (text @ [LF], pkg) }"

text \<open>\<open>control\<close> is what is in the control file of the package, if it can be read.\<close>

definition set_flags_from_control :: "pkg \<Rightarrow> string option \<Rightarrow> pkg option" where
  "set_flags_from_control pkg control =
     (case control of None \<Rightarrow> Some pkg | Some text \<Rightarrow> pkg_valorize_other_field pkg (read_raw_pkgs_from_stream text))"

end
