(* ===== verification/OpkgStatus.thy ===== *)
theory OpkgStatus
  imports OpkgPrint
begin

text \<open>
  What is written for a package in the status file (\<open>pkg_print_status\<close> of \<open>opkg/libopkg/pkg.c\<close>) and
  what \<open>pkg_parse_raw\<close> of \<open>pkg_parse.c\<close> reads from it.
\<close>

section \<open>Lines of a file\<close>

definition lines_text :: "string list \<Rightarrow> string" where
  "lines_text ls = concat (map (\<lambda>l. l @ [LF]) ls)"

lemma lines_text_simps [simp]:
  "lines_text [] = []" "lines_text (l # ls) = l @ LF # lines_text ls" "lines_text (ls @ ms) = lines_text ls @ lines_text ms"
  by (simp_all add: lines_text_def)

lemma read_line: "LF \<notin> set l \<Longrightarrow> read_raw_pkgs_from_stream (l @ LF # rest) = l # read_raw_pkgs_from_stream rest"
proof -
  assume l: "LF \<notin> set l"
  then have tw: "takeWhile (\<lambda>c. c \<noteq> LF) (l @ LF # rest) = l" by (auto simp: takeWhile_append)
  have dr: "drop (length l + 1) (l @ LF # rest) = rest" by simp
  obtain c cs where c: "l @ LF # rest = c # cs" by (cases l) auto
  show ?thesis using read_raw_pkgs_from_stream.simps(2)[of c cs] unfolding Let_def c[symmetric] tw dr .
qed

lemma read_lines:
  "\<forall>l \<in> set ls. LF \<notin> set l \<Longrightarrow> read_raw_pkgs_from_stream (lines_text ls @ rest) = ls @ read_raw_pkgs_from_stream rest"
  by (induction ls) (simp_all add: read_line)

section \<open>Packages that can be written\<close>

text \<open>A value that is not empty and has no white space at its ends and no line feed.\<close>

definition clean :: "string \<Rightarrow> bool" where
  "clean s \<longleftrightarrow> s \<noteq> [] \<and> \<not> isspace (hd s) \<and> \<not> isspace (last s) \<and> LF \<notin> set s"

definition clean_entry :: "string \<Rightarrow> bool" where
  "clean_entry s \<longleftrightarrow> clean s \<and> CHR '','' \<notin> set s"

definition clean_conffile :: "string \<times> string \<Rightarrow> bool" where
  "clean_conffile f \<longleftrightarrow> hd (fst f) = CHR ''/'' \<and> fst f \<noteq> [] \<and> LF \<notin> set (fst f) \<and> LF \<notin> set (snd f) \<and> length (fst f) + length (snd f) \<le> 125"

text \<open>
  What a package provides: the entry that is added when a package is read comes first, or what is left of it after the
  package has been written, an empty string.
\<close>

definition provides_ok :: "string list \<Rightarrow> bool" where
  "provides_ok ss \<longleftrightarrow> ss = [] \<or> (hd ss = opkg_internal_use_only \<or> hd ss = []) \<and>
     (\<forall>s \<in> set (tl ss). clean_entry s \<and> strstr s opkg_internal_use_only = None)"

definition writable :: "pkg \<Rightarrow> bool" where
  "writable p \<longleftrightarrow>
     (\<exists>n. p_name p = Some n \<and> clean n) \<and>
     (\<exists>v r. p_version p = Some v \<and> p_revision p = Some r \<and> plain_version (unat (p_epoch p)) v r \<and> LF \<notin> set v \<and> LF \<notin> set r) \<and>
     (\<forall>s \<in> set (p_depends_str p) \<union> set (p_recommends_str p) \<union> set (p_suggests_str p) \<union> set (p_replaces_str p) \<union> set (p_conflicts_str p).
        clean_entry s) \<and>
     provides_ok (p_provides_str p) \<and>
     (\<forall>s. p_architecture p = Some s \<longrightarrow> clean s) \<and>
     (\<forall>f \<in> set (p_conffiles p). clean_conffile f)"

section \<open>The lines that are written\<close>

text \<open>An entry goes through a buffer of 128 octets, with a blank or a comma and a blank in front of it, and what does not fit is cut off.\<close>

fun cut :: "string list \<Rightarrow> string list" where
  "cut [] = []"
| "cut (s # ss) = take 126 s # map (take 125) ss"

text \<open>What is read of such a list: blanks at the end of what is left of an entry are not kept.\<close>

definition shortened :: "string list \<Rightarrow> string list" where
  "shortened ss = map trim_alloc (cut ss)"

fun entries_tail :: "string list \<Rightarrow> string" where
  "entries_tail [] = []"
| "entries_tail (s # ss) = '', '' @ s @ entries_tail ss"

fun list_line :: "string \<Rightarrow> string list \<Rightarrow> string list" where
  "list_line label [] = []"
| "list_line label (s # ss) = [label @ '': '' @ s @ entries_tail ss]"

fun provides_lines :: "string list \<Rightarrow> string list" where
  "provides_lines [] = []"
| "provides_lines (s # ss) = (if s = [] \<and> ss = [] then [''Provides:''] else list_line ''Provides'' (cut ss))"

text \<open>What is read for the provided names. An empty line gives a name that is empty.\<close>

fun provides_back :: "string list \<Rightarrow> string list" where
  "provides_back [] = [opkg_internal_use_only]"
| "provides_back (s # ss) = opkg_internal_use_only # (if s = [] \<and> ss = [] then [[]] else shortened ss)"

definition status_lines :: "pkg \<Rightarrow> string list" where
  "status_lines p =
     [''Package: '' @ the (p_name p), ''Version: '' @ the (pkg_version_str_alloc p)] @
     list_line ''Depends'' (cut (p_depends_str p)) @ list_line ''Recommends'' (cut (p_recommends_str p)) @ list_line ''Suggests'' (cut (p_suggests_str p)) @
     provides_lines (p_provides_str p) @ list_line ''Replaces'' (cut (p_replaces_str p)) @ list_line ''Conflicts'' (cut (p_conflicts_str p)) @
     [''Status: '' @ pkg_state_want_to_str (p_state_want p) @ '' '' @ pkg_state_flag_to_str (p_state_flag p) @ '' '' @
        pkg_state_status_to_str (p_state_status p)] @
     (if p_essential p then [''Essential: yes''] else []) @
     (case p_architecture p of None \<Rightarrow> [] | Some s \<Rightarrow> [''Architecture: '' @ s]) @
     (if p_conffiles p = [] then [] else ''Conffiles:'' # map (\<lambda>(n, v). n @ '' '' @ v) (p_conffiles p)) @
     (if p_installed_time p = 0 then [] else [''Installed-Time: '' @ show_nat (unat (p_installed_time p))]) @
     (if p_auto_installed p then [''Auto-Installed: yes''] else []) @ [[]]"

lemma take_entry: "take (LINE_LEN - Suc 0) (CHR '','' # CHR '' '' # s) = CHR '','' # CHR '' '' # take 125 s"
  "take (LINE_LEN - Suc 0) (CHR '' '' # s) = CHR '' '' # take 126 s"
  by (simp_all add: LINE_LEN_def)

lemma entries_text_tail: "i \<noteq> 0 \<Longrightarrow> entries_text i ss = entries_tail (map (take 125) ss)"
  by (induction i ss rule: entries_text.induct) (simp_all add: snprintf_def take_entry)

lemma list_text_line: "list_text label ss = lines_text (list_line label (cut ss))"
  by (cases ss) (simp_all add: list_text_def snprintf_def take_entry entries_text_tail)

lemma provides_text_tail: "\<forall>s \<in> set ss. s \<noteq> [] \<Longrightarrow> 2 \<le> i \<Longrightarrow> provides_text i ss = entries_tail (map (take 125) ss)"
  by (induction i ss rule: provides_text.induct) (auto simp: snprintf_def take_entry)

text \<open>What is left of an entry is read as an entry.\<close>

definition short_entry :: "string \<Rightarrow> bool" where
  "short_entry s \<longleftrightarrow> s \<noteq> [] \<and> \<not> isspace (hd s) \<and> LF \<notin> set s \<and> CHR '','' \<notin> set s \<and> length s < 2048"

lemma take_short: "clean_entry s \<Longrightarrow> 0 < n \<Longrightarrow> n < 2048 \<Longrightarrow> short_entry (take n s)"
  by (auto simp: short_entry_def clean_entry_def clean_def dest: in_set_takeD)

lemma cut_short: "\<forall>s \<in> set ss. clean_entry s \<Longrightarrow> \<forall>s \<in> set (cut ss). short_entry s"
  by (cases ss) (auto simp: take_short)

lemma cut_empty [simp]: "cut ss = [] \<longleftrightarrow> ss = []"
  by (cases ss) simp_all

text \<open>Entries of at most 125 octets come back as they are.\<close>

lemma shortened_id: "\<forall>s \<in> set ss. clean_entry s \<and> length s \<le> 125 \<Longrightarrow> shortened ss = ss"
  by (cases ss) (auto simp: shortened_def clean_entry_def clean_def trim_alloc_plain intro!: map_idI)

lemma tolower_simps [simp]:
  "tolower (CHR ''A'') = CHR ''a''" "tolower (CHR ''C'') = CHR ''c''" "tolower (CHR ''D'') = CHR ''d''" "tolower (CHR ''E'') = CHR ''e''" "tolower (CHR ''I'') = CHR ''i''" "tolower (CHR ''M'') = CHR ''m''" "tolower (CHR ''P'') = CHR ''p''" "tolower (CHR ''R'') = CHR ''r''" "tolower (CHR ''S'') = CHR ''s''" "tolower (CHR ''T'') = CHR ''t''" "tolower (CHR ''V'') = CHR ''v''"
  by (simp_all add: tolower_def ord_c_def char_of_def bit_Suc_0_iff)

lemma tolower_lower_simps [simp]:
  "tolower (CHR ''a'') = CHR ''a''" "tolower (CHR ''b'') = CHR ''b''" "tolower (CHR ''c'') = CHR ''c''" "tolower (CHR ''d'') = CHR ''d''" "tolower (CHR ''e'') = CHR ''e''" "tolower (CHR ''f'') = CHR ''f''" "tolower (CHR ''g'') = CHR ''g''" "tolower (CHR ''h'') = CHR ''h''" "tolower (CHR ''i'') = CHR ''i''" "tolower (CHR ''k'') = CHR ''k''" "tolower (CHR ''l'') = CHR ''l''" "tolower (CHR ''m'') = CHR ''m''" "tolower (CHR ''n'') = CHR ''n''" "tolower (CHR ''o'') = CHR ''o''" "tolower (CHR ''p'') = CHR ''p''" "tolower (CHR ''r'') = CHR ''r''" "tolower (CHR ''s'') = CHR ''s''" "tolower (CHR ''t'') = CHR ''t''" "tolower (CHR ''u'') = CHR ''u''" "tolower (CHR ''v'') = CHR ''v''" "tolower (CHR ''-'') = CHR ''-''"
  by (simp_all add: tolower_def ord_c_def)

lemma print_field:
  assumes "pkg_formatted_field p f = Some (if length text < 2 then [] else text, p')" and "text = [] \<or> 2 < length text"
  shows "pkg_print_field p f = Some (text, p')"
  using assms by (auto simp: pkg_print_field_def)

lemmas format_defs = pkg_formatted_field_def format_A_def format_C_def format_D_def format_E_def format_I_def format_P_def format_R_def
  format_S_def format_V_def strcasecmp_eq_def PKG_MINIMUM_FIELD_NAME_LEN_def c_at_def string_text_def
  optional_text_def snprintf_def

lemma list_text_length: "list_text label ss = [] \<or> 2 < length (list_text (x # y # label) ss)"
  by (auto simp: list_text_def)

lemma print_Package: "p_name p = Some n \<Longrightarrow> pkg_print_field p ''Package'' = Some (lines_text [''Package: '' @ n], p)"
  by (rule print_field) (simp_all add: format_defs)

lemma print_Version: "pkg_version_str_alloc p = Some v \<Longrightarrow> pkg_print_field p ''Version'' = Some (lines_text [''Version: '' @ v], p)"
  by (rule print_field) (simp_all add: format_defs)

lemma print_lists:
  "pkg_print_field p ''Depends'' = Some (lines_text (list_line ''Depends'' (cut (p_depends_str p))), p)"
  "pkg_print_field p ''Recommends'' = Some (lines_text (list_line ''Recommends'' (cut (p_recommends_str p))), p)"
  "pkg_print_field p ''Suggests'' = Some (lines_text (list_line ''Suggests'' (cut (p_suggests_str p))), p)"
  "pkg_print_field p ''Replaces'' = Some (lines_text (list_line ''Replaces'' (cut (p_replaces_str p))), p)"
  "pkg_print_field p ''Conflicts'' = Some (lines_text (list_line ''Conflicts'' (cut (p_conflicts_str p))), p)"
  by (auto intro!: print_field simp: format_defs Let_def list_text_line[symmetric] list_text_def[of "_ # _"])

lemma print_Provides:
  assumes "provides_ok (p_provides_str p)"
  shows "\<exists>ss. pkg_print_field p ''Provides'' = Some (lines_text (provides_lines (p_provides_str p)), p\<lparr>p_provides_str := ss\<rparr>)"
proof (cases "p_provides_str p")
  case Nil
  then have "pkg_print_field p ''Provides'' = Some (lines_text (provides_lines (p_provides_str p)), p\<lparr>p_provides_str := p_provides_str p\<rparr>)"
    by (auto intro!: print_field simp: format_defs Let_def)
  then show ?thesis by blast
next
  case (Cons s ss)
  then have c: "s = opkg_internal_use_only \<or> s = []" "\<forall>s \<in> set ss. s \<noteq> [] \<and> strstr s opkg_internal_use_only = None"
    using assms by (auto simp: provides_ok_def clean_entry_def clean_def)
  have m: "strstr opkg_internal_use_only opkg_internal_use_only \<noteq> None" "strstr [] opkg_internal_use_only = None"
    by (simp_all add: opkg_internal_use_only_def)
  have "map (\<lambda>s. if strstr s opkg_internal_use_only \<noteq> None then [] else s) ss = ss" using c(2) by (auto intro: map_idI)
  then have clear: "clear_internal (s # ss) = [] # ss" "(\<exists>t \<in> set (s # ss). strstr t opkg_internal_use_only \<noteq> None) \<longleftrightarrow> s \<noteq> []"
    using c m by (auto simp: clear_internal_def opkg_internal_use_only_def)
  have "''Provides:'' @ provides_text 0 ([] # ss) @ [LF] = lines_text (list_line ''Provides'' (cut ss))" if "ss \<noteq> []"
    using that c(2) by (cases ss) (auto simp: provides_text_tail snprintf_def take_entry)
  then have "pkg_print_field p ''Provides'' = Some (lines_text (provides_lines (p_provides_str p)), p\<lparr>p_provides_str := [] # ss\<rparr>)"
    using clear Cons by (cases ss; cases "s = []") (auto intro!: print_field simp: format_defs Let_def)
  then show ?thesis by blast
qed

lemma print_Status: "pkg_print_field p ''Status'' = Some (lines_text [''Status: '' @ pkg_state_want_to_str (p_state_want p) @ '' '' @
    pkg_state_flag_to_str (p_state_flag p) @ '' '' @ pkg_state_status_to_str (p_state_status p)], p)"
  by (rule print_field) (simp_all add: format_defs Let_def)

lemma print_flags:
  "pkg_print_field p ''Essential'' = Some (lines_text (if p_essential p then [''Essential: yes''] else []), p)"
  "pkg_print_field p ''Architecture'' = Some (lines_text (case p_architecture p of None \<Rightarrow> [] | Some s \<Rightarrow> [''Architecture: '' @ s]), p)"
  "pkg_print_field p ''Auto-Installed'' = Some (lines_text (if p_auto_installed p then [''Auto-Installed: yes''] else []), p)"
  by (auto intro!: print_field simp: format_defs Let_def split: option.split)

lemma print_Conffiles:
  assumes "\<forall>f \<in> set (p_conffiles p). clean_conffile f"
  shows "pkg_print_field p ''Conffiles'' =
    Some (lines_text (if p_conffiles p = [] then [] else ''Conffiles:'' # map (\<lambda>(n, v). n @ '' '' @ v) (p_conffiles p)), p)"
proof -
  have "concat (map (\<lambda>(name, value). snprintf LINE_LEN (name @ '' '' @ value @ [LF])) fs) = lines_text (map (\<lambda>(n, v). n @ '' '' @ v) fs)"
    if "\<forall>f \<in> set fs. clean_conffile f" for fs
    using that by (induction fs) (auto simp: clean_conffile_def snprintf_def LINE_LEN_def)
  then show ?thesis using assms by (auto intro!: print_field simp: format_defs Let_def)
qed

lemma print_Installed_Time:
  "pkg_print_field p ''Installed-Time'' =
    Some (lines_text (if p_installed_time p = 0 then [] else [''Installed-Time: '' @ show_nat (unat (p_installed_time p))]), p)"
proof -
  have "unat (p_installed_time p) < 2 ^ LENGTH(32)" by (rule unsigned_less)
  then have "unat (p_installed_time p) < 10 ^ Suc 9" by simp
  then have "length (show_nat (unat (p_installed_time p))) \<le> Suc 9" by (rule length_show_nat)
  then show ?thesis by (auto intro!: print_field simp: format_defs Let_def)
qed

lemma print_fields_step:
  "pkg_print_field p f = Some (a, q) \<Longrightarrow> print_fields q fs = Some (b, r) \<Longrightarrow> print_fields p (f # fs) = Some (a @ b, r)"
  by simp

lemma print_status_lines:
  assumes "writable p"
  shows "\<exists>q. pkg_print_status p = Some (lines_text (status_lines p), q)"
proof -
  obtain ss where ss: "pkg_print_field p ''Provides'' = Some (lines_text (provides_lines (p_provides_str p)), p\<lparr>p_provides_str := ss\<rparr>)"
    using print_Provides[of p] assms unfolding writable_def by blast
  obtain n v where nv: "p_name p = Some n" "pkg_version_str_alloc p = Some v"
    using assms by (auto simp: writable_def pkg_version_str_alloc_def)
  have conf: "\<forall>f \<in> set (p_conffiles p). clean_conffile f" using assms by (simp add: writable_def)
  have after: "q = p\<lparr>p_provides_str := ss\<rparr> \<Longrightarrow> print_fields q [''Replaces'', ''Conflicts'', ''Status'', ''Essential'', ''Architecture'',
     ''Conffiles'', ''Installed-Time'', ''Auto-Installed''] = Some (lines_text (
       list_line ''Replaces'' (cut (p_replaces_str p)) @ list_line ''Conflicts'' (cut (p_conflicts_str p)) @
       [''Status: '' @ pkg_state_want_to_str (p_state_want p) @ '' '' @ pkg_state_flag_to_str (p_state_flag p) @ '' '' @
          pkg_state_status_to_str (p_state_status p)] @
       (if p_essential p then [''Essential: yes''] else []) @
       (case p_architecture p of None \<Rightarrow> [] | Some s \<Rightarrow> [''Architecture: '' @ s]) @
       (if p_conffiles p = [] then [] else ''Conffiles:'' # map (\<lambda>(n, v). n @ '' '' @ v) (p_conffiles p)) @
       (if p_installed_time p = 0 then [] else [''Installed-Time: '' @ show_nat (unat (p_installed_time p))]) @
       (if p_auto_installed p then [''Auto-Installed: yes''] else [])), q)" for q
    using conf print_lists[of q] by (simp add: print_Status print_flags print_Conffiles print_Installed_Time)
  show ?thesis
    using print_fields_step[OF print_Package[OF nv(1)] print_fields_step[OF print_Version[OF nv(2)]
        print_fields_step[OF print_lists(1) print_fields_step[OF print_lists(2)
        print_fields_step[OF print_lists(3) print_fields_step[OF ss after[OF refl]]]]]]]
    by (simp add: pkg_print_status_def status_lines_def nv del: print_fields.simps)
qed

section \<open>Reading a line\<close>

lemma list_entries_tail:
  "short_entry s \<Longrightarrow> \<forall>s \<in> set ss. short_entry s \<Longrightarrow> list_entries (CHR '' '' # s @ entries_tail ss) = Some (map trim_alloc (s # ss))"
proof (induction ss arbitrary: s)
  case Nil
  then have s: "s \<noteq> []" "\<not> isspace (hd s)" "CHR '','' \<notin> set s" "length s < 2048"
    by (simp_all add: short_entry_def)
  then have "dropWhile isspace (CHR '' '' # s) = s" "takeWhile (\<lambda>c. c \<noteq> CHR '','') s = s" by (auto simp: dropWhile_hd simp del: takeWhile_eq_all_conv intro!: takeWhile_eq_all_conv[THEN iffD2])
  then show ?case using s by (subst list_entries.simps) (simp add: Let_def list_entries.simps[of "[]"] del: takeWhile_eq_all_conv)
next
  case (Cons t ss)
  have s: "s \<noteq> []" "\<not> isspace (hd s)" "CHR '','' \<notin> set s" "length s < 2048"
    using Cons.prems(1) by (simp_all add: short_entry_def)
  let ?raw = "CHR '' '' # s @ entries_tail (t # ss)"
  have "dropWhile isspace ?raw = s @ entries_tail (t # ss)" using s(1,2) by (cases s) auto
  moreover have "takeWhile (\<lambda>c. c \<noteq> CHR '','') (s @ entries_tail (t # ss)) = s" using s(3) by (auto simp: takeWhile_append)
  moreover have "list_entries (CHR '' '' # t @ entries_tail ss) = Some (map trim_alloc (t # ss))" using Cons by simp
  ultimately show ?case using s by (subst list_entries.simps) (simp add: Let_def)
qed

text \<open>The part of a line in front of the colon has no white space.\<close>

lemma parseDependsString_line:
  assumes "\<forall>c \<in> set label. \<not> isspace c" and "short_entry s" and "\<forall>s \<in> set ss. short_entry s"
  shows "parseDependsString (label @ '': '' @ s @ entries_tail ss) = Some (map trim_alloc (s # ss))"
proof -
  have "\<not> isspace (CHR '':'')" by (simp add: isspace_def ord_c_def)
  then have "dropWhile (\<lambda>c. \<not> isspace c) (label @ '': '' @ s @ entries_tail ss) = CHR '' '' # s @ entries_tail ss"
    using assms(1) by (simp add: dropWhile_append)
  moreover have "\<not> line_is_blank (CHR '' '' # s @ entries_tail ss)"
    using assms(2) by (cases s) (simp_all add: line_is_blank_def short_entry_def)
  ultimately show ?thesis using list_entries_tail[OF assms(2,3)] by (simp add: parseDependsString_def)
qed

lemmas read_defs = parse_line_def c_at_def isGenericFieldType_def strncmp_eq_def string_field_def list_field_def
  parseGenericFieldType_def parse_P_def parse_A_def parse_S_def parse_I_def parse_C_def parse_D_def parse_R_def Let_def

lemma trim_blank: "clean s \<Longrightarrow> trim_alloc (CHR '' '' # s) = s"
  using trim_alloc_plain[of s] by (simp add: clean_def trim_alloc_def)

lemma clean_yes: "clean ''yes''"
  by (simp add: clean_def isspace_def ord_c_def)

lemma read_Package: "clean n \<Longrightarrow> parse_lines ps ((''Package: '' @ n) # ls) = parse_lines (set_pkg ps (p_name_update (\<lambda>_. Some n))) ls"
  by (simp add: read_defs trim_blank)

lemma read_Architecture:
  "clean s \<Longrightarrow> parse_lines ps ((''Architecture: '' @ s) # ls) = parse_lines (set_pkg ps (p_architecture_update (\<lambda>_. Some s))) ls"
  by (simp add: read_defs trim_blank)

lemma if_true: "If True True = (\<lambda>b. True)"
  by (rule ext) simp

lemma read_yes:
  "parse_lines ps (''Essential: yes'' # ls) = parse_lines (set_pkg ps (p_essential_update (\<lambda>_. True))) ls"
  "parse_lines ps (''Auto-Installed: yes'' # ls) = parse_lines (set_pkg ps (p_auto_installed_update (\<lambda>_. True))) ls"
  using trim_blank[OF clean_yes] trim_alloc_plain[of "''yes''"] by (simp_all add: read_defs isspace_def ord_c_def if_true)

lemma label_words:
  "\<forall>c \<in> set ''Depends''. \<not> isspace c" "\<forall>c \<in> set ''Recommends''. \<not> isspace c" "\<forall>c \<in> set ''Suggests''. \<not> isspace c"
  "\<forall>c \<in> set ''Replaces''. \<not> isspace c" "\<forall>c \<in> set ''Conflicts''. \<not> isspace c" "\<forall>c \<in> set ''Provides''. \<not> isspace c"
  by (simp_all add: isspace_def ord_c_def)

lemmas read_list_lines = label_words[THEN parseDependsString_line]

lemma read_lists:
  assumes "\<forall>s \<in> set ss. short_entry s"
  shows "parse_lines ps (list_line ''Depends'' ss @ ls) =
      parse_lines (if ss = [] then ps else set_pkg ps (p_depends_str_update (\<lambda>_. map trim_alloc ss))) ls"
    "parse_lines ps (list_line ''Recommends'' ss @ ls) =
      parse_lines (if ss = [] then ps else set_pkg ps (p_recommends_str_update (\<lambda>_. map trim_alloc ss))) ls"
    "parse_lines ps (list_line ''Suggests'' ss @ ls) =
      parse_lines (if ss = [] then ps else set_pkg ps (p_suggests_str_update (\<lambda>_. map trim_alloc ss))) ls"
    "parse_lines ps (list_line ''Replaces'' ss @ ls) =
      parse_lines (if ss = [] then ps else set_pkg ps (p_replaces_str_update (\<lambda>_. map trim_alloc ss))) ls"
    "parse_lines ps (list_line ''Conflicts'' ss @ ls) =
      parse_lines (if ss = [] then ps else set_pkg ps (p_conflicts_str_update (\<lambda>_. map trim_alloc ss))) ls"
  using assms read_list_lines by (cases ss; simp add: read_defs)+

lemma internal_entry: "short_entry opkg_internal_use_only" "trim_alloc opkg_internal_use_only = opkg_internal_use_only"
  by (simp_all add: short_entry_def trim_alloc_plain opkg_internal_use_only_def isspace_def ord_c_def)

lemma read_provided:
  assumes "\<forall>s \<in> set ss. short_entry s"
  shows "parse_lines ps (list_line ''Provides'' ss @ ls) = parse_lines (if ss = [] then ps
    else (set_pkg ps (p_provides_str_update (\<lambda>_. opkg_internal_use_only # map trim_alloc ss)))\<lparr>ps_false_provides := False\<rparr>) ls"
proof (cases ss)
  case (Cons s rest)
  have "dropWhile isspace (CHR '' '' # s @ entries_tail rest) = s @ entries_tail rest"
    using assms by (cases s) (auto simp: Cons short_entry_def)
  then have "alterProvidesLine (''Provides: '' @ s @ entries_tail rest) = ''Provides'' @ '': '' @ opkg_internal_use_only @ entries_tail ss"
    by (simp add: alterProvidesLine_def Cons)
  then have "parseDependsString (alterProvidesLine (''Provides: '' @ s @ entries_tail rest)) = Some (opkg_internal_use_only # map trim_alloc ss)"
    using read_list_lines(6)[OF internal_entry(1) assms] internal_entry(2) by simp
  then show ?thesis using Cons by (simp add: read_defs)
qed simp

lemma read_empty_Provides: "parseDependsString (alterProvidesLine ''Provides:'') = Some [opkg_internal_use_only, []]"
  by code_simp

lemma read_Provides:
  assumes "provides_ok vs"
  shows "parse_lines ps (provides_lines vs @ ls) = parse_lines (if provides_lines vs = [] then ps
    else (set_pkg ps (p_provides_str_update (\<lambda>_. provides_back vs)))\<lparr>ps_false_provides := False\<rparr>) ls"
proof (cases vs)
  case (Cons s ss)
  have c: "\<forall>s \<in> set (cut ss). short_entry s" using assms Cons by (intro cut_short) (auto simp: provides_ok_def)
  have e: "list_line ''Provides'' (cut ss) = [] \<longleftrightarrow> ss = []" by (cases ss) simp_all
  show ?thesis using read_provided[OF c] read_empty_Provides e
    by (cases "s = [] \<and> ss = []") (auto simp: Cons shortened_def read_defs)
qed simp

lemma unwritten_provides: "provides_lines vs = [] \<Longrightarrow> provides_back vs = [opkg_internal_use_only]"
  by (cases vs; cases "tl vs") (auto simp: shortened_def split: if_splits)

lemma read_Version:
  assumes "plain_version (unat (p_epoch p)) v r" and "p_version p = Some v" and "p_revision p = Some r" and "p_version (ps_pkg ps) = None"
  shows "parse_lines ps ((''Version: '' @ the (pkg_version_str_alloc p)) # ls) =
    parse_lines (set_pkg ps (\<lambda>q. q\<lparr>p_epoch := p_epoch p, p_version := Some v, p_revision := Some r\<rparr>)) ls"
proof -
  obtain s where s: "pkg_version_str_alloc p = Some s" "s \<noteq> []" "take 8 s \<noteq> ''Version:''" "\<not> isspace (c_at s 0)"
    "parseVersion (ps_pkg ps) s = (0, (ps_pkg ps)\<lparr>p_epoch := p_epoch p, p_version := Some v, p_revision := Some r\<rparr>)"
    using version_str_reads[OF assms(1) refl assms(2-4)] by blast
  have "dropWhile isspace s = s" using s(2,4) by (cases s) (auto simp: c_at_def)
  then have "parseVersion (ps_pkg ps) (''Version: '' @ s) = parseVersion (ps_pkg ps) s"
    using s(2,3) by (simp add: parseVersion_def Let_def cong: option.case_cong if_cong prod.case_cong)
  then show ?thesis using s(1,5) by (simp add: read_defs set_pkg_def)
qed

definition word :: "string \<Rightarrow> bool" where
  "word w \<longleftrightarrow> w \<noteq> [] \<and> list_all (\<lambda>c. \<not> isspace c) w \<and> length w < 64"

lemma next_word_word:
  assumes "word w" and "rest = [] \<or> isspace (hd rest)"
  shows "next_word (CHR '' '' # w @ rest) = (w, rest)"
proof -
  have "dropWhile isspace (CHR '' '' # w @ rest) = w @ rest" using assms(1) by (cases w) (auto simp: word_def)
  moreover have "takeWhile (\<lambda>c. \<not> isspace c) (w @ rest) = w" using assms by (cases rest) (auto simp: word_def list_all_iff takeWhile_append)
  ultimately show ?thesis by (simp add: next_word_def Let_def)
qed

lemma want_word: "word (pkg_state_want_to_str sw)"
  by (cases sw) (simp_all add: pkg_state_want_to_str_def pkg_state_want_map_def word_def isspace_def ord_c_def)

lemma status_word: "word (pkg_state_status_to_str ss)"
  by (cases ss) (simp_all add: pkg_state_status_to_str_def pkg_state_status_map_def word_def isspace_def ord_c_def)

lemma flag_words: "list_all (\<lambda>sf. word (pkg_state_flag_to_str sf)) flag_values"
  by code_simp

lemma flag_word: "word (pkg_state_flag_to_str sf)"
proof -
  have "pkg_state_flag_to_str sf = pkg_state_flag_to_str (sf AND SF_NONVOLATILE_FLAGS)"
    by (simp add: pkg_state_flag_to_str_def and.assoc)
  then show ?thesis using flags_value[of sf] flag_words by (simp add: list_all_iff)
qed

lemma read_Status:
  "parse_lines ps ((''Status: '' @ pkg_state_want_to_str sw @ '' '' @ pkg_state_flag_to_str sf @ '' '' @ pkg_state_status_to_str ss) # ls) =
   parse_lines (set_pkg ps (\<lambda>q. q\<lparr>p_state_want := sw, p_state_flag := sf AND SF_NONVOLATILE_FLAGS, p_state_status := ss\<rparr>)) ls"
proof -
  let ?w = "pkg_state_want_to_str sw" and ?f = "pkg_state_flag_to_str sf" and ?s = "pkg_state_status_to_str ss"
  have "next_word (CHR '' '' # ?w @ '' '' @ ?f @ '' '' @ ?s) = (?w, '' '' @ ?f @ '' '' @ ?s)"
    "next_word (CHR '' '' # ?f @ '' '' @ ?s) = (?f, '' '' @ ?s)" "next_word (CHR '' '' # ?s) = (?s, [])"
    using next_word_word[OF want_word] next_word_word[OF flag_word] next_word_word[OF status_word, of "[]"] by simp_all
  then have "parseStatus (ps_pkg ps) (''Status: '' @ ?w @ '' '' @ ?f @ '' '' @ ?s) =
    Some ((ps_pkg ps)\<lparr>p_state_want := sw, p_state_flag := sf AND SF_NONVOLATILE_FLAGS, p_state_status := ss\<rparr>)"
    using want_word[of sw] flag_word[of sf] status_word[of ss] by (simp add: parseStatus_def Let_def word_def not_le)
  then show ?thesis by (simp add: read_defs set_pkg_def)
qed

text \<open>A number that is not 0 is printed without a zero in front.\<close>

lemma show_nat_hd: "0 < n \<Longrightarrow> hd (show_nat n) \<noteq> CHR ''0''"
proof (induction n rule: show_nat.induct)
  case (1 n)
  show ?case
  proof (cases "n < 10")
    case True
    then have "n \<in> {1, 2, 3, 4, 5, 6, 7, 8, 9}" using 1(2) by auto
    then show ?thesis by (subst show_nat.simps) (auto simp: digit_char_def char_of_def bit_Suc_0_iff)
  next
    case False
    then have "hd (show_nat (n div 10)) \<noteq> CHR ''0''" using 1 by simp
    then show ?thesis using False by (subst show_nat.simps) simp
  qed
qed

lemma strtoul_0:
  assumes "0 < n" and "n < 2 ^ 32"
  shows "fst (strtoul 0 (show_nat n)) = int n"
proof -
  have d: "\<forall>c \<in> set (show_nat n). isdigit c" using show_nat_isdigit by blast
  obtain c cs where c: "show_nat n = c # cs" "isdigit c" "c \<noteq> CHR ''0''"
    using show_nat_hd[OF assms(1)] d show_nat_nonempty[of n] by (cases "show_nat n") auto
  have "c \<noteq> CHR ''-'' \<and> c \<noteq> CHR ''+''" using c(2) by (auto simp: isdigit_def ord_c_def)
  then have "strto 0 (show_nat n) = strto 10 (show_nat n)"
    using c isdigit_not_isspace[OF c(2)] by (simp add: strto_def Let_def c_at_def)
  then show ?thesis using strtoul_digits[of "show_nat n" "[]"] d assms(2) by (simp add: strtoul_def)
qed

lemma read_Installed_Time:
  assumes "t \<noteq> 0"
  shows "parse_lines ps ((''Installed-Time: '' @ show_nat (unat t)) # ls) = parse_lines (set_pkg ps (p_installed_time_update (\<lambda>_. t))) ls"
proof -
  have d: "\<forall>c \<in> set (show_nat (unat t)). isdigit c" using show_nat_isdigit by blast
  have "trim_alloc (CHR '' '' # show_nat (unat t)) = show_nat (unat t)"
    using d by (intro trim_blank) (auto simp: clean_def isdigit_not_isspace hd_in_set last_in_set isdigit_def ord_c_def)
  moreover have "unat t < 2 ^ LENGTH(32)" by (rule unsigned_less)
  moreover have "0 < unat t" using assms by (simp add: unat_gt_0)
  ultimately show ?thesis using strtoul_0[of "unat t"] by (simp add: read_defs)
qed

lemma read_Conffiles:
  assumes "\<forall>f \<in> set fs. clean_conffile f"
  shows "\<exists>b. parse_lines ps ((if fs = [] then [] else ''Conffiles:'' # map (\<lambda>(n, v). n @ '' '' @ v) fs) @ ls) = parse_lines (ps\<lparr>ps_conffiles := b\<rparr>) ls"
proof (cases "fs = []")
  case True
  then have "parse_lines ps ((if fs = [] then [] else ''Conffiles:'' # map (\<lambda>(n, v). n @ '' '' @ v) fs) @ ls) =
    parse_lines (ps\<lparr>ps_conffiles := ps_conffiles ps\<rparr>) ls" by simp
  then show ?thesis ..
next
  case False
  have skip: "\<forall>f \<in> set fs. clean_conffile f \<Longrightarrow> parse_lines ps (map (\<lambda>(n, v). n @ '' '' @ v) fs @ ls) = parse_lines ps ls" for ps fs
  proof (induction fs)
    case (Cons f fs)
    obtain n v where f: "f = (CHR ''/'' # n, v)" using Cons.prems by (cases f; cases "fst f") (auto simp: clean_conffile_def)
    have "\<not> line_is_blank (CHR ''/'' # n @ CHR '' '' # v)" by (simp add: line_is_blank_def isspace_def ord_c_def)
    then show ?case using Cons by (simp add: f parse_line_def c_at_def Let_def)
  qed simp
  have "parse_lines ps (''Conffiles:'' # map (\<lambda>(n, v). n @ '' '' @ v) fs @ ls) = parse_lines (ps\<lparr>ps_conffiles := True\<rparr>) ls"
    using skip[OF assms] by (simp add: read_defs parseConffiles_def conffile_entries.simps[of "[]"] next_word_def set_pkg_def)
  then show ?thesis using False by auto
qed

section \<open>Reading groups of lines\<close>

lemma set_pkg_sel [simp]:
  "ps_pkg (set_pkg ps f) = f (ps_pkg ps)" "ps_false_provides (set_pkg ps f) = ps_false_provides ps"
  "set_pkg (set_pkg ps f) g = set_pkg ps (\<lambda>q. g (f q))"
  by (simp_all add: set_pkg_def)

lemma set_pkg_cong: "f (ps_pkg ps) = g (ps_pkg ps) \<Longrightarrow> set_pkg ps f = set_pkg ps g"
  by (simp add: set_pkg_def)

lemma unchanged:
  assumes "upd (\<lambda>_. get (ps_pkg ps)) (ps_pkg ps) = ps_pkg ps" and "get (ps_pkg ps) = x"
  shows "set_pkg ps (upd (\<lambda>_. x)) = ps"
  using assms by (simp add: set_pkg_def)

text \<open>A list that is not written is empty, as it was before.\<close>

lemma read_relations:
  assumes "\<forall>s \<in> set ds \<union> set rs \<union> set us \<union> set ls \<union> set cs. short_entry s" and "provides_ok vs"
    and "p_depends_str (ps_pkg ps) = []" and "p_recommends_str (ps_pkg ps) = []" and "p_suggests_str (ps_pkg ps) = []"
    and "p_replaces_str (ps_pkg ps) = []" and "p_conflicts_str (ps_pkg ps) = []" and "p_provides_str (ps_pkg ps) = []"
    and "ps_false_provides ps"
  shows "parse_lines ps (list_line ''Depends'' ds @ list_line ''Recommends'' rs @ list_line ''Suggests'' us @ provides_lines vs @
      list_line ''Replaces'' ls @ list_line ''Conflicts'' cs @ rest) =
    parse_lines ((set_pkg ps (\<lambda>q. q\<lparr>p_depends_str := map trim_alloc ds, p_recommends_str := map trim_alloc rs, p_suggests_str := map trim_alloc us,
      p_provides_str := if provides_lines vs = [] then [] else provides_back vs, p_replaces_str := map trim_alloc ls,
      p_conflicts_str := map trim_alloc cs\<rparr>))
      \<lparr>ps_false_provides := (provides_lines vs = [])\<rparr>) rest"
proof -
  let ?t = "map trim_alloc"
  define set_list where "set_list = (\<lambda>(upd :: (string list \<Rightarrow> string list) \<Rightarrow> pkg \<Rightarrow> pkg) ss ps. if ss = [] then ps else set_pkg ps (upd (\<lambda>_. ss)))"
  have eq: "set_list upd ss ps' = set_pkg ps' (upd (\<lambda>_. ss))"
    if "upd (\<lambda>_. get (ps_pkg ps')) (ps_pkg ps') = ps_pkg ps'" "get (ps_pkg ps') = []" for upd get ss ps'
    using unchanged[of upd get ps' "[]"] that by (auto simp: set_list_def)
  define p1 where "p1 = set_pkg ps (p_depends_str_update (\<lambda>_. ?t ds))"
  define p2 where "p2 = set_pkg p1 (p_recommends_str_update (\<lambda>_. ?t rs))"
  define p3 where "p3 = set_pkg p2 (p_suggests_str_update (\<lambda>_. ?t us))"
  define p4 where "p4 = (if provides_lines vs = [] then p3 else (set_pkg p3 (p_provides_str_update (\<lambda>_. provides_back vs)))\<lparr>ps_false_provides := False\<rparr>)"
  define p5 where "p5 = set_pkg p4 (p_replaces_str_update (\<lambda>_. ?t ls))"
  define p6 where "p6 = set_pkg p5 (p_conflicts_str_update (\<lambda>_. ?t cs))"
  note ps_defs = p1_def p2_def p3_def p4_def p5_def p6_def
  have steps: "set_list p_depends_str_update (?t ds) ps = p1" "set_list p_recommends_str_update (?t rs) p1 = p2"
    "set_list p_suggests_str_update (?t us) p2 = p3" "set_list p_replaces_str_update (?t ls) p4 = p5" "set_list p_conflicts_str_update (?t cs) p5 = p6"
    using eq[of p_depends_str_update p_depends_str ps "?t ds"] eq[of p_recommends_str_update p_recommends_str p1 "?t rs"]
      eq[of p_suggests_str_update p_suggests_str p2 "?t us"] eq[of p_replaces_str_update p_replaces_str p4 "?t ls"]
      eq[of p_conflicts_str_update p_conflicts_str p5 "?t cs"] assms(3-7) by (simp_all add: ps_defs)
  have "parse_lines ps (list_line ''Depends'' ds @ list_line ''Recommends'' rs @ list_line ''Suggests'' us @ provides_lines vs @
      list_line ''Replaces'' ls @ list_line ''Conflicts'' cs @ rest) = parse_lines p6 rest"
    using assms(1,2) steps[unfolded set_list_def] by (simp add: read_lists read_Provides p4_def[symmetric])
  moreover have "p6 = (set_pkg ps (\<lambda>q. q\<lparr>p_depends_str := ?t ds, p_recommends_str := ?t rs, p_suggests_str := ?t us,
      p_provides_str := if provides_lines vs = [] then [] else provides_back vs, p_replaces_str := ?t ls, p_conflicts_str := ?t cs\<rparr>))
      \<lparr>ps_false_provides := (provides_lines vs = [])\<rparr>"
    using assms(8,9) by (simp add: ps_defs set_pkg_def)
  ultimately show ?thesis by simp
qed

lemma read_flags:
  assumes "\<forall>s. arch = Some s \<longrightarrow> clean s" and "\<forall>f \<in> set fs. clean_conffile f"
    and "\<not> p_essential (ps_pkg ps)" and "p_architecture (ps_pkg ps) = None" and "p_installed_time (ps_pkg ps) = 0"
    and "\<not> p_auto_installed (ps_pkg ps)"
  shows "\<exists>b. parse_lines ps ((if e then [''Essential: yes''] else []) @ (case arch of None \<Rightarrow> [] | Some s \<Rightarrow> [''Architecture: '' @ s]) @
      (if fs = [] then [] else ''Conffiles:'' # map (\<lambda>(n, v). n @ '' '' @ v) fs) @
      (if t = 0 then [] else [''Installed-Time: '' @ show_nat (unat t)]) @ (if auto then [''Auto-Installed: yes''] else []) @ rest) =
    parse_lines (set_pkg (ps\<lparr>ps_conffiles := b\<rparr>) (\<lambda>q. q\<lparr>p_essential := e, p_architecture := arch, p_installed_time := t, p_auto_installed := auto\<rparr>)) rest"
proof -
  define p1 where "p1 = set_pkg ps (p_essential_update (\<lambda>_. e))"
  define p2 where "p2 = set_pkg p1 (p_architecture_update (\<lambda>_. arch))"
  have 1: "parse_lines ps ((if e then [''Essential: yes''] else []) @ ls) = parse_lines p1 ls" for ls
    using unchanged[of p_essential_update p_essential ps False] assms(3) by (cases e) (simp_all add: p1_def read_yes(1)[simplified])
  have 2: "parse_lines p1 ((case arch of None \<Rightarrow> [] | Some s \<Rightarrow> [''Architecture: '' @ s]) @ ls) = parse_lines p2 ls" for ls
    using unchanged[of p_architecture_update p_architecture p1 None] assms(1,4)
    by (cases arch) (simp_all add: p2_def p1_def read_Architecture[simplified])
  obtain b where 3: "parse_lines p2 ((if fs = [] then [] else ''Conffiles:'' # map (\<lambda>(n, v). n @ '' '' @ v) fs) @
      (if t = 0 then [] else [''Installed-Time: '' @ show_nat (unat t)]) @ (if auto then [''Auto-Installed: yes''] else []) @ rest) =
    parse_lines (p2\<lparr>ps_conffiles := b\<rparr>)
      ((if t = 0 then [] else [''Installed-Time: '' @ show_nat (unat t)]) @ (if auto then [''Auto-Installed: yes''] else []) @ rest)"
    using read_Conffiles[OF assms(2), of p2] by blast
  define p3 where "p3 = p2\<lparr>ps_conffiles := b\<rparr>"
  define p4 where "p4 = set_pkg p3 (p_installed_time_update (\<lambda>_. t))"
  have 4: "parse_lines p3 ((if t = 0 then [] else [''Installed-Time: '' @ show_nat (unat t)]) @ ls) = parse_lines p4 ls" for ls
    using unchanged[of p_installed_time_update p_installed_time p3 0] assms(5) read_Installed_Time[of t p3 ls]
    by (cases "t = 0") (simp_all add: p4_def p3_def p2_def p1_def)
  have 5: "parse_lines p4 ((if auto then [''Auto-Installed: yes''] else []) @ ls) = parse_lines (set_pkg p4 (p_auto_installed_update (\<lambda>_. auto))) ls" for ls
    using unchanged[of p_auto_installed_update p_auto_installed p4 False] assms(6)
    by (cases auto) (simp_all add: p4_def p3_def p2_def p1_def read_yes(2)[simplified])
  have "set_pkg p4 (p_auto_installed_update (\<lambda>_. auto)) =
    set_pkg (ps\<lparr>ps_conffiles := b\<rparr>) (\<lambda>q. q\<lparr>p_essential := e, p_architecture := arch, p_installed_time := t, p_auto_installed := auto\<rparr>)"
    by (simp add: p4_def p3_def p2_def p1_def set_pkg_def)
  then show ?thesis using 3 by (simp only: 1 2 p3_def[symmetric] 4 5) blast
qed

section \<open>Reading a paragraph\<close>

text \<open>
  The fields of a package that are read back. All others are as in a package that has just been made: the pre-dependencies,
  the configuration files, and what is not written to the status file at all (priority, section, maintainer, description,
  source, file name, size, MD5 sum, tags).
\<close>

definition restored :: "nat option \<Rightarrow> nat option \<Rightarrow> pkg \<Rightarrow> pkg" where
  "restored src dest p = pkg_init\<lparr>
     p_name := p_name p, p_epoch := p_epoch p, p_version := p_version p, p_revision := p_revision p, p_src := src, p_dest := dest,
     p_architecture := p_architecture p, p_state_want := p_state_want p, p_state_flag := p_state_flag p AND SF_NONVOLATILE_FLAGS,
     p_state_status := p_state_status p, p_depends_str := shortened (p_depends_str p), p_recommends_str := shortened (p_recommends_str p),
     p_suggests_str := shortened (p_suggests_str p), p_conflicts_str := shortened (p_conflicts_str p),
     p_replaces_str := shortened (p_replaces_str p), p_provides_str := provides_back (p_provides_str p),
     p_installed_time := p_installed_time p, p_essential := p_essential p, p_auto_installed := p_auto_installed p\<rparr>"

lemma status_lines_LF:
  assumes "writable p"
  shows "\<forall>l \<in> set (status_lines p). LF \<notin> set l"
proof -
  have tail: "LF \<notin> set (entries_tail ss)" if "\<forall>s \<in> set ss. short_entry s" for ss
    using that by (induction ss) (auto simp: short_entry_def)
  have cuts: "LF \<notin> set label \<longrightarrow> (\<forall>l \<in> set (list_line label ss). LF \<notin> set l)" if "\<forall>s \<in> set ss. short_entry s" for label ss
    using that tail[of "tl ss"] by (cases ss) (auto simp: short_entry_def)
  have lists: "LF \<notin> set label \<longrightarrow> (\<forall>l \<in> set (list_line label (cut ss)). LF \<notin> set l)" if "\<forall>s \<in> set ss. clean_entry s" for label ss
    using cuts[OF cut_short[OF that]] .
  have provides: "\<forall>l \<in> set (provides_lines (p_provides_str p)). LF \<notin> set l"
    using assms lists[of "tl (p_provides_str p)" "''Provides''"] by (cases "p_provides_str p") (auto simp: writable_def provides_ok_def split: if_splits)
  have digits: "LF \<notin> set (show_nat n)" for n using show_nat_isdigit[of LF n] by (auto simp: isdigit_def ord_c_def)
  have words: "word w \<Longrightarrow> LF \<notin> set w" for w by (auto simp: word_def list_all_iff isspace_def ord_c_def)
  obtain v r where v: "p_version p = Some v" "p_revision p = Some r" "plain_version (unat (p_epoch p)) v r" "LF \<notin> set v" "LF \<notin> set r"
    using assms by (auto simp: writable_def)
  have "LF \<notin> set (the (pkg_version_str_alloc p))"
    using version_str_reads[OF v(3) refl v(1,2), of pkg_init] v(4,5) by (auto simp: pkg_init_def isdigit_def ord_c_def)
  moreover have "\<forall>s \<in> set (p_depends_str p). clean_entry s" "\<forall>s \<in> set (p_recommends_str p). clean_entry s"
    "\<forall>s \<in> set (p_suggests_str p). clean_entry s" "\<forall>s \<in> set (p_replaces_str p). clean_entry s"
    "\<forall>s \<in> set (p_conflicts_str p). clean_entry s"
    using assms by (auto simp: writable_def)
  note lists[OF this(1), of "''Depends''"] lists[OF this(2), of "''Recommends''"] lists[OF this(3), of "''Suggests''"]
    lists[OF this(4), of "''Replaces''"] lists[OF this(5), of "''Conflicts''"] provides
  moreover have "LF \<notin> set (the (p_name p))" "\<forall>s. p_architecture p = Some s \<longrightarrow> LF \<notin> set s"
    "\<forall>(n, v) \<in> set (p_conffiles p). LF \<notin> set n \<and> LF \<notin> set v"
    using assms by (auto simp: writable_def clean_def clean_conffile_def)
  ultimately show ?thesis
    using words[OF want_word] words[OF flag_word] words[OF status_word] digits by (auto simp: status_lines_def split: option.splits)
qed

lemma read_status_lines:
  assumes "writable p"
  shows "pkg_parse_raw pkg_init (status_lines p @ ls) src dest = Some (0, restored src dest p, ls)"
proof -
  obtain n v r where p: "p_name p = Some n" "clean n" "p_version p = Some v" "p_revision p = Some r" "plain_version (unat (p_epoch p)) v r"
    "provides_ok (p_provides_str p)"
    using assms by (auto simp: writable_def)
  have "\<forall>s \<in> set (cut (p_depends_str p)). short_entry s" "\<forall>s \<in> set (cut (p_recommends_str p)). short_entry s"
    "\<forall>s \<in> set (cut (p_suggests_str p)). short_entry s" "\<forall>s \<in> set (cut (p_replaces_str p)). short_entry s"
    "\<forall>s \<in> set (cut (p_conflicts_str p)). short_entry s"
    by (rule cut_short, use assms in \<open>simp add: writable_def\<close>)+
  then have cuts: "\<forall>s \<in> set (cut (p_depends_str p)) \<union> set (cut (p_recommends_str p)) \<union> set (cut (p_suggests_str p)) \<union> set (cut (p_replaces_str p)) \<union>
    set (cut (p_conflicts_str p)). short_entry s" by blast
  have lists: "\<forall>s. p_architecture p = Some s \<longrightarrow> clean s" "\<forall>f \<in> set (p_conffiles p). clean_conffile f"
    using assms by (simp_all add: writable_def)
  define ps0 where "ps0 = \<lparr>ps_pkg = pkg_init\<lparr>p_src := src, p_dest := dest\<rparr>, ps_conffiles = False, ps_description = False, ps_false_provides = True\<rparr>"
  define ps1 where "ps1 = set_pkg ps0 (\<lambda>q. q\<lparr>p_name := Some n, p_epoch := p_epoch p, p_version := Some v, p_revision := Some r\<rparr>)"
  define ps2 where "ps2 = (set_pkg ps1 (\<lambda>q. q\<lparr>p_depends_str := shortened (p_depends_str p), p_recommends_str := shortened (p_recommends_str p),
      p_suggests_str := shortened (p_suggests_str p),
      p_provides_str := if provides_lines (p_provides_str p) = [] then [] else provides_back (p_provides_str p),
      p_replaces_str := shortened (p_replaces_str p), p_conflicts_str := shortened (p_conflicts_str p)\<rparr>))
      \<lparr>ps_false_provides := (provides_lines (p_provides_str p) = [])\<rparr>"
  define ps3 where "ps3 = set_pkg ps2 (\<lambda>q. q\<lparr>p_state_want := p_state_want p, p_state_flag := p_state_flag p AND SF_NONVOLATILE_FLAGS,
      p_state_status := p_state_status p\<rparr>)"
  note ps_defs = ps0_def ps1_def ps2_def ps3_def pkg_init_def
  have 1: "parse_lines ps0 ((''Package: '' @ the (p_name p)) # (''Version: '' @ the (pkg_version_str_alloc p)) # ls) = parse_lines ps1 ls" for ls
    using read_Package[OF p(2), of ps0] read_Version[OF p(5,3,4), of "set_pkg ps0 (p_name_update (\<lambda>_. Some n))" ls] p(1)
    by (simp add: ps1_def ps0_def pkg_init_def)
  note 2 = read_relations[OF cuts p(6), of ps1, folded shortened_def, folded ps2_def]
  note 3 = read_Status[of ps2 "p_state_want p" "p_state_flag p" "p_state_status p", folded ps3_def]
  obtain b where 4: "parse_lines ps3 ((if p_essential p then [''Essential: yes''] else []) @
      (case p_architecture p of None \<Rightarrow> [] | Some s \<Rightarrow> [''Architecture: '' @ s]) @
      (if p_conffiles p = [] then [] else ''Conffiles:'' # map (\<lambda>(n, v). n @ '' '' @ v) (p_conffiles p)) @
      (if p_installed_time p = 0 then [] else [''Installed-Time: '' @ show_nat (unat (p_installed_time p))]) @
      (if p_auto_installed p then [''Auto-Installed: yes''] else []) @ [] # ls) =
    parse_lines (set_pkg (ps3\<lparr>ps_conffiles := b\<rparr>) (\<lambda>q. q\<lparr>p_essential := p_essential p, p_architecture := p_architecture p,
      p_installed_time := p_installed_time p, p_auto_installed := p_auto_installed p\<rparr>)) ([] # ls)"
    using read_flags[OF lists, of ps3 "p_essential p" "p_installed_time p" "p_auto_installed p" "[] # ls"] by (auto simp: ps_defs)
  have end_line: "parse_lines ps ([] # ls) = Some (ps, ls)" for ps by (simp add: parse_line_def c_at_def Let_def line_is_blank_def)
  have split: "status_lines p @ ls = (''Package: '' @ the (p_name p)) # (''Version: '' @ the (pkg_version_str_alloc p)) #
     list_line ''Depends'' (cut (p_depends_str p)) @ list_line ''Recommends'' (cut (p_recommends_str p)) @ list_line ''Suggests'' (cut (p_suggests_str p)) @
     provides_lines (p_provides_str p) @ list_line ''Replaces'' (cut (p_replaces_str p)) @ list_line ''Conflicts'' (cut (p_conflicts_str p)) @
     (''Status: '' @ pkg_state_want_to_str (p_state_want p) @ '' '' @ pkg_state_flag_to_str (p_state_flag p) @ '' '' @
        pkg_state_status_to_str (p_state_status p)) #
     (if p_essential p then [''Essential: yes''] else []) @ (case p_architecture p of None \<Rightarrow> [] | Some s \<Rightarrow> [''Architecture: '' @ s]) @
     (if p_conffiles p = [] then [] else ''Conffiles:'' # map (\<lambda>(n, v). n @ '' '' @ v) (p_conffiles p)) @
     (if p_installed_time p = 0 then [] else [''Installed-Time: '' @ show_nat (unat (p_installed_time p))]) @
     (if p_auto_installed p then [''Auto-Installed: yes''] else []) @ [] # ls" by (simp add: status_lines_def)
  have "parse_lines ps0 (status_lines p @ ls) =
    Some (set_pkg (ps3\<lparr>ps_conffiles := b\<rparr>) (\<lambda>q. q\<lparr>p_essential := p_essential p, p_architecture := p_architecture p,
      p_installed_time := p_installed_time p, p_auto_installed := p_auto_installed p\<rparr>), ls)"
    unfolding split 1 by (subst 2) (simp_all only: 3 4 end_line, simp_all add: ps_defs)
  then show ?thesis
    using p unwritten_provides[of "p_provides_str p"] by (simp add: pkg_parse_raw_def ps0_def[symmetric]) (simp add: ps_defs set_pkg_def restored_def)
qed

text \<open>
  C7. What is written for a package in the status file is read back as one paragraph, whatever
  follows it in the file, as the package that \<open>restored\<close> gives: with its name, version, architecture, wanted and current state,
  the flags of the state that are not volatile, installation time, the marks for essential and automatically installed
  packages, and the dependencies, recommendations, suggestions, conflicts and replacements, of which an entry
  of more than 126 octets (the first of a list) or 125 (the others) comes back cut off. The names it provides come back in the
  same way, behind the internal entry; a package that provides no other name and has been written before in
  this run (which clears the internal entry) comes back as one that also provides the empty name. The pre-dependencies, the configuration files, and the fields that are
  not written to the status file are lost. For a package that can be written (\<open>writable\<close>): with a name and an architecture, if any, without white space at the ends or line
  feeds, a version of the form the parser splits in the same way (\<open>plain_version\<close>), entries that are not
  empty and have no comma, line feed, or white space at the ends, and lines for the configuration files that start with a slash and fit into 127 octets.
\<close>

theorem status_paragraph_reads_back:
  assumes "writable p"
  shows "\<exists>text q. pkg_print_status p = Some (text, q) \<and>
    (\<forall>rest src dest. pkg_parse_raw pkg_init (read_raw_pkgs_from_stream (text @ rest)) src dest =
       Some (0, restored src dest p, read_raw_pkgs_from_stream rest))"
proof -
  obtain q where q: "pkg_print_status p = Some (lines_text (status_lines p), q)" using print_status_lines[OF assms] by blast
  have "pkg_parse_raw pkg_init (read_raw_pkgs_from_stream (lines_text (status_lines p) @ rest)) src dest =
      Some (0, restored src dest p, read_raw_pkgs_from_stream rest)" for rest src dest
    using read_lines[OF status_lines_LF[OF assms]] read_status_lines[OF assms] by simp
  then show ?thesis using q by blast
qed

definition status_example :: pkg where
  "status_example = pkg_init\<lparr>p_name := Some ''vi'', p_version := Some ''1.0'', p_revision := Some ''r1'', p_architecture := Some ''arm'',
     p_depends_str := [''libc (>= 2)'', ''ncurses''], p_provides_str := [opkg_internal_use_only, ''editor''],
     p_state_want := SW_INSTALL, p_state_flag := SF_USER OR SF_FILELIST_CHANGED, p_state_status := SS_INSTALLED,
     p_conffiles := [(''/etc/virc'', ''00ff'')], p_installed_time := 1200000000, p_essential := True\<rparr>"

lemma status_paragraph_reads_back_witness:
  "\<exists>text q. pkg_print_status status_example = Some (text, q) \<and>
     pkg_parse_raw pkg_init (read_raw_pkgs_from_stream (text @ ''Package: ed'' @ [LF])) None (Some 0) =
       Some (0, restored None (Some 0) status_example, read_raw_pkgs_from_stream (''Package: ed'' @ [LF]))"
proof -
  have "writable status_example"
    by (simp add: writable_def provides_ok_def status_example_def pkg_init_def clean_def clean_entry_def clean_conffile_def plain_version_def
        opkg_internal_use_only_def isspace_def ord_c_def c_at_def)
  then show ?thesis using status_paragraph_reads_back[of status_example] by blast
qed

end
