(* ===== verification/OpkgLoad.thy ===== *)
theory OpkgLoad
  imports OpkgStatus OpkgChoose
begin

text \<open>
  Files of packages: reading one into the store (\<open>pkg_hash_add_from_file\<close>,
  \<open>pkg_get_default_arch\<close> of \<open>opkg/libopkg/pkg_hash.c\<close>), listing the store
  (\<open>pkg_hash_fetch_available\<close>, \<open>pkg_hash_fetch_all_installed\<close>) and writing the status files
  (\<open>opkg_conf_write_status_files\<close> of \<open>opkg_conf.c\<close>).
\<close>

section \<open>Reading a file\<close>

text \<open>The architecture with the highest priority above 0 that is not \<open>all\<close> or \<open>noarch\<close>; the one of the build otherwise.\<close>

fun default_arch :: "(string \<times> string) list \<Rightarrow> string \<Rightarrow> int \<Rightarrow> string" where
  "default_arch [] def_arch def_prio = def_arch"
| "default_arch ((name, value) # archs) def_arch def_prio =
     (let priority = fst (strtol 0 value) in
      if def_prio < priority \<and> name \<noteq> ''all'' \<and> name \<noteq> ''noarch'' then default_arch archs name priority
      else default_arch archs def_arch def_prio)"

definition pkg_get_default_arch :: "string \<Rightarrow> (string \<times> string) list \<Rightarrow> string" where
  "pkg_get_default_arch HOST_CPU_STR arch_list = default_arch arch_list HOST_CPU_STR 0"

text \<open>A package that was read gets a place in the store.\<close>

definition add_parsed :: "string \<Rightarrow> bool \<Rightarrow> pkg \<Rightarrow> store \<Rightarrow> store option" where
  "add_parsed arch is_status_file pkg st = do {
     pkg \<leftarrow> (if p_architecture pkg = None
       then do { _ \<leftarrow> pkg_version_str_alloc pkg; Some (pkg\<lparr>p_architecture := Some arch\<rparr>) } else Some pkg);
     (_, st) \<leftarrow> hash_insert_pkg (st\<lparr>st_pkgs := st_pkgs st @ [pkg]\<rparr>) (length (st_pkgs st)) is_status_file;
     Some st }"

lemma parse_lines_shorter: "parse_lines ps ls = Some (ps', rest) \<Longrightarrow> length rest \<le> length ls - 1"
proof (induction ls arbitrary: ps)
  case (Cons l ls)
  then show ?case
    by (auto split: Option.bind_splits if_splits prod.splits) (metis Cons.IH diff_le_self le_trans)
qed simp

lemma pkg_parse_raw_shorter: "pkg_parse_raw p ls src dest = Some (rc, p', rest) \<Longrightarrow> length rest \<le> length ls - 1"
  using parse_lines_shorter by (auto simp: pkg_parse_raw_def Let_def split: Option.bind_splits)

lemma pkg_parse_raw_less: "ls \<noteq> [] \<Longrightarrow> pkg_parse_raw p ls src dest = Some (rc, p', rest) \<Longrightarrow> length rest < length ls"
  using pkg_parse_raw_shorter[of p ls src dest rc p' rest] by (cases ls) auto

function add_paragraphs :: "string \<Rightarrow> bool \<Rightarrow> nat option \<Rightarrow> nat option \<Rightarrow> string list \<Rightarrow> store \<Rightarrow> store option" where
  "add_paragraphs arch is_status_file src dest raw st =
     (if raw = [] then Some st
      else case pkg_parse_raw pkg_init raw src dest of
          None \<Rightarrow> None
        | Some (rc, pkg, rest) \<Rightarrow> do {
            st \<leftarrow> (if rc = 0 then add_parsed arch is_status_file pkg st else Some st);
            add_paragraphs arch is_status_file src dest rest st })"
  by pat_completeness auto

termination
  by (relation "measure (\<lambda>(_, _, _, _, raw, _). length raw)") (auto intro: pkg_parse_raw_less)

declare add_paragraphs.simps [simp del]

text \<open>\<open>content\<close> is the text of the file, if it can be opened.\<close>

definition pkg_hash_add_from_file ::
  "string \<Rightarrow> (string \<times> string) list \<Rightarrow> store \<Rightarrow> string option \<Rightarrow> nat option \<Rightarrow> nat option \<Rightarrow> bool \<Rightarrow> (int \<times> store) option" where
  "pkg_hash_add_from_file HOST_CPU_STR arch_list st content src dest is_status_file =
     (case content of
        None \<Rightarrow> Some (- ENOMEM, st)
      | Some text \<Rightarrow> map_option (Pair 0) (add_paragraphs (pkg_get_default_arch HOST_CPU_STR arch_list) is_status_file src dest
          (read_raw_pkgs_from_stream text) st))"

section \<open>Listing the store\<close>

definition pkg_compare_names :: "pkg \<Rightarrow> pkg \<Rightarrow> int option" where
  "pkg_compare_names a b =
     Some (case (p_name a, p_name b) of (None, _) \<Rightarrow> 1 | (_, None) \<Rightarrow> - 1 | (Some n, Some m) \<Rightarrow> strcmp n m)"

definition pkg_hash_fetch_available_helper :: "store \<Rightarrow> nat \<Rightarrow> nat list option \<Rightarrow> nat list option" where
  "pkg_hash_fetch_available_helper st a all = do { all \<leftarrow> all; ps \<leftarrow> all_pkgs st [a]; Some (all @ ps) }"

definition pkg_hash_fetch_available :: "sorter \<Rightarrow> store \<Rightarrow> nat list option" where
  "pkg_hash_fetch_available srt st = do {
     all \<leftarrow> hash_table_foreach (st_hash st) (\<lambda>name. pkg_hash_fetch_available_helper st) (Some []);
     srt (on_pkgs st pkg_compare_names) all }"

fun installed_of :: "store \<Rightarrow> nat list \<Rightarrow> nat list option" where
  "installed_of st [] = Some []"
| "installed_of st (p # ps) = do {
     pkg \<leftarrow> pkg_at st p;
     rest \<leftarrow> installed_of st ps;
     Some (if installed pkg then p # rest else rest) }"

definition pkg_hash_fetch_all_installed_helper :: "store \<Rightarrow> nat \<Rightarrow> nat list option \<Rightarrow> nat list option" where
  "pkg_hash_fetch_all_installed_helper st a all = do {
     all \<leftarrow> all; ps \<leftarrow> all_pkgs st [a]; ps \<leftarrow> installed_of st ps; Some (all @ ps) }"

definition pkg_hash_fetch_all_installed :: "sorter \<Rightarrow> store \<Rightarrow> nat list option" where
  "pkg_hash_fetch_all_installed srt st = do {
     all \<leftarrow> hash_table_foreach (st_hash st) (\<lambda>name. pkg_hash_fetch_all_installed_helper st) (Some []);
     srt (on_pkgs st pkg_compare_names) all }"

section \<open>Writing the status files\<close>

text \<open>Packages that are not installed are not written, unless their installation is wanted; nor is one without a destination.\<close>

definition status_wanted :: "pkg \<Rightarrow> bool" where
  "status_wanted pkg \<longleftrightarrow> \<not> (p_state_status pkg = SS_NOT_INSTALLED \<and>
     (p_state_want pkg = SW_UNKNOWN \<or> p_state_want pkg = SW_DEINSTALL \<or> p_state_want pkg = SW_PURGE))"

definition write_status :: "nat \<Rightarrow> (nat \<Rightarrow> string option) \<times> store \<Rightarrow> ((nat \<Rightarrow> string option) \<times> store) option" where
  "write_status p s = do {
     let (files, st) = s;
     pkg \<leftarrow> pkg_at st p;
     if \<not> status_wanted pkg then Some s
     else (case p_dest pkg of
         None \<Rightarrow> Some s
       | Some d \<Rightarrow> (case files d of
             None \<Rightarrow> Some s
           | Some written \<Rightarrow> do {
               (text, pkg) \<leftarrow> pkg_print_status pkg;
               st \<leftarrow> pkg_update p (\<lambda>_. pkg) st;
               Some (files(d \<mapsto> written @ text), st) })) }"

text \<open>\<open>opened\<close>: the destinations whose temporary status file can be opened. The result has what is written to each.\<close>

definition opkg_conf_write_status_files :: "sorter \<Rightarrow> bool \<Rightarrow> nat list \<Rightarrow> store \<Rightarrow> ((nat \<Rightarrow> string option) \<times> store) option" where
  "opkg_conf_write_status_files srt noaction opened st =
     (if noaction then Some (\<lambda>_. None, st)
      else do {
        all \<leftarrow> pkg_hash_fetch_available srt st;
        mfold write_status all (\<lambda>d. if List.member opened d then Some [] else None, st) })"

end
