(* ===== verification/OpkgReload.thy ===== *)
theory OpkgReload
  imports OpkgLoad
begin

text \<open>
  What files of packages do to the store: reading any text that can be parsed keeps the store in
  order (\<open>pkg_hash_add_from_file\<close> of \<open>opkg/libopkg/pkg_hash.c\<close>), and reading a status file
  enters what was written to it (\<open>opkg_conf_write_status_files\<close> of \<open>opkg_conf.c\<close>).
\<close>

section \<open>What is read\<close>

definition readable :: "pkg \<Rightarrow> bool" where
  "readable pkg \<longleftrightarrow> short_strings pkg \<and> c_version pkg \<and> p_depends pkg = [] \<and> p_conflicts pkg = [] \<and> p_provides pkg = [] \<and> p_replaces pkg = []"

lemma trim_alloc_plain_src: "length w < DEPEND_BUFFER \<Longrightarrow> NUL \<notin> set w \<Longrightarrow> plain_src (trim_alloc w)"
  using trim_alloc_subset[of w] length_dropWhile_le[of isspace "rev (dropWhile isspace w)"] length_dropWhile_le[of isspace w]
  by (auto simp: plain_src_def trim_alloc_def)

lemma list_entries_plain: "list_entries raw = Some es \<Longrightarrow> NUL \<notin> set raw \<Longrightarrow> \<forall>e \<in> set es. plain_src e"
proof (induction raw arbitrary: es rule: list_entries.induct)
  case (1 raw)
  show ?case
  proof (cases "raw = []")
    case False
    define s where "s = dropWhile isspace raw"
    define w where "w = takeWhile (\<lambda>c. c \<noteq> CHR '','') s"
    have sub: "NUL \<notin> set s" "NUL \<notin> set w" using 1(3) by (auto simp: s_def w_def dest: set_takeWhileD set_dropWhileD)
    obtain rest where "\<not> 2048 \<le> length w" "list_entries (drop 1 (drop (length w) s)) = Some rest" "es = trim_alloc w # rest"
      using 1(2) False by (subst (asm) list_entries.simps) (auto simp: Let_def s_def[symmetric] w_def[symmetric] split: if_splits)
    moreover have "NUL \<notin> set (drop 1 (drop (length w) s))" using sub(1) by (auto dest: in_set_dropD)
    ultimately show ?thesis
      using 1(1)[OF False s_def w_def refl] trim_alloc_plain_src[OF _ sub(2)] by (auto simp: DEPEND_BUFFER_def)
  qed (use 1 in \<open>simp add: list_entries.simps\<close>)
qed

lemma parseDependsString_plain: "parseDependsString raw = Some es \<Longrightarrow> NUL \<notin> set raw \<Longrightarrow> \<forall>e \<in> set es. plain_src e"
  using list_entries_plain[of "dropWhile (\<lambda>c. \<not> isspace c) raw" es]
  by (auto simp: parseDependsString_def Let_def dest: set_dropWhileD split: if_splits)

lemma split_revision_subset: "split_revision v = (a, b) \<Longrightarrow> set a \<subseteq> set v \<and> set b \<subseteq> set v"
  by (auto simp: split_revision_def dest: in_set_takeD in_set_dropD split: option.splits)

lemma version_parts_readable:
  assumes "NUL \<notin> set s" and "readable pkg" and "split_revision (case p_version pkg of None \<Rightarrow> s | Some v \<Rightarrow> v) = (v, r)"
  shows "readable (pkg\<lparr>p_epoch := e, p_version := Some v, p_revision := Some r\<rparr>)"
proof -
  have "NUL \<notin> set v \<and> NUL \<notin> set r"
    using split_revision_subset[OF assms(3)] assms(1,2)
    by (cases "p_version pkg") (auto simp: readable_def c_version_def str_of_def)
  then show ?thesis using assms(2) by (simp add: readable_def c_version_def str_of_def short_strings_def)
qed

lemma parseVersion_readable:
  assumes "NUL \<notin> set raw" and "readable pkg"
  shows "readable (snd (parseVersion pkg raw))"
proof (cases "raw = []")
  case False
  define s where "s = dropWhile isspace (if take 8 raw = ''Version:'' then drop 8 raw else raw)"
  have s: "NUL \<notin> set s" using assms(1) by (auto simp: s_def dest: in_set_dropD set_dropWhileD)
  then have t: "NUL \<notin> set (drop n s)" for n by (auto dest: in_set_dropD)
  have none: "strchr s (CHR '':'') = None \<Longrightarrow> ?thesis"
    using False version_parts_readable[OF s assms(2)] unfolding parseVersion_def Let_def s_def[symmetric] by (simp split: prod.split)
  have some: "strchr s (CHR '':'') = Some colon \<Longrightarrow> ?thesis" for colon
    using False assms(2) version_parts_readable[OF t assms(2)] unfolding parseVersion_def Let_def s_def[symmetric]
    by (simp split: prod.split)
  show ?thesis using none some by (cases "strchr s (CHR '':'')") auto
qed (use assms in \<open>simp add: parseVersion_def\<close>)

lemma string_field_readable:
  assumes "string_field ps type line f = Some ps'" and "readable (ps_pkg ps)" and "\<And>v pkg. readable (f v pkg) = readable pkg"
  shows "readable (ps_pkg ps')"
  using assms by (auto simp: string_field_def split: Option.bind_splits)

lemma list_field_readable:
  assumes "list_field ps line f = Some ps'" and "readable (ps_pkg ps)" and "NUL \<notin> set line"
    and "\<And>v pkg. \<forall>s \<in> set v. plain_src s \<Longrightarrow> readable pkg \<Longrightarrow> readable (f v pkg)"
  shows "readable (ps_pkg ps')"
  using assms parseDependsString_plain[of line] by (auto simp: list_field_def split: Option.bind_splits)

lemma readable_simps [simp]:
  "readable (p_name_update f pkg) = readable pkg" "readable (p_priority_update f pkg) = readable pkg"
  "readable (p_architecture_update f pkg) = readable pkg" "readable (p_auto_installed_update h pkg) = readable pkg"
  "readable (p_filename_update f pkg) = readable pkg" "readable (p_section_update f pkg) = readable pkg"
  "readable (p_size_update f pkg) = readable pkg" "readable (p_source_update f pkg) = readable pkg"
  "readable (p_tags_update f pkg) = readable pkg" "readable (p_md5sum_update f pkg) = readable pkg"
  "readable (p_maintainer_update f pkg) = readable pkg" "readable (p_installed_size_update f pkg) = readable pkg"
  "readable (p_installed_time_update t pkg) = readable pkg" "readable (p_essential_update h pkg) = readable pkg"
  "readable (p_description_update f pkg) = readable pkg" "readable (p_conffiles_update k pkg) = readable pkg"
  "readable (p_state_want_update x pkg) = readable pkg" "readable (p_state_flag_update y pkg) = readable pkg"
  "readable (p_state_status_update z pkg) = readable pkg" "readable (p_provides_str_update g pkg) = readable pkg"
  "readable (p_replaces_str_update g pkg) = readable pkg" "readable (p_src_update d pkg) = readable pkg"
  "readable (p_dest_update d pkg) = readable pkg"
  by (simp_all add: readable_def short_strings_def c_version_def)

lemma readable_lists:
  "\<forall>s \<in> set v. plain_src s \<Longrightarrow> readable pkg \<Longrightarrow> readable (p_depends_str_update (\<lambda>_. v) pkg)"
  "\<forall>s \<in> set v. plain_src s \<Longrightarrow> readable pkg \<Longrightarrow> readable (p_pre_depends_str_update (\<lambda>_. v) pkg)"
  "\<forall>s \<in> set v. plain_src s \<Longrightarrow> readable pkg \<Longrightarrow> readable (p_recommends_str_update (\<lambda>_. v) pkg)"
  "\<forall>s \<in> set v. plain_src s \<Longrightarrow> readable pkg \<Longrightarrow> readable (p_suggests_str_update (\<lambda>_. v) pkg)"
  "\<forall>s \<in> set v. plain_src s \<Longrightarrow> readable pkg \<Longrightarrow> readable (p_conflicts_str_update (\<lambda>_. v) pkg)"
  by (auto simp: readable_def short_strings_def c_version_def)

lemma list_field_replaces:
  "list_field ps line (\<lambda>v. p_replaces_str_update (\<lambda>_. v)) = Some ps' \<Longrightarrow> readable (ps_pkg ps) \<Longrightarrow> readable (ps_pkg ps')"
  "list_field ps line (\<lambda>v. p_provides_str_update (\<lambda>_. v)) = Some ps' \<Longrightarrow> readable (ps_pkg ps) \<Longrightarrow> readable (ps_pkg ps')"
  by (auto simp: list_field_def split: Option.bind_splits)

lemma parse_letters_readable:
  assumes "readable (ps_pkg ps)" and "NUL \<notin> set line"
  shows "parse_P ps line = Some ps' \<Longrightarrow> readable (ps_pkg ps')" "parse_A ps line = Some ps' \<Longrightarrow> readable (ps_pkg ps')"
    "parse_S ps line = Some ps' \<Longrightarrow> readable (ps_pkg ps')" "parse_M ps line = Some ps' \<Longrightarrow> readable (ps_pkg ps')"
    "parse_I ps line = Some ps' \<Longrightarrow> readable (ps_pkg ps')" "parse_C ps line = Some ps' \<Longrightarrow> readable (ps_pkg ps')"
    "parse_D ps line = Some ps' \<Longrightarrow> readable (ps_pkg ps')" "parse_R ps line = Some ps' \<Longrightarrow> readable (ps_pkg ps')"
    "parse_continuation ps line = Some ps' \<Longrightarrow> readable (ps_pkg ps')"
  using assms string_field_readable[of ps "''Description''" line "\<lambda>v. p_description_update (\<lambda>_. Some v)"]
  by (auto simp: parse_P_def parse_A_def parse_S_def parse_M_def parse_I_def parse_C_def parse_D_def parse_R_def parse_continuation_def
      parseConffiles_def parseStatus_def Let_def split: if_splits prod.splits Option.bind_splits
      dest!: list_field_replaces intro: readable_lists elim: string_field_readable list_field_readable)

lemma parse_line_readable:
  assumes "parse_line ps line = Some (ps', out)" and "readable (ps_pkg ps)" and "NUL \<notin> set line"
  shows "readable (ps_pkg ps')"
  using assms(1) parse_letters_readable[OF assms(2,3), of ps'] parseVersion_readable[OF assms(3,2)] assms(2)
  by (auto simp: parse_line_def Let_def set_pkg_def split: if_splits elim: string_field_readable)

lemma parse_lines_readable:
  "parse_lines ps ls = Some (ps', rest) \<Longrightarrow> readable (ps_pkg ps) \<Longrightarrow> \<forall>l \<in> set ls. NUL \<notin> set l \<Longrightarrow>
   readable (ps_pkg ps') \<and> set rest \<subseteq> set ls"
proof (induction ls arbitrary: ps)
  case (Cons l ls)
  obtain ps1 out where 1: "parse_line ps l = Some (ps1, out)" using Cons.prems(1) by (auto split: Option.bind_splits)
  then have r: "readable (ps_pkg ps1)" using parse_line_readable Cons.prems(2,3) by auto
  show ?case
  proof (cases out)
    case False
    then show ?thesis using Cons.IH[of ps1] Cons.prems(1,3) 1 r by auto
  qed (use Cons.prems(1) 1 r in auto)
qed simp

lemma pkg_parse_raw_readable:
  assumes "pkg_parse_raw pkg_init ls src dest = Some (rc, pkg, rest)" and "\<forall>l \<in> set ls. NUL \<notin> set l"
  shows "readable pkg \<and> set rest \<subseteq> set ls \<and> (rc = 0 \<longrightarrow> p_name pkg \<noteq> None)"
proof -
  have "readable (pkg_init\<lparr>p_src := src, p_dest := dest\<rparr>)"
    by (simp add: readable_def short_strings_def c_version_def pkg_init_def str_of_def)
  then show ?thesis using assms parse_lines_readable[of _ ls]
    by (auto simp: pkg_parse_raw_def Let_def split: Option.bind_splits if_splits) fastforce+
qed

section \<open>Reading a file into the store\<close>

text \<open>The packages that the paragraphs of a file stand for, those without a name left out.\<close>

function read_paragraphs :: "nat option \<Rightarrow> nat option \<Rightarrow> string list \<Rightarrow> pkg list option" where
  "read_paragraphs src dest raw =
     (if raw = [] then Some []
      else case pkg_parse_raw pkg_init raw src dest of
          None \<Rightarrow> None
        | Some (rc, pkg, rest) \<Rightarrow> map_option (\<lambda>pkgs. if rc = 0 then pkg # pkgs else pkgs) (read_paragraphs src dest rest))"
  by pat_completeness auto

termination
  by (relation "measure (\<lambda>(_, _, raw). length raw)") (auto intro: pkg_parse_raw_less)

declare read_paragraphs.simps [simp del]

lemma read_paragraphs_Nil [simp]: "read_paragraphs src dest [] = Some []"
  by (simp add: read_paragraphs.simps)

lemma read_paragraphs_step:
  assumes "pkg_parse_raw pkg_init raw src dest = Some (rc, pkg, rest)" and "raw \<noteq> []"
  shows "read_paragraphs src dest raw = map_option (\<lambda>pkgs. if rc = 0 then pkg # pkgs else pkgs) (read_paragraphs src dest rest)"
  using assms by (subst read_paragraphs.simps) simp

lemma add_paragraphs_fold:
  "read_paragraphs src dest raw = Some pkgs \<Longrightarrow> add_paragraphs arch s src dest raw st = mfold (add_parsed arch s) pkgs st"
proof (induction src dest raw arbitrary: pkgs st rule: read_paragraphs.induct)
  case (1 src dest raw)
  show ?case
  proof (cases "raw = []")
    case False
    obtain rc pkg rest where p: "pkg_parse_raw pkg_init raw src dest = Some (rc, pkg, rest)"
      using 1(2) False by (subst (asm) read_paragraphs.simps) (auto split: option.splits)
    obtain ps where ps: "read_paragraphs src dest rest = Some ps" "pkgs = (if rc = 0 then pkg # ps else ps)"
      using 1(2) read_paragraphs_step[OF p False] by auto
    have "add_paragraphs arch s src dest rest st' = mfold (add_parsed arch s) ps st'" for st'
      using 1(1)[OF False p refl refl ps(1)] .
    then show ?thesis using p False ps(2) by (subst add_paragraphs.simps) (auto intro!: arg_cong[where f = "Option.bind _"])
  qed (use 1(2) in \<open>simp add: add_paragraphs.simps\<close>)
qed

lemma read_paragraphs_readable:
  "read_paragraphs src dest raw = Some pkgs \<Longrightarrow> \<forall>l \<in> set raw. NUL \<notin> set l \<Longrightarrow> \<forall>pkg \<in> set pkgs. readable pkg \<and> p_name pkg \<noteq> None"
proof (induction src dest raw arbitrary: pkgs rule: read_paragraphs.induct)
  case (1 src dest raw)
  show ?case
  proof (cases "raw = []")
    case False
    obtain rc pkg rest where p: "pkg_parse_raw pkg_init raw src dest = Some (rc, pkg, rest)"
      using 1(2) False by (subst (asm) read_paragraphs.simps) (auto split: option.splits)
    obtain ps where ps: "read_paragraphs src dest rest = Some ps" "pkgs = (if rc = 0 then pkg # ps else ps)"
      using 1(2) read_paragraphs_step[OF p False] by auto
    have r: "readable pkg" "set rest \<subseteq> set raw" "rc = 0 \<longrightarrow> p_name pkg \<noteq> None" using pkg_parse_raw_readable[OF p 1(3)] by auto
    then have "\<forall>pkg \<in> set ps. readable pkg \<and> p_name pkg \<noteq> None" using 1(1)[OF False p refl refl ps(1)] 1(3) by auto
    then show ?thesis using r ps(2) by auto
  qed (use 1(2) in simp)
qed

text \<open>A place for a package that was read.\<close>

lemma store_ok_append:
  assumes "store_ok st"
  shows "store_ok (st\<lparr>st_pkgs := st_pkgs st @ [pkg]\<rparr>) \<and> unused (st\<lparr>st_pkgs := st_pkgs st @ [pkg]\<rparr>) (length (st_pkgs st))"
proof -
  let ?st = "st\<lparr>st_pkgs := st_pkgs st @ [pkg]\<rparr>"
  have of: "pkgs_of ?st a = pkgs_of st a" for a by (simp add: pkgs_of_def)
  have "member_ok ?st a p" if "a < length (st_abs st)" "p \<in> set (pkgs_of st a)" for a p
  proof -
    have "member_ok st a p" using assms that by (auto simp: store_ok_def)
    then show ?thesis by (simp add: member_ok_def nth_append less_SucI)
  qed
  moreover have "links_ok ?st" using assms by (simp add: store_ok_def links_ok_def names_ok_def)
  ultimately have "store_ok ?st" using assms by (simp add: store_ok_def of)
  moreover have "length (st_pkgs st) \<notin> set (pkgs_of st a)" if "a < length (st_abs st)" for a
    using assms that by (auto simp: store_ok_def member_ok_def)
  ultimately show ?thesis by (simp add: unused_def of)
qed

text \<open>A package of the name is known.\<close>

definition known :: "store \<Rightarrow> string option \<Rightarrow> bool" where
  "known st name \<longleftrightarrow> (\<exists>n a. name = Some n \<and> hash_map (st_hash st) n = Some a \<and> pkgs_of st a \<noteq> [])"

lemma known_retained:
  assumes "known st name" and "retained st st'" and "store_ok st" and "store_ok st'"
  shows "known st' name"
proof -
  obtain n a where n: "name = Some n" "hash_map (st_hash st) n = Some a" "pkgs_of st a \<noteq> []" using assms(1) by (auto simp: known_def)
  then have "a < length (st_abs st)" "a_name (st_abs st ! a) = n" using assms(3) by (auto simp: store_ok_def links_ok_def names_ok_def)
  then have "a < length (st_abs st')" "a_name (st_abs st' ! a) = n" "pkgs_of st' a \<noteq> []" using assms(2) n(3) by (auto simp: retained_def)
  then show ?thesis using n(1) assms(4) by (auto simp: known_def store_ok_def links_ok_def names_ok_def)
qed

lemma add_parsed_ok:
  assumes "store_ok st" and "readable pkg" and "p_name pkg \<noteq> None" and "p_architecture pkg \<noteq> None \<or> p_version pkg \<noteq> None"
  shows "\<exists>st'. add_parsed arch s pkg st = Some st' \<and> store_ok st' \<and> retained st st' \<and> known st' (p_name pkg)"
proof -
  define pkg' where "pkg' = (if p_architecture pkg = None then pkg\<lparr>p_architecture := Some arch\<rparr> else pkg)"
  have ok: "parsed_ok pkg'" "p_name pkg' = p_name pkg"
    using assms(2,3) by (auto simp: pkg'_def parsed_ok_def readable_def identity_ok_def short_strings_def c_version_def)
  let ?st = "st\<lparr>st_pkgs := st_pkgs st @ [pkg']\<rparr>" and ?p = "length (st_pkgs st)"
  have "parsed_ok (st_pkgs ?st ! ?p)" using ok(1) by simp
  from hash_insert_pkg_ok[OF store_ok_append[OF assms(1), THEN conjunct1] store_ok_append[OF assms(1), THEN conjunct2] this]
  obtain q st' a where i: "hash_insert_pkg ?st ?p s = Some (q, st')" "store_ok st'"
    "hash_map (st_hash st') (the (p_name (st_pkgs ?st ! ?p))) = Some a" "q \<in> set (pkgs_of st' a)" "retained ?st st'" by blast
  have "known st' (p_name pkg)" using i(3,4) ok(2) assms(3) by (auto simp: known_def)
  moreover have "retained st st'" using i(5) by (simp add: retained_def pkgs_of_def)
  moreover have "add_parsed arch s pkg st = Some st'"
    using i(1) assms(4) by (auto simp: add_parsed_def pkg'_def pkg_version_str_alloc_def split: if_splits)
  ultimately show ?thesis using i(2) by blast
qed

lemma add_all_ok:
  assumes "\<forall>pkg \<in> set pkgs. readable pkg \<and> p_name pkg \<noteq> None \<and> (p_architecture pkg \<noteq> None \<or> p_version pkg \<noteq> None)"
  shows "store_ok st \<Longrightarrow> \<exists>st'. mfold (add_parsed arch s) pkgs st = Some st' \<and> store_ok st' \<and> retained st st' \<and> (\<forall>pkg \<in> set pkgs. known st' (p_name pkg))"
  using assms
proof (induction pkgs arbitrary: st)
  case (Cons pkg pkgs)
  obtain st1 where 1: "add_parsed arch s pkg st = Some st1" "store_ok st1" "retained st st1" "known st1 (p_name pkg)"
    using add_parsed_ok[OF Cons.prems(1), of pkg arch s] Cons.prems(2) by (meson list.set_intros(1))
  obtain st2 where 2: "mfold (add_parsed arch s) pkgs st1 = Some st2" "store_ok st2" "retained st1 st2" "\<forall>pkg \<in> set pkgs. known st2 (p_name pkg)"
    using Cons.IH[OF 1(2)] Cons.prems(2) by auto
  then show ?case using 1 known_retained[OF 1(4) 2(3) 1(2) 2(2)] retained_trans[OF 1(3) 2(3)] by auto
qed simp

lemma read_raw_chars: "l \<in> set (read_raw_pkgs_from_stream s) \<Longrightarrow> set l \<subseteq> set s"
proof (induction s rule: read_raw_pkgs_from_stream.induct)
  case (2 c cs)
  define w where "w = takeWhile (\<lambda>c. c \<noteq> LF) (c # cs)"
  have "l = w \<or> l \<in> set (read_raw_pkgs_from_stream (drop (length w + 1) (c # cs)))"
    using 2(2) by (simp add: Let_def w_def del: takeWhile.simps)
  then show ?case
  proof
    assume "l \<in> set (read_raw_pkgs_from_stream (drop (length w + 1) (c # cs)))"
    then have "set l \<subseteq> set (drop (length w + 1) (c # cs))" using 2(1)[OF w_def] by blast
    then show ?thesis using set_drop_subset[of "length w + 1" "c # cs"] by blast
  next
    assume "l = w"
    then show ?thesis unfolding w_def by (blast dest: set_takeWhileD)
  qed
qed simp

section \<open>Listing the store\<close>

lemma fetch_fold:
  "\<forall>(k, a) \<in> set visits. a < length (st_abs st) \<Longrightarrow>
   fold (\<lambda>(k, a). pkg_hash_fetch_available_helper st a) visits (Some acc) = Some (acc @ concat (map (pkgs_of st) (map snd visits)))"
proof (induction visits arbitrary: acc)
  case (Cons v visits)
  then show ?case
    by (auto simp: pkg_hash_fetch_available_helper_def abs_at_ok pkgs_of_def split: prod.splits)
qed simp

lemma distinct_members:
  assumes "store_ok st"
  shows "distinct as \<Longrightarrow> \<forall>a \<in> set as. a < length (st_abs st) \<Longrightarrow> distinct (concat (map (pkgs_of st) as))"
proof (induction as)
  case (Cons a as)
  have "p \<notin> set (pkgs_of st b)" if "p \<in> set (pkgs_of st a)" "b \<in> set as" for p b
  proof
    assume "p \<in> set (pkgs_of st b)"
    then have "member_ok st b p" "member_ok st a p" using assms that Cons.prems by (auto simp: store_ok_def)
    then have "a = b" by (simp add: member_ok_def)
    then show False using that(2) Cons.prems(1) by simp
  qed
  then show ?case using Cons assms by (auto simp: store_ok_def)
qed simp

lemma fetch_available_ok:
  assumes "store_ok st" and "sorts srt"
  shows "\<exists>all. pkg_hash_fetch_available srt st = Some all \<and> distinct all \<and> set all = {p. in_store st p}"
proof -
  define visits where "visits = hash_visits (st_hash st)"
  have h: "hash_ok (st_hash st)" "\<And>n a. hash_map (st_hash st) n = Some a \<longleftrightarrow> a < length (st_abs st) \<and> a_name (st_abs st ! a) = n"
    using assms by (simp_all add: store_ok_def links_ok_def names_ok_def)
  have v: "distinct (map fst visits)" "map_of visits = hash_map (st_hash st)" using hash_visits_once[OF h(1)] by (simp_all add: visits_def)
  have mem: "(k, a) \<in> set visits \<longleftrightarrow> a < length (st_abs st) \<and> a_name (st_abs st ! a) = k" for k a
    using map_of_eq_Some_iff[OF v(1)] v(2) h(2) by simp
  have "distinct (map snd visits)" using v(1) mem by (auto simp: distinct_map inj_on_def)
  then have d: "distinct (concat (map (pkgs_of st) (map snd visits)))" using mem by (intro distinct_members[OF assms(1)]) auto
  have s: "set (concat (map (pkgs_of st) (map snd visits))) = {p. in_store st p}"
  proof (rule set_eqI)
    fix p
    have "p \<in> set (concat (map (pkgs_of st) (map snd visits))) \<longleftrightarrow> (\<exists>k a. (k, a) \<in> set visits \<and> p \<in> set (pkgs_of st a))" by force
    then show "p \<in> set (concat (map (pkgs_of st) (map snd visits))) \<longleftrightarrow> p \<in> {p. in_store st p}" by (simp add: mem in_store_def)
  qed
  have "preorder_cmp (on_pkgs st pkg_compare_names) {p. in_store st p}"
    using in_store_name[OF assms(1)] by (intro names_preorder) (auto simp: pkg_compare_names_def)
  from sorts_on[OF assms(2) this, of "concat (map (pkgs_of st) (map snd visits))"] s obtain all where
    all: "srt (on_pkgs st pkg_compare_names) (concat (map (pkgs_of st) (map snd visits))) = Some all"
      "mset all = mset (concat (map (pkgs_of st) (map snd visits)))" by auto
  have "distinct all" "set all = {p. in_store st p}" using d s mset_eq_imp_distinct_iff[OF all(2)] mset_eq_setD[OF all(2)] by auto
  moreover have "hash_table_foreach (st_hash st) (\<lambda>name. pkg_hash_fetch_available_helper st) (Some []) =
      Some (concat (map (pkgs_of st) (map snd visits)))"
  proof -
    have "\<forall>(k, a) \<in> set visits. a < length (st_abs st)" using mem by auto
    then show ?thesis using fetch_fold[of visits st "[]"] by (simp add: hash_table_foreach_fold visits_def[symmetric] case_prod_beta')
  qed
  ultimately show ?thesis using all(1) by (simp add: pkg_hash_fetch_available_def)
qed

section \<open>What the status files say\<close>

definition written_to :: "nat \<Rightarrow> pkg \<Rightarrow> bool" where
  "written_to d pkg \<longleftrightarrow> status_wanted pkg \<and> p_dest pkg = Some d"

lemma write_status_fold:
  "distinct ps \<Longrightarrow> \<forall>p \<in> set ps. pkg_at st p = Some (P p) \<and> (status_wanted (P p) \<longrightarrow> writable (P p)) \<Longrightarrow>
   \<exists>files' st'. mfold write_status ps (files, st) = Some (files', st') \<and>
     (\<forall>d. files' d = map_option (\<lambda>w. w @ lines_text (concat (map status_lines (filter (written_to d) (map P ps))))) (files d))"
proof (induction ps arbitrary: files st)
  case Nil
  then show ?case by (simp add: option.map_ident)
next
  case (Cons p ps)
  have p: "pkg_at st p = Some (P p)" "status_wanted (P p) \<longrightarrow> writable (P p)" using Cons.prems(2) by auto
  show ?case
  proof (cases "\<exists>d w. written_to d (P p) \<and> files d = Some w")
    case True
    then obtain d w where d: "written_to d (P p)" "files d = Some w" by blast
    then obtain q where q: "pkg_print_status (P p) = Some (lines_text (status_lines (P p)), q)"
      using print_status_lines p(2) by (auto simp: written_to_def)
    define st1 where "st1 = st\<lparr>st_pkgs := (st_pkgs st)[p := q]\<rparr>"
    define files1 where "files1 = files(d \<mapsto> w @ lines_text (status_lines (P p)))"
    have 1: "write_status p (files, st) = Some (files1, st1)"
      using d p(1) q by (auto simp: write_status_def written_to_def files1_def st1_def pkg_update_def pkg_at_def split: if_splits)
    have "\<forall>r \<in> set ps. pkg_at st1 r = Some (P r) \<and> (status_wanted (P r) \<longrightarrow> writable (P r))"
      using Cons.prems by (auto simp: st1_def pkg_at_def nth_list_update split: if_splits)
    with Cons.IH[of st1 files1] Cons.prems(1) obtain files' st' where 2: "mfold write_status ps (files1, st1) = Some (files', st')"
      "\<forall>d. files' d = map_option (\<lambda>w. w @ lines_text (concat (map status_lines (filter (written_to d) (map P ps))))) (files1 d)" by auto
    moreover have "written_to e (P p) \<longleftrightarrow> e = d" for e using d(1) by (auto simp: written_to_def)
    ultimately show ?thesis using 1 d(2) by (auto simp: files1_def)
  next
    case False
    then have 1: "write_status p (files, st) = Some (files, st)"
      using p(1) by (auto simp: write_status_def written_to_def split: option.splits)
    obtain files' st' where 2: "mfold write_status ps (files, st) = Some (files', st')"
      "\<forall>d. files' d = map_option (\<lambda>w. w @ lines_text (concat (map status_lines (filter (written_to d) (map P ps))))) (files d)"
      using Cons.IH[of st files] Cons.prems by auto
    have "map_option f (files d) = map_option g (files d)" if "\<not> written_to d (P p) \<longrightarrow> f = g" for d and f g :: "string \<Rightarrow> string"
      using False that by (cases "files d") auto
    then show ?thesis using 1 2 by (intro exI[of _ files'] exI[of _ st']) (auto intro!: ext)
  qed
qed

lemma read_paragraphs_status:
  "\<forall>pkg \<in> set ps. writable pkg \<Longrightarrow> read_paragraphs src dest (concat (map status_lines ps)) = Some (map (restored src dest) ps)"
proof (induction ps)
  case (Cons pkg ps)
  have "status_lines pkg \<noteq> []" by (simp add: status_lines_def)
  then show ?case using Cons read_paragraphs_step[OF read_status_lines, of pkg "concat (map status_lines ps)" src dest] by auto
qed simp

lemma shortened_plain_src:
  assumes "\<forall>s \<in> set ss. plain_src s"
  shows "\<forall>s \<in> set (shortened ss). plain_src s"
proof -
  have "plain_src (trim_alloc (take n s))" if "s \<in> set ss" "n < 2048" for n s
    using assms that by (intro trim_alloc_plain_src) (auto simp: plain_src_def DEPEND_BUFFER_def dest: in_set_takeD)
  then show ?thesis by (cases ss) (auto simp: shortened_def)
qed

lemma restored_readable:
  assumes "store_ok st" and "in_store st p"
  shows "readable (restored src dest (st_pkgs st ! p)) \<and> p_name (restored src dest (st_pkgs st ! p)) = p_name (st_pkgs st ! p) \<and>
    p_name (st_pkgs st ! p) \<noteq> None"
proof -
  obtain a where "member_ok st a p" using in_store_member[OF assms] by blast
  then show ?thesis
    using shortened_plain_src
    by (auto simp: member_ok_def identity_ok_def readable_def restored_def short_strings_def c_version_def pkg_init_def)
qed

lemma status_lines_read_back:
  assumes "\<forall>pkg \<in> set ps. writable pkg"
  shows "read_paragraphs src dest (read_raw_pkgs_from_stream (lines_text (concat (map status_lines ps)))) = Some (map (restored src dest) ps)"
  using read_lines[of "concat (map status_lines ps)" "[]"] status_lines_LF assms read_paragraphs_status[OF assms] by fastforce

lemma status_lines_load:
  assumes "store_ok st" and "store_ok st0" and "\<forall>pkg \<in> set ps. writable pkg \<and> (\<exists>p. in_store st p \<and> pkg = st_pkgs st ! p)"
  shows "\<exists>st1. pkg_hash_add_from_file cpu archs st0 (Some (lines_text (concat (map status_lines ps)))) src dest True = Some (0, st1) \<and>
    store_ok st1 \<and> retained st0 st1 \<and> (\<forall>pkg \<in> set ps. known st1 (p_name pkg))"
proof -
  have "\<forall>pkg \<in> set (map (restored src dest) ps). readable pkg \<and> p_name pkg \<noteq> None \<and> (p_architecture pkg \<noteq> None \<or> p_version pkg \<noteq> None)"
  proof
    fix pkg
    assume "pkg \<in> set (map (restored src dest) ps)"
    then obtain p where p: "in_store st p" "pkg = restored src dest (st_pkgs st ! p)" "writable (st_pkgs st ! p)" using assms(3) by auto
    then have "p_version pkg \<noteq> None" by (auto simp: writable_def restored_def)
    then show "readable pkg \<and> p_name pkg \<noteq> None \<and> (p_architecture pkg \<noteq> None \<or> p_version pkg \<noteq> None)"
      using restored_readable[OF assms(1) p(1)] p(2) by simp
  qed
  note all = add_all_ok[OF this assms(2), of "pkg_get_default_arch cpu archs" True]
  have "p_name (restored src dest pkg) = p_name pkg" for pkg by (simp add: restored_def)
  then show ?thesis
    using all assms(3) by (auto simp: pkg_hash_add_from_file_def add_paragraphs_fold[OF status_lines_read_back])
qed

section \<open>Properties\<close>

text \<open>
  C27. Reading a file of packages that can be parsed, each paragraph with a name having an
  architecture or a version, returns 0 and keeps the store in order; no name of the store is lost, none that
  had packages loses them all, and afterwards a package is known for every name that the file has.
\<close>

theorem file_keeps_store:
  assumes "store_ok st" and "NUL \<notin> set content"
    and "read_paragraphs src dest (read_raw_pkgs_from_stream content) = Some pkgs"
    and "\<forall>pkg \<in> set pkgs. p_architecture pkg \<noteq> None \<or> p_version pkg \<noteq> None"
  shows "\<exists>st'. pkg_hash_add_from_file cpu archs st (Some content) src dest is_status = Some (0, st') \<and> store_ok st' \<and>
    retained st st' \<and> (\<forall>pkg \<in> set pkgs. known st' (p_name pkg))"
proof -
  have "\<forall>l \<in> set (read_raw_pkgs_from_stream content). NUL \<notin> set l" using read_raw_chars assms(2) by blast
  then have "\<forall>pkg \<in> set pkgs. readable pkg \<and> p_name pkg \<noteq> None \<and> (p_architecture pkg \<noteq> None \<or> p_version pkg \<noteq> None)"
    using read_paragraphs_readable[OF assms(3)] assms(4) by blast
  from add_all_ok[OF this assms(1)] show ?thesis
    by (auto simp: pkg_hash_add_from_file_def add_paragraphs_fold[OF assms(3)])
qed

definition file_example :: string where
  "file_example = lines_text [''Package: vi'', ''Version: 1.0-r1'', ''Depends: libc (>= 2)'', [], ''Package: ed'', ''Architecture: arm'']"

lemma file_keeps_store_witness:
  "\<exists>st'. pkg_hash_add_from_file ''arm'' [] (example_store pkg_init) (Some file_example) None (Some 0) False = Some (0, st') \<and>
    store_ok st' \<and> known st' (Some ''vi'') \<and> known st' (Some ''ed'')"
proof -
  have n: "NUL \<notin> set file_example" by (simp add: file_example_def)
  have r: "map_option (map (\<lambda>p. (p_name p, p_version p = None, p_architecture p = None))) (read_paragraphs None (Some 0) (read_raw_pkgs_from_stream file_example)) =
      Some [(Some ''vi'', False, True), (Some ''ed'', True, False)]" by code_simp
  then obtain a b where "read_paragraphs None (Some 0) (read_raw_pkgs_from_stream file_example) = Some [a, b]"
    "p_name a = Some ''vi''" "p_version a \<noteq> None" "p_name b = Some ''ed''" "p_architecture b \<noteq> None" by auto
  then show ?thesis
    using file_keeps_store[OF example_store_ok[of pkg_init, THEN conjunct1] n, where src = None and dest = "Some 0" and pkgs = "[a, b]" and
        is_status = False and cpu = "''arm''" and archs = "[]"] by auto
qed

text \<open>
  C6. The status files lose no package: on a store in order, with a \<open>qsort\<close> that sorts, all packages are visited, each once; what
  is written to the file of a destination, if it can be opened, reads back as exactly the packages of that destination that are
  to be recorded, in the order of the visit, each with the fields that \<open>restored\<close> gives (the name,
  version, architecture, state without its volatile flags, time, marks and relations, entries of relations being cut
  off at 126 and 125 octets; not the pre-dependencies, configuration files and the fields that are not written); and reading it into any store in
  order makes all their names known there. The packages that are to be recorded can be written (\<open>writable\<close>: clean names, architectures and
  entries, plain versions, short lines for configuration files; they may have been written before).
\<close>

theorem status_files_read_back:
  assumes "store_ok st" and "\<forall>p. in_store st p \<longrightarrow> status_wanted (st_pkgs st ! p) \<longrightarrow> writable (st_pkgs st ! p)" and "sorts srt"
  shows "\<exists>all files st'. pkg_hash_fetch_available srt st = Some all \<and> distinct all \<and> set all = {p. in_store st p} \<and>
    opkg_conf_write_status_files srt False opened st = Some (files, st') \<and>
    (\<forall>d \<in> set opened. \<exists>content. files d = Some content \<and>
      (\<forall>src. read_paragraphs src (Some d) (read_raw_pkgs_from_stream content) =
        Some (map (restored src (Some d)) (filter (written_to d) (map (\<lambda>p. st_pkgs st ! p) all)))) \<and>
      (\<forall>cpu archs st0 src. store_ok st0 \<longrightarrow>
        (\<exists>st1. pkg_hash_add_from_file cpu archs st0 (Some content) src (Some d) True = Some (0, st1) \<and> store_ok st1 \<and> retained st0 st1 \<and>
          (\<forall>p. in_store st p \<and> written_to d (st_pkgs st ! p) \<longrightarrow> known st1 (p_name (st_pkgs st ! p))))))"
proof -
  obtain all where all: "pkg_hash_fetch_available srt st = Some all" "distinct all" "set all = {p. in_store st p}"
    using fetch_available_ok[OF assms(1,3)] by blast
  have "\<forall>p \<in> set all. pkg_at st p = Some (st_pkgs st ! p) \<and> (status_wanted (st_pkgs st ! p) \<longrightarrow> writable (st_pkgs st ! p))"
    using assms(2) all(3) in_store_at[OF assms(1)] by blast
  from write_status_fold[OF all(2) this, of "\<lambda>d. if List.member opened d then Some [] else None"] obtain files st' where
    w: "mfold write_status all (\<lambda>d. if List.member opened d then Some [] else None, st) = Some (files, st')"
    "\<And>d. d \<in> set opened \<Longrightarrow> files d = Some (lines_text (concat (map status_lines (filter (written_to d) (map (\<lambda>p. st_pkgs st ! p) all)))))"
    by auto
  define ps where "ps d = filter (written_to d) (map (\<lambda>p. st_pkgs st ! p) all)" for d
  have ps: "pkg \<in> set (ps d) \<longleftrightarrow> (\<exists>p. in_store st p \<and> pkg = st_pkgs st ! p \<and> written_to d pkg)" for d pkg
    using all(3) by (auto simp: ps_def)
  have wr: "\<forall>pkg \<in> set (ps d). writable pkg" for d using ps assms(2) by (auto simp: written_to_def)
  have load: "\<exists>st1. pkg_hash_add_from_file cpu archs st0 (Some (lines_text (concat (map status_lines (ps d))))) src (Some d) True = Some (0, st1) \<and>
      store_ok st1 \<and> retained st0 st1 \<and> (\<forall>p. in_store st p \<and> written_to d (st_pkgs st ! p) \<longrightarrow> known st1 (p_name (st_pkgs st ! p)))"
    if "store_ok st0" for cpu archs st0 src d
    using status_lines_load[OF assms(1) that, of "ps d" cpu archs src "Some d"] ps wr by blast
  have "opkg_conf_write_status_files srt False opened st = Some (files, st')" using all(1) w(1) by (simp add: opkg_conf_write_status_files_def)
  moreover have "\<exists>content. files d = Some content \<and>
      (\<forall>src. read_paragraphs src (Some d) (read_raw_pkgs_from_stream content) = Some (map (restored src (Some d)) (ps d))) \<and>
      (\<forall>cpu archs st0 src. store_ok st0 \<longrightarrow>
        (\<exists>st1. pkg_hash_add_from_file cpu archs st0 (Some content) src (Some d) True = Some (0, st1) \<and> store_ok st1 \<and> retained st0 st1 \<and>
          (\<forall>p. in_store st p \<and> written_to d (st_pkgs st ! p) \<longrightarrow> known st1 (p_name (st_pkgs st ! p)))))" if "d \<in> set opened" for d
    using w(2)[OF that, folded ps_def] status_lines_read_back[OF wr] load by blast
  ultimately show ?thesis using all unfolding ps_def by blast
qed

text \<open>Two versions of a package, both installed in the first destination.\<close>

definition recorded :: store where
  "recorded = two_versions\<lparr>st_pkgs := map (\<lambda>pkg. pkg\<lparr>p_state_want := SW_INSTALL, p_state_status := SS_INSTALLED, p_dest := Some 0,
     p_revision := Some ''r0'', p_provides_str := [opkg_internal_use_only]\<rparr>) (st_pkgs two_versions)\<rparr>"

lemma recorded_ok: "store_ok recorded"
proof -
  have "links_ok recorded" using two_versions_ok by (simp add: store_ok_def links_ok_def names_ok_def recorded_def)
  moreover have "member_ok recorded 0 p" if "p \<in> {0, 1}" for p
    using that by (auto simp: member_ok_def recorded_def two_versions_def vi_def pkg_init_def identity_ok_def c_version_def str_of_def
      short_strings_def refs_ok_def deps_ok_def abstract_pkg_new_def)
  ultimately show ?thesis by (auto simp: store_ok_def recorded_def two_versions_def pkgs_of_def abstract_pkg_new_def)
qed

lemma status_files_read_back_witness:
  "\<exists>files st' content st1. opkg_conf_write_status_files insertion_sort False [0] recorded = Some (files, st') \<and> files 0 = Some content \<and>
    pkg_hash_add_from_file ''arm'' [] (example_store pkg_init) (Some content) None (Some 0) True = Some (0, st1) \<and> known st1 (Some ''vi'')"
proof -
  have p: "in_store recorded p \<longleftrightarrow> p \<in> {0, 1}" for p
    by (auto simp: in_store_def recorded_def two_versions_def pkgs_of_def abstract_pkg_new_def)
  have "writable (st_pkgs recorded ! 0)" "writable (st_pkgs recorded ! 1)"
    by (simp_all add: recorded_def two_versions_def vi_def pkg_init_def writable_def provides_ok_def clean_def clean_entry_def plain_version_def
      opkg_internal_use_only_def isspace_def ord_c_def c_at_def)
  then have w: "\<forall>p. in_store recorded p \<longrightarrow> status_wanted (st_pkgs recorded ! p) \<longrightarrow> writable (st_pkgs recorded ! p)" using p by auto
  have n: "p_name (st_pkgs recorded ! 0) = Some ''vi''" "written_to 0 (st_pkgs recorded ! 0)"
    by (simp_all add: recorded_def two_versions_def vi_def pkg_init_def written_to_def status_wanted_def)
  obtain all files st' where a: "opkg_conf_write_status_files insertion_sort False [0] recorded = Some (files, st')"
    "\<forall>d \<in> set [0]. \<exists>content. files d = Some content \<and>
      (\<forall>src. read_paragraphs src (Some d) (read_raw_pkgs_from_stream content) =
        Some (map (restored src (Some d)) (filter (written_to d) (map (\<lambda>p. st_pkgs recorded ! p) all)))) \<and>
      (\<forall>cpu archs st0 src. store_ok st0 \<longrightarrow>
        (\<exists>st1. pkg_hash_add_from_file cpu archs st0 (Some content) src (Some d) True = Some (0, st1) \<and> store_ok st1 \<and> retained st0 st1 \<and>
          (\<forall>p. in_store recorded p \<and> written_to d (st_pkgs recorded ! p) \<longrightarrow> known st1 (p_name (st_pkgs recorded ! p)))))"
    using status_files_read_back[OF recorded_ok w insertion_sort_sorts, of "[0]"] by (elim exE conjE) (rule that)
  obtain content where c: "files 0 = Some content" "\<And>cpu archs st0 src. store_ok st0 \<Longrightarrow>
      \<exists>st1. pkg_hash_add_from_file cpu archs st0 (Some content) src (Some 0) True = Some (0, st1) \<and> store_ok st1 \<and> retained st0 st1 \<and>
        (\<forall>p. in_store recorded p \<and> written_to 0 (st_pkgs recorded ! p) \<longrightarrow> known st1 (p_name (st_pkgs recorded ! p)))"
    using bspec[OF a(2), of 0] by (simp only: list.set insert_iff simp_thms) blast
  obtain st1 where 1: "pkg_hash_add_from_file ''arm'' [] (example_store pkg_init) (Some content) None (Some 0) True = Some (0, st1)"
    "\<And>p. in_store recorded p \<Longrightarrow> written_to 0 (st_pkgs recorded ! p) \<Longrightarrow> known st1 (p_name (st_pkgs recorded ! p))"
    using c(2)[OF example_store_ok[of pkg_init, THEN conjunct1], of "''arm''" "[]" None] by blast
  have "known st1 (Some ''vi'')" using 1(2)[of 0] p[of 0] n by simp
  then show ?thesis using a(1) c(1) 1(1) by blast
qed

end
