(* ===== verification/Spec2Isabelle.thy ===== *)
theory Spec2Isabelle
  imports Notify Expiry ApiSms Bounds ClientLoop OpkgSolve OpkgReload
begin

text \<open>
  Verification library for the C programs of the phone: the GSM daemon gsmd
  (\<open>src/src/target/gsm/src/gsmd\<close>), its client library libgsmd
  (\<open>src/src/target/gsm/src/libgsmd\<close>) and the library of the package manager opkg
  (\<open>src/src/target/opkg/libopkg\<close>).

  \<^bold>\<open>The parts and how they interact.\<close>  gsmd talks AT commands to the modem over a serial line and
  serves clients on a local socket.  Octets from the modem go through a line parser (\<open>llparse\<close>) to
  \<open>ml_parse\<close>, which takes a line for an echo, an unsolicited result code, a line of a response or the
  end of one; an unsolicited code becomes an event message to the clients that subscribed to it, a
  response goes to the callback of the command in flight, which becomes a message to the client that
  asked.  A request of a client is turned into an AT command with a callback and put into the queue
  to the modem.  Timers give up commands that are not answered.  A program links libgsmd, whose
  functions build request packets and take messages of the daemon apart.  opkg is a program of its
  own: it reads package lists and the status file into a hash table of names, links packages by
  their dependencies, chooses candidates and what else has to be installed, and writes the status
  files.

  \<^bold>\<open>How the code is modelled.\<close>  Structs are records with the fields of the code, enumerations and
  unions datatypes; machine integers are words of their width or integers with the wrap-around
  written out; a string is the list of characters in front of its terminator, a buffer the array
  with its bounds.  A list of the kernel's \<open>llist\<close> kind is a HOL list; objects that are shared are
  named by an address, the store of packages by the position in an array.  An expression that C
  leaves undefined (an access outside an object, a null pointer) is \<^const>\<open>None\<close>, so that a theorem
  that states \<^const>\<open>Some\<close> states the absence of such faults; error codes are results as in the code.
  System calls, the clock and the success of an allocation are arguments; so is \<open>qsort\<close>, with what the C
  standard says of it as the hypothesis \<open>sorts\<close>, and what only some C libraries do (leaving an array that is in
  order as it is) as \<open>keeps_order\<close>, both satisfied by the insertion sort that the examples use.

  \<^bold>\<open>Theories.\<close>
  \<^item> \<open>Prelude\<close>, \<open>CLib\<close>, \<open>Scanf\<close>, \<open>Strl\<close>: machine types, strings, the functions of the C library
    that are used, \<open>strl.c\<close>.
  \<^item> \<open>Llparse\<close>: the line parser (\<open>llparse_byte\<close>, \<open>llparse_string\<close> of \<open>atcmd.c\<close>) with the locale
    \<open>line_sink\<close> of what takes its lines.  Shown: it delivers exactly the lines that were sent, stays
    within its buffer, and what it does with an overlong line.
  \<^item> \<open>Extrsp\<close> (\<open>ext_response.c\<close>), \<open>SmsPdu\<close> (\<open>sms_pdu.c\<close>), \<open>OpCache\<close> (\<open>operator_cache.c\<close>, locale
    \<open>name_store\<close>), \<open>Timer\<close> (\<open>timer.c\<close>, locale \<open>timer_client\<close>): self-contained components with round
    trips, memory safety, and a refinement of a finite map.
  \<^item> \<open>Gsmd\<close>: the state of the daemon (\<open>gsmd.h\<close>, \<open>usock.h\<close>).  \<open>Atcmd\<close>: filling, submitting, writing,
    ending and cancelling commands (\<open>atcmd.c\<close>), the well-formedness \<open>at_wf\<close> of the queues, the
    reachable states, and the locale \<open>atcmd_client\<close> of the callbacks.
  \<^item> \<open>Events\<close>, \<open>Unsolicited\<close>, \<open>UsockCb\<close>, \<open>SmsCb\<close>, \<open>Daemon\<close>: messages to clients, the parsers of
    unsolicited codes (\<open>unsolicited.c\<close> and the vendor plugins), the callbacks of client commands
    (\<open>usock.c\<close>, \<open>sms_cb.c\<close>), the daemon's own commands (\<open>gsmd.c\<close>) and the dispatch of callbacks.
  \<^item> \<open>MlParse\<close>: \<open>ml_parse\<close> and the read half of the device callback.  \<open>UnsolFrame\<close>, \<open>DaemonInv\<close>: what
    these leave alone, and the invariant \<open>daemon_inv\<close>.  \<open>Stream\<close>: a conversation, octet by octet, is
    what its lines are; the answer of a pass-through request.what its lines are; the answer of a pass-through request.  \<open>Notify\<close>: which parser a code goes to,
    and what each client gets of an event (\<open>notified\<close>, said client by client, without the loop).
  \<^item> \<open>Usock\<close>: every request of a client, joining and leaving (\<open>usock.c\<close>).  \<open>UsockInv\<close>, \<open>Total\<close>,
    \<open>Leave\<close>: requests keep the invariant, callbacks return, a client that leaves takes its commands
    with it.  \<open>Expiry\<close>: timers and signals; a command that is not answered is given up and the next
    one is sent.  \<open>Bounds\<close>: exactly which requests overrun a buffer of the daemon.
  \<^item> \<open>SmsPack\<close>, \<open>Lgsm\<close>, \<open>LgsmReq\<close>: the client library.  \<open>Api\<close>: its requests as values, and that every
    packet is well-formed.  \<open>ApiQueue\<close>, \<open>ApiSms\<close>: client and daemon together: the command that a call
    stands for arrives in the queue, and a text arrives in the PDU.  \<open>ClientLoop\<close>: taking received
    octets apart, and what the result of a request says about \<open>send\<close>.
  \<^item> \<open>Opkg\<close>: packages and the words for their states (\<open>pkg.h\<close>, \<open>pkg.c\<close>).  \<open>OpkgVersion\<close>: versions
    (\<open>verrevcmp\<close>, \<open>pkg_compare_versions\<close>, \<open>parseVersion\<close>, \<open>version_constraints_satisfied\<close>) with the
    locale \<open>comparator\<close> of orders given by a sign.  \<open>OpkgHash\<close>: \<open>hash_table.c\<close>, a refinement of a
    finite map, with the locale \<open>name_dict\<close> that extends \<open>name_store\<close>.
  \<^item> \<open>OpkgStore\<close>: entering a package with its names, dependencies, conflicts, provides and replaces
    (\<open>pkg_hash.c\<close>, \<open>pkg_vec.c\<close>, \<open>pkg_depends.c\<close>, \<open>pkg_merge\<close>) and the queries.  \<open>OpkgStoreInv\<close>: the
    invariant \<open>store_ok\<close> (the table has exactly the names, every link points to something, every
    package in a vector has its name and points back) and that entering a package keeps it.
    \<open>OpkgDepends\<close>: what a dependency is read as, and who is noted to depend on whom.
  \<^item> \<open>OpkgParse\<close>, \<open>OpkgPrint\<close>: reading a paragraph of a package list or status file
    (\<open>pkg_parse.c\<close>, \<open>opkg_utils.c\<close>) and writing one (\<open>pkg_formatted_field\<close>, \<open>pkg_print_status\<close> of
    \<open>pkg.c\<close>).  \<open>OpkgStatus\<close>: what is written to the status file is read back.  \<open>OpkgLoad\<close>: files of
    packages, into the store and out of it (\<open>pkg_hash_add_from_file\<close>,
    \<open>opkg_conf_write_status_files\<close>).  \<open>OpkgReload\<close>: reading a file keeps the invariant of the store,
    and the status files give back every package that was to be recorded, with the fields of \<open>restored\<close>.
  \<^item> \<open>OpkgChoose\<close>: the best candidate for a name, satisfied dependencies, conflicts (\<open>pkg_hash.c\<close>,
    \<open>pkg_depends.c\<close>); which packages are \<open>eligible\<close> for a name is said without the loops of the code.  \<open>OpkgSolve\<close>: \<open>pkg_hash_fetch_unsatisfied_dependencies\<close>, which returns on
    every store and covers every dependency when it reports nothing as lost.

  \<^bold>\<open>Bounds and fuel.\<close>  The recursion of \<open>pkg_hash_fetch_unsatisfied_dependencies\<close> has a depth as its
  first argument; it visits every abstract package at most once, so one more than the number of
  abstract packages that are not marked is enough, which is the hypothesis of its theorems.  The loop
  over timers and the one that ends a client's pending commands walk a list that their callbacks may
  change; they are partial functions with \<^const>\<open>None\<close> for a run that does not end or faults, and the
  theorems on them show that they end.  All other loops are recursions with a termination proof.
  Allocation succeeds unless an argument says otherwise.

  \<^bold>\<open>Not modelled.\<close>  The loop over file descriptors (\<open>select.c\<close>), loading plugins with \<open>dlopen\<close>, opening
  and configuring the serial line, the allocator \<open>talloc.c\<close> (third party) and the log (but not that a request's strings are read to be logged); the
  command-line tools of the gsm directory, which read a terminal and call libgsmd.  Of opkg:
  unpacking, downloading, running scripts, moving files (also the temporary status file over the old one), the command line, freeing memory, the
  table of file owners, and the marks of package vectors.  Messages to the user are left out
  everywhere.  The rest of the repository is a vendored emulator
  (\<open>src/src/host/qemu-neo1973\<close>, third-party code), GUI applications on toolkits that are not part of
  the repository, and firmware and flash tools that act on hardware registers.
\<close>

end
